(* ===== verification/Prelude.thy ===== *)
theory Prelude
  imports Complex_Main "HOL-Library.Word" "HOL-Library.Product_Lexorder"
    "HOL-Library.List_Lexorder" "HOL-Library.Char_ord" "HOL-Library.Option_ord"
    "HOL-Library.AList"
begin

text \<open>
  What every component of the model shares: the names of the machine types, the string
  operations of Rust's standard library the sources call, the row operations the SQL
  statements are written with, and two interfaces.

  A string is a list of characters, one per byte of its UTF-8 form. The operations that are
  defined on Unicode (\<^verbatim>\<open>trim\<close>, \<^verbatim>\<open>to_lowercase\<close>) act on the ASCII characters and leave
  the other bytes alone. An instant is the number of nanoseconds since the Unix epoch; the
  database stores it as fixed width text, which orders as the number does. An amount that
  the code keeps as an f64 is an exact rational, so rounding is not modelled; where the code
  looks at the bits of an f64 the model has the bits.
\<close>

named_theorems row_simps \<open>how the row operations act on a table\<close>
named_theorems string_simps \<open>how the string operations act\<close>

section \<open>Machine types\<close>

type_synonym u8 = "8 word"
type_synonym u64 = "64 word"
type_synonym instant = int
type_synonym id = int

abbreviation ns_per_second :: int where
  "ns_per_second \<equiv> 1000000000"

section \<open>Results\<close>

text \<open>Rust's \<^verbatim>\<open>Result<'a, 'e>\<close> is a sum with the error on the left.\<close>

definition ok_or :: "'e \<Rightarrow> 'a option \<Rightarrow> 'e + 'a" where
  "ok_or e x = (case x of None \<Rightarrow> Inl e | Some a \<Rightarrow> Inr a)"

definition unwrap_or :: "'a \<Rightarrow> 'a option \<Rightarrow> 'a" where
  "unwrap_or d x = (case x of None \<Rightarrow> d | Some a \<Rightarrow> a)"

definition or_else :: "'a option \<Rightarrow> 'a option \<Rightarrow> 'a option" where
  "or_else x y = (case x of None \<Rightarrow> y | Some a \<Rightarrow> Some a)"

definition filter_option :: "('a \<Rightarrow> bool) \<Rightarrow> 'a option \<Rightarrow> 'a option" where
  "filter_option p x = (case x of None \<Rightarrow> None | Some a \<Rightarrow> if p a then Some a else None)"

lemma unwrap_or_simps [simp]:
  "unwrap_or d None = d" "unwrap_or d (Some a) = a"
  by (simp_all add: unwrap_or_def)

lemma or_else_simps [simp]:
  "or_else None y = y" "or_else (Some a) y = Some a" "or_else x None = x"
  by (simp_all add: or_else_def split: option.splits)

lemma filter_option_simps [simp]:
  "filter_option p None = None" "filter_option p (Some a) = (if p a then Some a else None)"
  by (simp_all add: filter_option_def)

lemma ok_or_simps [simp]:
  "ok_or e None = Inl e" "ok_or e (Some a) = Inr a"
  by (simp_all add: ok_or_def)

lemma filter_option_Some_iff [simp]:
  "filter_option p x = Some a \<longleftrightarrow> x = Some a \<and> p a"
  by (auto simp: filter_option_def split: option.splits)

text \<open>SQL's \<^verbatim>\<open>=\<close> on nullable columns: not true when either side is NULL.\<close>

definition sql_eq :: "'a option \<Rightarrow> 'a option \<Rightarrow> bool" where
  "sql_eq a b = (case a of None \<Rightarrow> False | Some x \<Rightarrow> b = Some x)"

lemma sql_eq_iff: "sql_eq a b \<longleftrightarrow> a \<noteq> None \<and> a = b"
  by (auto simp: sql_eq_def split: option.splits)

text \<open>A bound filter, \<^verbatim>\<open>?1 IS NULL OR column = ?1\<close>.\<close>

definition bound_eq :: "'a option \<Rightarrow> 'a \<Rightarrow> bool" where
  "bound_eq b x = (case b of None \<Rightarrow> True | Some y \<Rightarrow> x = y)"

lemma bound_eq_simps [simp]: "bound_eq None x" "bound_eq (Some y) x \<longleftrightarrow> x = y"
  by (simp_all add: bound_eq_def)

section \<open>Strings\<close>

definition is_ws :: "char \<Rightarrow> bool" where
  "is_ws c = (of_char c \<in> {9, 10, 11, 12, 13, 32 :: nat})"

definition trim_start :: "string \<Rightarrow> string" where
  "trim_start s = dropWhile is_ws s"

definition trim :: "string \<Rightarrow> string" where
  "trim s = rev (dropWhile is_ws (rev (dropWhile is_ws s)))"

definition lower_char :: "char \<Rightarrow> char" where
  "lower_char c = (let n = of_char c :: nat in if 65 \<le> n \<and> n \<le> 90 then char_of (n + 32) else c)"

definition to_lower :: "string \<Rightarrow> string" where
  "to_lower s = map lower_char s"

fun starts_with :: "string \<Rightarrow> string \<Rightarrow> bool" where
  "starts_with [] s = True"
| "starts_with (p # ps) [] = False"
| "starts_with (p # ps) (c # cs) = (p = c \<and> starts_with ps cs)"

definition ends_with :: "string \<Rightarrow> string \<Rightarrow> bool" where
  "ends_with p s = starts_with (rev p) (rev s)"

definition strip_prefix :: "string \<Rightarrow> string \<Rightarrow> string option" where
  "strip_prefix p s = (if starts_with p s then Some (drop (length p) s) else None)"

definition strip_suffix :: "string \<Rightarrow> string \<Rightarrow> string option" where
  "strip_suffix p s = (if ends_with p s then Some (take (length s - length p) s) else None)"

fun contains :: "string \<Rightarrow> string \<Rightarrow> bool" where
  "contains p [] = (p = [])"
| "contains p (c # cs) = (starts_with p (c # cs) \<or> contains p cs)"

fun split_on :: "char \<Rightarrow> string \<Rightarrow> string list" where
  "split_on d [] = [[]]"
| "split_on d (c # cs) =
     (if c = d then [] # split_on d cs
      else case split_on d cs of [] \<Rightarrow> [[c]] | w # ws \<Rightarrow> (c # w) # ws)"

lemma trim_ends: "trim s = [] \<or> (\<not> is_ws (hd (trim s)) \<and> \<not> is_ws (last (trim s)))"
proof (cases "trim s = []")
  case False
  let ?u = "dropWhile is_ws s"
  have "dropWhile is_ws (rev ?u) \<noteq> []" using False by (simp add: trim_def)
  then have "\<not> is_ws (last (trim s))"
    by (simp add: trim_def last_rev hd_dropWhile)
  moreover obtain ws where ws: "rev ?u = ws @ dropWhile is_ws (rev ?u)"
    by (metis takeWhile_dropWhile_id)
  then have "?u = trim s @ rev ws" by (metis rev_append rev_rev_ident trim_def)
  then have "hd (trim s) = hd ?u" "?u \<noteq> []" using False by auto
  then have "\<not> is_ws (hd (trim s))" by (simp add: hd_dropWhile)
  ultimately show ?thesis by simp
qed simp

lemma trim_id: "s = [] \<or> (\<not> is_ws (hd s) \<and> \<not> is_ws (last s)) \<Longrightarrow> trim s = s"
proof -
  have keep: "u = [] \<or> \<not> is_ws (hd u) \<Longrightarrow> dropWhile is_ws u = u" for u by (cases u) auto
  show "s = [] \<or> (\<not> is_ws (hd s) \<and> \<not> is_ws (last s)) \<Longrightarrow> trim s = s"
    using keep [of s] keep [of "rev s"] by (auto simp: trim_def hd_rev)
qed

lemma trim_trim [simp]: "trim (trim s) = trim s"
  using trim_ends by (rule trim_id)

lemma starts_with_iff [string_simps]: "starts_with p s \<longleftrightarrow> (\<exists>t. s = p @ t)"
  by (induction p s rule: starts_with.induct) auto

lemma strip_prefix_Some_iff: "strip_prefix p s = Some t \<longleftrightarrow> s = p @ t"
  by (auto simp: strip_prefix_def starts_with_iff)

lemma strip_prefix_append [simp]: "strip_prefix p (p @ t) = Some t"
  by (simp add: strip_prefix_Some_iff)

lemma ends_with_iff [string_simps]: "ends_with p s \<longleftrightarrow> (\<exists>t. s = t @ p)"
  unfolding ends_with_def starts_with_iff
  by (metis rev_append rev_rev_ident)

text \<open>SQLite's \<^verbatim>\<open>TRIM\<close> takes spaces only; its \<^verbatim>\<open>LOWER\<close> folds the ASCII letters.\<close>

definition sql_trim :: "string \<Rightarrow> string" where
  "sql_trim s = rev (dropWhile (\<lambda>c. c = CHR '' '') (rev (dropWhile (\<lambda>c. c = CHR '' '') s)))"

definition folded :: "string \<Rightarrow> string" where
  "folded s = to_lower (sql_trim s)"

lemma contains_head: "starts_with p s \<Longrightarrow> contains p s"
  by (cases s; cases p) auto

lemma contains_later: "contains p s \<Longrightarrow> contains p (u @ s)"
  by (induction u) auto

lemma contains_split: "contains p s \<Longrightarrow> \<exists>u v. s = u @ p @ v"
proof (induction s)
  case Nil
  then show ?case by auto
next
  case (Cons c s)
  then consider "starts_with p (c # s)" | "contains p s" by auto
  then show ?case
  proof cases
    case 1
    then obtain t where "c # s = p @ t" by (auto simp: starts_with_iff)
    then have "c # s = [] @ p @ t" by simp
    then show ?thesis by blast
  next
    case 2
    then obtain u v where "s = u @ p @ v" using Cons by blast
    then have "c # s = (c # u) @ p @ v" by simp
    then show ?thesis by blast
  qed
qed

lemma contains_iff [string_simps]: "contains p s \<longleftrightarrow> (\<exists>u v. s = u @ p @ v)"
proof
  assume "\<exists>u v. s = u @ p @ v"
  then obtain u v where s: "s = u @ p @ v" by blast
  have "starts_with p (p @ v)" by (auto simp: starts_with_iff)
  then show "contains p s" unfolding s by (intro contains_later contains_head)
qed (rule contains_split)

lemma split_on_not_Nil [simp]: "split_on d s \<noteq> []"
  by (induction s) (auto split: list.splits)

text \<open>Bytes that continue a UTF-8 character, so the others count the characters.\<close>

definition is_continuation :: "char \<Rightarrow> bool" where
  "is_continuation c = (let n = of_char c :: nat in 128 \<le> n \<and> n < 192)"

definition char_count :: "string \<Rightarrow> nat" where
  "char_count s = length (filter (\<lambda>c. \<not> is_continuation c) s)"

text \<open>Rust's \<^verbatim>\<open>Iterator::position\<close>.\<close>

fun position :: "('a \<Rightarrow> bool) \<Rightarrow> 'a list \<Rightarrow> nat option" where
  "position p [] = None"
| "position p (x # xs) = (if p x then Some 0 else map_option Suc (position p xs))"

lemma position_SomeD: "position p xs = Some i \<Longrightarrow> i < length xs \<and> p (xs ! i)"
  by (induction xs arbitrary: i) (auto split: if_splits)

lemma position_distinct:
  "distinct xs \<Longrightarrow> i < length xs \<Longrightarrow> position (\<lambda>x. x = xs ! i) xs = Some i"
proof (induction xs arbitrary: i)
  case Nil
  then show ?case by simp
next
  case (Cons x xs)
  then show ?case by (cases i) (auto simp: nth_mem)
qed

lemma snoc_less_snoc:
  fixes xs ys :: "'a::linorder list"
  assumes "length xs = length ys"
  shows "xs @ [a] < ys @ [b] \<longleftrightarrow> xs < ys \<or> (xs = ys \<and> a < b)"
  using assms by (induction xs ys rule: list_induct2) auto

section \<open>Numbers as text and rounding\<close>

definition digit_char :: "nat \<Rightarrow> char" where
  "digit_char n = char_of (48 + n mod 10)"

fun show_nat :: "nat \<Rightarrow> string" where
  "show_nat n = (if n < 10 then [digit_char n] else show_nat (n div 10) @ [digit_char n])"

declare show_nat.simps [simp del]

definition show_int :: "int \<Rightarrow> string" where
  "show_int n = (if n < 0 then CHR ''-'' # show_nat (nat (- n)) else show_nat (nat n))"

definition digit_value :: "char \<Rightarrow> nat option" where
  "digit_value c = (let n = of_char c :: nat in if 48 \<le> n \<and> n \<le> 57 then Some (n - 48) else None)"

definition parse_digits :: "string \<Rightarrow> nat option" where
  "parse_digits s =
     foldl (\<lambda>acc c. case (acc, digit_value c) of (Some n, Some v) \<Rightarrow> Some (10 * n + v) | _ \<Rightarrow> None)
       (if s = [] then None else Some 0) s"

definition in_i64 :: "int \<Rightarrow> bool" where
  "in_i64 n \<longleftrightarrow> - (2 ^ 63) \<le> n \<and> n < 2 ^ 63"

text \<open>Rust's \<^verbatim>\<open>str::parse::<i64>\<close>: one optional sign, digits, and a value in range.\<close>

definition parse_i64 :: "string \<Rightarrow> int option" where
  "parse_i64 s =
     filter_option in_i64
       (case s of
          [] \<Rightarrow> None
        | c # cs \<Rightarrow>
            if c = CHR ''-'' then map_option (\<lambda>n. - int n) (parse_digits cs)
            else if c = CHR ''+'' then map_option int (parse_digits cs)
            else map_option int (parse_digits s))"

lemma digit_value_digit_char [simp]: "digit_value (digit_char n) = Some (n mod 10)"
  by (simp add: digit_value_def digit_char_def)

lemma show_nat_neq_Nil [simp]: "show_nat n \<noteq> []"
  by (simp add: show_nat.simps [of n])

lemma parse_digits_snoc:
  "s \<noteq> [] \<Longrightarrow> parse_digits (s @ [c]) =
     (case (parse_digits s, digit_value c) of (Some n, Some v) \<Rightarrow> Some (10 * n + v) | _ \<Rightarrow> None)"
  by (simp add: parse_digits_def)

lemma parse_show_nat [simp]: "parse_digits (show_nat n) = Some n"
proof (induction n rule: show_nat.induct)
  case (1 n)
  show ?case
  proof (cases "n < 10")
    case True
    then show ?thesis by (simp add: show_nat.simps [of n] parse_digits_def)
  next
    case False
    then show ?thesis using 1 by (simp add: show_nat.simps [of n] parse_digits_snoc)
  qed
qed

lemma show_nat_digits: "c \<in> set (show_nat n) \<Longrightarrow> digit_value c \<noteq> None"
proof (induction n rule: show_nat.induct)
  case (1 n)
  then show ?case by (cases "n < 10") (auto simp: show_nat.simps [of n])
qed

lemma parse_show_int:
  assumes "in_i64 n"
  shows "parse_i64 (show_int n) = Some n"
proof (cases "n < 0")
  case True
  then show ?thesis using assms by (simp add: show_int_def parse_i64_def)
next
  case False
  obtain c cs where c: "show_nat (nat n) = c # cs" by (cases "show_nat (nat n)") auto
  then have "digit_value c \<noteq> None" using show_nat_digits [of c "nat n"] by simp
  then have "c \<noteq> CHR ''-''" "c \<noteq> CHR ''+''" by (auto simp: digit_value_def)
  moreover have "parse_digits (c # cs) = Some (nat n)" using c parse_show_nat [of "nat n"] by simp
  ultimately show ?thesis using False assms by (simp add: show_int_def parse_i64_def c)
qed

text \<open>\<^verbatim>\<open>f64::round\<close> and the rounding of \<^verbatim>\<open>{:.0}\<close>, on exact values.\<close>

definition round_half_away :: "rat \<Rightarrow> int" where
  "round_half_away x = (if 0 \<le> x then \<lfloor>x + 1 / 2\<rfloor> else - \<lfloor>- x + 1 / 2\<rfloor>)"

definition round_half_even :: "rat \<Rightarrow> int" where
  "round_half_even x =
     (let n = \<lfloor>x\<rfloor>; r = x - of_int n
      in if r < 1 / 2 then n else if 1 / 2 < r then n + 1 else if even n then n else n + 1)"

text \<open>Arithmetic on i64 wraps around in a release build.\<close>

definition wrap_i64 :: "int \<Rightarrow> int" where
  "wrap_i64 n = (n + 2 ^ 63) mod 2 ^ 64 - 2 ^ 63"

lemma wrap_i64_id: "in_i64 n \<Longrightarrow> wrap_i64 n = n"
  by (simp add: wrap_i64_def in_i64_def mod_pos_pos_trivial)

text \<open>Rust's \<^verbatim>\<open>Iterator::find_map\<close>.\<close>

fun find_map :: "('a \<Rightarrow> 'b option) \<Rightarrow> 'a list \<Rightarrow> 'b option" where
  "find_map f [] = None"
| "find_map f (x # xs) = (case f x of None \<Rightarrow> find_map f xs | Some y \<Rightarrow> Some y)"

text \<open>A row that sorts last.\<close>

lemma sort_key_snoc:
  assumes "\<And>x. x \<in> set xs \<Longrightarrow> f x \<le> f r"
  shows "sort_key f (xs @ [r]) = sort_key f xs @ [r]"
proof -
  have insort: "f x \<le> f r \<Longrightarrow> insort_key f x (ys @ [r]) = insort_key f x ys @ [r]" for x ys
    by (induction ys) auto
  show ?thesis using assms by (induction xs) (auto simp: insort)
qed

lemma map_of_rev_filter:
  fixes ps :: "('a \<times> 'b) list"
  shows "map_of (rev ps) k =
     (case rev (filter (\<lambda>p. fst p = k) ps) of [] \<Rightarrow> None | p # _ \<Rightarrow> Some (snd p))"
proof -
  have "map_of qs k = (case filter (\<lambda>p. fst p = k) qs of [] \<Rightarrow> None | p # _ \<Rightarrow> Some (snd p))"
    for qs :: "('a \<times> 'b) list"
    by (induction qs) auto
  from this [of "rev ps"] show ?thesis by (simp only: rev_filter)
qed

text \<open>Membership in a list comprehension, one generator or guard at a time.\<close>

lemma in_comprehension:
  "c \<in> set (concat (map f xs)) \<longleftrightarrow> (\<exists>x\<in>set xs. c \<in> set (f x))"
  "c \<in> set (if P then ys else []) \<longleftrightarrow> P \<and> c \<in> set ys"
  "c \<in> set [y] \<longleftrightarrow> c = y"
  by auto

lemma set_map_filter: "set (List.map_filter f xs) = {y. \<exists>x\<in>set xs. f x = Some y}"
  by (induction xs) (auto simp: List.map_filter_simps split: option.splits)

lemma first_unique:
  assumes "x \<in> set xs" and "\<And>y. y \<in> set xs \<Longrightarrow> y = x"
  shows "(case xs of [] \<Rightarrow> None | y # _ \<Rightarrow> Some y) = Some x"
proof (cases xs)
  case Nil
  then show ?thesis using assms(1) by simp
next
  case (Cons y ys)
  then show ?thesis using assms(2) [of y] by simp
qed

section \<open>Ordered maps and sets\<close>

text \<open>
  A \<^verbatim>\<open>BTreeMap\<close> collected from pairs is an association list with one entry per key, the last
  pair's; a \<^verbatim>\<open>BTreeSet\<close> collected from values is their sorted list without repetition.
\<close>

definition collect_map :: "('k \<times> 'v) list \<Rightarrow> ('k \<times> 'v) list" where
  "collect_map ps = fold (\<lambda>(k, v). AList.update k v) ps []"

definition collect_set :: "'a::linorder list \<Rightarrow> 'a list" where
  "collect_set xs = sort (remdups xs)"

lemma collect_map_aux:
  "map_of (fold (\<lambda>(k, v). AList.update k v) ps m) k =
     or_else (map_of (rev ps) k) (map_of m k)"
proof (induction ps arbitrary: m)
  case Nil
  then show ?case by simp
next
  case (Cons p ps)
  obtain a b where "p = (a, b)" by (cases p)
  then show ?case using Cons by (simp add: update_conv' or_else_def map_add_def split: option.splits)
qed

lemma map_of_collect_map: "map_of (collect_map ps) = map_of (rev ps)"
  by (rule ext) (simp add: collect_map_def collect_map_aux)

lemma distinct_collect_map: "distinct (map fst (collect_map ps))"
proof -
  have "distinct (map fst m) \<Longrightarrow> distinct (map fst (fold (\<lambda>(k, v). AList.update k v) ps m))"
    for m :: "('a \<times> 'b) list"
    by (induction ps arbitrary: m) (auto simp: distinct_update)
  then show ?thesis by (simp add: collect_map_def)
qed

lemma map_of_collect_map_distinct:
  "distinct (map fst ps) \<Longrightarrow> map_of (collect_map ps) = map_of ps"
proof (induction ps)
  case Nil
  then show ?case by (simp add: collect_map_def)
next
  case (Cons p ps)
  then show ?case
    by (cases p) (force simp: map_of_collect_map fun_eq_iff map_add_def dest: map_of_SomeD
        split: option.splits)
qed

lemma map_of_collect_mapD: "map_of (collect_map ps) k = Some v \<Longrightarrow> (k, v) \<in> set ps"
  by (auto simp: map_of_collect_map dest: map_of_SomeD)

lemma set_collect_set [simp]: "set (collect_set xs) = set xs"
  by (simp add: collect_set_def)

lemma sorted_collect_set: "sorted_wrt (<) (collect_set xs)"
  by (simp add: collect_set_def strict_sorted_iff)

section \<open>Tables\<close>

text \<open>A table is the list of its rows in rowid order.\<close>

definition update_where :: "('r \<Rightarrow> bool) \<Rightarrow> ('r \<Rightarrow> 'r) \<Rightarrow> 'r list \<Rightarrow> 'r list" where
  "update_where p f rows = map (\<lambda>r. if p r then f r else r) rows"

definition delete_where :: "('r \<Rightarrow> bool) \<Rightarrow> 'r list \<Rightarrow> 'r list" where
  "delete_where p rows = filter (\<lambda>r. \<not> p r) rows"

definition count_where :: "('r \<Rightarrow> bool) \<Rightarrow> 'r list \<Rightarrow> nat" where
  "count_where p rows = length (filter p rows)"

text \<open>
  \<^verbatim>\<open>INSERT ... ON CONFLICT (key) DO UPDATE SET ...\<close>: \<open>merge new old\<close> is the row the
  update leaves. A conflict clause with a condition leaves \<open>old\<close> where it fails.
\<close>

definition upsert :: "('r \<Rightarrow> 'k) \<Rightarrow> ('r \<Rightarrow> 'r \<Rightarrow> 'r) \<Rightarrow> 'r \<Rightarrow> 'r list \<Rightarrow> 'r list" where
  "upsert key merge new rows =
     (if \<exists>r\<in>set rows. key r = key new
      then update_where (\<lambda>r. key r = key new) (merge new) rows
      else rows @ [new])"

lemma set_update_where [row_simps]:
  "set (update_where p f rows) = f ` {r \<in> set rows. p r} \<union> {r \<in> set rows. \<not> p r}"
  by (auto simp: update_where_def)

lemma set_delete_where [row_simps]: "set (delete_where p rows) = {r \<in> set rows. \<not> p r}"
  by (simp add: delete_where_def)

lemma length_update_where [simp]: "length (update_where p f rows) = length rows"
  by (simp add: update_where_def)

lemma map_update_where:
  assumes "\<And>r. r \<in> set rows \<Longrightarrow> p r \<Longrightarrow> g (f r) = g r"
  shows "map g (update_where p f rows) = map g rows"
  using assms by (simp add: update_where_def)

lemma update_where_Nil [simp]: "update_where p f [] = []"
  by (simp add: update_where_def)

lemma update_where_Cons [simp]:
  "update_where p f (r # rows) = (if p r then f r else r) # update_where p f rows"
  by (simp add: update_where_def)

lemma update_where_append [simp]:
  "update_where p f (xs @ ys) = update_where p f xs @ update_where p f ys"
  by (simp add: update_where_def)

lemma update_where_idle:
  assumes "\<And>r. r \<in> set rows \<Longrightarrow> p r \<Longrightarrow> f r = r"
  shows "update_where p f rows = rows"
  using assms by (induction rows) auto

lemma find_update_where_other:
  assumes "\<And>r. p r \<Longrightarrow> \<not> q r" and "\<And>r. p r \<Longrightarrow> \<not> q (f r)"
  shows "find q (update_where p f rows) = find q rows"
  using assms by (induction rows) auto

lemma find_append: "find q (xs @ ys) = or_else (find q xs) (find q ys)"
  by (induction xs) auto

lemma find_Some_set: "find q xs = Some x \<Longrightarrow> x \<in> set xs \<and> q x"
  by (auto simp: find_Some_iff)

lemma find_delete_where_other:
  assumes "\<And>r. p r \<Longrightarrow> \<not> q r"
  shows "find q (delete_where p rows) = find q rows"
  using assms by (induction rows) (auto simp: delete_where_def)

lemma distinct_map_eqD:
  "distinct (map key rows) \<Longrightarrow> r \<in> set rows \<Longrightarrow> s \<in> set rows \<Longrightarrow> key r = key s \<Longrightarrow> r = s"
  by (auto simp: distinct_map dest: inj_onD)

lemma distinct_find_key:
  assumes "distinct (map key rows)" and "r \<in> set rows"
  shows "find (\<lambda>x. key x = key r) rows = Some r"
  using assms by (induction rows) (auto simp: image_iff)

text \<open>
  The contract of an upsert: a merged row keeps the key it conflicts on. The table then
  keeps one row per key, and a lookup after the statement finds the inserted or merged row.
\<close>

locale keyed_upsert =
  fixes key :: "'r \<Rightarrow> 'k"
    and merge :: "'r \<Rightarrow> 'r \<Rightarrow> 'r"
  assumes key_merge: "key (merge new old) = key old"
begin

lemma keys_upsert:
  "map key (upsert key merge new rows) =
     (if key new \<in> key ` set rows then map key rows else map key rows @ [key new])"
proof -
  have "(\<exists>r\<in>set rows. key r = key new) \<longleftrightarrow> key new \<in> key ` set rows"
    by (metis imageE image_eqI)
  then show ?thesis by (simp add: upsert_def map_update_where key_merge)
qed

lemma distinct_upsert:
  "distinct (map key rows) \<Longrightarrow> distinct (map key (upsert key merge new rows))"
  by (simp add: keys_upsert)

lemma find_upsert_same:
  "find (\<lambda>r. key r = key new) (upsert key merge new rows) =
     Some (case find (\<lambda>r. key r = key new) rows of None \<Rightarrow> new | Some old \<Rightarrow> merge new old)"
proof (cases "\<exists>r\<in>set rows. key r = key new")
  case True
  then have "find (\<lambda>r. key r = key new) (update_where (\<lambda>r. key r = key new) (merge new) rows) =
      Some (case find (\<lambda>r. key r = key new) rows of None \<Rightarrow> new | Some old \<Rightarrow> merge new old)"
    by (induction rows) (auto simp: key_merge)
  then show ?thesis using True by (simp add: upsert_def)
next
  case False
  then have "find (\<lambda>r. key r = key new) rows = None"
    by (auto simp: find_None_iff)
  then show ?thesis using False by (auto simp: upsert_def find_append)
qed

lemma find_upsert_other:
  assumes "k \<noteq> key new"
  shows "find (\<lambda>r. key r = k) (upsert key merge new rows) = find (\<lambda>r. key r = k) rows"
proof (cases "\<exists>r\<in>set rows. key r = key new")
  case True
  have "find (\<lambda>r. key r = k) (update_where (\<lambda>r. key r = key new) (merge new) rows) =
      find (\<lambda>r. key r = k) rows"
    using assms by (intro find_update_where_other) (auto simp: key_merge)
  then show ?thesis using True by (simp add: upsert_def)
next
  case False
  then have "upsert key merge new rows = rows @ [new]" by (simp add: upsert_def)
  then show ?thesis using assms by (cases "find (\<lambda>r. key r = k) rows") (auto simp: find_append)
qed

lemma upsert_idle:
  assumes "distinct (map key rows)" and "old \<in> set rows" and "key old = key new"
    and "merge new old = old"
  shows "upsert key merge new rows = rows"
proof -
  have "\<And>r. r \<in> set rows \<Longrightarrow> key r = key new \<Longrightarrow> r = old"
    using assms(1-3) by (metis inj_onD distinct_map)
  then have "update_where (\<lambda>r. key r = key new) (merge new) rows = rows"
    using assms(4) by (intro update_where_idle) auto
  then show ?thesis using assms(2,3) by (auto simp: upsert_def)
qed

end

section \<open>Codecs\<close>

text \<open>
  A stored form and its reader, as every enum of the schema has (\<^verbatim>\<open>stored\<close> and
  \<^verbatim>\<open>FromStr\<close>): what was written reads back as itself.
\<close>

locale codec =
  fixes stored :: "'a \<Rightarrow> 'b"
    and parse :: "'b \<Rightarrow> 'e + 'a"
  assumes parse_stored: "parse (stored x) = Inr x"
begin

lemma stored_inj: "stored x = stored y \<Longrightarrow> x = y"
  by (metis parse_stored sum.inject(2))

lemma stored_eq_iff: "stored x = stored y \<longleftrightarrow> x = y"
  by (auto dest: stored_inj)

end

end
