(* ===== verification/Ids.thy ===== *)
theory Ids
  imports Prelude
begin

unbundle bit_operations_syntax

text \<open>
  The snowflake ids of \<^verbatim>\<open>src/id.rs\<close>: the eleven character base 62 form an id has in URLs
  and JSON, its decoder with every error, and the generator that mints ids from a clock and
  an atomic word. An id is its 64 bits here; the database keeps them as a signed integer.
  The generator is shared by threads, so a run is the list of all loop passes in the order
  in which they reach the compare-exchange. A pass whose exchange fails, because another
  thread stored first or spuriously, changes nothing and is tried again.
\<close>

section \<open>The encoded form\<close>

definition EPOCH_MS :: u64 where
  "EPOCH_MS = 1735689600000"

definition SEQUENCE_BITS :: nat where
  "SEQUENCE_BITS = 12"

definition NODE_BITS :: nat where
  "NODE_BITS = 10"

definition SEQUENCE_MASK :: u64 where
  "SEQUENCE_MASK = push_bit SEQUENCE_BITS 1 - 1"

definition NODE_MASK :: u64 where
  "NODE_MASK = push_bit NODE_BITS 1 - 1"

definition ALPHABET :: string where
  "ALPHABET = ''0123456789ABCDEFGHIJKLMNOPQRSTUVWXYZabcdefghijklmnopqrstuvwxyz''"

definition ENCODED_LEN :: nat where
  "ENCODED_LEN = 11"

fun encode_loop :: "nat \<Rightarrow> u64 \<Rightarrow> string \<Rightarrow> string" where
  "encode_loop 0 v buffer = buffer"
| "encode_loop (Suc index) v buffer =
     encode_loop index (v div 62) (buffer[index := ALPHABET ! unat (v mod 62)])"

definition encode :: "u64 \<Rightarrow> string" where
  "encode v = encode_loop ENCODED_LEN v (replicate ENCODED_LEN CHR ''0'')"

definition milliseconds :: "u64 \<Rightarrow> u64" where
  "milliseconds v = drop_bit (SEQUENCE_BITS + NODE_BITS) v + EPOCH_MS"

datatype decode_error = Length nat | Character string | Overflow

definition checked_mul :: "u64 \<Rightarrow> u64 \<Rightarrow> u64 option" where
  "checked_mul a b = (if unat a * unat b < 2 ^ 64 then Some (a * b) else None)"

definition checked_add :: "u64 \<Rightarrow> u64 \<Rightarrow> u64 option" where
  "checked_add a b = (if unat a + unat b < 2 ^ 64 then Some (a + b) else None)"

text \<open>The error names the whole character, which may be several bytes.\<close>

fun decode_loop :: "u64 \<Rightarrow> string \<Rightarrow> decode_error + u64" where
  "decode_loop v [] = Inr v"
| "decode_loop v (c # cs) =
     (case position (\<lambda>candidate. candidate = c) ALPHABET of
        None \<Rightarrow> Inl (Character (c # takeWhile is_continuation cs))
      | Some digit \<Rightarrow>
          (case Option.bind (checked_mul v 62) (\<lambda>shifted. checked_add shifted (of_nat digit)) of
             None \<Rightarrow> Inl Overflow
           | Some v' \<Rightarrow> decode_loop v' cs))"

definition I64_MAX :: u64 where
  "I64_MAX = 9223372036854775807"

definition decode :: "string \<Rightarrow> decode_error + u64" where
  "decode s =
     (if length s \<noteq> ENCODED_LEN then Inl (Length (length s))
      else case decode_loop 0 s of
             Inl e \<Rightarrow> Inl e
           | Inr v \<Rightarrow> if v > I64_MAX then Inl Overflow else Inr v)"

text \<open>The rows keep an id as an integer, \<^verbatim>\<open>Id::raw\<close>.\<close>

definition encode_id :: "id \<Rightarrow> string" where
  "encode_id i = encode (of_int i)"

definition parse_id :: "string \<Rightarrow> id option" where
  "parse_id text = (case decode text of Inl _ \<Rightarrow> None | Inr v \<Rightarrow> Some (uint v))"

section \<open>The generator\<close>

record generator =
  node :: u64
  gen_state :: u64

definition new_generator :: "16 word \<Rightarrow> generator" where
  "new_generator n = \<lparr>node = ucast n AND NODE_MASK, gen_state = 0\<rparr>"

text \<open>One pass of the loop up to the exchange: the next state and the id, or a spin.\<close>

definition attempt :: "u64 \<Rightarrow> u64 \<Rightarrow> u64 \<Rightarrow> (u64 \<times> u64) option" where
  "attempt nd previous now =
     (let previous_milliseconds = drop_bit SEQUENCE_BITS previous;
          previous_sequence = previous AND SEQUENCE_MASK;
          (ms, sequence) =
            (if now > previous_milliseconds then (now, 0)
             else (previous_milliseconds, previous_sequence + 1))
      in if sequence > SEQUENCE_MASK then None
         else Some (push_bit SEQUENCE_BITS ms OR sequence,
                    push_bit (SEQUENCE_BITS + NODE_BITS) ms OR push_bit SEQUENCE_BITS nd
                      OR sequence))"

text \<open>A pass is a clock reading and whether the exchange went through.\<close>

definition mint_pass :: "generator \<Rightarrow> u64 \<times> bool \<Rightarrow> generator \<times> u64 option" where
  "mint_pass g pass =
     (case attempt (node g) (gen_state g) (fst pass) of
        None \<Rightarrow> (g, None)
      | Some (state', raw) \<Rightarrow> if snd pass then (g\<lparr>gen_state := state'\<rparr>, Some raw) else (g, None))"

fun mint_run :: "generator \<Rightarrow> (u64 \<times> bool) list \<Rightarrow> u64 list" where
  "mint_run g [] = []"
| "mint_run g (p # ps) =
     (case mint_pass g p of
        (g', None) \<Rightarrow> mint_run g' ps
      | (g', Some raw) \<Rightarrow> raw # mint_run g' ps)"

text \<open>The clock, in milliseconds since the service's epoch, from the system's reading.\<close>

definition milliseconds_since_epoch :: "nat option \<Rightarrow> u64" where
  "milliseconds_since_epoch elapsed_ms =
     (let now = unwrap_or EPOCH_MS
          (case elapsed_ms of
             None \<Rightarrow> None
           | Some ms \<Rightarrow> if ms < 2 ^ 64 then Some (of_nat ms) else None)
      in if now < EPOCH_MS then 0 else now - EPOCH_MS)"

section \<open>Base 62 on the naturals\<close>

fun digits62 :: "nat \<Rightarrow> nat \<Rightarrow> string" where
  "digits62 0 n = []"
| "digits62 (Suc k) n = digits62 k (n div 62) @ [ALPHABET ! (n mod 62)]"

lemma length_digits62 [simp]: "length (digits62 k n) = k"
  by (induction k arbitrary: n) auto

lemma length_ALPHABET [simp]: "length ALPHABET = 62"
  by (simp add: ALPHABET_def)

lemma ALPHABET_sorted: "sorted_wrt (<) ALPHABET"
  unfolding ALPHABET_def by code_simp

lemma distinct_ALPHABET [simp]: "distinct ALPHABET"
  using ALPHABET_sorted strict_sorted_iff by blast

lemma ALPHABET_less: "i < 62 \<Longrightarrow> j < 62 \<Longrightarrow> ALPHABET ! i < ALPHABET ! j \<longleftrightarrow> i < j"
  using sorted_wrt_nth_less [OF ALPHABET_sorted] length_ALPHABET
  by (metis linorder_less_linear order_less_asym)

lemma position_ALPHABET [simp]:
  "i < 62 \<Longrightarrow> position (\<lambda>c. c = ALPHABET ! i) ALPHABET = Some i"
  by (simp add: position_distinct)

lemma encode_loop_digits:
  "index \<le> length buffer \<Longrightarrow>
   encode_loop index v buffer = digits62 index (unat v) @ drop index buffer"
proof (induction index arbitrary: v buffer)
  case 0
  then show ?case by simp
next
  case (Suc index)
  let ?b = "buffer[index := ALPHABET ! unat (v mod 62)]"
  have "encode_loop (Suc index) v buffer = digits62 index (unat (v div 62)) @ drop index ?b"
    using Suc by simp
  moreover have "drop index ?b = (ALPHABET ! unat (v mod 62)) # drop (Suc index) buffer"
    using Suc.prems by (simp add: Cons_nth_drop_Suc [symmetric])
  ultimately show ?case by (simp add: unat_div unat_mod)
qed

lemma encode_digits: "encode v = digits62 11 (unat v)"
  by (simp add: encode_def ENCODED_LEN_def encode_loop_digits)

lemma less_div_mod:
  fixes a b c d :: nat
  assumes "b < 62" and "d < 62"
  shows "a * 62 + b < c * 62 + d \<longleftrightarrow> a < c \<or> (a = c \<and> b < d)"
  using assms by (cases "a < c"; cases "c < a") (auto dest: less_imp_add_positive)

lemma digits62_less:
  "m < 62 ^ k \<Longrightarrow> n < 62 ^ k \<Longrightarrow> digits62 k m < digits62 k n \<longleftrightarrow> m < n"
proof (induction k arbitrary: m n)
  case 0
  then show ?case by simp
next
  case (Suc k)
  have lt: "m div 62 < 62 ^ k" "n div 62 < 62 ^ k"
    using Suc.prems by (simp_all add: less_mult_imp_div_less mult.commute)
  have eq: "digits62 k (m div 62) = digits62 k (n div 62) \<longleftrightarrow> m div 62 = n div 62"
    using Suc.IH lt by (metis nat_neq_iff order_less_irrefl)
  have "digits62 (Suc k) m < digits62 (Suc k) n \<longleftrightarrow>
      m div 62 < n div 62 \<or> (m div 62 = n div 62 \<and> m mod 62 < n mod 62)"
    by (simp add: snoc_less_snoc Suc.IH lt eq ALPHABET_less)
  also have "\<dots> \<longleftrightarrow> m div 62 * 62 + m mod 62 < n div 62 * 62 + n mod 62"
    by (rule less_div_mod [symmetric]) simp_all
  also have "\<dots> \<longleftrightarrow> m < n" by simp
  finally show ?case .
qed

section \<open>Decoding\<close>

lemma decode_loop_append_Inr:
  "decode_loop v xs = Inr v' \<Longrightarrow> decode_loop v (xs @ ys) = decode_loop v' ys"
  by (induction xs arbitrary: v) (auto split: option.splits)

lemma decode_loop_appendD:
  "decode_loop v (xs @ ys) = Inr w \<Longrightarrow> \<exists>u. decode_loop v xs = Inr u \<and> decode_loop u ys = Inr w"
  by (induction xs arbitrary: v) (auto split: option.splits)

lemma checked_step:
  assumes "unat v * 62 + d < 2 ^ 64" and "d < 62"
  shows "Option.bind (checked_mul v 62) (\<lambda>s. checked_add s (of_nat d)) = Some (v * 62 + of_nat d)"
    and "unat (v * 62 + of_nat d :: u64) = unat v * 62 + d"
proof -
  have d: "unat (of_nat d :: u64) = d" using assms(2) by (simp add: unat_of_nat)
  have m: "unat (v * 62) = unat v * 62"
    using assms(1) by (subst unat_mult_lem [THEN iffD1]) simp_all
  show "Option.bind (checked_mul v 62) (\<lambda>s. checked_add s (of_nat d)) = Some (v * 62 + of_nat d)"
    using assms by (simp add: checked_mul_def checked_add_def m d)
  show "unat (v * 62 + of_nat d :: u64) = unat v * 62 + d"
    using assms(1) by (subst unat_add_lem [THEN iffD1]) (simp_all add: m d)
qed

lemma decode_loop_digits:
  "n < 62 ^ k \<Longrightarrow> n < 2 ^ 64 \<Longrightarrow> decode_loop 0 (digits62 k n) = Inr (of_nat n)"
proof (induction k arbitrary: n)
  case 0
  then show ?case by simp
next
  case (Suc k)
  have lt: "n div 62 < 62 ^ k" "n div 62 < 2 ^ 64"
    using Suc.prems by (auto simp: less_mult_imp_div_less mult.commute intro: le_less_trans [OF div_le_dividend])
  let ?v = "of_nat (n div 62) :: u64"
  have u: "unat ?v = n div 62" using lt(2) by (simp add: unat_of_nat)
  have s: "unat ?v * 62 + n mod 62 < 2 ^ 64" using Suc.prems u by simp
  have "decode_loop 0 (digits62 (Suc k) n) = decode_loop ?v [ALPHABET ! (n mod 62)]"
    using decode_loop_append_Inr [OF Suc.IH [OF lt]] by simp
  also have "\<dots> = Inr (?v * 62 + of_nat (n mod 62))"
    using checked_step(1) [OF s] by simp
  also have "?v * 62 + of_nat (n mod 62) = (of_nat (n div 62 * 62 + n mod 62) :: u64)"
    by (simp only: of_nat_add of_nat_mult of_nat_numeral)
  finally show ?case by simp
qed

lemma decode_loop_bindD:
  assumes "Option.bind (checked_mul v 62) (\<lambda>s. checked_add s (of_nat d)) = Some v'" and "d < 62"
  shows "unat v' = unat v * 62 + d"
proof -
  have m: "unat v * 62 < 2 ^ 64" and a: "unat (v * 62) + unat (of_nat d :: u64) < 2 ^ 64"
    and v': "v' = v * 62 + of_nat d"
    using assms(1) by (auto simp: checked_mul_def checked_add_def split: if_splits)
  have "unat (v * 62) = unat v * 62" using m by (subst unat_mult_lem [THEN iffD1]) simp_all
  moreover have "unat (of_nat d :: u64) = d" using assms(2) by (simp add: unat_of_nat)
  ultimately show ?thesis using a checked_step(2) [OF _ assms(2), of v] v' by simp
qed

lemma decode_loop_snocD:
  assumes "decode_loop v (xs @ [c]) = Inr w"
  obtains u d where "decode_loop v xs = Inr u" "d < 62" "c = ALPHABET ! d"
    "unat w = unat u * 62 + d"
proof -
  from decode_loop_appendD [OF assms]
  obtain u where u: "decode_loop v xs = Inr u" "decode_loop u [c] = Inr w" by blast
  from u(2) obtain d where d: "position (\<lambda>x. x = c) ALPHABET = Some d"
      "Option.bind (checked_mul u 62) (\<lambda>s. checked_add s (of_nat d)) = Some w"
    by (auto split: option.splits)
  from position_SomeD [OF d(1)] have "d < 62" "c = ALPHABET ! d" by auto
  with decode_loop_bindD [OF d(2)] u(1) that show ?thesis by blast
qed

lemma decode_loop_digits_back:
  "decode_loop 0 xs = Inr w \<Longrightarrow> digits62 (length xs) (unat w) = xs"
proof (induction xs arbitrary: w rule: rev_induct)
  case Nil
  then show ?case by simp
next
  case (snoc c xs)
  from snoc.prems obtain u d where "decode_loop 0 xs = Inr u" "d < 62" "c = ALPHABET ! d"
      "unat w = unat u * 62 + d"
    by (rule decode_loop_snocD)
  then show ?case using snoc.IH by simp
qed

lemma unat_le_I64_MAX: "v \<le> I64_MAX \<longleftrightarrow> unat v < 2 ^ 63"
  by (simp add: word_le_nat_alt I64_MAX_def) linarith

lemma bound_62_11: "unat (v :: u64) < 62 ^ 11"
  using unsigned_less [of v, where ?'a = nat] by simp

section \<open>Minting on the naturals\<close>

lemma push_or_nat: "(b::nat) < 2 ^ n \<Longrightarrow> push_bit n a OR b = a * 2 ^ n + b"
proof -
  assume "b < 2 ^ n"
  then have "b = take_bit n b" by (simp add: take_bit_nat_eq_self)
  then have "\<And>i. bit b i \<Longrightarrow> \<not> n \<le> i" by (metis bit_take_bit_iff not_le)
  then have "push_bit n a AND b = 0"
    by (intro bit_eqI) (auto simp: bit_and_iff bit_push_bit_iff)
  then show ?thesis by (simp add: disjunctive_add_eq_or push_bit_eq_mult [symmetric])
qed

lemma unat_push: "unat (v :: u64) * 2 ^ n < 2 ^ 64 \<Longrightarrow> unat (push_bit n v) = unat v * 2 ^ n"
proof -
  assume *: "unat v * 2 ^ n < 2 ^ 64"
  have "unat (push_bit n v) = take_bit 64 (push_bit n (unat v))"
    by (simp only: unsigned_push_bit_eq) simp
  then show ?thesis using * by (simp only: push_bit_eq_mult take_bit_nat_eq_self)
qed

lemma unat_SEQUENCE_MASK [simp]: "unat SEQUENCE_MASK = 4095"
  by (simp add: SEQUENCE_MASK_def SEQUENCE_BITS_def)

lemma unat_and_mask: "unat ((v :: u64) AND SEQUENCE_MASK) = unat v mod 4096"
proof -
  have "unat (v AND SEQUENCE_MASK) = unat v AND mask 12"
    by (simp add: unsigned_and_eq mask_eq_exp_minus_1)
  then show ?thesis by (simp add: take_bit_eq_mask [symmetric] take_bit_eq_mod)
qed

definition raw_of :: "nat \<Rightarrow> nat \<Rightarrow> nat" where
  "raw_of nd s = s div 4096 * 2 ^ 22 + nd * 4096 + s mod 4096"

lemma raw_of_less:
  assumes "nd < 1024" and "s < t"
  shows "raw_of nd s < raw_of nd t"
proof (cases "s div 4096 = t div 4096")
  case True
  then have "s mod 4096 < t mod 4096"
    using assms(2) by (metis div_mult_mod_eq nat_add_left_cancel_less)
  then show ?thesis using True by (simp add: raw_of_def)
next
  case False
  then have "s div 4096 < t div 4096"
    using assms(2) by (simp add: div_le_mono le_neq_implies_less less_imp_le)
  then have "(s div 4096 + 1) * 2 ^ 22 \<le> t div 4096 * 2 ^ 22" by (intro mult_right_mono) auto
  moreover have "s mod 4096 < 4096" by simp
  ultimately show ?thesis using assms(1) by (simp add: raw_of_def)
qed

lemma attempt_SomeD:
  assumes "attempt nd previous now = Some (s, raw)"
    and "unat nd < 1024" and "unat previous < 2 ^ 53" and "unat now < 2 ^ 41"
  shows "unat previous < unat s" and "unat s < 2 ^ 53" and "unat raw = raw_of (unat nd) (unat s)"
    and "unat s div 4096 = max (unat now) (unat previous div 4096)"
proof -
  let ?pm = "drop_bit SEQUENCE_BITS previous" and ?ps = "previous AND SEQUENCE_MASK"
  have pm: "unat ?pm = unat previous div 4096"
    by (simp add: drop_bit_eq_div unat_div SEQUENCE_BITS_def)
  have ps: "unat ?ps = unat previous mod 4096" by (rule unat_and_mask)
  have ps1: "unat (?ps + 1) = unat previous mod 4096 + 1"
  proof -
    have "unat ?ps + unat (1 :: u64) < 2 ^ 64"
      using mod_less_divisor [of 4096 "unat previous"] by (simp add: ps)
    then show ?thesis by (subst unat_add_lem [THEN iffD1]) (simp_all add: ps)
  qed
  define ms where "ms = (if now > ?pm then now else ?pm)"
  define sq where "sq = (if now > ?pm then 0 else ?ps + 1)"
  have cond: "sq \<le> SEQUENCE_MASK" and s: "s = push_bit SEQUENCE_BITS ms OR sq"
    and raw: "raw = push_bit (SEQUENCE_BITS + NODE_BITS) ms OR push_bit SEQUENCE_BITS nd OR sq"
    using assms(1) by (auto simp: attempt_def Let_def ms_def sq_def split: if_splits)
  have sq: "unat sq < 4096" using cond by (simp add: word_le_nat_alt)
  have "unat previous div 4096 < 2 ^ 41"
    using assms(3) by (simp add: less_mult_imp_div_less)
  then have msb: "unat ms < 2 ^ 41"
    using assms(4) by (simp add: ms_def pm)
  have us: "unat s = unat ms * 4096 + unat sq"
  proof -
    have "unat s = push_bit 12 (unat ms) OR unat sq"
      using msb unat_push [of ms 12]
      by (simp add: s unsigned_or_eq SEQUENCE_BITS_def push_bit_eq_mult)
    then show ?thesis using sq push_or_nat [of "unat sq" 12 "unat ms"] by simp
  qed
  have ur: "unat raw = unat ms * 2 ^ 22 + unat nd * 4096 + unat sq"
  proof -
    have "unat raw = push_bit 22 (unat ms) OR (push_bit 12 (unat nd) OR unat sq)"
      using msb assms(2) unat_push [of ms 22] unat_push [of nd 12]
      by (simp add: raw unsigned_or_eq SEQUENCE_BITS_def NODE_BITS_def push_bit_eq_mult or.assoc)
    also have "push_bit 12 (unat nd) OR unat sq = unat nd * 4096 + unat sq"
      using sq push_or_nat [of "unat sq" 12 "unat nd"] by simp
    also have "push_bit 22 (unat ms) OR (unat nd * 4096 + unat sq) =
        unat ms * 2 ^ 22 + (unat nd * 4096 + unat sq)"
      using sq assms(2) by (intro push_or_nat) simp
    finally show ?thesis by simp
  qed
  have ms: "unat ms = max (unat now) (unat previous div 4096)"
    by (auto simp: ms_def pm word_less_nat_alt max_def)
  show "unat s div 4096 = max (unat now) (unat previous div 4096)"
    using sq by (simp add: us ms)
  show "unat s < 2 ^ 53" using sq msb by (simp add: us)
  show "unat raw = raw_of (unat nd) (unat s)"
    using sq by (simp add: ur us raw_of_def)
  have "unat previous = unat previous div 4096 * 4096 + unat previous mod 4096" by simp
  moreover have "unat previous mod 4096 < 4096" by simp
  ultimately show "unat previous < unat s"
    using sq by (simp add: us ms_def sq_def pm ps1 word_less_nat_alt split: if_splits)
qed

definition generator_ok :: "generator \<Rightarrow> bool" where
  "generator_ok g \<longleftrightarrow> unat (node g) < 1024 \<and> unat (gen_state g) < 2 ^ 53"

lemma new_generator_ok [simp]: "generator_ok (new_generator n)"
proof -
  have "unat (ucast n AND NODE_MASK :: u64) = unat (ucast n :: u64) AND mask 10"
    by (simp add: unsigned_and_eq NODE_MASK_def NODE_BITS_def mask_eq_exp_minus_1)
  then show ?thesis
    by (simp add: generator_ok_def new_generator_def take_bit_eq_mask [symmetric] take_bit_eq_mod)
qed

lemma mint_pass_ok:
  assumes "generator_ok g" and "unat (fst p) < 2 ^ 41" and "mint_pass g p = (g', r)"
  shows "generator_ok g'" and "node g' = node g" and "unat (gen_state g) \<le> unat (gen_state g')"
    and "r = Some raw \<Longrightarrow> unat raw = raw_of (unat (node g)) (unat (gen_state g')) \<and>
           unat (gen_state g) < unat (gen_state g')"
proof -
  have ok: "unat (node g) < 1024" "unat (gen_state g) < 2 ^ 53"
    using assms(1) by (simp_all only: generator_ok_def)
  note step = attempt_SomeD [OF _ ok assms(2)]
  consider "g' = g" "r = None"
    | s raw' where "attempt (node g) (gen_state g) (fst p) = Some (s, raw')"
        "g' = g\<lparr>gen_state := s\<rparr>" "r = Some raw'"
    using assms(3) by (auto simp: mint_pass_def split: option.splits if_splits)
  then have "generator_ok g' \<and> node g' = node g \<and> unat (gen_state g) \<le> unat (gen_state g') \<and>
    (\<forall>raw. r = Some raw \<longrightarrow> unat raw = raw_of (unat (node g)) (unat (gen_state g')) \<and>
           unat (gen_state g) < unat (gen_state g'))"
  proof cases
    case 1
    then show ?thesis using assms(1) by simp
  next
    case 2
    from step(1-3) [OF 2(1)] show ?thesis using 2 ok(1)
      by (simp add: generator_ok_def del: power_numeral)
  qed
  then show "generator_ok g'" and "node g' = node g" and "unat (gen_state g) \<le> unat (gen_state g')"
    and "r = Some raw \<Longrightarrow> unat raw = raw_of (unat (node g)) (unat (gen_state g')) \<and>
           unat (gen_state g) < unat (gen_state g')"
    by blast+
qed

lemma mint_run_raw:
  assumes "generator_ok g" and "\<forall>p\<in>set ps. unat (fst p) < 2 ^ 41"
  shows "\<exists>ss. map unat (mint_run g ps) = map (raw_of (unat (node g))) ss \<and>
           sorted_wrt (<) ss \<and> (\<forall>s\<in>set ss. unat (gen_state g) < s \<and> s < 2 ^ 53)"
  using assms
proof (induction ps arbitrary: g)
  case Nil
  then show ?case by (intro exI [of _ "[]"]) simp
next
  case (Cons p ps)
  obtain g' r where pass: "mint_pass g p = (g', r)" by force
  have bound: "unat (fst p) < 2 ^ 41" and rest: "\<forall>p\<in>set ps. unat (fst p) < 2 ^ 41"
    using Cons.prems(2) by simp_all
  note ok = mint_pass_ok [OF Cons.prems(1) bound pass]
  from Cons.IH [OF ok(1) rest] ok(2)
  obtain ss where ss: "map unat (mint_run g' ps) = map (raw_of (unat (node g))) ss"
      "sorted_wrt (<) ss" "\<forall>s\<in>set ss. unat (gen_state g') < s \<and> s < 2 ^ 53"
    by auto
  show ?case
  proof (cases r)
    case None
    then have "mint_run g (p # ps) = mint_run g' ps" using pass by simp
    then show ?thesis using ss ok(3) by (intro exI [of _ ss]) force
  next
    case (Some raw)
    then have run: "mint_run g (p # ps) = raw # mint_run g' ps" using pass by simp
    have lt: "unat raw = raw_of (unat (node g)) (unat (gen_state g'))"
        "unat (gen_state g) < unat (gen_state g')"
      using ok(4) [OF Some] by simp_all
    have "unat (gen_state g') < 2 ^ 53" using ok(1) by (simp only: generator_ok_def)
    then show ?thesis unfolding run using ss lt
      by (intro exI [of _ "unat (gen_state g') # ss"]) force
  qed
qed

lemma raw_bound_aux:
  fixes a b c :: nat
  assumes "a < 2199023255552" and "b < 1024" and "c < 4096"
  shows "a * 4194304 + b * 4096 + c < 9223372036854775808"
proof -
  have "Suc a * 4194304 \<le> 2199023255552 * 4194304"
    by (rule mult_le_mono1) (use assms(1) in simp)
  then have "a * 4194304 + 4194304 \<le> 9223372036854775808" by simp
  moreover have "Suc b * 4096 \<le> 1024 * 4096" by (rule mult_le_mono1) (use assms(2) in simp)
  ultimately show ?thesis using assms(3) by simp
qed

lemma raw_of_bound:
  assumes "nd < 1024" and "s < 2 ^ 53"
  shows "raw_of nd s < 2 ^ 63"
proof -
  have pow: "(2::nat) ^ 22 = 4194304" "(2::nat) ^ 63 = 9223372036854775808" by simp_all
  have "s < 2199023255552 * 4096" using assms(2) by simp
  then have "s div 4096 < 2199023255552" by (rule less_mult_imp_div_less)
  moreover have "s mod 4096 < 4096" by (rule mod_less_divisor) simp
  ultimately show ?thesis unfolding raw_of_def pow by (intro raw_bound_aux assms(1))
qed

lemma sint_small:
  fixes v :: u64
  assumes "unat v < 2 ^ 63"
  shows "sint v = int (unat v)"
proof -
  have "int (unat v) < int (2 ^ 63)" using assms by (simp only: of_nat_less_iff)
  then have "uint v < 2 ^ 63" by (simp only: uint_nat of_nat_power of_nat_numeral)
  moreover have "- (2 ^ 63) \<le> uint v"
    by (rule order_trans [OF _ uint_ge_0]) simp
  ultimately have "signed_take_bit 63 (uint v) = uint v"
    by (intro signed_take_bit_int_eq_self)
  then have "sint v = uint v" by (simp only: sint_uint) simp
  then show ?thesis by (simp only: uint_nat)
qed

lemma sorted_wrt_unat_mint_run:
  assumes "generator_ok g" and "\<forall>p\<in>set ps. unat (fst p) < 2 ^ 41"
  shows "sorted_wrt (\<lambda>a b. unat a < unat b) (mint_run g ps)"
    and "\<forall>v\<in>set (mint_run g ps). unat v < 2 ^ 63"
proof -
  have nd: "unat (node g) < 1024" using assms(1) by (simp add: generator_ok_def)
  from mint_run_raw [OF assms] obtain ss
    where ss: "map unat (mint_run g ps) = map (raw_of (unat (node g))) ss"
      "sorted_wrt (<) ss" "\<forall>s\<in>set ss. s < 2 ^ 53" by blast
  have "sorted_wrt (<) (map (raw_of (unat (node g))) ss)"
    unfolding sorted_wrt_map
    by (rule sorted_wrt_mono_rel [OF _ ss(2)]) (rule raw_of_less [OF nd])
  then show "sorted_wrt (\<lambda>a b. unat a < unat b) (mint_run g ps)"
    unfolding ss(1) [symmetric] sorted_wrt_map .
  have "\<forall>v\<in>set (map unat (mint_run g ps)). v < 2 ^ 63"
    unfolding ss(1) using ss(3) raw_of_bound [OF nd] by auto
  then show "\<forall>v\<in>set (mint_run g ps). unat v < 2 ^ 63" by auto
qed

lemma encode_less_iff: "encode v < encode w \<longleftrightarrow> unat v < unat w"
  unfolding encode_digits by (rule digits62_less [OF bound_62_11 bound_62_11])

section \<open>Properties\<close>

lemma nonneg_sint:
  fixes v :: u64
  assumes "0 \<le> sint v"
  shows "unat v < 2 ^ 63"
proof -
  have lt: "sint v < 2 ^ 63" using sint_lt [of v] by simp
  have "uint v = uint (word_of_int (sint v) :: u64)" by simp
  also have "\<dots> = sint v mod 2 ^ 64" by (simp only: uint_word_of_int) simp
  also have "\<dots> = sint v" using assms lt by (intro mod_pos_pos_trivial) simp_all
  finally show ?thesis using lt by (simp add: unat_eq_nat_uint nat_less_iff)
qed

lemma decode_encode_small: "unat v < 2 ^ 63 \<Longrightarrow> decode (encode v) = Inr v"
proof -
  assume "unat v < 2 ^ 63"
  moreover have "decode_loop 0 (encode v) = Inr v"
    using decode_loop_digits [OF bound_62_11 [of v]] unsigned_less [of v, where ?'a = nat]
    by (simp add: encode_digits)
  ultimately show ?thesis
    by (simp add: decode_def encode_digits ENCODED_LEN_def not_less unat_le_I64_MAX)
qed

lemma set_digits62: "set (digits62 k n) \<subseteq> set ALPHABET"
  by (induction k arbitrary: n) (auto intro: nth_mem)

text \<open>
  Every id of a snowflake, which is not negative, is encoded to eleven characters of
  the alphabet and decodes to itself.
\<close>

theorem decode_encode:
  assumes "0 \<le> sint v"
  shows "length (encode v) = 11 \<and> set (encode v) \<subseteq> set ALPHABET \<and> decode (encode v) = Inr v"
  using decode_encode_small [OF nonneg_sint [OF assms]] set_digits62
  by (simp add: encode_digits)

theorem decode_encode_witness:
  "(0::int) \<le> sint (12345678 :: u64) \<and> decode (encode 12345678) = Inr 12345678"
  using decode_encode [of 12345678] by simp

text \<open>
  A text is accepted only in the one form the encoder writes, so two different texts
  never name one id, and an accepted id is never negative.
\<close>

theorem decode_canonical:
  assumes "decode s = Inr v"
  shows "encode v = s \<and> 0 \<le> sint v"
proof -
  have s: "length s = 11" "decode_loop 0 s = Inr v" "unat v < 2 ^ 63"
    using assms unat_le_I64_MAX [of v]
    by (auto simp: decode_def ENCODED_LEN_def not_less split: if_splits sum.splits)
  then show ?thesis
    using decode_loop_digits_back [OF s(2)] by (simp add: encode_digits sint_small)
qed

theorem decode_canonical_witness:
  "decode ''00000000010'' = Inr 62 \<and> encode 62 = ''00000000010''"
proof -
  have "encode 62 = ''00000000010''" by (simp add: encode_digits) code_simp
  with decode_encode_small [of 62] have "decode ''00000000010'' = Inr 62" by simp
  with decode_canonical [of "''00000000010''" 62] show ?thesis by simp
qed

text \<open>
  C35: whatever the threads that share a generator do and however the clock moves, the ids
  it mints increase strictly, as numbers and as encoded text, as long as the clock stays
  within the 41 bits that last until 2094.
\<close>

theorem minted_ids_increase:
  assumes "\<forall>p\<in>set passes. unat (fst p) < 2 ^ 41"
  shows "sorted_wrt (<) (map sint (mint_run (new_generator n) passes)) \<and>
         sorted_wrt (<) (map encode (mint_run (new_generator n) passes))"
proof -
  note run = sorted_wrt_unat_mint_run [OF new_generator_ok assms, of n]
  have small: "sint v = int (unat v)" if "v \<in> set (mint_run (new_generator n) passes)" for v
    using run(2) that sint_small by blast
  have "sorted_wrt (\<lambda>a b. encode a < encode b) (mint_run (new_generator n) passes)"
    using run(1) by (simp add: encode_less_iff)
  moreover have "sorted_wrt (\<lambda>a b. sint a < sint b) (mint_run (new_generator n) passes)"
    by (rule sorted_wrt_mono_rel [OF _ run(1)]) (simp only: small of_nat_less_iff)
  ultimately show ?thesis by (simp add: sorted_wrt_map)
qed

theorem minted_ids_increase_witness:
  "sorted_wrt (<) (map encode (mint_run (new_generator 7) [(5, True), (5, False), (3, True)]))"
  using minted_ids_increase [of "[(5, True), (5, False), (3, True)]" 7] by simp

text \<open>
  A minted id carries the time of its pass, or the generator's own last millisecond
  when the clock moved backwards, and a pass with a later clock always mints.
\<close>

theorem minted_id_carries_time:
  assumes "unat (node g) < 1024" and "unat (gen_state g) < 2 ^ 53" and "unat now < 2 ^ 41"
  shows "(\<forall>g' raw. mint_pass g (now, True) = (g', Some raw) \<longrightarrow>
            unat (milliseconds raw) =
              max (unat now) (unat (gen_state g) div 4096) + unat EPOCH_MS) \<and>
         (unat (gen_state g) div 4096 < unat now \<longrightarrow> snd (mint_pass g (now, True)) \<noteq> None)"
proof (intro conjI allI impI)
  fix g' raw
  assume "mint_pass g (now, True) = (g', Some raw)"
  then obtain s where step: "attempt (node g) (gen_state g) now = Some (s, raw)"
    by (auto simp: mint_pass_def split: option.splits)
  note d = attempt_SomeD [OF step assms]
  have bounds: "unat s div 4096 < 2199023255552" "unat s mod 4096 < 4096"
    using d(2) by (auto intro!: less_mult_imp_div_less mod_less_divisor)
  have "unat raw div 4194304 = unat s div 4096"
  proof -
    have "unat (node g) * 4096 + unat s mod 4096 < 4194304"
      using assms(1) bounds(2) mult_le_mono1 [of "Suc (unat (node g))" 1024 4096] by simp
    then show ?thesis
      by (simp add: d(3) raw_of_def add.assoc div_mult_self3)
  qed
  then have drop: "unat (drop_bit 22 raw) = unat s div 4096"
    by (simp add: drop_bit_eq_div unat_div)
  have "unat EPOCH_MS = 1735689600000" by (simp add: EPOCH_MS_def)
  then have "unat (drop_bit 22 raw + EPOCH_MS) = unat (drop_bit 22 raw) + unat EPOCH_MS"
    using bounds(1) by (subst unat_add_lem [THEN iffD1]) (simp_all add: drop)
  then show "unat (milliseconds raw) = max (unat now) (unat (gen_state g) div 4096) + unat EPOCH_MS"
    by (simp add: milliseconds_def SEQUENCE_BITS_def NODE_BITS_def drop d(4))
next
  assume "unat (gen_state g) div 4096 < unat now"
  then have "drop_bit SEQUENCE_BITS (gen_state g) < now"
    by (simp add: word_less_nat_alt drop_bit_eq_div unat_div SEQUENCE_BITS_def)
  then show "snd (mint_pass g (now, True)) \<noteq> None"
    by (simp add: mint_pass_def attempt_def)
qed

theorem minted_id_carries_time_witness:
  "unat (milliseconds 4194304) = 1735689600001"
proof -
  have pass: "mint_pass (new_generator 0) (1, True) = ((new_generator 0)\<lparr>gen_state := 4096\<rparr>, Some 4194304)"
    by code_simp
  have "unat (node (new_generator 0)) < 1024" "unat (gen_state (new_generator 0)) < 2 ^ 53"
    using new_generator_ok [of 0] by (simp_all only: generator_ok_def)
  from minted_id_carries_time [OF this, of 1] pass show ?thesis
    by (simp add: new_generator_def EPOCH_MS_def)
qed

end
