(* ===== verification/Stored.thy ===== *)
theory Stored
  imports Prelude
begin

text \<open>
  How an instant is written into a column (\<^verbatim>\<open>src/database/codec.rs\<close>): the date and the time of
  day to the second, always nine digits of the fraction, and a \<^verbatim>\<open>Z\<close>. Every range filter,
  ordering and bucket key of the database compares this text; the rest of the model compares
  instants as numbers. The text of a whole second is the library's and a parameter.
\<close>

text \<open>The last \<open>k\<close> decimal digits of a number.\<close>

fun fixed_digits :: "nat \<Rightarrow> nat \<Rightarrow> string" where
  "fixed_digits 0 n = []"
| "fixed_digits (Suc k) n = fixed_digits k (n div 10) @ [digit_char n]"

definition PRECISION :: nat where "PRECISION = 9"

definition stored_timestamp :: "(int \<Rightarrow> string) \<Rightarrow> instant \<Rightarrow> string" where
  "stored_timestamp civil t =
     civil (t div ns_per_second) @ ''.'' @ fixed_digits PRECISION (nat (t mod ns_per_second)) @ ''Z''"

section \<open>Lemmas\<close>

lemma less_append:
  "length xs = length ys \<Longrightarrow> xs @ us < ys @ vs \<longleftrightarrow> xs < ys \<or> xs = ys \<and> us < vs"
  for xs :: string
  by (induction xs ys rule: list_induct2) auto

lemma length_fixed_digits [simp]: "length (fixed_digits k n) = k"
  by (induction k arbitrary: n) simp_all

lemma digit_char_order:
  "digit_char m < digit_char n \<longleftrightarrow> m mod 10 < n mod 10" "digit_char m = digit_char n \<longleftrightarrow> m mod 10 = n mod 10"
proof -
  have "m mod 10 < 10" "n mod 10 < 10" by simp_all
  then show "digit_char m < digit_char n \<longleftrightarrow> m mod 10 < n mod 10"
    "digit_char m = digit_char n \<longleftrightarrow> m mod 10 = n mod 10"
    by (simp_all add: digit_char_def less_char_def)
qed

lemma quotient_order:
  fixes m n d :: int
  assumes "0 < d"
  shows "m < n \<longleftrightarrow> m div d < n div d \<or> m div d = n div d \<and> m mod d < n mod d"
proof -
  have m: "m = d * (m div d) + m mod d" and n: "n = d * (n div d) + n mod d" by simp_all
  have mono: "m div d \<le> n div d" if "m \<le> n" for m n using zdiv_mono1 [OF that assms] .
  show ?thesis
  proof (cases "m div d = n div d")
    case True
    then show ?thesis using m n by (metis add_less_cancel_left order.irrefl)
  next
    case False
    then show ?thesis using mono [of m n] mono [of n m] by linarith
  qed
qed

lemma fixed_digits_less:
  "m < 10 ^ k \<Longrightarrow> n < 10 ^ k \<Longrightarrow>
     (fixed_digits k m < fixed_digits k n \<longleftrightarrow> m < n) \<and> (fixed_digits k m = fixed_digits k n \<longleftrightarrow> m = n)"
proof (induction k arbitrary: m n)
  case (Suc k)
  have "m div 10 < 10 ^ k" "n div 10 < 10 ^ k" using Suc.prems by (simp_all add: div_less_iff_less_mult mult.commute)
  note IH = Suc.IH [OF this]
  have less: "m < n \<longleftrightarrow> m div 10 < n div 10 \<or> m div 10 = n div 10 \<and> m mod 10 < n mod 10" for m n :: nat
    using quotient_order [of "int 10" "int m" "int n"]
    unfolding zdiv_int [symmetric] zmod_int [symmetric] of_nat_less_iff of_nat_eq_iff by simp
  have eq: "m = n \<longleftrightarrow> m div 10 = n div 10 \<and> m mod 10 = n mod 10" by (metis div_mult_mod_eq)
  show ?case using IH less [of m n] eq by (simp add: less_append digit_char_order)
qed simp

section \<open>Properties\<close>

text \<open>
  The order of the stored text is the order of time, so what the database sorts, filters and
  buckets by that text is what the model sorts, filters and buckets by number. It needs of the
  text of a whole second what holds of the years that have four digits: one length, and the order
  of the seconds.
\<close>

theorem stored_order_is_time_order:
  assumes "\<forall>s\<in>{lo..<hi}. length (civil s) = width" and "\<forall>s\<in>{lo..<hi}. \<forall>s'\<in>{lo..<hi}. s < s' \<longrightarrow> civil s < civil s'"
    and "t div ns_per_second \<in> {lo..<hi}" and "u div ns_per_second \<in> {lo..<hi}"
  shows "(stored_timestamp civil t < stored_timestamp civil u \<longleftrightarrow> t < u) \<and>
    (stored_timestamp civil t = stored_timestamp civil u \<longleftrightarrow> t = u)"
proof -
  let ?s = "t div ns_per_second" and ?s' = "u div ns_per_second"
  let ?f = "nat (t mod ns_per_second)" and ?f' = "nat (u mod ns_per_second)"
  have len: "length (civil ?s) = length (civil ?s')" using assms(1,3,4) by simp
  have whole: "civil ?s < civil ?s' \<longleftrightarrow> ?s < ?s'" "civil ?s = civil ?s' \<longleftrightarrow> ?s = ?s'"
    using assms(2-4) by (metis less_asym linorder_less_linear order.irrefl)+
  have "?f < 10 ^ PRECISION" "?f' < 10 ^ PRECISION" by (simp_all add: PRECISION_def nat_less_iff)
  note fraction = fixed_digits_less [OF this]
  have nats: "?f < ?f' \<longleftrightarrow> t mod ns_per_second < u mod ns_per_second" "?f = ?f' \<longleftrightarrow> t mod ns_per_second = u mod ns_per_second"
    using pos_mod_sign [of ns_per_second t] pos_mod_sign [of ns_per_second u] by (auto simp: nat_less_eq_zless eq_nat_nat_iff)
  have "stored_timestamp civil t < stored_timestamp civil u \<longleftrightarrow> ?s < ?s' \<or> ?s = ?s' \<and> ?f < ?f'"
    using whole fraction by (auto simp: stored_timestamp_def less_append [OF len] less_append)
  moreover have "stored_timestamp civil t = stored_timestamp civil u \<longleftrightarrow> ?s = ?s' \<and> ?f = ?f'"
    using whole fraction len by (simp add: stored_timestamp_def)
  ultimately show ?thesis using nats quotient_order [of ns_per_second t u] by (metis div_mult_mod_eq zero_less_numeral)
qed

text \<open>A second as nineteen digits stands for the library's text.\<close>

theorem stored_order_is_time_order_witness:
  "stored_timestamp (\<lambda>s. fixed_digits 19 (nat s)) 7000000000 < stored_timestamp (\<lambda>s. fixed_digits 19 (nat s)) 7500000000"
proof -
  have small: "nat s < 10 ^ 19" if "s \<in> {0..<10}" for s :: int using that by auto
  have "\<forall>s\<in>{0..<10}. \<forall>s'\<in>{0..<10}. s < s' \<longrightarrow> fixed_digits 19 (nat s) < fixed_digits 19 (nat s')"
    using fixed_digits_less [OF small small] by simp
  moreover have "(7000000000 :: int) div ns_per_second \<in> {0..<10}" "(7500000000 :: int) div ns_per_second \<in> {0..<10}"
    by simp_all
  ultimately show ?thesis
    using stored_order_is_time_order [of 0 10 "\<lambda>s. fixed_digits 19 (nat s)" 19 7000000000 7500000000] by simp
qed

end
