(* ===== verification/Schema.thy ===== *)
theory Schema
  imports Prelude
begin

text \<open>
  The stored form of the service's data: the enums with their stored text and its reader,
  one record per table of \<^verbatim>\<open>migrations/\<close> as the Rust structs read it, and the database
  as the record of its tables. A table is the list of its rows in rowid order; an optional
  column is an option. The row of a credential's cooldowns is kept as the list that its JSON
  text holds. The price of a plan is kept as the bits of its f64.
\<close>

section \<open>Enums and their stored text\<close>

datatype auth_kind = OAuth | ApiKey | UnknownAuth

fun auth_kind_stored :: "auth_kind \<Rightarrow> string" where
  "auth_kind_stored OAuth = ''oauth''"
| "auth_kind_stored ApiKey = ''api_key''"
| "auth_kind_stored UnknownAuth = ''unknown''"

datatype unknown_text = UnknownText string

definition auth_kind_parse :: "string \<Rightarrow> unknown_text + auth_kind" where
  "auth_kind_parse text =
     (if text = ''oauth'' then Inr OAuth
      else if text = ''api_key'' then Inr ApiKey
      else if text = ''unknown'' then Inr UnknownAuth
      else Inl (UnknownText text))"

datatype source_kind = CliProxy | LiteLlm

fun source_kind_stored :: "source_kind \<Rightarrow> string" where
  "source_kind_stored CliProxy = ''cliproxy''"
| "source_kind_stored LiteLlm = ''litellm''"

definition source_kind_parse :: "string \<Rightarrow> unknown_text + source_kind" where
  "source_kind_parse text =
     (if text = ''cliproxy'' then Inr CliProxy
      else if text = ''litellm'' then Inr LiteLlm
      else Inl (UnknownText text))"

datatype origin = Manual | LiteLlmLive | LiteLlmPublic

fun origin_stored :: "origin \<Rightarrow> string" where
  "origin_stored Manual = ''manual''"
| "origin_stored LiteLlmLive = ''litellm_live''"
| "origin_stored LiteLlmPublic = ''litellm_public''"

definition origin_parse :: "string \<Rightarrow> unknown_text + origin" where
  "origin_parse text =
     (if text = ''manual'' then Inr Manual
      else if text = ''litellm_live'' then Inr LiteLlmLive
      else if text = ''litellm_public'' then Inr LiteLlmPublic
      else Inl (UnknownText text))"

datatype token_quality = Complete | Unclassified | Inconsistent

fun token_quality_stored :: "token_quality \<Rightarrow> string" where
  "token_quality_stored Complete = ''complete''"
| "token_quality_stored Unclassified = ''unclassified''"
| "token_quality_stored Inconsistent = ''inconsistent''"

definition token_quality_parse :: "string \<Rightarrow> unknown_text + token_quality" where
  "token_quality_parse text =
     (if text = ''complete'' then Inr Complete
      else if text = ''unclassified'' then Inr Unclassified
      else if text = ''inconsistent'' then Inr Inconsistent
      else Inl (UnknownText text))"

text \<open>The metered usage that counts toward a quota window.\<close>

datatype window_scope = ScopeAccount | ScopeModel string | ScopeUnmetered

fun window_scope_stored :: "window_scope \<Rightarrow> string" where
  "window_scope_stored ScopeAccount = ''account''"
| "window_scope_stored (ScopeModel model) = ''model:'' @ model"
| "window_scope_stored ScopeUnmetered = ''unmetered''"

definition window_scope_parse :: "string \<Rightarrow> unit + window_scope" where
  "window_scope_parse text = Inr
     (case strip_prefix ''model:'' text of
        Some model \<Rightarrow> ScopeModel model
      | None \<Rightarrow> if text = ''unmetered'' then ScopeUnmetered else ScopeAccount)"

fun window_scope_model :: "window_scope \<Rightarrow> string option" where
  "window_scope_model (ScopeModel model) = Some model"
| "window_scope_model ScopeAccount = None"
| "window_scope_model ScopeUnmetered = None"

datatype sign_in_error = Expired

interpretation auth_codec: codec auth_kind_stored auth_kind_parse
  by unfold_locales (simp add: auth_kind_parse_def split: auth_kind.splits, case_tac x; simp)

interpretation source_kind_codec: codec source_kind_stored source_kind_parse
  by unfold_locales (case_tac x; simp add: source_kind_parse_def)

interpretation origin_codec: codec origin_stored origin_parse
  by unfold_locales (case_tac x; simp add: origin_parse_def)

interpretation quality_codec: codec token_quality_stored token_quality_parse
  by unfold_locales (case_tac x; simp add: token_quality_parse_def)

interpretation scope_codec: codec window_scope_stored window_scope_parse
  by unfold_locales (case_tac x; simp add: window_scope_parse_def strip_prefix_def)

section \<open>Rows\<close>

record source_row =
  s_id :: id
  s_key :: string
  s_name :: string
  s_kind :: source_kind
  s_base_url :: string
  s_enabled :: bool
  s_created_at :: instant

record collector_row =
  k_source :: id
  k_connected_since :: "instant option"
  k_last_record_at :: "instant option"
  k_records_received :: int
  k_consecutive_failures :: int
  k_last_error :: "string option"
  k_updated_at :: instant

record account_row =
  a_id :: id
  a_source :: id
  a_provider :: string
  a_key :: string
  a_auth :: auth_kind
  a_label :: "string option"
  a_display :: "string option"
  a_merged :: "id option"
  a_first :: instant
  a_last :: instant

record cooldown =
  cd_scope :: string
  cd_model_key :: "string option"
  cd_reason :: string
  cd_retry_at :: instant
  cd_remaining_seconds :: int

record credential_row =
  c_account :: id
  c_status :: "string option"
  c_status_message :: "string option"
  c_disabled :: bool
  c_unavailable :: bool
  c_next_retry :: "instant option"
  c_cooldowns :: "cooldown list"
  c_type :: "string option"
  c_plan :: "string option"
  c_soft_at :: "instant option"
  c_hard_at :: "instant option"
  c_hard_error :: "string option"
  c_hard_refreshable :: bool
  c_removed :: "instant option"
  c_sign_in :: "sign_in_error option"

record window_row =
  w_account :: id
  w_key :: string
  w_label :: string
  w_used_fraction :: "rat option"
  w_used_value :: "rat option"
  w_limit_value :: "rat option"
  w_unit :: "string option"
  w_seconds :: "int option"
  w_resets_at :: "instant option"
  w_observed_at :: instant
  w_scope :: window_scope
  w_starts_on_use :: bool

record sample_row =
  q_account :: id
  q_window :: string
  q_started_at :: instant
  q_observed_at :: instant
  q_used_fraction :: rat

record grant =
  g_label :: "string option"
  g_remaining :: int
  g_total :: "int option"
  g_expires_at :: "instant option"

record rates =
  input_usd_per_mtok :: rat
  cached_input_usd_per_mtok :: rat
  cache_write_usd_per_mtok :: rat
  output_usd_per_mtok :: rat

record price_row =
  m_id :: id
  m_provider :: "string option"
  m_model :: string
  m_tier :: "string option"
  m_min_input_tokens :: int
  m_origin :: origin
  m_effective_from :: instant
  m_rates :: rates

type_synonym f64_bits = u64

record plan_row =
  p_id :: id
  p_account :: id
  p_name :: string
  p_monthly_usd :: f64_bits
  p_start :: instant
  p_end :: "instant option"

text \<open>
  An event as a normalizer describes it (\<^verbatim>\<open>NewUsageEvent\<close>), without its identity, its
  account and its costs. A client's own account description travels beside it.
\<close>

record usage =
  u_upstream_id :: string
  u_occurred_at :: instant
  u_provider :: string
  u_model :: string
  u_model_alias :: "string option"
  u_endpoint :: string
  u_caller :: "string option"
  u_harness :: "string option"
  u_user_agent :: "string option"
  u_session_id :: "string option"
  u_input_tokens :: int
  u_output_tokens :: int
  u_reasoning_tokens :: int
  u_cache_read_tokens :: int
  u_cache_write_tokens :: int
  u_unclassified_tokens :: int
  u_total_tokens :: int
  u_token_quality :: "token_quality option"
  u_latency_ms :: "int option"
  u_ttft_ms :: "int option"
  u_streamed :: bool
  u_status_code :: int
  u_failed :: bool
  u_error_message :: "string option"
  u_service_tier :: "string option"
  u_reasoning_effort :: "string option"

text \<open>A stored event (\<^verbatim>\<open>usage_event\<close>): its identity, its account and its two costs.\<close>

record event_row =
  e_id :: id
  e_source :: id
  e_account :: id
  e_hash :: string
  e_usage :: usage
  e_price :: "id option"
  e_list_cost :: "rat option"
  e_billed_cost :: "rat option"

record 'payload dead_letter_row =
  l_id :: id
  l_source :: id
  l_received_at :: instant
  l_error :: string
  l_payload :: 'payload

text \<open>A row of the change feed, with the columns its kind leaves NULL.\<close>

record change_row =
  h_cursor :: int
  h_kind :: string
  h_account :: "id option"
  h_window :: "string option"
  h_model :: "string option"
  h_plan :: "id option"
  h_failed :: "bool option"
  h_recorded_at :: instant

record recovery_row =
  r_account :: id
  r_attempts :: int
  r_next_attempt_at :: instant

text \<open>
  A human quota action, the requests it served and the idempotency keys bound to it
  (\<^verbatim>\<open>migrations/20261022235000_quota_action.sql\<close>). Its instants are text as they are stored,
  and its ids are the encoded ones.
\<close>

record action_row =
  qa_id :: int
  qa_kind :: string
  qa_account :: "string option"
  qa_source :: "string option"
  qa_requested_at :: string
  qa_finished_at :: "string option"
  qa_outcome :: "string option"
  qa_before :: string
  qa_after :: "string option"
  qa_requested_by :: string
  qa_shared :: bool
  qa_status :: "int option"
  qa_body :: "string option"
  qa_credential :: string
  qa_transport :: string
  qa_boot :: "string option"

record action_request_row =
  qr_action :: int
  qr_requested_by :: string
  qr_requested_at :: string
  qr_credential :: string
  qr_transport :: string

record action_key_row =
  qk_credential :: string
  qk_key :: string
  qk_kind :: string
  qk_account :: "string option"
  qk_source :: "string option"
  qk_action :: int

section \<open>JSON\<close>

text \<open>
  A value as \<^verbatim>\<open>serde_json\<close> reads it. A number is an integer or a float; an object keeps
  its fields in order of their names, so a field appears once.
\<close>

datatype json =
    JNull
  | JBool bool
  | JInt int
  | JFloat rat
  | JString string
  | JArray "json list"
  | JObject "(string \<times> json) list"

fun as_str :: "json \<Rightarrow> string option" where
  "as_str (JString s) = Some s"
| "as_str _ = None"

fun as_array :: "json \<Rightarrow> json list option" where
  "as_array (JArray xs) = Some xs"
| "as_array _ = None"

fun as_object :: "json \<Rightarrow> (string \<times> json) list option" where
  "as_object (JObject fs) = Some fs"
| "as_object _ = None"

fun as_i64 :: "json \<Rightarrow> int option" where
  "as_i64 (JInt n) = (if - (2 ^ 63) \<le> n \<and> n < 2 ^ 63 then Some n else None)"
| "as_i64 _ = None"

fun as_f64 :: "json \<Rightarrow> rat option" where
  "as_f64 (JInt n) = Some (of_int n)"
| "as_f64 (JFloat x) = Some x"
| "as_f64 _ = None"

definition remove_field :: "string \<Rightarrow> (string \<times> json) list \<Rightarrow> (string \<times> json) list" where
  "remove_field k fs = filter (\<lambda>(n, _). n \<noteq> k) fs"

lemma map_of_remove_field:
  "map_of (remove_field k fs) n = (if n = k then None else map_of fs n)"
  by (induction fs) (auto simp: remove_field_def)

section \<open>The database\<close>

record db =
  sources :: "source_row list"
  collectors :: "collector_row list"
  accounts :: "account_row list"
  credentials :: "credential_row list"
  windows :: "window_row list"
  samples :: "sample_row list"
  grants :: "(id \<times> grant) list"
  prices :: "price_row list"
  plans :: "plan_row list"
  events :: "event_row list"
  dead_letters :: "json dead_letter_row list"
  dismissals :: "(id \<times> id) list"
  changes :: "change_row list"
  change_seq :: int
  pruned_through :: int
  recoveries :: "recovery_row list"
  actions :: "action_row list"
  action_seq :: int
  action_requests :: "action_request_row list"
  action_keys :: "action_key_row list"

definition empty_db :: db where
  "empty_db = \<lparr>sources = [], collectors = [], accounts = [], credentials = [], windows = [],
     samples = [], grants = [], prices = [], plans = [], events = [], dead_letters = [],
     dismissals = [], changes = [], change_seq = 0, pruned_through = 0, recoveries = [],
     actions = [], action_seq = 0, action_requests = [], action_keys = []\<rparr>"

definition account_by_id :: "db \<Rightarrow> id \<Rightarrow> account_row option" where
  "account_by_id d i = find (\<lambda>a. a_id a = i) (accounts d)"

definition credential_of :: "db \<Rightarrow> id \<Rightarrow> credential_row option" where
  "credential_of d i = find (\<lambda>c. c_account c = i) (credentials d)"

definition source_by_id :: "db \<Rightarrow> id \<Rightarrow> source_row option" where
  "source_by_id d i = find (\<lambda>s. s_id s = i) (sources d)"

text \<open>A LiteLLM request with no cost of its own, which examples share.\<close>

definition sample_usage :: usage where
  "sample_usage =
     \<lparr>u_upstream_id = ''r'', u_occurred_at = 10, u_provider = ''openai'', u_model = ''m'',
      u_model_alias = None, u_endpoint = [], u_caller = None, u_harness = None,
      u_user_agent = None, u_session_id = None, u_input_tokens = 2000000, u_output_tokens = 0,
      u_reasoning_tokens = 0, u_cache_read_tokens = 0, u_cache_write_tokens = 0,
      u_unclassified_tokens = 0, u_total_tokens = 2000000, u_token_quality = None,
      u_latency_ms = None, u_ttft_ms = None, u_streamed = False, u_status_code = 200,
      u_failed = False, u_error_message = None, u_service_tier = None,
      u_reasoning_effort = None\<rparr>"

end
