(* ===== verification/Changes.thy ===== *)
theory Changes
  imports Schema
begin

text \<open>
  The change feed of \<^verbatim>\<open>src/change/mod.rs\<close>: the kinds and subjects of a change, the row a
  subject is stored as and its reader, and the operations on the feed: recording a change in
  a write's transaction, reading the changes after a cursor, waiting for one, and pruning.
  The abstract feed is the hist of every change ever recorded; a reader that is not told its
  cursor expired reads the hist.
\<close>

section \<open>Kinds and subjects\<close>

datatype change_kind = QuotaUpdated | ResetUpdated | PriceChanged | AccountChanged
  | PlanChanged | UsageUpdated | RequestArrived | QuotaActionChanged

datatype subject =
    SAccount id
  | SWindow id string
  | SResets id
  | SPrice string
  | SPlan id
  | SUsage
  | SQuotaAction
  | SArrival id bool

text \<open>The derived order of the enum: by variant, then by fields.\<close>

fun subject_rank :: "subject \<Rightarrow> nat \<times> int \<times> string \<times> bool" where
  "subject_rank (SAccount i) = (0, i, [], False)"
| "subject_rank (SWindow i k) = (1, i, k, False)"
| "subject_rank (SResets i) = (2, i, [], False)"
| "subject_rank (SPrice m) = (3, 0, m, False)"
| "subject_rank (SPlan i) = (4, i, [], False)"
| "subject_rank SUsage = (5, 0, [], False)"
| "subject_rank SQuotaAction = (6, 0, [], False)"
| "subject_rank (SArrival i f) = (7, i, [], f)"

lemma subject_rank_inj: "subject_rank x = subject_rank y \<Longrightarrow> x = y"
  by (cases x; cases y) auto

instantiation subject :: linorder
begin

definition less_eq_subject :: "subject \<Rightarrow> subject \<Rightarrow> bool" where
  "less_eq_subject x y = (subject_rank x \<le> subject_rank y)"

definition less_subject :: "subject \<Rightarrow> subject \<Rightarrow> bool" where
  "less_subject x y = (subject_rank x < subject_rank y)"

instance
  by intro_classes (auto simp: less_eq_subject_def less_subject_def less_le_not_le
      intro: order.trans subject_rank_inj)

end

definition kinds_default :: "change_kind list" where
  "kinds_default = [QuotaUpdated, ResetUpdated, PriceChanged, AccountChanged, PlanChanged,
     UsageUpdated, QuotaActionChanged]"

definition kinds_all :: "change_kind list" where
  "kinds_all = [QuotaUpdated, ResetUpdated, PriceChanged, AccountChanged, PlanChanged,
     UsageUpdated, QuotaActionChanged, RequestArrived]"

fun kind_stored :: "change_kind \<Rightarrow> string" where
  "kind_stored QuotaUpdated = ''quota.updated''"
| "kind_stored ResetUpdated = ''reset.updated''"
| "kind_stored PriceChanged = ''price.changed''"
| "kind_stored AccountChanged = ''account.changed''"
| "kind_stored PlanChanged = ''plan.changed''"
| "kind_stored UsageUpdated = ''usage.updated''"
| "kind_stored RequestArrived = ''request.arrived''"
| "kind_stored QuotaActionChanged = ''quota.action''"

definition kind_parse :: "string \<Rightarrow> unknown_text + change_kind" where
  "kind_parse text = ok_or (UnknownText text) (find (\<lambda>k. kind_stored k = text) kinds_all)"

interpretation kind_codec: codec kind_stored kind_parse
  by unfold_locales (case_tac x; simp add: kind_parse_def kinds_all_def)

fun subject_kind :: "subject \<Rightarrow> change_kind" where
  "subject_kind (SAccount _) = AccountChanged"
| "subject_kind (SWindow _ _) = QuotaUpdated"
| "subject_kind (SResets _) = ResetUpdated"
| "subject_kind (SPrice _) = PriceChanged"
| "subject_kind (SPlan _) = PlanChanged"
| "subject_kind SUsage = UsageUpdated"
| "subject_kind SQuotaAction = QuotaActionChanged"
| "subject_kind (SArrival _ _) = RequestArrived"

section \<open>Stored changes\<close>

fun subject_columns ::
  "subject \<Rightarrow> id option \<times> string option \<times> string option \<times> id option \<times> bool option" where
  "subject_columns (SAccount i) = (Some i, None, None, None, None)"
| "subject_columns (SResets i) = (Some i, None, None, None, None)"
| "subject_columns (SWindow i k) = (Some i, Some k, None, None, None)"
| "subject_columns (SPrice m) = (None, None, Some m, None, None)"
| "subject_columns (SPlan i) = (None, None, None, Some i, None)"
| "subject_columns SUsage = (None, None, None, None, None)"
| "subject_columns SQuotaAction = (None, None, None, None, None)"
| "subject_columns (SArrival i f) = (Some i, None, None, None, Some f)"

definition stored_change :: "int \<Rightarrow> instant \<Rightarrow> subject \<Rightarrow> change_row" where
  "stored_change cursor time s =
     (case subject_columns s of (account, window, model, plan, failed) \<Rightarrow>
        \<lparr>h_cursor = cursor, h_kind = kind_stored (subject_kind s), h_account = account,
         h_window = window, h_model = model, h_plan = plan, h_failed = failed,
         h_recorded_at = time\<rparr>)"

record change =
  ch_cursor :: int
  ch_recorded_at :: instant
  ch_subject :: subject

datatype read_error = Unreadable change_row

definition read_subject :: "change_row \<Rightarrow> subject option" where
  "read_subject r =
     (case (kind_parse (h_kind r), h_account r, h_window r, h_model r, h_plan r, h_failed r) of
        (Inr AccountChanged, Some i, None, None, None, None) \<Rightarrow> Some (SAccount i)
      | (Inr QuotaUpdated, Some i, Some k, None, None, None) \<Rightarrow> Some (SWindow i k)
      | (Inr ResetUpdated, Some i, None, None, None, None) \<Rightarrow> Some (SResets i)
      | (Inr PriceChanged, None, None, Some m, None, None) \<Rightarrow> Some (SPrice m)
      | (Inr PlanChanged, None, None, None, Some i, None) \<Rightarrow> Some (SPlan i)
      | (Inr UsageUpdated, None, None, None, None, None) \<Rightarrow> Some SUsage
      | (Inr QuotaActionChanged, None, None, None, None, None) \<Rightarrow> Some SQuotaAction
      | (Inr RequestArrived, Some i, None, None, None, Some f) \<Rightarrow> Some (SArrival i f)
      | _ \<Rightarrow> None)"

definition read_change :: "change_row \<Rightarrow> read_error + change" where
  "read_change r =
     (case read_subject r of
        None \<Rightarrow> Inl (Unreadable r)
      | Some s \<Rightarrow> Inr \<lparr>ch_cursor = h_cursor r, ch_recorded_at = h_recorded_at r, ch_subject = s\<rparr>)"

text \<open>Collecting into a \<^verbatim>\<open>Result\<close> stops at the first error.\<close>

fun collect_changes :: "change_row list \<Rightarrow> read_error + change list" where
  "collect_changes [] = Inr []"
| "collect_changes (r # rs) =
     (case read_change r of
        Inl e \<Rightarrow> Inl e
      | Inr c \<Rightarrow> (case collect_changes rs of Inl e \<Rightarrow> Inl e | Inr cs \<Rightarrow> Inr (c # cs)))"

section \<open>The feed\<close>

definition RETENTION :: int where
  "RETENTION = 7 * 24 * 3600 * ns_per_second"

definition PAGE :: nat where
  "PAGE = 500"

text \<open>Recording a change: the cursor is an AUTOINCREMENT key, one above the highest ever used.\<close>

definition record_change :: "instant \<Rightarrow> subject \<Rightarrow> db \<Rightarrow> db" where
  "record_change now s d =
     d\<lparr>changes := changes d @ [stored_change (change_seq d + 1) now s],
       change_seq := change_seq d + 1\<rparr>"

definition record_changes :: "instant \<Rightarrow> subject list \<Rightarrow> db \<Rightarrow> db" where
  "record_changes now ss d = fold (record_change now) ss d"

text \<open>What a run of records appends, and that it touches nothing else.\<close>

fun stored_changes :: "int \<Rightarrow> instant \<Rightarrow> subject list \<Rightarrow> change_row list" where
  "stored_changes c now [] = []"
| "stored_changes c now (s # ss) = stored_change (c + 1) now s # stored_changes (c + 1) now ss"

lemma record_changes_eq:
  "record_changes now ss d =
     d\<lparr>changes := changes d @ stored_changes (change_seq d) now ss,
       change_seq := change_seq d + int (length ss)\<rparr>"
  by (induction ss arbitrary: d) (simp_all add: record_changes_def record_change_def)

lemma record_changes_fields [simp]:
  "sources (record_changes now ss d) = sources d"
  "collectors (record_changes now ss d) = collectors d"
  "accounts (record_changes now ss d) = accounts d"
  "credentials (record_changes now ss d) = credentials d"
  "windows (record_changes now ss d) = windows d"
  "samples (record_changes now ss d) = samples d"
  "grants (record_changes now ss d) = grants d"
  "prices (record_changes now ss d) = prices d"
  "plans (record_changes now ss d) = plans d"
  "events (record_changes now ss d) = events d"
  "dead_letters (record_changes now ss d) = dead_letters d"
  "dismissals (record_changes now ss d) = dismissals d"
  "pruned_through (record_changes now ss d) = pruned_through d"
  "recoveries (record_changes now ss d) = recoveries d"
  "actions (record_changes now ss d) = actions d"
  "action_seq (record_changes now ss d) = action_seq d"
  "action_requests (record_changes now ss d) = action_requests d"
  "action_keys (record_changes now ss d) = action_keys d"
  by (simp_all add: record_changes_eq)

lemma record_changes_Nil [simp]: "record_changes now [] d = d"
  by (simp add: record_changes_def)

definition latest_cursor :: "db \<Rightarrow> int" where
  "latest_cursor d =
     max (if changes d = [] then 0 else Max (set (map h_cursor (changes d)))) (pruned_through d)"

datatype page = Page "change list" int | PageExpired int int

definition matches :: "int \<Rightarrow> change_kind list \<Rightarrow> change_row \<Rightarrow> bool" where
  "matches cursor kinds r \<longleftrightarrow>
     cursor < h_cursor r \<and> (kinds = [] \<or> h_kind r \<in> set (map kind_stored kinds))"

definition after :: "db \<Rightarrow> int \<Rightarrow> change_kind list \<Rightarrow> read_error + page" where
  "after d cursor kinds =
     (let oldest = pruned_through d; latest = latest_cursor d
      in if cursor < oldest \<or> cursor > latest then Inr (PageExpired oldest latest)
         else case collect_changes
                (take PAGE (filter (matches cursor kinds) (sort_key h_cursor (changes d)))) of
                Inl e \<Rightarrow> Inl e
              | Inr cs \<Rightarrow>
                  Inr (Page cs (if cs \<noteq> [] \<and> length cs = PAGE then ch_cursor (last cs) else latest)))"

text \<open>
  A long poll reads the feed once per wake-up, moving its cursor past what the kinds left
  out. The databases are the ones the successive reads see; the last is the one the deadline
  or the closed channel leaves it with.
\<close>

fun wait_for :: "db list \<Rightarrow> int \<Rightarrow> change_kind list \<Rightarrow> (read_error + page) option" where
  "wait_for [] cursor kinds = None"
| "wait_for (d # ds) cursor kinds =
     (case after d cursor kinds of
        Inr (Page [] next) \<Rightarrow>
          if ds = [] then Some (Inr (Page [] next)) else wait_for ds next kinds
      | answer \<Rightarrow> Some answer)"

definition prune :: "instant \<Rightarrow> db \<Rightarrow> db \<times> nat" where
  "prune now d =
     (let before = now - RETENTION;
          expired = filter (\<lambda>r. h_recorded_at r < before) (changes d);
          highest = (if expired = [] then 0 else Max (set (map h_cursor expired)))
      in (d\<lparr>pruned_through := max (pruned_through d) highest,
            changes := delete_where (\<lambda>r. h_recorded_at r < before) (changes d)\<rparr>,
          length expired))"

section \<open>Reading back what was recorded\<close>

lemma read_stored_change:
  "read_change (stored_change cursor time s) =
     Inr \<lparr>ch_cursor = cursor, ch_recorded_at = time, ch_subject = s\<rparr>"
  by (cases s) (simp_all add: read_change_def read_subject_def stored_change_def
      kind_parse_def kinds_all_def)

lemma collect_changes_ok:
  "\<forall>r\<in>set rs. \<exists>c. read_change r = Inr c \<Longrightarrow>
   collect_changes rs = Inr (map (\<lambda>r. projr (read_change r)) rs)"
  by (induction rs) auto

lemma stored_change_cursor [simp]: "h_cursor (stored_change c time s) = c"
  by (simp add: stored_change_def split: prod.splits)

lemma stored_change_recorded_at [simp]: "h_recorded_at (stored_change c time s) = time"
  by (simp add: stored_change_def split: prod.splits)

section \<open>The feed refines the log\<close>

text \<open>One step of the feed: a change recorded by some transaction, or a pruning.\<close>

datatype feed_op = Record instant subject | Prune instant

fun feed_step :: "feed_op \<Rightarrow> db \<Rightarrow> db" where
  "feed_step (Record now s) d = record_change now s d"
| "feed_step (Prune now) d = fst (prune now d)"

text \<open>The log of all the changes that the steps record, oldest first.\<close>

fun feed_log :: "feed_op list \<Rightarrow> db \<Rightarrow> change_row list" where
  "feed_log [] d = []"
| "feed_log (Record now s # ops) d =
     stored_change (change_seq d + 1) now s # feed_log ops (record_change now s d)"
| "feed_log (Prune now # ops) d = feed_log ops (fst (prune now d))"

definition feed_run :: "feed_op list \<Rightarrow> db \<Rightarrow> db" where
  "feed_run ops d = fold feed_step ops d"

lemma feed_run_simps [simp]:
  "feed_run [] d = d" "feed_run (x # ops) d = feed_run ops (feed_step x d)"
  by (simp_all add: feed_run_def)

text \<open>
  The invariant between the feed and a log: the log's cursors increase up to the sequence,
  the feed is the part of the log that was not pruned, and everything pruned lies at or
  below the horizon.
\<close>

definition feed_inv :: "change_row list \<Rightarrow> db \<Rightarrow> bool" where
  "feed_inv hist d \<longleftrightarrow>
     sorted_wrt (<) (map h_cursor hist) \<and>
     (\<forall>r\<in>set hist. 0 < h_cursor r \<and> h_cursor r \<le> change_seq d \<and> (\<exists>c. read_change r = Inr c)) \<and>
     (\<exists>p. changes d = filter p hist \<and> (\<forall>r\<in>set hist. \<not> p r \<longrightarrow> h_cursor r \<le> pruned_through d)) \<and>
     0 \<le> pruned_through d \<and> pruned_through d \<le> change_seq d"

lemma feed_inv_empty: "feed_inv [] empty_db"
  by (auto simp: feed_inv_def empty_db_def)

lemma feed_inv_record:
  assumes "feed_inv hist d"
  shows "feed_inv (hist @ [stored_change (change_seq d + 1) now s]) (record_change now s d)"
proof -
  let ?r = "stored_change (change_seq d + 1) now s"
  from assms obtain p where p: "changes d = filter p hist"
      "\<forall>r\<in>set hist. \<not> p r \<longrightarrow> h_cursor r \<le> pruned_through d"
    by (auto simp: feed_inv_def)
  have fresh: "?r \<notin> set hist"
    using assms by (auto simp: feed_inv_def)
  define q where "q = (\<lambda>r. p r \<or> r = ?r)"
  have "filter q hist = filter p hist"
    using fresh by (intro filter_cong) (auto simp: q_def)
  then have "changes (record_change now s d) = filter q (hist @ [?r])"
    using p(1) by (simp add: record_change_def q_def)
  moreover have "\<forall>r\<in>set (hist @ [?r]). \<not> q r \<longrightarrow> h_cursor r \<le> pruned_through d"
    using p(2) by (auto simp: q_def)
  ultimately have feed: "\<exists>q. changes (record_change now s d) = filter q (hist @ [?r]) \<and>
      (\<forall>r\<in>set (hist @ [?r]). \<not> q r \<longrightarrow> h_cursor r \<le> pruned_through d)"
    by blast
  have sorted: "sorted_wrt (<) (map h_cursor (hist @ [?r]))"
    using assms by (auto simp: feed_inv_def sorted_wrt_append)
  have bounds: "\<forall>r\<in>set (hist @ [?r]). 0 < h_cursor r \<and> h_cursor r \<le> change_seq d + 1 \<and>
      (\<exists>c. read_change r = Inr c)"
    using assms read_stored_change [of "change_seq d + 1" now s]
    by (auto simp: feed_inv_def intro: add_increasing2)
  show ?thesis
    using assms feed sorted bounds by (simp add: feed_inv_def record_change_def)
qed

lemma feed_inv_prune:
  assumes "feed_inv hist d"
  shows "feed_inv hist (fst (prune now d))"
proof -
  let ?old = "\<lambda>r. h_recorded_at r < now - RETENTION"
  let ?expired = "filter ?old (changes d)"
  define highest where "highest = (if ?expired = [] then 0 else Max (set (map h_cursor ?expired)))"
  from assms obtain p where p: "changes d = filter p hist"
      "\<forall>r\<in>set hist. \<not> p r \<longrightarrow> h_cursor r \<le> pruned_through d"
    by (auto simp: feed_inv_def)
  have high: "h_cursor r \<le> highest" if "r \<in> set ?expired" for r
    using that unfolding highest_def by (auto simp: filter_empty_conv intro!: Max_ge)
  have "highest = 0 \<or> highest \<in> h_cursor ` set ?expired"
  proof (cases "?expired = []")
    case False
    then have "set (map h_cursor ?expired) \<noteq> {}" by (simp only: set_empty map_is_Nil_conv not_False_eq_True)
    from Max_in [OF finite_set this] show ?thesis
      by (simp only: highest_def False if_False set_map HOL.simp_thms)
  qed (simp add: highest_def)
  then have range: "0 \<le> highest" "highest \<le> change_seq d"
    using assms p(1) by (auto simp: feed_inv_def less_imp_le)
  have d': "changes (fst (prune now d)) = filter (\<lambda>r. p r \<and> \<not> ?old r) hist"
      "pruned_through (fst (prune now d)) = max (pruned_through d) highest"
      "change_seq (fst (prune now d)) = change_seq d"
    by (simp_all add: prune_def Let_def delete_where_def p(1) highest_def conj_commute)
  have "\<forall>r\<in>set hist. \<not> (p r \<and> \<not> ?old r) \<longrightarrow> h_cursor r \<le> max (pruned_through d) highest"
  proof (intro ballI impI)
    fix r assume r: "r \<in> set hist" "\<not> (p r \<and> \<not> ?old r)"
    show "h_cursor r \<le> max (pruned_through d) highest"
    proof (cases "p r")
      case True
      then have "r \<in> set ?expired" using r p(1) by simp
      then show ?thesis using high by (simp add: le_max_iff_disj)
    next
      case False
      then show ?thesis using r p(2) by (simp add: le_max_iff_disj)
    qed
  qed
  then show ?thesis
    using assms range by (auto simp: feed_inv_def d')
qed

lemma feed_inv_run: "feed_inv hist d \<Longrightarrow> feed_inv (hist @ feed_log ops d) (feed_run ops d)"
proof (induction ops arbitrary: hist d)
  case Nil
  then show ?case by simp
next
  case (Cons x ops)
  show ?case
  proof (cases x)
    case (Record now s)
    from Cons.IH [OF feed_inv_record [OF Cons.prems, of now s]] show ?thesis
      by (simp add: Record)
  next
    case (Prune now)
    from Cons.IH [OF feed_inv_prune [OF Cons.prems, of now]] show ?thesis
      by (simp add: Prune)
  qed
qed

lemma feed_inv_sorted:
  assumes "feed_inv hist d"
  shows "sort_key h_cursor (changes d) = changes d"
proof -
  from assms obtain p where p: "changes d = filter p hist" by (auto simp: feed_inv_def)
  have "sorted_wrt (<) (map h_cursor hist)" using assms by (simp add: feed_inv_def)
  then have "sorted (map h_cursor hist)" by (rule sorted_wrt_mono_rel [rotated]) simp
  then have "sorted (map h_cursor (changes d))"
    unfolding p by (induction hist) auto
  then show ?thesis by (simp add: sorted_sort_id sort_key_id_if_sorted)
qed

lemma feed_inv_latest:
  assumes "feed_inv hist d" and "r \<in> set hist"
  shows "h_cursor r \<le> latest_cursor d"
proof -
  from assms(1) obtain p where p: "changes d = filter p hist"
      "\<forall>r\<in>set hist. \<not> p r \<longrightarrow> h_cursor r \<le> pruned_through d"
    by (auto simp: feed_inv_def)
  show ?thesis
  proof (cases "p r")
    case True
    then have "r \<in> set (changes d)" using p(1) assms(2) by simp
    then have "changes d \<noteq> []" and "h_cursor r \<le> Max (set (map h_cursor (changes d)))"
      by auto
    then show ?thesis by (simp add: latest_cursor_def)
  next
    case False
    then show ?thesis using p(2) assms(2) by (simp add: latest_cursor_def le_max_iff_disj)
  qed
qed

lemma feed_inv_matching:
  assumes "feed_inv hist d" and "pruned_through d \<le> cursor"
  shows "filter (matches cursor kinds) (sort_key h_cursor (changes d)) =
         filter (matches cursor kinds) hist"
proof -
  from assms(1) obtain p where p: "changes d = filter p hist"
      "\<forall>r\<in>set hist. \<not> p r \<longrightarrow> h_cursor r \<le> pruned_through d"
    by (auto simp: feed_inv_def)
  have "filter (matches cursor kinds) (changes d) = filter (matches cursor kinds) hist"
    unfolding p(1) filter_filter
    using p(2) assms(2) by (intro filter_cong) (auto simp: matches_def)
  then show ?thesis by (simp add: feed_inv_sorted [OF assms(1)])
qed

definition read_row :: "change_row \<Rightarrow> change" where
  "read_row r = projr (read_change r)"

lemma ch_cursor_read_row: "read_change r = Inr c \<Longrightarrow> ch_cursor (read_row r) = h_cursor r"
  by (auto simp: read_row_def read_change_def split: option.splits)

lemma after_refines:
  assumes "feed_inv hist d"
  shows "after d cursor kinds =
     Inr (if cursor < pruned_through d \<or> latest_cursor d < cursor
          then PageExpired (pruned_through d) (latest_cursor d)
          else let cs = map read_row (take PAGE (filter (matches cursor kinds) hist))
               in Page cs (if length cs = PAGE then ch_cursor (last cs) else latest_cursor d))"
proof -
  let ?rs = "take PAGE (filter (matches cursor kinds) hist)"
  have "\<forall>r\<in>set ?rs. \<exists>c. read_change r = Inr c"
    using assms by (auto simp: feed_inv_def dest: in_set_takeD)
  then have ok: "collect_changes ?rs = Inr (map read_row ?rs)"
    unfolding read_row_def by (rule collect_changes_ok)
  have full: "cs \<noteq> [] \<and> length cs = PAGE \<longleftrightarrow> length cs = PAGE" for cs :: "change list"
    by (auto simp: PAGE_def)
  show ?thesis
  proof (cases "cursor < pruned_through d \<or> latest_cursor d < cursor")
    case True
    then show ?thesis by (auto simp: after_def)
  next
    case False
    then have "pruned_through d \<le> cursor" by simp
    with False show ?thesis
      by (simp only: after_def Let_def feed_inv_matching [OF assms] ok full sum.case if_False)
  qed
qed

section \<open>Cursors and readers\<close>

lemma feed_log_cursors:
  "sorted_wrt (<) (map h_cursor (feed_log ops d)) \<and>
   (\<forall>r\<in>set (feed_log ops d). change_seq d < h_cursor r)"
proof (induction ops arbitrary: d)
  case Nil
  then show ?case by simp
next
  case (Cons x ops)
  show ?case
  proof (cases x)
    case (Record now s)
    then show ?thesis using Cons [of "record_change now s d"]
      by (auto simp: record_change_def)
  next
    case (Prune now)
    then show ?thesis using Cons [of "fst (prune now d)"]
      by (simp add: prune_def Let_def)
  qed
qed

lemma feed_inv_from_empty: "feed_inv (feed_log ops empty_db) (feed_run ops empty_db)"
  using feed_inv_run [OF feed_inv_empty, of ops] by simp

text \<open>A reader that reads on from each full page until a page is not full.\<close>

fun follow :: "nat \<Rightarrow> db \<Rightarrow> int \<Rightarrow> change_kind list \<Rightarrow> (change list \<times> int) option" where
  "follow 0 d cursor kinds = None"
| "follow (Suc n) d cursor kinds =
     (case after d cursor kinds of
        Inr (Page cs next) \<Rightarrow>
          if length cs < PAGE then Some (cs, next)
          else map_option (\<lambda>(rest, end_cursor). (cs @ rest, end_cursor)) (follow n d next kinds)
      | _ \<Rightarrow> None)"

lemma filter_matches_drop:
  assumes "sorted_wrt (<) (map h_cursor rs)" and "n < length (filter (matches c kinds) rs)"
  shows "filter (matches (h_cursor (filter (matches c kinds) rs ! n)) kinds) rs =
         drop (Suc n) (filter (matches c kinds) rs)"
  using assms
proof (induction rs arbitrary: n)
  case Nil
  then show ?case by simp
next
  case (Cons r rs)
  show ?case
  proof (cases "matches c kinds r")
    case True
    show ?thesis
    proof (cases n)
      case 0
      have "filter (matches (h_cursor r) kinds) rs = filter (matches c kinds) rs"
        using Cons.prems(1) True by (intro filter_cong) (auto simp: matches_def)
      moreover have "\<not> matches (h_cursor r) kinds r" by (simp add: matches_def)
      ultimately show ?thesis using 0 True by simp
    next
      case (Suc m)
      let ?x = "filter (matches c kinds) rs ! m"
      have m: "m < length (filter (matches c kinds) rs)" using Cons.prems(2) True Suc by simp
      then have "?x \<in> set rs" using nth_mem [OF m] by simp
      then have "\<not> matches (h_cursor ?x) kinds r"
        using Cons.prems(1) by (auto simp: matches_def)
      then show ?thesis using Cons True Suc m by simp
    qed
  next
    case False
    then have n: "n < length (filter (matches c kinds) rs)" using Cons.prems(2) by simp
    let ?x = "filter (matches c kinds) rs ! n"
    have "?x \<in> set rs" using nth_mem [OF n] by simp
    then have "\<not> matches (h_cursor ?x) kinds r"
      using Cons.prems(1) by (auto simp: matches_def)
    then show ?thesis using Cons False n by simp
  qed
qed

lemma follow_complete:
  assumes "feed_inv hist d" and "pruned_through d \<le> cursor" and "cursor \<le> latest_cursor d"
    and "length (filter (matches cursor kinds) hist) < n * PAGE"
  shows "follow n d cursor kinds =
           Some (map read_row (filter (matches cursor kinds) hist), latest_cursor d)"
  using assms
proof (induction n arbitrary: cursor)
  case 0
  then show ?case by simp
next
  case (Suc n)
  let ?rs = "filter (matches cursor kinds) hist"
  have page: "after d cursor kinds = Inr (let cs = map read_row (take PAGE ?rs)
      in Page cs (if length cs = PAGE then ch_cursor (last cs) else latest_cursor d))"
    using after_refines [OF Suc.prems(1), of cursor kinds] Suc.prems(2,3) by simp
  show ?case
  proof (cases "length ?rs < PAGE")
    case True
    then show ?thesis using page by (simp add: Let_def)
  next
    case False
    then have len: "length (take PAGE ?rs) = PAGE" by simp
    define x where "x = ?rs ! (PAGE - 1)"
    have lt: "PAGE - 1 < length ?rs" using False by (simp add: PAGE_def)
    have "last (map read_row (take PAGE ?rs)) = read_row x"
      using len False by (subst last_conv_nth) (auto simp: x_def PAGE_def)
    moreover have x: "x \<in> set hist" "matches cursor kinds x"
      using nth_mem [OF lt] by (auto simp: x_def)
    moreover obtain c where "read_change x = Inr c"
      using Suc.prems(1) x(1) by (auto simp: feed_inv_def)
    ultimately have next_c: "ch_cursor (last (map read_row (take PAGE ?rs))) = h_cursor x"
      by (simp add: ch_cursor_read_row)
    have sorted: "sorted_wrt (<) (map h_cursor hist)" using Suc.prems(1) by (simp add: feed_inv_def)
    have rest: "filter (matches (h_cursor x) kinds) hist = drop PAGE ?rs"
      using filter_matches_drop [OF sorted lt] by (simp add: x_def PAGE_def)
    have "follow n d (h_cursor x) kinds =
        Some (map read_row (filter (matches (h_cursor x) kinds) hist), latest_cursor d)"
    proof (rule Suc.IH [OF Suc.prems(1)])
      show "pruned_through d \<le> h_cursor x"
        using Suc.prems(2) x(2) by (simp add: matches_def)
      show "h_cursor x \<le> latest_cursor d" by (rule feed_inv_latest [OF Suc.prems(1) x(1)])
      show "length (filter (matches (h_cursor x) kinds) hist) < n * PAGE"
        using Suc.prems(4) False by (simp add: rest)
    qed
    then show ?thesis
      using page len next_c by (simp add: Let_def rest map_append [symmetric])
  qed
qed

section \<open>Waiting\<close>

text \<open>What successive reads see while other transactions record and prune in between.\<close>

fun feed_trace ::
  "feed_op list list \<Rightarrow> change_row list \<Rightarrow> db \<Rightarrow> (change_row list \<times> db) list" where
  "feed_trace [] hist d = []"
| "feed_trace (ops # batches) hist d =
     (hist @ feed_log ops d, feed_run ops d) #
       feed_trace batches (hist @ feed_log ops d) (feed_run ops d)"

lemma feed_trace_inv:
  "feed_inv hist d \<Longrightarrow> (h, e) \<in> set (feed_trace batches hist d) \<Longrightarrow> feed_inv h e"
proof (induction batches arbitrary: hist d)
  case Nil
  then show ?case by simp
next
  case (Cons ops batches)
  from feed_inv_run [OF Cons.prems(1), of ops] Cons show ?case by auto
qed

lemma latest_le_seq: "feed_inv hist d \<Longrightarrow> latest_cursor d \<le> change_seq d"
proof -
  assume inv: "feed_inv hist d"
  then have "\<forall>r\<in>set (changes d). h_cursor r \<le> change_seq d" and "0 \<le> change_seq d"
    by (auto simp: feed_inv_def)
  then show ?thesis using inv by (auto simp: latest_cursor_def feed_inv_def)
qed

lemma feed_step_seq: "change_seq d \<le> change_seq (feed_step x d)"
  by (cases x) (simp_all add: record_change_def prune_def Let_def)

lemma feed_run_seq: "change_seq d \<le> change_seq (feed_run ops d)"
  by (induction ops arbitrary: d) (auto intro: order_trans [OF feed_step_seq])

lemma feed_trace_later:
  assumes "feed_inv hist d" and "(h, e) \<in> set (feed_trace batches hist d)"
  shows "\<exists>more. h = hist @ more \<and> (\<forall>r\<in>set more. change_seq d < h_cursor r)"
  using assms
proof (induction batches arbitrary: hist d)
  case Nil
  then show ?case by simp
next
  case (Cons ops batches)
  note inv = feed_inv_run [OF Cons.prems(1), of ops]
  have new: "\<forall>r\<in>set (feed_log ops d). change_seq d < h_cursor r"
    using feed_log_cursors by blast
  from Cons.prems(2) consider "h = hist @ feed_log ops d"
    | "(h, e) \<in> set (feed_trace batches (hist @ feed_log ops d) (feed_run ops d))" by auto
  then show ?case
  proof cases
    case 1
    then show ?thesis using new by auto
  next
    case 2
    from Cons.IH [OF inv 2] obtain more where "h = (hist @ feed_log ops d) @ more"
        "\<forall>r\<in>set more. change_seq (feed_run ops d) < h_cursor r" by blast
    then show ?thesis using new feed_run_seq [of d ops] by (intro exI [of _ "feed_log ops d @ more"]) fastforce
  qed
qed

lemma wait_for_reads:
  assumes "feed_inv hist d"
    and "wait_for (map snd (feed_trace batches hist d)) cursor kinds = Some (Inr (Page cs next))"
  shows "\<exists>(h, e)\<in>set (feed_trace batches hist d).
           cs = map read_row (take PAGE (filter (matches cursor kinds) h)) \<and>
           (length cs \<noteq> PAGE \<longrightarrow> next = latest_cursor e)"
  using assms
proof (induction batches arbitrary: hist d cursor)
  case Nil
  then show ?case by simp
next
  case (Cons ops batches)
  define h e where he: "h = hist @ feed_log ops d" "e = feed_run ops d"
  have inv: "feed_inv h e" unfolding he by (rule feed_inv_run [OF Cons.prems(1)])
  note page = after_refines [OF inv, of cursor kinds]
  show ?case
  proof (cases "\<exists>n. after e cursor kinds = Inr (Page [] n) \<and> batches \<noteq> []")
    case False
    then have "after e cursor kinds = Inr (Page cs next)"
      using Cons.prems(2) by (auto simp: he split: sum.splits page.splits list.splits if_splits)
    with page have "cs = map read_row (take PAGE (filter (matches cursor kinds) h))"
        "length cs \<noteq> PAGE \<longrightarrow> next = latest_cursor e"
      by (auto simp: Let_def split: if_splits)
    then show ?thesis by (auto simp: he [symmetric])
  next
    case True
    then obtain n where n: "after e cursor kinds = Inr (Page [] n)" "batches \<noteq> []" by blast
    have none: "filter (matches cursor kinds) h = []" and latest: "n = latest_cursor e"
      and le: "cursor \<le> n"
      using n(1) page by (auto simp: Let_def PAGE_def split: if_splits)
    have "wait_for (map snd (feed_trace batches h e)) n kinds = Some (Inr (Page cs next))"
      using Cons.prems(2) n by (cases batches) (auto simp: he)
    from Cons.IH [OF inv this] obtain h' e' where later: "(h', e') \<in> set (feed_trace batches h e)"
        "cs = map read_row (take PAGE (filter (matches n kinds) h'))"
        "length cs \<noteq> PAGE \<longrightarrow> next = latest_cursor e'" by blast
    from feed_trace_later [OF inv later(1)] obtain more where more: "h' = h @ more"
        "\<forall>r\<in>set more. change_seq e < h_cursor r" by blast
    have "n \<le> change_seq e" using latest_le_seq [OF inv] latest by simp
    then have "filter (matches n kinds) more = filter (matches cursor kinds) more"
      using more(2) le by (intro filter_cong) (auto simp: matches_def)
    moreover have "filter (matches n kinds) h = []"
      using feed_inv_latest [OF inv] latest by (force simp: filter_empty_conv matches_def)
    ultimately have "filter (matches n kinds) h' = filter (matches cursor kinds) h'"
      using none by (simp add: more(1))
    then show ?thesis using later by (auto simp: he [symmetric])
  qed
qed

section \<open>Properties\<close>

text \<open>
  A change reads back from its row as the subject that was recorded, whatever its kind,
  with its cursor and its time.
\<close>

theorem recorded_change_reads_back:
  "read_change (last (changes (record_change now s d))) =
     Inr \<lparr>ch_cursor = change_seq d + 1, ch_recorded_at = now, ch_subject = s\<rparr>"
  by (simp add: record_change_def read_stored_change)

text \<open>
  Cursors are handed out in increasing order and never twice, through any sequence of
  recordings and prunings, also when pruning has emptied the feed; and no cursor the feed
  reports as latest is ahead of them.
\<close>

theorem cursors_never_reused:
  "sorted_wrt (<) (map h_cursor (feed_log ops empty_db)) \<and>
   latest_cursor (feed_run ops empty_db) \<le> change_seq (feed_run ops empty_db) \<and>
   (\<forall>r\<in>set (feed_log later (feed_run ops empty_db)).
      latest_cursor (feed_run ops empty_db) < h_cursor r)"
  using feed_log_cursors [of ops empty_db] feed_log_cursors [of later "feed_run ops empty_db"]
    latest_le_seq [OF feed_inv_from_empty [of ops]]
  by fastforce

theorem cursors_never_reused_witness:
  "sorted_wrt (<) (map h_cursor (feed_log [Record 5 SUsage, Prune (10 ^ 18), Record 6 SUsage] empty_db))"
  using cursors_never_reused [of "[Record 5 SUsage, Prune (10 ^ 18), Record 6 SUsage]" "[]"] by blast

text \<open>
  C36: a read of the feed answers what the log of all changes ever recorded says, although
  pruning deleted part of it: the first 500 changes after the cursor of the kinds asked for,
  oldest first, with the cursor to read on from, or that the cursor expired, exactly when
  it lies below the horizon or ahead of the feed. No read is unreadable.
\<close>

theorem read_after_refines_log:
  "after (feed_run ops empty_db) cursor kinds =
     Inr (let d = feed_run ops empty_db in
          if cursor < pruned_through d \<or> latest_cursor d < cursor
          then PageExpired (pruned_through d) (latest_cursor d)
          else let cs = map read_row (take PAGE (filter (matches cursor kinds) (feed_log ops empty_db)))
               in Page cs (if length cs = PAGE then ch_cursor (last cs) else latest_cursor d))"
  unfolding Let_def [of "feed_run ops empty_db"] by (rule after_refines [OF feed_inv_from_empty])

text \<open>
  A reader whose cursor did not expire and who reads on from each full page receives
  every change of its kinds after its cursor, each once and in order, and ends at the
  latest cursor, after finitely many pages.
\<close>

theorem following_reader_misses_nothing:
  assumes "pruned_through (feed_run ops empty_db) \<le> cursor"
    and "cursor \<le> latest_cursor (feed_run ops empty_db)"
    and "length (feed_log ops empty_db) < n * PAGE"
  shows "follow n (feed_run ops empty_db) cursor kinds =
           Some (map read_row (filter (matches cursor kinds) (feed_log ops empty_db)),
                 latest_cursor (feed_run ops empty_db))"
  using assms
  by (intro follow_complete [OF feed_inv_from_empty])
    (auto intro: le_less_trans [OF length_filter_le])

theorem following_reader_misses_nothing_witness:
  "follow 1 (feed_run [Record 5 SUsage, Record 6 (SPlan 3)] empty_db) 1 [] =
     Some ([\<lparr>ch_cursor = 2, ch_recorded_at = 6, ch_subject = SPlan 3\<rparr>], 2)"
proof -
  let ?ops = "[Record 5 SUsage, Record 6 (SPlan 3)]"
  have "pruned_through (feed_run ?ops empty_db) \<le> 1" "1 \<le> latest_cursor (feed_run ?ops empty_db)"
    by (simp_all add: record_change_def empty_db_def latest_cursor_def)
  from following_reader_misses_nothing [OF this, of 1 "[]"] show ?thesis
    by (simp add: PAGE_def record_change_def empty_db_def latest_cursor_def matches_def
        read_row_def read_stored_change)
qed

text \<open>
  C38: a long poll loses nothing while it waits. The page it returns is the page that its
  first cursor has in the log at the read that answered, although it read several times
  with an advancing cursor while other transactions recorded and pruned.
\<close>

theorem waiting_reader_misses_nothing:
  assumes "wait_for (map snd (feed_trace batches [] empty_db)) cursor kinds =
             Some (Inr (Page cs next))"
  shows "\<exists>(hist, d)\<in>set (feed_trace batches [] empty_db).
           cs = map read_row (take PAGE (filter (matches cursor kinds) hist)) \<and>
           (length cs \<noteq> PAGE \<longrightarrow> next = latest_cursor d)"
  by (rule wait_for_reads [OF feed_inv_empty assms])

theorem waiting_reader_misses_nothing_witness:
  "\<exists>(hist, d)\<in>set (feed_trace [[Record 5 SUsage], [Record 6 (SPlan 3)]] [] empty_db).
     [\<lparr>ch_cursor = 2, ch_recorded_at = 6, ch_subject = SPlan 3\<rparr>] =
       map read_row (take PAGE (filter (matches 0 [PlanChanged]) hist)) \<and>
     (1 \<noteq> PAGE \<longrightarrow> 2 = latest_cursor d)"
proof -
  have "wait_for (map snd (feed_trace [[Record 5 SUsage], [Record 6 (SPlan 3)]] [] empty_db)) 0
      [PlanChanged] = Some (Inr (Page [\<lparr>ch_cursor = 2, ch_recorded_at = 6, ch_subject = SPlan 3\<rparr>] 2))"
    by (simp add: record_change_def empty_db_def after_def latest_cursor_def matches_def
        PAGE_def stored_change_def read_change_def read_subject_def kind_parse_def kinds_all_def)
  from waiting_reader_misses_nothing [OF this] show ?thesis by simp
qed

text \<open>
  Pruning deletes exactly the changes older than the retention, answers how many went,
  keeps the others as they were, and raises the horizon over every deleted cursor, never
  lowering it.
\<close>

theorem prune_keeps_retention:
  "(case prune now d of (d', count) \<Rightarrow>
     changes d' = filter (\<lambda>r. now - 604800000000000 \<le> h_recorded_at r) (changes d) \<and>
     count + length (changes d') = length (changes d) \<and>
     pruned_through d \<le> pruned_through d' \<and>
     (\<forall>r\<in>set (changes d). r \<notin> set (changes d') \<longrightarrow> h_cursor r \<le> pruned_through d') \<and>
     change_seq d' = change_seq d)"
proof -
  have retention: "RETENTION = 604800000000000" by (simp add: RETENTION_def)
  let ?old = "\<lambda>r. h_recorded_at r < now - RETENTION"
  have "length (filter ?old (changes d)) + length (filter (\<lambda>r. \<not> ?old r) (changes d)) =
      length (changes d)"
    by (rule sum_length_filter_compl)
  moreover have "h_cursor r \<le> pruned_through (fst (prune now d))"
    if "r \<in> set (changes d)" "?old r" for r
    using that by (auto simp: prune_def Let_def filter_empty_conv le_max_iff_disj)
  ultimately show ?thesis
    by (auto simp: prune_def Let_def delete_where_def not_less retention [symmetric])
qed

theorem prune_keeps_retention_witness:
  "(case prune (10 ^ 18) (record_change 5 SUsage empty_db) of (d', count) \<Rightarrow>
      changes d' = [] \<and> pruned_through d' = 1 \<and> count = 1)"
  using prune_keeps_retention [of "10 ^ 18" "record_change 5 SUsage empty_db"]
  by (auto simp: record_change_def empty_db_def prune_def RETENTION_def split: prod.splits)

end
