(* ===== verification/Wakes.thy ===== *)
theory Wakes
  imports Changes
begin

text \<open>
  How a commit wakes a reader that waits: the transactions of \<^verbatim>\<open>src/database/mod.rs\<close> and the
  loop of \<^verbatim>\<open>Change::wait\<close>, step by step, with the steps of any writers between them. One
  transaction writes at a time, since each begins by taking the write lock. A commit is visible
  before its message is sent, so both are steps of their own. The watch channel is tokio's: what
  a receiver can tell of it is a parameter. A writer that is cancelled between its commit and
  its message is not modelled.
\<close>

section \<open>Transactions\<close>

record transaction =
  wt_db :: db
  wt_changed :: bool

definition begin_write :: "db \<Rightarrow> transaction" where
  "begin_write d = \<lparr>wt_db = d, wt_changed = False\<rparr>"

definition mark_changed :: "transaction \<Rightarrow> transaction" where
  "mark_changed w = w\<lparr>wt_changed := True\<rparr>"

definition record_in :: "instant \<Rightarrow> subject \<Rightarrow> transaction \<Rightarrow> transaction" where
  "record_in now s w = mark_changed (w\<lparr>wt_db := record_change now s (wt_db w)\<rparr>)"

section \<open>The system\<close>

text \<open>
  The committed database, the channel, the open transaction, the messages of commits that are
  not sent yet, and one reader with its cursor, what it has seen of the channel, and where its
  loop stands.
\<close>

datatype phase = Idle | Reading | Waiting page | Answered "read_error + page"

record 'c feed =
  fd_db :: db
  fd_channel :: 'c
  fd_writer :: "transaction option"
  fd_unsent :: nat
  fd_cursor :: int
  fd_seen :: 'c
  fd_phase :: phase

definition commit_write :: "transaction \<Rightarrow> 'c feed \<Rightarrow> 'c feed" where
  "commit_write w f =
     f\<lparr>fd_db := wt_db w, fd_writer := None, fd_unsent := fd_unsent f + (if wt_changed w then 1 else 0)\<rparr>"

definition read_once :: "change_kind list \<Rightarrow> 'c feed \<Rightarrow> 'c feed" where
  "read_once kinds f =
     (case after (fd_db f) (fd_cursor f) kinds of
        Inr (Page [] next) \<Rightarrow> f\<lparr>fd_cursor := next, fd_phase := Waiting (Page [] next)\<rparr>
      | found \<Rightarrow> f\<lparr>fd_phase := Answered found\<rparr>)"

definition change_tables :: "db \<Rightarrow> change_row list \<times> int \<times> int" where
  "change_tables d = (changes d, change_seq d, pruned_through d)"

inductive feed_move ::
  "('c \<Rightarrow> 'c) \<Rightarrow> ('c \<Rightarrow> 'c \<Rightarrow> bool) \<Rightarrow> change_kind list \<Rightarrow> 'c feed \<Rightarrow> 'c feed \<Rightarrow> bool"
  for send fresh kinds where
  begun: "fd_writer f = None \<Longrightarrow>
    feed_move send fresh kinds f (f\<lparr>fd_writer := Some (begin_write (fd_db f))\<rparr>)"
| recorded: "fd_writer f = Some w \<Longrightarrow>
    feed_move send fresh kinds f (f\<lparr>fd_writer := Some (record_in now s w)\<rparr>)"
| pruned: "fd_writer f = Some w \<Longrightarrow>
    feed_move send fresh kinds f (f\<lparr>fd_writer := Some (w\<lparr>wt_db := fst (prune now (wt_db w))\<rparr>)\<rparr>)"
| written: "fd_writer f = Some w \<Longrightarrow> change_tables d = change_tables (wt_db w) \<Longrightarrow>
    feed_move send fresh kinds f (f\<lparr>fd_writer := Some (w\<lparr>wt_db := d\<rparr>)\<rparr>)"
| committed: "fd_writer f = Some w \<Longrightarrow> feed_move send fresh kinds f (commit_write w f)"
| dropped: "feed_move send fresh kinds f (f\<lparr>fd_writer := None\<rparr>)"
| sent: "fd_unsent f = Suc n \<Longrightarrow>
    feed_move send fresh kinds f (f\<lparr>fd_unsent := n, fd_channel := send (fd_channel f)\<rparr>)"
| subscribed: "fd_phase f = Idle \<Longrightarrow>
    feed_move send fresh kinds f (f\<lparr>fd_seen := fd_channel f, fd_phase := Reading\<rparr>)"
| read: "fd_phase f = Reading \<Longrightarrow> feed_move send fresh kinds f (read_once kinds f)"
| woken: "fd_phase f = Waiting p \<Longrightarrow> fresh (fd_channel f) (fd_seen f) \<Longrightarrow>
    feed_move send fresh kinds f (f\<lparr>fd_seen := fd_channel f, fd_phase := Reading\<rparr>)"
| timed_out: "fd_phase f = Waiting p \<Longrightarrow>
    feed_move send fresh kinds f (f\<lparr>fd_phase := Answered (Inr p)\<rparr>)"

abbreviation feed_moves ::
  "('c \<Rightarrow> 'c) \<Rightarrow> ('c \<Rightarrow> 'c \<Rightarrow> bool) \<Rightarrow> change_kind list \<Rightarrow> 'c feed \<Rightarrow> 'c feed \<Rightarrow> bool" where
  "feed_moves send fresh kinds \<equiv> (feed_move send fresh kinds)\<^sup>*\<^sup>*"

definition idle_feed :: "'c \<Rightarrow> db \<Rightarrow> int \<Rightarrow> 'c feed" where
  "idle_feed c d cursor =
     \<lparr>fd_db = d, fd_channel = c, fd_writer = None, fd_unsent = 0, fd_cursor = cursor, fd_seen = c,
      fd_phase = Idle\<rparr>"

text \<open>
  What tokio documents of the channel: a message is new to every receiver, whether or not it
  had seen the one before.
\<close>

definition delivers :: "('c \<Rightarrow> 'c) \<Rightarrow> ('c \<Rightarrow> 'c \<Rightarrow> bool) \<Rightarrow> bool" where
  "delivers send fresh \<longleftrightarrow> (\<forall>c seen. seen = c \<or> fresh c seen \<longrightarrow> fresh (send c) seen)"

section \<open>The invariant\<close>

text \<open>A transaction that is not marked has recorded no change.\<close>

definition writer_inv :: "'c feed \<Rightarrow> bool" where
  "writer_inv f \<longleftrightarrow>
     (\<forall>w. fd_writer f = Some w \<and> \<not> wt_changed w \<longrightarrow> set (changes (wt_db w)) \<subseteq> set (changes (fd_db f)))"

definition seen_inv :: "('c \<Rightarrow> 'c \<Rightarrow> bool) \<Rightarrow> 'c feed \<Rightarrow> bool" where
  "seen_inv fresh f \<longleftrightarrow> fd_phase f \<noteq> Idle \<longrightarrow> fd_seen f = fd_channel f \<or> fresh (fd_channel f) (fd_seen f)"

definition wake_pending :: "('c \<Rightarrow> 'c \<Rightarrow> bool) \<Rightarrow> 'c feed \<Rightarrow> bool" where
  "wake_pending fresh f \<longleftrightarrow> 0 < fd_unsent f \<or> fresh (fd_channel f) (fd_seen f)"

definition sleeper_inv :: "('c \<Rightarrow> 'c \<Rightarrow> bool) \<Rightarrow> change_kind list \<Rightarrow> 'c feed \<Rightarrow> bool" where
  "sleeper_inv fresh kinds f \<longleftrightarrow>
     (\<forall>p r. fd_phase f = Waiting p \<and> r \<in> set (changes (fd_db f)) \<and> matches (fd_cursor f) kinds r \<longrightarrow>
        wake_pending fresh f)"

lemma prune_changes_subset: "set (changes (fst (prune now d))) \<subseteq> set (changes d)"
  by (auto simp: prune_def Let_def delete_where_def)

lemma collect_changes_Nil: "collect_changes rs = Inr [] \<Longrightarrow> rs = []"
  by (cases rs) (auto split: sum.splits)

text \<open>A read that finds nothing has nothing left to find, also past the cursor it moves to.\<close>

lemma empty_page:
  assumes "after d cursor kinds = Inr (Page [] next)" and "r \<in> set (changes d)"
  shows "\<not> matches cursor kinds r" and "\<not> matches next kinds r"
proof -
  let ?rs = "filter (matches cursor kinds) (sort_key h_cursor (changes d))"
  have "collect_changes (take PAGE ?rs) = Inr []" and le: "cursor \<le> next"
    using assms(1) by (auto simp: after_def Let_def split: if_splits sum.splits)
  then have "take PAGE ?rs = []" by (intro collect_changes_Nil)
  then have "?rs = []" by (simp add: PAGE_def)
  then show none: "\<not> matches cursor kinds r" using assms(2) by (auto simp: filter_empty_conv)
  show "\<not> matches next kinds r" using none le by (auto simp: matches_def)
qed

lemma read_once_keeps [simp]:
  "fd_db (read_once kinds f) = fd_db f" "fd_channel (read_once kinds f) = fd_channel f"
  "fd_writer (read_once kinds f) = fd_writer f" "fd_unsent (read_once kinds f) = fd_unsent f"
  "fd_seen (read_once kinds f) = fd_seen f" "fd_phase (read_once kinds f) \<noteq> Idle"
  by (simp_all add: read_once_def split: sum.split page.split list.split)

lemma read_once_Waiting:
  assumes "fd_phase (read_once kinds f) = Waiting p"
  shows "after (fd_db f) (fd_cursor f) kinds = Inr (Page [] (fd_cursor (read_once kinds f)))"
  using assms by (auto simp: read_once_def split: sum.splits page.splits list.splits)

lemma writer_inv_move:
  assumes "feed_move send fresh kinds f f'" and "writer_inv f"
  shows "writer_inv f'"
  using assms
proof cases
  case (pruned w now)
  then show ?thesis using assms(2) prune_changes_subset by (fastforce simp: writer_inv_def)
qed (auto simp: writer_inv_def begin_write_def record_in_def mark_changed_def commit_write_def change_tables_def)

lemma seen_inv_move:
  assumes "feed_move send fresh kinds f f'" and "seen_inv fresh f" and "delivers send fresh"
  shows "seen_inv fresh f'"
  using assms by cases (auto simp: seen_inv_def delivers_def commit_write_def)

lemma sleeper_inv_move:
  assumes "feed_move send fresh kinds f f'" and "sleeper_inv fresh kinds f" and "writer_inv f" and "seen_inv fresh f"
    and "delivers send fresh"
  shows "sleeper_inv fresh kinds f'"
  using assms(1)
proof cases
  case (committed w)
  show ?thesis
  proof (cases "wt_changed w")
    case False
    then have "set (changes (wt_db w)) \<subseteq> set (changes (fd_db f))"
      using assms(3) committed(2) by (auto simp: writer_inv_def)
    then show ?thesis using assms(2) False committed(1)
      by (auto simp: sleeper_inv_def commit_write_def wake_pending_def)
  qed (simp add: sleeper_inv_def wake_pending_def commit_write_def committed(1))
next
  case (sent n)
  then show ?thesis using assms(4,5) by (auto simp: sleeper_inv_def wake_pending_def seen_inv_def delivers_def)
next
  case read
  show ?thesis unfolding sleeper_inv_def read(1) read_once_keeps
    using empty_page(2) [OF read_once_Waiting] by blast
qed (use assms(2) in \<open>auto simp: sleeper_inv_def wake_pending_def\<close>)

lemma feed_invariant:
  assumes "feed_moves send fresh kinds (idle_feed c d cursor) f" and "delivers send fresh"
  shows "writer_inv f \<and> seen_inv fresh f \<and> sleeper_inv fresh kinds f"
  using assms(1)
proof (induction rule: rtranclp_induct)
  case base
  show ?case by (simp add: idle_feed_def writer_inv_def seen_inv_def sleeper_inv_def)
next
  case (step f f')
  then show ?case using writer_inv_move seen_inv_move sleeper_inv_move assms(2) by metis
qed

text \<open>Sending what is not sent yet changes nothing else, and leaves a wake to every sleeper.\<close>

lemma send_all:
  assumes "wake_pending fresh f" and "seen_inv fresh f" and "fd_phase f = Waiting p" and "delivers send fresh"
  shows "\<exists>f'. feed_moves send fresh kinds f f' \<and> fresh (fd_channel f') (fd_seen f') \<and> fd_db f' = fd_db f \<and>
    fd_cursor f' = fd_cursor f \<and> fd_phase f' = Waiting p"
proof (cases "fresh (fd_channel f) (fd_seen f)")
  case False
  then obtain n where n: "fd_unsent f = Suc n" using assms(1) by (auto simp: wake_pending_def gr0_conv_Suc)
  from assms(2,3,4) False have "fresh (send (fd_channel f)) (fd_seen f)" by (auto simp: seen_inv_def delivers_def)
  then show ?thesis using sent [OF n, of send fresh kinds] assms(3)
    by (intro exI [of _ "f\<lparr>fd_unsent := n, fd_channel := send (fd_channel f)\<rparr>"]) auto
qed (use assms(3) in blast)

section \<open>The loop as a function of what it reads\<close>

text \<open>
  Whatever steps a run takes, the answer of its reader is that of \<^const>\<open>wait_for\<close> on the
  databases that it read, in the order it read them.
\<close>

definition continues :: "change_kind list \<Rightarrow> int \<Rightarrow> db list \<Rightarrow> int \<Rightarrow> bool" where
  "continues kinds start ds cursor \<longleftrightarrow>
     (\<forall>rest. rest \<noteq> [] \<longrightarrow> wait_for (ds @ rest) start kinds = wait_for rest cursor kinds)"

definition reads_inv :: "change_kind list \<Rightarrow> int \<Rightarrow> 'c feed \<Rightarrow> bool" where
  "reads_inv kinds start f \<longleftrightarrow>
     (case fd_phase f of
        Idle \<Rightarrow> continues kinds start [] (fd_cursor f)
      | Reading \<Rightarrow> \<exists>ds. continues kinds start ds (fd_cursor f)
      | Waiting p \<Rightarrow> \<exists>ds. continues kinds start ds (fd_cursor f) \<and> wait_for ds start kinds = Some (Inr p)
      | Answered found \<Rightarrow> \<exists>ds. wait_for ds start kinds = Some found)"

lemma reads_inv_read:
  assumes "continues kinds start ds (fd_cursor f)"
  shows "reads_inv kinds start (read_once kinds f)"
proof -
  have once: "wait_for (ds @ [fd_db f]) start kinds = wait_for [fd_db f] (fd_cursor f) kinds"
    using assms by (simp add: continues_def)
  show ?thesis
  proof (cases "\<exists>later. after (fd_db f) (fd_cursor f) kinds = Inr (Page [] later)")
    case True
    then obtain later where later: "after (fd_db f) (fd_cursor f) kinds = Inr (Page [] later)" by blast
    have "continues kinds start (ds @ [fd_db f]) later"
      using assms later by (simp add: continues_def)
    then show ?thesis using once later by (auto simp: reads_inv_def read_once_def)
  next
    case False
    then have "wait_for [fd_db f] (fd_cursor f) kinds = Some (after (fd_db f) (fd_cursor f) kinds)"
      "read_once kinds f = f\<lparr>fd_phase := Answered (after (fd_db f) (fd_cursor f) kinds)\<rparr>"
      by (auto simp: read_once_def split: sum.split page.split list.split)
    then show ?thesis using once by (auto simp: reads_inv_def)
  qed
qed

lemma reads_inv_move: "feed_move send fresh kinds f f' \<Longrightarrow> reads_inv kinds start f \<Longrightarrow> reads_inv kinds start f'"
proof (induction rule: feed_move.induct)
  case (read f)
  then show ?case using reads_inv_read by (auto simp: reads_inv_def [of kinds start f])
qed (auto simp: reads_inv_def commit_write_def split: phase.splits)

lemma answer_is_a_wait:
  assumes "feed_moves send fresh kinds (idle_feed c d cursor) f" and "fd_phase f = Answered found"
  shows "\<exists>ds. wait_for ds cursor kinds = Some found"
proof -
  from assms(1) have "reads_inv kinds cursor f"
  proof (induction rule: rtranclp_induct)
    case base
    show ?case by (simp add: reads_inv_def idle_feed_def continues_def)
  qed (rule reads_inv_move)
  then show ?thesis using assms(2) by (simp add: reads_inv_def)
qed

section \<open>Properties\<close>

text \<open>
  C37: No wake is lost. Whatever writers and commits come between the steps of a reader, while it
  waits and the database holds a change that it asked for, a wake is on its way to it: a message
  it has not seen, or one that a commit has yet to send. Taking it, the reader reads and answers
  that change, without waiting for its deadline.
\<close>

theorem no_wake_is_lost:
  assumes "delivers send fresh" and "feed_moves send fresh kinds (idle_feed c d cursor) f"
    and "fd_phase f = Waiting p" and "r \<in> set (changes (fd_db f))" and "matches (fd_cursor f) kinds r"
  shows "(0 < fd_unsent f \<or> fresh (fd_channel f) (fd_seen f)) \<and>
    (\<exists>f'. feed_moves send fresh kinds f f' \<and> fd_db f' = fd_db f \<and>
      fd_phase f' = Answered (after (fd_db f) (fd_cursor f) kinds)) \<and>
    (\<forall>next. after (fd_db f) (fd_cursor f) kinds \<noteq> Inr (Page [] next))"
proof -
  note inv = feed_invariant [OF assms(2,1)]
  then have pending: "wake_pending fresh f" using assms(3-5) by (auto simp: sleeper_inv_def)
  have found: "after (fd_db f) (fd_cursor f) kinds \<noteq> Inr (Page [] later)" for later
    using empty_page(1) assms(4,5) by blast
  obtain f1 where f1: "feed_moves send fresh kinds f f1" "fresh (fd_channel f1) (fd_seen f1)" "fd_db f1 = fd_db f"
    "fd_cursor f1 = fd_cursor f" "fd_phase f1 = Waiting p"
    using send_all [OF pending _ assms(3,1)] inv by blast
  let ?f2 = "f1\<lparr>fd_seen := fd_channel f1, fd_phase := Reading\<rparr>"
  have "feed_moves send fresh kinds f (read_once kinds ?f2)"
    using rtranclp.rtrancl_into_rtrancl [OF rtranclp.rtrancl_into_rtrancl [OF f1(1) woken [where fresh = fresh, OF f1(5,2)]]
      read [of ?f2]] by simp
  moreover have "fd_phase (read_once kinds ?f2) = Answered (after (fd_db f) (fd_cursor f) kinds)"
    using found by (auto simp: read_once_def f1(3,4) split: sum.split page.split list.split)
  ultimately show ?thesis using pending found f1(3) by (auto simp: wake_pending_def intro!: exI [of _ "read_once kinds ?f2"])
qed

text \<open>A reader that found nothing sleeps, and a change is committed before its message is sent.\<close>

definition sleeping :: "nat feed" where
  "sleeping = (idle_feed 0 empty_db 0)\<lparr>fd_phase := Waiting (Page [] 0)\<rparr>"

definition overtaken :: "nat feed" where
  "overtaken = sleeping\<lparr>fd_db := record_change 5 SUsage empty_db, fd_unsent := 1\<rparr>"

lemma overtaken_reached: "feed_moves Suc (\<lambda>now seen. seen < now) [] (idle_feed 0 empty_db 0) overtaken"
proof -
  let ?move = "feed_move Suc (\<lambda>now seen. seen < now) []" and ?w = "begin_write empty_db"
  have found: "after empty_db 0 [] = Inr (Page [] 0)" by (simp add: after_def empty_db_def latest_cursor_def)
  have "?move (idle_feed 0 empty_db 0) ((idle_feed 0 empty_db 0)\<lparr>fd_phase := Reading\<rparr>)"
    using subscribed [of "idle_feed 0 empty_db 0"] by (simp add: idle_feed_def)
  moreover have "?move ((idle_feed 0 empty_db 0)\<lparr>fd_phase := Reading\<rparr>) sleeping"
    using read [where f = "(idle_feed 0 empty_db 0)\<lparr>fd_phase := Reading\<rparr>" and kinds = "[]"]
    by (simp add: read_once_def idle_feed_def sleeping_def found)
  moreover have "?move sleeping (sleeping\<lparr>fd_writer := Some ?w\<rparr>)"
    using begun [of sleeping] by (simp add: sleeping_def idle_feed_def)
  moreover have "?move (sleeping\<lparr>fd_writer := Some ?w\<rparr>) (sleeping\<lparr>fd_writer := Some (record_in 5 SUsage ?w)\<rparr>)"
    using recorded [of "sleeping\<lparr>fd_writer := Some ?w\<rparr>" ?w] by simp
  moreover have "?move (sleeping\<lparr>fd_writer := Some (record_in 5 SUsage ?w)\<rparr>) overtaken"
    using committed [of "sleeping\<lparr>fd_writer := Some (record_in 5 SUsage ?w)\<rparr>" "record_in 5 SUsage ?w"]
    by (simp add: commit_write_def record_in_def mark_changed_def begin_write_def overtaken_def sleeping_def idle_feed_def)
  ultimately show ?thesis by (meson rtranclp.rtrancl_into_rtrancl rtranclp.rtrancl_refl)
qed

theorem no_wake_is_lost_witness:
  "\<exists>f'. feed_moves Suc (\<lambda>now seen. seen < now) [] overtaken f' \<and>
     fd_phase f' = Answered (after (record_change 5 SUsage empty_db) 0 [])"
proof -
  have "delivers Suc (\<lambda>now seen :: nat. seen < now)" by (auto simp: delivers_def)
  moreover have "matches (fd_cursor overtaken) [] (stored_change 1 5 SUsage)"
    by (simp add: matches_def overtaken_def sleeping_def idle_feed_def stored_change_def)
  moreover have "stored_change 1 5 SUsage \<in> set (changes (fd_db overtaken))"
    by (simp add: overtaken_def record_change_def empty_db_def)
  moreover have "fd_phase overtaken = Waiting (Page [] 0)" by (simp add: overtaken_def sleeping_def)
  ultimately have "\<exists>f'. feed_moves Suc (\<lambda>now seen. seen < now) [] overtaken f' \<and>
      fd_phase f' = Answered (after (fd_db overtaken) (fd_cursor overtaken) [])"
    using no_wake_is_lost [OF _ overtaken_reached] by blast
  then show ?thesis by (simp add: overtaken_def sleeping_def idle_feed_def)
qed

end
