(* ===== verification/Accounts.thy ===== *)
theory Accounts
  imports Schema
begin

text \<open>
  Accounts of \<^verbatim>\<open>src/account/mod.rs\<close>: an account as a gateway record describes it, with its
  secret masked, and the two statements that find or create one: \<^verbatim>\<open>resolve\<close> for a record
  charged to it and \<^verbatim>\<open>register\<close> for a credential the gateway lists. The invariant says
  that a source has one account per upstream key, that ids are unique, and that a merged
  account points in one step at an account of its source that is not merged itself.
\<close>

section \<open>Masking\<close>

definition MASKABLE_LENGTH :: nat where
  "MASKABLE_LENGTH = 8"

definition MASK_TAIL :: nat where
  "MASK_TAIL = 4"

text \<open>The UTF-8 bytes of the ellipsis a masked secret starts with.\<close>

definition ellipsis :: string where
  "ellipsis = map char_of [226, 128, 166 :: nat]"

text \<open>The byte offsets at which the characters of a text start (\<^verbatim>\<open>char_indices\<close>).\<close>

definition char_starts :: "string \<Rightarrow> nat list" where
  "char_starts s = filter (\<lambda>i. \<not> is_continuation (s ! i)) [0..<length s]"

definition mask_secret :: "string \<Rightarrow> string option" where
  "mask_secret secret =
     (if char_count secret < MASKABLE_LENGTH then None
      else let starts = rev (char_starts secret)
           in if MASK_TAIL - 1 < length starts
              then Some (ellipsis @ drop (starts ! (MASK_TAIL - 1)) secret) else None)"

record new_account =
  n_key :: string
  n_auth :: auth_kind
  n_label :: "string option"

definition make_account :: "string \<Rightarrow> auth_kind \<Rightarrow> string option \<Rightarrow> new_account" where
  "make_account upstream_key auth source =
     (let source = filter_option (\<lambda>s. s \<noteq> []) source;
          label = (case auth of OAuth \<Rightarrow> source | _ \<Rightarrow> Option.bind source mask_secret)
      in \<lparr>n_key = upstream_key, n_auth = auth, n_label = label\<rparr>)"

definition stored_key :: "new_account \<Rightarrow> string \<Rightarrow> string" where
  "stored_key account provider =
     (if n_key account = [] then ''unattributed/'' @ provider else n_key account)"

section \<open>Finding and creating accounts\<close>

abbreviation account_key :: "account_row \<Rightarrow> id \<times> string" where
  "account_key \<equiv> (\<lambda>a. (a_source a, a_key a))"

definition fresh_account ::
  "id \<Rightarrow> id \<Rightarrow> string \<Rightarrow> new_account \<Rightarrow> instant \<Rightarrow> account_row" where
  "fresh_account candidate source provider account seen_at =
     \<lparr>a_id = candidate, a_source = source, a_provider = provider,
      a_key = stored_key account provider, a_auth = n_auth account, a_label = n_label account,
      a_display = None, a_merged = None, a_first = seen_at, a_last = seen_at\<rparr>"

definition widen :: "instant \<Rightarrow> instant \<Rightarrow> account_row \<Rightarrow> account_row" where
  "widen lo hi a = a\<lparr>a_first := min (a_first a) lo, a_last := max (a_last a) hi\<rparr>"

definition resolve_merge :: "account_row \<Rightarrow> account_row \<Rightarrow> account_row" where
  "resolve_merge new old =
     old\<lparr>a_auth := a_auth new, a_label := or_else (a_label new) (a_label old),
         a_first := min (a_first old) (a_first new), a_last := max (a_last old) (a_last new)\<rparr>"

definition register_merge :: "account_row \<Rightarrow> account_row \<Rightarrow> account_row" where
  "register_merge new old =
     old\<lparr>a_provider := a_provider new, a_auth := a_auth new,
         a_label := or_else (a_label new) (a_label old)\<rparr>"

interpretation resolving: keyed_upsert account_key resolve_merge
  by unfold_locales (simp add: resolve_merge_def)

interpretation registering: keyed_upsert account_key register_merge
  by unfold_locales (simp add: register_merge_def)

text \<open>The row a statement's \<^verbatim>\<open>RETURNING\<close> clause reads: the one with the new row's key.\<close>

definition returned :: "account_row \<Rightarrow> account_row list \<Rightarrow> account_row option" where
  "returned new rows = find (\<lambda>a. account_key a = account_key new) rows"

definition resolve ::
  "id \<Rightarrow> id \<Rightarrow> string \<Rightarrow> new_account \<Rightarrow> instant \<Rightarrow> db \<Rightarrow> id \<times> db" where
  "resolve candidate source provider account seen_at d =
     (let new = fresh_account candidate source provider account seen_at;
          rows = upsert account_key resolve_merge new (accounts d)
      in case returned new rows of
           None \<Rightarrow> (candidate, d\<lparr>accounts := rows\<rparr>)
         | Some row \<Rightarrow>
             (case a_merged row of
                None \<Rightarrow> (a_id row, d\<lparr>accounts := rows\<rparr>)
              | Some target \<Rightarrow>
                  (target, d\<lparr>accounts :=
                     update_where (\<lambda>a. a_id a = target) (widen seen_at seen_at) rows\<rparr>)))"

definition register ::
  "id \<Rightarrow> id \<Rightarrow> string \<Rightarrow> new_account \<Rightarrow> instant \<Rightarrow> db \<Rightarrow> id \<times> db" where
  "register candidate source provider account observed_at d =
     (let new = fresh_account candidate source provider account observed_at;
          rows = upsert account_key register_merge new (accounts d)
      in case returned new rows of
           None \<Rightarrow> (candidate, d\<lparr>accounts := rows\<rparr>)
         | Some row \<Rightarrow> (unwrap_or (a_id row) (a_merged row), d\<lparr>accounts := rows\<rparr>))"

section \<open>The invariant\<close>

definition merge_target_ok :: "account_row list \<Rightarrow> account_row \<Rightarrow> bool" where
  "merge_target_ok rows a =
     (case a_merged a of
        None \<Rightarrow> True
      | Some t \<Rightarrow> \<exists>b\<in>set rows. a_id b = t \<and> a_merged b = None \<and> a_source b = a_source a)"

definition accounts_ok :: "account_row list \<Rightarrow> bool" where
  "accounts_ok rows \<longleftrightarrow>
     distinct (map a_id rows) \<and> distinct (map account_key rows) \<and>
     (\<forall>a\<in>set rows. merge_target_ok rows a \<and> a_first a \<le> a_last a)"

lemma accounts_okD:
  assumes "accounts_ok rows"
  shows "distinct (map a_id rows)" and "distinct (map account_key rows)"
    and "a \<in> set rows \<Longrightarrow> a_first a \<le> a_last a"
    and "a \<in> set rows \<Longrightarrow> a_merged a = Some t \<Longrightarrow>
      \<exists>b\<in>set rows. a_id b = t \<and> a_merged b = None \<and> a_source b = a_source a"
  using assms by (auto simp: accounts_ok_def merge_target_ok_def split: option.splits)

text \<open>A rewrite of the rows that keeps ids, sources, keys and targets keeps the invariant.\<close>

lemma accounts_ok_map:
  assumes ok: "accounts_ok rows"
    and keep: "\<And>a. a \<in> set rows \<Longrightarrow> a_id (f a) = a_id a \<and> a_source (f a) = a_source a \<and>
      a_key (f a) = a_key a \<and> a_merged (f a) = a_merged a \<and> a_first (f a) \<le> a_last (f a)"
  shows "accounts_ok (map f rows)"
proof -
  have "map a_id (map f rows) = map a_id rows" "map account_key (map f rows) = map account_key rows"
    using keep by simp_all
  moreover have "merge_target_ok (map f rows) (f a)" if "a \<in> set rows" for a
    using accounts_okD(4) [OF ok that] keep that
    by (fastforce simp: merge_target_ok_def split: option.splits)
  ultimately show ?thesis
    using accounts_okD(1,2) [OF ok] keep by (auto simp: accounts_ok_def simp del: map_map)
qed

lemma accounts_ok_update_where:
  assumes "accounts_ok rows"
    and "\<And>a. a \<in> set rows \<Longrightarrow> p a \<Longrightarrow> a_id (f a) = a_id a \<and> a_source (f a) = a_source a \<and>
      a_key (f a) = a_key a \<and> a_merged (f a) = a_merged a \<and> a_first (f a) \<le> a_last (f a)"
  shows "accounts_ok (update_where p f rows)"
  unfolding update_where_def using assms accounts_okD(3) [OF assms(1)]
  by (intro accounts_ok_map) auto

lemma accounts_ok_snoc:
  assumes "accounts_ok rows" and "a_id a \<notin> a_id ` set rows"
    and "account_key a \<notin> account_key ` set rows" and "a_merged a = None" and "a_first a \<le> a_last a"
  shows "accounts_ok (rows @ [a])"
proof -
  have "merge_target_ok (rows @ [a]) b" if "b \<in> set (rows @ [a])" for b
    using accounts_okD(4) [OF assms(1), of b] that assms(4)
    by (fastforce simp: merge_target_ok_def split: option.splits)
  then show ?thesis
    using assms accounts_okD [OF assms(1)] by (auto simp: accounts_ok_def)
qed

lemma accounts_ok_upsert:
  assumes "accounts_ok rows" and "a_id new \<notin> a_id ` set rows" and "a_merged new = None"
    and "a_first new \<le> a_last new"
    and "\<And>old. old \<in> set rows \<Longrightarrow> a_id (merge new old) = a_id old \<and>
      a_source (merge new old) = a_source old \<and> a_key (merge new old) = a_key old \<and>
      a_merged (merge new old) = a_merged old \<and> a_first (merge new old) \<le> a_last (merge new old)"
  shows "accounts_ok (upsert account_key merge new rows)"
proof (cases "\<exists>r\<in>set rows. account_key r = account_key new")
  case True
  then have "upsert account_key merge new rows =
      update_where (\<lambda>r. account_key r = account_key new) (merge new) rows"
    by (simp add: upsert_def)
  then show ?thesis using assms by (simp add: accounts_ok_update_where)
next
  case False
  then have "upsert account_key merge new rows = rows @ [new]"
    by (simp only: upsert_def if_False)
  then show ?thesis using assms False by (auto intro!: accounts_ok_snoc)
qed

lemma accounts_ok_resolve_rows:
  assumes "accounts_ok (accounts d)" and "candidate \<notin> a_id ` set (accounts d)"
  shows "accounts_ok (upsert account_key resolve_merge
           (fresh_account candidate source provider account seen_at) (accounts d))"
  using assms accounts_okD(3) [OF assms(1)]
  by (intro accounts_ok_upsert) (fastforce simp: fresh_account_def resolve_merge_def min_def max_def)+

lemma accounts_ok_register_rows:
  assumes "accounts_ok (accounts d)" and "candidate \<notin> a_id ` set (accounts d)"
  shows "accounts_ok (upsert account_key register_merge
           (fresh_account candidate source provider account seen_at) (accounts d))"
  using assms accounts_okD(3) [OF assms(1)]
  by (intro accounts_ok_upsert) (auto simp: fresh_account_def register_merge_def)

lemma returned_cong: "account_key m = account_key n \<Longrightarrow> returned m = returned n"
  by (rule ext) (simp only: returned_def)

lemma returned_update_where:
  assumes "\<And>a. a_source (f a) = a_source a \<and> a_key (f a) = a_key a"
  shows "returned new (update_where p f rows) =
           map_option (\<lambda>a. if p a then f a else a) (returned new rows)"
  using assms by (induction rows) (auto simp: returned_def)

lemma returned_resolve:
  "returned new (upsert account_key resolve_merge new rows) =
     Some (case returned new rows of None \<Rightarrow> new | Some old \<Rightarrow> resolve_merge new old)"
  unfolding returned_def by (rule resolving.find_upsert_same)

lemma returned_register:
  "returned new (upsert account_key register_merge new rows) =
     Some (case returned new rows of None \<Rightarrow> new | Some old \<Rightarrow> register_merge new old)"
  unfolding returned_def by (rule registering.find_upsert_same)

lemma widen_fields [simp]:
  "a_id (widen f l a) = a_id a" "a_source (widen f l a) = a_source a"
  "a_key (widen f l a) = a_key a" "a_merged (widen f l a) = a_merged a"
  "a_provider (widen f l a) = a_provider a"
  by (simp_all add: widen_def)

lemma resolve_ok:
  assumes "accounts_ok (accounts d)" and "candidate \<notin> a_id ` set (accounts d)"
    and "resolve candidate source provider account seen_at d = (i, d')"
  shows "accounts_ok (accounts d')"
proof -
  let ?new = "fresh_account candidate source provider account seen_at"
  let ?rows = "upsert account_key resolve_merge ?new (accounts d)"
  have rows: "accounts_ok ?rows" by (rule accounts_ok_resolve_rows [OF assms(1,2)])
  have "accounts_ok (update_where (\<lambda>a. a_id a = t) (widen seen_at seen_at) ?rows)" for t
    using accounts_okD(3) [OF rows]
    by (intro accounts_ok_update_where [OF rows]) (force simp: widen_def min_def max_def)
  then show ?thesis using assms(3) rows
    by (auto simp: resolve_def Let_def split: option.splits)
qed

lemma register_ok:
  assumes "accounts_ok (accounts d)" and "candidate \<notin> a_id ` set (accounts d)"
    and "register candidate source provider account seen_at d = (i, d')"
  shows "accounts_ok (accounts d')"
  using accounts_ok_register_rows [OF assms(1,2)] assms(3)
  by (auto simp: register_def Let_def split: option.splits)

section \<open>What the mask keeps\<close>

lemma char_count_conv: "char_count s = length (char_starts s)"
proof -
  have "filter (\<lambda>c. \<not> is_continuation c) s = map ((!) s) (char_starts s)"
    unfolding char_starts_def filter_map [symmetric, unfolded comp_def]
    by (subst (1) map_nth [of s, symmetric]) (simp only: filter_map comp_def)
  then show ?thesis by (simp add: char_count_def)
qed

lemma char_count_drop:
  "char_count (drop i s) = length (filter (\<lambda>j. i \<le> j) (char_starts s))"
proof (cases "i \<le> length s")
  case True
  have "filter (\<lambda>j. i \<le> j) (char_starts s) = filter (\<lambda>j. \<not> is_continuation (s ! j)) [i..<length s]"
  proof -
    have "[0..<length s] = [0..<i] @ [i..<length s]"
      using True by (metis le_add_diff_inverse plus_nat.add_0 upt_add_eq_append zero_le)
    then have "filter (\<lambda>j. i \<le> j) (char_starts s) =
        filter (\<lambda>j. i \<le> j \<and> \<not> is_continuation (s ! j)) [0..<i] @
        filter (\<lambda>j. i \<le> j \<and> \<not> is_continuation (s ! j)) [i..<length s]"
      by (simp add: char_starts_def conj_commute)
    also have "filter (\<lambda>j. i \<le> j \<and> \<not> is_continuation (s ! j)) [0..<i] = []"
      by (auto simp: filter_empty_conv)
    also have "filter (\<lambda>j. i \<le> j \<and> \<not> is_continuation (s ! j)) [i..<length s] =
        filter (\<lambda>j. \<not> is_continuation (s ! j)) [i..<length s]"
      by (intro filter_cong) auto
    finally show ?thesis by simp
  qed
  moreover have "drop i s = map ((!) s) [i..<length s]"
    using True by (intro nth_equalityI) auto
  ultimately show ?thesis by (simp add: char_count_def filter_map comp_def)
next
  case False
  then have "filter (\<lambda>j. i \<le> j) (char_starts s) = []"
    by (auto simp: char_starts_def filter_empty_conv)
  then show ?thesis using False by (simp add: char_count_def)
qed

lemma filter_ge_nth:
  fixes xs :: "nat list"
  assumes "sorted_wrt (<) xs" and "k < length xs"
  shows "filter (\<lambda>j. xs ! k \<le> j) xs = drop k xs"
  using assms
proof (induction xs arbitrary: k)
  case Nil
  then show ?case by simp
next
  case (Cons x xs)
  show ?case
  proof (cases k)
    case 0
    then show ?thesis using Cons.prems by (auto intro!: filter_True)
  next
    case (Suc m)
    then have "x < xs ! m" using Cons.prems by auto
    then have "\<not> xs ! m \<le> x" by (simp add: not_le)
    then show ?thesis using Suc Cons by simp
  qed
qed

lemma mask_secret_shape:
  assumes "mask_secret secret = Some m"
  shows "\<exists>tail hidden. m = ellipsis @ tail \<and> secret = hidden @ tail \<and> char_count tail = 4 \<and>
           8 \<le> char_count secret"
proof -
  let ?st = "char_starts secret"
  define k where "k = length ?st - 4"
  have len: "8 \<le> length ?st" and m: "m = ellipsis @ drop (rev ?st ! 3) secret"
    using assms by (auto simp: mask_secret_def MASKABLE_LENGTH_def MASK_TAIL_def Let_def
        char_count_conv split: if_splits)
  have nth: "rev ?st ! 3 = ?st ! k" using len by (simp add: rev_nth k_def)
  have "sorted_wrt (<) ?st" by (simp add: char_starts_def sorted_wrt_filter)
  moreover have "k < length ?st" using len by (simp add: k_def)
  ultimately have "char_count (drop (?st ! k) secret) = 4"
    using len by (simp add: char_count_drop filter_ge_nth k_def)
  then show ?thesis
    using m len append_take_drop_id [of "?st ! k" secret]
    by (intro exI [of _ "drop (?st ! k) secret"] exI [of _ "take (?st ! k) secret"])
      (simp add: nth char_count_conv)
qed

section \<open>Properties\<close>

text \<open>
  A label that is shown never gives away a secret. Only an OAuth login is kept as it
  came; of any other credential the label keeps the last four characters behind an ellipsis,
  and nothing of a credential shorter than eight, so at least four characters stay hidden.
\<close>

theorem label_hides_secret:
  "(case n_label (make_account key auth source) of
      None \<Rightarrow> True
    | Some label \<Rightarrow>
        (if auth = OAuth then source = Some label
         else \<exists>hidden tail. source = Some (hidden @ tail) \<and> label = ellipsis @ tail \<and>
                char_count tail = 4 \<and> 8 \<le> char_count (hidden @ tail)))"
  using mask_secret_shape
  by (cases auth) (fastforce simp: make_account_def filter_option_def split: option.splits if_splits)+

lemma resolve_cases:
  assumes "accounts_ok (accounts d)" and "candidate \<notin> a_id ` set (accounts d)"
    and "resolve candidate source provider account seen_at d = (i, d')"
  obtains (own) row where
      "returned (fresh_account candidate source provider account seen_at) (accounts d') = Some row"
      "a_merged row = None" "i = a_id row" "a_first row \<le> seen_at" "seen_at \<le> a_last row"
  | (absorbed) row target where
      "returned (fresh_account candidate source provider account seen_at) (accounts d') = Some row"
      "a_merged row = Some i" "target \<in> set (accounts d')" "a_id target = i"
      "a_merged target = None" "a_source target = source"
      "a_first target \<le> seen_at" "seen_at \<le> a_last target"
proof -
  let ?new = "fresh_account candidate source provider account seen_at"
  let ?rows = "upsert account_key resolve_merge ?new (accounts d)"
  obtain row where row: "returned ?new ?rows = Some row"
    and row_def: "row = (case returned ?new (accounts d) of None \<Rightarrow> ?new | Some old \<Rightarrow> resolve_merge ?new old)"
    by (simp add: returned_resolve)
  have in_rows: "row \<in> set ?rows" "account_key row = account_key ?new"
    using find_Some_set [OF row [unfolded returned_def]] by simp_all
  have rows: "accounts_ok ?rows" by (rule accounts_ok_resolve_rows [OF assms(1,2)])
  show thesis
  proof (cases "a_merged row")
    case None
    have "accounts d' = ?rows" "i = a_id row"
      using assms(3) row None by (auto simp: resolve_def Let_def)
    moreover have "a_first row \<le> seen_at" "seen_at \<le> a_last row"
      by (auto simp: row_def fresh_account_def resolve_merge_def split: option.splits)
    ultimately show ?thesis using own row None by simp
  next
    case (Some t)
    have d': "accounts d' = update_where (\<lambda>a. a_id a = t) (widen seen_at seen_at) ?rows" "i = t"
      using assms(3) row Some by (auto simp: resolve_def Let_def)
    from accounts_okD(4) [OF rows in_rows(1) Some] obtain b where
      b: "b \<in> set ?rows" "a_id b = t" "a_merged b = None" "a_source b = a_source row" by blast
    have "returned ?new (accounts d') =
        map_option (\<lambda>a. if a_id a = t then widen seen_at seen_at a else a) (returned ?new ?rows)"
      unfolding d'(1) by (rule returned_update_where) simp
    then have "returned ?new (accounts d') = Some (if a_id row = t then widen seen_at seen_at row else row)"
      by (simp only: row option.map)
    moreover have "row \<noteq> b" using b(3) Some by auto
    then have "a_id row \<noteq> t"
      using b(2) distinct_map_eqD [OF accounts_okD(1) [OF rows] in_rows(1) b(1)] by auto
    moreover have "widen seen_at seen_at b \<in> set (accounts d')"
      using b d'(1) by (auto simp: row_simps)
    moreover have "a_source b = source" using b(4) in_rows(2) by (simp add: fresh_account_def)
    ultimately show ?thesis
      using absorbed [of row "widen seen_at seen_at b"] Some b d'(2) by (simp add: widen_def)
  qed
qed

text \<open>
  Charging a record finds or creates one account per source and upstream key, keeps the
  table's invariant, and answers an account of that source that is not merged into another
  and whose window covers the record. Whatever later record carries the same key is charged
  to the same account.
\<close>

theorem resolve_answers_live_account:
  assumes "accounts_ok (accounts d)" and "candidate \<notin> a_id ` set (accounts d)"
    and "resolve candidate source provider account seen_at d = (i, d')"
    and "stored_key account2 provider2 = stored_key account provider"
  shows "accounts_ok (accounts d') \<and>
    (\<exists>a\<in>set (accounts d'). a_id a = i \<and> a_merged a = None \<and> a_source a = source \<and>
       a_first a \<le> seen_at \<and> seen_at \<le> a_last a) \<and>
    fst (resolve candidate2 source provider2 account2 seen_at2 d') = i"
proof -
  let ?new = "fresh_account candidate source provider account seen_at"
  let ?new2 = "fresh_account candidate2 source provider2 account2 seen_at2"
  have key: "account_key ?new2 = account_key ?new" using assms(4) by (simp add: fresh_account_def)
  have again: "fst (resolve candidate2 source provider2 account2 seen_at2 d') =
      (case a_merged row of None \<Rightarrow> a_id row | Some t \<Rightarrow> t)"
    if "returned ?new (accounts d') = Some row" for row
  proof -
    have "returned ?new2 (accounts d') = Some row"
      using that by (simp only: returned_cong [OF key])
    then have "returned ?new2 (upsert account_key resolve_merge ?new2 (accounts d')) =
        Some (resolve_merge ?new2 row)"
      by (simp only: returned_resolve option.case)
    then show ?thesis
      by (auto simp: resolve_def Let_def resolve_merge_def split: option.splits)
  qed
  have ok: "accounts_ok (accounts d')" by (rule resolve_ok [OF assms(1-3)])
  from assms(1-3) show ?thesis
  proof (cases rule: resolve_cases)
    case (own row)
    then have "row \<in> set (accounts d')" "account_key row = account_key ?new"
      using find_Some_set [OF own(1) [unfolded returned_def]] by simp_all
    then show ?thesis using own again [OF own(1)] ok
      by (auto simp: fresh_account_def intro!: bexI [of _ row])
  next
    case (absorbed row target)
    then show ?thesis using again [OF absorbed(1)] ok by (auto intro!: bexI [of _ target])
  qed
qed

theorem resolve_answers_live_account_witness:
  "\<exists>i d'. resolve 7 1 ''claude'' \<lparr>n_key = ''k'', n_auth = OAuth, n_label = None\<rparr> 5 empty_db = (i, d') \<and>
     accounts_ok (accounts d') \<and>
     fst (resolve 8 1 ''codex'' \<lparr>n_key = ''k'', n_auth = ApiKey, n_label = None\<rparr> 3 d') = i"
proof -
  obtain i d' where r: "resolve 7 1 ''claude'' \<lparr>n_key = ''k'', n_auth = OAuth, n_label = None\<rparr> 5 empty_db = (i, d')"
    by fastforce
  from resolve_answers_live_account [OF _ _ r,
      of "\<lparr>n_key = ''k'', n_auth = ApiKey, n_label = None\<rparr>" "''codex''" 8 3] r
  show ?thesis by (auto simp: accounts_ok_def empty_db_def stored_key_def)
qed

end
