(* ===== verification/Continuations.thy ===== *)
theory Continuations
  imports Accounts Changes
begin

text \<open>
  Suggested continuations of \<^verbatim>\<open>src/account/continuation.rs\<close>: the pairs of a removed
  credential and a newer one that may be the same subscription, the stricter reading of them
  that follows a removed credential to its one possible replacement, and the decision that
  dismisses a pair. The query's joins are list comprehensions over the tables; a comparison
  with a NULL column is not true.
\<close>

section \<open>The query\<close>

definition folded_eq :: "string option \<Rightarrow> string option \<Rightarrow> bool" where
  "folded_eq a b = sql_eq (map_option folded a) (map_option folded b)"

text \<open>\<^verbatim>\<open>INSTR(label, '@') > 1\<close>.\<close>

definition names_mailbox :: "string option \<Rightarrow> bool" where
  "names_mailbox label =
     (case Option.bind label (position (\<lambda>c. c = CHR ''@'')) of None \<Rightarrow> False | Some i \<Rightarrow> 0 < i)"

definition has_plan :: "db \<Rightarrow> id \<Rightarrow> bool" where
  "has_plan d i = (\<exists>p\<in>set (plans d). p_account p = i)"

definition dismissed :: "db \<Rightarrow> id \<Rightarrow> id \<Rightarrow> bool" where
  "dismissed d a b = ((min a b, max a b) \<in> set (dismissals d))"

definition may_continue ::
  "db \<Rightarrow> account_row \<Rightarrow> credential_row \<Rightarrow> account_row \<Rightarrow> credential_row \<Rightarrow> bool" where
  "may_continue d old old_state new new_state \<longleftrightarrow>
     a_source new = a_source old \<and> a_provider new = a_provider old \<and>
     folded_eq (a_label new) (a_label old) \<and>
     a_merged old = None \<and> a_merged new = None \<and>
     a_auth old = OAuth \<and> a_auth new = OAuth \<and>
     names_mailbox (a_label old) \<and>
     c_removed old_state \<noteq> None \<and> c_removed new_state = None \<and>
     \<not> c_disabled new_state \<and> c_soft_at new_state \<noteq> None \<and>
     a_first old < a_first new \<and>
     (case c_plan old_state of None \<Rightarrow> False | Some p \<Rightarrow> sql_trim p \<noteq> []) \<and>
     folded_eq (c_plan old_state) (c_plan new_state) \<and>
     has_plan d (a_id old) \<and> \<not> has_plan d (a_id new) \<and>
     \<not> dismissed d (a_id old) (a_id new)"

text \<open>Another account of the source that the previous one could be, when there is one.\<close>

definition rivals :: "db \<Rightarrow> account_row \<Rightarrow> account_row \<Rightarrow> bool" where
  "rivals d old new =
     (\<exists>other\<in>set (accounts d).
        a_source other = a_source old \<and> a_provider other = a_provider old \<and>
        a_auth other = a_auth old \<and> a_merged other = None \<and>
        a_id other \<noteq> a_id old \<and> a_id other \<noteq> a_id new \<and>
        folded_eq (a_label other) (a_label old))"

definition is_replacement :: "db \<Rightarrow> account_row \<Rightarrow> account_row \<Rightarrow> bool" where
  "is_replacement d old new = (sql_eq (a_label old) (a_label new) \<and> \<not> rivals d old new)"

record continuation =
  o_previous :: id
  o_replacement :: id
  o_is_replacement :: bool

definition continuations ::
  "db \<Rightarrow> id option \<Rightarrow> id option \<Rightarrow> continuation list" where
  "continuations d previous replacement =
     sort_key (\<lambda>c. (o_previous c, o_replacement c))
       [\<lparr>o_previous = a_id old, o_replacement = a_id new, o_is_replacement = is_replacement d old new\<rparr>.
          old \<leftarrow> accounts d, old_state \<leftarrow> credentials d, c_account old_state = a_id old,
          new \<leftarrow> accounts d, new_state \<leftarrow> credentials d, c_account new_state = a_id new,
          may_continue d old old_state new new_state \<and>
          bound_eq previous (a_id old) \<and> bound_eq replacement (a_id new)]"

definition continuation_list :: "db \<Rightarrow> id option \<Rightarrow> continuation list" where
  "continuation_list d previous = continuations d previous None"

definition continuation_load :: "db \<Rightarrow> id \<Rightarrow> id \<Rightarrow> continuation option" where
  "continuation_load d previous replacement =
     (case continuations d (Some previous) (Some replacement) of [] \<Rightarrow> None | c # _ \<Rightarrow> Some c)"

section \<open>Replacements\<close>

definition replacements :: "db \<Rightarrow> (id \<times> id) list" where
  "replacements d =
     collect_map (map (\<lambda>c. (o_previous c, o_replacement c))
       (filter o_is_replacement (continuation_list d None)))"

definition plan_ids_of :: "db \<Rightarrow> id \<Rightarrow> id list" where
  "plan_ids_of d i = sort (map p_id (filter (\<lambda>p. p_account p = i) (plans d)))"

definition link_changes :: "db \<Rightarrow> (id \<times> id) list \<Rightarrow> subject list \<Rightarrow> subject list" where
  "link_changes d before subjects =
     (let now = replacements d;
          moved = filter (\<lambda>i. map_of before i \<noteq> map_of now i) (map fst before @ map fst now)
      in collect_set (subjects @ concat (map (\<lambda>i. SAccount i # map SPlan (plan_ids_of d i)) moved)))"

definition record_link_changes ::
  "instant \<Rightarrow> (id \<times> id) list \<Rightarrow> subject list \<Rightarrow> db \<Rightarrow> db" where
  "record_link_changes now before subjects d =
     record_changes now (link_changes d before subjects) d"

section \<open>Dismissing a pair\<close>

definition may_dismiss :: "db \<Rightarrow> id \<Rightarrow> id \<Rightarrow> bool" where
  "may_dismiss d previous replacement =
     (\<exists>old\<in>set (accounts d). \<exists>new\<in>set (accounts d).
        a_source old = a_source new \<and> a_id old = previous \<and> a_id new = replacement \<and>
        a_id old \<noteq> a_id new \<and> a_merged old = None \<and> a_merged new = None)"

definition dismiss_continuation :: "instant \<Rightarrow> id \<Rightarrow> id \<Rightarrow> db \<Rightarrow> bool \<times> db" where
  "dismiss_continuation now previous replacement d =
     (if \<not> may_dismiss d previous replacement then (False, d)
      else let linked = replacements d;
               pair = (min previous replacement, max previous replacement)
           in if pair \<in> set (dismissals d) then (True, d)
              else (True, record_link_changes now linked [SAccount previous, SAccount replacement]
                            (d\<lparr>dismissals := dismissals d @ [pair]\<rparr>)))"

section \<open>Lemmas\<close>

lemma sql_eq_sym: "sql_eq a b \<Longrightarrow> sql_eq b a"
  by (auto simp: sql_eq_iff)

lemma folded_eq_iff:
  "folded_eq a b \<longleftrightarrow> (\<exists>x y. a = Some x \<and> b = Some y \<and> folded x = folded y)"
  by (cases a; cases b) (auto simp: folded_eq_def sql_eq_def)

lemma continuations_iff:
  "c \<in> set (continuations d previous replacement) \<longleftrightarrow>
     (\<exists>old\<in>set (accounts d). \<exists>s\<in>set (credentials d). \<exists>new\<in>set (accounts d). \<exists>t\<in>set (credentials d).
        c_account s = a_id old \<and> c_account t = a_id new \<and> may_continue d old s new t \<and>
        bound_eq previous (a_id old) \<and> bound_eq replacement (a_id new) \<and>
        c = \<lparr>o_previous = a_id old, o_replacement = a_id new,
             o_is_replacement = is_replacement d old new\<rparr>)"
  unfolding continuations_def set_sort in_comprehension by blast

lemma replacementsE:
  assumes "map_of (replacements d) p = Some r"
  obtains old s new t where "old \<in> set (accounts d)" "new \<in> set (accounts d)"
    "s \<in> set (credentials d)" "t \<in> set (credentials d)" "c_account s = p" "c_account t = r"
    "a_id old = p" "a_id new = r" "may_continue d old s new t" "is_replacement d old new"
proof -
  from map_of_collect_mapD [OF assms [unfolded replacements_def]]
  obtain c where "c \<in> set (continuation_list d None)" "o_is_replacement c" "o_previous c = p"
    "o_replacement c = r" by auto
  then show thesis
    using that by (auto simp: continuation_list_def continuations_iff)
qed

lemma replacement_unrivalled:
  assumes "is_replacement d old new" and "may_continue d old s new t"
    and "other \<in> set (accounts d)" and "a_source other = a_source new"
    and "a_provider other = a_provider new" and "a_auth other = OAuth" and "a_merged other = None"
    and "folded_eq (a_label new) (a_label other) \<or> folded_eq (a_label other) (a_label new)"
  shows "a_id other = a_id old \<or> a_id other = a_id new"
  using assms by (auto simp: is_replacement_def rivals_def may_continue_def folded_eq_iff)

section \<open>Properties\<close>

text \<open>
  A removed credential follows at most one other to its replacement, no two follow to the
  same one, and a chain has one step: a replacement is listed, has no plan and is not itself
  replaced. Both are unmerged OAuth accounts of one source and provider under one label, and
  the plan they follow is the removed one's.
\<close>

theorem replacement_is_one_to_one:
  assumes "distinct (map a_id (accounts d))" and "distinct (map c_account (credentials d))"
    and "map_of (replacements d) p = Some r"
  shows "(map_of (replacements d) q = Some r \<longleftrightarrow> q = p) \<and>
    map_of (replacements d) r = None \<and> has_plan d p \<and> \<not> has_plan d r \<and>
    continuation_load d p r = Some \<lparr>o_previous = p, o_replacement = r, o_is_replacement = True\<rparr>"
proof -
  obtain old s new t where
    p: "old \<in> set (accounts d)" "new \<in> set (accounts d)" "s \<in> set (credentials d)"
      "t \<in> set (credentials d)" "c_account s = p" "c_account t = r" "a_id old = p" "a_id new = r"
      "may_continue d old s new t" "is_replacement d old new"
    by (rule replacementsE [OF assms(3)])
  have one: "q = p" if q_r: "map_of (replacements d) q = Some r"
  proof -
    obtain old' s' new' t' where
      q: "old' \<in> set (accounts d)" "new' \<in> set (accounts d)" "s' \<in> set (credentials d)"
        "c_account s' = q" "a_id old' = q" "a_id new' = r" "may_continue d old' s' new' t'"
      by (rule replacementsE [OF q_r])
    have same: "new' = new" by (rule distinct_map_eqD [OF assms(1) q(2) p(2)]) (simp add: p q)
    have "q = p \<or> q = r"
      using replacement_unrivalled [OF p(10,9) q(1)] q p(7,8) same by (auto simp: may_continue_def)
    moreover have "q \<noteq> r"
    proof
      assume "q = r"
      then have "s' = t" using distinct_map_eqD [OF assms(2) q(3) p(4)] q p by simp
      then show False using q p by (auto simp: may_continue_def)
    qed
    ultimately show ?thesis by simp
  qed
  have chain: "map_of (replacements d) r = None"
  proof (rule ccontr)
    assume "map_of (replacements d) r \<noteq> None"
    then obtain z where z: "map_of (replacements d) r = Some z" by auto
    obtain old' s' new' t' where "s' \<in> set (credentials d)" "c_account s' = r"
      "may_continue d old' s' new' t'" by (rule replacementsE [OF z])
    moreover from this have "s' = t" using distinct_map_eqD [OF assms(2) _ p(4)] p by simp
    ultimately show False using p by (auto simp: may_continue_def)
  qed
  have "c = \<lparr>o_previous = p, o_replacement = r, o_is_replacement = True\<rparr>"
    if "c \<in> set (continuations d (Some p) (Some r))" for c
  proof -
    from that obtain o1 o2 where o: "o1 \<in> set (accounts d)" "o2 \<in> set (accounts d)"
      "a_id o1 = p" "a_id o2 = r"
      "c = \<lparr>o_previous = a_id o1, o_replacement = a_id o2, o_is_replacement = is_replacement d o1 o2\<rparr>"
      by (auto simp: continuations_iff)
    have "o1 = old" by (rule distinct_map_eqD [OF assms(1) o(1) p(1)]) (simp add: o p)
    moreover have "o2 = new" by (rule distinct_map_eqD [OF assms(1) o(2) p(2)]) (simp add: o p)
    ultimately show ?thesis using o p by simp
  qed
  moreover have "\<lparr>o_previous = p, o_replacement = r, o_is_replacement = True\<rparr>
      \<in> set (continuations d (Some p) (Some r))"
    unfolding continuations_iff
    by (rule bexI [OF _ p(1)], rule bexI [OF _ p(3)], rule bexI [OF _ p(2)], rule bexI [OF _ p(4)])
      (simp add: p)
  ultimately have "continuation_load d p r =
      Some \<lparr>o_previous = p, o_replacement = r, o_is_replacement = True\<rparr>"
    unfolding continuation_load_def by (intro first_unique)
  moreover have "has_plan d p" "\<not> has_plan d r" using p(7-9) by (auto simp: may_continue_def)
  ultimately show ?thesis using one chain assms(3) by blast
qed

definition sample_credentials :: db where
  "sample_credentials = empty_db\<lparr>
     accounts :=
       [\<lparr>a_id = 1, a_source = 9, a_provider = ''claude'', a_key = ''a'', a_auth = OAuth,
         a_label = Some ''me@x'', a_display = None, a_merged = None, a_first = 10, a_last = 20\<rparr>,
        \<lparr>a_id = 2, a_source = 9, a_provider = ''claude'', a_key = ''b'', a_auth = OAuth,
         a_label = Some ''me@x'', a_display = None, a_merged = None, a_first = 30, a_last = 40\<rparr>],
     credentials :=
       [\<lparr>c_account = 1, c_status = None, c_status_message = None, c_disabled = False,
         c_unavailable = False, c_next_retry = None, c_cooldowns = [], c_type = None,
         c_plan = Some ''max'', c_soft_at = Some 20, c_hard_at = None, c_hard_error = None,
         c_hard_refreshable = False, c_removed = Some 25, c_sign_in = None\<rparr>,
        \<lparr>c_account = 2, c_status = None, c_status_message = None, c_disabled = False,
         c_unavailable = False, c_next_retry = None, c_cooldowns = [], c_type = None,
         c_plan = Some ''Max '', c_soft_at = Some 40, c_hard_at = None, c_hard_error = None,
         c_hard_refreshable = False, c_removed = None, c_sign_in = None\<rparr>],
     plans := [\<lparr>p_id = 5, p_account = 1, p_name = ''Max'', p_monthly_usd = 0, p_start = 10,
       p_end = None\<rparr>]\<rparr>"

lemma sample_replacements: "replacements sample_credentials = [(1, 2)]"
  by code_simp

theorem replacement_is_one_to_one_witness:
  "map_of (replacements sample_credentials) 1 = Some 2 \<and>
   \<not> has_plan sample_credentials 2 \<and> map_of (replacements sample_credentials) 2 = None"
  using replacement_is_one_to_one [of sample_credentials 1 2 1]
  by (simp add: sample_replacements) (simp add: sample_credentials_def)

lemma continuation_load_None_iff:
  "continuation_load d p r = None \<longleftrightarrow> continuations d (Some p) (Some r) = []"
  by (simp add: continuation_load_def split: list.split)

lemma may_continue_cong:
  assumes "plans d' = plans d" and "accounts d' = accounts d"
    and "dismissed d' (a_id old) (a_id new) = dismissed d (a_id old) (a_id new)"
  shows "may_continue d' old s new t = may_continue d old s new t"
    and "is_replacement d' old new = is_replacement d old new"
  using assms by (simp_all add: may_continue_def has_plan_def is_replacement_def rivals_def)

lemma continuations_not_dismissed:
  assumes "c \<in> set (continuations d previous replacement)"
  shows "\<not> dismissed d (o_previous c) (o_replacement c)"
    and "bound_eq previous (o_previous c)" and "bound_eq replacement (o_replacement c)"
  using assms unfolding continuations_iff may_continue_def by (elim bexE conjE, simp)+

lemma dismissed_sym: "dismissed d a b = dismissed d b a"
  by (simp add: dismissed_def min.commute max.commute)

lemma dismissed_no_continuation:
  assumes "dismissed d a b"
  shows "continuation_load d a b = None"
proof -
  have "c \<notin> set (continuations d (Some a) (Some b))" for c
    using continuations_not_dismissed [of c d "Some a" "Some b"] assms by auto
  then show ?thesis unfolding continuation_load_None_iff by (metis list.set_intros(1) neq_Nil_conv)
qed

lemma other_continuation:
  assumes "plans d' = plans d" and "accounts d' = accounts d" and "credentials d' = credentials d"
    and "dismissed d' (o_previous c) (o_replacement c) = dismissed d (o_previous c) (o_replacement c)"
  shows "c \<in> set (continuation_list d' None) \<longleftrightarrow> c \<in> set (continuation_list d None)"
proof -
  have "c \<in> set (continuation_list e' None)"
    if c: "c \<in> set (continuation_list e None)" and e: "plans e' = plans e" "accounts e' = accounts e"
      "credentials e' = credentials e"
      "dismissed e' (o_previous c) (o_replacement c) = dismissed e (o_previous c) (o_replacement c)"
    for e e'
  proof -
    from c obtain old s new t where w: "old \<in> set (accounts e)" "s \<in> set (credentials e)"
        "new \<in> set (accounts e)" "t \<in> set (credentials e)"
      and x: "c_account s = a_id old" "c_account t = a_id new" "may_continue e old s new t"
      and c_def: "c = \<lparr>o_previous = a_id old, o_replacement = a_id new,
                 o_is_replacement = is_replacement e old new\<rparr>"
      unfolding continuation_list_def continuations_iff by blast
    have y: "may_continue e' old s new t" "is_replacement e' old new = is_replacement e old new"
      using may_continue_cong [OF e(1,2)] e(4) x(3) c_def by simp_all
    show ?thesis
      unfolding continuation_list_def continuations_iff e(2,3)
      by (rule bexI [OF _ w(1)], rule bexI [OF _ w(2)], rule bexI [OF _ w(3)], rule bexI [OF _ w(4)])
        (simp add: x y c_def)
  qed
  then show ?thesis using assms by metis
qed

text \<open>
  Dismissing a pair is refused when the two are not distinct unmerged accounts of one
  source and then changes nothing; otherwise the pair is suggested in neither direction any
  more, no other pair's suggestion changes, and dismissing it again, in either order, records
  nothing.
\<close>

theorem dismissed_pair_never_suggested:
  assumes "dismiss_continuation now a b d = (valid, d')"
  shows "if valid
    then continuation_load d' a b = None \<and> continuation_load d' b a = None \<and>
      dismiss_continuation later a b d' = (True, d') \<and>
      dismiss_continuation later b a d' = (True, d') \<and>
      ({o_previous c, o_replacement c} = {a, b} \<or>
        (c \<in> set (continuation_list d' None) \<longleftrightarrow> c \<in> set (continuation_list d None)))
    else d' = d"
proof (cases "may_dismiss d a b")
  case False
  then show ?thesis using assms by (simp add: dismiss_continuation_def)
next
  case True
  have valid: valid using assms True by (auto simp: dismiss_continuation_def Let_def split: if_splits)
  have same: "plans d' = plans d" "accounts d' = accounts d" "credentials d' = credentials d"
    using assms by (auto simp: dismiss_continuation_def Let_def record_link_changes_def split: if_splits)
  have set: "set (dismissals d') = insert (min a b, max a b) (set (dismissals d))"
    using assms True
    by (auto simp: dismiss_continuation_def Let_def record_link_changes_def split: if_splits)
  have both: "may_dismiss d' a b" using True by (simp add: may_dismiss_def same)
  then have both': "may_dismiss d' b a" unfolding may_dismiss_def by metis
  have "dismissed d' a b" by (simp add: dismissed_def set)
  note gone = dismissed_no_continuation [OF this]
    dismissed_no_continuation [OF this [unfolded dismissed_sym [of d' a b]]]
  have "dismissed d' (o_previous c) (o_replacement c) = dismissed d (o_previous c) (o_replacement c)"
    if "{o_previous c, o_replacement c} \<noteq> {a, b}"
    using that by (auto simp: dismissed_def set min_def max_def split: if_splits)
  then have "{o_previous c, o_replacement c} = {a, b} \<or>
      (c \<in> set (continuation_list d' None) \<longleftrightarrow> c \<in> set (continuation_list d None))"
    using other_continuation [OF same] by blast
  moreover have "dismiss_continuation later a b d' = (True, d')"
    "dismiss_continuation later b a d' = (True, d')"
    using both both' by (simp_all add: dismiss_continuation_def set min.commute max.commute)
  ultimately show ?thesis using valid gone by simp
qed

theorem dismissed_pair_never_suggested_witness:
  "\<exists>d'. dismiss_continuation 50 1 2 sample_credentials = (True, d') \<and>
     continuation_load d' 1 2 = None \<and> dismiss_continuation 60 2 1 d' = (True, d')"
proof -
  obtain v d' where r: "dismiss_continuation 50 1 2 sample_credentials = (v, d')" by fastforce
  moreover have "fst (dismiss_continuation 50 1 2 sample_credentials) = True" by code_simp
  ultimately show ?thesis using dismissed_pair_never_suggested [OF r, of 60] by auto
qed

end
