(* ===== verification/Snapshots.thy ===== *)
theory Snapshots
  imports Continuations
begin

text \<open>
  What a reader sees of each account, plan, quota window and grant
  (\<^verbatim>\<open>src/change/snapshot.rs\<close>), read before and after a write so that the write records
  exactly the subjects it changed. The code compares the JSON text of the columns; the model
  compares the columns. The times a window or a cooldown is counted by are left out, as the
  queries leave them out.
\<close>

section \<open>Scopes\<close>

datatype scope = All | Source id | Account id

fun scope_source :: "scope \<Rightarrow> id option" where
  "scope_source (Source i) = Some i"
| "scope_source All = None"
| "scope_source (Account _) = None"

fun scope_account :: "scope \<Rightarrow> id option" where
  "scope_account (Account i) = Some i"
| "scope_account All = None"
| "scope_account (Source _) = None"

datatype parts = Accounts | Quota

section \<open>Views\<close>

record credential_view =
  cv_status :: "string option"
  cv_status_message :: "string option"
  cv_disabled :: bool
  cv_unavailable :: bool
  cv_next_retry :: "instant option"
  cv_cooldowns :: "(string \<times> string option \<times> string \<times> instant) list"
  cv_type :: "string option"
  cv_plan :: "string option"
  cv_hard_refreshable :: bool
  cv_hard_at :: "instant option"
  cv_hard_error :: "string option"
  cv_removed :: "instant option"
  cv_sign_in :: "sign_in_error option"

record previous_view =
  pv_id :: id
  pv_label :: "string option"
  pv_display :: "string option"
  pv_provider :: string
  pv_auth :: auth_kind
  pv_first :: instant
  pv_last :: instant

record account_view =
  av_source_name :: string
  av_provider :: string
  av_auth :: auth_kind
  av_label :: "string option"
  av_display :: "string option"
  av_merged :: "id option"
  av_credential :: "credential_view option"
  av_base_url :: string
  av_previous :: "previous_view list"
  av_replaced_by :: "id option"

datatype view =
    AccountView account_view
  | PlanView id "id option"
  | WindowView string "rat option" "rat option" "rat option" "string option" "int option"
      "instant option" window_scope bool
  | ResetsView "grant list"

definition view_credential :: "credential_row \<Rightarrow> credential_view" where
  "view_credential c =
     \<lparr>cv_status = c_status c, cv_status_message = c_status_message c,
      cv_disabled = c_disabled c, cv_unavailable = c_unavailable c,
      cv_next_retry = c_next_retry c,
      cv_cooldowns = map (\<lambda>x. (cd_scope x, cd_model_key x, cd_reason x, cd_retry_at x)) (c_cooldowns c),
      cv_type = c_type c, cv_plan = c_plan c, cv_hard_refreshable = c_hard_refreshable c,
      cv_hard_at = c_hard_at c, cv_hard_error = c_hard_error c, cv_removed = c_removed c,
      cv_sign_in = c_sign_in c\<rparr>"

definition view_previous :: "account_row \<Rightarrow> previous_view" where
  "view_previous a =
     \<lparr>pv_id = a_id a, pv_label = a_label a, pv_display = a_display a, pv_provider = a_provider a,
      pv_auth = a_auth a, pv_first = a_first a, pv_last = a_last a\<rparr>"

definition view_account :: "db \<Rightarrow> source_row \<Rightarrow> account_row \<Rightarrow> account_view" where
  "view_account d s a =
     \<lparr>av_source_name = s_name s, av_provider = a_provider a, av_auth = a_auth a,
      av_label = a_label a, av_display = a_display a, av_merged = a_merged a,
      av_credential = map_option view_credential (credential_of d (a_id a)),
      av_base_url = s_base_url s,
      av_previous = map view_previous
        (sort_key a_id (filter (\<lambda>b. a_merged b = Some (a_id a)) (accounts d))),
      av_replaced_by = map_of (replacements d) (a_id a)\<rparr>"

fun window_view :: "window_row \<Rightarrow> view" where
  "window_view w = WindowView (w_label w) (w_used_fraction w) (w_used_value w) (w_limit_value w)
     (w_unit w) (w_seconds w) (w_resets_at w) (w_scope w) (w_starts_on_use w)"

definition grant_order :: "grant \<Rightarrow> instant option \<times> string option \<times> int \<times> int option" where
  "grant_order g = (g_expires_at g, g_label g, g_remaining g, g_total g)"

section \<open>Reading\<close>

definition in_scope :: "db \<Rightarrow> id option \<Rightarrow> id option \<Rightarrow> account_row \<Rightarrow> bool" where
  "in_scope d source account a \<longleftrightarrow>
     bound_eq source (a_source a) \<and>
     (case account of None \<Rightarrow> True
      | Some i \<Rightarrow> a_id a = i \<or> Option.bind (account_by_id d i) a_merged = Some (a_id a))"

definition in_quota_scope :: "id option \<Rightarrow> id option \<Rightarrow> account_row \<Rightarrow> bool" where
  "in_quota_scope source account a = (bound_eq source (a_source a) \<and> bound_eq account (a_id a))"

definition read_accounts :: "db \<Rightarrow> id option \<Rightarrow> id option \<Rightarrow> (subject \<times> view) list" where
  "read_accounts d source account =
     [(SAccount (a_id a), AccountView (view_account d s a)).
        a \<leftarrow> accounts d, s \<leftarrow> sources d, s_id s = a_source a \<and> in_scope d source account a]"

definition read_plans :: "db \<Rightarrow> id option \<Rightarrow> id option \<Rightarrow> (subject \<times> view) list" where
  "read_plans d source account =
     [(SPlan (p_id p), PlanView (p_account p) (map_of (replacements d) (p_account p))).
        p \<leftarrow> plans d, a \<leftarrow> accounts d, a_id a = p_account p \<and> in_scope d source account a]"

definition read_windows :: "db \<Rightarrow> id option \<Rightarrow> id option \<Rightarrow> (subject \<times> view) list" where
  "read_windows d source account =
     [(SWindow (w_account w) (w_key w), window_view w).
        w \<leftarrow> windows d, a \<leftarrow> accounts d, a_id a = w_account w \<and> in_quota_scope source account a]"

definition open_grants :: "db \<Rightarrow> instant \<Rightarrow> id \<Rightarrow> grant list" where
  "open_grants d now i =
     sort_key grant_order
       (map snd (filter (\<lambda>(j, g). j = i \<and> (case g_expires_at g of None \<Rightarrow> True | Some e \<Rightarrow> now < e))
         (grants d)))"

definition read_resets :: "db \<Rightarrow> instant \<Rightarrow> id option \<Rightarrow> id option \<Rightarrow> (subject \<times> view) list" where
  "read_resets d now source account =
     [(SResets (a_id a), ResetsView (open_grants d now (a_id a))).
        a \<leftarrow> accounts d, in_quota_scope source account a \<and> open_grants d now (a_id a) \<noteq> []]"

record snapshot =
  sn_scope :: scope
  sn_parts :: parts
  sn_now :: instant
  sn_seen :: "(subject \<times> view) list"

text \<open>An account's scope reads its whole source, since a write to one account can move a link of another.\<close>

definition widened_scope :: "db \<Rightarrow> scope \<Rightarrow> id option \<times> id option" where
  "widened_scope d sc =
     (case sc of
        Account i \<Rightarrow> (case account_by_id d i of Some a \<Rightarrow> (Some (a_source a), None) | None \<Rightarrow> (None, Some i))
      | _ \<Rightarrow> (scope_source sc, scope_account sc))"

definition read_snapshot :: "scope \<Rightarrow> parts \<Rightarrow> instant \<Rightarrow> db \<Rightarrow> snapshot" where
  "read_snapshot sc pt now d =
     (let (source, account) = widened_scope d sc;
          lists = read_accounts d source account @ read_plans d source account;
          quota = (if pt = Quota then read_windows d source account @ read_resets d now source account
                   else [])
      in \<lparr>sn_scope = sc, sn_parts = pt, sn_now = now, sn_seen = collect_map (lists @ quota)\<rparr>)"

section \<open>Recording the differences\<close>

definition differing :: "(subject \<times> view) list \<Rightarrow> (subject \<times> view) list \<Rightarrow> subject list" where
  "differing before after_seen =
     collect_set
       (map fst (filter (\<lambda>(s, v). map_of after_seen s \<noteq> Some v) before) @
        map fst (filter (\<lambda>(s, v). map_of before s \<noteq> Some v) after_seen))"

definition record_differences :: "instant \<Rightarrow> snapshot \<Rightarrow> db \<Rightarrow> db" where
  "record_differences now sn d =
     (let again = read_snapshot (sn_scope sn) (sn_parts sn) (sn_now sn) d
      in record_changes now (differing (sn_seen sn) (sn_seen again)) d)"

text \<open>A subject as a reader of the lists sees it, if it is listed.\<close>

definition seen :: "snapshot \<Rightarrow> subject \<Rightarrow> view option" where
  "seen sn = map_of (sn_seen sn)"

lemma set_differing:
  assumes "distinct (map fst a)" and "distinct (map fst b)"
  shows "s \<in> set (differing a b) \<longleftrightarrow> map_of a s \<noteq> map_of b s"
proof -
  have "s \<in> set (map fst (filter (\<lambda>(s, v). map_of y s \<noteq> Some v) x)) \<longleftrightarrow>
      (\<exists>v. map_of x s = Some v \<and> map_of y s \<noteq> Some v)" if "distinct (map fst x)" for x y :: "(subject \<times> view) list"
    using that by (force simp: map_of_eq_Some_iff)
  then have "s \<in> set (differing a b) \<longleftrightarrow>
      (\<exists>v. map_of a s = Some v \<and> map_of b s \<noteq> Some v) \<or> (\<exists>v. map_of b s = Some v \<and> map_of a s \<noteq> Some v)"
    using assms unfolding differing_def set_collect_set set_append by blast
  then show ?thesis by (cases "map_of a s"; cases "map_of b s") auto
qed

lemma distinct_seen: "distinct (map fst (sn_seen (read_snapshot sc pt now d)))"
  by (simp add: read_snapshot_def distinct_collect_map split: prod.split)

lemma read_snapshot_parts [simp]:
  "sn_scope (read_snapshot sc pt now d) = sc" "sn_parts (read_snapshot sc pt now d) = pt"
  "sn_now (read_snapshot sc pt now d) = now"
  by (simp_all add: read_snapshot_def split: prod.splits)

lemma record_differences_eq:
  "record_differences now (read_snapshot sc pt then_now d) d' =
     record_changes now
       (differing (sn_seen (read_snapshot sc pt then_now d)) (sn_seen (read_snapshot sc pt then_now d'))) d'"
  by (simp add: record_differences_def)

lemma differing_same: "differing (sn_seen (read_snapshot sc pt now d)) (sn_seen (read_snapshot sc pt now d)) = []"
proof -
  have "s \<notin> set (differing (sn_seen (read_snapshot sc pt now d)) (sn_seen (read_snapshot sc pt now d)))" for s
    unfolding set_differing [OF distinct_seen distinct_seen] by simp
  then show ?thesis by (metis list.set_intros(1) neq_Nil_conv)
qed

section \<open>Properties\<close>

text \<open>
  Whatever statements a write runs between the two reads, it records one change for every
  subject in scope that a reader now sees differently, appeared or went, in the order of the
  subjects, none for any other, and touches nothing but the feed.
\<close>

theorem snapshot_records_differences:
  "\<exists>ss. record_differences now (read_snapshot sc pt at_time d) (write d) =
          (write d)\<lparr>changes := changes (write d) @ stored_changes (change_seq (write d)) now ss,
                    change_seq := change_seq (write d) + int (length ss)\<rparr> \<and>
        sorted_wrt (<) ss \<and>
        set ss = {s. seen (read_snapshot sc pt at_time d) s \<noteq> seen (read_snapshot sc pt at_time (write d)) s}"
proof (intro exI conjI)
  let ?ss = "differing (sn_seen (read_snapshot sc pt at_time d))
    (sn_seen (read_snapshot sc pt at_time (write d)))"
  show "record_differences now (read_snapshot sc pt at_time d) (write d) =
      (write d)\<lparr>changes := changes (write d) @ stored_changes (change_seq (write d)) now ?ss,
        change_seq := change_seq (write d) + int (length ?ss)\<rparr>"
    by (simp only: record_differences_eq record_changes_eq)
  show "sorted_wrt (<) ?ss" unfolding differing_def by (rule sorted_collect_set)
  show "set ?ss = {s. seen (read_snapshot sc pt at_time d) s \<noteq>
      seen (read_snapshot sc pt at_time (write d)) s}"
    using set_differing [OF distinct_seen distinct_seen] unfolding seen_def by blast
qed

end
