(* ===== verification/Merging.thy ===== *)
theory Merging
  imports Snapshots
begin

text \<open>
  What the account list shows (\<^verbatim>\<open>src/account/read.rs\<close>) and the two writes to an account a
  person asks for: renaming it, and merging it into another of its source
  (\<^verbatim>\<open>src/account/mod.rs\<close>). A merge moves every event and plan, points the merged account and
  whatever was merged into it at the target, and widens the target's seen window.
\<close>

section \<open>Lists\<close>

record account_output =
  ao_row :: account_row
  ao_source_name :: string
  ao_type :: "string option"
  ao_plan :: "string option"
  ao_status :: "string option"
  ao_disabled :: bool
  ao_removed :: "instant option"
  ao_last_used :: "instant option"
  ao_event_count :: nat
  ao_credentials :: "(account_row \<times> string) list"
  ao_continuations :: "id list"
  ao_replaced_by :: "id option"

definition events_of :: "db \<Rightarrow> id \<Rightarrow> event_row list" where
  "events_of d i = filter (\<lambda>e. e_account e = i) (events d)"

definition latest :: "instant list \<Rightarrow> instant option" where
  "latest ts = (if ts = [] then None else Some (Max (set ts)))"

definition select_account :: "db \<Rightarrow> account_row \<Rightarrow> source_row \<Rightarrow> account_output" where
  "select_account d a s =
     (let c = credential_of d (a_id a)
      in \<lparr>ao_row = a, ao_source_name = s_name s, ao_type = Option.bind c c_type,
          ao_plan = Option.bind c c_plan, ao_status = Option.bind c c_status,
          ao_disabled = (case c of None \<Rightarrow> False | Some x \<Rightarrow> c_disabled x),
          ao_removed = Option.bind c c_removed,
          ao_last_used = latest (map (u_occurred_at \<circ> e_usage) (events_of d (a_id a))),
          ao_event_count = length (events_of d (a_id a)),
          ao_credentials = [], ao_continuations = [], ao_replaced_by = None\<rparr>)"

definition merged_credentials :: "db \<Rightarrow> id \<Rightarrow> (account_row \<times> string) list" where
  "merged_credentials d target =
     sort_key (a_id \<circ> fst)
       [(a, s_name s). a \<leftarrow> accounts d, s \<leftarrow> sources d, s_id s = a_source a \<and> a_merged a = Some target]"

definition read_details :: "db \<Rightarrow> id option \<Rightarrow> account_output \<Rightarrow> account_output" where
  "read_details d account_id out =
     (let i = a_id (ao_row out);
          suggestions = filter (\<lambda>c. o_previous c = i) (continuation_list d account_id)
      in out\<lparr>ao_credentials := (if bound_eq account_id i then merged_credentials d i else []),
             ao_continuations := map o_replacement suggestions,
             ao_replaced_by := (case rev (filter o_is_replacement suggestions) of
                [] \<Rightarrow> None | c # _ \<Rightarrow> Some (o_replacement c))\<rparr>)"

definition list_accounts :: "db \<Rightarrow> account_output list" where
  "list_accounts d =
     map (read_details d None)
       (sort_key (\<lambda>out. (- a_last (ao_row out), a_id (ao_row out)))
         [select_account d a s. a \<leftarrow> accounts d, s \<leftarrow> sources d,
            s_id s = a_source a \<and> a_merged a = None])"

definition load_account :: "db \<Rightarrow> id \<Rightarrow> account_output option" where
  "load_account d i =
     (case [select_account d a s. a \<leftarrow> accounts d, s \<leftarrow> sources d, s_id s = a_source a \<and> a_id a = i] of
        [] \<Rightarrow> None | out # _ \<Rightarrow> Some (read_details d (Some i) out))"

section \<open>Renaming\<close>

definition set_display :: "string option \<Rightarrow> account_row \<Rightarrow> account_row" where
  "set_display name a = a\<lparr>a_display := name\<rparr>"

definition rename :: "instant \<Rightarrow> id \<Rightarrow> string option \<Rightarrow> db \<Rightarrow> account_output option \<times> db" where
  "rename now i name d =
     (let sn = read_snapshot (Account i) Accounts now d;
          d' = d\<lparr>accounts := update_where (\<lambda>a. a_id a = i) (set_display name) (accounts d)\<rparr>
      in if count_where (\<lambda>a. a_id a = i) (accounts d) = 0 then (None, d)
         else let d'' = record_differences now sn d' in (load_account d'' i, d''))"

section \<open>Merging\<close>

datatype merge_error = Same | DifferentSources | SourceMerged | TargetMerged
  | ContinuationChanged | Missing

definition move_event :: "id \<Rightarrow> event_row \<Rightarrow> event_row" where
  "move_event into e = e\<lparr>e_account := into\<rparr>"

definition move_plan :: "id \<Rightarrow> plan_row \<Rightarrow> plan_row" where
  "move_plan into p = p\<lparr>p_account := into\<rparr>"

definition point_at :: "id \<Rightarrow> account_row \<Rightarrow> account_row" where
  "point_at into a = a\<lparr>a_merged := Some into\<rparr>"

definition merge_guard :: "db \<Rightarrow> id \<Rightarrow> id \<Rightarrow> bool \<Rightarrow> merge_error + account_row" where
  "merge_guard d i into requires_continuation =
     (if i = into then Inl Same
      else case (account_by_id d i, account_by_id d into) of
        (None, _) \<Rightarrow> Inl Missing
      | (_, None) \<Rightarrow> Inl Missing
      | (Some merged, Some target) \<Rightarrow>
          if a_source merged \<noteq> a_source target then Inl DifferentSources
          else if a_merged merged \<noteq> None then Inl SourceMerged
          else if a_merged target \<noteq> None then Inl TargetMerged
          else if requires_continuation \<and> continuation_load d i into = None
            then Inl ContinuationChanged
          else Inr merged)"

definition merge_accounts :: "id \<Rightarrow> id \<Rightarrow> account_row \<Rightarrow> account_row list \<Rightarrow> account_row list" where
  "merge_accounts i into merged rows =
     update_where (\<lambda>a. a_id a = into) (widen (a_first merged) (a_last merged))
       (update_where (\<lambda>a. a_id a = i \<or> a_merged a = Some i) (point_at into) rows)"

definition merge :: "instant \<Rightarrow> id \<Rightarrow> id \<Rightarrow> bool \<Rightarrow> db \<Rightarrow> (merge_error + account_output) \<times> db" where
  "merge now i into requires_continuation d =
     (case merge_guard d i into requires_continuation of
        Inl e \<Rightarrow> (Inl e, d)
      | Inr merged \<Rightarrow>
          let sn = read_snapshot (Source (a_source merged)) Accounts now d;
              d1 = d\<lparr>events := update_where (\<lambda>e. e_account e = i) (move_event into) (events d)\<rparr>;
              d2 = (if events_of d i = [] then d1 else record_change now SUsage d1);
              d3 = d2\<lparr>plans := update_where (\<lambda>p. p_account p = i) (move_plan into) (plans d2)\<rparr>;
              d4 = d3\<lparr>accounts := merge_accounts i into merged (accounts d3)\<rparr>;
              d5 = record_differences now sn d4
          in (ok_or Missing (load_account d5 into), d5))"

section \<open>The invariant\<close>

text \<open>
  Every account's source exists, and every event and plan is on an account that is not merged
  into another.
\<close>

definition live :: "db \<Rightarrow> id \<Rightarrow> bool" where
  "live d i = (\<exists>a\<in>set (accounts d). a_id a = i \<and> a_merged a = None)"

definition history_ok :: "db \<Rightarrow> bool" where
  "history_ok d \<longleftrightarrow>
     accounts_ok (accounts d) \<and>
     (\<forall>a\<in>set (accounts d). \<exists>s\<in>set (sources d). s_id s = a_source a) \<and>
     (\<forall>e\<in>set (events d). live d (e_account e)) \<and>
     (\<forall>p\<in>set (plans d). live d (p_account p))"


section \<open>Lemmas\<close>

definition merge_row :: "id \<Rightarrow> id \<Rightarrow> account_row \<Rightarrow> account_row \<Rightarrow> account_row" where
  "merge_row i into merged a =
     (let b = (if a_id a = i \<or> a_merged a = Some i then point_at into a else a)
      in if a_id a = into then widen (a_first merged) (a_last merged) b else b)"

lemma merge_accounts_map: "merge_accounts i into merged rows = map (merge_row i into merged) rows"
  by (simp add: merge_accounts_def update_where_def merge_row_def point_at_def Let_def comp_def)

lemma merge_row_fields [simp]:
  "a_id (merge_row i into m a) = a_id a" "a_source (merge_row i into m a) = a_source a"
  "a_key (merge_row i into m a) = a_key a"
  "a_merged (merge_row i into m a) =
     (if a_id a = i \<or> a_merged a = Some i then Some into else a_merged a)"
  by (simp_all add: merge_row_def point_at_def Let_def)

lemma merge_row_window:
  "a_first a \<le> a_last a \<Longrightarrow> a_first (merge_row i into m a) \<le> a_last (merge_row i into m a)"
  by (auto simp: merge_row_def point_at_def widen_def Let_def)

lemma account_by_id_Some:
  "account_by_id d i = Some a \<Longrightarrow> a \<in> set (accounts d) \<and> a_id a = i"
  unfolding account_by_id_def by (rule find_Some_set)

lemma account_by_id_row:
  "distinct (map a_id (accounts d)) \<Longrightarrow> a \<in> set (accounts d) \<Longrightarrow> account_by_id d (a_id a) = Some a"
  unfolding account_by_id_def by (rule distinct_find_key)

lemma merge_guard_Inr:
  assumes "merge_guard d i into req = Inr merged"
  obtains target where "merged \<in> set (accounts d)" "target \<in> set (accounts d)" "a_id merged = i"
    "a_id target = into" "i \<noteq> into" "a_source merged = a_source target" "a_merged merged = None"
    "a_merged target = None" "req \<Longrightarrow> continuation_load d i into \<noteq> None"
  using assms account_by_id_Some [of d i] account_by_id_Some [of d into]
  by (auto simp: merge_guard_def split: if_splits option.splits)

lemma merge_accounts_ok:
  assumes ok: "accounts_ok rows" and rows: "merged \<in> set rows" "target \<in> set rows"
    and ids: "a_id merged = i" "a_id target = into" "i \<noteq> into"
    and "a_source merged = a_source target" and live: "a_merged merged = None" "a_merged target = None"
  shows "accounts_ok (merge_accounts i into merged rows)"
proof -
  let ?f = "merge_row i into merged"
  have target: "merge_target_ok (map ?f rows) (?f a)" if a: "a \<in> set rows" for a
  proof (cases "a_id a = i \<or> a_merged a = Some i")
    case True
    then have "a_source a = a_source merged"
    proof
      assume "a_id a = i"
      then have "a = merged" using distinct_map_eqD [OF accounts_okD(1) [OF ok] a rows(1)] ids by simp
      then show ?thesis by simp
    next
      assume "a_merged a = Some i"
      from accounts_okD(4) [OF ok a this] obtain b where b: "b \<in> set rows" "a_id b = i" "a_source b = a_source a"
        by blast
      then have "b = merged" using distinct_map_eqD [OF accounts_okD(1) [OF ok] _ rows(1)] ids by simp
      then show ?thesis using b by simp
    qed
    then show ?thesis using True rows(2) assms(4-) by (auto simp: merge_target_ok_def intro!: bexI [of _ target])
  next
    case False
    show ?thesis
    proof (cases "a_merged a")
      case None
      then show ?thesis using False by (simp add: merge_target_ok_def)
    next
      case (Some t)
      with accounts_okD(4) [OF ok a this] obtain b where
        "b \<in> set rows" "a_id b = t" "a_merged b = None" "a_source b = a_source a" by blast
      then show ?thesis using False Some by (auto simp: merge_target_ok_def intro!: bexI [of _ b])
    qed
  qed
  have "map a_id (map ?f rows) = map a_id rows" "map account_key (map ?f rows) = map account_key rows"
    by simp_all
  then show ?thesis
    using target accounts_okD(1-3) [OF ok] merge_row_window
    by (auto simp: merge_accounts_map accounts_ok_def simp del: map_map)
qed

lemma merge_result:
  assumes "merge now i into req d = (res, d')" and "merge_guard d i into req = Inr merged"
  shows "accounts d' = merge_accounts i into merged (accounts d)"
    and "events d' = update_where (\<lambda>e. e_account e = i) (move_event into) (events d)"
    and "plans d' = update_where (\<lambda>p. p_account p = i) (move_plan into) (plans d)"
    and "sources d' = sources d" and "credentials d' = credentials d"
    and "res = ok_or Missing (load_account d' into)"
  using assms
  by (auto simp: merge_def Let_def record_differences_eq record_change_def split: if_splits)

lemma load_account_Some:
  assumes "distinct (map a_id (accounts d))" and "a \<in> set (accounts d)" and "s \<in> set (sources d)"
    and "s_id s = a_source a"
  shows "\<exists>out. load_account d (a_id a) = Some out \<and> ao_row out = a \<and>
           ao_event_count out = length (events_of d (a_id a))"
proof -
  define outs where
    "outs = [select_account d b s. b \<leftarrow> accounts d, s \<leftarrow> sources d, s_id s = a_source b \<and> a_id b = a_id a]"
  have "select_account d a s \<in> set outs"
    unfolding outs_def in_comprehension using assms by blast
  then obtain out rest where outs: "outs = out # rest" by (cases outs) auto
  then have "out \<in> set outs" by simp
  then obtain b t where "b \<in> set (accounts d)" "a_id b = a_id a" "out = select_account d b t"
    unfolding outs_def in_comprehension by blast
  moreover from this have "b = a" using distinct_map_eqD [OF assms(1) _ assms(2)] by simp
  ultimately have "ao_row out = a" "ao_event_count out = length (events_of d (a_id a))"
    by (simp_all add: select_account_def Let_def)
  moreover have "load_account d (a_id a) = Some (read_details d (Some (a_id a)) out)"
    using outs unfolding load_account_def outs_def [symmetric] by simp
  ultimately show ?thesis by (simp add: read_details_def Let_def)
qed

lemma live_merge:
  assumes "live d j" and "j \<noteq> i" and "accounts d' = merge_accounts i into merged (accounts d)"
  shows "live d' j"
proof -
  from assms(1) obtain a where "a \<in> set (accounts d)" "a_id a = j" "a_merged a = None"
    by (auto simp: live_def)
  then show ?thesis
    using assms(2,3) by (auto simp: live_def merge_accounts_map intro!: bexI [of _ a])
qed

lemma events_of_move:
  assumes "events d' = update_where (\<lambda>e. e_account e = i) (move_event into) (events d)" and "i \<noteq> into"
  shows "events_of d' i = []"
    and "length (events_of d' into) = length (events_of d i) + length (events_of d into)"
    and "j \<noteq> i \<Longrightarrow> j \<noteq> into \<Longrightarrow> events_of d' j = events_of d j"
    and "map (move_event k) (events d') = map (move_event k) (events d)"
proof -
  have "filter (\<lambda>e. e_account e = i) (update_where (\<lambda>e. e_account e = i) (move_event into) es) = []"
    "length (filter (\<lambda>e. e_account e = into) (update_where (\<lambda>e. e_account e = i) (move_event into) es)) =
       length (filter (\<lambda>e. e_account e = i) es) + length (filter (\<lambda>e. e_account e = into) es)"
    "j \<noteq> i \<Longrightarrow> j \<noteq> into \<Longrightarrow>
       filter (\<lambda>e. e_account e = j) (update_where (\<lambda>e. e_account e = i) (move_event into) es) =
       filter (\<lambda>e. e_account e = j) es"
    "map (move_event k) (update_where (\<lambda>e. e_account e = i) (move_event into) es) = map (move_event k) es"
    for es
    using assms(2) by (induction es) (auto simp: move_event_def)
  then show "events_of d' i = []"
    "length (events_of d' into) = length (events_of d i) + length (events_of d into)"
    "j \<noteq> i \<Longrightarrow> j \<noteq> into \<Longrightarrow> events_of d' j = events_of d j"
    "map (move_event k) (events d') = map (move_event k) (events d)"
    by (simp_all add: events_of_def assms(1))
qed

text \<open>What a record of some key is charged to, before and after a merge.\<close>

lemma resolve_answer:
  "fst (resolve candidate source provider account t d) =
     (case returned (fresh_account candidate source provider account t) (accounts d) of
        None \<Rightarrow> candidate | Some row \<Rightarrow> unwrap_or (a_id row) (a_merged row))"
  by (auto simp: resolve_def Let_def returned_resolve fresh_account_def resolve_merge_def split: option.splits)

lemma returned_merge:
  "returned new (merge_accounts i into m rows) = map_option (merge_row i into m) (returned new rows)"
  by (induction rows) (auto simp: merge_accounts_map returned_def)

lemma resolve_after_merge:
  assumes "accounts d' = merge_accounts i into m (accounts d)"
    and "\<And>a. a \<in> set (accounts d) \<Longrightarrow> a_id a = i \<Longrightarrow> a_merged a = None" and "candidate \<noteq> i"
  shows "fst (resolve candidate source provider account t d') =
    (if fst (resolve candidate source provider account t d) = i then into
     else fst (resolve candidate source provider account t d))"
proof (cases "returned (fresh_account candidate source provider account t) (accounts d)")
  case None
  then show ?thesis using assms(3) by (simp add: resolve_answer assms(1) returned_merge)
next
  case (Some row)
  then have "row \<in> set (accounts d)" unfolding returned_def by (rule find_Some_set [THEN conjunct1])
  then show ?thesis using assms(2) Some
    by (cases "a_merged row") (auto simp: resolve_answer assms(1) returned_merge)
qed

lemma resolve_merged_key:
  assumes "accounts_ok (accounts d)" and "accounts d' = merge_accounts i into m (accounts d)"
    and "a \<in> set (accounts d)" and "a_id a = i \<or> a_merged a = Some i" and "stored_key account provider = a_key a"
  shows "fst (resolve candidate (a_source a) provider account t d') = into"
proof -
  have "returned (fresh_account candidate (a_source a) provider account t) (accounts d) = Some a"
    using distinct_find_key [OF accounts_okD(2) [OF assms(1)] assms(3)] assms(5)
    by (simp add: returned_def fresh_account_def)
  then show ?thesis using assms(4) by (simp add: resolve_answer assms(2) returned_merge)
qed

lemma plans_of_move:
  assumes "plans d' = update_where (\<lambda>p. p_account p = i) (move_plan into) (plans d)" and "i \<noteq> into"
  shows "\<forall>p\<in>set (plans d'). p_account p \<noteq> i" and "map (move_plan k) (plans d') = map (move_plan k) (plans d)"
  using assms by (auto simp: row_simps move_plan_def update_where_def)

section \<open>Properties\<close>

text \<open>
  C1: in tables that are in order, a merge is refused with nothing changed, or it moves the whole
  history. No event and no plan is lost or altered but for its account, the merged account keeps
  none, the answered target counts the events of both, and other accounts keep theirs. From then
  on a record with the key of the merged account, or of one merged into it before, resolves to
  the target in one step, and every other record resolves as it did. The tables are in order again.
\<close>

theorem merge_conserves_history:
  assumes "history_ok d" and "merge now i into req d = (res, d')"
  shows "history_ok d' \<and>
    (case res of
       Inl e \<Rightarrow> d' = d
     | Inr out \<Rightarrow>
         a_id (ao_row out) = into \<and> a_merged (ao_row out) = None \<and>
         ao_event_count out = length (events_of d i) + length (events_of d into) \<and>
         map (move_event 0) (events d') = map (move_event 0) (events d) \<and>
         map (move_plan 0) (plans d') = map (move_plan 0) (plans d) \<and>
         events_of d' i = [] \<and> (\<forall>p\<in>set (plans d'). p_account p \<noteq> i) \<and>
         (\<forall>j. j \<notin> {i, into} \<longrightarrow> events_of d' j = events_of d j) \<and>
         (\<exists>a\<in>set (accounts d'). a_id a = i \<and> a_merged a = Some into) \<and>
         (\<forall>a\<in>set (accounts d). a_id a = i \<or> a_merged a = Some i \<longrightarrow>
            (\<forall>candidate provider account t. stored_key account provider = a_key a \<longrightarrow>
               fst (resolve candidate (a_source a) provider account t d') = into)) \<and>
         (\<forall>candidate source provider account t. candidate \<noteq> i \<longrightarrow>
            fst (resolve candidate source provider account t d') =
              (let before = fst (resolve candidate source provider account t d)
               in if before = i then into else before)))"
proof (cases "merge_guard d i into req")
  case (Inl e)
  then have "res = Inl e" "d' = d" using assms(2) by (simp_all add: merge_def)
  then show ?thesis using assms(1) by simp
next
  case (Inr merged)
  obtain target where g: "merged \<in> set (accounts d)" "target \<in> set (accounts d)" "a_id merged = i"
    "a_id target = into" "i \<noteq> into" "a_source merged = a_source target" "a_merged merged = None"
    "a_merged target = None"
    using merge_guard_Inr [OF Inr] by metis
  note r = merge_result [OF assms(2) Inr]
  have ok: "accounts_ok (accounts d)" using assms(1) by (simp add: history_ok_def)
  have ok': "accounts_ok (accounts d')"
    unfolding r(1) by (rule merge_accounts_ok [OF ok g(1-8)])
  have into_live: "live d into" using g by (auto simp: live_def)
  have "live d' (e_account e)" if "e \<in> set (events d')" for e
    using that assms(1) live_merge [OF _ _ r(1)] into_live g(5)
    by (auto simp: history_ok_def r(2) row_simps move_event_def)
  moreover have "live d' (p_account p)" if "p \<in> set (plans d')" for p
    using that assms(1) live_merge [OF _ _ r(1)] into_live g(5)
    by (auto simp: history_ok_def r(3) row_simps move_plan_def)
  ultimately have hist: "history_ok d'"
    using assms(1) ok' by (auto simp: history_ok_def r(1,4) merge_accounts_map)
  let ?t = "merge_row i into merged target"
  have t: "?t \<in> set (accounts d')" "a_id ?t = into" "a_merged ?t = None"
    using g by (auto simp: r(1) merge_accounts_map)
  obtain s where "s \<in> set (sources d')" "s_id s = a_source ?t"
    using hist t(1) by (auto simp: history_ok_def)
  from load_account_Some [OF accounts_okD(1) [OF ok'] t(1) this] obtain out where
    out: "load_account d' into = Some out" "ao_row out = ?t"
      "ao_event_count out = length (events_of d' into)"
    using t(2) by auto
  have "merge_row i into merged merged \<in> set (accounts d')" using g(1) by (simp add: r(1) merge_accounts_map)
  then have merged: "\<exists>a\<in>set (accounts d'). a_id a = i \<and> a_merged a = Some into"
    using g(3) by (intro bexI [of _ "merge_row i into merged merged"]) simp_all
  have alone: "a_merged a = None" if "a \<in> set (accounts d)" "a_id a = i" for a
    using distinct_map_eqD [OF accounts_okD(1) [OF ok] that(1) g(1)] that(2) g(3,7) by simp
  have res: "res = Inr out" using out(1) by (simp add: r(6) ok_or_def)
  note moved = events_of_move [OF r(2) g(5)] plans_of_move [OF r(3) g(5)]
  show ?thesis
    unfolding res sum.case Let_def
    using hist out t merged moved resolve_merged_key [OF ok r(1)] resolve_after_merge [OF r(1) alone]
    by (intro conjI) auto
qed

text \<open>Two accounts with a request each, a third merged into the first, and a plan of the first.\<close>

definition home_account :: "id \<Rightarrow> string \<Rightarrow> id option \<Rightarrow> account_row" where
  "home_account i key into =
     \<lparr>a_id = i, a_source = 9, a_provider = ''claude'', a_key = key, a_auth = OAuth,
      a_label = None, a_display = None, a_merged = into, a_first = 10, a_last = 20\<rparr>"

definition home_event :: "id \<Rightarrow> id \<Rightarrow> string \<Rightarrow> event_row" where
  "home_event i account hash =
     \<lparr>e_id = i, e_source = 9, e_account = account, e_hash = hash, e_usage = sample_usage,
      e_price = None, e_list_cost = None, e_billed_cost = None\<rparr>"

definition merge_db :: db where
  "merge_db = empty_db\<lparr>
     sources := [\<lparr>s_id = 9, s_key = ''home'', s_name = ''Home'', s_kind = CliProxy,
       s_base_url = ''http://x'', s_enabled = True, s_created_at = 0\<rparr>],
     accounts := [home_account 1 ''a'' None, home_account 2 ''b'' None, home_account 3 ''c'' (Some 1)],
     events := [home_event 5 1 ''x'', home_event 6 2 ''y''],
     plans := [\<lparr>p_id = 4, p_account = 1, p_name = ''Max'', p_monthly_usd = 0, p_start = 0, p_end = None\<rparr>]\<rparr>"

theorem merge_conserves_history_witness:
  "\<exists>out d'. merge 50 1 2 False merge_db = (Inr out, d') \<and> history_ok d' \<and> ao_event_count out = 2 \<and>
     events_of d' 1 = [] \<and>
     fst (resolve 7 9 ''claude'' \<lparr>n_key = ''a'', n_auth = OAuth, n_label = None\<rparr> 60 d') = 2 \<and>
     fst (resolve 7 9 ''claude'' \<lparr>n_key = ''c'', n_auth = OAuth, n_label = None\<rparr> 60 d') = 2 \<and>
     fst (resolve 7 9 ''claude'' \<lparr>n_key = ''new'', n_auth = OAuth, n_label = None\<rparr> 60 d') = 7"
proof -
  have "\<not> isl (fst (merge 50 1 2 False merge_db))" by code_simp
  then obtain out d' where r: "merge 50 1 2 False merge_db = (Inr out, d')"
    by (metis isl_def prod.collapse sum.exhaust_sel)
  have "history_ok merge_db"
    by (simp add: history_ok_def accounts_ok_def merge_target_ok_def live_def merge_db_def empty_db_def
        home_account_def home_event_def)
  note m = merge_conserves_history [OF this r, unfolded sum.case Let_def]
  then have keyed: "fst (resolve 7 (a_source a) ''claude'' account 60 d') = 2"
    if "a \<in> set (accounts merge_db)" "a_id a = 1 \<or> a_merged a = Some 1" "stored_key account ''claude'' = a_key a"
    for a account
    using that by blast
  have rows: "\<exists>a\<in>set (accounts merge_db). (a_id a = 1 \<or> a_merged a = Some 1) \<and> a_key a = k \<and> a_source a = 9"
    if "k = ''a'' \<or> k = ''c''" for k
    using that by (auto simp: merge_db_def home_account_def)
  have "fst (resolve 7 9 ''claude'' \<lparr>n_key = k, n_auth = OAuth, n_label = None\<rparr> 60 d') = 2"
    if "k = ''a'' \<or> k = ''c''" for k
  proof -
    from rows [OF that] obtain a where
      a: "a \<in> set (accounts merge_db)" "a_id a = 1 \<or> a_merged a = Some 1" "a_key a = k" "a_source a = 9"
      by blast
    have "stored_key \<lparr>n_key = k, n_auth = OAuth, n_label = None\<rparr> ''claude'' = a_key a"
      using that a(3) by (auto simp: stored_key_def)
    from keyed [OF a(1,2) this] show ?thesis using a(4) by simp
  qed
  moreover have "fst (resolve 7 9 ''claude'' \<lparr>n_key = ''new'', n_auth = OAuth, n_label = None\<rparr> 60 merge_db) = 7"
    by code_simp
  then have "fst (resolve 7 9 ''claude'' \<lparr>n_key = ''new'', n_auth = OAuth, n_label = None\<rparr> 60 d') = 7"
    using m by simp
  moreover have "length (events_of merge_db 1) = 1" "length (events_of merge_db 2) = 1" by code_simp+
  ultimately show ?thesis using r m by simp
qed

end
