(* ===== verification/Prices.thy ===== *)
theory Prices
  imports Accounts Changes
begin

text \<open>
  Prices of \<^verbatim>\<open>src/price/mod.rs\<close> and the two costs of an event of \<^verbatim>\<open>src/price/cost.rs\<close>.
  The query that fills in costs is one function per event: the rows that apply to it, the
  order it prefers them in, and the update the preferred row makes. Costs are exact rationals
  and token arithmetic is exact.
\<close>

section \<open>Listing and inserting\<close>

record price_filter =
  pf_model :: "string option"
  pf_origin :: "origin option"
  pf_history :: bool

type_synonym slot_key = "string \<times> string option \<times> string option \<times> int \<times> origin"

definition price_slot :: "price_row \<Rightarrow> slot_key" where
  "price_slot p = (m_model p, m_provider p, m_tier p, m_min_input_tokens p, m_origin p)"

definition supersedes :: "price_row \<Rightarrow> price_row \<Rightarrow> bool" where
  "supersedes later p \<longleftrightarrow>
     price_slot later = price_slot p \<and>
     (m_effective_from p < m_effective_from later \<or>
      (m_effective_from later = m_effective_from p \<and> m_id p < m_id later))"

definition list_prices :: "db \<Rightarrow> price_filter \<Rightarrow> price_row list" where
  "list_prices d f =
     sort_key (\<lambda>p. (m_model p, m_provider p, m_tier p, m_min_input_tokens p,
         origin_stored (m_origin p), - m_effective_from p, - m_id p))
       (filter (\<lambda>p. bound_eq (pf_model f) (m_model p) \<and> bound_eq (pf_origin f) (m_origin p) \<and>
           (pf_history f \<or> \<not> (\<exists>later\<in>set (prices d). supersedes later p)))
         (prices d))"

record new_price =
  np_provider :: "string option"
  np_model :: string
  np_tier :: "string option"
  np_min_input_tokens :: int
  np_effective_from :: instant
  np_rates :: rates

definition insert_price :: "instant \<Rightarrow> id \<Rightarrow> new_price \<Rightarrow> origin \<Rightarrow> db \<Rightarrow> price_row \<times> db" where
  "insert_price now i p origin d =
     (let row = \<lparr>m_id = i, m_provider = np_provider p, m_model = np_model p, m_tier = np_tier p,
            m_min_input_tokens = np_min_input_tokens p, m_origin = origin,
            m_effective_from = np_effective_from p, m_rates = np_rates p\<rparr>
      in (row, record_change now (SPrice (np_model p)) (d\<lparr>prices := prices d @ [row]\<rparr>)))"

section \<open>The price of an event\<close>

fun origin_rank :: "origin \<Rightarrow> nat" where
  "origin_rank Manual = 0"
| "origin_rank LiteLlmLive = 1"
| "origin_rank LiteLlmPublic = 2"

text \<open>\<open>priced_as\<close> is the config's map from a model to the key the price map knows it under.\<close>

definition applies :: "(string \<times> string) list \<Rightarrow> event_row \<Rightarrow> price_row \<Rightarrow> bool" where
  "applies priced_as e p =
     (let u = e_usage e
      in (m_model p = u_model u \<or> u_model_alias u = Some (m_model p) \<or>
          map_of priced_as (u_model u) = Some (m_model p) \<or>
          (m_model p = u_provider u @ ''/'' @ u_model u \<and> m_provider p = Some (u_provider u))) \<and>
         (m_origin p \<noteq> Manual \<or> m_provider p = None \<or> m_provider p = Some (u_provider u)) \<and>
         (m_tier p = None \<or> sql_eq (m_tier p) (u_service_tier u)) \<and>
         m_min_input_tokens p \<le> u_input_tokens u \<and>
         m_effective_from p \<le> u_occurred_at u)"

text \<open>The larger value is preferred; the last component tells any two rows apart.\<close>

definition preference ::
  "event_row \<Rightarrow> price_row \<Rightarrow> bool \<times> bool \<times> int \<times> int \<times> bool \<times> instant \<times> id" where
  "preference e p =
     (m_model p = u_model (e_usage e), m_tier p \<noteq> None, - int (origin_rank (m_origin p)),
      m_min_input_tokens p, m_provider p \<noteq> None, m_effective_from p, m_id p)"

definition chosen_price :: "(string \<times> string) list \<Rightarrow> price_row list \<Rightarrow> event_row \<Rightarrow> price_row option" where
  "chosen_price priced_as ps e =
     (case rev (sort_key (preference e) (filter (applies priced_as e) ps)) of
        [] \<Rightarrow> None | p # _ \<Rightarrow> Some p)"

definition list_cost :: "rates \<Rightarrow> usage \<Rightarrow> rat" where
  "list_cost r u =
     (of_int (max (u_input_tokens u - u_cache_read_tokens u - u_cache_write_tokens u) 0) *
        input_usd_per_mtok r
      + of_int (u_cache_read_tokens u) * cached_input_usd_per_mtok r
      + of_int (u_cache_write_tokens u) * cache_write_usd_per_mtok r
      + of_int (u_output_tokens u) * output_usd_per_mtok r) / 1000000"

definition price_event :: "price_row \<Rightarrow> account_row \<Rightarrow> event_row \<Rightarrow> event_row" where
  "price_event p a e =
     (let cost = list_cost (m_rates p) (e_usage e)
      in e\<lparr>e_price := Some (m_id p), e_list_cost := Some cost,
           e_billed_cost := or_else (e_billed_cost e) (Some (if a_auth a = OAuth then 0 else cost))\<rparr>)"

text \<open>The event as the statement leaves it, when the statement updates it.\<close>

definition fill_event :: "(string \<times> string) list \<Rightarrow> db \<Rightarrow> event_row \<Rightarrow> event_row option" where
  "fill_event priced_as d e =
     (if e_list_cost e \<noteq> None then None
      else case (chosen_price priced_as (prices d) e, account_by_id d (e_account e)) of
             (Some p, Some a) \<Rightarrow> Some (price_event p a e)
           | _ \<Rightarrow> None)"

definition fill_events :: "(string \<times> string) list \<Rightarrow> db \<Rightarrow> event_row list \<times> db" where
  "fill_events priced_as d =
     (List.map_filter (fill_event priced_as d) (events d),
      d\<lparr>events := map (\<lambda>e. unwrap_or e (fill_event priced_as d e)) (events d)\<rparr>)"

definition fill :: "instant \<Rightarrow> (string \<times> string) list \<Rightarrow> db \<Rightarrow> event_row list \<times> db" where
  "fill now priced_as d =
     (let (priced, d') = fill_events priced_as d
      in (priced, if priced = [] then d' else record_change now SUsage d'))"

definition forget_cost :: "db \<Rightarrow> event_row \<Rightarrow> event_row" where
  "forget_cost d e =
     e\<lparr>e_price := None, e_list_cost := None,
       e_billed_cost := (if map_option s_kind (source_by_id d (e_source e)) = Some LiteLlm
                         then e_billed_cost e else None)\<rparr>"

definition in_range :: "instant option \<Rightarrow> instant option \<Rightarrow> event_row \<Rightarrow> bool" where
  "in_range lo hi e \<longleftrightarrow>
     (case lo of None \<Rightarrow> True | Some x \<Rightarrow> x \<le> u_occurred_at (e_usage e)) \<and>
     (case hi of None \<Rightarrow> True | Some x \<Rightarrow> u_occurred_at (e_usage e) \<le> x)"

definition reprice ::
  "instant \<Rightarrow> (string \<times> string) list \<Rightarrow> instant option \<Rightarrow> instant option \<Rightarrow> db \<Rightarrow>
     nat \<times> event_row list \<times> db" where
  "reprice now priced_as lo hi d =
     (let cleared = count_where (in_range lo hi) (events d);
          d1 = d\<lparr>events := update_where (in_range lo hi) (forget_cost d) (events d)\<rparr>;
          (priced, d2) = fill_events priced_as d1
      in (cleared, priced,
          if 0 < cleared \<or> priced \<noteq> [] then record_change now SUsage d2 else d2))"

section \<open>Lemmas\<close>

lemma last_sort_key_max:
  assumes "rev (sort_key f xs) = x # rest"
  shows "x \<in> set xs" and "y \<in> set xs \<Longrightarrow> f y \<le> f x"
proof -
  have s: "sort_key f xs = rev rest @ [x]" using assms by (metis rev.simps(2) rev_rev_ident)
  show "x \<in> set xs" using arg_cong [OF s, of set] by auto
  have "sorted (map f (rev rest @ [x]))" using s sorted_sort_key [of f xs] by simp
  moreover assume "y \<in> set xs"
  then have "y \<in> set (rev rest @ [x])" using arg_cong [OF s, of set] by auto
  ultimately show "f y \<le> f x" by (auto simp: sorted_append)
qed

lemma chosen_price_Some:
  assumes "chosen_price priced_as ps e = Some p"
  shows "p \<in> set ps" and "applies priced_as e p"
    and "q \<in> set ps \<Longrightarrow> applies priced_as e q \<Longrightarrow> preference e q \<le> preference e p"
proof -
  obtain rest where r: "rev (sort_key (preference e) (filter (applies priced_as e) ps)) = p # rest"
    using assms by (auto simp: chosen_price_def split: list.splits)
  from last_sort_key_max [OF r] show "p \<in> set ps" "applies priced_as e p"
    "q \<in> set ps \<Longrightarrow> applies priced_as e q \<Longrightarrow> preference e q \<le> preference e p" by auto
qed

lemma chosen_price_None_iff:
  "chosen_price priced_as ps e = None \<longleftrightarrow> (\<forall>p\<in>set ps. \<not> applies priced_as e p)"
proof -
  have "chosen_price priced_as ps e = None \<longleftrightarrow>
      rev (sort_key (preference e) (filter (applies priced_as e) ps)) = []"
    by (simp add: chosen_price_def split: list.split)
  also have "\<dots> \<longleftrightarrow> filter (applies priced_as e) ps = []" by (metis rev_is_Nil_conv set_empty set_sort)
  finally show ?thesis by (simp add: filter_empty_conv)
qed

text \<open>What a price is chosen by: an event's costs and account play no part.\<close>

lemma chosen_price_cong: "e_usage e = e_usage f \<Longrightarrow> chosen_price priced_as ps e = chosen_price priced_as ps f"
  by (simp add: chosen_price_def applies_def [abs_def] preference_def [abs_def])

lemma fill_event_again:
  assumes "fill_event priced_as d e = Some e'"
  shows "fill_event priced_as d' e' = None" and "e_list_cost e' \<noteq> None"
  using assms by (auto simp: fill_event_def price_event_def Let_def split: if_splits option.splits)

lemma fill_fields [simp]:
  "prices (snd (fill_events priced_as d)) = prices d"
  "accounts (snd (fill_events priced_as d)) = accounts d"
  "sources (snd (fill_events priced_as d)) = sources d"
  "events (snd (fill_events priced_as d)) = map (\<lambda>e. unwrap_or e (fill_event priced_as d e)) (events d)"
  by (simp_all add: fill_events_def)

lemma fill_event_cong:
  "prices d' = prices d \<Longrightarrow> accounts d' = accounts d \<Longrightarrow> fill_event priced_as d' e = fill_event priced_as d e"
  by (simp add: fill_event_def account_by_id_def)

lemma fill_event_filled: "fill_event priced_as d (unwrap_or e (fill_event priced_as d e)) = None"
  by (cases "fill_event priced_as d e") (auto dest: fill_event_again)

lemma map_filter_None: "(\<And>x. x \<in> set xs \<Longrightarrow> f x = None) \<Longrightarrow> List.map_filter f xs = []"
  by (induction xs) (auto simp: List.map_filter_simps)

lemma fill_events_none:
  assumes "\<And>e. e \<in> set (events d) \<Longrightarrow> fill_event priced_as d e = None"
  shows "fill_events priced_as d = ([], d)"
proof -
  have "map (\<lambda>e. unwrap_or e (fill_event priced_as d e)) (events d) = events d"
    using assms by (intro map_idI) simp
  moreover have "List.map_filter (fill_event priced_as d) (events d) = []"
    using assms by (rule map_filter_None)
  ultimately show ?thesis by (simp only: fill_events_def) simp
qed

lemma filled_none:
  assumes "events d' = map (\<lambda>e. unwrap_or e (fill_event priced_as d e)) (events d)"
    and "prices d' = prices d" and "accounts d' = accounts d"
  shows "fill_events priced_as d' = ([], d')"
proof (rule fill_events_none)
  fix e assume "e \<in> set (events d')"
  then obtain x where "e = unwrap_or x (fill_event priced_as d x)" using assms(1) by auto
  then show "fill_event priced_as d' e = None"
    using fill_event_cong [OF assms(2,3)] fill_event_filled by simp
qed

section \<open>Properties\<close>

text \<open>
  C2: pricing gives every event without a cost the price row that applies to it and that no
  other applying row is preferred to, freezes the exact list cost of its tokens at those
  rates, and bills it at that cost unless the upstream said what it billed or the account is
  a flat-rate login. An event that is priced already, or that no row applies to, is unchanged.
\<close>

theorem fill_uses_best_price:
  assumes "(e, e') \<in> set (zip (events d) (events (snd (fill now priced_as d))))"
    and "account_by_id d (e_account e) = Some a"
  shows "if e_list_cost e \<noteq> None \<or> (\<forall>p\<in>set (prices d). \<not> applies priced_as e p) then e' = e
    else \<exists>p\<in>set (prices d). applies priced_as e p \<and>
      (\<forall>q\<in>set (prices d). applies priced_as e q \<longrightarrow> preference e q \<le> preference e p) \<and>
      e' = e\<lparr>e_price := Some (m_id p), e_list_cost := Some (list_cost (m_rates p) (e_usage e)),
             e_billed_cost := (case e_billed_cost e of
                 Some billed \<Rightarrow> Some billed
               | None \<Rightarrow> Some (if a_auth a = OAuth then 0 else list_cost (m_rates p) (e_usage e)))\<rparr>"
proof -
  have "events (snd (fill now priced_as d)) = map (\<lambda>e. unwrap_or e (fill_event priced_as d e)) (events d)"
    by (simp add: fill_def fill_events_def record_change_def)
  then have e': "e' = unwrap_or e (fill_event priced_as d e)"
    using assms(1) by (auto simp: zip_map2 zip_same_conv_map)
  show ?thesis
  proof (cases "chosen_price priced_as (prices d) e")
    case None
    then have "\<forall>p\<in>set (prices d). \<not> applies priced_as e p" by (simp only: chosen_price_None_iff)
    then show ?thesis using None by (simp add: e' fill_event_def)
  next
    case (Some p)
    note p = chosen_price_Some [OF Some]
    then have some: "\<not> (\<forall>p\<in>set (prices d). \<not> applies priced_as e p)" by blast
    show ?thesis
    proof (cases "e_list_cost e")
      case None
      then have "e' = price_event p a e" by (simp add: e' fill_event_def Some assms(2))
      then have "e' = e\<lparr>e_price := Some (m_id p), e_list_cost := Some (list_cost (m_rates p) (e_usage e)),
             e_billed_cost := (case e_billed_cost e of
                 Some billed \<Rightarrow> Some billed
               | None \<Rightarrow> Some (if a_auth a = OAuth then 0 else list_cost (m_rates p) (e_usage e)))\<rparr>"
        by (simp add: price_event_def Let_def or_else_def)
      then show ?thesis using some None p by auto
    next
      case (Some c)
      then show ?thesis by (simp add: e' fill_event_def)
    qed
  qed
qed

text \<open>
  Pricing settles in one pass. A second pass over the same prices prices nothing, rewrites
  nothing and records no change.
\<close>

theorem fill_settles:
  "fill later priced_as (snd (fill now priced_as d)) = ([], snd (fill now priced_as d))"
proof -
  let ?d = "snd (fill now priced_as d)"
  have "fill_events priced_as ?d = ([], ?d)"
    by (rule filled_none [where d = d]) (simp_all add: fill_def fill_events_def record_change_def)
  then show ?thesis by (simp add: fill_def [of later])
qed

lemma fill_event_usage:
  assumes "fill_event priced_as d e = Some e'"
  shows "e_usage e' = e_usage e" and "e_source e' = e_source e" and "e_account e' = e_account e"
    and "in_range lo hi e' = in_range lo hi e"
  using assms
  by (auto simp: fill_event_def price_event_def Let_def in_range_def split: if_splits option.splits)

lemma in_range_cong: "e_usage e = e_usage f \<Longrightarrow> in_range lo hi e = in_range lo hi f"
  by (auto simp: in_range_def split: option.splits)

lemma forget_cost_fields [simp]:
  "e_usage (forget_cost d e) = e_usage e" "e_source (forget_cost d e) = e_source e"
  "e_account (forget_cost d e) = e_account e" "forget_cost d (forget_cost d e) = forget_cost d e"
  by (simp_all add: forget_cost_def)

lemma in_range_forget [simp]: "in_range lo hi (forget_cost d e) = in_range lo hi e"
  by (rule in_range_cong) simp

text \<open>One event through a repricing.\<close>

definition reprice_event ::
  "(string \<times> string) list \<Rightarrow> db \<Rightarrow> instant option \<Rightarrow> instant option \<Rightarrow> event_row \<Rightarrow> event_row" where
  "reprice_event priced_as d lo hi e =
     (let f = (if in_range lo hi e then forget_cost d e else e)
      in unwrap_or f (fill_event priced_as d f))"

lemma refill_forgotten:
  assumes "fill_event priced_as d (forget_cost d e) = Some e'"
  shows "fill_event priced_as d (forget_cost d e') = Some e'"
proof -
  note usage = fill_event_usage [OF assms]
  obtain p a where p: "chosen_price priced_as (prices d) (forget_cost d e) = Some p"
    "account_by_id d (e_account e) = Some a" "e' = price_event p a (forget_cost d e)"
    using assms by (auto simp: fill_event_def split: if_splits option.splits)
  have "chosen_price priced_as (prices d) (forget_cost d e') = Some p"
    using p(1) usage chosen_price_cong [of "forget_cost d e'" "forget_cost d e"] by simp
  then have "fill_event priced_as d (forget_cost d e') = Some (price_event p a (forget_cost d e'))"
    using p(2) usage by (simp add: fill_event_def) (simp add: forget_cost_def)
  also have "price_event p a (forget_cost d e') = e'"
    unfolding p(3) by (simp add: price_event_def forget_cost_def Let_def or_else_def split: option.splits)
  finally show ?thesis .
qed

lemma reprice_event_idem:
  "reprice_event priced_as d lo hi (reprice_event priced_as d lo hi e) = reprice_event priced_as d lo hi e"
proof (cases "in_range lo hi e")
  case True
  show ?thesis
  proof (cases "fill_event priced_as d (forget_cost d e)")
    case None
    then show ?thesis using True by (simp add: reprice_event_def)
  next
    case (Some e')
    then show ?thesis using True fill_event_usage(4) [OF Some] refill_forgotten [OF Some]
      by (simp add: reprice_event_def)
  qed
next
  case False
  show ?thesis
  proof (cases "fill_event priced_as d e")
    case None
    then show ?thesis using False by (simp add: reprice_event_def)
  next
    case (Some e')
    then show ?thesis using False fill_event_usage(4) [OF Some] fill_event_again [OF Some]
      by (simp add: reprice_event_def)
  qed
qed

lemma reprice_events:
  assumes "reprice now priced_as lo hi d = (cleared, priced, d')"
  shows "events d' = map (reprice_event priced_as d lo hi) (events d)"
    and "prices d' = prices d" and "accounts d' = accounts d" and "sources d' = sources d"
    and "cleared = count_where (in_range lo hi) (events d)"
proof -
  let ?d1 = "d\<lparr>events := update_where (in_range lo hi) (forget_cost d) (events d)\<rparr>"
  have "fill_event priced_as ?d1 e = fill_event priced_as d e" for e
    by (rule fill_event_cong) simp_all
  then show "events d' = map (reprice_event priced_as d lo hi) (events d)"
    using assms
    by (auto simp: reprice_def fill_events_def update_where_def reprice_event_def Let_def
        record_change_def split: if_splits)
  show "prices d' = prices d" "accounts d' = accounts d" "sources d' = sources d"
    "cleared = count_where (in_range lo hi) (events d)"
    using assms by (auto simp: reprice_def fill_events_def Let_def record_change_def split: if_splits)
qed

text \<open>
  Repricing a range is repeatable. It clears as many events as lie in the range, and doing
  it again leaves every event as the first time did.
\<close>

theorem reprice_repeatable:
  assumes "reprice now priced_as lo hi d = (cleared, priced, d')"
    and "reprice later priced_as lo hi d' = (cleared', priced', d'')"
  shows "events d'' = events d' \<and> cleared' = cleared \<and>
    cleared = count_where (in_range lo hi) (events d) \<and>
    map e_usage (events d') = map e_usage (events d)"
proof -
  note r = reprice_events [OF assms(1)] and r' = reprice_events [OF assms(2)]
  have usage: "e_usage (reprice_event priced_as d lo hi e) = e_usage e" for e
    by (cases "fill_event priced_as d (if in_range lo hi e then forget_cost d e else e)")
      (auto simp: reprice_event_def Let_def dest: fill_event_usage)
  have same: "reprice_event priced_as d' lo hi = reprice_event priced_as d lo hi"
    using r(2-4) by (auto simp: fun_eq_iff reprice_event_def forget_cost_def source_by_id_def
        fill_event_cong [of d' d] Let_def)
  have "events d'' = events d'"
    unfolding r'(1) same r(1) by (simp add: reprice_event_idem)
  moreover have "in_range lo hi (reprice_event priced_as d lo hi e) = in_range lo hi e" for e
    using usage by (rule in_range_cong)
  then have "cleared' = cleared"
    by (simp add: r'(5) r(5) r(1) count_where_def filter_map comp_def)
  ultimately show ?thesis using r(1,5) usage by simp
qed

text \<open>Prices of the model of \<^term>\<open>sample_usage\<close>.\<close>

definition flat_rates :: "rat \<Rightarrow> rates" where
  "flat_rates x = \<lparr>input_usd_per_mtok = x, cached_input_usd_per_mtok = x,
     cache_write_usd_per_mtok = x, output_usd_per_mtok = x\<rparr>"

definition model_price :: "id \<Rightarrow> instant \<Rightarrow> rat \<Rightarrow> price_row" where
  "model_price i start x = \<lparr>m_id = i, m_provider = None, m_model = ''m'', m_tier = None,
     m_min_input_tokens = 0, m_origin = LiteLlmPublic, m_effective_from = start,
     m_rates = flat_rates x\<rparr>"

definition priced_db :: db where
  "priced_db = empty_db\<lparr>
     sources := [\<lparr>s_id = 9, s_key = ''lite'', s_name = ''Lite'', s_kind = LiteLlm,
       s_base_url = ''http://x'', s_enabled = True, s_created_at = 0\<rparr>],
     accounts := [\<lparr>a_id = 1, a_source = 9, a_provider = ''openai'', a_key = ''a'', a_auth = ApiKey,
       a_label = None, a_display = None, a_merged = None, a_first = 10, a_last = 20\<rparr>],
     prices := [model_price 3 0 1],
     events := [\<lparr>e_id = 4, e_source = 9, e_account = 1, e_hash = ''h'', e_usage = sample_usage,
       e_price = None, e_list_cost = None, e_billed_cost = None\<rparr>]\<rparr>"

theorem fill_uses_best_price_witness:
  "\<exists>e e' a. (e, e') \<in> set (zip (events priced_db) (events (snd (fill 50 [] priced_db)))) \<and>
     account_by_id priced_db (e_account e) = Some a \<and> e' \<noteq> e"
proof -
  let ?e = "hd (events priced_db)" and ?e' = "hd (events (snd (fill 50 [] priced_db)))"
  have zip: "(?e, ?e') \<in> set (zip (events priced_db) (events (snd (fill 50 [] priced_db))))"
    by (simp add: priced_db_def fill_def fill_events_def record_change_def Let_def)
  obtain a where a: "account_by_id priced_db (e_account ?e) = Some a"
    by (simp add: priced_db_def account_by_id_def)
  have "\<exists>p\<in>set (prices priced_db). applies [] ?e p"
    by (simp add: priced_db_def applies_def model_price_def sample_usage_def)
  moreover have "e_list_cost ?e = None" by (simp add: priced_db_def)
  ultimately have n: "\<not> (e_list_cost ?e \<noteq> None \<or> (\<forall>p\<in>set (prices priced_db). \<not> applies [] ?e p))"
    by blast
  from fill_uses_best_price [OF zip a, unfolded if_not_P [OF n]]
  have "e_list_cost ?e' \<noteq> None" by auto
  then have "?e' \<noteq> ?e" using \<open>e_list_cost ?e = None\<close> by auto
  then show ?thesis using zip a by blast
qed

theorem reprice_repeatable_witness:
  "\<exists>c p d'. reprice 50 [] None None priced_db = (c, p, d') \<and> c = 1 \<and>
     events (snd (snd (reprice 60 [] None None d'))) = events d'"
proof -
  obtain c p d' where r: "reprice 50 [] None None priced_db = (c, p, d')" by (metis prod_cases3)
  obtain c' p' d'' where r': "reprice 60 [] None None d' = (c', p', d'')" by (metis prod_cases3)
  have "count_where (in_range None None) (events priced_db) = 1"
    by (simp add: count_where_def in_range_def priced_db_def)
  then show ?thesis using reprice_repeatable [OF r r'] r r' by auto
qed

lemma fill_result:
  assumes "fill now priced_as d = (filled, d1)"
  shows "events d1 = map (\<lambda>e. unwrap_or e (fill_event priced_as d e)) (events d)"
    and "filled = List.map_filter (fill_event priced_as d) (events d)"
  using assms by (auto simp: fill_def fill_events_def record_change_def Let_def split: if_splits)

lemma map_filter_map: "List.map_filter f (map g xs) = List.map_filter (\<lambda>x. f (g x)) xs"
  by (induction xs) (simp_all add: List.map_filter_simps split: option.split)

lemma reprice_priced:
  assumes "reprice now priced_as lo hi d = (cleared, priced, d')"
  shows "priced = List.map_filter (\<lambda>e. fill_event priced_as d (if in_range lo hi e then forget_cost d e else e)) (events d)"
proof -
  let ?d1 = "d\<lparr>events := update_where (in_range lo hi) (forget_cost d) (events d)\<rparr>"
  have "fill_event priced_as ?d1 e = fill_event priced_as d e" for e
    by (rule fill_event_cong) simp_all
  then have same: "fill_event priced_as ?d1 = fill_event priced_as d" by (simp add: fun_eq_iff)
  have "priced = List.map_filter (fill_event priced_as ?d1) (events ?d1)"
    using assms by (simp add: reprice_def fill_events_def Let_def)
  then show ?thesis unfolding same by (simp add: update_where_def map_filter_map)
qed

lemma in_map_filter: "x \<in> set xs \<Longrightarrow> f x = Some y \<Longrightarrow> y \<in> set (List.map_filter f xs)"
  by (induction xs) (auto simp: List.map_filter_simps split: option.split)

lemma price_event_fields [simp]:
  "e_usage (price_event p a e) = e_usage e" "e_source (price_event p a e) = e_source e"
  "e_account (price_event p a e) = e_account e" "e_price (price_event p a e) = Some (m_id p)"
  "e_list_cost (price_event p a e) = Some (list_cost (m_rates p) (e_usage e))"
  "e_billed_cost (price_event p a e) =
     or_else (e_billed_cost e) (Some (if a_auth a = OAuth then 0 else list_cost (m_rates p) (e_usage e)))"
  by (simp_all add: price_event_def Let_def)

text \<open>
  C39: when the events are filled, an event of a LiteLLM source without a cost, whose upstream said
  nothing of what it billed, is billed at the list cost of the price found for it (at nothing
  where the account is a flat-rate login). When a range is repriced later, with whatever prices,
  the event keeps that amount as if the upstream had set it: in the range its price and its list
  cost follow the prices as they are now and its billed cost does not, outside it nothing of it
  changes. Both operations rewrite each event in its place. A price applies to the event both
  times, its account and its source are stored, and no other statement writes events in between.
\<close>

theorem reprice_keeps_filled_billed_cost:
  assumes "fill now priced_as d = (filled, d1)" and "events d2 = events d1"
    and "reprice later priced_as lo hi d2 = (cleared, again, d3)"
    and "k < length (events d)" and "e = events d ! k"
    and "e_list_cost e = None" and "e_billed_cost e = None"
    and "chosen_price priced_as (prices d) e = Some p" and "account_by_id d (e_account e) = Some a"
    and "chosen_price priced_as (prices d2) e = Some q" and "account_by_id d2 (e_account e) = Some b"
    and "map_option s_kind (source_by_id d2 (e_source e)) = Some LiteLlm"
  shows "let e1 = events d1 ! k; e2 = events d3 ! k;
      billed = (if a_auth a = OAuth then 0 else list_cost (m_rates p) (e_usage e))
    in length (events d1) = length (events d) \<and> length (events d3) = length (events d) \<and>
       e1 = e\<lparr>e_price := Some (m_id p), e_list_cost := Some (list_cost (m_rates p) (e_usage e)),
              e_billed_cost := Some billed\<rparr> \<and> e1 \<in> set filled \<and>
       (if in_range lo hi e
        then e2 = e\<lparr>e_price := Some (m_id q), e_list_cost := Some (list_cost (m_rates q) (e_usage e)),
                    e_billed_cost := Some billed\<rparr> \<and> e2 \<in> set again
        else e2 = e1)"
proof -
  note f = fill_result [OF assms(1)] and r = reprice_events(1) [OF assms(3)] reprice_priced [OF assms(3)]
  let ?e1 = "price_event p a e"
  have f1: "fill_event priced_as d e = Some ?e1" using assms(6,8,9) by (simp add: fill_event_def)
  have e: "e \<in> set (events d)" using assms(4,5) by simp
  have e1: "events d1 ! k = ?e1" using assms(4,5) f1 by (simp add: f(1))
  have in_d2: "?e1 \<in> set (events d2)" using e1 assms(2,4) by (metis f(1) length_map nth_mem)
  have e2: "events d3 ! k = reprice_event priced_as d2 lo hi ?e1" using assms(2,4) e1 by (simp add: r(1) f(1))
  have lens: "length (events d1) = length (events d)" "length (events d3) = length (events d)"
    by (simp_all add: r(1) f(1) assms(2))
  have first: "?e1 \<in> set filled" unfolding f(2) by (rule in_map_filter [where f = "fill_event priced_as d", OF e f1])
  have range: "in_range lo hi ?e1 = in_range lo hi e" by (rule in_range_cong) simp
  let ?f = "forget_cost d2 ?e1"
  have forgot: "?f = ?e1\<lparr>e_price := None, e_list_cost := None\<rparr>" using assms(12) by (simp add: forget_cost_def)
  have "chosen_price priced_as (prices d2) ?f = Some q"
    using assms(10) chosen_price_cong [of ?f e] by simp
  then have f2: "fill_event priced_as d2 ?f = Some (price_event q b ?f)"
    using assms(11) by (simp add: fill_event_def) (simp add: forgot)
  have "price_event q b ?f \<in> set again" if "in_range lo hi e"
    unfolding r(2) using that range f2 by (intro in_map_filter [OF in_d2]) simp
  moreover have "reprice_event priced_as d2 lo hi ?e1 = (if in_range lo hi e then price_event q b ?f else ?e1)"
    using range f2 by (simp add: reprice_event_def Let_def fill_event_again(1) [OF f1])
  moreover have written: "?e1 = e\<lparr>e_price := Some (m_id p), e_list_cost := Some (list_cost (m_rates p) (e_usage e)),
      e_billed_cost := Some (if a_auth a = OAuth then 0 else list_cost (m_rates p) (e_usage e))\<rparr>"
    using assms(7) by (simp add: price_event_def Let_def or_else_def)
  moreover have "price_event q b ?f = e\<lparr>e_price := Some (m_id q), e_list_cost := Some (list_cost (m_rates q) (e_usage e)),
      e_billed_cost := Some (if a_auth a = OAuth then 0 else list_cost (m_rates p) (e_usage e))\<rparr>"
    unfolding forgot unfolding written by (simp add: price_event_def Let_def or_else_def)
  ultimately show ?thesis
    unfolding Let_def e1 e2 using lens first by (cases "in_range lo hi e") simp_all
qed

text \<open>The price of the model is corrected from 1 to 3 after the event was priced.\<close>

theorem reprice_keeps_filled_billed_cost_witness:
  "\<exists>filled d1 cleared again d3. fill 50 [] priced_db = (filled, d1) \<and>
     reprice 60 [] (Some 5) None (d1\<lparr>prices := [model_price 5 0 3]\<rparr>) = (cleared, again, d3) \<and>
     map (\<lambda>e. (e_list_cost e, e_billed_cost e)) (events d1) = [(Some 2, Some 2)] \<and>
     map (\<lambda>e. (e_list_cost e, e_billed_cost e)) (events d3) = [(Some 6, Some 2)]"
proof -
  let ?e = "hd (events priced_db)"
  obtain filled d1 where f: "fill 50 [] priced_db = (filled, d1)" by fastforce
  let ?d2 = "d1\<lparr>prices := [model_price 5 0 3]\<rparr>"
  obtain cleared again d3 where r: "reprice 60 [] (Some 5) None ?d2 = (cleared, again, d3)" by (metis prod_cases3)
  have d1: "accounts d1 = accounts priced_db" "sources d1 = sources priced_db"
    using f by (auto simp: fill_def fill_events_def record_change_def Let_def split: if_splits)
  note priced = priced_db_def chosen_price_def applies_def preference_def model_price_def sample_usage_def
  have k: "0 < length (events priced_db)" "?e = events priced_db ! 0" "e_list_cost ?e = None" "e_billed_cost ?e = None"
    by (simp_all add: priced_db_def)
  have p: "chosen_price [] (prices priced_db) ?e = Some (model_price 3 0 1)"
    "chosen_price [] (prices ?d2) ?e = Some (model_price 5 0 3)" by (simp_all add: priced)
  have a: "account_by_id priced_db (e_account ?e) = Some (hd (accounts priced_db))"
    "account_by_id ?d2 (e_account ?e) = Some (hd (accounts priced_db))"
    by (simp_all add: d1 account_by_id_def) (simp_all add: priced_db_def)
  have s: "map_option s_kind (source_by_id ?d2 (e_source ?e)) = Some LiteLlm"
    by (simp add: d1 source_by_id_def) (simp add: priced_db_def)
  have "events ?d2 = events d1" by simp
  from reprice_keeps_filled_billed_cost [OF f this r k(1,2) k(3,4) p(1) a(1) p(2) a(2) s]
  have m: "length (events d1) = 1" "length (events d3) = 1"
    "e_list_cost (events d1 ! 0) = Some 2" "e_billed_cost (events d1 ! 0) = Some 2"
    "e_list_cost (events d3 ! 0) = Some 6" "e_billed_cost (events d3 ! 0) = Some 2"
    by (simp_all add: Let_def priced_db_def model_price_def flat_rates_def list_cost_def sample_usage_def in_range_def)
  then have "map (\<lambda>e. (e_list_cost e, e_billed_cost e)) (events d1) = [(Some 2, Some 2)]"
    "map (\<lambda>e. (e_list_cost e, e_billed_cost e)) (events d3) = [(Some 6, Some 2)]"
    by (auto simp: list_eq_iff_nth_eq)
  then show ?thesis using f r by (intro exI conjI)
qed

text \<open>
  Without history the price list shows one row for every provider, model, tier, threshold
  and origin that has one: the row in force, the latest by its date and then by its id.
\<close>

theorem price_list_shows_row_in_force:
  assumes "distinct (map m_id (prices d))"
  shows "(let rows = list_prices d \<lparr>pf_model = None, pf_origin = None, pf_history = False\<rparr>
    in distinct (map price_slot rows) \<and> price_slot ` set rows = price_slot ` set (prices d) \<and>
       (p \<in> set rows \<longleftrightarrow> p \<in> set (prices d) \<and>
          (\<forall>q\<in>set (prices d). price_slot q = price_slot p \<longrightarrow>
             (m_effective_from q, m_id q) \<le> (m_effective_from p, m_id p))))"
proof -
  let ?rows = "list_prices d \<lparr>pf_model = None, pf_origin = None, pf_history = False\<rparr>"
  let ?age = "\<lambda>p. (m_effective_from p, m_id p)"
  have mem: "p \<in> set ?rows \<longleftrightarrow> p \<in> set (prices d) \<and>
      (\<forall>q\<in>set (prices d). price_slot q = price_slot p \<longrightarrow> ?age q \<le> ?age p)" for p
    by (auto simp: list_prices_def supersedes_def not_less)
  have uniq: "p = q" if "p \<in> set ?rows" "q \<in> set ?rows" "price_slot p = price_slot q" for p q
  proof -
    have "?age p = ?age q" using that mem by (metis order.antisym)
    then show ?thesis using that mem distinct_map_eqD [OF assms] by auto
  qed
  have "distinct (prices d)" using assms by (simp add: distinct_map)
  then have "distinct ?rows" by (simp add: list_prices_def)
  then have "distinct (map price_slot ?rows)" using uniq by (auto simp: distinct_map inj_on_def)
  moreover have "\<exists>r\<in>set ?rows. price_slot r = price_slot p" if p: "p \<in> set (prices d)" for p
  proof -
    let ?S = "{q \<in> set (prices d). price_slot q = price_slot p}"
    have fin: "finite (?age ` ?S)" "?age ` ?S \<noteq> {}" using p by auto
    then obtain r where r: "r \<in> ?S" "?age r = Max (?age ` ?S)"
      using Max_in [OF fin] by (metis (mono_tags, lifting) imageE)
    have "\<forall>q\<in>set (prices d). price_slot q = price_slot r \<longrightarrow> ?age q \<le> ?age r"
    proof (intro ballI impI)
      fix q assume "q \<in> set (prices d)" "price_slot q = price_slot r"
      then have "?age q \<in> ?age ` ?S" using r(1) by (intro imageI) simp
      then show "?age q \<le> ?age r" unfolding r(2) by (rule Max_ge [OF fin(1)])
    qed
    then have "r \<in> set ?rows" using r(1) by (intro iffD2 [OF mem]) simp
    then show ?thesis using r(1) by blast
  qed
  then have "price_slot ` set (prices d) \<subseteq> price_slot ` set ?rows" by (metis imageI image_subsetI)
  moreover have "set ?rows \<subseteq> set (prices d)" by (auto simp: list_prices_def)
  then have "price_slot ` set ?rows \<subseteq> price_slot ` set (prices d)" by (rule image_mono)
  ultimately show ?thesis unfolding Let_def by (intro conjI mem equalityI)
qed

theorem price_list_shows_row_in_force_witness:
  "model_price 3 5 2 \<in> set (list_prices (empty_db\<lparr>prices := [model_price 2 0 1, model_price 3 5 2]\<rparr>)
     \<lparr>pf_model = None, pf_origin = None, pf_history = False\<rparr>)"
  using price_list_shows_row_in_force
    [of "empty_db\<lparr>prices := [model_price 2 0 1, model_price 3 5 2]\<rparr>" "model_price 3 5 2"]
  by (simp add: model_price_def Let_def)

end
