(* ===== verification/Catalog.thy ===== *)
theory Catalog
  imports Prices
begin

text \<open>
  LiteLLM's model cost map (\<^verbatim>\<open>src/price/catalog.rs\<close>): the prices an entry of the map names,
  one per threshold and service tier, and the step that records each price that is new or
  changed. Fetching the map is outside the model; the map it answers is the argument. The
  identity of a new row is the parameter \<open>fresh\<close>, which maps the number of price rows there
  are to the identity minted for the next one.
\<close>

section \<open>The prices of a map\<close>

definition SAMPLE_ENTRY :: string where "SAMPLE_ENTRY = ''sample_spec''"

definition LONG_CONTEXT_PREFIX :: string where
  "LONG_CONTEXT_PREFIX = ''input_cost_per_token_above_''"

definition LONG_CONTEXT_SUFFIX :: string where "LONG_CONTEXT_SUFFIX = ''k_tokens''"

definition INCLUSIVE_THRESHOLD_PROVIDER :: string where
  "INCLUSIVE_THRESHOLD_PROVIDER = ''xai''"

definition SERVICE_TIERS :: "(string \<times> string option) list" where
  "SERVICE_TIERS =
     [([], None), (''_priority'', Some ''priority''), (''_flex'', Some ''flex''),
      (''_batches'', Some ''batch'')]"

record catalog_price =
  t_provider :: "string option"
  t_model :: string
  t_tier :: "string option"
  t_min_input_tokens :: int
  t_rates :: rates

type_synonym entry = "(string \<times> json) list"

definition per_million :: "rat \<Rightarrow> rat" where
  "per_million per_token = of_int (round_half_away (per_token * 1000000 * 1000000000)) / 1000000000"

definition named_rate :: "entry \<Rightarrow> string \<Rightarrow> string \<Rightarrow> rat option" where
  "named_rate e name tail =
     map_option per_million (Option.bind (map_of e (name @ tail)) as_f64)"

definition rate_tails :: "string \<Rightarrow> string \<Rightarrow> string list" where
  "rate_tails threshold tier = [threshold @ tier, threshold, tier, []]"

definition entry_rates :: "entry \<Rightarrow> string \<Rightarrow> string \<Rightarrow> rates option" where
  "entry_rates e threshold tier =
     (let price = (\<lambda>name. find_map (named_rate e name) (rate_tails threshold tier))
      in if tier \<noteq> [] \<and> named_rate e ''input_cost_per_token'' (threshold @ tier) = None \<and>
            named_rate e ''input_cost_per_token'' tier = None
         then None
         else case (price ''input_cost_per_token'', price ''output_cost_per_token'') of
           (Some input, Some output) \<Rightarrow>
             Some \<lparr>input_usd_per_mtok = input,
                   cached_input_usd_per_mtok = unwrap_or input (price ''cache_read_input_token_cost''),
                   cache_write_usd_per_mtok = unwrap_or input (price ''cache_creation_input_token_cost''),
                   output_usd_per_mtok = output\<rparr>
         | _ \<Rightarrow> None)"

definition long_context_thousands :: "string \<Rightarrow> int option" where
  "long_context_thousands key =
     Option.bind (Option.bind (strip_prefix LONG_CONTEXT_PREFIX key) (strip_suffix LONG_CONTEXT_SUFFIX))
       parse_i64"

definition thresholds :: "entry \<Rightarrow> (string \<times> int) list" where
  "thresholds e =
     (let past_threshold =
            (if Option.bind (map_of e ''litellm_provider'') as_str \<noteq> Some INCLUSIVE_THRESHOLD_PROVIDER
             then 1 else 0)
      in ([], 0) #
         List.map_filter
           (\<lambda>(key, _). map_option
              (\<lambda>thousands. (''_above_'' @ show_int thousands @ LONG_CONTEXT_SUFFIX,
                            wrap_i64 (thousands * 1000 + past_threshold)))
              (long_context_thousands key))
           e)"

text \<open>A range bound may be written as a float; its integral text is read.\<close>

definition tokens :: "json \<Rightarrow> int option" where
  "tokens bound =
     or_else (as_i64 bound)
       (Option.bind (as_f64 bound) (\<lambda>x. filter_option in_i64 (Some (round_half_even x))))"

definition tier_start :: "entry \<Rightarrow> int option" where
  "tier_start tier =
     map_option (\<lambda>start. wrap_i64 (start + (if 0 < start then 1 else 0)))
       (Option.bind (Option.bind (map_of tier ''range'') as_array)
         (\<lambda>range. case range of [] \<Rightarrow> None | b # _ \<Rightarrow> tokens b))"

definition add_tier ::
  "string option \<Rightarrow> string \<Rightarrow> catalog_price list \<Rightarrow> entry \<Rightarrow> catalog_price list" where
  "add_tier provider model found tier =
     (case tier_start tier of
        None \<Rightarrow> found
      | Some start \<Rightarrow>
          (case filter_option
                  (\<lambda>_. \<not> (\<exists>p\<in>set found. t_tier p = None \<and> t_min_input_tokens p = start))
                  (entry_rates tier [] []) of
             None \<Rightarrow> found
           | Some r \<Rightarrow> found @ [\<lparr>t_provider = provider, t_model = model, t_tier = None,
                                  t_min_input_tokens = start, t_rates = r\<rparr>]))"

definition threshold_prices :: "string option \<Rightarrow> string \<Rightarrow> entry \<Rightarrow> catalog_price list" where
  "threshold_prices provider model e =
     List.map_filter
       (\<lambda>((threshold, start), (suffix, tier)).
          map_option (\<lambda>r. \<lparr>t_provider = provider, t_model = model, t_tier = tier,
                           t_min_input_tokens = start, t_rates = r\<rparr>)
            (entry_rates e threshold suffix))
       (List.product (thresholds e) SERVICE_TIERS)"

definition entry_prices :: "string \<Rightarrow> entry \<Rightarrow> catalog_price list" where
  "entry_prices model e =
     (let provider = Option.bind (map_of e ''litellm_provider'') as_str;
          base = threshold_prices provider model e;
          tiers = List.map_filter as_object
            (unwrap_or [] (Option.bind (map_of e ''tiered_pricing'') as_array))
      in foldl (add_tier provider model) base tiers)"

definition catalog_of :: "entry \<Rightarrow> catalog_price list" where
  "catalog_of m =
     concat (map (\<lambda>(model, e).
         if model = SAMPLE_ENTRY then []
         else case e of JObject inner \<Rightarrow> entry_prices model inner | _ \<Rightarrow> [])
       m)"

section \<open>Recording\<close>

type_synonym known_key = "string option \<times> string \<times> string option \<times> int"

definition price_key :: "price_row \<Rightarrow> known_key" where
  "price_key p = (m_provider p, m_model p, m_tier p, m_min_input_tokens p)"

definition catalog_key :: "catalog_price \<Rightarrow> known_key" where
  "catalog_key p = (t_provider p, t_model p, t_tier p, t_min_input_tokens p)"

text \<open>The rates last recorded for each key, over the rows in order of date and identity.\<close>

definition known_rates :: "origin \<Rightarrow> price_row list \<Rightarrow> (known_key \<times> rates) list" where
  "known_rates origin rows =
     collect_map (map (\<lambda>p. (price_key p, m_rates p))
       (sort_key (\<lambda>p. (m_effective_from p, m_id p)) (filter (\<lambda>p. m_origin p = origin) rows)))"

record sync_report =
  sr_inserted :: int
  sr_unchanged :: int
  sr_failed :: "string list"

record recording =
  rc_rows :: "price_row list"
  rc_latest :: "(known_key \<times> rates) list"
  rc_changed :: "string list"
  rc_report :: sync_report

definition record_price ::
  "instant \<Rightarrow> (nat \<Rightarrow> id) \<Rightarrow> origin \<Rightarrow> catalog_price \<Rightarrow> recording \<Rightarrow> recording" where
  "record_price now fresh origin p st =
     (let key = catalog_key p; known = map_of (rc_latest st) key
      in if known = Some (t_rates p)
         then st\<lparr>rc_report := (rc_report st)\<lparr>sr_unchanged := sr_unchanged (rc_report st) + 1\<rparr>\<rparr>
         else
           let row = \<lparr>m_id = fresh (length (rc_rows st)), m_provider = t_provider p,
                 m_model = t_model p, m_tier = t_tier p, m_min_input_tokens = t_min_input_tokens p,
                 m_origin = origin, m_effective_from = (if known = None then 0 else now),
                 m_rates = t_rates p\<rparr>
           in st\<lparr>rc_rows := rc_rows st @ [row],
                 rc_latest := AList.update key (t_rates p) (rc_latest st),
                 rc_changed := rc_changed st @ [t_model p],
                 rc_report := (rc_report st)\<lparr>sr_inserted := sr_inserted (rc_report st) + 1\<rparr>\<rparr>)"

definition record_catalog ::
  "instant \<Rightarrow> (nat \<Rightarrow> id) \<Rightarrow> origin \<Rightarrow> catalog_price list \<Rightarrow> sync_report \<Rightarrow> db \<Rightarrow> sync_report \<times> db" where
  "record_catalog now fresh origin catalog report d =
     (let st = fold (record_price now fresh origin) catalog
            \<lparr>rc_rows = prices d, rc_latest = known_rates origin (prices d), rc_changed = [],
             rc_report = report\<rparr>
      in (rc_report st,
          record_changes now (map SPrice (collect_set (rc_changed st))) (d\<lparr>prices := rc_rows st\<rparr>)))"

text \<open>Each configured map as it was fetched: a map that could not be read is only reported.\<close>

fun sync_maps ::
  "instant \<Rightarrow> (nat \<Rightarrow> id) \<Rightarrow> (origin \<times> catalog_price list option) list \<Rightarrow> sync_report \<Rightarrow> db \<Rightarrow>
     sync_report \<times> db" where
  "sync_maps now fresh [] report d = (report, d)"
| "sync_maps now fresh ((origin, fetched) # maps) report d =
     (case fetched of
        Some catalog \<Rightarrow>
          (let (report', d') = record_catalog now fresh origin catalog report d
           in sync_maps now fresh maps report' d')
      | None \<Rightarrow>
          sync_maps now fresh maps
            (report\<lparr>sr_failed := sr_failed report @ [origin_stored origin]\<rparr>) d)"

definition sync_catalog ::
  "instant \<Rightarrow> (nat \<Rightarrow> id) \<Rightarrow> (string \<times> string) list \<Rightarrow>
     (origin \<times> catalog_price list option) list \<Rightarrow> db \<Rightarrow> sync_report \<times> db" where
  "sync_catalog now fresh priced_as maps d =
     (let (report, d') = sync_maps now fresh maps
            \<lparr>sr_inserted = 0, sr_unchanged = 0, sr_failed = []\<rparr> d
      in (report, snd (fill now priced_as d')))"

section \<open>Lemmas\<close>

abbreviation age :: "price_row \<Rightarrow> instant \<times> id" where
  "age \<equiv> (\<lambda>p. (m_effective_from p, m_id p))"

definition slot_rows :: "origin \<Rightarrow> known_key \<Rightarrow> price_row list \<Rightarrow> price_row list" where
  "slot_rows origin k rows = filter (\<lambda>p. m_origin p = origin \<and> price_key p = k) rows"

lemma known_rates_lookup:
  "map_of (known_rates origin rows) k =
     (case rev (sort_key age (slot_rows origin k rows)) of [] \<Rightarrow> None | p # _ \<Rightarrow> Some (m_rates p))"
proof -
  let ?g = "\<lambda>p. (price_key p, m_rates p)"
  let ?rs = "sort_key age (filter (\<lambda>p. m_origin p = origin) rows)"
  have "filter (\<lambda>x. fst x = k) (map ?g ?rs) = map ?g (sort_key age (slot_rows origin k rows))"
    by (simp add: filter_map comp_def filter_sort slot_rows_def conj_commute)
  then have "map_of (known_rates origin rows) k =
      (case rev (map ?g (sort_key age (slot_rows origin k rows))) of [] \<Rightarrow> None | p # _ \<Rightarrow> Some (snd p))"
    by (simp only: known_rates_def map_of_collect_map map_of_rev_filter)
  then show ?thesis by (simp add: rev_map [symmetric] split: list.split)
qed

lemma known_rates_None_iff:
  "map_of (known_rates origin rows) k = None \<longleftrightarrow> slot_rows origin k rows = []"
proof -
  have "map_of (known_rates origin rows) k = None \<longleftrightarrow> rev (sort_key age (slot_rows origin k rows)) = []"
    by (simp add: known_rates_lookup split: list.split)
  then show ?thesis by (metis rev_is_Nil_conv set_empty set_sort)
qed

lemma known_rates_snoc:
  assumes "m_origin r = origin" and "\<And>p. p \<in> set (slot_rows origin (price_key r) rows) \<Longrightarrow> age p \<le> age r"
  shows "map_of (known_rates origin (rows @ [r])) k =
    (if k = price_key r then Some (m_rates r) else map_of (known_rates origin rows) k)"
proof (cases "k = price_key r")
  case True
  then have "slot_rows origin k (rows @ [r]) = slot_rows origin k rows @ [r]"
    using assms(1) by (simp add: slot_rows_def)
  moreover have "sort_key age (slot_rows origin k rows @ [r]) = sort_key age (slot_rows origin k rows) @ [r]"
    using assms(2) True by (intro sort_key_snoc) blast
  ultimately show ?thesis using True by (simp add: known_rates_lookup)
next
  case False
  then have "slot_rows origin k (rows @ [r]) = slot_rows origin k rows" by (simp add: slot_rows_def)
  then show ?thesis using False by (simp add: known_rates_lookup)
qed

definition recording_ok :: "instant \<Rightarrow> (nat \<Rightarrow> id) \<Rightarrow> origin \<Rightarrow> recording \<Rightarrow> bool" where
  "recording_ok now fresh origin st \<longleftrightarrow>
     map_of (rc_latest st) = map_of (known_rates origin (rc_rows st)) \<and>
     (\<forall>p\<in>set (rc_rows st). m_effective_from p \<le> now \<and> m_id p < fresh (length (rc_rows st)))"

lemma record_price_step:
  assumes "recording_ok now fresh origin st" and "strict_mono fresh" and "0 \<le> now"
  shows "recording_ok now fresh origin (record_price now fresh origin p st)"
    and "map_of (rc_latest (record_price now fresh origin p st)) =
           (map_of (rc_latest st))(catalog_key p \<mapsto> t_rates p)"
    and "\<exists>new. rc_rows (record_price now fresh origin p st) = rc_rows st @ new \<and>
           int (length new) = sr_inserted (rc_report (record_price now fresh origin p st)) - sr_inserted (rc_report st)"
proof -
  let ?st = "record_price now fresh origin p st"
  have "recording_ok now fresh origin ?st \<and>
    map_of (rc_latest ?st) = (map_of (rc_latest st))(catalog_key p \<mapsto> t_rates p) \<and>
    (\<exists>new. rc_rows ?st = rc_rows st @ new \<and>
       int (length new) = sr_inserted (rc_report ?st) - sr_inserted (rc_report st))"
  proof (cases "map_of (rc_latest st) (catalog_key p) = Some (t_rates p)")
    case True
    then have "?st = st\<lparr>rc_report := (rc_report st)\<lparr>sr_unchanged := sr_unchanged (rc_report st) + 1\<rparr>\<rparr>"
      by (simp add: record_price_def Let_def)
    then show ?thesis using assms(1) True by (simp add: recording_ok_def) (metis fun_upd_triv)
  next
    case False
    let ?known = "map_of (rc_latest st) (catalog_key p)"
    define row where "row = \<lparr>m_id = fresh (length (rc_rows st)), m_provider = t_provider p,
      m_model = t_model p, m_tier = t_tier p, m_min_input_tokens = t_min_input_tokens p,
      m_origin = origin, m_effective_from = (if ?known = None then 0 else now), m_rates = t_rates p\<rparr>"
    have st: "rc_rows ?st = rc_rows st @ [row]"
      "map_of (rc_latest ?st) = (map_of (rc_latest st))(catalog_key p \<mapsto> t_rates p)"
      "sr_inserted (rc_report ?st) = sr_inserted (rc_report st) + 1"
      using False by (simp_all add: record_price_def Let_def update_conv' row_def)
    have row: "price_key row = catalog_key p" "m_origin row = origin" "m_rates row = t_rates p"
      "m_id row = fresh (length (rc_rows st))" "m_effective_from row = (if ?known = None then 0 else now)"
      by (simp_all add: price_key_def catalog_key_def row_def)
    have "age q \<le> age row" if q: "q \<in> set (slot_rows origin (price_key row) (rc_rows st))" for q
    proof -
      have "?known \<noteq> None"
        using q assms(1) known_rates_None_iff [of origin "rc_rows st" "catalog_key p"] row(1)
        by (auto simp: recording_ok_def)
      moreover have "m_effective_from q \<le> now" "m_id q < fresh (length (rc_rows st))"
        using q assms(1) by (auto simp: recording_ok_def slot_rows_def)
      ultimately show ?thesis by (auto simp: row)
    qed
    then have snoc: "map_of (known_rates origin (rc_rows st @ [row])) k =
        (if k = catalog_key p then Some (t_rates p) else map_of (known_rates origin (rc_rows st)) k)" for k
      using known_rates_snoc [OF row(2), of "rc_rows st" k] row(1,3) by simp
    have "map_of (known_rates origin (rc_rows ?st)) k = map_of (rc_latest ?st) k" for k
      using assms(1) snoc by (simp add: st recording_ok_def)
    moreover have "fresh (length (rc_rows st)) < fresh (Suc (length (rc_rows st)))"
      using assms(2) by (simp add: strict_monoD)
    moreover from this have "\<forall>q\<in>set (rc_rows ?st). m_effective_from q \<le> now \<and>
        m_id q < fresh (length (rc_rows ?st))"
      using assms(1,3) by (auto simp: recording_ok_def st(1) row(4,5) intro: less_trans)
    ultimately have "recording_ok now fresh origin ?st"
      by (auto simp: recording_ok_def)
    then show ?thesis using st by simp
  qed
  then show "recording_ok now fresh origin ?st"
    "map_of (rc_latest ?st) = (map_of (rc_latest st))(catalog_key p \<mapsto> t_rates p)"
    "\<exists>new. rc_rows ?st = rc_rows st @ new \<and>
       int (length new) = sr_inserted (rc_report ?st) - sr_inserted (rc_report st)"
    by blast+
qed

lemma record_fold:
  assumes "strict_mono fresh" and "0 \<le> now" and "recording_ok now fresh origin st"
  shows "recording_ok now fresh origin (fold (record_price now fresh origin) ps st) \<and>
    map_of (rc_latest (fold (record_price now fresh origin) ps st)) k =
      or_else (map_of (rev (map (\<lambda>p. (catalog_key p, t_rates p)) ps)) k) (map_of (rc_latest st) k) \<and>
    (\<exists>new. rc_rows (fold (record_price now fresh origin) ps st) = rc_rows st @ new \<and>
       int (length new) = sr_inserted (rc_report (fold (record_price now fresh origin) ps st))
         - sr_inserted (rc_report st))"
  using assms(3)
proof (induction ps arbitrary: st)
  case Nil
  then show ?case by simp
next
  case (Cons p ps)
  note step = record_price_step [OF Cons.prems assms(1,2), of p]
  obtain new where "rc_rows (record_price now fresh origin p st) = rc_rows st @ new"
    "int (length new) = sr_inserted (rc_report (record_price now fresh origin p st)) - sr_inserted (rc_report st)"
    using step(3) by blast
  then show ?case using Cons.IH [OF step(1)] step(2)
    by (fastforce simp: or_else_def map_add_def split: option.splits)
qed

lemma record_fold_idle:
  assumes "\<forall>p\<in>set ps. map_of (rc_latest st) (catalog_key p) = Some (t_rates p)"
  shows "fold (record_price now fresh origin) ps st =
    st\<lparr>rc_report := (rc_report st)\<lparr>sr_unchanged := sr_unchanged (rc_report st) + int (length ps)\<rparr>\<rparr>"
  using assms
proof (induction ps arbitrary: st)
  case Nil
  then show ?case by simp
next
  case (Cons p ps)
  then have "record_price now fresh origin p st =
      st\<lparr>rc_report := (rc_report st)\<lparr>sr_unchanged := sr_unchanged (rc_report st) + 1\<rparr>\<rparr>"
    by (simp add: record_price_def Let_def)
  with Cons show ?case by (simp add: algebra_simps)
qed

lemma tiers_keep: "set found \<subseteq> set (foldl (add_tier provider model) found tiers)"
  by (induction tiers arbitrary: found) (force simp: add_tier_def split: option.splits)+

section \<open>Properties\<close>

text \<open>
  Recording a map leaves the latest rates of every key it names equal to the map's, adds
  rows and never edits or drops one, and counts them; recording the same map again, at any
  later time, inserts nothing, records no change and counts every price as unchanged.
\<close>

theorem record_catalog_settles:
  assumes "strict_mono fresh" and "0 \<le> now"
    and "\<forall>p\<in>set (prices d). m_effective_from p \<le> now \<and> m_id p < fresh (length (prices d))"
    and "\<forall>p\<in>set catalog. \<forall>q\<in>set catalog. catalog_key p = catalog_key q \<longrightarrow> t_rates p = t_rates q"
    and "record_catalog now fresh origin catalog report d = (report', d')"
  shows "(\<forall>p\<in>set catalog. map_of (known_rates origin (prices d')) (catalog_key p) = Some (t_rates p)) \<and>
    (\<exists>new. prices d' = prices d @ new \<and> int (length new) = sr_inserted report' - sr_inserted report) \<and>
    record_catalog later fresh' origin catalog report'' d' =
      (report''\<lparr>sr_unchanged := sr_unchanged report'' + int (length catalog)\<rparr>, d')"
proof -
  let ?st = "\<lparr>rc_rows = prices d, rc_latest = known_rates origin (prices d), rc_changed = [],
    rc_report = report\<rparr>"
  let ?st' = "fold (record_price now fresh origin) catalog ?st"
  have "recording_ok now fresh origin ?st" using assms(3) by (simp add: recording_ok_def)
  note f = record_fold [OF assms(1,2) this, of catalog]
  have d': "prices d' = rc_rows ?st'" "report' = rc_report ?st'"
    using assms(5) by (auto simp: record_catalog_def Let_def)
  have known: "map_of (known_rates origin (prices d')) (catalog_key p) = Some (t_rates p)"
    if p: "p \<in> set catalog" for p
  proof -
    let ?ps = "rev (map (\<lambda>p. (catalog_key p, t_rates p)) catalog)"
    have "(catalog_key p, t_rates p) \<in> set ?ps" using p by auto
    from weak_map_of_SomeI [OF this] obtain r where r: "map_of ?ps (catalog_key p) = Some r" by blast
    from map_of_SomeD [OF r] obtain q where "q \<in> set catalog" "catalog_key q = catalog_key p" "t_rates q = r"
      by auto
    then have "r = t_rates p" using p assms(4) by metis
    then have "map_of (rc_latest ?st') (catalog_key p) = Some (t_rates p)"
      using f [of "catalog_key p"] r by simp
    moreover have "map_of (rc_latest ?st') = map_of (known_rates origin (prices d'))"
      using f [of "catalog_key p"] by (simp add: recording_ok_def d')
    ultimately show ?thesis by simp
  qed
  have "record_catalog later fresh' origin catalog report'' d' =
      (report''\<lparr>sr_unchanged := sr_unchanged report'' + int (length catalog)\<rparr>, d')"
    using known by (simp add: record_catalog_def record_fold_idle collect_set_def)
  moreover have "\<exists>new. prices d' = prices d @ new \<and>
      int (length new) = sr_inserted report' - sr_inserted report"
    using f by (simp add: d')
  ultimately show ?thesis using known by blast
qed

text \<open>
  A long-context price of an entry, \<^verbatim>\<open>input_cost_per_token_above_<n>k_tokens\<close>, is
  catalogued with that input rate and starts at the first input token past the threshold, or
  at the threshold itself for the provider that bills it inclusively.
\<close>

theorem long_context_price_is_catalogued:
  assumes "map_of e (''input_cost_per_token_above_'' @ show_int n @ ''k_tokens'') = Some (JFloat x)"
    and "map_of e ''output_cost_per_token'' = Some (JFloat y)"
    and "0 \<le> n" and "n \<le> 10 ^ 15"
  shows "\<exists>p\<in>set (entry_prices model e).
    t_model p = model \<and> t_tier p = None \<and> input_usd_per_mtok (t_rates p) = per_million x \<and>
    t_min_input_tokens p =
      1000 * n + (if Option.bind (map_of e ''litellm_provider'') as_str = Some ''xai'' then 0 else 1)"
proof -
  let ?provider = "Option.bind (map_of e ''litellm_provider'') as_str"
  let ?key = "''input_cost_per_token_above_'' @ show_int n @ ''k_tokens''"
  let ?tail = "''_above_'' @ show_int n @ LONG_CONTEXT_SUFFIX"
  let ?past = "if ?provider \<noteq> Some INCLUSIVE_THRESHOLD_PROVIDER then 1 else 0 :: int"
  have "in_i64 n" "in_i64 (n * 1000 + ?past)" using assms(3,4) by (auto simp: in_i64_def)
  note small = parse_show_int [OF this(1)] wrap_i64_id [OF this(2)]
  have "long_context_thousands ?key = Some n"
    using small(1) by (simp add: long_context_thousands_def LONG_CONTEXT_PREFIX_def
        strip_prefix_def starts_with_iff strip_suffix_def ends_with_iff LONG_CONTEXT_SUFFIX_def)
  then have "(?tail, n * 1000 + ?past) \<in> set (thresholds e)"
    using map_of_SomeD [OF assms(1)] small(2)
    by (force simp: thresholds_def set_map_filter Let_def)
  then have slot: "((?tail, n * 1000 + ?past), ([], None)) \<in> set (List.product (thresholds e) SERVICE_TIERS)"
    by (simp add: SERVICE_TIERS_def)
  have "named_rate e ''input_cost_per_token'' ?tail = Some (per_million x)"
    using assms(1) by (simp add: named_rate_def LONG_CONTEXT_SUFFIX_def)
  moreover have "find_map (named_rate e ''output_cost_per_token'') (rate_tails ?tail []) \<noteq> None"
    using assms(2) by (simp add: rate_tails_def named_rate_def split: option.split)
  ultimately obtain r where r: "entry_rates e ?tail [] = Some r" "input_usd_per_mtok r = per_million x"
    by (auto simp: entry_rates_def rate_tails_def Let_def)
  let ?p = "\<lparr>t_provider = ?provider, t_model = model, t_tier = None,
    t_min_input_tokens = n * 1000 + ?past, t_rates = r\<rparr>"
  have "?p \<in> set (threshold_prices ?provider model e)"
    unfolding threshold_prices_def set_map_filter using r(1) by (intro CollectI bexI [OF _ slot]) simp
  then have "?p \<in> set (entry_prices model e)"
    unfolding entry_prices_def Let_def using tiers_keep by (rule set_mp [rotated])
  then show ?thesis using r(2)
    by (intro bexI [of _ ?p]) (simp_all add: INCLUSIVE_THRESHOLD_PROVIDER_def)
qed

definition sample_catalog :: "catalog_price list" where
  "sample_catalog =
     [\<lparr>t_provider = None, t_model = ''m'', t_tier = None, t_min_input_tokens = 0, t_rates = flat_rates 1\<rparr>,
      \<lparr>t_provider = None, t_model = ''m'', t_tier = None, t_min_input_tokens = 200001,
        t_rates = flat_rates 2\<rparr>]"

definition no_report :: sync_report where
  "no_report = \<lparr>sr_inserted = 0, sr_unchanged = 0, sr_failed = []\<rparr>"

theorem record_catalog_settles_witness:
  "\<exists>report d'. record_catalog 9 int LiteLlmPublic sample_catalog no_report empty_db = (report, d') \<and>
     record_catalog 10 int LiteLlmPublic sample_catalog no_report d' =
       (no_report\<lparr>sr_unchanged := sr_unchanged no_report + int (length sample_catalog)\<rparr>, d')"
proof -
  obtain report d' where
    r: "record_catalog 9 int LiteLlmPublic sample_catalog no_report empty_db = (report, d')" by fastforce
  have "strict_mono int" by (simp add: strict_mono_def)
  moreover have "\<forall>p\<in>set sample_catalog. \<forall>q\<in>set sample_catalog.
      catalog_key p = catalog_key q \<longrightarrow> t_rates p = t_rates q"
    by (simp add: sample_catalog_def catalog_key_def)
  moreover have "\<forall>p\<in>set (prices empty_db). m_effective_from p \<le> 9 \<and> m_id p < int (length (prices empty_db))"
    by (simp add: empty_db_def)
  moreover have "0 \<le> (9 :: int)" by simp
  ultimately have "record_catalog 10 int LiteLlmPublic sample_catalog no_report d' =
       (no_report\<lparr>sr_unchanged := sr_unchanged no_report + int (length sample_catalog)\<rparr>, d')"
    using record_catalog_settles [OF _ _ _ _ r] by blast
  then show ?thesis using r by blast
qed

theorem long_context_price_is_catalogued_witness:
  "\<exists>p\<in>set (entry_prices ''m'' [(''input_cost_per_token_above_200k_tokens'', JFloat 2),
       (''output_cost_per_token'', JFloat 3)]).
     t_min_input_tokens p = 200001 \<and> input_usd_per_mtok (t_rates p) = per_million 2"
proof -
  have "show_int 200 = ''200''" by code_simp
  then show ?thesis
    using long_context_price_is_catalogued [of
        "[(''input_cost_per_token_above_200k_tokens'', JFloat 2), (''output_cost_per_token'', JFloat 3)]"
        200 2 3 "''m''"] by fastforce
qed

end
