(* ===== verification/Plans.thy ===== *)
theory Plans
  imports Merging
begin

text \<open>
  Plans of \<^verbatim>\<open>src/plan/mod.rs\<close> with the checks of a new or edited plan, and the billing
  periods and leverage of \<^verbatim>\<open>src/plan/leverage.rs\<close>. A monthly price is kept as the bits of its
  f64, since the code compares prices bit for bit; its value is the exact rational the bits
  stand for. The calendar arithmetic of jiff is the parameter \<open>month\<close>: the instant that lies
  a number of months after the plan's start, when it is representable.
\<close>

unbundle bit_operations_syntax

section \<open>Prices as bits\<close>

definition f64_exponent :: "f64_bits \<Rightarrow> nat" where
  "f64_exponent b = unat (drop_bit 52 b AND 0x7FF)"

definition f64_mantissa :: "f64_bits \<Rightarrow> nat" where
  "f64_mantissa b = unat (b AND 0xFFFFFFFFFFFFF)"

definition f64_sign :: "f64_bits \<Rightarrow> bool" where
  "f64_sign b = bit b 63"

definition f64_finite :: "f64_bits \<Rightarrow> bool" where
  "f64_finite b = (f64_exponent b \<noteq> 2047)"

definition f64_value :: "f64_bits \<Rightarrow> rat" where
  "f64_value b =
     (let e = f64_exponent b; m = f64_mantissa b;
          magnitude = (if e = 0 then of_nat m / 2 ^ 1074
             else if 1075 \<le> e then of_nat (2 ^ 52 + m) * 2 ^ (e - 1075)
             else of_nat (2 ^ 52 + m) / 2 ^ (1075 - e))
      in if f64_sign b then - magnitude else magnitude)"

section \<open>Reading plans\<close>

record plan_output =
  po_row :: plan_row
  po_account :: account_row
  po_source_name :: string
  po_replaced_by :: "id option"

definition select_plans :: "db \<Rightarrow> plan_output list" where
  "select_plans d =
     [\<lparr>po_row = p, po_account = a, po_source_name = s_name s,
       po_replaced_by = map_of (replacements d) (a_id a)\<rparr>.
        p \<leftarrow> plans d, a \<leftarrow> accounts d, s \<leftarrow> sources d, a_id a = p_account p \<and> s_id s = a_source a]"

definition list_plans :: "db \<Rightarrow> plan_output list" where
  "list_plans d = sort_key (\<lambda>out. (p_start (po_row out), p_id (po_row out))) (select_plans d)"

definition read_plan :: "db \<Rightarrow> id \<Rightarrow> plan_output option" where
  "read_plan d i = find (\<lambda>out. p_id (po_row out) = i) (select_plans d)"

section \<open>Writing plans\<close>

datatype plan_error = BlankName | Price | EmptyPeriod | UnknownAccount

record new_plan =
  nl_account :: id
  nl_name :: string
  nl_monthly_usd :: f64_bits
  nl_start :: instant
  nl_end :: "instant option"

definition check_plan :: "new_plan \<Rightarrow> plan_error + unit" where
  "check_plan p =
     (if trim (nl_name p) = [] then Inl BlankName
      else if \<not> f64_finite (nl_monthly_usd p) \<or> f64_value (nl_monthly_usd p) < 0 then Inl Price
      else if (case nl_end p of None \<Rightarrow> False | Some e \<Rightarrow> e \<le> nl_start p) then Inl EmptyPeriod
      else Inr ())"

definition stored_plan :: "id \<Rightarrow> new_plan \<Rightarrow> plan_row" where
  "stored_plan i p = \<lparr>p_id = i, p_account = nl_account p, p_name = trim (nl_name p),
     p_monthly_usd = nl_monthly_usd p, p_start = nl_start p, p_end = nl_end p\<rparr>"

definition create_plan :: "instant \<Rightarrow> id \<Rightarrow> new_plan \<Rightarrow> db \<Rightarrow> (plan_error + plan_output) \<times> db" where
  "create_plan now i p d =
     (case check_plan p of
        Inl e \<Rightarrow> (Inl e, d)
      | Inr _ \<Rightarrow>
          if account_by_id d (nl_account p) = None then (Inl UnknownAccount, d)
          else let linked = replacements d; d1 = d\<lparr>plans := plans d @ [stored_plan i p]\<rparr>
               in case read_plan d1 i of
                    None \<Rightarrow> (Inl UnknownAccount, d)
                  | Some created \<Rightarrow> (Inr created, record_link_changes now linked [SPlan i] d1))"

record plan_change =
  pc_account :: "id option"
  pc_name :: "string option"
  pc_monthly_usd :: "f64_bits option"
  pc_start :: "instant option"
  pc_end :: "instant option option"

definition alters :: "plan_change \<Rightarrow> plan_output \<Rightarrow> bool" where
  "alters c current \<longleftrightarrow>
     (case pc_account c of None \<Rightarrow> False | Some i \<Rightarrow> i \<noteq> a_id (po_account current)) \<or>
     (case pc_name c of None \<Rightarrow> False | Some n \<Rightarrow> trim n \<noteq> p_name (po_row current)) \<or>
     (case pc_monthly_usd c of None \<Rightarrow> False | Some m \<Rightarrow> m \<noteq> p_monthly_usd (po_row current)) \<or>
     (case pc_start c of None \<Rightarrow> False | Some t \<Rightarrow> t \<noteq> p_start (po_row current)) \<or>
     (case pc_end c of None \<Rightarrow> False | Some e \<Rightarrow> e \<noteq> p_end (po_row current))"

definition changed_plan :: "plan_change \<Rightarrow> plan_output \<Rightarrow> new_plan" where
  "changed_plan c current =
     \<lparr>nl_account = unwrap_or (a_id (po_account current)) (pc_account c),
      nl_name = unwrap_or (p_name (po_row current)) (pc_name c),
      nl_monthly_usd = unwrap_or (p_monthly_usd (po_row current)) (pc_monthly_usd c),
      nl_start = unwrap_or (p_start (po_row current)) (pc_start c),
      nl_end = unwrap_or (p_end (po_row current)) (pc_end c)\<rparr>"

definition update_plan ::
  "instant \<Rightarrow> id \<Rightarrow> plan_change \<Rightarrow> db \<Rightarrow> (plan_error + plan_output option) \<times> db" where
  "update_plan now i c d =
     (case read_plan d i of
        None \<Rightarrow> (Inr None, d)
      | Some current \<Rightarrow>
          if \<not> alters c current then (Inr (Some current), d)
          else let p = changed_plan c current
               in case check_plan p of
                    Inl e \<Rightarrow> (Inl e, d)
                  | Inr _ \<Rightarrow>
                      if account_by_id d (nl_account p) = None then (Inl UnknownAccount, d)
                      else let linked = replacements d;
                               d1 = d\<lparr>plans := update_where (\<lambda>r. p_id r = i) (\<lambda>_. stored_plan i p) (plans d)\<rparr>
                           in (Inr (read_plan d1 i), record_link_changes now linked [SPlan i] d1))"

definition delete_plan :: "instant \<Rightarrow> id \<Rightarrow> db \<Rightarrow> bool \<times> db" where
  "delete_plan now i d =
     (let linked = replacements d
      in if count_where (\<lambda>r. p_id r = i) (plans d) = 0 then (False, d)
         else (True, record_link_changes now linked [SPlan i]
                       (d\<lparr>plans := delete_where (\<lambda>r. p_id r = i) (plans d)\<rparr>)))"

section \<open>Billing periods\<close>

partial_function (option) periods_from ::
  "(int \<Rightarrow> instant option) \<Rightarrow> instant option \<Rightarrow> instant \<Rightarrow> int \<Rightarrow> (instant \<times> instant) list option" where
  "periods_from month stop now index =
     (case month index of
        None \<Rightarrow> Some []
      | Some start \<Rightarrow>
          if now < start \<or> (case stop of None \<Rightarrow> False | Some e \<Rightarrow> e \<le> start) then Some []
          else case month (index + 1) of
            None \<Rightarrow> Some []
          | Some next \<Rightarrow>
              Option.bind (periods_from month stop now (index + 1))
                (\<lambda>rest. Some ((start, case stop of None \<Rightarrow> next | Some e \<Rightarrow> min e next) # rest)))"

definition plan_periods ::
  "(int \<Rightarrow> instant option) \<Rightarrow> plan_row \<Rightarrow> instant \<Rightarrow> (instant \<times> instant) list option" where
  "plan_periods month p now = periods_from month (p_end p) now 0"

record billing_period =
  bp_start :: instant
  bp_end :: instant
  bp_complete :: bool
  bp_requests :: nat
  bp_total_tokens :: int
  bp_list_cost :: rat
  bp_leverage :: "rat option"
  bp_effective_usd_per_mtok :: "rat option"

definition period_events :: "db \<Rightarrow> plan_output \<Rightarrow> instant \<times> instant \<Rightarrow> event_row list" where
  "period_events d out period =
     filter (\<lambda>e. (e_account e = a_id (po_account out) \<or> po_replaced_by out = Some (e_account e)) \<and>
         fst period \<le> u_occurred_at (e_usage e) \<and> u_occurred_at (e_usage e) < snd period)
       (events d)"

definition period_report :: "db \<Rightarrow> plan_output \<Rightarrow> instant \<Rightarrow> instant \<times> instant \<Rightarrow> billing_period" where
  "period_report d out now period =
     (let es = period_events d out period;
          price = f64_value (p_monthly_usd (po_row out));
          total = sum_list (map (u_total_tokens \<circ> e_usage) es);
          cost = sum_list (map (unwrap_or 0 \<circ> e_list_cost) es)
      in \<lparr>bp_start = fst period, bp_end = snd period, bp_complete = (snd period \<le> now),
          bp_requests = length es, bp_total_tokens = total, bp_list_cost = cost,
          bp_leverage = (if 0 < price then Some (cost / price) else None),
          bp_effective_usd_per_mtok =
            (if 0 < total then Some (price * 1000000 / of_int total) else None)\<rparr>)"

text \<open>The latest periods of a plan, newest first; \<open>month\<close> takes the start it counts from.\<close>

definition plan_leverage ::
  "(instant \<Rightarrow> int \<Rightarrow> instant option) \<Rightarrow> db \<Rightarrow> nat \<Rightarrow> instant \<Rightarrow> plan_output \<Rightarrow> billing_period list option" where
  "plan_leverage month d n now out =
     map_option (\<lambda>ps. map (period_report d out now) (take n (rev ps)))
       (plan_periods (month (p_start (po_row out))) (po_row out) now)"

section \<open>The invariant of the plans\<close>

definition plan_ok :: "plan_row \<Rightarrow> bool" where
  "plan_ok p \<longleftrightarrow>
     p_name p \<noteq> [] \<and> trim (p_name p) = p_name p \<and>
     f64_finite (p_monthly_usd p) \<and> 0 \<le> f64_value (p_monthly_usd p) \<and>
     (case p_end p of None \<Rightarrow> True | Some e \<Rightarrow> p_start p < e)"

definition plans_ok :: "db \<Rightarrow> bool" where
  "plans_ok d \<longleftrightarrow> (\<forall>p\<in>set (plans d). plan_ok p \<and> account_by_id d (p_account p) \<noteq> None)"

text \<open>The accounts the plans lie on are in order, and each one's source is stored.\<close>

definition accounts_placed :: "db \<Rightarrow> bool" where
  "accounts_placed d \<longleftrightarrow>
     accounts_ok (accounts d) \<and> (\<forall>a\<in>set (accounts d). \<exists>s\<in>set (sources d). s_id s = a_source a)"

text \<open>Every statement of the program that writes a plan: three of its own, and an account's merge.\<close>

datatype plan_write = Create id new_plan | Update id plan_change | Delete id | Merge id id bool

fun plan_step :: "instant \<Rightarrow> plan_write \<Rightarrow> db \<Rightarrow> bool \<times> db" where
  "plan_step now (Create i p) d = (let (r, d') = create_plan now i p d in (\<not> isl r, d'))"
| "plan_step now (Update i c) d = (let (r, d') = update_plan now i c d in (\<not> isl r, d'))"
| "plan_step now (Delete i) d = delete_plan now i d"
| "plan_step now (Merge i into req) d = (let (r, d') = merge now i into req d in (\<not> isl r, d'))"

definition plan_run :: "(instant \<times> plan_write) list \<Rightarrow> db \<Rightarrow> db" where
  "plan_run ws d = fold (\<lambda>(now, w) d. snd (plan_step now w d)) ws d"

lemma check_plan_ok: "check_plan p = Inr u \<Longrightarrow> plan_ok (stored_plan i p)"
  by (auto simp: check_plan_def plan_ok_def stored_plan_def split: if_splits option.splits)

lemma plans_ok_plans:
  assumes "plans_ok d" and "accounts d' = accounts d"
    and "\<And>p. p \<in> set (plans d') \<Longrightarrow> p \<in> set (plans d) \<or> plan_ok p \<and> account_by_id d (p_account p) \<noteq> None"
  shows "plans_ok d'"
  using assms unfolding plans_ok_def account_by_id_def by metis

lemma record_link_changes_fields [simp]:
  "accounts (record_link_changes now before ss d) = accounts d"
  "plans (record_link_changes now before ss d) = plans d"
  "sources (record_link_changes now before ss d) = sources d"
  "credentials (record_link_changes now before ss d) = credentials d"
  "dismissals (record_link_changes now before ss d) = dismissals d"
  "events (record_link_changes now before ss d) = events d"
  by (simp_all add: record_link_changes_def)

lemma stored_plan_account [simp]: "p_account (stored_plan i p) = nl_account p" "p_id (stored_plan i p) = i"
  by (simp_all add: stored_plan_def)

lemma record_link_changes_placed [simp]:
  "accounts_placed (record_link_changes now before ss d) = accounts_placed d"
  by (simp add: accounts_placed_def)

lemma accounts_placed_cong:
  "accounts d' = accounts d \<Longrightarrow> sources d' = sources d \<Longrightarrow> accounts_placed d' = accounts_placed d"
  by (simp add: accounts_placed_def)

lemma move_plan_fields [simp]:
  "plan_ok (move_plan into p) = plan_ok p" "p_account (move_plan into p) = into"
  by (simp_all add: plan_ok_def move_plan_def split: option.split)

lemma plan_merge_ok:
  assumes ok: "plans_ok d" and placed: "accounts_placed d" and m: "merge now i into req d = (r, d')"
  shows "plans_ok d' \<and> accounts_placed d' \<and> (isl r \<longrightarrow> d' = d)"
proof (cases "merge_guard d i into req")
  case (Inl e)
  then show ?thesis using assms by (simp add: merge_def)
next
  case (Inr merged)
  obtain target where g: "merged \<in> set (accounts d)" "target \<in> set (accounts d)" "a_id merged = i"
    "a_id target = into" "i \<noteq> into" "a_source merged = a_source target" "a_merged merged = None"
    "a_merged target = None" using merge_guard_Inr [OF Inr] by metis
  note res = merge_result [OF m Inr]
  have aok: "accounts_ok (accounts d)" using placed by (simp add: accounts_placed_def)
  have aok': "accounts_ok (accounts d')" unfolding res(1) by (rule merge_accounts_ok [OF aok g(1-8)])
  have placed': "accounts_placed d'"
    using placed aok' by (auto simp: accounts_placed_def res(1,4) merge_accounts_map)
  have kept: "account_by_id d' j \<noteq> None" if "j \<in> a_id ` set (accounts d)" for j
    using that by (auto simp: account_by_id_def find_None_iff res(1) merge_accounts_map)
  have "account_by_id d j \<noteq> None \<Longrightarrow> j \<in> a_id ` set (accounts d)" for j
    by (auto dest: account_by_id_Some)
  moreover have "into \<in> a_id ` set (accounts d)" using g(2,4) by blast
  ultimately have "plans_ok d'"
    using ok kept by (auto simp: plans_ok_def res(3) row_simps)
  moreover have "\<exists>out. load_account d' into = Some out"
  proof -
    let ?t = "merge_row i into merged target"
    have t: "?t \<in> set (accounts d')" "a_id ?t = into" using g by (auto simp: res(1) merge_accounts_map)
    then obtain s where "s \<in> set (sources d')" "s_id s = a_source ?t"
      using placed' by (auto simp: accounts_placed_def)
    from load_account_Some [OF accounts_okD(1) [OF aok'] t(1) this] show ?thesis using t(2) by auto
  qed
  then have "\<not> isl r" by (auto simp: res(6) ok_or_def)
  ultimately show ?thesis using placed' by simp
qed

lemma plan_step_ok:
  assumes "plans_ok d" and "accounts_placed d" and "plan_step now w d = (r, d')"
  shows "plans_ok d' \<and> accounts_placed d' \<and> (\<not> r \<longrightarrow> d' = d)"
proof (cases w)
  case (Create i p)
  show ?thesis
  proof (cases "d' = d")
    case False
    then have "check_plan p = Inr ()" "account_by_id d (nl_account p) \<noteq> None" "r"
      "plans d' = plans d @ [stored_plan i p]" "accounts d' = accounts d" "sources d' = sources d"
      using assms(3) Create
      by (auto simp: create_plan_def Let_def split: sum.splits if_splits option.splits prod.splits)
    moreover from this have "plans_ok d'"
      by (intro plans_ok_plans [OF assms(1)]) (auto intro: check_plan_ok)
    ultimately show ?thesis using assms(2) accounts_placed_cong [of d' d] by simp
  qed (use assms(1,2) in simp)
next
  case (Update i c)
  show ?thesis
  proof (cases "d' = d")
    case False
    then obtain p where "check_plan p = Inr ()" "account_by_id d (nl_account p) \<noteq> None" "r"
      "plans d' = update_where (\<lambda>r. p_id r = i) (\<lambda>_. stored_plan i p) (plans d)"
      "accounts d' = accounts d" "sources d' = sources d"
      using assms(3) Update
      by (auto simp: update_plan_def Let_def split: sum.splits if_splits option.splits prod.splits)
    moreover from this have "plans_ok d'"
      by (intro plans_ok_plans [OF assms(1)]) (auto simp: row_simps intro: check_plan_ok)
    ultimately show ?thesis using assms(2) accounts_placed_cong [of d' d] by simp
  qed (use assms(1,2) in simp)
next
  case (Delete i)
  then show ?thesis using assms plans_ok_plans [OF assms(1), of d'] accounts_placed_cong [of d' d]
    by (auto simp: delete_plan_def Let_def row_simps split: if_splits)
next
  case (Merge i into req)
  obtain m e where m: "merge now i into req d = (m, e)" by fastforce
  then have "r = (\<not> isl m)" "d' = e" using assms(3) Merge by simp_all
  then show ?thesis using plan_merge_ok [OF assms(1,2) m] by auto
qed

lemma select_plans_row:
  assumes "out \<in> set (select_plans d)"
  shows "po_row out \<in> set (plans d)" and "po_account out \<in> set (accounts d)"
    and "a_id (po_account out) = p_account (po_row out)"
  using assms unfolding select_plans_def in_comprehension by (elim bexE conjE, simp)+

lemma select_plans_cong:
  assumes "plans d' = plans d" and "accounts d' = accounts d" and "sources d' = sources d"
    and "credentials d' = credentials d" and "dismissals d' = dismissals d"
  shows "read_plan d' i = read_plan d i"
proof -
  have "dismissed d' = dismissed d" "has_plan d' = has_plan d" "is_replacement d' = is_replacement d"
    using assms by (simp_all add: fun_eq_iff dismissed_def has_plan_def is_replacement_def rivals_def)
  moreover from this have "may_continue d' = may_continue d"
    by (simp add: fun_eq_iff may_continue_def)
  ultimately have "continuation_list d' None = continuation_list d None"
    by (simp only: continuation_list_def continuations_def assms)
  then have "replacements d' = replacements d" by (simp only: replacements_def)
  then show ?thesis using assms by (simp only: read_plan_def select_plans_def)
qed

section \<open>Properties\<close>

text \<open>
  C4: whatever writes reach the plans, in whatever order (a plan is created, edited or deleted, or
  its account is merged into another), every stored plan keeps a trimmed name that is not blank, a
  finite price that is not negative, an end after its start and an account that exists; a write
  that is refused changes nothing. The accounts are in order and their sources stored to begin
  with, and they are so afterwards.
\<close>

theorem plans_stay_valid:
  assumes "plans_ok d" and "accounts_placed d" and "plan_step now w (plan_run ws d) = (r, d')"
  shows "plans_ok d' \<and> accounts_placed d' \<and> (\<not> r \<longrightarrow> d' = plan_run ws d)"
proof -
  have "plans_ok (plan_run ws d) \<and> accounts_placed (plan_run ws d)"
    using assms(1,2) unfolding plan_run_def
  proof (induction ws arbitrary: d)
    case Nil
    then show ?case by simp
  next
    case (Cons x ws)
    obtain t w where x: "x = (t, w)" by (cases x)
    have "plans_ok (snd (plan_step t w d)) \<and> accounts_placed (snd (plan_step t w d))"
      using plan_step_ok [OF Cons.prems, of t w] by (metis prod.collapse)
    then show ?case using Cons.IH x by simp
  qed
  then show ?thesis using assms(3) plan_step_ok by blast
qed

text \<open>
  Editing a plan is idempotent. Once a change is in place, making it again answers the
  same plan, rewrites nothing and records nothing.
\<close>

theorem plan_update_idempotent:
  assumes "update_plan now i c d = (Inr answer, d')"
  shows "update_plan later i c d' = (Inr answer, d')"
proof (cases "read_plan d i")
  case None
  then show ?thesis using assms by (auto simp: update_plan_def)
next
  case (Some current)
  show ?thesis
  proof (cases "alters c current")
    case False
    then have "answer = Some current" "d' = d" using assms Some by (simp_all add: update_plan_def)
    then show ?thesis using False Some by (simp add: update_plan_def)
  next
    case True
    let ?p = "changed_plan c current"
    let ?d1 = "d\<lparr>plans := update_where (\<lambda>r. p_id r = i) (\<lambda>_. stored_plan i ?p) (plans d)\<rparr>"
    have answer: "answer = read_plan ?d1 i"
      and d': "d' = record_link_changes now (replacements d) [SPlan i] ?d1"
      using assms Some True
      by (auto simp: update_plan_def Let_def split: sum.splits if_splits)
    have again: "read_plan d' i = answer"
      unfolding answer d' by (rule select_plans_cong) simp_all
    show ?thesis
    proof (cases answer)
      case None
      then have "read_plan d' i = None" using again by simp
      then show ?thesis by (simp add: update_plan_def None)
    next
      case (Some out)
      then have "out \<in> set (select_plans ?d1)" "p_id (po_row out) = i"
        using answer find_Some_set [of "\<lambda>out. p_id (po_row out) = i" "select_plans ?d1" out]
        by (auto simp: read_plan_def)
      then have "po_row out = stored_plan i ?p" "a_id (po_account out) = p_account (po_row out)"
        using select_plans_row [of out ?d1] by (auto simp: row_simps)
      then have "\<not> alters c out"
        by (auto simp: alters_def stored_plan_def changed_plan_def split: option.splits)
      moreover have "read_plan d' i = Some out" using again Some by simp
      ultimately show ?thesis by (simp add: update_plan_def Some)
    qed
  qed
qed


definition sample_change :: plan_change where
  "sample_change = \<lparr>pc_account = None, pc_name = Some '' Pro '', pc_monthly_usd = None,
     pc_start = None, pc_end = None\<rparr>"

text \<open>A plan of the first of two accounts is created, renamed, and follows its account into the second.\<close>

definition home_plan :: new_plan where
  "home_plan = \<lparr>nl_account = 1, nl_name = '' Max '', nl_monthly_usd = 0, nl_start = 5, nl_end = Some 9\<rparr>"

definition home_db :: "id \<Rightarrow> string list \<Rightarrow> db" where
  "home_db owner names = merge_db
     \<lparr>events := [], accounts := take 2 (accounts merge_db),
      plans := (if names = [] then [] else [\<lparr>p_id = 8, p_account = owner, p_name = last names, p_monthly_usd = 0,
        p_start = 5, p_end = Some 9\<rparr>]),
      changes := map (\<lambda>k. \<lparr>h_cursor = int k + 1, h_kind = ''plan.changed'', h_account = None, h_window = None,
        h_model = None, h_plan = Some 8, h_failed = None, h_recorded_at = int k + 1\<rparr>) [0..<length names],
      change_seq := int (length names)\<rparr>"

lemma home_created: "plan_step 1 (Create 8 home_plan) (home_db 1 []) = (True, home_db 1 [''Max''])"
  by code_simp

lemma home_renamed: "plan_step 2 (Update 8 sample_change) (home_db 1 [''Max'']) = (True, home_db 1 [''Max'', ''Pro''])"
  by code_simp

theorem plans_stay_valid_witness:
  "\<exists>d'. plan_step 3 (Merge 1 2 False)
       (plan_run [(1, Create 8 home_plan), (2, Update 8 sample_change)] (home_db 1 [])) = (True, d') \<and>
     plans_ok d' \<and>
     plans d' = [\<lparr>p_id = 8, p_account = 2, p_name = ''Pro'', p_monthly_usd = 0, p_start = 5, p_end = Some 9\<rparr>]"
proof -
  let ?ws = "[(1, Create 8 home_plan), (2, Update 8 sample_change)]"
  have run: "plan_run ?ws (home_db 1 []) = home_db 1 [''Max'', ''Pro'']"
    by (simp add: plan_run_def home_created home_renamed del: plan_step.simps)
  have "plans_ok (home_db 1 [])" by (simp add: plans_ok_def home_db_def)
  moreover have "accounts_placed (home_db 1 [])"
    by (simp add: accounts_placed_def accounts_ok_def merge_target_ok_def home_db_def merge_db_def empty_db_def
        home_account_def)
  moreover obtain r d' where s: "plan_step 3 (Merge 1 2 False) (plan_run ?ws (home_db 1 [])) = (r, d')" by fastforce
  ultimately have "plans_ok d'" using plans_stay_valid by blast
  moreover have "map_prod id plans (plan_step 3 (Merge 1 2 False) (home_db 1 [''Max'', ''Pro''])) =
      (True, [\<lparr>p_id = 8, p_account = 2, p_name = ''Pro'', p_monthly_usd = 0, p_start = 5, p_end = Some 9\<rparr>])"
    by code_simp
  ultimately show ?thesis using s by (simp add: run)
qed

theorem plan_update_idempotent_witness:
  "\<exists>answer d'. update_plan 1 5 sample_change sample_credentials = (Inr answer, d') \<and>
     update_plan 2 5 sample_change d' = (Inr answer, d')"
proof -
  obtain r d' where r: "update_plan 1 5 sample_change sample_credentials = (r, d')" by fastforce
  have "\<not> isl (fst (update_plan 1 5 sample_change sample_credentials))" by code_simp
  then obtain answer where "r = Inr answer" using r by (cases r) auto
  then show ?thesis using r plan_update_idempotent [of 1 5 sample_change sample_credentials answer d' 2] by blast
qed

section \<open>The billing periods\<close>

definition covers :: "instant \<Rightarrow> instant \<times> instant \<Rightarrow> bool" where
  "covers t period \<longleftrightarrow> fst period \<le> t \<and> t < snd period"

lemma periods_terminate:
  assumes "\<And>i s t. month i = Some s \<Longrightarrow> month (i + 1) = Some t \<Longrightarrow> s < t"
  shows "\<exists>ps. periods_from month stop now index = Some ps"
proof (cases "month index")
  case None
  then show ?thesis by (subst periods_from.simps) simp
next
  case (Some s)
  then show ?thesis
  proof (induction "nat (now + 1 - s)" arbitrary: index s rule: less_induct)
    case less
    show ?case
    proof (cases "now < s \<or> (case stop of None \<Rightarrow> False | Some e \<Rightarrow> e \<le> s) \<or> month (index + 1) = None")
      case True
      then show ?thesis using less.prems by (subst periods_from.simps) (auto split: option.splits)
    next
      case False
      then obtain t where t: "month (index + 1) = Some t" by auto
      then have "s < t" using assms less.prems by blast
      then have "nat (now + 1 - t) < nat (now + 1 - s)" using False by auto
      from less.hyps [OF this t] obtain ps where "periods_from month stop now (index + 1) = Some ps" by blast
      then show ?thesis using less.prems t by (subst periods_from.simps) auto
    qed
  qed
qed

lemma periods_from_Some:
  assumes "periods_from month stop now index = Some ps" and "month index = Some start"
  shows "if now < start \<or> (case stop of None \<Rightarrow> False | Some e \<Rightarrow> e \<le> start) then ps = []
    else case month (index + 1) of None \<Rightarrow> ps = []
    | Some next \<Rightarrow> \<exists>rest. periods_from month stop now (index + 1) = Some rest \<and>
        ps = (start, case stop of None \<Rightarrow> next | Some e \<Rightarrow> min e next) # rest"
  using assms(1) by (subst (asm) periods_from.simps)
    (auto simp: assms(2) split: if_splits option.splits Option.bind_splits)

lemma periods_cover:
  assumes "\<And>i s. index \<le> i \<Longrightarrow> month i = Some s \<Longrightarrow> s \<le> now \<Longrightarrow> \<exists>t. month (i + 1) = Some t \<and> s < t"
    and "month index = Some start" and "periods_from month stop now index = Some ps" and "t \<le> now"
  shows "length (filter (covers t) ps) =
      (if start \<le> t \<and> (case stop of None \<Rightarrow> True | Some e \<Rightarrow> t < e) then 1 else 0) \<and>
    (\<forall>x\<in>set ps. start \<le> fst x \<and> fst x < snd x \<and> fst x \<le> now \<and>
      (case stop of None \<Rightarrow> True | Some e \<Rightarrow> snd x \<le> e))"
  using assms
proof (induction ps arbitrary: index start)
  case Nil
  have "now < start \<or> (case stop of None \<Rightarrow> False | Some e \<Rightarrow> e \<le> start)"
  proof (rule ccontr)
    assume n: "\<not> ?thesis"
    then obtain u where "month (index + 1) = Some u" using Nil.prems(1) [of index start] Nil.prems(2) by auto
    then show False using n periods_from_Some [OF Nil.prems(3,2)] by auto
  qed
  then show ?case using Nil.prems(4) by (auto split: option.splits)
next
  case (Cons x ps)
  have run: "\<not> (now < start \<or> (case stop of None \<Rightarrow> False | Some e \<Rightarrow> e \<le> start))"
    using periods_from_Some [OF Cons.prems(3,2)] by auto
  then obtain u where u: "month (index + 1) = Some u" "start < u"
    using Cons.prems(1) [of index start] Cons.prems(2) by auto
  have x: "x = (start, case stop of None \<Rightarrow> u | Some e \<Rightarrow> min e u)"
    and rest: "periods_from month stop now (index + 1) = Some ps"
    using periods_from_Some [OF Cons.prems(3,2)] run u(1) by simp_all
  have IH: "length (filter (covers t) ps) =
      (if u \<le> t \<and> (case stop of None \<Rightarrow> True | Some e \<Rightarrow> t < e) then 1 else 0)"
    "\<forall>x\<in>set ps. u \<le> fst x \<and> fst x < snd x \<and> fst x \<le> now \<and>
      (case stop of None \<Rightarrow> True | Some e \<Rightarrow> snd x \<le> e)"
    using Cons.IH [OF _ u(1) rest Cons.prems(4)] Cons.prems(1) by auto
  have "length (filter (covers t) (x # ps)) =
      (if start \<le> t \<and> (case stop of None \<Rightarrow> True | Some e \<Rightarrow> t < e) then 1 else 0)"
    using IH(1) u(2) run by (cases stop) (auto simp: x covers_def)
  moreover have "start \<le> fst x \<and> fst x < snd x \<and> fst x \<le> now \<and>
      (case stop of None \<Rightarrow> True | Some e \<Rightarrow> snd x \<le> e)"
    using u(2) run by (cases stop) (auto simp: x)
  moreover have "start \<le> fst y" if "y \<in> set ps" for y using IH(2) that u(2) by force
  ultimately show ?case using IH(2) by simp
qed

text \<open>
  If the calendar always has a next month, a later one, up to now, the billing periods of
  a plan can be computed, each begins by now and ends with the plan at the latest, and every
  instant from the plan's start up to now, before the plan's end, lies in exactly one.
\<close>

theorem plan_periods_partition:
  assumes "month 0 = Some (p_start p)"
    and "\<And>i s t. month i = Some s \<Longrightarrow> month (i + 1) = Some t \<Longrightarrow> s < t"
    and "\<And>i s. 0 \<le> i \<Longrightarrow> month i = Some s \<Longrightarrow> s \<le> now \<Longrightarrow> month (i + 1) \<noteq> None"
    and "t \<le> now"
  shows "\<exists>ps. plan_periods month p now = Some ps \<and>
    (\<forall>x\<in>set ps. fst x < snd x \<and> fst x \<le> now \<and> (case p_end p of None \<Rightarrow> True | Some e \<Rightarrow> snd x \<le> e)) \<and>
    length (filter (covers t) ps) =
      (if p_start p \<le> t \<and> (case p_end p of None \<Rightarrow> True | Some e \<Rightarrow> t < e) then 1 else 0)"
proof -
  obtain ps where ps: "periods_from month (p_end p) now 0 = Some ps"
    using periods_terminate [of month "p_end p" now 0] assms(2) by metis
  have "\<exists>t. month (i + 1) = Some t \<and> s < t" if "0 \<le> i" "month i = Some s" "s \<le> now" for i s
    using assms(2,3) that by blast
  from periods_cover [of 0, OF this assms(1) ps assms(4)] show ?thesis
    using ps by (auto simp: plan_periods_def)
qed

theorem plan_periods_partition_witness:
  "\<exists>ps. plan_periods (\<lambda>i. Some (10 + 30 * i))
     \<lparr>p_id = 1, p_account = 2, p_name = ''Max'', p_monthly_usd = 0, p_start = 10, p_end = Some 75\<rparr> 100 = Some ps \<and>
     length (filter (covers 42) ps) = 1"
  using plan_periods_partition [of "\<lambda>i. Some (10 + 30 * i)"
      "\<lparr>p_id = 1, p_account = 2, p_name = ''Max'', p_monthly_usd = 0, p_start = 10, p_end = Some 75\<rparr>" 100 42]
  by auto

definition plan_counts :: "plan_output \<Rightarrow> event_row \<Rightarrow> bool" where
  "plan_counts out e \<longleftrightarrow>
     (e_account e = a_id (po_account out) \<or> po_replaced_by out = Some (e_account e)) \<and>
     p_start (po_row out) \<le> u_occurred_at (e_usage e) \<and>
     (case p_end (po_row out) of None \<Rightarrow> True | Some x \<Rightarrow> u_occurred_at (e_usage e) < x)"

definition one_of :: "('a \<Rightarrow> bool) \<Rightarrow> 'a list \<Rightarrow> bool" where
  "one_of P xs \<longleftrightarrow> length (filter P xs) = 1"

text \<open>The report of a period: it counts the events it covers of those the plan counts, and no other.\<close>

definition reports :: "db \<Rightarrow> plan_output \<Rightarrow> billing_period \<Rightarrow> bool" where
  "reports d out b \<longleftrightarrow>
     (let es = filter (\<lambda>e. plan_counts out e \<and> covers (u_occurred_at (e_usage e)) (bp_start b, bp_end b)) (events d)
      in bp_requests b = length es \<and> bp_total_tokens b = sum_list (map (u_total_tokens \<circ> e_usage) es) \<and>
         bp_list_cost b = sum_list (map (unwrap_or 0 \<circ> e_list_cost) es))"

lemma period_reports:
  assumes "p_start (po_row out) \<le> fst x" and "case p_end (po_row out) of None \<Rightarrow> True | Some e \<Rightarrow> snd x \<le> e"
  shows "reports d out (period_report d out now x)"
proof -
  have "filter (\<lambda>e. plan_counts out e \<and> covers (u_occurred_at (e_usage e)) x) (events d) = period_events d out x"
    unfolding period_events_def plan_counts_def covers_def
    using assms by (intro filter_cong refl) (auto split: option.splits)
  then show ?thesis by (simp add: reports_def period_report_def Let_def)
qed

lemma leverage_periods:
  assumes "month (p_start (po_row out)) 0 = Some (p_start (po_row out))"
    and "\<And>i s t. month (p_start (po_row out)) i = Some s \<Longrightarrow>
      month (p_start (po_row out)) (i + 1) = Some t \<Longrightarrow> s < t"
    and "\<And>i s. 0 \<le> i \<Longrightarrow> month (p_start (po_row out)) i = Some s \<Longrightarrow> s \<le> now \<Longrightarrow>
      month (p_start (po_row out)) (i + 1) \<noteq> None"
  obtains ps where "plan_periods (month (p_start (po_row out))) (po_row out) now = Some ps"
    and "\<And>x. x \<in> set ps \<Longrightarrow> p_start (po_row out) \<le> fst x \<and>
      (case p_end (po_row out) of None \<Rightarrow> True | Some e \<Rightarrow> snd x \<le> e)"
    and "\<And>t. t \<le> now \<Longrightarrow> length (filter (covers t) ps) =
      (if p_start (po_row out) \<le> t \<and> (case p_end (po_row out) of None \<Rightarrow> True | Some e \<Rightarrow> t < e) then 1 else 0)"
proof -
  let ?month = "month (p_start (po_row out))"
  obtain ps where ps: "periods_from ?month (p_end (po_row out)) now 0 = Some ps"
    using periods_terminate [of ?month "p_end (po_row out)" now 0] assms(2) by metis
  have next_month: "\<exists>t. ?month (i + 1) = Some t \<and> s < t" if "0 \<le> i" "?month i = Some s" "s \<le> now" for i s
    using assms(2,3) that by blast
  have covered: "length (filter (covers t) ps) =
      (if p_start (po_row out) \<le> t \<and> (case p_end (po_row out) of None \<Rightarrow> True | Some e \<Rightarrow> t < e) then 1 else 0) \<and>
    (\<forall>x\<in>set ps. p_start (po_row out) \<le> fst x \<and> fst x < snd x \<and> fst x \<le> now \<and>
      (case p_end (po_row out) of None \<Rightarrow> True | Some e \<Rightarrow> snd x \<le> e))" if "t \<le> now" for t
    using periods_cover [of 0, OF next_month assms(1) ps that] by simp
  show thesis
    by (rule that [of ps]) (use ps covered [of now] covered in \<open>simp_all add: plan_periods_def\<close>)
qed

text \<open>
  C40: with as many periods asked for as there are, each request that a plan counts, on its account
  or on the credential that replaced it and from the plan's start to its end, lies in exactly one
  of the periods answered. Each period counts exactly the requests it covers of those, with their
  tokens and their list cost, so it counts no other request. The calendar counts months from the
  plan's start, each later than the one before, and has a next one up to now; no request is later
  than now.
\<close>

theorem leverage_counts_each_request_once:
  assumes "month (p_start (po_row out)) 0 = Some (p_start (po_row out))"
    and "\<And>i s t. month (p_start (po_row out)) i = Some s \<Longrightarrow>
      month (p_start (po_row out)) (i + 1) = Some t \<Longrightarrow> s < t"
    and "\<And>i s. 0 \<le> i \<Longrightarrow> month (p_start (po_row out)) i = Some s \<Longrightarrow> s \<le> now \<Longrightarrow>
      month (p_start (po_row out)) (i + 1) \<noteq> None"
    and "\<forall>e\<in>set (events d). u_occurred_at (e_usage e) \<le> now"
  shows "\<exists>n. \<forall>m\<ge>n. \<exists>bs. plan_leverage month d m now out = Some bs \<and>
    (\<forall>b\<in>set bs. reports d out b) \<and>
    (\<forall>e\<in>set (events d). plan_counts out e \<longrightarrow>
       one_of (\<lambda>b. covers (u_occurred_at (e_usage e)) (bp_start b, bp_end b)) bs)"
proof -
  obtain ps where ps: "plan_periods (month (p_start (po_row out))) (po_row out) now = Some ps"
    "\<And>x. x \<in> set ps \<Longrightarrow> p_start (po_row out) \<le> fst x \<and>
      (case p_end (po_row out) of None \<Rightarrow> True | Some e \<Rightarrow> snd x \<le> e)"
    "\<And>t. t \<le> now \<Longrightarrow> length (filter (covers t) ps) =
      (if p_start (po_row out) \<le> t \<and> (case p_end (po_row out) of None \<Rightarrow> True | Some e \<Rightarrow> t < e) then 1 else 0)"
    by (rule leverage_periods [where month = month and out = out and now = now, OF assms(1-3)]) auto
  let ?bs = "map (period_report d out now) (rev ps)"
  have "plan_leverage month d m now out = Some ?bs" if "length ps \<le> m" for m
    using ps(1) that by (simp add: plan_leverage_def)
  moreover have "\<forall>b\<in>set ?bs. reports d out b" using period_reports ps(2) by auto
  moreover have "one_of (\<lambda>b. covers (u_occurred_at (e_usage e)) (bp_start b, bp_end b)) ?bs"
    if "e \<in> set (events d)" "plan_counts out e" for e
  proof -
    have "(\<lambda>b. covers t (bp_start b, bp_end b)) \<circ> period_report d out now = covers t" for t
      by (simp add: fun_eq_iff period_report_def Let_def)
    then have "length (filter (\<lambda>b. covers t (bp_start b, bp_end b)) ?bs) = length (filter (covers t) ps)" for t
      by (simp add: filter_map rev_filter [symmetric])
    then show ?thesis using ps(3) [of "u_occurred_at (e_usage e)"] assms(4) that
      by (simp add: one_of_def plan_counts_def)
  qed
  ultimately show ?thesis by blast
qed

text \<open>Two requests of the plan in two of its months, one of another account, one before it started.\<close>

definition sample_output :: plan_output where
  "sample_output =
     \<lparr>po_row = \<lparr>p_id = 1, p_account = 2, p_name = ''Max'', p_monthly_usd = 0, p_start = 10,
        p_end = Some 75\<rparr>,
      po_account = home_account 2 ''b'' None, po_source_name = ''Home'', po_replaced_by = None\<rparr>"

definition monthly_db :: db where
  "monthly_db = empty_db\<lparr>events :=
     map (\<lambda>(i, a, t). (home_event i a (show_int i))\<lparr>e_usage := sample_usage\<lparr>u_occurred_at := t\<rparr>\<rparr>)
       [(1, 2, 12), (2, 2, 69), (3, 1, 45), (4, 2, 9)]\<rparr>"

theorem leverage_counts_each_request_once_witness:
  "\<exists>n. \<forall>m\<ge>n. \<exists>bs. plan_leverage (\<lambda>start i. Some (start + 30 * i)) monthly_db m 100 sample_output = Some bs \<and>
     map (\<lambda>b. (bp_start b, bp_requests b)) bs = [(70, 0), (40, 1), (10, 1)] \<and>
     (\<forall>e\<in>set (take 2 (events monthly_db)).
        one_of (\<lambda>b. covers (u_occurred_at (e_usage e)) (bp_start b, bp_end b)) bs)"
proof -
  let ?m = "\<lambda>start i. Some (start + 30 * i) :: instant option" and ?o = "sample_output"
  have ev: "\<forall>e\<in>set (events monthly_db). u_occurred_at (e_usage e) \<le> 100"
    by (simp add: monthly_db_def)
  obtain n where n: "\<And>m. n \<le> m \<Longrightarrow> \<exists>bs. plan_leverage ?m monthly_db m 100 ?o = Some bs \<and>
      (\<forall>b\<in>set bs. reports monthly_db ?o b) \<and>
      (\<forall>e\<in>set (events monthly_db). plan_counts ?o e \<longrightarrow>
         one_of (\<lambda>b. covers (u_occurred_at (e_usage e)) (bp_start b, bp_end b)) bs)"
    using leverage_counts_each_request_once [of ?m ?o 100 monthly_db] ev by (auto simp: sample_output_def)
  have ps: "plan_periods (?m 10) (po_row ?o) 100 = Some [(10, 40), (40, 70), (70, 75)]"
    by (simp add: plan_periods_def sample_output_def periods_from.simps [of _ _ _ "0"]
        periods_from.simps [of _ _ _ "1"] periods_from.simps [of _ _ _ "2"] periods_from.simps [of _ _ _ "3"])
  have counted: "\<forall>e\<in>set (take 2 (events monthly_db)). e \<in> set (events monthly_db) \<and> plan_counts ?o e"
    by (simp add: monthly_db_def plan_counts_def sample_output_def home_account_def home_event_def)
  have report: "map (\<lambda>x. (bp_start x, bp_requests x)) (map (period_report monthly_db ?o 100)
      [(70, 75), (40, 70), (10, 40)]) = [(70, 0), (40, 1), (10, 1)]"
    by (simp add: period_report_def period_events_def monthly_db_def sample_output_def home_account_def
        home_event_def Let_def)
  show ?thesis
  proof (intro exI [of _ "max n 3"] allI impI)
    fix m assume m: "max n 3 \<le> m"
    then obtain bs where bs: "plan_leverage ?m monthly_db m 100 ?o = Some bs"
      "\<forall>e\<in>set (events monthly_db). plan_counts ?o e \<longrightarrow>
         one_of (\<lambda>b. covers (u_occurred_at (e_usage e)) (bp_start b, bp_end b)) bs"
      using n [of m] by auto
    have "p_start (po_row ?o) = 10" by (simp add: sample_output_def)
    then have "bs = map (period_report monthly_db ?o 100) [(70, 75), (40, 70), (10, 40)]"
      using bs(1) ps m by (simp add: plan_leverage_def)
    then show "\<exists>bs. plan_leverage ?m monthly_db m 100 ?o = Some bs \<and>
        map (\<lambda>b. (bp_start b, bp_requests b)) bs = [(70, 0), (40, 1), (10, 1)] \<and>
        (\<forall>e\<in>set (take 2 (events monthly_db)).
           one_of (\<lambda>b. covers (u_occurred_at (e_usage e)) (bp_start b, bp_end b)) bs)"
      using bs counted report by simp
  qed
qed

end
