(* ===== verification/Usage.thy ===== *)
theory Usage
  imports Accounts "HOL-Library.Monad_Syntax"
begin

text \<open>
  What the normalizers share (\<^verbatim>\<open>src/usage/mod.rs\<close>): an event as a gateway described it, a
  record as a normalizer hands it over, the readers that serde derives for the fields of a
  record, and the pages of stored events. A reader answers nothing where serde refuses the
  value; a record is read from an object.
\<close>

section \<open>Events as a gateway described them\<close>

record new_event =
  ne_usage :: usage
  ne_account :: new_account
  ne_billed_cost :: "rat option"

text \<open>\<^verbatim>\<open>Incoming\<close>: a normalized record, or one that was refused, stripped of its secrets.\<close>

datatype 'e incoming = Incoming new_event | Rejected 'e json

section \<open>Reading fields\<close>

type_synonym object = "(string \<times> json) list"

fun read_string :: "json option \<Rightarrow> string option" where
  "read_string (Some (JString s)) = Some s"
| "read_string _ = None"

text \<open>An optional field: absent and null are nothing, any other value must be of the type.\<close>

fun read_optional :: "(json \<Rightarrow> 'a option) \<Rightarrow> json option \<Rightarrow> 'a option option" where
  "read_optional r None = Some None"
| "read_optional r (Some JNull) = Some None"
| "read_optional r (Some j) = map_option Some (r j)"

text \<open>A field with a default: only an absent one is the default.\<close>

fun read_default :: "'a \<Rightarrow> (json \<Rightarrow> 'a option) \<Rightarrow> json option \<Rightarrow> 'a option" where
  "read_default d r None = Some d"
| "read_default d r (Some j) = r j"

fun as_bool :: "json \<Rightarrow> bool option" where
  "as_bool (JBool b) = Some b"
| "as_bool _ = None"

fun read_object :: "json option \<Rightarrow> object option" where
  "read_object (Some (JObject fs)) = Some fs"
| "read_object _ = None"

text \<open>A field the gateway sent empty said nothing.\<close>

definition present :: "string option \<Rightarrow> string option" where
  "present value = filter_option (\<lambda>text. text \<noteq> []) value"

text \<open>\<^verbatim>\<open>str::split_whitespace().next()\<close> on the ASCII white space.\<close>

definition first_word :: "string \<Rightarrow> string option" where
  "first_word s = (case takeWhile (\<lambda>c. \<not> is_ws c) (dropWhile is_ws s) of [] \<Rightarrow> None | w \<Rightarrow> Some w)"

section \<open>Pages of stored events\<close>

record usage_filter =
  uf_from :: "instant option"
  uf_to :: "instant option"
  uf_source :: "id option"
  uf_model :: "string option"
  uf_account :: "id option"
  uf_failed :: "bool option"

definition filter_matches :: "usage_filter \<Rightarrow> event_row \<Rightarrow> bool" where
  "filter_matches f e \<longleftrightarrow>
     (case uf_from f of None \<Rightarrow> True | Some t \<Rightarrow> t \<le> u_occurred_at (e_usage e)) \<and>
     (case uf_to f of None \<Rightarrow> True | Some t \<Rightarrow> u_occurred_at (e_usage e) \<le> t) \<and>
     bound_eq (uf_source f) (e_source e) \<and> bound_eq (uf_model f) (u_model (e_usage e)) \<and>
     bound_eq (uf_account f) (e_account e) \<and> bound_eq (uf_failed f) (u_failed (e_usage e))"

text \<open>The join of an event with its account and its source.\<close>

definition select_events :: "db \<Rightarrow> event_row list" where
  "select_events d =
     [e. e \<leftarrow> events d, a \<leftarrow> accounts d, a_id a = e_account e, s \<leftarrow> sources d, s_id s = e_source e]"

datatype cursor = Before id | After id

definition usage_page :: "db \<Rightarrow> usage_filter \<Rightarrow> nat \<Rightarrow> cursor option \<Rightarrow> event_row list" where
  "usage_page d f limit cursor =
     (let rows = sort_key e_id (filter (filter_matches f) (select_events d))
      in take limit
           (case cursor of
              None \<Rightarrow> rev rows
            | Some (Before i) \<Rightarrow> rev (filter (\<lambda>e. e_id e < i) rows)
            | Some (After i) \<Rightarrow> filter (\<lambda>e. i < e_id e) rows))"

definition load_all :: "db \<Rightarrow> id list \<Rightarrow> event_row list" where
  "load_all d ids =
     (if ids = [] then [] else sort_key e_id (filter (\<lambda>e. e_id e \<in> set ids) (select_events d)))"

text \<open>A client that pages backwards from the newest event, each time before the last it has.\<close>

fun page_back :: "nat \<Rightarrow> db \<Rightarrow> usage_filter \<Rightarrow> nat \<Rightarrow> cursor option \<Rightarrow> event_row list" where
  "page_back 0 d f limit cursor = []"
| "page_back (Suc n) d f limit cursor =
     (let page = usage_page d f limit cursor
      in if page = [] then [] else page @ page_back n d f limit (Some (Before (e_id (last page)))))"

lemma filter_less_take:
  fixes f :: "'a \<Rightarrow> int"
  assumes "sorted_wrt (\<lambda>x y. f y < f x) rows" and "0 < k" and "k \<le> length rows"
  shows "filter (\<lambda>e. f e < f (last (take k rows))) rows = drop k rows"
proof -
  have rows: "rows = take k rows @ drop k rows" by simp
  have sep: "\<forall>x\<in>set (take k rows). \<forall>y\<in>set (drop k rows). f y < f x"
    and s: "sorted_wrt (\<lambda>x y. f y < f x) (take k rows)"
    using assms(1) by (subst (asm) rows, simp add: sorted_wrt_append del: append_take_drop_id)+
  have ne: "take k rows \<noteq> []" using assms(2,3) by auto
  then have low: "f (last (take k rows)) \<le> f x" if "x \<in> set (take k rows)" for x
    using s that ne by (cases "take k rows" rule: rev_cases) (auto simp: sorted_wrt_append)
  have "filter (\<lambda>e. f e < f (last (take k rows))) (take k rows) = []"
    using low by (fastforce simp: filter_empty_conv)
  moreover have "filter (\<lambda>e. f e < f (last (take k rows))) (drop k rows) = drop k rows"
    using sep ne by (intro filter_True) (meson last_in_set)
  ultimately show ?thesis by (subst rows) (simp only: filter_append append_Nil)
qed

section \<open>Properties\<close>

lemma page_back_rows:
  assumes "sorted_wrt (\<lambda>x y. e_id y < e_id x) (rev (sort_key e_id (filter (filter_matches f) (select_events d))))"
    and "0 < limit"
    and "rows = (case cursor of None \<Rightarrow> rev (sort_key e_id (filter (filter_matches f) (select_events d)))
      | Some (Before i) \<Rightarrow> rev (filter (\<lambda>e. e_id e < i) (sort_key e_id (filter (filter_matches f) (select_events d))))
      | Some (After i) \<Rightarrow> [])"
    and "\<forall>i. cursor \<noteq> Some (After i)" and "length rows \<le> n"
  shows "page_back n d f limit cursor = rows"
  using assms(3-5)
proof (induction n arbitrary: cursor rows)
  case 0
  then show ?case by simp
next
  case (Suc n)
  let ?all = "rev (sort_key e_id (filter (filter_matches f) (select_events d)))"
  have page: "usage_page d f limit cursor = take limit rows"
    using Suc.prems(1,2) by (auto simp: usage_page_def Let_def split: option.splits cursor.splits)
  show ?case
  proof (cases "rows = []")
    case True
    then show ?thesis using page by simp
  next
    case False
    let ?k = "min limit (length rows)" and ?c = "last (take limit rows)"
    have sorted_rows: "sorted_wrt (\<lambda>x y. e_id y < e_id x) rows"
      using Suc.prems(1,2) assms(1)
      by (auto simp: rev_filter sorted_wrt_filter split: option.splits cursor.splits)
    have low: "e_id ?c \<le> i" if "cursor = Some (Before i)" for i
    proof -
      have "take limit rows \<noteq> []" using False assms(2) by simp
      then have "?c \<in> set rows" by (rule in_set_takeD [OF last_in_set])
      then show ?thesis using Suc.prems(1) that by auto
    qed
    have "filter (\<lambda>e. e_id e < e_id ?c) ?all = filter (\<lambda>e. e_id e < e_id ?c) rows"
      using Suc.prems(1,2) low
      by (cases cursor) (auto simp: rev_filter split: cursor.splits intro!: filter_cong)
    also have "\<dots> = drop ?k rows"
      using filter_less_take [OF sorted_rows, of ?k] False assms(2)
      by (cases "limit \<le> length rows") (simp_all add: min_def)
    finally have rest: "rev (filter (\<lambda>e. e_id e < e_id ?c) (rev ?all)) = drop ?k rows"
      by (simp only: rev_filter rev_rev_ident)
    have "page_back n d f limit (Some (Before (e_id ?c))) = drop ?k rows"
      using Suc.prems(3) assms(2) False rest
      by (intro Suc.IH) (auto simp: min_def)
    then show ?thesis using page False assms(2) by (auto simp: Let_def min_def)
  qed
qed

text \<open>
  A client that pages backwards, asking each time for what is before the last event it has,
  sees every event of its filter exactly once, newest first, and stops.
\<close>

theorem paging_back_misses_nothing:
  assumes "distinct (map e_id (select_events d))" and "0 < limit"
    and "length (filter (filter_matches f) (select_events d)) \<le> n"
  shows "(let rows = page_back n d f limit None
    in set rows = {e \<in> set (select_events d). filter_matches f e} \<and>
       sorted_wrt (\<lambda>x y. e_id y < e_id x) rows)"
proof -
  let ?rows = "sort_key e_id (filter (filter_matches f) (select_events d))"
  have "distinct (map e_id (filter (filter_matches f) (select_events d)))"
    using assms(1) by (simp add: distinct_map_filter)
  then have "distinct (map e_id ?rows)" by (metis distinct_map distinct_sort set_sort)
  then have "sorted_wrt (<) (map e_id ?rows)"
    by (simp add: strict_sorted_iff)
  then have sorted_rows: "sorted_wrt (\<lambda>x y. e_id y < e_id x) (rev ?rows)"
    by (simp add: sorted_wrt_map sorted_wrt_rev)
  then have "page_back n d f limit None = rev ?rows"
    using assms(2,3) by (intro page_back_rows) auto
  then show ?thesis using sorted_rows by auto
qed

theorem paging_back_misses_nothing_witness:
  "sorted_wrt (\<lambda>x y. e_id y < e_id x) (page_back 3 empty_db
     \<lparr>uf_from = None, uf_to = None, uf_source = None, uf_model = None, uf_account = None,
      uf_failed = Some True\<rparr> 2 None)"
  using paging_back_misses_nothing [of empty_db 2 "\<lparr>uf_from = None, uf_to = None, uf_source = None,
      uf_model = None, uf_account = None, uf_failed = Some True\<rparr>" 3]
  by (simp add: Let_def select_events_def empty_db_def)

end
