(* ===== verification/Cliproxy.thy ===== *)
theory Cliproxy
  imports Usage Prices
begin

text \<open>
  The accounting record that CLIProxyAPI writes and what it means
  (\<^verbatim>\<open>src/usage/cliproxy.rs\<close>): how a record is read from JSON, which of its two token blocks
  counts, how the flat block's counts overlap for a provider, and what is stripped from a
  record that is refused. Reading an instant is the parameter \<open>instant_of\<close>.
\<close>

section \<open>The record\<close>

definition SEPARATE_REASONING_MARKERS :: "string list" where
  "SEPARATE_REASONING_MARKERS =
     [''gemini'', ''aistudio'', ''antigravity'', ''vertex'', ''interaction'']"

definition SUBSET_MARKERS :: "string list" where
  "SUBSET_MARKERS =
     [''openai'', ''codex'', ''xai'', ''grok'', ''kimi'', ''qwen'', ''deepseek'', ''openrouter'']"

record flat_tokens =
  ft_input :: int
  ft_output :: int
  ft_reasoning :: int
  ft_cached :: int
  ft_cache_read :: int
  ft_cache_creation :: int
  ft_total :: int

record breakdown =
  bd_quality :: "string option"
  bd_total :: int
  bd_unclassified :: int
  bd_input_total :: int
  bd_cache_read :: int
  bd_cache_write :: int
  bd_output_total :: int
  bd_reasoning :: int

record cliproxy_record =
  cr_timestamp :: string
  cr_provider :: string
  cr_model :: string
  cr_executor_type :: "string option"
  cr_endpoint :: string
  cr_tokens :: flat_tokens
  cr_fail_status :: int
  cr_fail_body :: string
  cr_accounting_version :: int
  cr_breakdown :: "breakdown option"
  cr_failed :: bool
  cr_stream :: bool
  cr_latency_ms :: "int option"
  cr_ttft_ms :: "int option"
  cr_source :: "string option"
  cr_auth_index :: "string option"
  cr_user_agent :: "string option"
  cr_api_key :: "string option"
  cr_alias :: "string option"
  cr_auth_type :: "string option"
  cr_request_id :: "string option"
  cr_session_id :: "string option"
  cr_reasoning_effort :: "string option"
  cr_service_tier :: "string option"
  cr_response_service_tier :: "string option"

definition int_field :: "object \<Rightarrow> string \<Rightarrow> int option" where
  "int_field fs name = read_default 0 as_i64 (map_of fs name)"

definition text_field :: "object \<Rightarrow> string \<Rightarrow> string option option" where
  "text_field fs name = read_optional as_str (map_of fs name)"

definition read_flat_tokens :: "object \<Rightarrow> flat_tokens option" where
  "read_flat_tokens fs = do {
     input \<leftarrow> int_field fs ''input_tokens'';
     output \<leftarrow> int_field fs ''output_tokens'';
     reasoning \<leftarrow> int_field fs ''reasoning_tokens'';
     cached \<leftarrow> int_field fs ''cached_tokens'';
     cache_read \<leftarrow> int_field fs ''cache_read_tokens'';
     cache_creation \<leftarrow> int_field fs ''cache_creation_tokens'';
     total \<leftarrow> int_field fs ''total_tokens'';
     Some \<lparr>ft_input = input, ft_output = output, ft_reasoning = reasoning, ft_cached = cached,
           ft_cache_read = cache_read, ft_cache_creation = cache_creation, ft_total = total\<rparr> }"

definition read_breakdown :: "json \<Rightarrow> breakdown option" where
  "read_breakdown j = do {
     fs \<leftarrow> as_object j;
     quality \<leftarrow> text_field fs ''quality'';
     total \<leftarrow> int_field fs ''total_tokens'';
     unclassified \<leftarrow> int_field fs ''unclassified_tokens'';
     input \<leftarrow> read_object (map_of fs ''input'');
     output \<leftarrow> read_object (map_of fs ''output'');
     input_total \<leftarrow> int_field input ''total_tokens'';
     cache_read \<leftarrow> int_field input ''cache_read_tokens'';
     cache_write \<leftarrow> int_field input ''cache_write_tokens'';
     output_total \<leftarrow> int_field output ''total_tokens'';
     reasoning \<leftarrow> int_field output ''reasoning_tokens'';
     Some \<lparr>bd_quality = quality, bd_total = total, bd_unclassified = unclassified,
           bd_input_total = input_total, bd_cache_read = cache_read, bd_cache_write = cache_write,
           bd_output_total = output_total, bd_reasoning = reasoning\<rparr> }"

definition read_record :: "json \<Rightarrow> cliproxy_record option" where
  "read_record j = do {
     fs \<leftarrow> as_object j;
     timestamp \<leftarrow> read_string (map_of fs ''timestamp'');
     provider \<leftarrow> read_string (map_of fs ''provider'');
     model \<leftarrow> read_string (map_of fs ''model'');
     executor_type \<leftarrow> text_field fs ''executor_type'';
     endpoint \<leftarrow> read_string (map_of fs ''endpoint'');
     token_fields \<leftarrow> read_object (map_of fs ''tokens'');
     flat \<leftarrow> read_flat_tokens token_fields;
     fail \<leftarrow> read_object (map_of fs ''fail'');
     status \<leftarrow> int_field fail ''status_code'';
     body \<leftarrow> read_default [] as_str (map_of fail ''body'');
     version \<leftarrow> int_field fs ''accounting_version'';
     breakdown \<leftarrow> read_optional read_breakdown (map_of fs ''token_breakdown'');
     failed \<leftarrow> read_default False as_bool (map_of fs ''failed'');
     stream \<leftarrow> read_default False as_bool (map_of fs ''stream'');
     latency \<leftarrow> read_optional as_i64 (map_of fs ''latency_ms'');
     ttft \<leftarrow> read_optional as_i64 (map_of fs ''ttft_ms'');
     source \<leftarrow> text_field fs ''source'';
     auth_index \<leftarrow> text_field fs ''auth_index'';
     user_agent \<leftarrow> text_field fs ''user_agent'';
     api_key \<leftarrow> text_field fs ''api_key'';
     alias \<leftarrow> text_field fs ''alias'';
     auth_type \<leftarrow> text_field fs ''auth_type'';
     request_id \<leftarrow> text_field fs ''request_id'';
     session_id \<leftarrow> text_field fs ''session_id'';
     effort \<leftarrow> text_field fs ''reasoning_effort'';
     tier \<leftarrow> text_field fs ''service_tier'';
     response_tier \<leftarrow> text_field fs ''response_service_tier'';
     Some \<lparr>cr_timestamp = timestamp, cr_provider = provider, cr_model = model,
           cr_executor_type = executor_type, cr_endpoint = endpoint, cr_tokens = flat,
           cr_fail_status = status, cr_fail_body = body, cr_accounting_version = version,
           cr_breakdown = breakdown, cr_failed = failed, cr_stream = stream,
           cr_latency_ms = latency, cr_ttft_ms = ttft, cr_source = source,
           cr_auth_index = auth_index, cr_user_agent = user_agent, cr_api_key = api_key,
           cr_alias = alias, cr_auth_type = auth_type, cr_request_id = request_id,
           cr_session_id = session_id, cr_reasoning_effort = effort, cr_service_tier = tier,
           cr_response_service_tier = response_tier\<rparr> }"

section \<open>Tokens\<close>

record token_counts =
  tk_input :: int
  tk_output :: int
  tk_reasoning :: int
  tk_cache_read :: int
  tk_cache_write :: int
  tk_unclassified :: int
  tk_total :: int
  tk_quality :: "token_quality option"

datatype semantics = Subset | Independent | SeparateReasoning | UnknownSemantics

definition semantics_of :: "string \<Rightarrow> string \<Rightarrow> semantics" where
  "semantics_of provider executor =
     (let provider = to_lower (trim provider);
          executor = to_lower (trim executor);
          named = provider @ '' '' @ executor
      in if executor = ''openaicompatexecutor'' \<or> provider = ''openai-compatibility'' \<or>
            starts_with ''openai-compatible-'' provider
         then Subset
         else if contains ''claude'' named \<or> contains ''anthropic'' named then Independent
         else if \<exists>m\<in>set SEPARATE_REASONING_MARKERS. contains m named then SeparateReasoning
         else if \<exists>m\<in>set SUBSET_MARKERS. contains m named then Subset
         else UnknownSemantics)"

definition flat :: "flat_tokens \<Rightarrow> semantics \<Rightarrow> token_counts" where
  "flat t s =
     (let cache_read = (if 0 < ft_cache_read t then ft_cache_read t else ft_cached t);
          counts = (\<lambda>input cache_read output.
            \<lparr>tk_input = input, tk_output = output, tk_reasoning = ft_reasoning t,
             tk_cache_read = cache_read, tk_cache_write = ft_cache_creation t,
             tk_unclassified = 0, tk_total = ft_total t, tk_quality = None\<rparr>)
      in case s of
           Independent \<Rightarrow>
             counts (wrap_i64 (wrap_i64 (ft_input t + ft_cache_read t) + ft_cache_creation t))
               (ft_cache_read t) (ft_output t)
         | SeparateReasoning \<Rightarrow>
             counts (ft_input t) cache_read (wrap_i64 (ft_output t + ft_reasoning t))
         | Subset \<Rightarrow> counts (ft_input t) cache_read (ft_output t)
         | UnknownSemantics \<Rightarrow>
             \<lparr>tk_input = 0, tk_output = 0, tk_reasoning = 0, tk_cache_read = 0, tk_cache_write = 0,
              tk_unclassified = ft_total t, tk_total = ft_total t, tk_quality = Some Unclassified\<rparr>)"

definition breakdown_tokens :: "breakdown \<Rightarrow> token_counts" where
  "breakdown_tokens b =
     \<lparr>tk_input = bd_input_total b, tk_output = bd_output_total b, tk_reasoning = bd_reasoning b,
      tk_cache_read = bd_cache_read b, tk_cache_write = bd_cache_write b,
      tk_unclassified = bd_unclassified b, tk_total = bd_total b,
      tk_quality = Option.bind (bd_quality b)
        (\<lambda>q. case token_quality_parse q of Inl _ \<Rightarrow> None | Inr x \<Rightarrow> Some x)\<rparr>"

section \<open>Normalizing\<close>

datatype cliproxy_error = Unreadable | Timestamp string | MissingBreakdown int

definition auth_kind_of :: "string option \<Rightarrow> auth_kind" where
  "auth_kind_of auth_type =
     (let text = unwrap_or [] auth_type
      in if text \<in> {''oauth'', ''oauth2''} then OAuth
         else if text \<in> {''apikey'', ''api_key'', ''api-key''} then ApiKey
         else UnknownAuth)"

definition harness_of :: "string option \<Rightarrow> string option" where
  "harness_of agent =
     filter_option (\<lambda>product. product \<noteq> [])
       (map_option (\<lambda>word. hd (split_on (CHR ''/'') word)) (Option.bind agent first_word))"

definition record_tokens :: "cliproxy_record \<Rightarrow> cliproxy_error + token_counts" where
  "record_tokens r =
     (if 2 \<le> cr_accounting_version r
      then map_sum id breakdown_tokens
             (ok_or (MissingBreakdown (cr_accounting_version r)) (cr_breakdown r))
      else Inr (flat (cr_tokens r)
                  (semantics_of (cr_provider r) (unwrap_or [] (cr_executor_type r)))))"

definition record_account :: "cliproxy_record \<Rightarrow> new_account" where
  "record_account r =
     (let auth = auth_kind_of (cr_auth_type r);
          source = filter_option (\<lambda>s. auth \<noteq> OAuth \<or> cr_api_key r \<noteq> Some s) (cr_source r)
      in make_account (unwrap_or [] (cr_auth_index r)) auth source)"

definition normalize ::
  "(string \<Rightarrow> instant option) \<Rightarrow> cliproxy_record \<Rightarrow> cliproxy_error + new_event" where
  "normalize instant_of r =
     (case instant_of (cr_timestamp r) of
        None \<Rightarrow> Inl (Timestamp (cr_timestamp r))
      | Some occurred_at \<Rightarrow>
          (case record_tokens r of
             Inl e \<Rightarrow> Inl e
           | Inr tokens \<Rightarrow> Inr
               \<lparr>ne_usage =
                  \<lparr>u_upstream_id = unwrap_or [] (cr_request_id r), u_occurred_at = occurred_at,
                   u_provider = cr_provider r, u_model = cr_model r,
                   u_model_alias = present (cr_alias r), u_endpoint = cr_endpoint r,
                   u_caller = Option.bind (cr_api_key r) mask_secret,
                   u_harness = harness_of (cr_user_agent r),
                   u_user_agent = present (cr_user_agent r), u_session_id = present (cr_session_id r),
                   u_input_tokens = tk_input tokens, u_output_tokens = tk_output tokens,
                   u_reasoning_tokens = tk_reasoning tokens,
                   u_cache_read_tokens = tk_cache_read tokens,
                   u_cache_write_tokens = tk_cache_write tokens,
                   u_unclassified_tokens = tk_unclassified tokens, u_total_tokens = tk_total tokens,
                   u_token_quality = tk_quality tokens,
                   u_latency_ms = cr_latency_ms r, u_ttft_ms = cr_ttft_ms r,
                   u_streamed = cr_stream r, u_status_code = cr_fail_status r,
                   u_failed = cr_failed r,
                   u_error_message =
                     filter_option (\<lambda>body. body \<noteq> []) (if cr_failed r then Some (cr_fail_body r) else None),
                   u_service_tier =
                     or_else (present (cr_response_service_tier r)) (present (cr_service_tier r)),
                   u_reasoning_effort = present (cr_reasoning_effort r)\<rparr>,
                ne_account = record_account r, ne_billed_cost = None\<rparr>))"

definition stripped :: "json \<Rightarrow> json" where
  "stripped value =
     (case value of
        JObject fs \<Rightarrow>
          let api_key = map_of fs ''api_key'';
              fs = remove_field ''response_headers'' (remove_field ''api_key'' fs);
              oauth = (case Option.bind (map_of fs ''auth_type'') as_str of
                         None \<Rightarrow> False | Some t \<Rightarrow> auth_kind_of (Some t) = OAuth)
          in JObject (if \<not> oauth \<or> map_of fs ''source'' = api_key then remove_field ''source'' fs else fs)
      | _ \<Rightarrow> value)"

definition parse :: "(string \<Rightarrow> instant option) \<Rightarrow> json \<Rightarrow> cliproxy_error incoming" where
  "parse instant_of value =
     (case (case read_record value of None \<Rightarrow> Inl Unreadable | Some r \<Rightarrow> normalize instant_of r) of
        Inr event \<Rightarrow> Incoming event
      | Inl error \<Rightarrow> Rejected error (stripped value))"

section \<open>Properties\<close>

text \<open>
  C3: the payload of a refused record carries no client key and no response headers; it keeps
  the credential source only of an OAuth login whose source is not the client key; every other
  field is kept as it came.
\<close>

theorem refused_record_keeps_no_secret:
  assumes "parse instant_of (JObject fs) = Rejected error payload"
  shows "\<exists>kept. payload = JObject kept \<and>
    map_of kept ''api_key'' = None \<and> map_of kept ''response_headers'' = None \<and>
    (map_of kept ''source'' = None \<or>
      (map_of kept ''source'' = map_of fs ''source'' \<and> map_of fs ''source'' \<noteq> map_of fs ''api_key'' \<and>
       (\<exists>t. map_of fs ''auth_type'' = Some (JString t) \<and> auth_kind_of (Some t) = OAuth))) \<and>
    (name \<in> {''api_key'', ''response_headers'', ''source''} \<or> map_of kept name = map_of fs name)"
proof -
  have payload: "payload = stripped (JObject fs)"
    using assms by (auto simp: parse_def split: sum.splits)
  have str: "as_str j = Some t \<longleftrightarrow> j = JString t" for j t by (cases j) auto
  show ?thesis
    unfolding payload stripped_def
    by (auto simp: Let_def map_of_remove_field bind_eq_Some_conv str split: option.splits)
qed

theorem refused_record_keeps_no_secret_witness:
  "\<exists>kept. parse (\<lambda>_. None) (JObject [(''api_key'', JString ''sk-1''), (''source'', JString ''sk-2'')]) =
       Rejected Unreadable (JObject kept) \<and>
     map_of kept ''api_key'' = None"
proof -
  have "parse (\<lambda>_. None) (JObject [(''api_key'', JString ''sk-1''), (''source'', JString ''sk-2'')]) =
      Rejected Unreadable (stripped (JObject [(''api_key'', JString ''sk-1''), (''source'', JString ''sk-2'')]))"
    by (simp add: parse_def read_record_def)
  from refused_record_keeps_no_secret [OF this] this show ?thesis by metis
qed

lemma normalize_Inr:
  assumes "normalize instant_of r = Inr e"
  shows "ne_account e = record_account r" and "u_caller (ne_usage e) = Option.bind (cr_api_key r) mask_secret"
    and "ne_billed_cost e = None"
  using assms by (auto simp: normalize_def split: option.splits sum.splits)

text \<open>
  A record that is accepted stores the client key nowhere as it came: the caller is its
  masked form, an OAuth account is never labelled with it, and the label of any other account
  is the masked form of the source, with at least four of its characters hidden.
\<close>

theorem accepted_record_hides_client_key:
  assumes "normalize instant_of r = Inr e"
  shows "(case u_caller (ne_usage e) of
        None \<Rightarrow> True
      | Some caller \<Rightarrow> \<exists>hidden tail. cr_api_key r = Some (hidden @ tail) \<and> caller = ellipsis @ tail \<and>
          char_count tail = 4 \<and> 8 \<le> char_count (hidden @ tail)) \<and>
    (case n_label (ne_account e) of
        None \<Rightarrow> True
      | Some label \<Rightarrow>
          if auth_kind_of (cr_auth_type r) = OAuth
          then cr_source r = Some label \<and> cr_api_key r \<noteq> Some label
          else \<exists>hidden tail. cr_source r = Some (hidden @ tail) \<and> label = ellipsis @ tail \<and>
            char_count tail = 4 \<and> 8 \<le> char_count (hidden @ tail))"
proof (intro conjI)
  show "case u_caller (ne_usage e) of
        None \<Rightarrow> True
      | Some caller \<Rightarrow> \<exists>hidden tail. cr_api_key r = Some (hidden @ tail) \<and> caller = ellipsis @ tail \<and>
          char_count tail = 4 \<and> 8 \<le> char_count (hidden @ tail)"
    unfolding normalize_Inr(2) [OF assms] using mask_secret_shape
    by (cases "cr_api_key r") (fastforce split: option.splits)+
  show "case n_label (ne_account e) of
        None \<Rightarrow> True
      | Some label \<Rightarrow>
          if auth_kind_of (cr_auth_type r) = OAuth
          then cr_source r = Some label \<and> cr_api_key r \<noteq> Some label
          else \<exists>hidden tail. cr_source r = Some (hidden @ tail) \<and> label = ellipsis @ tail \<and>
            char_count tail = 4 \<and> 8 \<le> char_count (hidden @ tail)"
    unfolding normalize_Inr(1) [OF assms] record_account_def make_account_def Let_def
    using mask_secret_shape
    by (cases "cr_source r"; cases "auth_kind_of (cr_auth_type r)")
      (fastforce split: option.splits if_splits)+
qed

definition sample_record :: cliproxy_record where
  "sample_record =
     \<lparr>cr_timestamp = ''t'', cr_provider = ''claude'', cr_model = ''opus'', cr_executor_type = None,
      cr_endpoint = ''/v1'',
      cr_tokens = \<lparr>ft_input = 5, ft_output = 7, ft_reasoning = 0, ft_cached = 0, ft_cache_read = 11,
        ft_cache_creation = 13, ft_total = 36\<rparr>,
      cr_fail_status = 0, cr_fail_body = [], cr_accounting_version = 0, cr_breakdown = None,
      cr_failed = False, cr_stream = True, cr_latency_ms = None, cr_ttft_ms = None,
      cr_source = Some ''me@example'', cr_auth_index = Some ''a'', cr_user_agent = None,
      cr_api_key = Some ''sk-12345678'', cr_alias = None, cr_auth_type = Some ''oauth'',
      cr_request_id = None, cr_session_id = None, cr_reasoning_effort = None,
      cr_service_tier = None, cr_response_service_tier = None\<rparr>"

theorem accepted_record_hides_client_key_witness:
  "\<exists>e. normalize (\<lambda>_. Some 5) sample_record = Inr e \<and> n_label (ne_account e) = Some ''me@example'' \<and>
     cr_api_key sample_record \<noteq> Some ''me@example''"
proof -
  obtain e where e: "normalize (\<lambda>_. Some 5) sample_record = Inr e"
    by (cases "normalize (\<lambda>_. Some 5) sample_record")
      (auto simp: normalize_def record_tokens_def sample_record_def)
  have "auth_kind_of (cr_auth_type sample_record) = OAuth" by (simp add: sample_record_def auth_kind_of_def)
  moreover have "n_label (ne_account e) = Some ''me@example''"
    unfolding normalize_Inr(1) [OF e]
    by (simp add: record_account_def make_account_def sample_record_def auth_kind_of_def)
  ultimately show ?thesis using accepted_record_hides_client_key [OF e] e by auto
qed

text \<open>
  The list cost of a flat record charges every token once, whatever the provider's counts
  overlap: input sent apart from its cache is charged beside it, input that holds its cache is
  charged without it, reasoning apart from the output is charged as output, and the counts of
  a provider the gateway does not know are not charged.
\<close>

theorem flat_record_charges_tokens_once:
  assumes "cr_accounting_version r < 2" and "normalize instant_of r = Inr e"
    and "t = cr_tokens r" and "s = semantics_of (cr_provider r) (unwrap_or [] (cr_executor_type r))"
    and "\<forall>n\<in>{ft_input t, ft_output t, ft_reasoning t, ft_cached t, ft_cache_read t, ft_cache_creation t}.
      0 \<le> n \<and> n < 2 ^ 60"
    and "read = (if 0 < ft_cache_read t then ft_cache_read t else ft_cached t)"
    and "s = Independent \<or> read + ft_cache_creation t \<le> ft_input t"
  shows "1000000 * list_cost p (ne_usage e) =
    (case s of
       Independent \<Rightarrow>
         of_int (ft_input t) * input_usd_per_mtok p
         + of_int (ft_cache_read t) * cached_input_usd_per_mtok p
         + of_int (ft_cache_creation t) * cache_write_usd_per_mtok p
         + of_int (ft_output t) * output_usd_per_mtok p
     | UnknownSemantics \<Rightarrow> 0
     | _ \<Rightarrow>
         of_int (ft_input t - read - ft_cache_creation t) * input_usd_per_mtok p
         + of_int read * cached_input_usd_per_mtok p
         + of_int (ft_cache_creation t) * cache_write_usd_per_mtok p
         + of_int (ft_output t + (if s = SeparateReasoning then ft_reasoning t else 0))
             * output_usd_per_mtok p)"
proof -
  let ?k = "flat t s" and ?u = "ne_usage e"
  have u: "u_input_tokens ?u = tk_input ?k" "u_output_tokens ?u = tk_output ?k"
    "u_cache_read_tokens ?u = tk_cache_read ?k" "u_cache_write_tokens ?u = tk_cache_write ?k"
    using assms(1-4) by (auto simp: normalize_def record_tokens_def split: option.splits)
  have "in_i64 (ft_input t + ft_cache_read t)" "in_i64 (ft_input t + ft_cache_read t + ft_cache_creation t)"
    "in_i64 (ft_output t + ft_reasoning t)"
    using assms(5) by (simp_all add: in_i64_def)
  note wrap = this [THEN wrap_i64_id]
  show ?thesis
    using assms(5,7) unfolding list_cost_def u
    by (cases s) (simp_all add: flat_def Let_def wrap assms(6) max_def)
qed

theorem flat_record_charges_tokens_once_witness:
  "\<exists>e. normalize (\<lambda>_. Some 5) sample_record = Inr e \<and>
     1000000 * list_cost (flat_rates 2) (ne_usage e) = 72"
proof -
  obtain e where e: "normalize (\<lambda>_. Some 5) sample_record = Inr e"
    by (cases "normalize (\<lambda>_. Some 5) sample_record")
      (auto simp: normalize_def record_tokens_def sample_record_def)
  have s: "semantics_of (cr_provider sample_record) (unwrap_or [] (cr_executor_type sample_record)) = Independent"
    by code_simp
  show ?thesis
    using flat_record_charges_tokens_once [OF _ e refl s [symmetric] _ refl, of "flat_rates 2"] e
    by (simp add: sample_record_def flat_rates_def)
qed

end
