(* ===== verification/Litellm.thy ===== *)
theory Litellm
  imports Usage
begin

text \<open>
  One row of LiteLLM's spend log and what it means (\<^verbatim>\<open>src/usage/litellm.rs\<close>). Parameters
  stand for the libraries the code calls: \<open>json_of\<close> reads JSON text, \<open>timestamp_of\<close> reads an
  instant with an offset, and \<open>civil_of\<close> reads a civil date and time as UTC.
\<close>

section \<open>The row\<close>

record litellm_row =
  lr_request_id :: "string option"
  lr_call_type :: "string option"
  lr_api_key :: "string option"
  lr_spend :: "rat option"
  lr_total_tokens :: "int option"
  lr_prompt_tokens :: "int option"
  lr_completion_tokens :: "int option"
  lr_start_time :: "string option"
  lr_completion_start_time :: "string option"
  lr_model :: "string option"
  lr_model_id :: "string option"
  lr_model_group :: "string option"
  lr_provider :: "string option"
  lr_api_base :: "string option"
  lr_session_id :: "string option"
  lr_status :: "string option"
  lr_request_duration_ms :: "int option"
  lr_metadata :: "json option"

record litellm_metadata =
  lm_key_alias :: "string option"
  lm_user_agent :: "string option"
  lm_cache_read :: "int option"
  lm_cache_creation :: "int option"
  lm_error_code :: "json option"
  lm_error_message :: "string option"

definition optional_text :: "object \<Rightarrow> string \<Rightarrow> string option option" where
  "optional_text fs name = read_optional as_str (map_of fs name)"

definition optional_int :: "object \<Rightarrow> string \<Rightarrow> int option option" where
  "optional_int fs name = read_optional as_i64 (map_of fs name)"

definition read_row :: "json \<Rightarrow> litellm_row option" where
  "read_row j = do {
     fs \<leftarrow> as_object j;
     request_id \<leftarrow> optional_text fs ''request_id'';
     call_type \<leftarrow> optional_text fs ''call_type'';
     api_key \<leftarrow> optional_text fs ''api_key'';
     spend \<leftarrow> read_optional as_f64 (map_of fs ''spend'');
     total \<leftarrow> optional_int fs ''total_tokens'';
     prompt \<leftarrow> optional_int fs ''prompt_tokens'';
     completion \<leftarrow> optional_int fs ''completion_tokens'';
     start_time \<leftarrow> optional_text fs ''startTime'';
     completion_start \<leftarrow> optional_text fs ''completionStartTime'';
     model \<leftarrow> optional_text fs ''model'';
     model_id \<leftarrow> optional_text fs ''model_id'';
     model_group \<leftarrow> optional_text fs ''model_group'';
     provider \<leftarrow> optional_text fs ''custom_llm_provider'';
     api_base \<leftarrow> optional_text fs ''api_base'';
     session_id \<leftarrow> optional_text fs ''session_id'';
     status \<leftarrow> optional_text fs ''status'';
     duration \<leftarrow> optional_int fs ''request_duration_ms'';
     metadata \<leftarrow> read_optional Some (map_of fs ''metadata'');
     Some \<lparr>lr_request_id = request_id, lr_call_type = call_type, lr_api_key = api_key,
           lr_spend = spend, lr_total_tokens = total, lr_prompt_tokens = prompt,
           lr_completion_tokens = completion, lr_start_time = start_time,
           lr_completion_start_time = completion_start, lr_model = model, lr_model_id = model_id,
           lr_model_group = model_group, lr_provider = provider, lr_api_base = api_base,
           lr_session_id = session_id, lr_status = status, lr_request_duration_ms = duration,
           lr_metadata = metadata\<rparr> }"

definition default_metadata :: litellm_metadata where
  "default_metadata = \<lparr>lm_key_alias = None, lm_user_agent = None, lm_cache_read = None,
     lm_cache_creation = None, lm_error_code = None, lm_error_message = None\<rparr>"

definition read_metadata :: "json \<Rightarrow> litellm_metadata option" where
  "read_metadata j = do {
     fs \<leftarrow> as_object j;
     key_alias \<leftarrow> optional_text fs ''user_api_key_alias'';
     user_agent \<leftarrow> optional_text fs ''user_agent'';
     usage_fields \<leftarrow> read_optional as_object (map_of fs ''additional_usage_values'');
     error_fields \<leftarrow> read_optional as_object (map_of fs ''error_information'');
     cache_read \<leftarrow> optional_int (unwrap_or [] usage_fields) ''cache_read_input_tokens'';
     cache_creation \<leftarrow> optional_int (unwrap_or [] usage_fields) ''cache_creation_input_tokens'';
     code \<leftarrow> read_optional Some (map_of (unwrap_or [] error_fields) ''error_code'');
     message \<leftarrow> optional_text (unwrap_or [] error_fields) ''error_message'';
     Some \<lparr>lm_key_alias = key_alias, lm_user_agent = user_agent, lm_cache_read = cache_read,
           lm_cache_creation = cache_creation, lm_error_code = code, lm_error_message = message\<rparr> }"

section \<open>Normalizing\<close>

definition FALLBACK_STATUS :: int where "FALLBACK_STATUS = 500"

datatype litellm_error = Shape | MissingRequestId | MissingStartTime | BadTimestamp string string

definition instant_of ::
  "(string \<Rightarrow> instant option) \<Rightarrow> (string \<Rightarrow> instant option) \<Rightarrow> string \<Rightarrow> string \<Rightarrow> litellm_error + instant" where
  "instant_of timestamp_of civil_of name text =
     ok_or (BadTimestamp name text) (or_else (timestamp_of text) (civil_of text))"

definition metadata_of :: "(string \<Rightarrow> json option) \<Rightarrow> json option \<Rightarrow> litellm_metadata option" where
  "metadata_of json_of m =
     (case m of
        None \<Rightarrow> Some default_metadata
      | Some JNull \<Rightarrow> Some default_metadata
      | Some (JString text) \<Rightarrow>
          if text \<noteq> [] then Option.bind (json_of text) read_metadata else Some default_metadata
      | Some j \<Rightarrow> read_metadata j)"

definition reported_status :: "json option \<Rightarrow> int option" where
  "reported_status code =
     (case code of
        Some (JString text) \<Rightarrow> parse_i64 (trim text)
      | Some (JInt n) \<Rightarrow> as_i64 (JInt n)
      | _ \<Rightarrow> None)"

definition fallback_note :: string where
  "fallback_note = ''LiteLLM recorded no status code, stored as '' @ show_int FALLBACK_STATUS"

definition outcome :: "bool \<Rightarrow> int option \<Rightarrow> string option \<Rightarrow> int \<times> string option" where
  "outcome failed status message =
     (case (failed, status) of
        (False, _) \<Rightarrow> (200, None)
      | (True, Some code) \<Rightarrow> (code, message)
      | (True, None) \<Rightarrow>
          (FALLBACK_STATUS,
           Some (case message of None \<Rightarrow> fallback_note
                 | Some text \<Rightarrow> text @ '' ('' @ fallback_note @ '')'')))"

definition row_provider :: "litellm_row \<Rightarrow> string" where
  "row_provider r = unwrap_or ''unknown'' (present (lr_provider r))"

definition row_model :: "litellm_row \<Rightarrow> string" where
  "row_model r = unwrap_or [] (present (lr_model r))"

definition row_account :: "litellm_row \<Rightarrow> new_account" where
  "row_account r =
     \<lparr>n_key = unwrap_or (''unattributed/'' @ row_provider r)
        (or_else (present (lr_model_id r)) (present (lr_api_base r))),
      n_auth = ApiKey,
      n_label = or_else (present (lr_model_group r))
        (filter_option (\<lambda>m. m \<noteq> []) (Some (row_model r)))\<rparr>"

text \<open>The time to the first token, when the upstream's two times are in order.\<close>

definition ttft_of :: "instant \<Rightarrow> instant option \<Rightarrow> int option" where
  "ttft_of occurred_at first_token =
     map_option (\<lambda>elapsed. elapsed div 1000000)
       (filter_option (\<lambda>elapsed. 0 \<le> elapsed) (map_option (\<lambda>t. t - occurred_at) first_token))"

definition row_event ::
  "litellm_row \<Rightarrow> litellm_metadata \<Rightarrow> string \<Rightarrow> instant \<Rightarrow> instant option \<Rightarrow> new_event" where
  "row_event r m upstream_id occurred_at first_token =
     (let failed = (case lr_status r of None \<Rightarrow> False | Some s \<Rightarrow> s \<noteq> ''success'');
          (status, message) = outcome failed (reported_status (lm_error_code m)) (present (lm_error_message m));
          prompt = unwrap_or 0 (lr_prompt_tokens r);
          completion = unwrap_or 0 (lr_completion_tokens r)
      in \<lparr>ne_usage =
            \<lparr>u_upstream_id = upstream_id, u_occurred_at = occurred_at, u_provider = row_provider r,
             u_model = row_model r,
             u_model_alias = filter_option (\<lambda>g. g \<noteq> row_model r) (present (lr_model_group r)),
             u_endpoint = unwrap_or [] (present (lr_call_type r)),
             u_caller = or_else (present (lm_key_alias m)) (Option.bind (lr_api_key r) mask_secret),
             u_harness = None, u_user_agent = present (lm_user_agent m),
             u_session_id = present (lr_session_id r),
             u_input_tokens = prompt, u_output_tokens = completion, u_reasoning_tokens = 0,
             u_cache_read_tokens = unwrap_or 0 (lm_cache_read m),
             u_cache_write_tokens = unwrap_or 0 (lm_cache_creation m), u_unclassified_tokens = 0,
             u_total_tokens = unwrap_or (wrap_i64 (prompt + completion)) (lr_total_tokens r),
             u_token_quality = None, u_latency_ms = lr_request_duration_ms r,
             u_ttft_ms = ttft_of occurred_at first_token,
             u_streamed = False, u_status_code = status, u_failed = failed,
             u_error_message = message, u_service_tier = None, u_reasoning_effort = None\<rparr>,
          ne_account = row_account r, ne_billed_cost = lr_spend r\<rparr>)"

definition normalize ::
  "(string \<Rightarrow> json option) \<Rightarrow> (string \<Rightarrow> instant option) \<Rightarrow> (string \<Rightarrow> instant option) \<Rightarrow>
     litellm_row \<Rightarrow> litellm_error + new_event" where
  "normalize json_of timestamp_of civil_of r =
     (let at_time = instant_of timestamp_of civil_of
      in case present (lr_request_id r) of
        None \<Rightarrow> Inl MissingRequestId
      | Some upstream_id \<Rightarrow>
          (case present (lr_start_time r) of
             None \<Rightarrow> Inl MissingStartTime
           | Some start \<Rightarrow>
               (case at_time ''startTime'' start of
                  Inl e \<Rightarrow> Inl e
                | Inr occurred_at \<Rightarrow>
                    (case (case present (lr_completion_start_time r) of
                             None \<Rightarrow> Inr None
                           | Some text \<Rightarrow> map_sum id Some (at_time ''completionStartTime'' text)) of
                       Inl e \<Rightarrow> Inl e
                     | Inr first_token \<Rightarrow>
                         (case metadata_of json_of (lr_metadata r) of
                            None \<Rightarrow> Inl Shape
                          | Some m \<Rightarrow> Inr (row_event r m upstream_id occurred_at first_token))))))"

definition stripped_metadata :: "(string \<Rightarrow> json option) \<Rightarrow> json \<Rightarrow> json" where
  "stripped_metadata json_of m =
     (let m = (case m of JString text \<Rightarrow> unwrap_or JNull (json_of text) | _ \<Rightarrow> m)
      in case m of JObject fs \<Rightarrow> JObject (remove_field ''user_api_key'' fs) | _ \<Rightarrow> m)"

definition stripped :: "(string \<Rightarrow> json option) \<Rightarrow> json \<Rightarrow> json" where
  "stripped json_of row =
     (case row of
        JObject fs \<Rightarrow>
          JObject (map (\<lambda>(name, j). (name, if name = ''metadata'' then stripped_metadata json_of j else j))
            (remove_field ''api_key'' fs))
      | _ \<Rightarrow> row)"

definition parse ::
  "(string \<Rightarrow> json option) \<Rightarrow> (string \<Rightarrow> instant option) \<Rightarrow> (string \<Rightarrow> instant option) \<Rightarrow>
     json \<Rightarrow> litellm_error incoming" where
  "parse json_of timestamp_of civil_of row =
     (case (case read_row row of None \<Rightarrow> Inl Shape
            | Some r \<Rightarrow> normalize json_of timestamp_of civil_of r) of
        Inr event \<Rightarrow> Incoming event
      | Inl error \<Rightarrow> Rejected error (stripped json_of row))"

section \<open>Properties\<close>

text \<open>The object a \<^verbatim>\<open>metadata\<close> field holds, whether it came as an object or as its JSON text.\<close>

definition metadata_fields :: "(string \<Rightarrow> json option) \<Rightarrow> json option \<Rightarrow> object" where
  "metadata_fields json_of m =
     (case m of
        Some (JObject fs) \<Rightarrow> fs
      | Some (JString text) \<Rightarrow> (case json_of text of Some (JObject fs) \<Rightarrow> fs | _ \<Rightarrow> [])
      | _ \<Rightarrow> [])"

lemma map_of_map_value: "map_of (map (\<lambda>(n, j). (n, f n j)) fs) k = map_option (f k) (map_of fs k)"
  by (induction fs) auto

lemma stripped_metadata_fields:
  "metadata_fields (\<lambda>_. None) (Some (stripped_metadata json_of j)) =
     remove_field ''user_api_key'' (metadata_fields json_of (Some j))"
proof (cases j)
  case (JString str)
  show ?thesis
  proof (cases "json_of str")
    case None
    then show ?thesis using JString
      by (simp add: stripped_metadata_def metadata_fields_def remove_field_def)
  next
    case (Some v)
    then show ?thesis using JString
      by (cases v) (simp_all add: stripped_metadata_def metadata_fields_def remove_field_def)
  qed
qed (simp_all add: stripped_metadata_def metadata_fields_def remove_field_def)

lemma stripped_metadata_text:
  assumes "stripped_metadata json_of j = JString str"
  shows "\<exists>original. j = JString original \<and> json_of original = Some (JString str)"
proof (cases j)
  case (JString original)
  then show ?thesis using assms
    by (cases "json_of original") (auto simp: stripped_metadata_def split: json.splits)
qed (use assms in \<open>simp_all add: stripped_metadata_def\<close>)

text \<open>
  The payload of a refused row carries no hash of the client key, neither in its own field
  nor in its metadata, whether the metadata came as an object or as text, and no text is left
  there unread; every other field of the row and of its metadata is kept.
\<close>

theorem refused_row_keeps_no_key:
  assumes "parse json_of timestamp_of civil_of (JObject fs) = Rejected error payload"
  shows "\<exists>kept. payload = JObject kept \<and> map_of kept ''api_key'' = None \<and>
    (\<forall>str. map_of kept ''metadata'' \<noteq> Some (JString str) \<or>
       (\<exists>original. map_of fs ''metadata'' = Some (JString original) \<and> json_of original = Some (JString str))) \<and>
    metadata_fields (\<lambda>_. None) (map_of kept ''metadata'') =
      remove_field ''user_api_key'' (metadata_fields json_of (map_of fs ''metadata'')) \<and>
    (name \<in> {''api_key'', ''metadata''} \<or> map_of kept name = map_of fs name)"
proof -
  have payload: "payload = stripped json_of (JObject fs)"
    using assms by (auto simp: parse_def split: sum.splits)
  define kept where "kept = map (\<lambda>(name, j). (name, if name = ''metadata'' then stripped_metadata json_of j else j))
    (remove_field ''api_key'' fs)"
  have kept: "map_of kept k = (if k = ''api_key'' then None
      else if k = ''metadata'' then map_option (stripped_metadata json_of) (map_of fs k) else map_of fs k)" for k
    by (simp add: kept_def map_of_map_value map_of_remove_field option.map_ident)
  have "metadata_fields (\<lambda>_. None) (map_of kept ''metadata'') =
      remove_field ''user_api_key'' (metadata_fields json_of (map_of fs ''metadata''))"
  proof (cases "map_of fs ''metadata''")
    case None
    then show ?thesis by (simp add: kept metadata_fields_def remove_field_def)
  next
    case (Some j)
    then show ?thesis by (simp add: kept stripped_metadata_fields)
  qed
  moreover have "map_of kept ''metadata'' \<noteq> Some (JString str) \<or>
      (\<exists>original. map_of fs ''metadata'' = Some (JString original) \<and> json_of original = Some (JString str))" for str
    using stripped_metadata_text by (auto simp: kept)
  moreover have "payload = JObject kept" by (simp add: payload stripped_def kept_def)
  ultimately show ?thesis by (intro exI [of _ kept]) (simp add: kept)
qed

theorem refused_row_keeps_no_key_witness:
  "\<exists>kept. parse (\<lambda>_. None) (\<lambda>_. None) (\<lambda>_. None) (JObject [(''api_key'', JString ''hash'')]) =
     Rejected MissingRequestId (JObject kept) \<and> map_of kept ''api_key'' = None"
proof -
  have "parse (\<lambda>_. None) (\<lambda>_. None) (\<lambda>_. None) (JObject [(''api_key'', JString ''hash'')]) =
      Rejected MissingRequestId (stripped (\<lambda>_. None) (JObject [(''api_key'', JString ''hash'')]))"
    by (simp add: parse_def read_row_def optional_text_def optional_int_def normalize_def present_def)
  from refused_row_keeps_no_key [OF this] this show ?thesis by metis
qed

end
