(* ===== verification/Windows.thy ===== *)
theory Windows
  imports Snapshots "HOL-Library.Multiset"
begin

text \<open>
  Quota windows of \<^verbatim>\<open>src/quota/window.rs\<close>, the rate learned from the windows a credential
  went through (\<^verbatim>\<open>src/quota/calibration.rs\<close>), and what a window holds now
  (\<^verbatim>\<open>src/quota/prediction.rs\<close>). A statement that would break the primary key of a table is
  an error, so a replacement answers nothing and its transaction leaves the database as it was.
\<close>

section \<open>Instants\<close>

text \<open>The instants jiff can represent, in nanoseconds since the epoch.\<close>

definition representable :: "instant \<Rightarrow> bool" where
  "representable t \<longleftrightarrow> - 377705023201 * ns_per_second \<le> t \<and> t \<le> 253402207200 * ns_per_second + 999999999"

definition checked_instant :: "instant \<Rightarrow> instant option" where
  "checked_instant t = (if representable t then Some t else None)"

text \<open>Rounding half away from the epoch and toward the epoch.\<close>

definition round_to :: "int \<Rightarrow> instant \<Rightarrow> instant" where
  "round_to unit t =
     (if 0 \<le> t then (t + unit div 2) div unit * unit else - ((- t + unit div 2) div unit * unit))"

definition trunc_to :: "int \<Rightarrow> instant \<Rightarrow> instant" where
  "trunc_to unit t = (if 0 \<le> t then t div unit * unit else - (- t div unit * unit))"

abbreviation minute :: int where "minute \<equiv> 60 * ns_per_second"
abbreviation hour :: int where "hour \<equiv> 3600 * ns_per_second"

section \<open>Replacing the windows of an account\<close>

definition REQUESTS :: string where "REQUESTS = ''requests''"

definition WINDOW_KEY :: string where "WINDOW_KEY = ''meta-subscription''"

definition RESET_TOLERANCE :: int where "RESET_TOLERANCE = 5 * ns_per_second"

record new_window =
  nw_key :: string
  nw_label :: string
  nw_used_fraction :: "rat option"
  nw_used_value :: "rat option"
  nw_limit_value :: "rat option"
  nw_unit :: "string option"
  nw_seconds :: "int option"
  nw_resets_at :: "instant option"
  nw_scope :: window_scope
  nw_starts_on_use :: bool

definition clamp_fraction :: "rat \<Rightarrow> rat" where
  "clamp_fraction x = (if x < 0 then 0 else if 1 < x then 1 else x)"

definition kept_reset :: "instant option \<Rightarrow> instant \<Rightarrow> instant" where
  "kept_reset stored reported =
     (case stored of
        Some kept \<Rightarrow> if \<bar>reported - kept\<bar> \<le> RESET_TOLERANCE then kept else reported
      | None \<Rightarrow> reported)"

definition stored_resets :: "db \<Rightarrow> id \<Rightarrow> (string \<times> instant option) list" where
  "stored_resets d i =
     collect_map (map (\<lambda>w. (w_key w, w_resets_at w)) (filter (\<lambda>w. w_account w = i) (windows d)))"

definition window_of :: "(string \<times> instant option) list \<Rightarrow> id \<Rightarrow> instant \<Rightarrow> new_window \<Rightarrow> window_row" where
  "window_of stored i observed_at n =
     \<lparr>w_account = i, w_key = nw_key n, w_label = nw_label n,
      w_used_fraction = map_option clamp_fraction (nw_used_fraction n),
      w_used_value = nw_used_value n, w_limit_value = nw_limit_value n, w_unit = nw_unit n,
      w_seconds = nw_seconds n,
      w_resets_at = map_option
        (kept_reset (Option.bind (map_of stored (nw_key n)) (\<lambda>r. r))) (nw_resets_at n),
      w_observed_at = observed_at, w_scope = nw_scope n, w_starts_on_use = nw_starts_on_use n\<rparr>"

section \<open>Calibration\<close>

definition HORIZON :: int where "HORIZON = 28 * 24 * hour"

definition MIN_USED_FRACTION :: rat where "MIN_USED_FRACTION = 1 / 20"

definition OUTLIER_FACTOR :: rat where "OUTLIER_FACTOR = 2"

abbreviation sample_key :: "sample_row \<Rightarrow> id \<times> string \<times> instant" where
  "sample_key \<equiv> (\<lambda>q. (q_account q, q_window q, q_started_at q))"

definition sample_merge :: "sample_row \<Rightarrow> sample_row \<Rightarrow> sample_row" where
  "sample_merge new old =
     old\<lparr>q_observed_at := q_observed_at new, q_used_fraction := q_used_fraction new\<rparr>"

interpretation sampling: keyed_upsert sample_key sample_merge
  by unfold_locales (simp add: sample_merge_def)

definition window_start :: "instant \<Rightarrow> int \<Rightarrow> instant option" where
  "window_start resets_at seconds =
     Option.bind (checked_instant (resets_at - seconds * ns_per_second))
       (\<lambda>start. checked_instant (round_to minute start))"

definition record_sample :: "id \<Rightarrow> new_window \<Rightarrow> instant \<Rightarrow> db \<Rightarrow> db" where
  "record_sample i n observed_at d =
     (if nw_unit n = Some REQUESTS then d
      else case (nw_used_fraction n, nw_resets_at n, nw_seconds n) of
        (Some used, Some resets_at, Some seconds) \<Rightarrow>
          (case window_start resets_at seconds of
             None \<Rightarrow> d
           | Some started_at \<Rightarrow>
               d\<lparr>samples := upsert sample_key sample_merge
                   \<lparr>q_account = i, q_window = nw_key n, q_started_at = started_at,
                    q_observed_at = observed_at, q_used_fraction = clamp_fraction used\<rparr> (samples d)\<rparr>)
      | _ \<Rightarrow> d)"

definition insert_window :: "window_row \<Rightarrow> db \<Rightarrow> db option" where
  "insert_window w d =
     (if \<exists>v\<in>set (windows d). w_account v = w_account w \<and> w_key v = w_key w then None
      else Some (d\<lparr>windows := windows d @ [w]\<rparr>))"

fun first_reports :: "string list \<Rightarrow> new_window list \<Rightarrow> new_window list" where
  "first_reports keys [] = []"
| "first_reports keys (n # ns) =
     (if nw_key n \<in> set keys then first_reports keys ns
      else n # first_reports (nw_key n # keys) ns)"

fun insert_windows ::
  "(string \<times> instant option) list \<Rightarrow> id \<Rightarrow> instant \<Rightarrow> new_window list \<Rightarrow> db \<Rightarrow> db option" where
  "insert_windows stored i observed_at [] d = Some d"
| "insert_windows stored i observed_at (n # ns) d =
     (case insert_window (window_of stored i observed_at n) d of
        None \<Rightarrow> None
      | Some d' \<Rightarrow> insert_windows stored i observed_at ns (record_sample i n observed_at d'))"

definition replace_windows :: "id \<Rightarrow> new_window list \<Rightarrow> instant \<Rightarrow> db \<Rightarrow> db option" where
  "replace_windows i ns observed_at d =
     (let stored = stored_resets d i;
          d1 = d\<lparr>windows := delete_where (\<lambda>w. w_account w = i \<and> w_key w \<noteq> WINDOW_KEY) (windows d)\<rparr>
      in insert_windows stored i observed_at (first_reports [] ns) d1)"

record outlier =
  ol_started_at :: instant
  ol_rate :: rat

record calibration =
  ca_fraction_per_usd :: rat
  ca_windows :: nat
  ca_outliers :: "outlier list"

definition median :: "rat list \<Rightarrow> rat option" where
  "median xs =
     (let middle = length xs div 2
      in if middle < length xs
         then Some (if even (length xs) then (xs ! (middle - 1) + xs ! middle) / 2 else xs ! middle)
         else None)"

definition counts_toward :: "window_scope \<Rightarrow> event_row \<Rightarrow> bool" where
  "counts_toward scope e =
     (case window_scope_model scope of
        None \<Rightarrow> True
      | Some model \<Rightarrow> contains model (to_lower (u_model (e_usage e))))"

definition cost_between :: "db \<Rightarrow> id \<Rightarrow> window_scope \<Rightarrow> instant \<Rightarrow> instant \<Rightarrow> rat" where
  "cost_between d i scope lo hi =
     sum_list (map (unwrap_or 0 \<circ> e_list_cost)
       (filter (\<lambda>e. e_account e = i \<and> lo \<le> u_occurred_at (e_usage e) \<and>
           u_occurred_at (e_usage e) \<le> hi \<and> counts_toward scope e) (events d)))"

definition sample_rates :: "db \<Rightarrow> window_row \<Rightarrow> instant \<Rightarrow> (instant \<times> rat) list" where
  "sample_rates d w now =
     map (\<lambda>q. (q_started_at q, q_used_fraction q /
          cost_between d (w_account w) (w_scope w) (q_started_at q) (q_observed_at q)))
       (filter (\<lambda>q. 0 < cost_between d (w_account w) (w_scope w) (q_started_at q) (q_observed_at q))
         (rev (sort_key q_started_at
           (filter (\<lambda>q. q_account q = w_account w \<and> q_window q = w_key w \<and>
               now - HORIZON \<le> q_observed_at q \<and> MIN_USED_FRACTION \<le> q_used_fraction q)
             (samples d)))))"

definition calibrate :: "(instant \<times> rat) list \<Rightarrow> calibration option" where
  "calibrate rates =
     map_option (\<lambda>m.
         \<lparr>ca_fraction_per_usd = m, ca_windows = length rates,
          ca_outliers = map (\<lambda>(t, r). \<lparr>ol_started_at = t, ol_rate = r\<rparr>)
            (filter (\<lambda>(t, r). \<not> (1 / OUTLIER_FACTOR \<le> r / m \<and> r / m \<le> OUTLIER_FACTOR)) rates)\<rparr>)
       (median (sort (map snd rates)))"

definition learn :: "db \<Rightarrow> window_row \<Rightarrow> instant \<Rightarrow> calibration option" where
  "learn d w now =
     (if w_scope w = ScopeUnmetered \<or> w_unit w = Some REQUESTS then None
      else calibrate (sample_rates d w now))"

section \<open>Prediction\<close>

record prediction =
  pr_used_fraction :: rat
  pr_resets_at :: "instant option"
  pr_has_reset :: bool

datatype rate = PerRequest rat | PerUsd "rat option"

record metered =
  mt_requests :: nat
  mt_cost_usd :: rat

fun spent :: "rate \<Rightarrow> metered \<Rightarrow> rat option" where
  "spent (PerRequest r) m = Some (r * of_nat (mt_requests m))"
| "spent (PerUsd (Some r)) m = Some (r * mt_cost_usd m)"
| "spent (PerUsd None) m = (if mt_cost_usd m \<le> 0 then Some 0 else None)"

definition metered_between :: "db \<Rightarrow> window_row \<Rightarrow> instant \<Rightarrow> instant \<Rightarrow> metered" where
  "metered_between d w lo hi =
     \<lparr>mt_requests = count_where (\<lambda>e. e_account e = w_account w \<and> lo \<le> u_occurred_at (e_usage e) \<and>
          u_occurred_at (e_usage e) \<le> hi \<and> counts_toward (w_scope w) e \<and> \<not> u_failed (e_usage e)) (events d),
      mt_cost_usd = cost_between d (w_account w) (w_scope w) lo hi\<rparr>"

definition next_on_schedule :: "instant \<Rightarrow> int \<Rightarrow> instant \<Rightarrow> (instant \<times> instant) option" where
  "next_on_schedule reset seconds now =
     (let elapsed = (if reset \<le> now then (now - reset) div ns_per_second
                     else - ((reset - now) div ns_per_second));
          count = (if 0 \<le> elapsed then elapsed div max seconds 1
                   else - (- elapsed div max seconds 1)) + 1
      in if \<not> (- (2 ^ 31) \<le> count \<and> count < 2 ^ 31) \<or> \<not> in_i64 (seconds * count) then None
         else case checked_instant (reset + seconds * count * ns_per_second) of
                None \<Rightarrow> None
              | Some resets_at \<Rightarrow>
                  map_option (\<lambda>start. (start, resets_at))
                    (checked_instant (resets_at - seconds * ns_per_second)))"

text \<open>The instants of the account's successful requests, in no particular order.\<close>

definition use_times :: "db \<Rightarrow> id \<Rightarrow> instant list" where
  "use_times d i =
     map (u_occurred_at \<circ> e_usage) (filter (\<lambda>e. e_account e = i \<and> \<not> u_failed (e_usage e)) (events d))"

definition first_use :: "instant list \<Rightarrow> instant \<Rightarrow> instant \<Rightarrow> instant option" where
  "first_use used_at lo hi =
     (let found = filter (\<lambda>t. lo \<le> t \<and> t \<le> hi) used_at
      in if found = [] then None else Some (Min (set found)))"

partial_function (option) opened_on_use ::
  "instant list \<Rightarrow> instant \<Rightarrow> int \<Rightarrow> instant \<Rightarrow> (instant \<times> instant) option option" where
  "opened_on_use used_at reset seconds now =
     (case first_use used_at reset now of
        None \<Rightarrow> Some None
      | Some first_at \<Rightarrow>
          (case checked_instant (trunc_to hour first_at + seconds * ns_per_second) of
             None \<Rightarrow> Some None
           | Some ends \<Rightarrow>
               if now < ends then Some (Some (first_at, ends))
               else opened_on_use used_at ends seconds now))"

definition rate_of :: "db \<Rightarrow> window_row \<Rightarrow> instant \<Rightarrow> rate option" where
  "rate_of d w now =
     (if w_unit w = Some REQUESTS
      then map_option (\<lambda>limit. PerRequest (1 / limit)) (filter_option (\<lambda>limit. 0 < limit) (w_limit_value w))
      else Some (PerUsd (map_option ca_fraction_per_usd (learn d w now))))"

text \<open>The outer option is whether the search for a window that opens on use ends.\<close>

definition predict :: "db \<Rightarrow> window_row \<Rightarrow> instant \<Rightarrow> prediction option option" where
  "predict d w now =
     (if w_scope w = ScopeUnmetered then Some None
      else case rate_of d w now of
        None \<Rightarrow> Some None
      | Some r \<Rightarrow>
          (case filter_option (\<lambda>t. t \<le> now) (w_resets_at w) of
             None \<Rightarrow> Some
               (case w_used_fraction w of
                  None \<Rightarrow> None
                | Some used \<Rightarrow>
                    map_option (\<lambda>added. \<lparr>pr_used_fraction = min (used + added) 1,
                         pr_resets_at = w_resets_at w, pr_has_reset = False\<rparr>)
                      (filter_option (\<lambda>added. 0 < added)
                        (spent r (metered_between d w (w_observed_at w) now))))
           | Some reset \<Rightarrow>
               (case w_seconds w of
                  None \<Rightarrow> Some None
                | Some seconds \<Rightarrow>
                    Option.bind
                      (if w_starts_on_use w then opened_on_use (use_times d (w_account w)) reset seconds now
                       else Some (next_on_schedule reset seconds now))
                      (\<lambda>current. Some
                        (case current of
                           None \<Rightarrow> Some \<lparr>pr_used_fraction = 0, pr_resets_at = None, pr_has_reset = True\<rparr>
                         | Some (start, resets_at) \<Rightarrow>
                             map_option (\<lambda>used. \<lparr>pr_used_fraction = min used 1,
                                 pr_resets_at = Some resets_at, pr_has_reset = True\<rparr>)
                               (spent r (metered_between d w start now)))))))"

section \<open>Lemmas\<close>

lemma window_of_key [simp]: "w_account (window_of m i t n) = i" "w_key (window_of m i t n) = nw_key n"
  by (simp_all add: window_of_def)

lemma record_sample_windows [simp]: "windows (record_sample i n t d) = windows d"
  by (simp add: record_sample_def split: option.splits)

lemma insert_windows_Some:
  assumes "insert_windows stored i t ns d = Some d'"
  shows "windows d' = windows d @ map (window_of stored i t) ns"
    and "distinct (map nw_key ns)"
    and "n \<in> set ns \<Longrightarrow> \<not> (\<exists>v\<in>set (windows d). w_account v = i \<and> w_key v = nw_key n)"
proof -
  have "windows d' = windows d @ map (window_of stored i t) ns \<and> distinct (map nw_key ns) \<and>
      (\<forall>n\<in>set ns. \<not> (\<exists>v\<in>set (windows d). w_account v = i \<and> w_key v = nw_key n))"
    using assms
  proof (induction ns arbitrary: d)
    case Nil
    then show ?case by simp
  next
    case (Cons n ns)
    then have new: "\<not> (\<exists>v\<in>set (windows d). w_account v = i \<and> w_key v = nw_key n)"
      by (auto simp: insert_window_def split: if_splits)
    let ?d = "record_sample i n t (d\<lparr>windows := windows d @ [window_of stored i t n]\<rparr>)"
    have "insert_windows stored i t ns ?d = Some d'"
      using Cons.prems new by (simp add: insert_window_def)
    from Cons.IH [OF this] new show ?case by force
  qed
  then show "windows d' = windows d @ map (window_of stored i t) ns" "distinct (map nw_key ns)"
    "n \<in> set ns \<Longrightarrow> \<not> (\<exists>v\<in>set (windows d). w_account v = i \<and> w_key v = nw_key n)" by blast+
qed

lemma first_reports_keys:
  "nw_key ` set (first_reports keys ns) = nw_key ` set ns - set keys"
  "set (first_reports keys ns) \<subseteq> set ns"
  by (induction keys ns rule: first_reports.induct) auto

lemma replace_windows_Some:
  assumes "replace_windows i ns t d = Some d'"
  shows "windows d' = delete_where (\<lambda>w. w_account w = i \<and> w_key w \<noteq> WINDOW_KEY) (windows d) @
      map (window_of (stored_resets d i) i t) (first_reports [] ns)"
    and "distinct (map nw_key (first_reports [] ns))"
    and "n \<in> set (first_reports [] ns) \<Longrightarrow> nw_key n = WINDOW_KEY \<Longrightarrow>
      \<not> (\<exists>v\<in>set (windows d). w_account v = i \<and> w_key v = WINDOW_KEY)"
proof -
  note ins = insert_windows_Some [OF assms [unfolded replace_windows_def Let_def]]
  show "windows d' = delete_where (\<lambda>w. w_account w = i \<and> w_key w \<noteq> WINDOW_KEY) (windows d) @
      map (window_of (stored_resets d i) i t) (first_reports [] ns)"
    using ins(1) by simp
  show "distinct (map nw_key (first_reports [] ns))" by (rule ins(2))
  show "\<not> (\<exists>v\<in>set (windows d). w_account v = i \<and> w_key v = WINDOW_KEY)"
    if "n \<in> set (first_reports [] ns)" "nw_key n = WINDOW_KEY"
    using ins(3) [OF that(1)] that(2) by (simp add: row_simps)
qed

lemma kept_reset_close: "\<bar>kept_reset stored reported - reported\<bar> \<le> RESET_TOLERANCE"
  by (auto simp: kept_reset_def RESET_TOLERANCE_def split: option.splits)

lemma kept_reset_again: "kept_reset (Some (kept_reset stored reported)) reported = kept_reset stored reported"
  using kept_reset_close [of stored reported] by (simp add: kept_reset_def abs_minus_commute)

definition forget_time :: "window_row \<Rightarrow> window_row" where
  "forget_time w = w\<lparr>w_observed_at := 0\<rparr>"

lemma stored_resets_after:
  assumes "replace_windows i ns t d = Some d'" and "n \<in> set (first_reports [] ns)"
    and "nw_key n \<noteq> WINDOW_KEY"
  shows "map_of (stored_resets d' i) (nw_key n) =
           Some (w_resets_at (window_of (stored_resets d i) i t n))"
proof -
  note r = replace_windows_Some [OF assms(1)]
  let ?g = "\<lambda>w. (w_key w, w_resets_at w)" and ?new = "map (window_of (stored_resets d i) i t) (first_reports [] ns)"
  let ?old = "delete_where (\<lambda>w. w_account w = i \<and> w_key w \<noteq> WINDOW_KEY) (windows d)"
  have new: "filter (\<lambda>w. w_account w = i) ?new = ?new" by (rule filter_True) auto
  have "map_of (map ?g (rev ?new)) (nw_key n) = Some (w_resets_at (window_of (stored_resets d i) i t n))"
  proof (rule map_of_is_SomeI)
    show "distinct (map fst (map ?g (rev ?new)))"
      using r(2) by (simp add: comp_def rev_map [symmetric])
    show "(nw_key n, w_resets_at (window_of (stored_resets d i) i t n)) \<in> set (map ?g (rev ?new))"
      using assms(2) by force
  qed
  then show ?thesis
    unfolding stored_resets_def map_of_collect_map r(1) filter_append new map_append rev_append
    by (simp add: rev_map)
qed

section \<open>Properties\<close>

text \<open>
  Replacing an account's windows leaves one window for every key reported, from its first
  report, with its share used clamped to the window and its reset within the tolerance of the
  reported one; the response-derived window and every other account's windows stay; and the
  same report a second time changes nothing but when it was observed.
\<close>

theorem replace_windows_settles:
  assumes "replace_windows i ns t d = Some d1" and "replace_windows i ns later d1 = Some d2"
    and "\<forall>n\<in>set ns. nw_key n \<noteq> WINDOW_KEY"
  shows "map forget_time (windows d2) = map forget_time (windows d1) \<and>
    (\<forall>w\<in>set (windows d). w_account w \<noteq> i \<or> w_key w = WINDOW_KEY \<longrightarrow> w \<in> set (windows d1)) \<and>
    {w_key w | w. w \<in> set (windows d1) \<and> w_account w = i \<and> w_key w \<noteq> WINDOW_KEY} = nw_key ` set ns \<and>
    (\<forall>w\<in>set (windows d1). w_account w = i \<and> w_key w \<noteq> WINDOW_KEY \<longrightarrow>
       (\<exists>n\<in>set ns. nw_key n = w_key w \<and>
          (case (nw_resets_at n, w_resets_at w) of
             (Some reported, Some shown) \<Rightarrow> \<bar>shown - reported\<bar> \<le> RESET_TOLERANCE
           | (None, None) \<Rightarrow> True | _ \<Rightarrow> False)))"
proof -
  note r1 = replace_windows_Some [OF assms(1)] and r2 = replace_windows_Some [OF assms(2)]
  let ?ns = "first_reports [] ns" and ?w1 = "window_of (stored_resets d i) i t"
  let ?gone = "\<lambda>w. w_account w = i \<and> w_key w \<noteq> WINDOW_KEY"
  have key: "nw_key n \<noteq> WINDOW_KEY" if "n \<in> set ?ns" for n
    using that first_reports_keys(2) [of "[]" ns] assms(3) by blast
  have "delete_where ?gone (windows d1) = delete_where ?gone (windows d)"
    using key by (auto simp: r1(1) delete_where_def filter_empty_conv)
  moreover have "forget_time (window_of (stored_resets d1 i) i later n) = forget_time (?w1 n)"
    if n: "n \<in> set ?ns" for n
  proof -
    have "map_option (kept_reset (w_resets_at (?w1 n))) (nw_resets_at n) = w_resets_at (?w1 n)"
      by (cases "nw_resets_at n") (simp_all add: window_of_def kept_reset_again)
    then show ?thesis
      using stored_resets_after [OF assms(1) n key [OF n]]
      by (simp add: forget_time_def window_of_def [of "stored_resets d1 i"]) (simp add: window_of_def)
  qed
  ultimately have "map forget_time (windows d2) = map forget_time (windows d1)"
    by (simp add: r2(1)) (simp add: r1(1) comp_def)
  moreover have "{w_key w | w. w \<in> set (windows d1) \<and> ?gone w} = nw_key ` set ns"
  proof -
    have "filter ?gone (windows d1) = map ?w1 ?ns"
      using key by (simp add: r1(1) delete_where_def filter_True)
    moreover have "{w_key w | w. w \<in> set (windows d1) \<and> ?gone w} = w_key ` set (filter ?gone (windows d1))"
      by auto
    ultimately have "{w_key w | w. w \<in> set (windows d1) \<and> ?gone w} = nw_key ` set ?ns"
      by (simp add: image_image)
    then show ?thesis using first_reports_keys(1) [of "[]" ns] by simp
  qed
  moreover have "\<exists>n\<in>set ns. nw_key n = w_key w \<and>
      (case (nw_resets_at n, w_resets_at w) of
         (Some reported, Some shown) \<Rightarrow> \<bar>shown - reported\<bar> \<le> RESET_TOLERANCE
       | (None, None) \<Rightarrow> True | _ \<Rightarrow> False)"
    if w: "w \<in> set (windows d1)" "?gone w" for w
  proof -
    obtain n where n: "n \<in> set ?ns" "w = ?w1 n"
      using w by (auto simp: r1(1) row_simps)
    then show ?thesis
      using first_reports_keys(2) [of "[]" ns] kept_reset_close
      by (intro bexI [of _ n]) (auto simp: window_of_def split: option.splits)
  qed
  ultimately show ?thesis by (auto simp: r1(1) row_simps)
qed

definition sample_window :: "string \<Rightarrow> instant option \<Rightarrow> new_window" where
  "sample_window key resets_at = \<lparr>nw_key = key, nw_label = key, nw_used_fraction = Some (1 / 2),
     nw_used_value = None, nw_limit_value = None, nw_unit = None, nw_seconds = None,
     nw_resets_at = resets_at, nw_scope = ScopeAccount, nw_starts_on_use = False\<rparr>"

theorem replace_windows_settles_witness:
  "\<exists>d1 d2. replace_windows 1 [sample_window ''a'' (Some 7), sample_window ''a'' None] 5 empty_db = Some d1 \<and>
     replace_windows 1 [sample_window ''a'' (Some 7), sample_window ''a'' None] 6 d1 = Some d2 \<and>
     map forget_time (windows d2) = map forget_time (windows d1)"
proof -
  let ?ns = "[sample_window ''a'' (Some 7), sample_window ''a'' None]"
  have "replace_windows 1 ?ns 5 empty_db \<noteq> None"
    by (simp add: replace_windows_def Let_def sample_window_def insert_window_def empty_db_def delete_where_def)
  then obtain d1 where d1: "replace_windows 1 ?ns 5 empty_db = Some d1" by blast
  from replace_windows_Some(1) [OF d1] have "windows d1 = [window_of (stored_resets empty_db 1) 1 5 (sample_window ''a'' (Some 7))]"
    by (simp add: sample_window_def empty_db_def delete_where_def)
  then have "replace_windows 1 ?ns 6 d1 \<noteq> None"
    by (simp add: replace_windows_def Let_def sample_window_def insert_window_def delete_where_def WINDOW_KEY_def)
  then obtain d2 where d2: "replace_windows 1 ?ns 6 d1 = Some d2" by blast
  show ?thesis
    using replace_windows_settles [OF d1 d2] d1 d2 by (auto simp: sample_window_def WINDOW_KEY_def)
qed

text \<open>Where most of a sorted list is one value, that value is in the middle.\<close>

lemma sorted_majority:
  fixes xs :: "rat list"
  assumes "sorted xs" and "length xs < 2 * count_list xs r" and "length xs \<le> 2 * k + 1"
    and "2 * k \<le> length xs" and "k < length xs"
  shows "xs ! k = r"
proof (rule ccontr)
  assume ne: "xs ! k \<noteq> r"
  have split: "xs = take k xs @ xs ! k # drop (Suc k) xs" using assms(5) by (rule id_take_nth_drop)
  have "count_list (take k xs) r = 0 \<or> count_list (drop (Suc k) xs) r = 0"
  proof (rule ccontr)
    assume "\<not> ?thesis"
    then have "r \<in> set (take k xs)" "r \<in> set (drop (Suc k) xs)" by (auto simp: count_list_0_iff)
    moreover have "sorted (take k xs @ xs ! k # drop (Suc k) xs)" using assms(1) split by simp
    ultimately have "r \<le> xs ! k" "xs ! k \<le> r" by (auto simp: sorted_append)
    then show False using ne by simp
  qed
  moreover have "count_list xs r = count_list (take k xs) r + count_list (drop (Suc k) xs) r"
    by (subst split) (simp add: ne)
  ultimately have "count_list xs r \<le> max (length (take k xs)) (length (drop (Suc k) xs))"
    using count_le_length [of "take k xs" r] count_le_length [of "drop (Suc k) xs" r] by auto
  then show False using assms(2-5) by (auto simp: max_def split: if_splits)
qed

text \<open>
  The learned rate resists windows that were reset early. If more than half of the windows
  spent the same share per dollar, that share is the rate learned, whatever the others say; no
  window of that share is named an outlier, and every window off by more than the factor is.
\<close>

theorem calibration_resists_outliers:
  assumes "length rates < 2 * count_list (map snd rates) r" and "0 < r"
  shows "\<exists>c. calibrate rates = Some c \<and> ca_fraction_per_usd c = r \<and> ca_windows c = length rates \<and>
    (\<forall>t x. (t, x) \<in> set rates \<longrightarrow>
       (\<lparr>ol_started_at = t, ol_rate = x\<rparr> \<in> set (ca_outliers c) \<longleftrightarrow> 2 * x < r \<or> 2 * r < x))"
proof -
  let ?xs = "sort (map snd rates)"
  have mset: "mset ?xs = mset (map snd rates)" by simp
  have cl: "count_list ys y = count (mset ys) y" for ys :: "rat list" and y by (induction ys) auto
  have count: "count_list ?xs r = count_list (map snd rates) r" by (simp only: cl mset)
  have maj: "length ?xs < 2 * count_list ?xs r" using assms(1) count by simp
  have len: "0 < length ?xs" using assms(1) by (cases rates) auto
  have "median ?xs = Some r"
  proof (cases "even (length ?xs)")
    case True
    let ?k = "length ?xs div 2"
    have k: "2 * ?k = length ?xs" using True by simp
    moreover from this have "0 < ?k" using len by linarith
    ultimately have k: "2 * ?k = length ?xs" "0 < ?k" by blast+
    have "?xs ! ?k = r" using k len by (intro sorted_majority maj sorted_sort) auto
    moreover have "?xs ! (?k - 1) = r"
    proof (rule ccontr)
      assume ne: "?xs ! (?k - 1) \<noteq> r"
      have "x \<noteq> r" if x: "x \<in> set (take ?k ?xs)" for x
      proof
        assume "x = r"
        then obtain j where j: "j < ?k" "?xs ! j = r" using x k by (auto simp: in_set_conv_nth)
        have "?xs ! j \<le> ?xs ! (?k - 1)" "?xs ! (?k - 1) \<le> ?xs ! ?k"
          using j k by (auto intro!: sorted_nth_mono)
        then show False using j(2) \<open>?xs ! ?k = r\<close> ne by simp
      qed
      then have "count_list (take ?k ?xs) r = 0" unfolding count_list_0_iff by blast
      moreover have "count_list ?xs r = count_list (take ?k ?xs) r + count_list (drop ?k ?xs) r"
        by (metis append_take_drop_id count_list_append)
      ultimately have "count_list ?xs r \<le> length (drop ?k ?xs)" using count_le_length [of "drop ?k ?xs" r] by linarith
      then show False using maj k by simp
    qed
    ultimately show ?thesis using True len by (simp add: median_def Let_def)
  next
    case False
    then have "?xs ! (length ?xs div 2) = r"
      using len by (intro sorted_majority maj sorted_sort) (auto elim!: oddE)
    then show ?thesis using False len by (simp add: median_def Let_def)
  qed
  moreover have "\<not> (1 / OUTLIER_FACTOR \<le> x / r \<and> x / r \<le> OUTLIER_FACTOR) \<longleftrightarrow> 2 * x < r \<or> 2 * r < x" for x
    using assms(2) by (auto simp: OUTLIER_FACTOR_def field_simps)
  ultimately show ?thesis by (auto simp: calibrate_def)
qed

theorem calibration_resists_outliers_witness:
  "\<exists>c. calibrate [(3, 1 / 100), (2, 1 / 2), (1, 1 / 2)] = Some c \<and> ca_fraction_per_usd c = 1 / 2"
  using calibration_resists_outliers [of "[(3, 1 / 100), (2, 1 / 2), (1, 1 / 2)]" "1 / 2"] by auto

lemma div_bracket:
  fixes a m :: int
  assumes "0 < m"
  shows "a div m * m \<le> a" and "a < (a div m + 1) * m"
proof -
  have "a div m * m + a mod m = a" by (rule div_mult_mod_eq)
  moreover have "0 \<le> a mod m" "a mod m < m" using assms by simp_all
  ultimately show "a div m * m \<le> a" "a < (a div m + 1) * m"
    unfolding distrib_right mult_1 by linarith+
qed

lemma schedule_bracket:
  fixes reset now seconds n :: int
  assumes "0 < n" and "0 < seconds" and "q = (now - reset) div n div seconds"
  shows "reset + seconds * q * n \<le> now" and "now < reset + seconds * (q + 1) * n"
proof -
  let ?e = "(now - reset) div n"
  have "seconds * q \<le> ?e" "?e + 1 \<le> seconds * (q + 1)"
    using div_bracket [OF assms(2), of ?e] by (simp_all add: assms(3) mult.commute)
  then have "seconds * q * n \<le> ?e * n" "(?e + 1) * n \<le> seconds * (q + 1) * n"
    using assms(1) by (simp_all add: mult_right_mono)
  then show "reset + seconds * q * n \<le> now" "now < reset + seconds * (q + 1) * n"
    using div_bracket [OF assms(1), of "now - reset"] by linarith+
qed

text \<open>
  A window that follows the last one straight away is carried to the one that holds now:
  it starts by now, resets after now, is one length long, and begins a whole number of
  lengths after the stored reset.
\<close>

theorem next_on_schedule_holds_now:
  assumes "next_on_schedule reset seconds now = Some (start, ends)" and "0 < seconds" and "reset \<le> now"
  shows "start \<le> now \<and> now < ends \<and> ends - start = seconds * ns_per_second \<and> reset \<le> start \<and>
    seconds * ns_per_second dvd start - reset"
proof -
  define n q where "n = ns_per_second" and "q = (now - reset) div n div seconds"
  have n: "0 < n" by (simp add: n_def)
  have e: "0 \<le> (now - reset) div n" using assms(3) n by (simp add: pos_imp_zdiv_nonneg_iff)
  have "max seconds 1 = seconds" using assms(2) by simp
  then have ends: "ends = reset + seconds * (q + 1) * n" and start: "start = ends - seconds * n"
    using assms(1,3) e unfolding next_on_schedule_def n_def [symmetric] q_def
    by (auto simp: Let_def checked_instant_def split: if_splits option.splits)
  have s: "start = reset + seconds * q * n" by (simp add: start ends algebra_simps)
  have "0 \<le> q" using e assms(2) by (simp add: q_def pos_imp_zdiv_nonneg_iff)
  then have "0 \<le> seconds * q * n" using assms(2) n by simp
  then have "reset \<le> start" using s by linarith
  moreover have "seconds * n dvd start - reset" by (simp add: s mult_dvd_mono)
  moreover have "start \<le> now" "now < ends" "ends - start = seconds * n"
    using schedule_bracket [OF n assms(2) q_def] start s ends by simp_all
  ultimately show ?thesis unfolding n_def by blast
qed

theorem next_on_schedule_holds_now_witness:
  "\<exists>start ends. next_on_schedule 0 18000 50000000000000 = Some (start, ends) \<and>
     start \<le> 50000000000000 \<and> 50000000000000 < ends"
proof -
  have "next_on_schedule 0 18000 50000000000000 = Some (36000000000000, 54000000000000)" by code_simp
  then show ?thesis using next_on_schedule_holds_now by fastforce
qed

lemma trunc_hour_less: "t - hour < trunc_to hour t"
proof (cases "0 \<le> t")
  case True
  then show ?thesis using div_bracket(2) [of hour t] by (simp add: trunc_to_def distrib_right)
next
  case False
  then show ?thesis using div_bracket(1) [of hour "- t"] by (simp add: trunc_to_def)
qed

lemma first_use_Some:
  assumes "first_use used_at lo hi = Some t"
  shows "t \<in> set used_at" and "lo \<le> t" and "t \<le> hi"
proof -
  let ?f = "filter (\<lambda>t. lo \<le> t \<and> t \<le> hi) used_at"
  have "?f \<noteq> []" "t = Min (set ?f)" using assms by (auto simp: first_use_def Let_def split: if_splits)
  then have "t \<in> set ?f" by (metis List.finite_set Min_in set_empty)
  then show "t \<in> set used_at" "lo \<le> t" "t \<le> hi" by auto
qed

text \<open>
  The search for a window that opens on its first use ends whenever the window is at least
  an hour long, since each window searched ends after the request that opened it. The window
  found was opened by a successful request at or after the stored reset, and holds now.
\<close>

theorem opened_on_use_ends:
  assumes "3600 \<le> seconds"
  shows "\<exists>r. opened_on_use used_at reset seconds now = Some r \<and>
    (case r of
       None \<Rightarrow> True
     | Some (first_at, ends) \<Rightarrow> first_at \<in> set used_at \<and> reset \<le> first_at \<and> first_at \<le> now \<and> now < ends)"
proof (induction "nat (now + 1 - reset)" arbitrary: reset rule: less_induct)
  case less
  show ?case
  proof (cases "first_use used_at reset now")
    case None
    then show ?thesis by (subst opened_on_use.simps) simp
  next
    case (Some t)
    note t = first_use_Some [OF Some]
    let ?ends = "trunc_to hour t + seconds * ns_per_second"
    have "hour \<le> seconds * ns_per_second" using assms by simp
    then have later: "t < ?ends" using trunc_hour_less [of t] by linarith
    show ?thesis
    proof (cases "representable ?ends \<and> ?ends \<le> now")
      case True
      then have "nat (now + 1 - ?ends) < nat (now + 1 - reset)" using t later by linarith
      from less.hyps [OF this] obtain r where
        r: "opened_on_use used_at ?ends seconds now = Some r"
          "case r of None \<Rightarrow> True | Some (first_at, ends) \<Rightarrow>
             first_at \<in> set used_at \<and> ?ends \<le> first_at \<and> first_at \<le> now \<and> now < ends" by blast
      have "opened_on_use used_at reset seconds now = Some r"
        using r(1) True Some by (subst opened_on_use.simps) (simp add: checked_instant_def)
      then show ?thesis using r(2) t later by (auto split: option.splits)
    next
      case False
      then show ?thesis using t Some
        by (subst opened_on_use.simps) (auto simp: checked_instant_def)
    qed
  qed
qed

theorem opened_on_use_ends_witness:
  "\<exists>r. opened_on_use [5] 0 18000 10 = Some r"
  using opened_on_use_ends [of 18000 "[5]" 0 10] by auto

end
