(* ===== verification/Responses.thy ===== *)
theory Responses
  imports Usage Windows
begin

text \<open>
  Subscription exhaustion read out of ordinary requests (\<^verbatim>\<open>src/quota/response.rs\<close>): the
  reset that a 429 body names, the marker window \<^verbatim>\<open>meta-subscription\<close> that it leaves on the
  account, the success that clears it, and the expiry of markers whose reset has passed. The
  JSON reader of a body and jiff's instant reader are parameters.
\<close>

section \<open>The reset a body names\<close>

record provider_error =
  pe_message :: json
  pe_code :: json
  pe_resets_at :: json

definition read_error_body :: "json \<Rightarrow> provider_error option" where
  "read_error_body j = do {
     fs \<leftarrow> as_object j;
     error \<leftarrow> read_object (map_of fs ''error'');
     Some \<lparr>pe_message = unwrap_or JNull (map_of error ''message''),
           pe_code = unwrap_or JNull (map_of error ''code''),
           pe_resets_at = unwrap_or JNull (map_of error ''resets_at'')\<rparr> }"

definition contains_ascii_case_insensitive :: "string \<Rightarrow> string \<Rightarrow> bool" where
  "contains_ascii_case_insensitive t needle = contains (to_lower needle) (to_lower t)"

text \<open>What follows the first occurrence of a separator that is not empty.\<close>

fun split_once :: "string \<Rightarrow> string \<Rightarrow> string option" where
  "split_once sep [] = None"
| "split_once sep (c # cs) =
     (if starts_with sep (c # cs) then Some (drop (length sep) (c # cs)) else split_once sep cs)"

definition named_reset :: "(string \<Rightarrow> instant option) \<Rightarrow> provider_error \<Rightarrow> instant option" where
  "named_reset parse_instant e =
     (let message = unwrap_or [] (as_str (pe_message e));
          code = unwrap_or [] (as_str (pe_code e));
          quota_message = contains_ascii_case_insensitive message ''subscription quota'' \<or>
            contains_ascii_case_insensitive message ''quota exhausted'';
          quota_code = to_lower code = ''rate_limit_exceeded'' \<or>
            contains_ascii_case_insensitive code ''quota'';
          seconds = or_else (as_i64 (pe_resets_at e)) (Option.bind (as_str (pe_resets_at e)) parse_i64)
      in if \<not> quota_message \<and> \<not> quota_code then None
         else or_else (Option.bind seconds (\<lambda>s. checked_instant (s * ns_per_second)))
           (Option.bind (split_once ''Your usage window resets at '' message)
             (\<lambda>rest. parse_instant (rev (dropWhile (\<lambda>c. c = CHR ''.'') (rev rest))))))"

section \<open>Observing an event\<close>

definition is_success :: "usage \<Rightarrow> bool" where
  "is_success u \<longleftrightarrow> \<not> u_failed u \<and> 200 \<le> u_status_code u \<and> u_status_code u < 300"

definition reset_of ::
  "(string \<Rightarrow> json option) \<Rightarrow> (string \<Rightarrow> instant option) \<Rightarrow> usage \<Rightarrow> instant \<Rightarrow> instant option" where
  "reset_of json_of parse_instant u now =
     (if u_failed u \<and> u_status_code u = 429 then do {
        body \<leftarrow> u_error_message u;
        j \<leftarrow> json_of body;
        e \<leftarrow> read_error_body j;
        filter_option (\<lambda>t. now < t) (named_reset parse_instant e) }
      else None)"

definition newer_success :: "db \<Rightarrow> id \<Rightarrow> instant \<Rightarrow> bool" where
  "newer_success d i t = (\<exists>e\<in>set (events d).
     e_account e = i \<and> t < u_occurred_at (e_usage e) \<and> is_success (e_usage e))"

definition marker_row :: "id \<Rightarrow> instant \<Rightarrow> instant \<Rightarrow> window_row" where
  "marker_row i reset observed_at =
     \<lparr>w_account = i, w_key = WINDOW_KEY, w_label = ''Subscription quota'',
      w_used_fraction = Some 1, w_used_value = None, w_limit_value = None, w_unit = None,
      w_seconds = None, w_resets_at = Some reset, w_observed_at = observed_at,
      w_scope = ScopeUnmetered, w_starts_on_use = False\<rparr>"

abbreviation window_key :: "window_row \<Rightarrow> id \<times> string" where
  "window_key \<equiv> (\<lambda>w. (w_account w, w_key w))"

text \<open>The conflict clause leaves a row that was observed later as it is.\<close>

definition marker_merge :: "window_row \<Rightarrow> window_row \<Rightarrow> window_row" where
  "marker_merge new old =
     (if w_observed_at old \<le> w_observed_at new
      then old\<lparr>w_resets_at := w_resets_at new, w_observed_at := w_observed_at new\<rparr> else old)"

interpretation marking: keyed_upsert window_key marker_merge
  by unfold_locales (simp add: marker_merge_def)

definition observe ::
  "(string \<Rightarrow> json option) \<Rightarrow> (string \<Rightarrow> instant option) \<Rightarrow> id \<Rightarrow> usage \<Rightarrow> instant \<Rightarrow> db \<Rightarrow> db" where
  "observe json_of parse_instant i u now d =
     (let reset = reset_of json_of parse_instant u now in
      if u_provider u \<noteq> ''meta'' then d
      else if \<not> is_success u \<and> reset = None then d
      else if newer_success d i (u_occurred_at u) then d
      else case reset of
        Some r \<Rightarrow> d\<lparr>windows := upsert window_key marker_merge (marker_row i r (u_occurred_at u)) (windows d)\<rparr>
      | None \<Rightarrow> d\<lparr>windows := delete_where
          (\<lambda>w. w_account w = i \<and> w_key w = WINDOW_KEY \<and> w_observed_at w \<le> u_occurred_at u) (windows d)\<rparr>)"

section \<open>Expiring markers\<close>

definition expired_marker :: "instant \<Rightarrow> window_row \<Rightarrow> bool" where
  "expired_marker now w \<longleftrightarrow> w_key w = WINDOW_KEY \<and>
     (case w_resets_at w of None \<Rightarrow> False | Some r \<Rightarrow> r \<le> now)"

definition expire_account :: "instant \<Rightarrow> id \<Rightarrow> db \<Rightarrow> db" where
  "expire_account now i d =
     record_differences now (read_snapshot (Account i) Quota now d)
       (d\<lparr>windows := delete_where (\<lambda>w. w_account w = i \<and> w_key w = WINDOW_KEY) (windows d)\<rparr>)"

definition expire :: "instant \<Rightarrow> db \<Rightarrow> db" where
  "expire now d =
     fold (expire_account now) (map w_account (filter (expired_marker now) (windows d))) d"

section \<open>The marker as evidence\<close>

definition marker :: "db \<Rightarrow> id \<Rightarrow> window_row option" where
  "marker d i = find (\<lambda>w. window_key w = (i, WINDOW_KEY)) (windows d)"

text \<open>What a delivered request says of the subscription, if anything.\<close>

datatype evidence = Cleared | Exhausted instant

definition evidence_of ::
  "(string \<Rightarrow> json option) \<Rightarrow> (string \<Rightarrow> instant option) \<Rightarrow> event_row \<times> instant \<Rightarrow> evidence option" where
  "evidence_of json_of parse_instant p =
     (if is_success (e_usage (fst p)) then Some Cleared
      else map_option Exhausted (reset_of json_of parse_instant (e_usage (fst p)) (snd p)))"

abbreviation occurred :: "event_row \<times> instant \<Rightarrow> instant" where
  "occurred \<equiv> (\<lambda>p. u_occurred_at (e_usage (fst p)))"

text \<open>A new event is stored and then observed, as the ingest does it.\<close>

definition deliver ::
  "(string \<Rightarrow> json option) \<Rightarrow> (string \<Rightarrow> instant option) \<Rightarrow> event_row \<times> instant \<Rightarrow> db \<Rightarrow> db" where
  "deliver json_of parse_instant p d =
     observe json_of parse_instant (e_account (fst p)) (e_usage (fst p)) (snd p)
       (d\<lparr>events := events d @ [fst p]\<rparr>)"

lemma observe_fields [simp]:
  "sources (observe json_of jp i u now d) = sources d"
  "accounts (observe json_of jp i u now d) = accounts d"
  "credentials (observe json_of jp i u now d) = credentials d"
  "plans (observe json_of jp i u now d) = plans d"
  "events (observe json_of jp i u now d) = events d"
  "prices (observe json_of jp i u now d) = prices d"
  "dead_letters (observe json_of jp i u now d) = dead_letters d"
  "changes (observe json_of jp i u now d) = changes d"
  "change_seq (observe json_of jp i u now d) = change_seq d"
  by (simp_all add: observe_def Let_def split: option.splits)

lemma reset_not_success: "reset_of json_of jp u now \<noteq> None \<Longrightarrow> \<not> is_success u"
  by (auto simp: reset_of_def is_success_def split: if_splits)

lemma distinct_observe:
  "distinct (map window_key (windows d)) \<Longrightarrow>
   distinct (map window_key (windows (observe json_of jp i u now d)))"
  by (auto simp: observe_def Let_def marking.distinct_upsert delete_where_def distinct_map_filter
      split: option.splits)

lemma find_delete_key:
  assumes "distinct (map key rows)"
  shows "find (\<lambda>w. key w = k) (delete_where (\<lambda>w. key w = k \<and> p w) rows) =
    (case find (\<lambda>w. key w = k) rows of None \<Rightarrow> None | Some w \<Rightarrow> if p w then None else Some w)"
  using assms
proof (induction rows)
  case Nil
  then show ?case by (simp add: delete_where_def)
next
  case (Cons r rows)
  have none: "find (\<lambda>w. key w = k) (filter q rows) = None" if "key r = k" for q
    using Cons.prems that by (auto simp: find_None_iff) (metis imageI)
  then show ?case using Cons by (auto simp: delete_where_def)
qed

lemma marker_observe:
  assumes "distinct (map window_key (windows d))" and "u_provider u = ''meta''"
  shows "marker (observe json_of jp i u now d) i =
    (if newer_success d i (u_occurred_at u) then marker d i
     else if is_success u then
       (case marker d i of None \<Rightarrow> None
        | Some w \<Rightarrow> if w_observed_at w \<le> u_occurred_at u then None else Some w)
     else case reset_of json_of jp u now of None \<Rightarrow> marker d i
     | Some r \<Rightarrow> Some (case marker d i of None \<Rightarrow> marker_row i r (u_occurred_at u)
                     | Some w \<Rightarrow> marker_merge (marker_row i r (u_occurred_at u)) w))"
proof -
  have "window_key (marker_row i r t) = (i, WINDOW_KEY)" for r t by (simp add: marker_row_def)
  then have up: "find (\<lambda>w. window_key w = (i, WINDOW_KEY))
      (upsert window_key marker_merge (marker_row i r t) (windows d)) =
      Some (case marker d i of None \<Rightarrow> marker_row i r t | Some w \<Rightarrow> marker_merge (marker_row i r t) w)"
    for r t
    using marking.find_upsert_same [of "marker_row i r t" "windows d"] by (simp add: marker_def)
  have del: "find (\<lambda>w. window_key w = (i, WINDOW_KEY))
      (delete_where (\<lambda>w. w_account w = i \<and> w_key w = WINDOW_KEY \<and> w_observed_at w \<le> t) (windows d)) =
      (case marker d i of None \<Rightarrow> None | Some w \<Rightarrow> if w_observed_at w \<le> t then None else Some w)" for t
    using find_delete_key [OF assms(1), of "(i, WINDOW_KEY)" "\<lambda>w. w_observed_at w \<le> t"]
    by (simp add: marker_def)
  show ?thesis
    using up del assms(2) reset_not_success [of json_of jp u now]
    by (auto simp: observe_def Let_def marker_def split: option.splits)
qed

text \<open>The account's evidence in the order it arrived, and what the newest of it says.\<close>

definition evidence_log ::
  "(string \<Rightarrow> json option) \<Rightarrow> (string \<Rightarrow> instant option) \<Rightarrow> (event_row \<times> instant) list \<Rightarrow> (instant \<times> evidence) list" where
  "evidence_log json_of parse_instant ps =
     List.map_filter (\<lambda>p. map_option (\<lambda>e. (occurred p, e)) (evidence_of json_of parse_instant p)) ps"

definition newest_exhausted :: "(instant \<times> evidence) list \<Rightarrow> instant \<Rightarrow> instant \<Rightarrow> bool" where
  "newest_exhausted es t r \<longleftrightarrow>
     (t, Exhausted r) \<in> set es \<and> (\<forall>x\<in>fst ` set es. x \<le> t)"

definition heed ::
  "(instant \<times> evidence) list \<Rightarrow> instant \<Rightarrow> evidence \<Rightarrow> (instant \<times> instant) option \<Rightarrow> (instant \<times> instant) option" where
  "heed es t e m =
     (if \<exists>x. (x, Cleared) \<in> set es \<and> t < x then m
      else case e of
        Cleared \<Rightarrow> filter_option (\<lambda>(x, _). t < x) m
      | Exhausted r \<Rightarrow> (case m of None \<Rightarrow> Some (t, r) | Some (x, _) \<Rightarrow> if x \<le> t then Some (t, r) else m))"

lemma newest_exists:
  fixes es :: "(instant \<times> evidence) list"
  assumes "es \<noteq> []"
  shows "\<exists>t e. (t, e) \<in> set es \<and> (\<forall>x\<in>fst ` set es. x \<le> t)"
proof -
  have "Max (fst ` set es) \<in> fst ` set es" using assms by (intro Max_in) auto
  moreover have "\<forall>x\<in>fst ` set es. x \<le> Max (fst ` set es)" by simp
  ultimately show ?thesis by (metis imageE prod.collapse)
qed

lemma heed_newest:
  assumes m: "\<And>t r. m = Some (t, r) \<longleftrightarrow> newest_exhausted es t r" and "t \<notin> fst ` set es"
  shows "heed es t e m = Some (u, r) \<longleftrightarrow> newest_exhausted (es @ [(t, e)]) u r"
proof -
  have none: "m = None \<Longrightarrow> es = [] \<or> (\<exists>x. (x, Cleared) \<in> set es \<and> (\<forall>y\<in>fst ` set es. y \<le> x))"
  proof (rule ccontr)
    assume *: "m = None" "\<not> (es = [] \<or> (\<exists>x. (x, Cleared) \<in> set es \<and> (\<forall>y\<in>fst ` set es. y \<le> x)))"
    then obtain x k where x: "(x, k) \<in> set es" "\<forall>y\<in>fst ` set es. y \<le> x" using newest_exists by blast
    then have "\<exists>r. newest_exhausted es x r" using * by (cases k) (auto simp: newest_exhausted_def)
    then show False using m * by auto
  qed
  have some: "m = Some (x, s) \<Longrightarrow> (x, Exhausted s) \<in> set es \<and> (\<forall>y\<in>fst ` set es. y \<le> x)" for x s
    using m by (auto simp: newest_exhausted_def)
  have fst_in: "(x, k) \<in> set es \<Longrightarrow> x \<in> fst ` set es \<and> x \<noteq> t" for x k
    using assms(2) by force
  have new: "newest_exhausted (es @ [(t, e)]) u r \<longleftrightarrow>
      (u = t \<and> e = Exhausted r \<and> (\<forall>y\<in>fst ` set es. y \<le> t)) \<or> (newest_exhausted es u r \<and> t \<le> u)"
    using fst_in by (auto simp: newest_exhausted_def)
  show ?thesis
  proof (cases "\<exists>x. (x, Cleared) \<in> set es \<and> t < x")
    case True
    then obtain x where x: "(x, Cleared) \<in> set es" "t < x" by blast
    have "x \<in> fst ` set es" using fst_in [OF x(1)] by simp
    then have "\<not> (\<forall>y\<in>fst ` set es. y \<le> t)" and "newest_exhausted es u r \<Longrightarrow> t \<le> u"
      using x(2) unfolding newest_exhausted_def by (metis not_le, metis order.strict_implies_order order.trans)
    then show ?thesis using True m new by (auto simp: heed_def)
  next
    case False
    obtain le where le: "le \<longleftrightarrow> (\<forall>y\<in>fst ` set es. y \<le> t)" by blast
    have "m = None \<Longrightarrow> le" unfolding le using none False fst_in by force
    moreover have "m = Some (x, s) \<Longrightarrow> le \<longleftrightarrow> x \<le> t" for x s
      unfolding le using some [of x s] fst_in [of x "Exhausted s"] by force
    moreover have "newest_exhausted es u r \<Longrightarrow> u \<noteq> t"
      using fst_in by (auto simp: newest_exhausted_def)
    ultimately show ?thesis
      using False m [of u r] unfolding new [folded le]
      by (cases m; cases e) (auto simp: heed_def filter_option_def)
  qed
qed

definition marked :: "db \<Rightarrow> id \<Rightarrow> (instant \<times> instant) option \<Rightarrow> bool" where
  "marked d i m \<longleftrightarrow>
     (case marker d i of None \<Rightarrow> m = None
      | Some w \<Rightarrow> (\<exists>r. w_resets_at w = Some r \<and> m = Some (w_observed_at w, r)))"

lemma deliver_marked:
  assumes "distinct (map window_key (windows d))" and "u_provider (e_usage (fst p)) = ''meta''"
    and "e_account (fst p) = i"
    and newer: "\<And>t. newer_success d i t \<longleftrightarrow> (\<exists>x. (x, Cleared) \<in> set es \<and> t < x)"
    and m: "marked d i m"
  shows "marked (deliver jo jp p d) i
    (case evidence_of jo jp p of None \<Rightarrow> m | Some e \<Rightarrow> heed es (occurred p) e m)"
proof -
  let ?d = "d\<lparr>events := events d @ [fst p]\<rparr>" and ?u = "e_usage (fst p)"
  have "newer_success ?d i (occurred p) = newer_success d i (occurred p)"
    by (auto simp: newer_success_def)
  then have new: "newer_success ?d i (u_occurred_at ?u) \<longleftrightarrow>
      (\<exists>x. (x, Cleared) \<in> set es \<and> u_occurred_at ?u < x)" using newer by simp
  have same: "marker ?d i = marker d i" by (simp add: marker_def)
  have "distinct (map window_key (windows ?d))" using assms(1) by simp
  note obs = marker_observe [OF this assms(2), of jo jp i "snd p", unfolded new same]
  show ?thesis
  proof (cases "\<exists>x. (x, Cleared) \<in> set es \<and> u_occurred_at ?u < x")
    case True
    then show ?thesis using obs m assms(3)
      by (auto simp: deliver_def marked_def heed_def split: option.splits)
  next
    case False
    then show ?thesis using obs m assms(3)
      by (auto simp: deliver_def marked_def heed_def evidence_of_def marker_row_def marker_merge_def
          filter_option_def not_less split: option.splits if_splits)
  qed
qed

lemma newer_success_deliver:
  "e_account (fst p) = i \<Longrightarrow> newer_success (deliver jo jp p d) i t \<longleftrightarrow>
     newer_success d i t \<or> (t < occurred p \<and> evidence_of jo jp p = Some Cleared)"
  by (auto simp: newer_success_def deliver_def evidence_of_def)

lemma evidence_log_snoc:
  "evidence_log jo jp (ps @ [p]) = evidence_log jo jp ps @
     (case evidence_of jo jp p of None \<Rightarrow> [] | Some e \<Rightarrow> [(occurred p, e)])"
  by (simp add: evidence_log_def List.map_filter_def split: option.splits)

lemma deliver_all:
  assumes "distinct (map window_key (windows d))" and "marker d i = None"
    and "\<forall>e\<in>set (events d). e_account e \<noteq> i"
    and "\<forall>p\<in>set ps. e_account (fst p) = i \<and> u_provider (e_usage (fst p)) = ''meta''"
    and "distinct (map fst (evidence_log jo jp ps))"
  shows "distinct (map window_key (windows (fold (deliver jo jp) ps d)))"
    and "newer_success (fold (deliver jo jp) ps d) i t \<longleftrightarrow>
      (\<exists>x. (x, Cleared) \<in> set (evidence_log jo jp ps) \<and> t < x)"
    and "\<exists>m. marked (fold (deliver jo jp) ps d) i m \<and>
      (\<forall>t r. m = Some (t, r) \<longleftrightarrow> newest_exhausted (evidence_log jo jp ps) t r)"
  using assms(4,5)
proof (induction ps arbitrary: t rule: rev_induct)
  case Nil
  { case 1 then show ?case using assms(1) by simp
  next case (2 t) then show ?case using assms(3) by (simp add: newer_success_def evidence_log_def List.map_filter_simps)
  next case 3 then show ?case using assms(2)
      by (simp add: marked_def newest_exhausted_def evidence_log_def List.map_filter_simps) }
next
  case (snoc p ps)
  let ?d = "fold (deliver jo jp) ps d" and ?es = "evidence_log jo jp ps"
  have pre: "\<forall>p\<in>set ps. e_account (fst p) = i \<and> u_provider (e_usage (fst p)) = ''meta''"
    "distinct (map fst ?es)" if "\<forall>q\<in>set (ps @ [p]). e_account (fst q) = i \<and> u_provider (e_usage (fst q)) = ''meta''"
      "distinct (map fst (evidence_log jo jp (ps @ [p])))"
    using that by (auto simp: evidence_log_snoc split: option.splits)
  { case 1
    note IH = snoc.IH [OF pre [OF 1]]
    then show ?case by (simp add: deliver_def distinct_observe)
  next
    case (2 t)
    note IH = snoc.IH [OF pre [OF 2]]
    show ?case using IH(2) 2(1) by (auto simp: newer_success_deliver evidence_log_snoc split: option.splits)
  next
    case 3
    note IH = snoc.IH [OF pre [OF 3]]
    obtain m where m: "marked ?d i m" "\<And>t r. m = Some (t, r) \<longleftrightarrow> newest_exhausted ?es t r"
      using IH(3) by blast
    have p: "u_provider (e_usage (fst p)) = ''meta''" "e_account (fst p) = i" using 3(1) by auto
    note step = deliver_marked [where jo = jo and jp = jp, OF IH(1) p IH(2) m(1)]
    show ?case
    proof (cases "evidence_of jo jp p")
      case None
      then have "marked (fold (deliver jo jp) (ps @ [p]) d) i m" using step by simp
      then show ?thesis using m(2) None by (intro exI [of _ m]) (simp add: evidence_log_snoc)
    next
      case (Some e)
      then have "occurred p \<notin> fst ` set ?es" using 3(2) by (simp add: evidence_log_snoc)
      then have "marked (fold (deliver jo jp) (ps @ [p]) d) i (heed ?es (occurred p) e m)"
        using step Some by simp
      moreover have "heed ?es (occurred p) e m = Some (t, r) \<longleftrightarrow>
          newest_exhausted (evidence_log jo jp (ps @ [p])) t r" for t r
        using heed_newest [OF m(2) \<open>occurred p \<notin> fst ` set ?es\<close>] Some by (simp add: evidence_log_snoc)
      ultimately show ?thesis by blast
    qed }
qed

lemma in_evidence_log:
  "(t, Exhausted r) \<in> set (evidence_log jo jp ps) \<longleftrightarrow>
     (\<exists>(e, now)\<in>set ps. u_occurred_at (e_usage e) = t \<and> \<not> is_success (e_usage e) \<and>
        reset_of jo jp (e_usage e) now = Some r)"
  by (force simp: evidence_log_def set_map_filter evidence_of_def split: if_splits)

lemma evidence_log_bound:
  "(\<forall>x\<in>fst ` set (evidence_log jo jp ps). x \<le> t) \<longleftrightarrow>
     (\<forall>(e, now)\<in>set ps. is_success (e_usage e) \<or> reset_of jo jp (e_usage e) now \<noteq> None \<longrightarrow>
        u_occurred_at (e_usage e) \<le> t)"
proof -
  have "(\<forall>x\<in>fst ` set (evidence_log jo jp ps). x \<le> t) \<longleftrightarrow>
      (\<forall>p\<in>set ps. evidence_of jo jp p \<noteq> None \<longrightarrow> occurred p \<le> t)"
    unfolding evidence_log_def set_map_filter by (fastforce simp del: split_paired_All)
  also have "\<dots> \<longleftrightarrow> (\<forall>(e, now)\<in>set ps. evidence_of jo jp (e, now) \<noteq> None \<longrightarrow> u_occurred_at (e_usage e) \<le> t)"
    by (rule ball_cong) auto
  also have "\<dots> \<longleftrightarrow> (\<forall>(e, now)\<in>set ps. is_success (e_usage e) \<or> reset_of jo jp (e_usage e) now \<noteq> None \<longrightarrow>
      u_occurred_at (e_usage e) \<le> t)"
    by (rule ball_cong) (auto simp: evidence_of_def)
  finally show ?thesis .
qed

section \<open>Properties\<close>

text \<open>
  C8: the exhaustion marker says what the newest evidence says, in whatever order a gateway's
  buffer delivers the requests. The account is marked exhausted, observed when that request
  happened and until the reset it named, exactly when the newest of the delivered requests
  that say anything of the subscription is a refusal that named a reset still to come;
  a success that happened later clears it, and a failure that is older than a success
  does not bring it back.
\<close>

theorem exhaustion_follows_newest_evidence:
  assumes "distinct (map window_key (windows d))" and "marker d i = None"
    and "\<forall>e\<in>set (events d). e_account e \<noteq> i"
    and "\<forall>p\<in>set ps. e_account (fst p) = i \<and> u_provider (e_usage (fst p)) = ''meta''"
    and "distinct (map fst (evidence_log json_of parse_instant ps))"
  shows "(\<exists>w. marker (fold (deliver json_of parse_instant) ps d) i = Some w \<and>
      w_observed_at w = t \<and> w_resets_at w = Some r) \<longleftrightarrow>
    (\<exists>(e, now)\<in>set ps. u_occurred_at (e_usage e) = t \<and> \<not> is_success (e_usage e) \<and>
       reset_of json_of parse_instant (e_usage e) now = Some r \<and>
       (\<forall>(e', now')\<in>set ps. is_success (e_usage e') \<or>
          reset_of json_of parse_instant (e_usage e') now' \<noteq> None \<longrightarrow> u_occurred_at (e_usage e') \<le> t))"
    (is "?L \<longleftrightarrow> ?R")
proof -
  obtain m where m: "marked (fold (deliver json_of parse_instant) ps d) i m"
    "\<And>t r. m = Some (t, r) \<longleftrightarrow> newest_exhausted (evidence_log json_of parse_instant ps) t r"
    using deliver_all(3) [OF assms] by blast
  have "?L \<longleftrightarrow> m = Some (t, r)" using m(1) by (auto simp: marked_def split: option.splits)
  also have "\<dots> \<longleftrightarrow> ?R"
    unfolding m(2) newest_exhausted_def in_evidence_log evidence_log_bound by blast
  finally show ?thesis .
qed

definition meta_usage :: "int \<Rightarrow> int \<Rightarrow> instant \<Rightarrow> usage" where
  "meta_usage input status t =
     \<lparr>u_upstream_id = ''a'', u_occurred_at = t, u_provider = ''meta'', u_model = ''muse'',
      u_model_alias = None, u_endpoint = [], u_caller = None, u_harness = None, u_user_agent = None,
      u_session_id = None, u_input_tokens = input, u_output_tokens = 0, u_reasoning_tokens = 0,
      u_cache_read_tokens = 0, u_cache_write_tokens = 0, u_unclassified_tokens = 0,
      u_total_tokens = input, u_token_quality = None, u_latency_ms = None, u_ttft_ms = None,
      u_streamed = False, u_status_code = status, u_failed = (status \<noteq> 200),
      u_error_message = (if status = 200 then None else Some ''body''),
      u_service_tier = None, u_reasoning_effort = None\<rparr>"

definition meta_event :: "id \<Rightarrow> int \<Rightarrow> instant \<Rightarrow> event_row" where
  "meta_event n status t = \<lparr>e_id = n, e_source = 1, e_account = 7, e_hash = [],
     e_usage = meta_usage 10 status t, e_price = None, e_list_cost = None, e_billed_cost = None\<rparr>"

definition meta_body :: json where
  "meta_body = JObject [(''error'', JObject [(''code'', JString ''rate_limit_exceeded''), (''resets_at'', JInt 1)])]"

theorem exhaustion_follows_newest_evidence_witness:
  "\<exists>w. marker (fold (deliver (\<lambda>_. Some meta_body) (\<lambda>_. None))
      [(meta_event 1 429 20, 50), (meta_event 2 200 10, 50)] empty_db) 7 = Some w \<and>
    w_observed_at w = 20 \<and> w_resets_at w = Some 1000000000"
proof -
  let ?ps = "[(meta_event 1 429 20, 50), (meta_event 2 200 10, 50)]"
  let ?jo = "\<lambda>_. Some meta_body" and ?jp = "\<lambda>_. None :: instant option"
  have r: "reset_of ?jo ?jp (meta_usage 10 429 20) 50 = Some 1000000000"
    "reset_of ?jo ?jp (meta_usage 10 200 10) 50 = None" by code_simp+
  have s: "\<not> is_success (meta_usage 10 429 20)" "is_success (meta_usage 10 200 10)"
    "u_occurred_at (meta_usage n k t) = t" "u_provider (meta_usage n k t) = ''meta''" for n k t
    by (simp_all add: meta_usage_def is_success_def)
  have a: "distinct (map window_key (windows empty_db))" "marker empty_db 7 = None"
    "\<forall>e\<in>set (events empty_db). e_account e \<noteq> 7"
    "\<forall>p\<in>set ?ps. e_account (fst p) = 7 \<and> u_provider (e_usage (fst p)) = ''meta''"
    "distinct (map fst (evidence_log ?jo ?jp ?ps))"
    by (simp_all add: empty_db_def marker_def meta_event_def s r evidence_log_def evidence_of_def
        List.map_filter_simps)
  show ?thesis
    unfolding exhaustion_follows_newest_evidence [OF a] by (simp add: meta_event_def s r)
qed

end
