(* ===== verification/Ingest.thy ===== *)
theory Ingest
  imports Responses Merging
begin

text \<open>
  Storing a batch of records (\<^verbatim>\<open>src/usage/ingest.rs\<close>, \<^verbatim>\<open>src/usage/dead_letter.rs\<close>): the
  bytes that are hashed to tell requests apart, the event and its account, the duplicate that
  changes nothing, the dead letter of a refused record, the changes a batch records, and the
  pruning of dead letters. What is not this repository's code is a field of \<open>services\<close>:
  blake3, the two readers of text, jiff's printer, an error's message, and the ids the
  generator of \<open>Ids\<close> mints, the n-th of the batch under n.
\<close>

record 'e services =
  sv_json_of :: "string \<Rightarrow> json option"
  sv_parse_instant :: "string \<Rightarrow> instant option"
  sv_print_instant :: "instant \<Rightarrow> string"
  sv_hash :: "string \<Rightarrow> string"
  sv_show_error :: "'e \<Rightarrow> string"
  sv_ids :: "nat \<Rightarrow> id"

definition ARRIVAL_WINDOW :: int where "ARRIVAL_WINDOW = 1440 * minute"

section \<open>The identity of a record\<close>

text \<open>Eight bytes, the least significant first.\<close>

definition le_bytes :: "int \<Rightarrow> string" where
  "le_bytes n = map (\<lambda>k. char_of (nat (n div 256 ^ k mod 256))) [0..<8]"

definition text_bytes :: "string \<Rightarrow> string" where
  "text_bytes s = le_bytes (int (length s)) @ s"

definition measure_bytes :: "int option \<Rightarrow> string" where
  "measure_bytes m = (case m of None \<Rightarrow> [char_of (0 :: nat)] | Some n \<Rightarrow> char_of (1 :: nat) # le_bytes n)"

definition record_texts :: "(instant \<Rightarrow> string) \<Rightarrow> new_event \<Rightarrow> string list" where
  "record_texts print e =
     (let u = ne_usage e
      in [u_upstream_id u, print (u_occurred_at u), stored_key (ne_account e) (u_provider u),
          u_provider u, u_model u, u_endpoint u])"

definition record_counts :: "usage \<Rightarrow> int list" where
  "record_counts u =
     [u_input_tokens u, u_output_tokens u, u_reasoning_tokens u, u_cache_read_tokens u,
      u_cache_write_tokens u, u_unclassified_tokens u, u_total_tokens u, u_status_code u]"

definition record_bytes :: "(instant \<Rightarrow> string) \<Rightarrow> new_event \<Rightarrow> string" where
  "record_bytes print e =
     (let u = ne_usage e
      in concat (map text_bytes (record_texts print e)) @ concat (map le_bytes (record_counts u)) @
         [char_of (if u_failed u then 1 else 0 :: nat)] @
         measure_bytes (u_latency_ms u) @ measure_bytes (u_ttft_ms u))"

definition record_hash :: "'e services \<Rightarrow> new_event \<Rightarrow> string" where
  "record_hash sv e = sv_hash sv (record_bytes (sv_print_instant sv) e)"

text \<open>No two records spell the same bytes.\<close>

lemma length_le_bytes [simp]: "length (le_bytes n) = 8"
  by (simp add: le_bytes_def)

lemma mod_power_digits:
  fixes m n :: int
  assumes "\<And>k. k < j \<Longrightarrow> m div 256 ^ k mod 256 = n div 256 ^ k mod 256"
  shows "m mod 256 ^ j = n mod 256 ^ j"
  using assms
proof (induction j)
  case (Suc j)
  have "x mod 256 ^ Suc j = 256 ^ j * (x div 256 ^ j mod 256) + x mod 256 ^ j" for x :: int
    using zmod_zmult2_eq [of 256 x "256 ^ j"] by (simp add: mult.commute)
  then show ?case using Suc by simp
qed simp

lemma le_bytes_mod:
  assumes "le_bytes m = le_bytes n"
  shows "m mod 2 ^ 64 = n mod 2 ^ 64"
proof -
  have "m div 256 ^ k mod 256 = n div 256 ^ k mod 256" if "k < 8" for k
  proof -
    have "char_of (nat (m div 256 ^ k mod 256)) = (char_of (nat (n div 256 ^ k mod 256)) :: char)"
      using assms that unfolding le_bytes_def map_eq_conv by simp
    then have "nat (m div 256 ^ k mod 256) mod 256 = nat (n div 256 ^ k mod 256) mod 256"
      by (metis of_char_of)
    moreover have "nat (x mod 256) mod 256 = nat (x mod 256)" for x :: int
      by (simp add: nat_less_iff)
    ultimately show ?thesis by (simp add: eq_nat_nat_iff)
  qed
  from mod_power_digits [OF this, of 8] show ?thesis by simp
qed

lemma le_bytes_i64: "in_i64 m \<Longrightarrow> in_i64 n \<Longrightarrow> le_bytes m = le_bytes n \<longleftrightarrow> m = n"
proof
  assume "in_i64 m" "in_i64 n" "le_bytes m = le_bytes n"
  then have "(m + 2 ^ 63) mod 2 ^ 64 = (n + 2 ^ 63) mod 2 ^ 64"
    by (metis le_bytes_mod mod_add_left_eq)
  then show "m = n" using \<open>in_i64 m\<close> \<open>in_i64 n\<close> by (simp add: in_i64_def)
qed simp

lemma text_bytes_append:
  assumes "text_bytes s @ xs = text_bytes t @ ys" and "length s < 2 ^ 64" and "length t < 2 ^ 64"
  shows "s = t \<and> xs = ys"
proof -
  have "le_bytes (int (length s)) = le_bytes (int (length t))" and "s @ xs = t @ ys"
    using assms(1) by (simp_all add: text_bytes_def append_eq_append_conv)
  moreover have "int (length s) mod 2 ^ 64 = int (length s)" "int (length t) mod 2 ^ 64 = int (length t)"
    using assms(2,3) by simp_all
  ultimately show ?thesis using le_bytes_mod by (metis append_eq_append_conv of_nat_eq_iff)
qed

lemma texts_append:
  assumes "concat (map text_bytes ss) @ xs = concat (map text_bytes ts) @ ys"
    and "length ss = length ts" and "\<forall>s\<in>set (ss @ ts). length s < 2 ^ 64"
  shows "ss = ts \<and> xs = ys"
  using assms(2,1,3)
proof (induction ss ts rule: list_induct2)
  case (Cons s ss t ts)
  have "s = t \<and> concat (map text_bytes ss) @ xs = concat (map text_bytes ts) @ ys"
    using Cons.prems by (intro text_bytes_append) simp_all
  then show ?case using Cons by simp
qed simp

lemma counts_append:
  assumes "concat (map le_bytes ms) @ xs = concat (map le_bytes ns) @ ys"
    and "length ms = length ns" and "\<forall>n\<in>set (ms @ ns). in_i64 n"
  shows "ms = ns \<and> xs = ys"
  using assms(2,1,3)
proof (induction ms ns rule: list_induct2)
  case (Cons m ms n ns)
  have "le_bytes m = le_bytes n \<and> concat (map le_bytes ms) @ xs = concat (map le_bytes ns) @ ys"
    using Cons.prems(1) by (simp add: append_eq_append_conv)
  then show ?case using Cons le_bytes_i64 by simp
qed simp

lemma measure_append:
  assumes "measure_bytes m @ xs = measure_bytes n @ ys"
    and "pred_option in_i64 m" and "pred_option in_i64 n"
  shows "m = n \<and> xs = ys"
  using assms le_bytes_i64
  by (cases m; cases n) (simp_all add: measure_bytes_def append_eq_append_conv char_of_eq_iff)

definition sized :: "(instant \<Rightarrow> string) \<Rightarrow> new_event \<Rightarrow> bool" where
  "sized print e \<longleftrightarrow>
     (\<forall>s\<in>set (record_texts print e). length s < 2 ^ 64) \<and>
     (\<forall>n\<in>set (record_counts (ne_usage e)). in_i64 n) \<and>
     pred_option in_i64 (u_latency_ms (ne_usage e)) \<and> pred_option in_i64 (u_ttft_ms (ne_usage e))"

lemma record_bytes_inj:
  assumes "record_bytes print e = record_bytes print e'" and "sized print e" and "sized print e'"
  shows "record_texts print e = record_texts print e' \<and>
    record_counts (ne_usage e) = record_counts (ne_usage e') \<and>
    u_failed (ne_usage e) = u_failed (ne_usage e') \<and>
    u_latency_ms (ne_usage e) = u_latency_ms (ne_usage e') \<and>
    u_ttft_ms (ne_usage e) = u_ttft_ms (ne_usage e')"
proof -
  let ?rest = "\<lambda>u. concat (map le_bytes (record_counts u)) @ [char_of (if u_failed u then 1 else 0 :: nat)] @
    measure_bytes (u_latency_ms u) @ measure_bytes (u_ttft_ms u)"
  let ?tail = "\<lambda>u. measure_bytes (u_latency_ms u) @ measure_bytes (u_ttft_ms u)"
  let ?u = "ne_usage e" and ?v = "ne_usage e'"
  have t: "record_texts print e = record_texts print e' \<and> ?rest ?u = ?rest ?v"
  proof (rule texts_append)
    show "concat (map text_bytes (record_texts print e)) @ ?rest ?u =
        concat (map text_bytes (record_texts print e')) @ ?rest ?v"
      using assms(1) by (simp add: record_bytes_def Let_def)
    show "length (record_texts print e) = length (record_texts print e')"
      by (simp add: record_texts_def Let_def)
    show "\<forall>s\<in>set (record_texts print e @ record_texts print e'). length s < 2 ^ 64"
      using assms(2,3) by (auto simp: sized_def)
  qed
  have "record_counts ?u = record_counts ?v \<and>
      [char_of (if u_failed ?u then 1 else 0 :: nat)] @ ?tail ?u =
      [char_of (if u_failed ?v then 1 else 0 :: nat)] @ ?tail ?v"
  proof (rule counts_append)
    show "length (record_counts ?u) = length (record_counts ?v)" by (simp add: record_counts_def)
    show "\<forall>n\<in>set (record_counts ?u @ record_counts ?v). in_i64 n"
      using assms(2,3) by (auto simp: sized_def)
  qed (use t in blast)
  then have c: "record_counts ?u = record_counts ?v" "u_failed ?u = u_failed ?v" "?tail ?u = ?tail ?v"
    by (auto simp: char_of_eq_iff split: if_splits)
  have l: "u_latency_ms ?u = u_latency_ms ?v \<and>
      measure_bytes (u_ttft_ms ?u) @ [] = measure_bytes (u_ttft_ms ?v) @ []"
    using c(3) assms(2,3) by (intro measure_append) (simp_all add: sized_def)
  then have "u_ttft_ms ?u = u_ttft_ms ?v"
    using assms(2,3) measure_append [of "u_ttft_ms ?u" "[]" "u_ttft_ms ?v" "[]"] by (simp add: sized_def)
  then show ?thesis using t c l by blast
qed

section \<open>A batch\<close>

record ingest_report =
  ir_accepted :: int
  ir_duplicates :: int
  ir_rejected :: int

definition stored_event :: "id \<Rightarrow> id \<Rightarrow> id \<Rightarrow> string \<Rightarrow> new_event \<Rightarrow> event_row" where
  "stored_event i source account_id hash e =
     \<lparr>e_id = i, e_source = source, e_account = account_id, e_hash = hash, e_usage = ne_usage e,
      e_price = None, e_list_cost = None, e_billed_cost = ne_billed_cost e\<rparr>"

abbreviation event_key :: "event_row \<Rightarrow> id \<times> string" where
  "event_key \<equiv> (\<lambda>e. (e_source e, e_hash e))"

definition insert_event :: "event_row \<Rightarrow> db \<Rightarrow> bool \<times> db" where
  "insert_event e d =
     (if \<exists>r\<in>set (events d). event_key r = event_key e then (False, d)
      else (True, d\<lparr>events := events d @ [e]\<rparr>))"

definition insert_dead_letter :: "id \<Rightarrow> id \<Rightarrow> instant \<Rightarrow> string \<Rightarrow> json \<Rightarrow> db \<Rightarrow> db" where
  "insert_dead_letter i source received_at error payload d =
     d\<lparr>dead_letters := dead_letters d @
         [\<lparr>l_id = i, l_source = source, l_received_at = received_at, l_error = error, l_payload = payload\<rparr>]\<rparr>"

text \<open>What the loop over the records carries.\<close>

record batch =
  bt_db :: db
  bt_minted :: nat
  bt_report :: ingest_report
  bt_stored :: "id list"
  bt_arrivals :: "(id \<times> bool) list"
  bt_new_credential :: bool

definition ingest_event :: "'e services \<Rightarrow> id \<Rightarrow> instant \<Rightarrow> new_event \<Rightarrow> batch \<Rightarrow> batch" where
  "ingest_event sv source received_at e b =
     (let u = ne_usage e;
          candidate = sv_ids sv (bt_minted b);
          (account_id, d1) = resolve candidate source (u_provider u) (ne_account e) (u_occurred_at u) (bt_db b);
          fresh = (bt_new_credential b \<or> account_id = candidate \<and> n_key (ne_account e) \<noteq> []);
          i = sv_ids sv (bt_minted b + 1);
          (new, d2) = insert_event (stored_event i source account_id (record_hash sv e) e) d1;
          b1 = b\<lparr>bt_minted := bt_minted b + 2, bt_new_credential := fresh\<rparr>
      in if new
         then b1\<lparr>bt_db := observe (sv_json_of sv) (sv_parse_instant sv) account_id u received_at d2,
                 bt_arrivals := (if received_at - ARRIVAL_WINDOW \<le> u_occurred_at u
                                 then bt_arrivals b @ [(account_id, u_failed u)] else bt_arrivals b),
                 bt_stored := bt_stored b @ [i],
                 bt_report := (bt_report b)\<lparr>ir_accepted := ir_accepted (bt_report b) + 1\<rparr>\<rparr>
         else b1\<lparr>bt_db := d2,
                 bt_report := (bt_report b)\<lparr>ir_duplicates := ir_duplicates (bt_report b) + 1\<rparr>\<rparr>)"

definition ingest_record :: "'e services \<Rightarrow> id \<Rightarrow> instant \<Rightarrow> 'e incoming \<Rightarrow> batch \<Rightarrow> batch" where
  "ingest_record sv source received_at inc b =
     (case inc of
        Incoming e \<Rightarrow> ingest_event sv source received_at e b
      | Rejected error payload \<Rightarrow>
          b\<lparr>bt_db := insert_dead_letter (sv_ids sv (bt_minted b)) source received_at
                      (sv_show_error sv error) payload (bt_db b),
            bt_minted := bt_minted b + 1,
            bt_report := (bt_report b)\<lparr>ir_rejected := ir_rejected (bt_report b) + 1\<rparr>\<rparr>)"

definition is_meta :: "'e incoming \<Rightarrow> bool" where
  "is_meta inc = (case inc of Incoming e \<Rightarrow> u_provider (ne_usage e) = ''meta'' | Rejected _ _ \<Rightarrow> False)"

text \<open>
  The whole transaction. Its answer is the batch: the report, the stored ids that are
  published afterwards, and whether the gateway's credential list has to be read first.
\<close>

definition ingest :: "'e services \<Rightarrow> instant \<Rightarrow> id \<Rightarrow> 'e incoming list \<Rightarrow> db \<Rightarrow> batch" where
  "ingest sv received_at source records d =
     (let sn = read_snapshot (Source source) (if list_ex is_meta records then Quota else Accounts) received_at d;
          b = fold (ingest_record sv source received_at) records
            \<lparr>bt_db = d, bt_minted = 0,
             bt_report = \<lparr>ir_accepted = 0, ir_duplicates = 0, ir_rejected = 0\<rparr>,
             bt_stored = [], bt_arrivals = [], bt_new_credential = False\<rparr>;
          d1 = record_differences received_at sn (bt_db b);
          d2 = record_changes received_at (map (\<lambda>(i, failed). SArrival i failed) (bt_arrivals b)) d1;
          d3 = (if 0 < ir_accepted (bt_report b) then record_change received_at SUsage d2 else d2)
      in b\<lparr>bt_db := d3\<rparr>)"

section \<open>Dead letters\<close>

definition DEAD_LETTER_RETENTION :: int where "DEAD_LETTER_RETENTION = 14 * 24 * hour"

definition list_dead_letters :: "db \<Rightarrow> id option \<Rightarrow> nat \<Rightarrow> json dead_letter_row list" where
  "list_dead_letters d source limit =
     take limit (rev (sort_key (\<lambda>l. (l_received_at l, l_id l))
       (filter (\<lambda>l. bound_eq source (l_source l)) (dead_letters d))))"

definition prune_dead_letters :: "instant \<Rightarrow> db \<Rightarrow> nat \<times> db" where
  "prune_dead_letters now d =
     (let old = (\<lambda>l. l_received_at l < now - DEAD_LETTER_RETENTION)
      in (count_where old (dead_letters d), d\<lparr>dead_letters := delete_where old (dead_letters d)\<rparr>))"

section \<open>Lemmas\<close>

lemma resolve_fields [simp]:
  "resolve c s pr a t d = (i, d') \<Longrightarrow> events d' = events d"
  "resolve c s pr a t d = (i, d') \<Longrightarrow> dead_letters d' = dead_letters d"
  "resolve c s pr a t d = (i, d') \<Longrightarrow> windows d' = windows d"
  "resolve c s pr a t d = (i, d') \<Longrightarrow> sources d' = sources d"
  "resolve c s pr a t d = (i, d') \<Longrightarrow> plans d' = plans d"
  by (auto simp: resolve_def Let_def split: option.splits)

lemma insert_event_eq:
  "insert_event e d =
     (if event_key e \<in> event_key ` set (events d) then (False, d)
      else (True, d\<lparr>events := events d @ [e]\<rparr>))"
  unfolding insert_event_def image_iff by (rule if_cong, metis, rule refl, rule refl)

lemma stored_event_key [simp]:
  "event_key (stored_event i source a h e) = (source, h)" "e_id (stored_event i source a h e) = i"
  "e_account (stored_event i source a h e) = a" "e_usage (stored_event i source a h e) = ne_usage e"
  by (simp_all add: stored_event_def)

text \<open>One event: a duplicate leaves the events as they are, a new one is appended.\<close>

lemma ingest_event_cases:
  assumes "resolve (sv_ids sv (bt_minted b)) source (u_provider (ne_usage e)) (ne_account e)
      (u_occurred_at (ne_usage e)) (bt_db b) = (a, d1)"
  obtains
    (dup) "(source, record_hash sv e) \<in> event_key ` set (events (bt_db b))"
      "bt_db (ingest_event sv source t e b) = d1"
      "bt_report (ingest_event sv source t e b) =
         (bt_report b)\<lparr>ir_duplicates := ir_duplicates (bt_report b) + 1\<rparr>"
      "bt_stored (ingest_event sv source t e b) = bt_stored b"
      "bt_arrivals (ingest_event sv source t e b) = bt_arrivals b"
  | (new) r where "(source, record_hash sv e) \<notin> event_key ` set (events (bt_db b))"
      "event_key r = (source, record_hash sv e)" "e_account r = a" "e_usage r = ne_usage e"
      "bt_db (ingest_event sv source t e b) =
         observe (sv_json_of sv) (sv_parse_instant sv) a (ne_usage e) t (d1\<lparr>events := events (bt_db b) @ [r]\<rparr>)"
      "bt_report (ingest_event sv source t e b) =
         (bt_report b)\<lparr>ir_accepted := ir_accepted (bt_report b) + 1\<rparr>"
      "bt_stored (ingest_event sv source t e b) = bt_stored b @ [e_id r]"
proof -
  have ev: "events d1 = events (bt_db b)" using assms by simp
  show thesis
  proof (cases "(source, record_hash sv e) \<in> event_key ` set (events (bt_db b))")
    case True
    then show ?thesis by (intro dup) (simp_all add: ingest_event_def insert_event_eq assms ev Let_def)
  next
    case False
    then show ?thesis
      by (intro new [of "stored_event (sv_ids sv (bt_minted b + 1)) source a (record_hash sv e) e"])
        (simp_all add: ingest_event_def insert_event_eq assms ev Let_def)
  qed
qed

lemma minted_ingest_record:
  "bt_minted (ingest_record sv source t inc b) = bt_minted b + (case inc of Incoming _ \<Rightarrow> 2 | Rejected _ _ \<Rightarrow> 1)"
  by (simp add: ingest_record_def ingest_event_def Let_def split: incoming.split prod.split)

definition batch_ok :: "db \<Rightarrow> batch \<Rightarrow> nat \<Rightarrow> bool" where
  "batch_ok d b n \<longleftrightarrow>
     distinct (map event_key (events (bt_db b))) \<and>
     (\<exists>new. events (bt_db b) = events d @ new \<and> int (length new) = ir_accepted (bt_report b) \<and>
        map e_id new = bt_stored b) \<and>
     (\<exists>lost. dead_letters (bt_db b) = dead_letters d @ lost \<and> int (length lost) = ir_rejected (bt_report b)) \<and>
     ir_accepted (bt_report b) + ir_duplicates (bt_report b) + ir_rejected (bt_report b) = int n"

lemma batch_ok_record:
  assumes "batch_ok d b n"
  shows "batch_ok d (ingest_record sv source t inc b) (Suc n)"
proof (cases inc)
  case (Rejected error payload)
  then show ?thesis using assms
    by (auto simp: batch_ok_def ingest_record_def insert_dead_letter_def)
next
  case (Incoming e)
  obtain a d1 where r: "resolve (sv_ids sv (bt_minted b)) source (u_provider (ne_usage e)) (ne_account e)
      (u_occurred_at (ne_usage e)) (bt_db b) = (a, d1)" by fastforce
  have rec: "ingest_record sv source t inc b = ingest_event sv source t e b"
    using Incoming by (simp add: ingest_record_def)
  show ?thesis
    using r
  proof (cases rule: ingest_event_cases [where t = t])
    case dup
    then show ?thesis using assms r by (simp add: batch_ok_def rec)
  next
    case (new x)
    then show ?thesis using assms r by (auto simp: batch_ok_def rec)
  qed
qed

lemma events_grow:
  "event_key ` set (events (bt_db b)) \<subseteq> event_key ` set (events (bt_db (ingest_record sv source t inc b)))"
  "inc = Incoming e \<Longrightarrow>
     (source, record_hash sv e) \<in> event_key ` set (events (bt_db (ingest_record sv source t inc b)))"
proof -
  have step: "event_key ` set (events (bt_db b)) \<subseteq> event_key ` set (events (bt_db (ingest_event sv source t x b))) \<and>
      (source, record_hash sv x) \<in> event_key ` set (events (bt_db (ingest_event sv source t x b)))" for x
  proof -
    obtain a d1 where r: "resolve (sv_ids sv (bt_minted b)) source (u_provider (ne_usage x)) (ne_account x)
        (u_occurred_at (ne_usage x)) (bt_db b) = (a, d1)" by fastforce
    then show ?thesis
    proof (cases rule: ingest_event_cases [where t = t])
      case dup
      then show ?thesis using r by simp
    next
      case (new y)
      then show ?thesis by auto
    qed
  qed
  show "event_key ` set (events (bt_db b)) \<subseteq> event_key ` set (events (bt_db (ingest_record sv source t inc b)))"
    using step by (cases inc) (auto simp: ingest_record_def insert_dead_letter_def)
  show "inc = Incoming e \<Longrightarrow>
      (source, record_hash sv e) \<in> event_key ` set (events (bt_db (ingest_record sv source t inc b)))"
    using step by (simp add: ingest_record_def)
qed

lemma batch_ok_fold:
  "batch_ok d b n \<Longrightarrow> batch_ok d (fold (ingest_record sv source t) records b) (n + length records)"
proof (induction records arbitrary: b n)
  case (Cons inc records)
  from Cons.IH [OF batch_ok_record [OF Cons.prems]] show ?case by simp
qed simp

lemma events_grow_fold:
  "event_key ` set (events (bt_db b)) \<subseteq> event_key ` set (events (bt_db (fold (ingest_record sv source t) records b)))"
  "Incoming e \<in> set records \<Longrightarrow> (source, record_hash sv e) \<in>
     event_key ` set (events (bt_db (fold (ingest_record sv source t) records b)))"
proof (induction records arbitrary: b)
  case (Cons inc records)
  { case 1
    show ?case using subset_trans [OF events_grow(1) Cons.IH(1)] by simp
  next
    case 2
    then consider "inc = Incoming e" | "Incoming e \<in> set records" by auto
    then show ?case
    proof cases
      case 1
      then show ?thesis
        using events_grow(2) [OF 1, where source = source and sv = sv and b = b and t = t]
          Cons.IH(1) [of "ingest_record sv source t inc b"] by auto
    next
      case 2
      then show ?thesis using Cons.IH(2) by simp
    qed }
qed simp_all

text \<open>What the end of the transaction adds touches the feed alone.\<close>

lemma record_change_fields [simp]:
  "events (record_change now s d) = events d" "dead_letters (record_change now s d) = dead_letters d"
  "accounts (record_change now s d) = accounts d" "sources (record_change now s d) = sources d"
  "plans (record_change now s d) = plans d" "windows (record_change now s d) = windows d"
  by (simp_all add: record_change_def)

abbreviation opened :: "db \<Rightarrow> batch" where
  "opened d \<equiv> \<lparr>bt_db = d, bt_minted = 0,
     bt_report = \<lparr>ir_accepted = 0, ir_duplicates = 0, ir_rejected = 0\<rparr>,
     bt_stored = [], bt_arrivals = [], bt_new_credential = False\<rparr>"

lemma ingest_fields:
  "events (bt_db (ingest sv t source records d)) =
     events (bt_db (fold (ingest_record sv source t) records (opened d)))"
  "dead_letters (bt_db (ingest sv t source records d)) =
     dead_letters (bt_db (fold (ingest_record sv source t) records (opened d)))"
  "accounts (bt_db (ingest sv t source records d)) =
     accounts (bt_db (fold (ingest_record sv source t) records (opened d)))"
  "sources (bt_db (ingest sv t source records d)) =
     sources (bt_db (fold (ingest_record sv source t) records (opened d)))"
  "plans (bt_db (ingest sv t source records d)) =
     plans (bt_db (fold (ingest_record sv source t) records (opened d)))"
  "windows (bt_db (ingest sv t source records d)) =
     windows (bt_db (fold (ingest_record sv source t) records (opened d)))"
  "bt_report (ingest sv t source records d) =
     bt_report (fold (ingest_record sv source t) records (opened d))"
  "bt_stored (ingest sv t source records d) =
     bt_stored (fold (ingest_record sv source t) records (opened d))"
  by (simp_all add: ingest_def Let_def record_differences_eq)

text \<open>A record delivered before leaves the events, the report's accepted count and the windows.\<close>

definition known :: "'e services \<Rightarrow> id \<Rightarrow> db \<Rightarrow> 'e incoming list \<Rightarrow> bool" where
  "known sv source d records \<longleftrightarrow>
     (\<forall>e. Incoming e \<in> set records \<longrightarrow> (source, record_hash sv e) \<in> event_key ` set (events d))"

definition is_incoming :: "'e incoming \<Rightarrow> bool" where
  "is_incoming inc = (case inc of Incoming _ \<Rightarrow> True | Rejected _ _ \<Rightarrow> False)"

lemma known_fold:
  assumes "known sv source d records" and "events (bt_db b) = events d"
  shows "events (bt_db (fold (ingest_record sv source t) records b)) = events d \<and>
    windows (bt_db (fold (ingest_record sv source t) records b)) = windows (bt_db b) \<and>
    bt_stored (fold (ingest_record sv source t) records b) = bt_stored b \<and>
    bt_arrivals (fold (ingest_record sv source t) records b) = bt_arrivals b \<and>
    ir_accepted (bt_report (fold (ingest_record sv source t) records b)) = ir_accepted (bt_report b) \<and>
    ir_duplicates (bt_report (fold (ingest_record sv source t) records b)) =
      ir_duplicates (bt_report b) + int (length (filter is_incoming records))"
  using assms
proof (induction records arbitrary: b)
  case (Cons inc records)
  have "known sv source d records" using Cons.prems(1) by (simp add: known_def)
  note IH = Cons.IH [OF this, of "ingest_record sv source t inc b"]
  show ?case
  proof (cases inc)
    case (Rejected error payload)
    then show ?thesis using IH Cons.prems(2) by (simp add: ingest_record_def insert_dead_letter_def is_incoming_def)
  next
    case (Incoming e)
    obtain a d1 where r: "resolve (sv_ids sv (bt_minted b)) source (u_provider (ne_usage e)) (ne_account e)
        (u_occurred_at (ne_usage e)) (bt_db b) = (a, d1)" by fastforce
    have seen: "(source, record_hash sv e) \<in> event_key ` set (events (bt_db b))"
      using Cons.prems Incoming by (simp add: known_def)
    from r show ?thesis
    proof (cases rule: ingest_event_cases [where t = t])
      case dup
      then show ?thesis using IH Incoming r Cons.prems(2) by (simp add: ingest_record_def is_incoming_def)
    next
      case (new x)
      then show ?thesis using seen by simp
    qed
  qed
qed simp

text \<open>The history: every event stays on an account that is not merged into another.\<close>

lemma resolve_rows:
  obtains f where "set (upsert account_key resolve_merge new rows) - {new} \<subseteq> f ` set rows"
    "f ` set rows \<subseteq> set (upsert account_key resolve_merge new rows)"
    "\<forall>a. a_id (f a) = a_id a \<and> a_source (f a) = a_source a \<and> a_merged (f a) = a_merged a \<and> a_key (f a) = a_key a"
proof (cases "\<exists>r\<in>set rows. account_key r = account_key new")
  case True
  then have "upsert account_key resolve_merge new rows =
      map (\<lambda>r. if account_key r = account_key new then resolve_merge new r else r) rows"
    by (simp add: upsert_def update_where_def)
  then show thesis
    by (intro that [of "\<lambda>r. if account_key r = account_key new then resolve_merge new r else r"])
      (auto simp: resolve_merge_def)
next
  case False
  then have "upsert account_key resolve_merge new rows = rows @ [new]"
    by (simp only: upsert_def if_False)
  then show thesis by (intro that [of "\<lambda>r. r"]) auto
qed

lemma resolve_account_rows:
  assumes "resolve c source pr acc t d = (i, d')"
  shows "\<exists>f new. set (accounts d') \<subseteq> insert new (f ` set (accounts d)) \<and>
    f ` set (accounts d) \<subseteq> set (accounts d') \<and> a_id new = c \<and> a_source new = source \<and>
    (\<forall>a. a_id (f a) = a_id a \<and> a_source (f a) = a_source a \<and> a_merged (f a) = a_merged a \<and> a_key (f a) = a_key a)"
proof -
  let ?new = "fresh_account c source pr acc t"
  obtain f where f: "set (upsert account_key resolve_merge ?new (accounts d)) - {?new} \<subseteq> f ` set (accounts d)"
    "f ` set (accounts d) \<subseteq> set (upsert account_key resolve_merge ?new (accounts d))"
    "\<forall>a. a_id (f a) = a_id a \<and> a_source (f a) = a_source a \<and> a_merged (f a) = a_merged a \<and> a_key (f a) = a_key a"
    by (rule resolve_rows [of ?new "accounts d"])
  obtain w where w: "set (accounts d') = w ` set (upsert account_key resolve_merge ?new (accounts d))"
    "\<And>a. a_id (w a) = a_id a \<and> a_source (w a) = a_source a \<and> a_merged (w a) = a_merged a \<and> a_key (w a) = a_key a"
  proof -
    have "accounts d' = upsert account_key resolve_merge ?new (accounts d) \<or>
        (\<exists>k. accounts d' = update_where (\<lambda>a. a_id a = k) (widen t t)
           (upsert account_key resolve_merge ?new (accounts d)))"
    proof -
      obtain row where row: "returned ?new (upsert account_key resolve_merge ?new (accounts d)) = Some row"
        by (simp add: returned_resolve)
      show ?thesis
      proof (cases "a_merged row")
        case None
        then have "accounts d' = upsert account_key resolve_merge ?new (accounts d)"
          using assms by (simp add: resolve_def Let_def row) auto
        then show ?thesis ..
      next
        case (Some k)
        then have "accounts d' = update_where (\<lambda>a. a_id a = k) (widen t t)
            (upsert account_key resolve_merge ?new (accounts d))"
          using assms by (simp add: resolve_def Let_def row) auto
        then show ?thesis by blast
      qed
    qed
    then show thesis
    proof
      assume "accounts d' = upsert account_key resolve_merge ?new (accounts d)"
      then show thesis using that [of "\<lambda>a. a"] by simp
    next
      assume "\<exists>k. accounts d' = update_where (\<lambda>a. a_id a = k) (widen t t)
           (upsert account_key resolve_merge ?new (accounts d))"
      then obtain k where "accounts d' = update_where (\<lambda>a. a_id a = k) (widen t t)
           (upsert account_key resolve_merge ?new (accounts d))" ..
      then show thesis using that [of "\<lambda>a. if a_id a = k then widen t t a else a"]
        by (simp add: update_where_def)
    qed
  qed
  have "set (accounts d') \<subseteq> insert (w ?new) ((w \<circ> f) ` set (accounts d))"
    using f(1) unfolding w(1) image_comp [symmetric] by blast
  moreover have "(w \<circ> f) ` set (accounts d) \<subseteq> set (accounts d')"
    using f(2) unfolding w(1) image_comp [symmetric] by blast
  ultimately show ?thesis
    using f(3) w(2) by (intro exI [of _ "w \<circ> f"] exI [of _ "w ?new"]) (simp add: fresh_account_def)
qed

lemma resolve_history:
  assumes "accounts_ok (accounts d)" and "c \<notin> a_id ` set (accounts d)"
    and r: "resolve c source pr acc t d = (i, d')"
  shows "\<exists>a\<in>set (accounts d'). a_id a = i \<and> a_merged a = None \<and> a_source a = source"
    and "live d j \<Longrightarrow> live d' j"
    and "a \<in> set (accounts d') \<Longrightarrow> a_id a = c \<or> a_id a \<in> a_id ` set (accounts d)"
    and "a \<in> set (accounts d') \<Longrightarrow> a_source a = source \<or> a_source a \<in> a_source ` set (accounts d)"
proof -
  from assms show "\<exists>a\<in>set (accounts d'). a_id a = i \<and> a_merged a = None \<and> a_source a = source"
  proof (cases rule: resolve_cases)
    case (own row)
    then have "row \<in> set (accounts d')"
      "account_key row = account_key (fresh_account c source pr acc t)"
      using find_Some_set [OF own(1) [unfolded returned_def]] by simp_all
    then show ?thesis using own by (intro bexI [of _ row]) (auto simp: fresh_account_def)
  qed blast
  from resolve_account_rows [OF r] obtain f new where f: "set (accounts d') \<subseteq> insert new (f ` set (accounts d))"
    "f ` set (accounts d) \<subseteq> set (accounts d')" "a_id new = c" "a_source new = source"
    "\<And>a. a_id (f a) = a_id a \<and> a_source (f a) = a_source a \<and> a_merged (f a) = a_merged a" by blast
  show "live d' j" if j: "live d j"
  proof -
    obtain x where "x \<in> set (accounts d)" "a_id x = j" "a_merged x = None"
      using j unfolding live_def by blast
    then show ?thesis using f(2) unfolding live_def by (intro bexI [of _ "f x"]) (simp_all add: f(5) image_subset_iff)
  qed
  have old: "a = new \<or> (\<exists>x\<in>set (accounts d). a = f x)" if "a \<in> set (accounts d')" for a
    using f(1) that by blast
  show "a_id a = c \<or> a_id a \<in> a_id ` set (accounts d)" if "a \<in> set (accounts d')"
    using old [OF that] f(3) by (auto simp: f(5))
  show "a_source a = source \<or> a_source a \<in> a_source ` set (accounts d)" if "a \<in> set (accounts d')"
    using old [OF that] f(4) by (auto simp: f(5))
qed

definition unminted :: "'e services \<Rightarrow> batch \<Rightarrow> bool" where
  "unminted sv b \<longleftrightarrow> (\<forall>n\<ge>bt_minted b. sv_ids sv n \<notin> a_id ` set (accounts (bt_db b)))"

definition batch_history :: "'e services \<Rightarrow> id \<Rightarrow> db \<Rightarrow> batch \<Rightarrow> bool" where
  "batch_history sv source d b \<longleftrightarrow>
     history_ok (bt_db b) \<and> unminted sv b \<and> sources (bt_db b) = sources d \<and> plans (bt_db b) = plans d \<and>
     (\<forall>e\<in>set (events (bt_db b)). e \<in> set (events d) \<or> e_source e = source \<and>
        (\<exists>a\<in>set (accounts (bt_db b)). a_id a = e_account e \<and> a_merged a = None \<and> a_source a = source))"

lemma batch_history_event:
  assumes inj: "inj (sv_ids sv)" and b: "batch_history sv source d b"
    and src: "\<exists>s\<in>set (sources d). s_id s = source"
  shows "batch_history sv source d (ingest_event sv source t e b)"
proof -
  let ?c = "sv_ids sv (bt_minted b)" and ?b = "ingest_event sv source t e b"
  obtain a d1 where r: "resolve ?c source (u_provider (ne_usage e)) (ne_account e)
      (u_occurred_at (ne_usage e)) (bt_db b) = (a, d1)" by fastforce
  have ok: "accounts_ok (accounts (bt_db b))" and fresh: "?c \<notin> a_id ` set (accounts (bt_db b))"
    using b by (simp_all add: batch_history_def history_ok_def unminted_def)
  note rh = resolve_history [OF ok fresh r]
  have src_d: "sources d1 = sources d" "plans d1 = plans d" "events d1 = events (bt_db b)"
    using r b by (simp_all add: batch_history_def)
  have "accounts (bt_db ?b) = accounts d1 \<and> sources (bt_db ?b) = sources d \<and> plans (bt_db ?b) = plans d \<and>
    (\<forall>x\<in>set (events (bt_db ?b)). x \<in> set (events (bt_db b)) \<or> (e_source x = source \<and> e_account x = a))"
    using r
  proof (cases rule: ingest_event_cases [where t = t])
    case dup
    then show ?thesis using src_d by simp
  next
    case (new y)
    then show ?thesis using src_d by simp
  qed
  then have accs: "accounts (bt_db ?b) = accounts d1" "sources (bt_db ?b) = sources d" "plans (bt_db ?b) = plans d"
    "\<And>x. x \<in> set (events (bt_db ?b)) \<Longrightarrow> x \<in> set (events (bt_db b)) \<or> (e_source x = source \<and> e_account x = a)"
    by blast+
  have mint: "bt_minted ?b = bt_minted b + 2"
    by (simp add: ingest_event_def Let_def split: prod.split)
  have "unminted sv ?b"
    unfolding unminted_def mint accs(1)
  proof (intro allI impI)
    fix n assume n: "bt_minted b + 2 \<le> n"
    then have "sv_ids sv n \<noteq> ?c" using inj by (auto dest: injD)
    moreover have "sv_ids sv n \<notin> a_id ` set (accounts (bt_db b))"
      using b n by (simp add: batch_history_def unminted_def)
    ultimately show "sv_ids sv n \<notin> a_id ` set (accounts d1)" using rh(3) by fastforce
  qed
  have live: "live (bt_db ?b) j" if "live (bt_db b) j" for j
    using rh(2) that accs(1) by (simp add: live_def)
  have kept: "\<exists>x\<in>set (accounts d1). a_id x = j \<and> a_merged x = None \<and> a_source x = source"
    if j: "\<exists>x\<in>set (accounts (bt_db b)). a_id x = j \<and> a_merged x = None \<and> a_source x = source" for j
  proof -
    obtain f new where f: "f ` set (accounts (bt_db b)) \<subseteq> set (accounts d1)"
      "\<And>a. a_id (f a) = a_id a \<and> a_source (f a) = a_source a \<and> a_merged (f a) = a_merged a"
      using resolve_account_rows [OF r] by blast
    obtain x where "x \<in> set (accounts (bt_db b))" "a_id x = j \<and> a_merged x = None \<and> a_source x = source"
      using j by blast
    then show ?thesis using f by (intro bexI [of _ "f x"]) auto
  qed
  have la: "live (bt_db ?b) a" using rh(1) by (auto simp: live_def accs(1))
  have ev: "\<forall>x\<in>set (events (bt_db ?b)). live (bt_db ?b) (e_account x)"
  proof
    fix x assume "x \<in> set (events (bt_db ?b))"
    then consider "x \<in> set (events (bt_db b))" | "e_account x = a" using accs(4) by blast
    then show "live (bt_db ?b) (e_account x)"
      using la live b by cases (simp_all add: batch_history_def history_ok_def)
  qed
  have pl: "\<forall>p\<in>set (plans (bt_db ?b)). live (bt_db ?b) (p_account p)"
    using live b by (simp add: batch_history_def history_ok_def accs(3))
  have so: "\<forall>x\<in>set (accounts (bt_db ?b)). \<exists>s\<in>set (sources (bt_db ?b)). s_id s = a_source x"
    using rh(4) src b unfolding accs(1,2) batch_history_def history_ok_def by force
  have "\<forall>x\<in>set (events (bt_db ?b)). x \<in> set (events d) \<or> e_source x = source \<and>
      (\<exists>y\<in>set (accounts d1). a_id y = e_account x \<and> a_merged y = None \<and> a_source y = source)"
  proof
    fix x assume "x \<in> set (events (bt_db ?b))"
    then consider "x \<in> set (events (bt_db b))" | "e_source x = source" "e_account x = a" using accs(4) by blast
    then show "x \<in> set (events d) \<or> e_source x = source \<and>
      (\<exists>y\<in>set (accounts d1). a_id y = e_account x \<and> a_merged y = None \<and> a_source y = source)"
    proof cases
      case 1
      then show ?thesis using b kept unfolding batch_history_def by blast
    next
      case 2
      then show ?thesis using rh(1) by simp
    qed
  qed
  then show ?thesis
    using \<open>unminted sv ?b\<close> ev pl so resolve_ok [OF ok fresh r]
    by (simp add: batch_history_def history_ok_def accs(1-3))
qed

lemma batch_history_fold:
  assumes "inj (sv_ids sv)" and "\<exists>s\<in>set (sources d). s_id s = source"
  shows "batch_history sv source d b \<Longrightarrow>
    batch_history sv source d (fold (ingest_record sv source t) records b)"
proof (induction records arbitrary: b)
  case (Cons inc records)
  have "batch_history sv source d (ingest_record sv source t inc b)"
  proof (cases inc)
    case (Incoming e)
    then show ?thesis using batch_history_event [OF assms(1) Cons.prems assms(2)] by (simp add: ingest_record_def)
  next
    case (Rejected error payload)
    let ?b = "ingest_record sv source t inc b"
    have eqs: "accounts (bt_db ?b) = accounts (bt_db b)" "sources (bt_db ?b) = sources (bt_db b)"
      "plans (bt_db ?b) = plans (bt_db b)" "events (bt_db ?b) = events (bt_db b)"
      by (simp_all add: Rejected ingest_record_def insert_dead_letter_def)
    have "unminted sv ?b"
      using Cons.prems unfolding batch_history_def unminted_def eqs
      by (simp add: Rejected ingest_record_def)
    then show ?thesis
      using Cons.prems unfolding batch_history_def history_ok_def live_def eqs by blast
  qed
  then show ?case using Cons.IH by simp
qed simp

section \<open>What a batch holds\<close>

text \<open>
  The records a batch stores, in its order: of the readable ones, the first of each hash that the
  source has not delivered before.
\<close>

fun first_sent :: "'e services \<Rightarrow> string set \<Rightarrow> 'e incoming list \<Rightarrow> new_event list" where
  "first_sent sv old [] = []"
| "first_sent sv old (Incoming e # records) =
     (if record_hash sv e \<in> old then first_sent sv old records
      else e # first_sent sv (insert (record_hash sv e) old) records)"
| "first_sent sv old (Rejected error payload # records) = first_sent sv old records"

definition hashes :: "id \<Rightarrow> db \<Rightarrow> string set" where
  "hashes source d = e_hash ` set (filter (\<lambda>r. e_source r = source) (events d))"

text \<open>The account a record is charged to: the one that holds its key, or the one that account was merged into.\<close>

definition charged :: "id \<Rightarrow> db \<Rightarrow> new_event \<Rightarrow> id \<Rightarrow> bool" where
  "charged source d e i \<longleftrightarrow>
     (\<exists>a\<in>set (accounts d). a_source a = source \<and> a_key a = stored_key (ne_account e) (u_provider (ne_usage e)) \<and>
        i = unwrap_or (a_id a) (a_merged a))"

definition stores :: "'e services \<Rightarrow> id \<Rightarrow> db \<Rightarrow> event_row \<Rightarrow> new_event \<Rightarrow> bool" where
  "stores sv source d r e \<longleftrightarrow>
     (\<exists>i account_id. r = stored_event i source account_id (record_hash sv e) e \<and> charged source d e account_id)"

lemma in_hashes: "h \<in> hashes source d \<longleftrightarrow> (source, h) \<in> event_key ` set (events d)"
  by (auto simp: hashes_def)

lemma hashes_append:
  "events d' = events d @ [r] \<Longrightarrow> e_source r = source \<Longrightarrow> hashes source d' = insert (e_hash r) (hashes source d)"
  by (simp add: hashes_def)

lemma resolve_charges:
  assumes "resolve c source (u_provider (ne_usage e)) (ne_account e) t d = (i, d')"
  shows "charged source d' e i"
proof -
  let ?new = "fresh_account c source (u_provider (ne_usage e)) (ne_account e) t"
  let ?rows = "upsert account_key resolve_merge ?new (accounts d)"
  obtain row where row: "returned ?new ?rows = Some row" by (simp add: returned_resolve)
  have r: "row \<in> set ?rows" "account_key row = account_key ?new"
    using find_Some_set [OF row [unfolded returned_def]] by simp_all
  have key: "a_source row = source" "a_key row = stored_key (ne_account e) (u_provider (ne_usage e))"
    using r(2) by (simp_all add: fresh_account_def)
  show ?thesis
  proof (cases "a_merged row")
    case None
    then have "accounts d' = ?rows" "i = a_id row" using assms row by (auto simp: resolve_def Let_def)
    then show ?thesis using None r(1) key by (auto simp: charged_def)
  next
    case (Some target)
    let ?w = "\<lambda>a. if a_id a = target then widen t t a else a"
    have "accounts d' = map ?w ?rows" "i = target"
      using assms row Some by (auto simp: resolve_def Let_def update_where_def)
    then have "?w row \<in> set (accounts d')" "i = target" using r(1) by auto
    then show ?thesis using Some key unfolding charged_def by (intro bexI [of _ "?w row"]) simp_all
  qed
qed

lemma resolve_keeps_charged:
  assumes "resolve c s pr acc t d = (i, d')" and "charged source d e j"
  shows "charged source d' e j"
proof -
  obtain f new where f: "f ` set (accounts d) \<subseteq> set (accounts d')"
    "\<And>a. a_id (f a) = a_id a \<and> a_source (f a) = a_source a \<and> a_merged (f a) = a_merged a \<and> a_key (f a) = a_key a"
    using resolve_account_rows [OF assms(1)] by blast
  obtain a where "a \<in> set (accounts d)" "a_source a = source"
    "a_key a = stored_key (ne_account e) (u_provider (ne_usage e))" "j = unwrap_or (a_id a) (a_merged a)"
    using assms(2) by (auto simp: charged_def)
  then show ?thesis using f unfolding charged_def by (intro bexI [of _ "f a"]) auto
qed

text \<open>One record: what it appends, and that it leaves every account its charges.\<close>

lemma ingest_record_content:
  obtains (known) e where "inc = Incoming e" "record_hash sv e \<in> hashes source (bt_db b)"
      "events (bt_db (ingest_record sv source t inc b)) = events (bt_db b)"
      "dead_letters (bt_db (ingest_record sv source t inc b)) = dead_letters (bt_db b)"
      "\<forall>x i. charged source (bt_db b) x i \<longrightarrow> charged source (bt_db (ingest_record sv source t inc b)) x i"
    | (fresh) e r where "inc = Incoming e" "record_hash sv e \<notin> hashes source (bt_db b)"
      "events (bt_db (ingest_record sv source t inc b)) = events (bt_db b) @ [r]"
      "dead_letters (bt_db (ingest_record sv source t inc b)) = dead_letters (bt_db b)"
      "stores sv source (bt_db (ingest_record sv source t inc b)) r e"
      "\<forall>x i. charged source (bt_db b) x i \<longrightarrow> charged source (bt_db (ingest_record sv source t inc b)) x i"
    | (refused) error payload l where "inc = Rejected error payload"
      "events (bt_db (ingest_record sv source t inc b)) = events (bt_db b)"
      "dead_letters (bt_db (ingest_record sv source t inc b)) = dead_letters (bt_db b) @ [l]"
      "(l_source l, l_received_at l, l_error l, l_payload l) = (source, t, sv_show_error sv error, payload)"
      "\<forall>x i. charged source (bt_db b) x i \<longrightarrow> charged source (bt_db (ingest_record sv source t inc b)) x i"
proof (cases inc)
  case (Rejected error payload)
  let ?l = "\<lparr>l_id = sv_ids sv (bt_minted b), l_source = source, l_received_at = t,
    l_error = sv_show_error sv error, l_payload = payload\<rparr>"
  show thesis
    by (rule refused [of error payload ?l])
      (simp_all add: Rejected ingest_record_def insert_dead_letter_def charged_def)
next
  case (Incoming e)
  obtain a d1 where r: "resolve (sv_ids sv (bt_minted b)) source (u_provider (ne_usage e)) (ne_account e)
      (u_occurred_at (ne_usage e)) (bt_db b) = (a, d1)" by fastforce
  let ?row = "stored_event (sv_ids sv (bt_minted b + 1)) source a (record_hash sv e) e"
  have "events d1 = events (bt_db b)" "dead_letters d1 = dead_letters (bt_db b)" using r by simp_all
  note step = ingest_record_def ingest_event_def insert_event_eq r Let_def this
  have keeps: "charged source d' x i" if "charged source (bt_db b) x i" "accounts d' = accounts d1" for d' x i
    using resolve_keeps_charged [OF r that(1)] that(2) by (simp add: charged_def)
  show thesis
  proof (cases "record_hash sv e \<in> hashes source (bt_db b)")
    case True
    then show thesis using Incoming keeps
      by (intro known [of e]) (simp_all add: step in_hashes)
  next
    case False
    have "stores sv source d' ?row e" if "accounts d' = accounts d1" for d'
      unfolding stores_def
      by (intro exI [of _ "sv_ids sv (bt_minted b + 1)"] exI [of _ a])
        (use resolve_charges [OF r] that in \<open>simp add: charged_def\<close>)
    then show thesis using False Incoming keeps
      by (intro fresh [of e ?row]) (auto simp: step in_hashes)
  qed
qed

lemma stores_mono:
  "stores sv source d r e \<Longrightarrow> (\<And>x i. charged source d x i \<Longrightarrow> charged source d' x i) \<Longrightarrow> stores sv source d' r e"
  unfolding stores_def by blast

abbreviation letter :: "json dead_letter_row \<Rightarrow> id \<times> instant \<times> string \<times> json" where
  "letter \<equiv> \<lambda>l. (l_source l, l_received_at l, l_error l, l_payload l)"

lemma ingest_fold_content:
  "\<exists>new lost. events (bt_db (fold (ingest_record sv source t) records b)) = events (bt_db b) @ new \<and>
     list_all2 (stores sv source (bt_db (fold (ingest_record sv source t) records b))) new
       (first_sent sv (hashes source (bt_db b)) records) \<and>
     dead_letters (bt_db (fold (ingest_record sv source t) records b)) = dead_letters (bt_db b) @ lost \<and>
     map letter lost = [(source, t, sv_show_error sv error, payload). Rejected error payload \<leftarrow> records] \<and>
     (\<forall>x i. charged source (bt_db b) x i \<longrightarrow>
        charged source (bt_db (fold (ingest_record sv source t) records b)) x i)"
proof (induction records arbitrary: b)
  case Nil
  then show ?case by simp
next
  case (Cons inc records)
  let ?b = "ingest_record sv source t inc b"
  obtain new lost where IH: "events (bt_db (fold (ingest_record sv source t) records ?b)) = events (bt_db ?b) @ new"
    "list_all2 (stores sv source (bt_db (fold (ingest_record sv source t) records ?b))) new
       (first_sent sv (hashes source (bt_db ?b)) records)"
    "dead_letters (bt_db (fold (ingest_record sv source t) records ?b)) = dead_letters (bt_db ?b) @ lost"
    "map letter lost = [(source, t, sv_show_error sv error, payload). Rejected error payload \<leftarrow> records]"
    "\<And>x i. charged source (bt_db ?b) x i \<Longrightarrow>
       charged source (bt_db (fold (ingest_record sv source t) records ?b)) x i"
    using Cons.IH [of ?b] by blast
  show ?case
  proof (cases rule: ingest_record_content [of inc sv source b t])
    case (known e)
    have "hashes source (bt_db ?b) = hashes source (bt_db b)" using known(3) by (simp add: hashes_def)
    then show ?thesis using IH known by (intro exI [of _ new] exI [of _ lost]) simp
  next
    case (fresh e r)
    have r: "e_source r = source" "e_hash r = record_hash sv e" using fresh(5) by (auto simp: stores_def stored_event_def)
    have "hashes source (bt_db ?b) = insert (record_hash sv e) (hashes source (bt_db b))"
      using hashes_append [OF fresh(3) r(1)] r(2) by simp
    moreover have "stores sv source (bt_db (fold (ingest_record sv source t) records ?b)) r e"
      by (rule stores_mono [OF fresh(5)]) (rule IH(5))
    ultimately show ?thesis using IH fresh by (intro exI [of _ "r # new"] exI [of _ lost]) simp
  next
    case (refused error payload l)
    have "hashes source (bt_db ?b) = hashes source (bt_db b)" using refused(2) by (simp add: hashes_def)
    then show ?thesis using IH refused by (intro exI [of _ new] exI [of _ "l # lost"]) simp
  qed
qed

section \<open>A sample batch\<close>

definition sample_services :: "unit services" where
  "sample_services = \<lparr>sv_json_of = \<lambda>_. None, sv_parse_instant = \<lambda>_. None,
     sv_print_instant = show_int, sv_hash = \<lambda>s. s, sv_show_error = \<lambda>_. [],
     sv_ids = \<lambda>n. 100 + int n\<rparr>"

definition sample_event :: new_event where
  "sample_event = \<lparr>ne_usage = meta_usage 5 200 40,
     ne_account = \<lparr>n_key = ''k'', n_auth = OAuth, n_label = None\<rparr>, ne_billed_cost = None\<rparr>"

definition sample_source :: source_row where
  "sample_source = \<lparr>s_id = 1, s_key = ''a'', s_name = ''a'', s_kind = CliProxy, s_base_url = [],
     s_enabled = True, s_created_at = 0\<rparr>"

section \<open>Properties\<close>

text \<open>
  C5: a batch lands whole and each of its records exactly once. Where no request is stored twice to
  begin with, none is afterwards. The events of the table stay, and after them come, in the
  batch's order, the readable records that the source had not delivered, each once: every one
  with its usage and its hash, charged to the account that holds its key or to the one that
  account was merged into, under the ids that are published. After the dead letters of the table
  come the refused records in the batch's order, with the source, the time, the error and the
  payload. The three counts are the stored records, the refused ones, and the rest of the batch.
\<close>

theorem ingest_stores_each_record_once:
  assumes "distinct (map event_key (events d))"
  shows "let b = ingest sv received_at source records d; report = bt_report b;
      sent = first_sent sv (hashes source d) records;
      refused = [(source, received_at, sv_show_error sv error, payload). Rejected error payload \<leftarrow> records]
    in distinct (map event_key (events (bt_db b))) \<and>
       (\<exists>new. events (bt_db b) = events d @ new \<and> list_all2 (stores sv source (bt_db b)) new sent \<and>
          map e_id new = bt_stored b) \<and>
       (\<exists>lost. dead_letters (bt_db b) = dead_letters d @ lost \<and> map letter lost = refused) \<and>
       ir_accepted report = int (length sent) \<and> ir_rejected report = int (length refused) \<and>
       ir_accepted report + ir_duplicates report + ir_rejected report = int (length records) \<and>
       (\<forall>e. Incoming e \<in> set records \<longrightarrow>
          (source, record_hash sv e) \<in> event_key ` set (events (bt_db b)))"
proof -
  let ?b = "ingest sv received_at source records d"
  let ?refused = "[(source, received_at, sv_show_error sv error, payload). Rejected error payload \<leftarrow> records]"
  have "batch_ok d (opened d) 0" using assms by (simp add: batch_ok_def)
  note ok = batch_ok_fold [OF this, of sv source received_at records, unfolded batch_ok_def add_0, folded ingest_fields]
  have "charged source (bt_db (fold (ingest_record sv source received_at) records (opened d))) =
      charged source (bt_db ?b)"
    by (simp add: charged_def fun_eq_iff ingest_fields)
  then have stored: "stores sv source (bt_db (fold (ingest_record sv source received_at) records (opened d))) =
      stores sv source (bt_db ?b)"
    by (simp add: stores_def fun_eq_iff)
  obtain new lost where c: "events (bt_db ?b) = events d @ new"
    "list_all2 (stores sv source (bt_db ?b)) new (first_sent sv (hashes source d) records)"
    "dead_letters (bt_db ?b) = dead_letters d @ lost" "map letter lost = ?refused"
    using ingest_fold_content [of sv source received_at records "opened d"]
    by (auto simp: ingest_fields stored)
  have "map e_id new = bt_stored ?b" "int (length new) = ir_accepted (bt_report ?b)"
    "int (length lost) = ir_rejected (bt_report ?b)" using ok c(1,3) by auto
  moreover have "length new = length (first_sent sv (hashes source d) records)"
    using c(2) by (rule list_all2_lengthD)
  moreover have "length lost = length ?refused" using arg_cong [OF c(4), of length] by simp
  moreover have "(source, record_hash sv e) \<in> event_key ` set (events (bt_db ?b))"
    if "Incoming e \<in> set records" for e
    using events_grow_fold(2) [where b = "opened d", OF that] by (simp only: ingest_fields)
  ultimately show ?thesis using ok c unfolding Let_def by (intro conjI exI allI impI) (auto simp del: length_map)
qed

text \<open>A batch with two requests, one of them delivered twice, and a refused record between them.\<close>

definition later_event :: new_event where
  "later_event = sample_event\<lparr>ne_usage := meta_usage 6 200 40\<rparr>"

definition mixed_batch :: "unit incoming list" where
  "mixed_batch = [Incoming sample_event, Rejected () JNull, Incoming sample_event, Incoming later_event]"

theorem ingest_stores_each_record_once_witness:
  "let b = ingest sample_services 50 1 mixed_batch empty_db; report = bt_report b
   in (\<exists>x y. events (bt_db b) = [x, y] \<and> e_usage x = ne_usage sample_event \<and> e_usage y = ne_usage later_event \<and>
        [e_id x, e_id y] = bt_stored b) \<and>
      map letter (dead_letters (bt_db b)) = [(1, 50, [], JNull)] \<and>
      ir_accepted report = 2 \<and> ir_duplicates report = 1 \<and> ir_rejected report = 1"
proof -
  have sent: "first_sent sample_services (hashes 1 empty_db) mixed_batch = [sample_event, later_event]"
    by code_simp
  have refused: "[(1 :: id, 50 :: instant, sv_show_error sample_services error, payload).
      Rejected error payload \<leftarrow> mixed_batch] = [(1, 50, [], JNull)]"
    by (simp add: mixed_batch_def sample_services_def)
  have "distinct (map event_key (events empty_db))" by (simp add: empty_db_def)
  note ok = ingest_stores_each_record_once [OF this, of sample_services 50 1 mixed_batch,
      unfolded Let_def sent refused]
  have "length mixed_batch = 4" "events empty_db = []" "dead_letters empty_db = []"
    by (simp_all add: mixed_batch_def empty_db_def)
  then show ?thesis using ok
    by (auto simp: Let_def list_all2_Cons2 stores_def)
qed

text \<open>
  C6: delivering again is harmless. Whatever happened in between, as long as no event went, a
  batch of records the source already delivered stores no event, publishes nothing, reports
  every readable record as a duplicate, and moves no quota window.
\<close>

theorem redelivery_adds_nothing:
  assumes "event_key ` set (events (bt_db (ingest sv t source records d))) \<subseteq> event_key ` set (events d1)"
    and "set again \<subseteq> set records"
  shows "let b = ingest sv later source again d1
    in events (bt_db b) = events d1 \<and> windows (bt_db b) = windows d1 \<and> bt_stored b = [] \<and>
       ir_accepted (bt_report b) = 0 \<and>
       ir_duplicates (bt_report b) = int (length (filter is_incoming again))"
proof -
  have "(source, record_hash sv e) \<in> event_key ` set (events d1)" if "Incoming e \<in> set again" for e
    using events_grow_fold(2) [where records = records and source = source and sv = sv and t = t and b = "opened d"] that assms
    unfolding ingest_fields by blast
  then have "known sv source d1 again" by (simp add: known_def)
  from known_fold [OF this, of "opened d1" later] show ?thesis
    by (simp add: Let_def ingest_fields)
qed

theorem redelivery_adds_nothing_witness:
  "let d = bt_db (ingest sample_services 50 1 [Incoming sample_event :: unit incoming] empty_db);
       b = ingest sample_services 60 1 [Incoming sample_event, Incoming sample_event] d
   in events (bt_db b) = events d \<and> ir_accepted (bt_report b) = 0 \<and> ir_duplicates (bt_report b) = 2"
  using redelivery_adds_nothing [of sample_services 50 1 "[Incoming sample_event]" empty_db
      "bt_db (ingest sample_services 50 1 [Incoming sample_event] empty_db)"
      "[Incoming sample_event, Incoming sample_event]" 60]
  by (simp add: Let_def is_incoming_def)

text \<open>
  Ingesting keeps the history whole. With fresh ids, a batch keeps every account's source,
  leaves every event and plan on an account that is not merged into another, and charges
  every new event to such an account of the source that delivered it.
\<close>

theorem ingest_keeps_history:
  assumes "history_ok d" and "\<exists>s\<in>set (sources d). s_id s = source"
    and "inj (sv_ids sv)" and "\<forall>n. sv_ids sv n \<notin> a_id ` set (accounts d)"
  shows "let d' = bt_db (ingest sv received_at source records d)
    in history_ok d' \<and>
       (\<forall>e\<in>set (events d'). e \<in> set (events d) \<or> e_source e = source \<and>
          (\<exists>a\<in>set (accounts d'). a_id a = e_account e \<and> a_merged a = None \<and> a_source a = source))"
proof -
  have "batch_history sv source d (opened d)"
    using assms(1,4) by (simp add: batch_history_def unminted_def)
  from batch_history_fold [OF assms(3,2) this, of received_at records] show ?thesis
    unfolding batch_history_def history_ok_def live_def ingest_fields Let_def by blast
qed

theorem ingest_keeps_history_witness:
  "history_ok (bt_db (ingest sample_services 50 1 [Incoming sample_event] (empty_db\<lparr>sources := [sample_source]\<rparr>)))"
proof -
  have "history_ok (empty_db\<lparr>sources := [sample_source]\<rparr>)"
    by (simp add: history_ok_def empty_db_def accounts_ok_def)
  moreover have "inj (sv_ids sample_services)" by (simp add: sample_services_def inj_def)
  ultimately show ?thesis
    using ingest_keeps_history [of "empty_db\<lparr>sources := [sample_source]\<rparr>" 1 sample_services 50
        "[Incoming sample_event]"]
    by (simp add: Let_def sample_source_def empty_db_def)
qed

text \<open>
  C7: the hash tells any two requests apart and nothing else. For records whose texts and
  numbers fit the 64 bits they are written in, and as far as blake3 does not collide on them
  and the printer does not write their two instants alike, two records have one hash exactly
  when they agree on the upstream id, the instant, the credential's key, provider, model,
  endpoint, every token count, the status, whether they failed, and both latencies.
\<close>

theorem record_hash_identifies:
  assumes "sized (sv_print_instant sv) e" and "sized (sv_print_instant sv) e'"
    and "record_hash sv e = record_hash sv e' \<longrightarrow>
      record_bytes (sv_print_instant sv) e = record_bytes (sv_print_instant sv) e'"
    and "sv_print_instant sv (u_occurred_at (ne_usage e)) = sv_print_instant sv (u_occurred_at (ne_usage e')) \<longrightarrow>
      u_occurred_at (ne_usage e) = u_occurred_at (ne_usage e')"
  shows "record_hash sv e = record_hash sv e' \<longleftrightarrow>
    (let u = ne_usage e; v = ne_usage e'
     in u_upstream_id u = u_upstream_id v \<and> u_occurred_at u = u_occurred_at v \<and>
        stored_key (ne_account e) (u_provider u) = stored_key (ne_account e') (u_provider v) \<and>
        u_provider u = u_provider v \<and> u_model u = u_model v \<and> u_endpoint u = u_endpoint v \<and>
        record_counts u = record_counts v \<and> u_failed u = u_failed v \<and>
        u_latency_ms u = u_latency_ms v \<and> u_ttft_ms u = u_ttft_ms v)"
    (is "?L \<longleftrightarrow> ?R")
proof
  assume ?L
  then have "record_bytes (sv_print_instant sv) e = record_bytes (sv_print_instant sv) e'" using assms(3) by blast
  from record_bytes_inj [OF this assms(1,2)] show ?R
    using assms(4) by (auto simp: record_texts_def Let_def)
next
  assume ?R
  then show ?L
    unfolding Let_def by (elim conjE) (simp add: record_hash_def record_bytes_def record_texts_def Let_def)
qed

theorem record_hash_identifies_witness:
  "record_hash sample_services sample_event \<noteq>
     record_hash sample_services (sample_event\<lparr>ne_usage := meta_usage 6 200 40\<rparr>)"
proof -
  let ?e = "sample_event\<lparr>ne_usage := meta_usage 6 200 40\<rparr>"
  have "show_int 40 = ''40''" by code_simp
  then have "sized show_int sample_event" "sized show_int ?e"
    by (simp_all add: sized_def record_texts_def record_counts_def Let_def sample_event_def
        meta_usage_def in_i64_def stored_key_def)
  moreover have "record_counts (meta_usage 5 200 40) \<noteq> record_counts (meta_usage 6 200 40)"
    by (simp add: record_counts_def meta_usage_def)
  ultimately show ?thesis
    using record_hash_identifies [of sample_services sample_event ?e]
    by (simp add: sample_services_def record_hash_def sample_event_def meta_usage_def Let_def)
qed

end
