(* ===== verification/Readers.thy ===== *)
theory Readers
  imports Usage Windows
begin

text \<open>
  How a provider's JSON is read (the helpers of \<^verbatim>\<open>src/quota/provider/mod.rs\<close>): fields that
  are spelled two ways, numbers and instants that come as numbers or as text, percentages,
  flags, and labels reduced to keys. serde_json's reader and printer, jiff's of an
  instant, the text of a float and reqwest's text of an undecodable body are the fields of
  \<open>codecs\<close>. An f64 is the rational it denotes and its arithmetic is exact.
\<close>

record codecs =
  cx_json :: "string \<Rightarrow> json option"
  cx_print :: "json \<Rightarrow> string"
  cx_instant :: "string \<Rightarrow> instant option"
  cx_print_instant :: "instant \<Rightarrow> string"
  cx_float :: "rat \<Rightarrow> string"
  cx_undecodable :: string

section \<open>Reading a provider's JSON\<close>

fun get :: "string \<Rightarrow> json \<Rightarrow> json option" where
  "get k (JObject fs) = map_of fs k"
| "get k _ = None"

fun is_object :: "json \<Rightarrow> bool" where
  "is_object (JObject _) = True"
| "is_object _ = False"

definition items :: "json option \<Rightarrow> json list" where
  "items j = unwrap_or [] (Option.bind j as_array)"

text \<open>A value at a path of names (\<^verbatim>\<open>Value::pointer\<close>).\<close>

fun pointer :: "string list \<Rightarrow> json \<Rightarrow> json option" where
  "pointer [] value = Some value"
| "pointer (k # ks) value = Option.bind (get k value) (pointer ks)"

definition obj_field :: "string \<Rightarrow> json \<Rightarrow> json option" where
  "obj_field k value = filter_option is_object (get k value)"

text \<open>The first of the keys that is present and not null.\<close>

definition field :: "json \<Rightarrow> string list \<Rightarrow> json option" where
  "field value keys = find_map (\<lambda>k. filter_option (\<lambda>v. v \<noteq> JNull) (get k value)) keys"

text \<open>
  Rust's \<^verbatim>\<open>str::parse::<f64>\<close> on a decimal: a sign, digits with at most one point, at least
  one digit, and an exponent. A value too large for an f64 is infinite and so not a number
  here.
\<close>

definition f64_limit :: rat where "f64_limit = 2 ^ 1024 - 2 ^ 970"

definition parse_decimal :: "string \<Rightarrow> rat option" where
  "parse_decimal s =
     (let whole = takeWhile (\<lambda>c. digit_value c \<noteq> None) s;
          rest = dropWhile (\<lambda>c. digit_value c \<noteq> None) s;
          frac = (case rest of [] \<Rightarrow> Some [] | c # cs \<Rightarrow>
                    if c = CHR ''.'' \<and> list_all (\<lambda>c. digit_value c \<noteq> None) cs then Some cs else None)
      in case frac of
           None \<Rightarrow> None
         | Some fs \<Rightarrow>
             if whole = [] \<and> fs = [] then None
             else map_option (\<lambda>n. of_nat n / 10 ^ length fs) (parse_digits (whole @ fs)))"

definition scale :: "rat \<Rightarrow> int \<Rightarrow> rat" where
  "scale x e = (if 0 \<le> e then x * 10 ^ nat e else x / 10 ^ nat (- e))"

definition parse_exponent :: "string \<Rightarrow> int option" where
  "parse_exponent s =
     (case s of
        [] \<Rightarrow> None
      | c # cs \<Rightarrow> if c = CHR ''-'' then map_option (\<lambda>n. - int n) (parse_digits cs)
                 else if c = CHR ''+'' then map_option int (parse_digits cs)
                 else map_option int (parse_digits s))"

definition parse_f64 :: "string \<Rightarrow> rat option" where
  "parse_f64 s =
     (let (neg, body) = (case s of c # cs \<Rightarrow> if c = CHR ''-'' then (True, cs)
                           else if c = CHR ''+'' then (False, cs) else (False, s) | [] \<Rightarrow> (False, []));
          is_e = (\<lambda>c. c = CHR ''e'' \<or> c = CHR ''E'');
          mantissa = takeWhile (\<lambda>c. \<not> is_e c) body;
          tail = dropWhile (\<lambda>c. \<not> is_e c) body;
          exponent = (case tail of [] \<Rightarrow> Some 0 | _ # cs \<Rightarrow> parse_exponent cs)
      in case (parse_decimal mantissa, exponent) of
           (Some x, Some e) \<Rightarrow>
             (let v = scale x e in if f64_limit \<le> v then None else Some (if neg then - v else v))
         | _ \<Rightarrow> None)"

definition number :: "json \<Rightarrow> rat option" where
  "number value =
     (case value of
        JString s \<Rightarrow> parse_f64 (trim s)
      | _ \<Rightarrow> as_f64 value)"

definition text_of :: "codecs \<Rightarrow> json \<Rightarrow> string option" where
  "text_of cx value =
     (case value of
        JString s \<Rightarrow> (if trim s = [] then None else Some (trim s))
      | JInt n \<Rightarrow> Some (show_int n)
      | JFloat x \<Rightarrow> Some (cx_float cx x)
      | _ \<Rightarrow> None)"

definition integer :: "json \<Rightarrow> int option" where
  "integer value = (case value of JString s \<Rightarrow> parse_i64 (trim s) | _ \<Rightarrow> as_i64 value)"

definition UNIX_MILLISECONDS_FROM :: rat where "UNIX_MILLISECONDS_FROM = 100000000000"

text \<open>Seconds are rounded to the nearest nanosecond.\<close>

definition offset :: "instant \<Rightarrow> rat \<Rightarrow> instant option" where
  "offset from_time seconds =
     (if \<bar>seconds\<bar> < 2 ^ 63 then checked_instant (from_time + round_half_away (seconds * 1000000000)) else None)"

definition instant_of :: "codecs \<Rightarrow> json \<Rightarrow> instant option" where
  "instant_of cx value =
     or_else (Option.bind (as_str value) (\<lambda>s. cx_instant cx (trim s)))
       (Option.bind (filter_option (\<lambda>x. 0 < x) (number value))
          (\<lambda>unix. offset 0 (if unix < UNIX_MILLISECONDS_FROM then unix else unix / 1000)))"

definition after_seconds :: "json \<Rightarrow> instant \<Rightarrow> instant option" where
  "after_seconds value now =
     Option.bind (filter_option (\<lambda>x. 0 < x) (number value)) (offset now)"

definition clamp_unit :: "rat \<Rightarrow> rat" where
  "clamp_unit x = max 0 (min 1 x)"

definition used_from_percent :: "rat \<Rightarrow> rat" where
  "used_from_percent percent = clamp_unit (percent / 100)"

definition truthy :: "json \<Rightarrow> bool option" where
  "truthy value =
     (case value of
        JBool b \<Rightarrow> Some b
      | JInt n \<Rightarrow> Some (n \<noteq> 0)
      | JFloat x \<Rightarrow> Some (x \<noteq> 0)
      | JString s \<Rightarrow>
          (let t = to_lower (trim s) in
           if t \<in> {''true'', ''1'', ''yes'', ''y'', ''on''} then Some True
           else if t \<in> {''false'', ''0'', ''no'', ''n'', ''off''} then Some False
           else None)
      | _ \<Rightarrow> None)"

definition is_alphanumeric :: "char \<Rightarrow> bool" where
  "is_alphanumeric c =
     (let n = of_char c :: nat in (48 \<le> n \<and> n \<le> 57) \<or> (65 \<le> n \<and> n \<le> 90) \<or> (97 \<le> n \<and> n \<le> 122))"

fun join :: "string \<Rightarrow> string list \<Rightarrow> string" where
  "join sep [] = []"
| "join sep [w] = w"
| "join sep (w # ws) = w @ sep @ join sep ws"

fun words_by :: "(char \<Rightarrow> bool) \<Rightarrow> string \<Rightarrow> string list" where
  "words_by p [] = [[]]"
| "words_by p (c # cs) =
     (if p c then [] # words_by p cs
      else case words_by p cs of [] \<Rightarrow> [[c]] | w # ws \<Rightarrow> (c # w) # ws)"

definition slug :: "string \<Rightarrow> string" where
  "slug t = join ''-'' (filter (\<lambda>w. w \<noteq> []) (words_by (\<lambda>c. \<not> is_alphanumeric c) (to_lower (trim t))))"

text \<open>Whole seconds of an instant, towards the epoch (\<^verbatim>\<open>Timestamp::as_second\<close>).\<close>

definition as_second :: "instant \<Rightarrow> int" where
  "as_second t = (if t < 0 then - ((- t) div ns_per_second) else t div ns_per_second)"

definition to_upper :: "string \<Rightarrow> string" where
  "to_upper s = map (\<lambda>c. let n = of_char c :: nat in if 97 \<le> n \<and> n \<le> 122 then char_of (n - 32) else c) s"

text \<open>A window with nothing but a key and a label.\<close>

definition plain_window :: "string \<Rightarrow> string \<Rightarrow> new_window" where
  "plain_window key label =
     \<lparr>nw_key = key, nw_label = label, nw_used_fraction = None, nw_used_value = None,
      nw_limit_value = None, nw_unit = None, nw_seconds = None, nw_resets_at = None,
      nw_scope = ScopeAccount, nw_starts_on_use = False\<rparr>"

datatype manual_resets = Unchanged | Reported "grant list"

record observation =
  ob_windows :: "new_window list"
  ob_plan :: "string option"
  ob_manual_resets :: manual_resets

section \<open>What the readers promise\<close>

lemma used_from_percent_unit: "0 \<le> used_from_percent x \<and> used_from_percent x \<le> 1"
  by (simp add: used_from_percent_def clamp_unit_def)

lemma clamp_unit_unit: "0 \<le> clamp_unit x \<and> clamp_unit x \<le> 1"
  by (simp add: clamp_unit_def)

text \<open>A window whose used fraction, where it has one, is one.\<close>

definition unit_window :: "new_window \<Rightarrow> bool" where
  "unit_window n \<longleftrightarrow> (\<forall>x\<in>set_option (nw_used_fraction n). 0 \<le> x \<and> x \<le> 1)"

end
