(* ===== verification/Gateway.thy ===== *)
theory Gateway
  imports Readers
begin

text \<open>
  CLIProxy's management API (\<^verbatim>\<open>src/quota/management.rs\<close>) and the providers behind it
  (\<^verbatim>\<open>src/quota/provider/mod.rs\<close>): the credential entries the gateway lists, the calls that are
  sent through it, the errors, and what a credential has to carry for its provider's adapter.

  The gateway is a parameter, the record \<open>world\<close>: what it answers to the next request after
  the requests sent so far, so it may answer the same request differently each time, and what
  the clock and the random generator say at that point. A computation is a function of the
  requests sent so far to its result and the longer list. Calls that the code sends
  concurrently are sent in the order in which they are written.
\<close>

section \<open>Providers\<close>

datatype provider = Claude | Codex | Antigravity | Kimi | Devin | Xai | Meta

definition provider_parse :: "string \<Rightarrow> provider option" where
  "provider_parse name =
     (if name = ''claude'' then Some Claude
      else if name = ''codex'' then Some Codex
      else if name = ''antigravity'' then Some Antigravity
      else if name = ''kimi'' then Some Kimi
      else if name = ''devin'' then Some Devin
      else if name = ''xai'' then Some Xai
      else if name = ''meta'' then Some Meta
      else None)"

fun allows_automatic_recovery :: "provider \<Rightarrow> bool" where
  "allows_automatic_recovery Xai = False"
| "allows_automatic_recovery Meta = False"
| "allows_automatic_recovery _ = True"

definition spends_manual_resets :: "provider \<Rightarrow> bool" where
  "spends_manual_resets p = (p = Codex)"

section \<open>Errors\<close>

datatype management_error = Transport string | Status int | InvalidBaseUrl | CooldownKept

datatype refresh_error =
    Management management_error
  | Upstream int
  | SignInExpired
  | Unreadable
  | Empty
  | MissingProjectId
  | MissingFile
  | InvalidCredentialFile
  | MissingDcaToken
  | NoManualReset
  | ResetNotConfirmed

fun management_error_text :: "management_error \<Rightarrow> string" where
  "management_error_text (Transport e) = ''CLIProxy could not be reached: '' @ e"
| "management_error_text (Status n) = ''CLIProxy answered '' @ show_int n"
| "management_error_text InvalidBaseUrl = ''the source's base URL is not a URL''"
| "management_error_text CooldownKept =
     ''CLIProxy did not confirm that it cleared the credential's cooldowns''"

fun refresh_error_text :: "refresh_error \<Rightarrow> string" where
  "refresh_error_text (Management e) = management_error_text e"
| "refresh_error_text (Upstream n) = ''the provider answered '' @ show_int n"
| "refresh_error_text SignInExpired = ''OAuth access token has expired. Re-authenticate to continue.''"
| "refresh_error_text Unreadable = ''the provider's answer was not the expected JSON''"
| "refresh_error_text Empty = ''the provider reported no quota''"
| "refresh_error_text MissingProjectId = ''the credential entry has no project_id''"
| "refresh_error_text MissingFile = ''the credential has no file to read''"
| "refresh_error_text InvalidCredentialFile = ''the credential file is not a JSON object''"
| "refresh_error_text MissingDcaToken = ''the credential file has no dca_token''"
| "refresh_error_text NoManualReset = ''the provider's manual resets cannot be spent here''"
| "refresh_error_text ResetNotConfirmed = ''the provider did not confirm the manual reset''"

section \<open>Requests\<close>

datatype verb = GET | POST

record api_call =
  ac_auth_index :: string
  ac_method :: verb
  ac_url :: string
  ac_header :: "(string \<times> string) list"
  ac_data :: "string option"

record api_response =
  ar_status :: int
  ar_body :: string

text \<open>A request to the gateway: its list, a file, a cooldown reset or a call to a provider.\<close>

datatype request = ListAuthFiles | Download string | ResetCooldown string | Call api_call

type_synonym trace = "request list"

text \<open>
  The answer to a request is a status and the text of the body, or the text of reqwest's
  error, \<open>None\<close> where the base URL is no URL to add a query to (a download only).
\<close>

record world =
  wo_answer :: "trace \<Rightarrow> request \<Rightarrow> string option + (int \<times> string)"
  wo_now :: "trace \<Rightarrow> instant"
  wo_random :: "trace \<Rightarrow> 128 word"

type_synonym 'a io = "trace \<Rightarrow> 'a \<times> trace"

definition done_with :: "'a \<Rightarrow> 'a io" where
  "done_with x sent = (x, sent)"

definition and_then :: "'a io \<Rightarrow> ('a \<Rightarrow> 'b io) \<Rightarrow> 'b io" where
  "and_then m f sent = (let (x, sent') = m sent in f x sent')"

text \<open>Rust's \<^verbatim>\<open>?\<close>: an error ends the computation.\<close>

definition try_then :: "('e + 'a) io \<Rightarrow> ('a \<Rightarrow> ('e + 'b) io) \<Rightarrow> ('e + 'b) io" where
  "try_then m f = and_then m (\<lambda>r. case r of Inl e \<Rightarrow> done_with (Inl e) | Inr x \<Rightarrow> f x)"

definition read_clock :: "world \<Rightarrow> instant io" where
  "read_clock w sent = (wo_now w sent, sent)"

definition read_random :: "world \<Rightarrow> 128 word io" where
  "read_random w sent = (wo_random w sent, sent)"

definition successful :: "int \<times> string \<Rightarrow> management_error + string" where
  "successful response =
     (if 200 \<le> fst response \<and> fst response < 300 then Inr (snd response) else Inl (Status (fst response)))"

definition send :: "world \<Rightarrow> request \<Rightarrow> (management_error + string) io" where
  "send w r sent =
     ((case wo_answer w sent r of
         Inl None \<Rightarrow> Inl InvalidBaseUrl
       | Inl (Some e) \<Rightarrow> Inl (Transport e)
       | Inr response \<Rightarrow> successful response),
      sent @ [r])"

text \<open>A body that is not the JSON its reader expects is reqwest's own error.\<close>

definition read_body :: "codecs \<Rightarrow> (json \<Rightarrow> 'a option) \<Rightarrow> string \<Rightarrow> management_error + 'a" where
  "read_body cx r body = ok_or (Transport (cx_undecodable cx)) (Option.bind (cx_json cx body) r)"

definition read_u16 :: "json \<Rightarrow> int option" where
  "read_u16 j = filter_option (\<lambda>n. 0 \<le> n \<and> n < 2 ^ 16) (as_i64 j)"

definition read_response :: "json \<Rightarrow> api_response option" where
  "read_response j = do {
     fs \<leftarrow> as_object j;
     status \<leftarrow> Option.bind (map_of fs ''status_code'') read_u16;
     body \<leftarrow> read_default [] as_str (map_of fs ''body'');
     Some \<lparr>ar_status = status, ar_body = body\<rparr> }"

text \<open>A call, with its error already widened to the adapters'.\<close>

definition call :: "codecs \<Rightarrow> world \<Rightarrow> api_call \<Rightarrow> (refresh_error + api_response) io" where
  "call cx w c =
     and_then (send w (Call c)) (\<lambda>r. done_with
       (case r of Inl e \<Rightarrow> Inl (Management e)
        | Inr body \<Rightarrow> map_sum Management id (read_body cx read_response body)))"

definition download :: "world \<Rightarrow> string \<Rightarrow> (refresh_error + string) io" where
  "download w name = and_then (send w (Download name)) (\<lambda>r. done_with (map_sum Management id r))"

definition reset_cooldown :: "codecs \<Rightarrow> world \<Rightarrow> string \<Rightarrow> (management_error + unit) io" where
  "reset_cooldown cx w auth_index =
     try_then (send w (ResetCooldown auth_index)) (\<lambda>body.
       try_then (done_with (read_body cx (\<lambda>j. do {
           fs \<leftarrow> as_object j;
           status \<leftarrow> read_default [] as_str (map_of fs ''status'');
           index \<leftarrow> read_default [] as_str (map_of fs ''auth_index'');
           Some (status, index) }) body)) (\<lambda>(status, index). done_with
             (if status \<noteq> ''ok'' \<or> index \<noteq> auth_index then Inl CooldownKept else Inr ())))"

section \<open>The credential list\<close>

record entry =
  en_auth_index :: "string option"
  en_name :: "string option"
  en_provider :: "string option"
  en_kind :: "string option"
  en_label :: "string option"
  en_email :: "string option"
  en_status :: "string option"
  en_status_message :: "string option"
  en_disabled :: bool
  en_unavailable :: bool
  en_runtime_only :: bool
  en_next_retry :: "instant option"
  en_cooldowns :: "cooldown list option"
  en_account_type :: "string option"
  en_project_id :: "string option"
  en_id_token :: "json option"

record auth_file =
  af_entry :: entry
  af_raw :: json

record auth_files =
  al_observed_at :: instant
  al_files :: "auth_file list"
  al_is_complete :: bool

definition read_instant :: "codecs \<Rightarrow> json \<Rightarrow> instant option" where
  "read_instant cx j = Option.bind (as_str j) (cx_instant cx)"

definition read_cooldown :: "codecs \<Rightarrow> json \<Rightarrow> cooldown option" where
  "read_cooldown cx j = do {
     fs \<leftarrow> as_object j;
     scope \<leftarrow> read_string (map_of fs ''scope'');
     model_key \<leftarrow> read_optional as_str (map_of fs ''model_key'');
     reason \<leftarrow> read_string (map_of fs ''reason'');
     retry_at \<leftarrow> Option.bind (map_of fs ''retry_at'') (read_instant cx);
     remaining \<leftarrow> Option.bind (map_of fs ''remaining_seconds'') as_i64;
     Some \<lparr>cd_scope = scope, cd_model_key = model_key, cd_reason = reason, cd_retry_at = retry_at,
           cd_remaining_seconds = remaining\<rparr> }"

definition read_list :: "(json \<Rightarrow> 'a option) \<Rightarrow> json \<Rightarrow> 'a list option" where
  "read_list r j = Option.bind (as_array j) (\<lambda>xs. those (map r xs))"

definition read_entry :: "codecs \<Rightarrow> json \<Rightarrow> entry option" where
  "read_entry cx j = do {
     fs \<leftarrow> as_object j;
     auth_index \<leftarrow> read_optional as_str (map_of fs ''auth_index'');
     name \<leftarrow> read_optional as_str (map_of fs ''name'');
     provider \<leftarrow> read_optional as_str (map_of fs ''provider'');
     kind \<leftarrow> read_optional as_str (map_of fs ''type'');
     label \<leftarrow> read_optional as_str (map_of fs ''label'');
     email \<leftarrow> read_optional as_str (map_of fs ''email'');
     status \<leftarrow> read_optional as_str (map_of fs ''status'');
     status_message \<leftarrow> read_optional as_str (map_of fs ''status_message'');
     disabled \<leftarrow> read_default False as_bool (map_of fs ''disabled'');
     unavailable \<leftarrow> read_default False as_bool (map_of fs ''unavailable'');
     runtime_only \<leftarrow> read_default False as_bool (map_of fs ''runtime_only'');
     next_retry \<leftarrow> read_optional (read_instant cx) (map_of fs ''next_retry_after'');
     cooldowns \<leftarrow> read_optional (read_list (read_cooldown cx)) (map_of fs ''cooldowns'');
     account_type \<leftarrow> read_optional as_str (map_of fs ''account_type'');
     project_id \<leftarrow> read_optional as_str (map_of fs ''project_id'');
     id_token \<leftarrow> read_optional Some (map_of fs ''id_token'');
     Some \<lparr>en_auth_index = auth_index, en_name = name, en_provider = provider, en_kind = kind,
           en_label = label, en_email = email, en_status = status,
           en_status_message = status_message, en_disabled = disabled,
           en_unavailable = unavailable, en_runtime_only = runtime_only,
           en_next_retry = next_retry, en_cooldowns = cooldowns,
           en_account_type = account_type, en_project_id = project_id,
           en_id_token = id_token\<rparr> }"

definition entry_provider :: "entry \<Rightarrow> string option" where
  "entry_provider e =
     map_option to_lower (find (\<lambda>name. name \<noteq> [])
       (map trim (List.map_filter id [en_provider e, en_kind e])))"

definition read_listing :: "codecs \<Rightarrow> json \<Rightarrow> (instant option \<times> json list option) option" where
  "read_listing cx j = do {
     fs \<leftarrow> as_object j;
     observed_at \<leftarrow> read_optional (read_instant cx) (map_of fs ''observed_at'');
     files \<leftarrow> read_optional as_array (map_of fs ''files'');
     Some (observed_at, files) }"

definition auth_files_of :: "codecs \<Rightarrow> instant \<Rightarrow> instant option \<times> json list option \<Rightarrow> auth_files" where
  "auth_files_of cx now listing =
     (let raw = unwrap_or [] (snd listing);
          read_file = (\<lambda>j. map_option (\<lambda>e. \<lparr>af_entry = e, af_raw = j\<rparr>) (read_entry cx j))
      in \<lparr>al_observed_at = unwrap_or now (fst listing),
          al_files = List.map_filter read_file raw,
          al_is_complete = (snd listing \<noteq> None \<and> list_all (\<lambda>j. read_entry cx j \<noteq> None) raw)\<rparr>)"

definition list_auth_files :: "codecs \<Rightarrow> world \<Rightarrow> (management_error + auth_files) io" where
  "list_auth_files cx w =
     try_then (send w ListAuthFiles) (\<lambda>body.
       try_then (done_with (read_body cx (read_listing cx) body)) (\<lambda>listing.
         and_then (read_clock w) (\<lambda>now. done_with (Inr (auth_files_of cx now listing)))))"

section \<open>What a credential carries\<close>

text \<open>The entry and the objects the same fields are also looked for in.\<close>

definition entry_records :: "auth_file \<Rightarrow> json option list" where
  "entry_records f = [Some (af_raw f), obj_field ''metadata'' (af_raw f), obj_field ''attributes'' (af_raw f)]"

definition project_id :: "codecs \<Rightarrow> auth_file \<Rightarrow> string option" where
  "project_id cx f =
     (case filter_option (\<lambda>p. p \<noteq> []) (map_option trim (en_project_id (af_entry f))) of
        Some p \<Rightarrow> Some p
      | None \<Rightarrow>
          Option.bind
            (or_else (Option.bind (obj_field ''metadata'' (af_raw f))
                        (\<lambda>m. field m [''project_id'', ''projectId'']))
                     (Option.bind (obj_field ''attributes'' (af_raw f))
                        (\<lambda>a. field a [''project_id'', ''projectId'', ''gemini_virtual_project''])))
            (text_of cx))"

definition has_file :: "auth_file \<Rightarrow> bool" where
  "has_file f \<longleftrightarrow> \<not> en_runtime_only (af_entry f) \<and>
     (case en_name (af_entry f) of None \<Rightarrow> False | Some name \<Rightarrow> trim name \<noteq> [])"

definition can_refresh :: "codecs \<Rightarrow> provider \<Rightarrow> auth_file \<Rightarrow> bool" where
  "can_refresh cx p f \<longleftrightarrow>
     \<not> en_disabled (af_entry f) \<and> unwrap_or [] (en_auth_index (af_entry f)) \<noteq> [] \<and>
     (case p of Antigravity \<Rightarrow> project_id cx f \<noteq> None | Meta \<Rightarrow> has_file f | _ \<Rightarrow> True)"

definition can_reset :: "codecs \<Rightarrow> provider \<Rightarrow> auth_file \<Rightarrow> bool" where
  "can_reset cx p f \<longleftrightarrow> spends_manual_resets p \<and> can_refresh cx p f"

section \<open>The provider's answer\<close>

definition says_token_expired :: "string \<Rightarrow> bool" where
  "says_token_expired body = contains ''OAuth access token has expired'' body"

definition answer :: "codecs \<Rightarrow> api_response \<Rightarrow> refresh_error + json" where
  "answer cx r =
     (if ar_status r = 401 \<and> says_token_expired (ar_body r) then Inl SignInExpired
      else if \<not> (200 \<le> ar_status r \<and> ar_status r < 300) then Inl (Upstream (ar_status r))
      else ok_or Unreadable (cx_json cx (trim (ar_body r))))"

text \<open>A call whose answer is read as JSON.\<close>

definition ask :: "codecs \<Rightarrow> world \<Rightarrow> api_call \<Rightarrow> (refresh_error + json) io" where
  "ask cx w c = try_then (call cx w c) (\<lambda>r. done_with (answer cx r))"

section \<open>Which requests a computation sends\<close>

text \<open>
  Whatever the gateway answers, the computation only adds requests, and only such that the
  predicate holds of.
\<close>

definition sends :: "(request \<Rightarrow> bool) \<Rightarrow> 'a io \<Rightarrow> bool" where
  "sends P m \<longleftrightarrow> (\<forall>sent. \<exists>rs. snd (m sent) = sent @ rs \<and> list_all P rs)"

named_theorems io_intros \<open>which requests a computation sends\<close>

lemma sends_done [io_intros]: "sends P (done_with x)"
  by (simp add: sends_def done_with_def)

lemma sends_clock [io_intros]: "sends P (read_clock w)"
  by (simp add: sends_def read_clock_def)

lemma sends_random [io_intros]: "sends P (read_random w)"
  by (simp add: sends_def read_random_def)

lemma sends_and_then [io_intros]:
  assumes "sends P m" and "\<And>x. sends P (f x)"
  shows "sends P (and_then m f)"
  unfolding sends_def
proof
  fix sent
  obtain rs where rs: "snd (m sent) = sent @ rs" "list_all P rs" using assms(1) by (auto simp: sends_def)
  obtain qs where "snd (f (fst (m sent)) (sent @ rs)) = (sent @ rs) @ qs" "list_all P qs"
    using assms(2) [of "fst (m sent)"] unfolding sends_def by blast
  then have "snd (and_then m f sent) = sent @ (rs @ qs) \<and> list_all P (rs @ qs)"
    using rs by (cases "m sent") (simp add: and_then_def)
  then show "\<exists>rs. snd (and_then m f sent) = sent @ rs \<and> list_all P rs" by blast
qed

lemma sends_case_sum:
  "(\<And>e. sends P (f e)) \<Longrightarrow> (\<And>x. sends P (g x)) \<Longrightarrow> sends P (case r of Inl e \<Rightarrow> f e | Inr x \<Rightarrow> g x)"
  by (cases r) auto

lemma sends_try_then [io_intros]:
  "sends P m \<Longrightarrow> (\<And>x. sends P (f x)) \<Longrightarrow> sends P (try_then m f)"
  unfolding try_then_def by (intro io_intros sends_case_sum)

lemma sends_if [io_intros]: "sends P m \<Longrightarrow> sends P n \<Longrightarrow> sends P (if b then m else n)"
  by simp

lemma sends_send [io_intros]: "P r \<Longrightarrow> sends P (send w r)"
  by (simp add: sends_def send_def)

lemma sends_call [io_intros]: "P (Call c) \<Longrightarrow> sends P (call cx w c)"
  unfolding call_def by (intro io_intros)

lemma sends_ask [io_intros]: "P (Call c) \<Longrightarrow> sends P (ask cx w c)"
  unfolding ask_def by (intro io_intros)

lemma sends_download [io_intros]: "P (Download n) \<Longrightarrow> sends P (download w n)"
  unfolding download_def by (intro io_intros)

lemma sends_list_auth_files [io_intros]: "P ListAuthFiles \<Longrightarrow> sends P (list_auth_files cx w)"
  unfolding list_auth_files_def by (intro io_intros)

lemma sends_reset_cooldown [io_intros]: "P (ResetCooldown i) \<Longrightarrow> sends P (reset_cooldown cx w i)"
  unfolding reset_cooldown_def by (intro io_intros) (auto intro: io_intros)

lemma sends_mono: "sends P m \<Longrightarrow> (\<And>r. P r \<Longrightarrow> Q r) \<Longrightarrow> sends Q m"
  unfolding sends_def list_all_iff by blast

lemma sendsE:
  assumes "sends P m"
  obtains rs where "snd (m sent) = sent @ rs" and "list_all P rs"
  using assms by (auto simp: sends_def)

end
