(* ===== verification/Adapter_Claude.thy ===== *)
theory Adapter_Claude
  imports Gateway
begin

text \<open>
  Claude (\<^verbatim>\<open>src/quota/provider/claude.rs\<close>): the usage for the windows, the profile for the
  plan, the usage again for the manual reset grants. Only the first answer is required.
\<close>

definition bearer :: "string \<times> string" where
  "bearer = (''Authorization'', ''Bearer $TOKEN$'')"

definition json_content :: "string \<times> string" where
  "json_content = (''Content-Type'', ''application/json'')"

definition FIVE_HOURS :: int where "FIVE_HOURS = 5 * 60 * 60"

definition WEEK :: int where "WEEK = 7 * 24 * 60 * 60"

definition FABLE_KEY :: string where "FABLE_KEY = ''iguana_necktie''"

definition LABEL_CHARACTERS :: nat where "LABEL_CHARACTERS = 120"

definition WINDOWS :: "(string \<times> string \<times> string) list" where
  "WINDOWS =
     [(''five_hour'', ''five-hour'', ''5-hour''),
      (''seven_day'', ''seven-day'', ''7-day''),
      (''seven_day_oauth_apps'', ''seven-day-oauth-apps'', ''7-day OAuth apps''),
      (''seven_day_opus'', ''seven-day-opus'', ''7-day Opus''),
      (''seven_day_sonnet'', ''seven-day-sonnet'', ''7-day Sonnet''),
      (''seven_day_cowork'', ''seven-day-cowork'', ''7-day Cowork''),
      (FABLE_KEY, ''seven-day-fable'', ''7-day Fable'')]"

section \<open>Manual reset grants\<close>

definition grant_label :: "string \<Rightarrow> string option" where
  "grant_label t =
     (let label = join '' '' (filter (\<lambda>w. w \<noteq> [])
            (words_by (\<lambda>c. is_ws c \<or> (let n = of_char c :: nat in n < 32 \<or> n = 127)) t));
          starts = char_starts label;
          label = (if LABEL_CHARACTERS < length starts then take (starts ! LABEL_CHARACTERS) label else label)
      in if label = [] then None else Some label)"

definition read_grant :: "codecs \<Rightarrow> json \<Rightarrow> grant option" where
  "read_grant cx value = do {
     total \<leftarrow> filter_option (\<lambda>t. 0 \<le> t) (Option.bind (get ''resets_total'' value) as_i64);
     remaining \<leftarrow> filter_option (\<lambda>l. 0 \<le> l \<and> l \<le> total) (Option.bind (get ''resets_left'' value) as_i64);
     expires_at \<leftarrow> read_optional (instant_of cx) (get ''ends_at'' value);
     Some \<lparr>g_label = Option.bind (Option.bind (get ''label'' value) as_str) grant_label,
           g_remaining = remaining, g_total = Some total, g_expires_at = expires_at\<rparr> }"

fun read_grants :: "codecs \<Rightarrow> string list \<Rightarrow> json list \<Rightarrow> grant list option" where
  "read_grants cx ids [] = Some []"
| "read_grants cx ids (value # rest) = do {
     i \<leftarrow> filter_option (\<lambda>i. i \<noteq> []) (Option.bind (get ''id'' value) as_str);
     if i \<in> set ids then None
     else do {
       g \<leftarrow> read_grant cx value;
       gs \<leftarrow> read_grants cx (i # ids) rest;
       Some (g # gs) } }"

definition reset_grants :: "codecs \<Rightarrow> json \<Rightarrow> grant list option" where
  "reset_grants cx body = do {
     block \<leftarrow> get ''cedar_ember'' body;
     eligible \<leftarrow> Option.bind (get ''eligible'' block) as_bool;
     listed \<leftarrow> read_optional as_array (get ''grants'' block);
     gs \<leftarrow> read_grants cx [] (unwrap_or [] listed);
     Some (filter (\<lambda>g. 0 < g_remaining g) gs) }"

section \<open>Windows\<close>

definition claude_scope :: "string \<Rightarrow> window_scope" where
  "claude_scope key =
     (if key = ''seven-day-opus'' then ScopeModel ''opus''
      else if key = ''seven-day-sonnet'' then ScopeModel ''sonnet''
      else if key = ''seven-day-fable'' then ScopeModel ''fable''
      else if key = ''seven-day-cowork'' then ScopeUnmetered
      else ScopeAccount)"

definition is_fable_limit :: "codecs \<Rightarrow> json \<Rightarrow> bool" where
  "is_fable_limit cx limit \<longleftrightarrow>
     (let kind = map_option to_lower (Option.bind (get ''kind'' limit) (text_of cx));
          model = map_option to_lower
            (Option.bind (pointer [''scope'', ''model'', ''display_name''] limit) (text_of cx))
      in kind = Some ''weekly_scoped'' \<and> (model = Some ''fable'' \<or> model = Some ''fable 5'') \<and>
         Option.bind (get ''percent'' limit) number \<noteq> None)"

definition fable_limit :: "codecs \<Rightarrow> json \<Rightarrow> json option" where
  "fable_limit cx usage = do {
     limits \<leftarrow> Option.bind (get ''limits'' usage) as_array;
     let candidates = filter (is_fable_limit cx) limits;
     or_else (find (\<lambda>l. Option.bind (get ''is_active'' l) as_bool = Some True) candidates)
       (case candidates of [] \<Rightarrow> None | l # _ \<Rightarrow> Some l) }"

definition named_window :: "codecs \<Rightarrow> json \<Rightarrow> string \<times> string \<times> string \<Rightarrow> new_window option" where
  "named_window cx usage spec =
     (case spec of (payload_key, key, label) \<Rightarrow> do {
        window \<leftarrow> obj_field payload_key usage;
        utilization \<leftarrow> get ''utilization'' window;
        Some ((plain_window key label)
          \<lparr>nw_used_fraction := map_option used_from_percent (number utilization),
           nw_seconds := Some (if payload_key = ''five_hour'' then FIVE_HOURS else WEEK),
           nw_resets_at := Option.bind (get ''resets_at'' window) (instant_of cx),
           nw_scope := claude_scope key,
           nw_starts_on_use := (payload_key = ''five_hour'')\<rparr>) })"

definition fable_window :: "codecs \<Rightarrow> json \<Rightarrow> new_window" where
  "fable_window cx limit =
     (plain_window ''seven-day-fable'' ''7-day Fable'')
       \<lparr>nw_used_fraction := map_option used_from_percent (Option.bind (get ''percent'' limit) number),
        nw_seconds := Some WEEK,
        nw_resets_at := Option.bind (get ''resets_at'' limit) (instant_of cx),
        nw_scope := claude_scope ''seven-day-fable''\<rparr>"

definition zip_option :: "'a option \<Rightarrow> 'b option \<Rightarrow> ('a \<times> 'b) option" where
  "zip_option x y = Option.bind x (\<lambda>a. map_option (Pair a) y)"

definition extra_window :: "json \<Rightarrow> new_window" where
  "extra_window extra =
     (let used = Option.bind (get ''used_credits'' extra) number;
          limit = Option.bind (get ''monthly_limit'' extra) number
      in (plain_window ''extra-usage'' ''Extra usage'')
           \<lparr>nw_used_fraction :=
              or_else (map_option used_from_percent (Option.bind (get ''utilization'' extra) number))
                (map_option (\<lambda>(used, limit). used / limit)
                   (zip_option used (filter_option (\<lambda>l. 0 < l) limit))),
            nw_used_value := used, nw_limit_value := limit, nw_unit := Some ''credits''\<rparr>)"

definition claude_windows :: "codecs \<Rightarrow> json \<Rightarrow> new_window list" where
  "claude_windows cx usage =
     (let fable = fable_limit cx usage
      in List.map_filter (named_window cx usage)
           (filter (\<lambda>(payload_key, _). \<not> (payload_key = FABLE_KEY \<and> fable \<noteq> None)) WINDOWS) @
         (case fable of None \<Rightarrow> [] | Some limit \<Rightarrow> [fable_window cx limit]) @
         (case filter_option (\<lambda>e. Option.bind (get ''is_enabled'' e) as_bool = Some True)
                 (get ''extra_usage'' usage) of
            None \<Rightarrow> [] | Some extra \<Rightarrow> [extra_window extra]))"

section \<open>The plan\<close>

definition claude_plan :: "codecs \<Rightarrow> json \<Rightarrow> string option" where
  "claude_plan cx profile =
     (let organization = (\<lambda>key. map_option to_lower
            (Option.bind (pointer [''organization'', key] profile) (text_of cx)));
          kind = filter_option (\<lambda>k. k = ''team'' \<or> k = ''enterprise'')
            (Option.bind (organization ''organization_type'') (strip_prefix ''claude_''));
          flag = (\<lambda>key. Option.bind (pointer [''account'', key] profile) truthy);
          max_flag = flag ''has_claude_max'';
          pro_flag = flag ''has_claude_pro''
      in if organization ''subscription_status'' = Some ''active'' \<and> kind \<noteq> None then kind
         else if max_flag = Some True then Some ''max''
         else if pro_flag = Some True then Some ''pro''
         else if max_flag = Some False \<and> pro_flag = Some False then Some ''free''
         else None)"

section \<open>The refresh\<close>

definition claude_usage_call :: "string \<Rightarrow> api_call" where
  "claude_usage_call auth_index =
     \<lparr>ac_auth_index = auth_index, ac_method = GET,
      ac_url = ''https://api.anthropic.com/api/oauth/usage'',
      ac_header = [bearer, json_content, (''anthropic-beta'', ''oauth-2025-04-20'')],
      ac_data = None\<rparr>"

definition claude_profile_call :: "string \<Rightarrow> api_call" where
  "claude_profile_call auth_index =
     (claude_usage_call auth_index)\<lparr>ac_url := ''https://api.anthropic.com/api/oauth/profile''\<rparr>"

definition claude_grants_call :: "string \<Rightarrow> api_call" where
  "claude_grants_call auth_index =
     (claude_usage_call auth_index)
       \<lparr>ac_url := ''https://api.anthropic.com/api/oauth/usage?cedar_ember=1&skip_spend=1'',
        ac_header := [(''User-Agent'', ''claude-cli/2.1.280 (external, cli)''), bearer, json_content,
                      (''anthropic-beta'', ''oauth-2025-04-20'')]\<rparr>"

text \<open>An optional answer, and an optional list of grants.\<close>

definition ok :: "'e + 'a \<Rightarrow> 'a option" where
  "ok r = (case r of Inl e \<Rightarrow> None | Inr x \<Rightarrow> Some x)"

definition reported :: "grant list option \<Rightarrow> manual_resets" where
  "reported gs = (case gs of None \<Rightarrow> Unchanged | Some gs \<Rightarrow> Reported gs)"

definition claude_fetch :: "codecs \<Rightarrow> world \<Rightarrow> string \<Rightarrow> (refresh_error + observation) io" where
  "claude_fetch cx w auth_index =
     and_then (call cx w (claude_usage_call auth_index)) (\<lambda>usage.
     and_then (ask cx w (claude_profile_call auth_index)) (\<lambda>profile.
     try_then (done_with usage) (\<lambda>usage.
     try_then (done_with (answer cx usage)) (\<lambda>usage.
     and_then (ask cx w (claude_grants_call auth_index)) (\<lambda>body. done_with (Inr
       \<lparr>ob_windows = claude_windows cx usage,
        ob_plan = Option.bind (ok profile) (claude_plan cx),
        ob_manual_resets = reported (Option.bind (ok body) (reset_grants cx))\<rparr>))))))"

section \<open>A block of grants is read whole or not at all\<close>

definition grant_id :: "json \<Rightarrow> string option" where
  "grant_id value = filter_option (\<lambda>i. i \<noteq> []) (Option.bind (get ''id'' value) as_str)"

definition whole_block :: "codecs \<Rightarrow> json list \<Rightarrow> string list \<Rightarrow> grant list \<Rightarrow> bool" where
  "whole_block cx vs ids gs \<longleftrightarrow>
     map grant_id vs = map Some ids \<and> distinct ids \<and> map (read_grant cx) vs = map Some gs"

lemma read_grants_whole:
  "read_grants cx had vs = Some gs \<longleftrightarrow> (\<exists>ids. whole_block cx vs ids gs \<and> set ids \<inter> set had = {})"
proof (induction vs arbitrary: had gs)
  case Nil
  then show ?case by (auto simp: whole_block_def)
next
  case (Cons v vs)
  have "read_grants cx had (v # vs) = Some gs \<longleftrightarrow>
      (\<exists>i g rest. grant_id v = Some i \<and> i \<notin> set had \<and> read_grant cx v = Some g \<and>
        read_grants cx (i # had) vs = Some rest \<and> gs = g # rest)"
    by (auto simp: grant_id_def bind_eq_Some_conv)
  also have "\<dots> \<longleftrightarrow> (\<exists>i g rest ids. grant_id v = Some i \<and> i \<notin> set had \<and> read_grant cx v = Some g \<and>
        whole_block cx vs ids rest \<and> set ids \<inter> set (i # had) = {} \<and> gs = g # rest)"
    unfolding Cons.IH by blast
  also have "\<dots> \<longleftrightarrow> (\<exists>ids. whole_block cx (v # vs) ids gs \<and> set ids \<inter> set had = {})"
    by (force simp: whole_block_def Cons_eq_map_conv map_eq_Cons_conv)
  finally show ?case .
qed

text \<open>
  The grants of a Claude answer are read all or not at all. They are read exactly when the
  block says whether the account is eligible and every grant in it has an id of its own, a
  count and an end that can be read; then they are the grants with a reset left, in order. So
  one malformed grant never clears the stored ones.\<close>

theorem reset_grants_all_or_nothing:
  "reset_grants cx body = Some gs \<longleftrightarrow>
     (\<exists>block eligible listed ids read.
        get ''cedar_ember'' body = Some block \<and> Option.bind (get ''eligible'' block) as_bool = Some eligible \<and>
        read_optional as_array (get ''grants'' block) = Some listed \<and>
        whole_block cx (unwrap_or [] listed) ids read \<and> gs = filter (\<lambda>g. 0 < g_remaining g) read)"
  by (auto simp: reset_grants_def bind_eq_Some_conv read_grants_whole) blast

section \<open>Bounds\<close>

lemma unit_percent [simp]: "unit_window ((plain_window k l)\<lparr>nw_used_fraction := map_option used_from_percent x,
    nw_seconds := s, nw_resets_at := r\<rparr>)"
  by (auto simp: unit_window_def used_from_percent_unit)

end
