(* ===== verification/Adapter_Google.thy ===== *)
theory Adapter_Google
  imports Adapter_Claude
begin

text \<open>
  Antigravity (\<^verbatim>\<open>src/quota/provider/antigravity.rs\<close>): the quota summary, tried on three
  hosts in order until one states a window, and the code assist answer for the plan. Buckets
  report the fraction that remains.
\<close>

definition QUOTA_URLS :: "string list" where
  "QUOTA_URLS =
     [''https://daily-cloudcode-pa.googleapis.com/v1internal:retrieveUserQuotaSummary'',
      ''https://daily-cloudcode-pa.sandbox.googleapis.com/v1internal:retrieveUserQuotaSummary'',
      ''https://cloudcode-pa.googleapis.com/v1internal:retrieveUserQuotaSummary'']"

definition google_header :: "(string \<times> string) list" where
  "google_header =
     [bearer, json_content,
      (''User-Agent'', ''antigravity/cli/1.0.13 (aidev_client; os_type=darwin; arch=arm64)'')]"

definition code_assist_call :: "string \<Rightarrow> api_call" where
  "code_assist_call auth_index =
     \<lparr>ac_auth_index = auth_index, ac_method = POST,
      ac_url = ''https://daily-cloudcode-pa.googleapis.com/v1internal:loadCodeAssist'',
      ac_header = google_header,
      ac_data = Some ''{\"metadata\":{\"ideType\":\"ANTIGRAVITY\"}}''\<rparr>"

definition summary_call :: "string \<Rightarrow> string \<Rightarrow> string \<Rightarrow> api_call" where
  "summary_call auth_index body url =
     \<lparr>ac_auth_index = auth_index, ac_method = POST, ac_url = url, ac_header = google_header,
      ac_data = Some body\<rparr>"

section \<open>Reading the answers\<close>

definition unwrap_body :: "codecs \<Rightarrow> json \<Rightarrow> json" where
  "unwrap_body cx payload =
     (if get ''models'' payload \<noteq> None then payload
      else case get ''body'' payload of
        Some (JObject fs) \<Rightarrow> JObject fs
      | Some (JString body) \<Rightarrow> unwrap_or payload (filter_option is_object (cx_json cx body))
      | _ \<Rightarrow> payload)"

definition fraction_of :: "json \<Rightarrow> rat option" where
  "fraction_of value =
     or_else (number value)
       (map_option (\<lambda>percent. percent / 100)
         (Option.bind (Option.bind (as_str value) (\<lambda>s. strip_suffix ''%'' (trim s))) parse_f64))"

definition window_seconds_of :: "string \<Rightarrow> int option" where
  "window_seconds_of window =
     (let t = to_lower (trim window)
      in if t = ''5h'' \<or> t = ''five-hour'' \<or> t = ''five_hour'' then Some FIVE_HOURS
         else if t = ''weekly'' \<or> t = ''week'' then Some WEEK else None)"

definition group_label :: "codecs \<Rightarrow> nat \<Rightarrow> json \<Rightarrow> string" where
  "group_label cx group_index grp =
     unwrap_or (''Quota Group '' @ show_nat (group_index + 1))
       (Option.bind (field grp [''displayName'', ''display_name'']) (text_of cx))"

definition group_id :: "nat \<Rightarrow> string \<Rightarrow> string" where
  "group_id group_index label =
     (if slug label = [] then ''quota-group-'' @ show_nat (group_index + 1) else slug label)"

definition bucket_window :: "codecs \<Rightarrow> nat \<Rightarrow> json \<Rightarrow> nat \<Rightarrow> json \<Rightarrow> new_window option" where
  "bucket_window cx group_index grp bucket_index bucket = do {
     remaining \<leftarrow> Option.bind (field bucket [''remainingFraction'', ''remaining_fraction'']) fraction_of;
     let glabel = group_label cx group_index grp;
     let gid = group_id group_index glabel;
     let window = Option.bind (get ''window'' bucket) (text_of cx);
     let i = unwrap_or
       (case window of Some t \<Rightarrow> gid @ ''-'' @ t
        | None \<Rightarrow> gid @ ''-bucket-'' @ show_nat (bucket_index + 1))
       (Option.bind (field bucket [''bucketId'', ''bucket_id'']) (text_of cx));
     let label = unwrap_or i (Option.bind (field bucket [''displayName'', ''display_name'']) (text_of cx));
     Some ((plain_window i (glabel @ '': '' @ label))
       \<lparr>nw_used_fraction := Some (1 - clamp_unit remaining),
        nw_seconds := Option.bind window window_seconds_of,
        nw_resets_at := Option.bind (field bucket [''resetTime'', ''reset_time'']) (instant_of cx)\<rparr>) }"

definition group_windows :: "codecs \<Rightarrow> nat \<times> json \<Rightarrow> new_window list" where
  "group_windows cx indexed =
     (case indexed of (group_index, grp) \<Rightarrow>
        List.map_filter (\<lambda>(bucket_index, bucket). bucket_window cx group_index grp bucket_index bucket)
          (enumerate 0 (items (get ''buckets'' grp))))"

definition google_windows :: "codecs \<Rightarrow> json \<Rightarrow> new_window list" where
  "google_windows cx payload =
     concat (map (group_windows cx) (enumerate 0 (items (get ''groups'' payload))))"

definition google_plan :: "codecs \<Rightarrow> json \<Rightarrow> string option" where
  "google_plan cx payload =
     (let tier = (\<lambda>keys. map_option
            (\<lambda>tier. (Option.bind (get ''id'' tier) (text_of cx), Option.bind (get ''name'' tier) (text_of cx)))
            (field payload keys));
          paid = filter_option (\<lambda>(i, _). i \<noteq> None) (tier [''paidTier'', ''paid_tier''])
      in Option.bind (or_else paid (tier [''currentTier'', ''current_tier''])) (\<lambda>(i, name).
           if i = Some ''free-tier'' then Some ''free''
           else if i = Some ''g1-pro-tier'' then Some ''pro''
           else if i = Some ''g1-ultra-tier'' then Some ''ultra''
           else if i = Some ''g1-ultra-lite-tier'' then Some ''ultra-lite''
           else or_else i name))"

section \<open>The refresh\<close>

definition decisive :: "refresh_error option \<Rightarrow> bool" where
  "decisive failure \<longleftrightarrow> failure = Some (Upstream 403) \<or> failure = Some (Upstream 404)"

text \<open>The hosts still to try, whether one has answered, and the failure so far.\<close>

fun try_hosts ::
  "codecs \<Rightarrow> world \<Rightarrow> string \<Rightarrow> string \<Rightarrow> string list \<Rightarrow> bool \<Rightarrow> refresh_error option \<Rightarrow>
    (refresh_error + new_window list) io" where
  "try_hosts cx w auth_index body [] answered failure =
     done_with (if answered then Inr [] else Inl (unwrap_or Empty failure))"
| "try_hosts cx w auth_index body (url # urls) answered failure =
     and_then (ask cx w (summary_call auth_index body url)) (\<lambda>outcome.
       case outcome of
         Inr payload \<Rightarrow>
           (let windows = google_windows cx (unwrap_body cx payload)
            in if windows \<noteq> [] then done_with (Inr windows)
               else try_hosts cx w auth_index body urls True failure)
       | Inl e \<Rightarrow>
           try_hosts cx w auth_index body urls answered (if decisive failure then failure else Some e))"

definition google_fetch :: "codecs \<Rightarrow> world \<Rightarrow> auth_file \<Rightarrow> string \<Rightarrow> (refresh_error + observation) io" where
  "google_fetch cx w f auth_index =
     try_then (done_with (ok_or MissingProjectId (project_id cx f))) (\<lambda>project.
     and_then (ask cx w (code_assist_call auth_index)) (\<lambda>subscription.
     try_then (try_hosts cx w auth_index (cx_print cx (JObject [(''project'', JString project)]))
                 QUOTA_URLS False None) (\<lambda>windows.
       done_with (Inr
         \<lparr>ob_windows = windows,
          ob_plan = Option.bind (ok subscription) (\<lambda>s. google_plan cx (unwrap_body cx s)),
          ob_manual_resets = Unchanged\<rparr>))))"

lemma unwrap_body_object: "is_object payload \<Longrightarrow> is_object (unwrap_body cx payload)"
  by (auto simp: unwrap_body_def unwrap_or_def split: option.splits json.splits)

end
