(* ===== verification/Adapter_Codex.thy ===== *)
theory Adapter_Codex
  imports Adapter_Claude
begin

text \<open>
  Codex (\<^verbatim>\<open>src/quota/provider/codex.rs\<close>): the usage and its windows, the list of reset
  credits, and the one adapter that spends a manual reset.
\<close>

definition CONSUME_URL :: string where
  "CONSUME_URL = ''https://chatgpt.com/backend-api/wham/rate-limit-reset-credits/consume''"

definition RATE_LIMIT_RESET :: string where "RATE_LIMIT_RESET = ''codex_rate_limits''"

definition RESET_LIST_KEYS :: "string list" where
  "RESET_LIST_KEYS =
     [''credits'', ''available_count'', ''availableCount'', ''applicable_available_count'',
      ''applicableAvailableCount'']"

definition SHORTEST_MONTH :: int where "SHORTEST_MONTH = 28 * 86400"

definition LONGEST_MONTH :: int where "LONGEST_MONTH = 31 * 86400"

section \<open>The header\<close>

definition chatgpt_account_id :: "codecs \<Rightarrow> auth_file \<Rightarrow> string option" where
  "chatgpt_account_id cx f =
     (let records = List.map_filter id (entry_records f);
          keys = [''chatgpt_account_id'', ''chatgptAccountId'']
      in or_else
           (Option.bind (find_map (\<lambda>r. field r keys) records) (text_of cx))
           (Option.bind
             (find_map (\<lambda>claims. field claims keys)
               (filter is_object (List.map_filter (get ''id_token'') records)))
             (text_of cx)))"

definition codex_header :: "codecs \<Rightarrow> auth_file \<Rightarrow> (string \<times> string) list" where
  "codex_header cx f =
     [bearer, json_content,
      (''User-Agent'', ''codex-tui/0.149.1 (Mac OS 26.5.2; arm64) iTerm.app/3.6.11 (codex-tui; 0.149.1)'')] @
     (case chatgpt_account_id cx f of None \<Rightarrow> [] | Some i \<Rightarrow> [(''Chatgpt-Account-Id'', i)])"

definition codex_usage_call :: "codecs \<Rightarrow> auth_file \<Rightarrow> string \<Rightarrow> api_call" where
  "codex_usage_call cx f auth_index =
     \<lparr>ac_auth_index = auth_index, ac_method = GET,
      ac_url = ''https://chatgpt.com/backend-api/wham/usage'', ac_header = codex_header cx f,
      ac_data = None\<rparr>"

definition credits_call :: "(string \<times> string) list \<Rightarrow> string \<Rightarrow> api_call" where
  "credits_call header auth_index =
     \<lparr>ac_auth_index = auth_index, ac_method = GET,
      ac_url = ''https://chatgpt.com/backend-api/wham/rate-limit-reset-credits'',
      ac_header = header @ [(''Accept'', ''application/json''), (''OpenAI-Beta'', ''codex-1''),
        (''Originator'', ''Codex Desktop'')],
      ac_data = None\<rparr>"

section \<open>Manual resets\<close>

definition credit_grant :: "codecs \<Rightarrow> json \<Rightarrow> grant option" where
  "credit_grant cx credit =
     (if Option.bind (field credit [''reset_type'', ''resetType'']) (text_of cx) = Some RATE_LIMIT_RESET \<and>
         Option.bind (get ''status'' credit) (text_of cx) = Some ''available''
      then map_option
        (\<lambda>t. \<lparr>g_label = None, g_remaining = 1, g_total = None, g_expires_at = Some t\<rparr>)
        (Option.bind (field credit [''expires_at'', ''expiresAt'']) (instant_of cx))
      else None)"

definition codex_grants :: "codecs \<Rightarrow> json \<Rightarrow> grant list option" where
  "codex_grants cx listed =
     (if \<not> is_object listed \<or> \<not> list_ex (\<lambda>k. get k listed \<noteq> None) RESET_LIST_KEYS then None
      else Some (List.map_filter (credit_grant cx) (items (get ''credits'' listed))))"

definition codex_resets :: "codecs \<Rightarrow> world \<Rightarrow> (string \<times> string) list \<Rightarrow> string \<Rightarrow> manual_resets io" where
  "codex_resets cx w header auth_index =
     and_then (ask cx w (credits_call header auth_index)) (\<lambda>listed.
       done_with (reported (Option.bind (ok listed) (codex_grants cx))))"

text \<open>A random UUID, version 4: the low four bits of byte 6 and the top two of byte 8 are set.\<close>

definition hex_digit :: "nat \<Rightarrow> char" where
  "hex_digit n = (if n < 10 then char_of (48 + n) else char_of (87 + n))"

fun show_hex :: "nat \<Rightarrow> nat \<Rightarrow> string" where
  "show_hex 0 n = []"
| "show_hex (Suc digits) n = show_hex digits (n div 16) @ [hex_digit (n mod 16)]"

unbundle bit_operations_syntax

definition uuid_bits :: "128 word \<Rightarrow> 128 word" where
  "uuid_bits random =
     (let bits = (random AND NOT (push_bit 76 0xF)) OR push_bit 76 0x4
      in (bits AND NOT (push_bit 62 0x3)) OR push_bit 62 0x2)"


definition redeem_request_id :: "128 word \<Rightarrow> string" where
  "redeem_request_id random =
     (let bits = unat (uuid_bits random)
      in show_hex 8 (bits div 2 ^ 96) @ ''-'' @ show_hex 4 (bits div 2 ^ 80 mod 2 ^ 16) @ ''-'' @
         show_hex 4 (bits div 2 ^ 64 mod 2 ^ 16) @ ''-'' @ show_hex 4 (bits div 2 ^ 48 mod 2 ^ 16) @ ''-'' @
         show_hex 12 (bits mod 2 ^ 48))"

definition consume_call :: "codecs \<Rightarrow> auth_file \<Rightarrow> string \<Rightarrow> string \<Rightarrow> api_call" where
  "consume_call cx f auth_index body =
     \<lparr>ac_auth_index = auth_index, ac_method = POST, ac_url = CONSUME_URL,
      ac_header = codex_header cx f, ac_data = Some body\<rparr>"

definition codex_reset :: "codecs \<Rightarrow> world \<Rightarrow> auth_file \<Rightarrow> string \<Rightarrow> (refresh_error + unit) io" where
  "codex_reset cx w f auth_index =
     and_then (read_random w) (\<lambda>random.
     try_then (ask cx w (consume_call cx f auth_index
         (cx_print cx (JObject [(''redeem_request_id'', JString (redeem_request_id random))])))) (\<lambda>confirmation.
       let code = Option.bind (get ''code'' confirmation) as_str
       in done_with (if code = Some ''reset'' \<or> code = Some ''already_redeemed''
                     then Inr () else Inl ResetNotConfirmed)))"

section \<open>Windows\<close>

definition codex_seconds :: "json \<Rightarrow> int option" where
  "codex_seconds window =
     Option.bind (field window [''limit_window_seconds'', ''limitWindowSeconds'']) integer"

definition is_monthly :: "json \<Rightarrow> bool" where
  "is_monthly window =
     (case codex_seconds window of
        None \<Rightarrow> False | Some s \<Rightarrow> SHORTEST_MONTH \<le> s \<and> s \<le> LONGEST_MONTH)"

definition limit_reached :: "json \<Rightarrow> bool" where
  "limit_reached limit \<longleftrightarrow>
     Option.bind (field limit [''limit_reached'', ''limitReached'']) as_bool = Some True \<or>
     Option.bind (get ''allowed'' limit) as_bool = Some False"

text \<open>
  The primary and the secondary window are two fields of one object, so two references to
  them are the same exactly when they are of the same field: each travels with its tag.
\<close>

datatype slot = Primary | Secondary

definition pick ::
  "slot \<times> json \<Rightarrow> (slot \<times> json) option \<times> (slot \<times> json) option \<Rightarrow>
    (slot \<times> json) option \<times> (slot \<times> json) option" where
  "pick window found =
     (case (codex_seconds (snd window), found) of
        (None, _) \<Rightarrow> found
      | (Some s, (short, long)) \<Rightarrow>
          if s = FIVE_HOURS \<and> short = None then (Some window, long)
          else if (s = WEEK \<or> is_monthly (snd window)) \<and> long = None then (short, Some window)
          else found)"

definition same_slot :: "(slot \<times> json) option \<Rightarrow> (slot \<times> json) option \<Rightarrow> bool" where
  "same_slot a b = (case (a, b) of (Some x, Some y) \<Rightarrow> fst x = fst y | _ \<Rightarrow> False)"

definition classify :: "json \<Rightarrow> json option \<times> json option" where
  "classify limit =
     (let primary = map_option (Pair Primary) (field limit [''primary_window'', ''primaryWindow'']);
          secondary = map_option (Pair Secondary) (field limit [''secondary_window'', ''secondaryWindow'']);
          (short, long) = fold pick (List.map_filter id [primary, secondary]) (None, None);
          short = (if short = None \<and> \<not> same_slot primary long then primary else short);
          long = (if long = None \<and> \<not> same_slot secondary short then secondary else long)
      in (map_option snd short, map_option snd long))"

definition codex_window :: "codecs \<Rightarrow> json \<Rightarrow> string \<Rightarrow> string \<Rightarrow> bool \<Rightarrow> instant \<Rightarrow> new_window" where
  "codex_window cx window key label reached now =
     (let resets_at = or_else
            (Option.bind (field window [''reset_at'', ''resetAt'']) (instant_of cx))
            (Option.bind (field window [''reset_after_seconds'', ''resetAfterSeconds''])
              (\<lambda>seconds. after_seconds seconds now));
          used = or_else
            (map_option used_from_percent
              (Option.bind (field window [''used_percent'', ''usedPercent'']) number))
            (if reached \<and> resets_at \<noteq> None then Some 1 else None)
      in (plain_window key label)
           \<lparr>nw_used_fraction := used,
            nw_seconds := filter_option (\<lambda>s. 0 < s) (codex_seconds window),
            nw_resets_at := resets_at\<rparr>)"

definition limit_pair :: "codecs \<Rightarrow> json \<Rightarrow> string \<Rightarrow> string \<Rightarrow> instant \<Rightarrow> new_window list" where
  "limit_pair cx limit key_prefix label_prefix now =
     (let (short, long) = classify limit;
          reached = limit_reached limit
      in (case short of None \<Rightarrow> []
          | Some window \<Rightarrow>
              [codex_window cx window (key_prefix @ ''five-hour'') (label_prefix @ ''5-hour'') reached now]) @
         (case long of None \<Rightarrow> []
          | Some window \<Rightarrow>
              (let (i, label) = (if is_monthly window then (''monthly'', ''Monthly'') else (''weekly'', ''Weekly''));
                   label = (if label_prefix = [] then label else label_prefix @ to_lower label)
               in [codex_window cx window (key_prefix @ i) label reached now])))"

definition additional_name :: "codecs \<Rightarrow> nat \<Rightarrow> json \<Rightarrow> string" where
  "additional_name cx index item =
     unwrap_or (''additional-'' @ show_nat (index + 1))
       (or_else (Option.bind (field item [''limit_name'', ''limitName'']) (text_of cx))
                (Option.bind (field item [''metered_feature'', ''meteredFeature'']) (text_of cx)))"

definition additional_windows :: "codecs \<Rightarrow> instant \<Rightarrow> nat \<times> json \<Rightarrow> new_window list" where
  "additional_windows cx now indexed =
     (case indexed of (index, item) \<Rightarrow>
        case field item [''rate_limit'', ''rateLimit''] of
          None \<Rightarrow> []
        | Some limit \<Rightarrow>
            (let name = additional_name cx index item;
                 prefix = (if slug name = [] then ''additional-'' @ show_nat (index + 1) else slug name);
                 (short, long) = classify limit;
                 reached = limit_reached limit
             in (case short of None \<Rightarrow> []
                 | Some window \<Rightarrow>
                     [codex_window cx window (prefix @ ''-five-hour-'' @ show_nat index)
                        (name @ '' 5-hour'') reached now]) @
                (case long of None \<Rightarrow> []
                 | Some window \<Rightarrow>
                     (let i = (if is_monthly window then ''monthly'' else ''weekly'')
                      in [codex_window cx window (prefix @ ''-'' @ i @ ''-'' @ show_nat index)
                            (name @ '' '' @ i) reached now]))))"

definition codex_windows :: "codecs \<Rightarrow> json \<Rightarrow> instant \<Rightarrow> new_window list" where
  "codex_windows cx usage now =
     (case field usage [''rate_limit'', ''rateLimit''] of None \<Rightarrow> []
      | Some limit \<Rightarrow> limit_pair cx limit [] [] now) @
     (case field usage [''code_review_rate_limit'', ''codeReviewRateLimit''] of None \<Rightarrow> []
      | Some limit \<Rightarrow> limit_pair cx limit ''code-review-'' ''Code review '' now) @
     concat (map (additional_windows cx now)
       (enumerate 0 (items (field usage [''additional_rate_limits'', ''additionalRateLimits'']))))"

section \<open>The refresh\<close>

definition codex_plan :: "codecs \<Rightarrow> json \<Rightarrow> auth_file \<Rightarrow> string option" where
  "codex_plan cx usage f =
     map_option to_lower
       (or_else (Option.bind (field usage [''plan_type'', ''planType'']) (text_of cx))
         (Option.bind (Option.bind (en_id_token (af_entry f)) (get ''plan_type'')) (text_of cx)))"

definition codex_fetch :: "codecs \<Rightarrow> world \<Rightarrow> auth_file \<Rightarrow> string \<Rightarrow> (refresh_error + observation) io" where
  "codex_fetch cx w f auth_index =
     try_then (ask cx w (codex_usage_call cx f auth_index)) (\<lambda>usage.
     and_then (read_clock w) (\<lambda>now.
     and_then (codex_resets cx w (codex_header cx f) auth_index) (\<lambda>resets.
       done_with (Inr
         \<lparr>ob_windows = codex_windows cx usage now, ob_plan = codex_plan cx usage f,
          ob_manual_resets = resets\<rparr>))))"

section \<open>Which window is which\<close>

definition stated :: "json \<Rightarrow> int \<Rightarrow> bool" where
  "stated window s \<longleftrightarrow> codex_seconds window = Some s"

abbreviation is_long :: "json \<Rightarrow> bool" where
  "is_long window \<equiv> stated window WEEK \<or> is_monthly window"

lemma long_not_short: "is_long window \<Longrightarrow> \<not> stated window FIVE_HOURS"
  by (auto simp: stated_def is_monthly_def WEEK_def FIVE_HOURS_def SHORTEST_MONTH_def)

lemma pick_short: "stated (snd window) FIVE_HOURS \<Longrightarrow> pick window (None, long) = (Some window, long)"
  by (simp add: pick_def stated_def)

lemma pick_long: "is_long (snd window) \<Longrightarrow> pick window (short, None) = (short, Some window)"
  using long_not_short [of "snd window"]
  by (auto simp: pick_def stated_def is_monthly_def split: option.splits)

text \<open>
  A Codex limit whose two windows state their lengths, one of five hours and one of a week
  or a month, is read the same whichever of the two fields each is in: the five-hour window is
  the short one and the other is the long one.\<close>

theorem stated_lengths_decide_windows:
  assumes "field limit [''primary_window'', ''primaryWindow''] = Some p"
    and "field limit [''secondary_window'', ''secondaryWindow''] = Some s"
    and "stated p FIVE_HOURS \<and> (stated s WEEK \<or> is_monthly s) \<or>
         stated s FIVE_HOURS \<and> (stated p WEEK \<or> is_monthly p)"
  shows "classify limit = (if stated p FIVE_HOURS then (Some p, Some s) else (Some s, Some p))"
proof -
  have 1: "classify limit =
      (let (short, long) = pick (Secondary, s) (pick (Primary, p) (None, None));
           short = (if short = None \<and> \<not> same_slot (Some (Primary, p)) long then Some (Primary, p) else short);
           long = (if long = None \<and> \<not> same_slot (Some (Secondary, s)) short then Some (Secondary, s) else long)
       in (map_option snd short, map_option snd long))"
    using assms(1,2) by (simp add: classify_def List.map_filter_simps Let_def)
  from assms(3) show ?thesis
  proof (elim disjE [where P = "stated p FIVE_HOURS \<and> is_long s"] conjE)
    assume "stated p FIVE_HOURS" "is_long s"
    then show ?thesis
      using pick_short [of "(Primary, p)"] pick_long [of "(Secondary, s)"] by (simp add: 1)
  next
    assume "stated s FIVE_HOURS" "is_long p"
    then show ?thesis
      using pick_short [of "(Secondary, s)"] pick_long [of "(Primary, p)"] long_not_short [of p]
      by (simp add: 1)
  qed
qed

definition swapped_limit :: json where
  "swapped_limit =
     JObject [(''primary_window'', JObject [(''limit_window_seconds'', JInt 2592000)]),
              (''secondary_window'', JObject [(''limit_window_seconds'', JInt 18000)])]"

theorem stated_lengths_decide_windows_witness:
  "classify swapped_limit =
     (Some (JObject [(''limit_window_seconds'', JInt 18000)]), Some (JObject [(''limit_window_seconds'', JInt 2592000)]))"
  using stated_lengths_decide_windows [of swapped_limit "JObject [(''limit_window_seconds'', JInt 2592000)]"
    "JObject [(''limit_window_seconds'', JInt 18000)]"]
  by (simp add: swapped_limit_def field_def stated_def codex_seconds_def is_monthly_def integer_def
      FIVE_HOURS_def WEEK_def SHORTEST_MONTH_def LONGEST_MONTH_def)

end
