(* ===== verification/Adapter_Small.thy ===== *)
theory Adapter_Small
  imports Adapter_Claude
begin

text \<open>
  The three adapters that send one call: Kimi counts requests against a limit
  (\<^verbatim>\<open>src/quota/provider/kimi.rs\<close>), Devin reports the percentage that remains
  (\<^verbatim>\<open>devin.rs\<close>), and Meta answers a key request that is authorized with a token of the
  downloaded credential file (\<^verbatim>\<open>meta.rs\<close>).
\<close>

section \<open>Kimi\<close>

definition HOUR :: int where "HOUR = 60 * 60"

definition DAY :: int where "DAY = 24 * HOUR"

datatype time_unit = Second | Minute | Hour | Day | Week

definition parse_time_unit :: "string option \<Rightarrow> time_unit option" where
  "parse_time_unit unit_text =
     (let u = to_upper (trim (unwrap_or [] unit_text));
          u = unwrap_or u (strip_prefix ''TIME_UNIT_'' u)
      in if u \<in> {''SECOND'', ''SECONDS''} then Some Second
         else if u \<in> {'''', ''MINUTE'', ''MINUTES''} then Some Minute
         else if u \<in> {''HOUR'', ''HOURS''} then Some Hour
         else if u \<in> {''DAY'', ''DAYS''} then Some Day
         else if u \<in> {''WEEK'', ''WEEKS''} then Some Week
         else None)"

definition checked_mul :: "int \<Rightarrow> int \<Rightarrow> int option" where
  "checked_mul a b = filter_option in_i64 (Some (a * b))"

definition kimi_seconds :: "int \<Rightarrow> string option \<Rightarrow> int option" where
  "kimi_seconds duration unit_text =
     checked_mul duration
       (case parse_time_unit unit_text of
          Some Second \<Rightarrow> 1
        | Some Minute \<Rightarrow> 60
        | None \<Rightarrow> 60
        | Some Hour \<Rightarrow> HOUR
        | Some Day \<Rightarrow> DAY
        | Some Week \<Rightarrow> 7 * DAY)"

definition duration_token :: "int \<Rightarrow> string option \<Rightarrow> string" where
  "duration_token duration unit_text =
     (let minutes = (if duration mod 60 = 0 then show_int (duration div 60) @ ''h'' else show_int duration @ ''m'')
      in case parse_time_unit unit_text of
          Some Second \<Rightarrow> show_int duration @ ''s''
        | Some Hour \<Rightarrow> show_int duration @ ''h''
        | Some Day \<Rightarrow> show_int duration @ ''d''
        | Some Week \<Rightarrow> show_int duration @ ''w''
        | Some Minute \<Rightarrow> minutes
        | None \<Rightarrow> minutes)"

definition seconds_from_label :: "string \<Rightarrow> int option" where
  "seconds_from_label label =
     (let label = to_lower label
      in if contains ''day'' label then Some DAY
         else if contains ''week'' label then Some (7 * DAY)
         else if contains ''month'' label then Some (30 * DAY)
         else if contains ''5h'' label \<or> contains ''hour'' label then Some (5 * HOUR)
         else None)"

definition kimi_count :: "json \<Rightarrow> string \<Rightarrow> rat option" where
  "kimi_count data key = map_option (\<lambda>x. of_int \<lfloor>x\<rfloor>) (Option.bind (get key data) number)"

definition kimi_row ::
  "codecs \<Rightarrow> json \<Rightarrow> string \<Rightarrow> string \<Rightarrow> int option \<Rightarrow> string option \<Rightarrow> instant \<Rightarrow> new_window option" where
  "kimi_row cx data key fallback duration unit_text now =
     (let limit = kimi_count data ''limit'';
          used = or_else (kimi_count data ''used'')
            (map_option (\<lambda>(l, r). l - r) (zip_option limit (kimi_count data ''remaining'')))
      in if used = None \<and> limit = None then None
         else
           (let used = unwrap_or 0 used;
                limit = unwrap_or 0 limit;
                label = unwrap_or fallback
                  (find_map (\<lambda>k. Option.bind (get k data) (text_of cx)) [''name'', ''title'']);
                resets_at = or_else
                  (Option.bind (field data [''reset_at'', ''resetAt'', ''reset_time'', ''resetTime''])
                    (instant_of cx))
                  (find_map (\<lambda>k. Option.bind (get k data) (\<lambda>s. after_seconds s now))
                    [''reset_in'', ''resetIn'', ''ttl'']);
                window_seconds = (case filter_option (\<lambda>d. 0 < d) duration of
                  Some d \<Rightarrow> kimi_seconds d unit_text | None \<Rightarrow> seconds_from_label label)
            in Some ((plain_window key label)
                 \<lparr>nw_used_fraction := (if 0 < limit then Some (used / limit) else None),
                  nw_used_value := Some used, nw_limit_value := Some limit,
                  nw_unit := Some REQUESTS, nw_seconds := window_seconds,
                  nw_resets_at := resets_at\<rparr>)))"

definition kimi_limit :: "codecs \<Rightarrow> instant \<Rightarrow> nat \<times> json \<Rightarrow> new_window option" where
  "kimi_limit cx now indexed =
     (case indexed of (index, item) \<Rightarrow>
       (let detail = unwrap_or item (obj_field ''detail'' item);
            window = obj_field ''window'' item;
            records = List.map_filter id [window, Some item, Some detail];
            duration = find_map (\<lambda>r. Option.bind (get ''duration'' r) integer) records;
            unit_text = find_map (\<lambda>r. Option.bind (get ''timeUnit'' r) as_str) records;
            named = find_map (\<lambda>k. filter_option (\<lambda>n. n \<noteq> [])
                (map_option trim (Option.bind (or_else (get k item) (get k detail)) as_str)))
              [''name'', ''title'', ''scope''];
            fallback = unwrap_or
              (case filter_option (\<lambda>d. 0 < d) duration of
                 Some d \<Rightarrow> duration_token d unit_text @ '' limit''
               | None \<Rightarrow> ''Limit '' @ show_nat (index + 1)) named
        in kimi_row cx detail (''limit-'' @ show_nat index) fallback duration unit_text now))"

definition kimi_windows :: "codecs \<Rightarrow> json \<Rightarrow> instant \<Rightarrow> new_window list" where
  "kimi_windows cx usage now =
     List.map_filter (kimi_limit cx now) (enumerate 0 (items (get ''limits'' usage))) @
     List.map_filter (\<lambda>summary. kimi_row cx summary ''summary'' ''Weekly limit'' None None now)
       (List.map_filter id [obj_field ''usage'' usage])"

definition kimi_call :: "string \<Rightarrow> api_call" where
  "kimi_call auth_index =
     \<lparr>ac_auth_index = auth_index, ac_method = GET, ac_url = ''https://api.kimi.com/coding/v1/usages'',
      ac_header = [bearer], ac_data = None\<rparr>"

definition kimi_fetch :: "codecs \<Rightarrow> world \<Rightarrow> string \<Rightarrow> (refresh_error + observation) io" where
  "kimi_fetch cx w auth_index =
     try_then (ask cx w (kimi_call auth_index)) (\<lambda>usage.
     and_then (read_clock w) (\<lambda>now. done_with (Inr
       \<lparr>ob_windows = kimi_windows cx usage now, ob_plan = None, ob_manual_resets = Unchanged\<rparr>)))"

section \<open>Devin\<close>

definition is_digit :: "char \<Rightarrow> bool" where
  "is_digit c \<longleftrightarrow> digit_value c \<noteq> None"

definition is_plain_decimal :: "string \<Rightarrow> bool" where
  "is_plain_decimal t \<longleftrightarrow>
     t \<noteq> [] \<and> hd t \<noteq> CHR ''.'' \<and> last t \<noteq> CHR ''.'' \<and>
     list_all (\<lambda>c. is_digit c \<or> c = CHR ''.'') t \<and> length (filter (\<lambda>c. c = CHR ''.'') t) \<le> 1"

definition devin_percent :: "json \<Rightarrow> rat option" where
  "devin_percent value =
     filter_option (\<lambda>p. 0 \<le> p \<and> p \<le> 100)
       (case value of
          JString s \<Rightarrow> (if is_plain_decimal (trim s) then parse_f64 (trim s) else None)
        | _ \<Rightarrow> as_f64 value)"

definition unix_seconds :: "json \<Rightarrow> instant option" where
  "unix_seconds value =
     Option.bind
       (filter_option (\<lambda>s. 0 < s)
         (case value of
            JString s \<Rightarrow> (if list_all is_digit (trim s) then parse_f64 (trim s) else None)
          | _ \<Rightarrow> as_f64 value))
       (offset 0)"

definition devin_window :: "codecs \<Rightarrow> json \<Rightarrow> string \<times> string \<times> int \<Rightarrow> new_window option" where
  "devin_window cx plan_status spec =
     (case spec of (key, label, seconds) \<Rightarrow>
       (let remaining = Option.bind (get (key @ ''QuotaRemainingPercent'') plan_status) devin_percent;
            resets_at = Option.bind (get (key @ ''QuotaResetAtUnix'') plan_status) unix_seconds
        in if remaining = None \<and> resets_at = None then None
           else Some ((plain_window key label)
             \<lparr>nw_used_fraction := map_option (\<lambda>r. 1 - r / 100) remaining,
              nw_seconds := Some seconds, nw_resets_at := resets_at\<rparr>)))"

definition devin_windows :: "codecs \<Rightarrow> json \<Rightarrow> new_window list" where
  "devin_windows cx plan_status =
     List.map_filter (devin_window cx plan_status)
       [(''daily'', ''Daily'', DAY), (''weekly'', ''Weekly'', 7 * DAY)]"

definition devin_call :: "string \<Rightarrow> api_call" where
  "devin_call auth_index =
     \<lparr>ac_auth_index = auth_index, ac_method = POST,
      ac_url = ''https://server.codeium.com/exa.seat_management_pb.SeatManagementService/GetUserStatus'',
      ac_header = [json_content, (''Connect-Protocol-Version'', ''1'')],
      ac_data = Some (''{\"metadata\":{\"ideName\":\"chisel\",\"ideVersion\":\"3000.10.21\",'' @
        ''\"apiKey\":\"$TOKEN$\",\"locale\":\"en\",\"os\":\"darwin\",'' @
        ''\"extensionVersion\":\"3000.10.21\",\"clientName\":\"chisel\"}}'')\<rparr>"

definition devin_fetch :: "codecs \<Rightarrow> world \<Rightarrow> string \<Rightarrow> (refresh_error + observation) io" where
  "devin_fetch cx w auth_index =
     try_then (ask cx w (devin_call auth_index)) (\<lambda>status.
       let plan_status = unwrap_or JNull (pointer [''userStatus'', ''planStatus''] status);
           windows = devin_windows cx plan_status
       in done_with
            (if windows = [] then Inl Empty
             else Inr \<lparr>ob_windows = windows,
                       ob_plan = Option.bind (pointer [''planInfo'', ''planName''] plan_status) (text_of cx),
                       ob_manual_resets = Unchanged\<rparr>))"

section \<open>Meta\<close>

definition KEY_URL :: string where
  "KEY_URL = ''https://api.meta.ai/muse-code/key''"

definition DCA_PREFIX :: string where "DCA_PREFIX = ''dca:''"

definition dca_token :: "codecs \<Rightarrow> string \<Rightarrow> refresh_error + string" where
  "dca_token cx credential =
     (case filter_option is_object (cx_json cx credential) of
        None \<Rightarrow> Inl InvalidCredentialFile
      | Some credential \<Rightarrow>
          ok_or MissingDcaToken
            (filter_option
              (\<lambda>token. case strip_prefix DCA_PREFIX token of
                 None \<Rightarrow> False | Some rest \<Rightarrow> rest \<noteq> [] \<and> \<not> list_ex is_ws rest)
              (map_option trim (Option.bind (get ''dca_token'' credential) as_str))))"

definition meta_window :: "codecs \<Rightarrow> json \<Rightarrow> string \<Rightarrow> string \<Rightarrow> int option \<Rightarrow> new_window list" where
  "meta_window cx window key label window_seconds =
     (let used = map_option used_from_percent (Option.bind (get ''used_percent'' window) number);
          resets_at = Option.bind
            (filter_option (\<lambda>r. case number r of None \<Rightarrow> False | Some x \<Rightarrow> 0 < x) (get ''resets_at'' window))
            (instant_of cx)
      in if used = None \<and> resets_at = None then []
         else [(plain_window key label)
           \<lparr>nw_used_fraction := used, nw_seconds := window_seconds, nw_resets_at := resets_at\<rparr>])"

definition meta_observation :: "codecs \<Rightarrow> json \<Rightarrow> observation" where
  "meta_observation cx key =
     (let usage = unwrap_or JNull (get ''subs_usage'' key)
      in \<lparr>ob_windows =
            (case obj_field ''window'' usage of None \<Rightarrow> []
             | Some rolling \<Rightarrow> meta_window cx rolling ''window'' ''Rolling window''
                 (Option.bind
                   (filter_option (\<lambda>m. 0 < m) (Option.bind (get ''window_duration_mins'' rolling) integer))
                   (\<lambda>m. checked_mul m 60))) @
            (case obj_field ''weekly'' usage of None \<Rightarrow> []
             | Some weekly \<Rightarrow> meta_window cx weekly ''weekly'' ''Weekly'' (Some WEEK)),
          ob_plan = or_else (Option.bind (get ''subs_tier_name'' key) (text_of cx))
            (Option.bind (get ''tier'' usage) (text_of cx)),
          ob_manual_resets = Unchanged\<rparr>)"

definition key_call :: "string \<Rightarrow> string \<Rightarrow> api_call" where
  "key_call auth_index token =
     \<lparr>ac_auth_index = auth_index, ac_method = POST, ac_url = KEY_URL,
      ac_header = [(''Accept'', ''application/json''), json_content,
        (''Authorization'', ''Bearer '' @ token), (''x-api-version'', ''1.0.0'')],
      ac_data = Some ''{}''\<rparr>"

definition meta_fetch :: "codecs \<Rightarrow> world \<Rightarrow> auth_file \<Rightarrow> string \<Rightarrow> (refresh_error + observation) io" where
  "meta_fetch cx w f auth_index =
     try_then (done_with (ok_or MissingFile (filter_option (\<lambda>_. has_file f) (en_name (af_entry f))))) (\<lambda>name.
     try_then (download w name) (\<lambda>credential.
     try_then (done_with (dca_token cx credential)) (\<lambda>token.
     try_then (ask cx w (key_call auth_index token)) (\<lambda>key.
       done_with (if is_object key then Inr (meta_observation cx key) else Inl Unreadable)))))"

end
