(* ===== verification/Adapter_Xai.thy ===== *)
theory Adapter_Xai
  imports Adapter_Claude
begin

text \<open>
  xAI (\<^verbatim>\<open>src/quota/provider/xai.rs\<close>): whether a credential is paid, read out of its entry
  and its tokens, the two billing answers of a free one, and the one-token chat completion
  that checks a paid one and spends real quota.
\<close>

definition CHAT_URL :: string where
  "CHAT_URL = ''https://api.x.ai/v1/chat/completions''"

definition PAID_PREFIX :: string where "PAID_PREFIX = ''paid''"

definition NESTED_AUTH_KEYS :: "string list" where
  "NESTED_AUTH_KEYS = [''metadata'', ''attributes'', ''oauth'', ''raw'', ''credential'', ''auth'']"

definition NESTED_DEPTH :: nat where "NESTED_DEPTH = 2"

definition CENTS :: string where "CENTS = ''usd_cents''"

section \<open>Whether a credential is paid\<close>

function collect :: "json \<Rightarrow> nat \<Rightarrow> json list" where
  "collect value depth =
     (if \<not> is_object value \<or> NESTED_DEPTH < depth then []
      else value # concat (map (\<lambda>nested. collect nested (depth + 1))
             (List.map_filter (\<lambda>key. get key value) NESTED_AUTH_KEYS)))"
  by pat_completeness auto

termination
  by (relation "measure (\<lambda>(value, depth). NESTED_DEPTH + 1 - depth)") auto

declare collect.simps [simp del]

definition sextet_of :: "char \<Rightarrow> nat option" where
  "sextet_of c =
     (let n = of_char c :: nat
      in if 65 \<le> n \<and> n \<le> 90 then Some (n - 65)
         else if 97 \<le> n \<and> n \<le> 122 then Some (n - 97 + 26)
         else if 48 \<le> n \<and> n \<le> 57 then Some (n - 48 + 52)
         else if c = CHR ''-'' \<or> c = CHR ''+'' then Some 62
         else if c = CHR ''_'' \<or> c = CHR ''/'' then Some 63
         else None)"

unbundle bit_operations_syntax

fun base64_loop :: "32 word \<Rightarrow> nat \<Rightarrow> string \<Rightarrow> string option" where
  "base64_loop buffer bits [] = Some []"
| "base64_loop buffer bits (c # cs) = do {
     sextet \<leftarrow> sextet_of c;
     let buffer = push_bit 6 buffer OR of_nat sextet;
     let bits = bits + 6;
     if 8 \<le> bits
     then do {
       rest \<leftarrow> base64_loop buffer (bits - 8) cs;
       Some (char_of (unat (drop_bit (bits - 8) buffer AND 0xff)) # rest) }
     else base64_loop buffer bits cs }"


definition base64_url :: "string \<Rightarrow> string option" where
  "base64_url t = base64_loop 0 0 (rev (dropWhile (\<lambda>c. c = CHR ''='') (rev t)))"

definition token_tier :: "codecs \<Rightarrow> string \<Rightarrow> rat option" where
  "token_tier cx token =
     (case split_on CHR ''.'' token of
        _ # payload # _ \<Rightarrow> do {
          bytes \<leftarrow> base64_url payload;
          claims \<leftarrow> Option.bind (cx_json cx bytes) as_object;
          claim \<leftarrow> find (\<lambda>(key, _). let key = to_lower key in
            key = ''tier'' \<or> ends_with ''/tier'' key \<or> ends_with '':tier'' key) claims;
          number (snd claim) }
      | _ \<Rightarrow> None)"

definition is_paid :: "codecs \<Rightarrow> json \<Rightarrow> bool" where
  "is_paid cx entry =
     (let records = collect entry 0;
          official = list_ex (\<lambda>r. unwrap_or False (Option.bind (field r [''using_api'', ''usingApi'']) truthy)) records;
          prefixed = list_ex (\<lambda>r. map_option to_lower (Option.bind (get ''prefix'' r) (text_of cx)) = Some PAID_PREFIX) records
      in official \<and> prefixed \<or>
         list_ex (\<lambda>r. list_ex (\<lambda>token. case token_tier cx token of None \<Rightarrow> False | Some t \<Rightarrow> 1 \<le> t)
             (List.map_filter (\<lambda>key. Option.bind (get key r) as_str)
               [''access_token'', ''accessToken'', ''id_token'', ''idToken'', ''token'']))
           records)"

definition user_id :: "codecs \<Rightarrow> json \<Rightarrow> string option" where
  "user_id cx entry =
     (let metadata = get ''metadata'' entry;
          attributes = get ''attributes'' entry;
          nested = (\<lambda>key. filter_option is_object
            (or_else (get key entry)
              (or_else (Option.bind metadata (get key)) (Option.bind attributes (get key)))));
          among = (\<lambda>keys r. List.map_filter (\<lambda>key. get key r) keys);
          direct = concat (map (among [''sub'', ''subject'', ''user_id'', ''userId''])
            (List.map_filter id [Some entry, metadata, attributes]));
          oauth = concat (map (among [''sub'', ''subject'']) (List.map_filter id [nested ''oauth'']));
          user = concat (map (among [''sub'', ''id'']) (List.map_filter id [nested ''user'']))
      in find_map (text_of cx) (direct @ oauth @ user))"

section \<open>Billing\<close>

definition span :: "instant option \<Rightarrow> instant option \<Rightarrow> int option" where
  "span starts ends =
     (case (starts, ends) of
        (Some s, Some e) \<Rightarrow> if s < e then Some (as_second e - as_second s) else None
      | _ \<Rightarrow> None)"

definition product_window :: "codecs \<Rightarrow> instant option \<Rightarrow> instant option \<Rightarrow> nat \<times> json \<Rightarrow> new_window" where
  "product_window cx starts ends indexed =
     (case indexed of (index, product) \<Rightarrow>
       (let name = unwrap_or (''Product '' @ show_nat (index + 1))
              (Option.bind (get ''product'' product) (text_of cx))
        in (plain_window (''product-'' @ slug name) name)
             \<lparr>nw_used_fraction := map_option used_from_percent
                (Option.bind (field product [''usagePercent'', ''usage_percent'']) number),
              nw_seconds := span starts ends, nw_resets_at := ends\<rparr>))"

definition credit_windows ::
  "codecs \<Rightarrow> string \<Rightarrow> rat option \<Rightarrow> json list \<Rightarrow> instant option \<Rightarrow> instant option \<Rightarrow> new_window list" where
  "credit_windows cx period_type credit_percent products starts ends =
     (plain_window ''credits''
        (if contains ''monthly'' period_type then ''Monthly credits'' else ''Weekly credits''))
       \<lparr>nw_used_fraction := map_option used_from_percent credit_percent,
        nw_seconds := span starts ends, nw_resets_at := ends\<rparr> #
     map (product_window cx starts ends) (enumerate 0 products)"

definition cents :: "json \<Rightarrow> string list \<Rightarrow> rat option" where
  "cents config keys = Option.bind (field config keys) (\<lambda>value. number (unwrap_or value (get ''val'' value)))"

definition included_window ::
  "rat option \<Rightarrow> rat option \<Rightarrow> instant option \<Rightarrow> instant option \<Rightarrow> new_window" where
  "included_window used monthly_limit billing_start billing_end =
     (let included = map_option (\<lambda>used. case monthly_limit of
            Some limit \<Rightarrow> if 0 < limit then min used limit else used | None \<Rightarrow> used) used
      in (plain_window ''included-spend'' ''Included spend'')
           \<lparr>nw_used_fraction := map_option (\<lambda>(u, l). u / l)
              (zip_option included (filter_option (\<lambda>l. 0 < l) monthly_limit)),
            nw_used_value := included, nw_limit_value := monthly_limit, nw_unit := Some CENTS,
            nw_seconds := span billing_start billing_end, nw_resets_at := billing_end\<rparr>)"

definition on_demand_window ::
  "rat option \<Rightarrow> rat option \<Rightarrow> rat \<Rightarrow> rat option \<Rightarrow> instant option \<Rightarrow> instant option \<Rightarrow> new_window" where
  "on_demand_window used monthly_limit cap on_demand_used billing_start billing_end =
     (let on_demand = or_else on_demand_used
            (map_option (\<lambda>(u, l). max (u - l) 0) (zip_option used monthly_limit))
      in (plain_window ''on-demand-spend'' ''On-demand spend'')
           \<lparr>nw_used_fraction := map_option (\<lambda>x. x / cap) (filter_option (\<lambda>_. 0 < cap) on_demand),
            nw_used_value := on_demand, nw_limit_value := Some cap, nw_unit := Some CENTS,
            nw_seconds := span billing_start billing_end, nw_resets_at := billing_end\<rparr>)"

definition billing_windows :: "codecs \<Rightarrow> json \<Rightarrow> new_window list option" where
  "billing_windows cx config =
     (let period = field config [''currentPeriod'', ''current_period''];
          period_type = unwrap_or []
            (map_option to_lower (Option.bind (Option.bind period (get ''type'')) (text_of cx)));
          credit_percent = Option.bind (field config [''creditUsagePercent'', ''credit_usage_percent'']) number;
          billing_start = Option.bind (field config [''billingPeriodStart'', ''billing_period_start'']) (instant_of cx);
          billing_end = Option.bind (field config [''billingPeriodEnd'', ''billing_period_end'']) (instant_of cx);
          period_start = or_else (Option.bind (Option.bind period (get ''start'')) (instant_of cx)) billing_start;
          period_end = or_else (Option.bind (Option.bind period (get ''end'')) (instant_of cx)) billing_end;
          products = items (field config [''productUsage'', ''product_usage'']);
          monthly_limit = cents config [''monthlyLimit'', ''monthly_limit''];
          used = cents config [''used''];
          on_demand_cap = cents config [''onDemandCap'', ''on_demand_cap''];
          on_demand_used = cents config [''onDemandUsed'', ''on_demand_used''];
          weekly = (credit_percent \<noteq> None \<or> contains ''weekly'' period_type \<or> products \<noteq> []);
          monthly = (monthly_limit \<noteq> None \<or> used \<noteq> None \<or>
            (\<not> weekly \<and> (on_demand_cap \<noteq> None \<or> billing_end \<noteq> None)))
      in if \<not> weekly \<and> \<not> monthly then None
         else Some
           ((if weekly then credit_windows cx period_type credit_percent products period_start period_end else []) @
            (if monthly then [included_window used monthly_limit billing_start billing_end] else []) @
            (case on_demand_cap of None \<Rightarrow> []
             | Some cap \<Rightarrow> [on_demand_window used monthly_limit cap on_demand_used billing_start billing_end])))"

section \<open>The refresh\<close>

definition me_call :: "string \<Rightarrow> api_call" where
  "me_call auth_index =
     \<lparr>ac_auth_index = auth_index, ac_method = GET, ac_url = ''https://api.x.ai/v1/me'',
      ac_header = [bearer, (''accept'', ''application/json'')], ac_data = None\<rparr>"

definition chat_call :: "string \<Rightarrow> api_call" where
  "chat_call auth_index =
     \<lparr>ac_auth_index = auth_index, ac_method = POST, ac_url = CHAT_URL,
      ac_header = [bearer, (''accept'', ''application/json''), json_content],
      ac_data = Some (''{\"model\":\"grok-4.5\",\"messages\":[{\"role\":\"user\",\"content\":\"ping\"}],'' @
        ''\"max_tokens\":1,\"stream\":false}'')\<rparr>"

definition paid_check :: "codecs \<Rightarrow> world \<Rightarrow> string \<Rightarrow> (refresh_error + observation) io" where
  "paid_check cx w auth_index =
     and_then (call cx w (me_call auth_index)) (\<lambda>_.
     try_then (call cx w (chat_call auth_index)) (\<lambda>chat. done_with
       (if \<not> (200 \<le> ar_status chat \<and> ar_status chat < 300) then Inl (Upstream (ar_status chat))
        else Inr \<lparr>ob_windows = [], ob_plan = Some PAID_PREFIX, ob_manual_resets = Unchanged\<rparr>)))"

definition billing_call :: "codecs \<Rightarrow> auth_file \<Rightarrow> string \<Rightarrow> string \<Rightarrow> api_call" where
  "billing_call cx f auth_index url =
     \<lparr>ac_auth_index = auth_index, ac_method = GET, ac_url = url,
      ac_header = [bearer, (''x-xai-token-auth'', ''xai-grok-cli''),
          (''x-grok-client-version'', ''0.2.91''), (''accept'', ''*/*''),
          (''user-agent'', ''grok-pager/0.2.91 grok-shell/0.2.91 (macos; aarch64)'')] @
        (case user_id cx (af_raw f) of None \<Rightarrow> [] | Some i \<Rightarrow> [(''x-userid'', i)]),
      ac_data = None\<rparr>"

definition billing ::
  "codecs \<Rightarrow> world \<Rightarrow> auth_file \<Rightarrow> string \<Rightarrow> string \<Rightarrow> (refresh_error + new_window list option) io" where
  "billing cx w f auth_index url =
     try_then (ask cx w (billing_call cx f auth_index url)) (\<lambda>payload.
       done_with (Inr (Option.bind (get ''config'' payload) (billing_windows cx))))"

definition billed_windows ::
  "refresh_error + new_window list option \<Rightarrow> refresh_error + new_window list option \<Rightarrow> new_window list" where
  "billed_windows weekly monthly =
     concat (List.map_filter (\<lambda>r. Option.bind (ok r) id) [weekly, monthly])"

definition billing_failure ::
  "refresh_error + new_window list option \<Rightarrow> refresh_error + new_window list option \<Rightarrow> refresh_error" where
  "billing_failure weekly monthly =
     (case (weekly, monthly) of (Inl e, Inl _) \<Rightarrow> e | _ \<Rightarrow> Empty)"

definition xai_fetch :: "codecs \<Rightarrow> world \<Rightarrow> auth_file \<Rightarrow> string \<Rightarrow> (refresh_error + observation) io" where
  "xai_fetch cx w f auth_index =
     (if is_paid cx (af_raw f) then paid_check cx w auth_index
      else
        and_then (billing cx w f auth_index ''https://cli-chat-proxy.grok.com/v1/billing?format=credits'') (\<lambda>weekly.
        and_then (billing cx w f auth_index ''https://cli-chat-proxy.grok.com/v1/billing'') (\<lambda>monthly.
          if billed_windows weekly monthly \<noteq> []
          then done_with (Inr \<lparr>ob_windows = billed_windows weekly monthly, ob_plan = None,
                               ob_manual_resets = Unchanged\<rparr>)
          else and_then (paid_check cx w auth_index) (\<lambda>r. done_with
            (case r of Inl _ \<Rightarrow> Inl (billing_failure weekly monthly) | Inr ob \<Rightarrow> Inr ob)))))"

section \<open>Base64\<close>

definition sextet_char :: "nat \<Rightarrow> char" where
  "sextet_char n =
     (if n < 26 then char_of (65 + n) else if n < 52 then char_of (97 + (n - 26))
      else if n < 62 then char_of (48 + (n - 52)) else if n = 62 then CHR ''-'' else CHR ''_'')"

lemma sextet_of_char: "n < 64 \<Longrightarrow> sextet_of (sextet_char n) = Some n"
  by (auto simp: sextet_of_def sextet_char_def Let_def)

end
