(* ===== verification/Providers.thy ===== *)
theory Providers
  imports Adapter_Google Adapter_Codex Adapter_Small Adapter_Xai
begin

text \<open>
  The adapters behind one interface (\<^verbatim>\<open>Provider::fetch\<close> and \<^verbatim>\<open>Provider::reset\<close> of
  \<^verbatim>\<open>src/quota/provider/mod.rs\<close>) and the contract that every refresh relies on: which
  requests an adapter sends, and that a grant it reports has a reset left. The contract of
  the providers that are read without a human adds that no call of theirs spends anything.
\<close>

definition fetch ::
  "codecs \<Rightarrow> world \<Rightarrow> provider \<Rightarrow> auth_file \<Rightarrow> string \<Rightarrow> (refresh_error + observation) io" where
  "fetch cx w p f auth_index =
     (case p of
        Claude \<Rightarrow> claude_fetch cx w auth_index
      | Codex \<Rightarrow> codex_fetch cx w f auth_index
      | Antigravity \<Rightarrow> google_fetch cx w f auth_index
      | Kimi \<Rightarrow> kimi_fetch cx w auth_index
      | Devin \<Rightarrow> devin_fetch cx w auth_index
      | Xai \<Rightarrow> xai_fetch cx w f auth_index
      | Meta \<Rightarrow> meta_fetch cx w f auth_index)"

definition spend_reset ::
  "codecs \<Rightarrow> world \<Rightarrow> provider \<Rightarrow> auth_file \<Rightarrow> string \<Rightarrow> (refresh_error + unit) io" where
  "spend_reset cx w p f auth_index =
     (case p of Codex \<Rightarrow> codex_reset cx w f auth_index | _ \<Rightarrow> done_with (Inl NoManualReset))"

section \<open>The contract of an adapter\<close>

definition spends :: "request \<Rightarrow> bool" where
  "spends r = (case r of Call c \<Rightarrow> ac_url c \<in> {CHAT_URL, KEY_URL, CONSUME_URL} | _ \<Rightarrow> False)"

definition consumes_reset :: "request \<Rightarrow> bool" where
  "consumes_reset r = (case r of Call c \<Rightarrow> ac_url c = CONSUME_URL | _ \<Rightarrow> False)"

definition is_read :: "request \<Rightarrow> bool" where
  "is_read r = (case r of Call c \<Rightarrow> \<not> spends r | _ \<Rightarrow> False)"

definition is_probe :: "request \<Rightarrow> bool" where
  "is_probe r = (case r of Call c \<Rightarrow> \<not> consumes_reset r | Download _ \<Rightarrow> True | _ \<Rightarrow> False)"

lemma is_read_is_probe: "is_read r \<Longrightarrow> is_probe r"
  by (auto simp: is_read_def is_probe_def spends_def consumes_reset_def split: request.splits)

definition real_resets :: "manual_resets \<Rightarrow> bool" where
  "real_resets r = (case r of Unchanged \<Rightarrow> True | Reported gs \<Rightarrow> \<forall>g\<in>set gs. 0 < g_remaining g)"

abbreviation real_grants :: "observation \<Rightarrow> bool" where
  "real_grants ob \<equiv> real_resets (ob_manual_resets ob)"

lemma real_Unchanged [simp]: "real_resets Unchanged"
  by (simp add: real_resets_def)

text \<open>What a computation answers, whatever the gateway says.\<close>

definition yields :: "('a \<Rightarrow> bool) \<Rightarrow> ('e + 'a) io \<Rightarrow> bool" where
  "yields Q m \<longleftrightarrow> (\<forall>sent x. fst (m sent) = Inr x \<longrightarrow> Q x)"

lemma yields_done: "(\<And>x. r = Inr x \<Longrightarrow> Q x) \<Longrightarrow> yields Q (done_with r)"
  by (simp add: yields_def done_with_def)

lemma yields_and_then: "(\<And>x. yields Q (f x)) \<Longrightarrow> yields Q (and_then m f)"
  by (simp add: yields_def and_then_def split: prod.splits)

lemma yields_try_then: "(\<And>x. yields Q (f x)) \<Longrightarrow> yields Q (try_then m f)"
  unfolding try_then_def by (intro yields_and_then) (auto intro: yields_done split: sum.splits)

lemma yields_and_then_with:
  assumes "\<And>sent. R (fst (m sent))" and "\<And>x. R x \<Longrightarrow> yields Q (f x)"
  shows "yields Q (and_then m f)"
  unfolding yields_def
proof (intro allI impI)
  fix sent x
  obtain y sent' where y: "m sent = (y, sent')" by fastforce
  then have "R y" using assms(1) [of sent] by simp
  moreover assume "fst (and_then m f sent) = Inr x"
  ultimately show "Q x" using assms(2) [of y] y by (auto simp: yields_def and_then_def)
qed

lemma yields_if: "yields Q m \<Longrightarrow> yields Q n \<Longrightarrow> yields Q (if b then m else n)"
  by simp

lemmas yields_intros = yields_and_then yields_try_then yields_if

locale adapter =
  fixes fetch :: "codecs \<Rightarrow> world \<Rightarrow> auth_file \<Rightarrow> string \<Rightarrow> (refresh_error + observation) io"
  assumes fetch_probes: "sends is_probe (fetch cx w f i)"
    and fetch_grants: "yields real_grants (fetch cx w f i)"
begin

text \<open>Refreshing any number of credentials spends no manual reset.\<close>

lemma no_reset_consumed:
  "\<exists>rs. snd (fetch cx w f i sent) = sent @ rs \<and> filter consumes_reset rs = []"
proof -
  obtain rs where "snd (fetch cx w f i sent) = sent @ rs" and "list_all is_probe rs"
    using fetch_probes by (rule sendsE)
  then show ?thesis
    by (intro exI [of _ rs]) (auto simp: filter_empty_conv list_all_iff is_probe_def consumes_reset_def
        split: request.splits)
qed

lemma grants_left:
  "fst (fetch cx w f i sent) = Inr ob \<Longrightarrow> ob_manual_resets ob = Reported gs \<Longrightarrow> g \<in> set gs \<Longrightarrow>
   0 < g_remaining g"
proof -
  assume "fst (fetch cx w f i sent) = Inr ob" and r: "ob_manual_resets ob = Reported gs" "g \<in> set gs"
  then have "real_grants ob" using fetch_grants [of cx w f i] unfolding yields_def by blast
  then show ?thesis using r by (simp add: real_resets_def)
qed

end

locale quiet_adapter =
  fixes fetch :: "codecs \<Rightarrow> world \<Rightarrow> auth_file \<Rightarrow> string \<Rightarrow> (refresh_error + observation) io"
  assumes fetch_reads: "sends is_read (fetch cx w f i)"
    and quiet_grants: "yields real_grants (fetch cx w f i)"

sublocale quiet_adapter \<subseteq> adapter
  by unfold_locales (rule sends_mono [OF fetch_reads is_read_is_probe], assumption, rule quiet_grants)

section \<open>The adapters keep it\<close>

lemma read_url: "is_read (Call c) \<longleftrightarrow> ac_url c \<notin> {CHAT_URL, KEY_URL, CONSUME_URL}"
  by (simp add: is_read_def spends_def)

lemma probe_url: "is_probe (Call c) \<longleftrightarrow> ac_url c \<noteq> CONSUME_URL"
  by (simp add: is_probe_def consumes_reset_def)

lemmas urls = CHAT_URL_def KEY_URL_def CONSUME_URL_def

lemma reads_claude [simp]:
  "is_read (Call (claude_usage_call i))" "is_read (Call (claude_profile_call i))"
  "is_read (Call (claude_grants_call i))"
  by (simp_all add: read_url urls claude_usage_call_def claude_profile_call_def claude_grants_call_def)

lemma reads_codex [simp]:
  "is_read (Call (codex_usage_call cx f i))" "is_read (Call (credits_call h i))"
  by (simp_all add: read_url urls codex_usage_call_def credits_call_def)

lemma reads_google [simp]:
  "is_read (Call (code_assist_call i))"
  "url \<in> set QUOTA_URLS \<Longrightarrow> is_read (Call (summary_call i body url))"
  by (auto simp: read_url urls code_assist_call_def summary_call_def QUOTA_URLS_def)

lemma reads_small [simp]:
  "is_read (Call (kimi_call i))" "is_read (Call (devin_call i))" "is_probe (Call (key_call i t))"
  by (simp_all add: read_url probe_url urls kimi_call_def devin_call_def key_call_def)

lemma probes_xai [simp]:
  "is_read (Call (me_call i))" "is_probe (Call (me_call i))" "is_probe (Call (chat_call i))"
  "is_read (Call (billing_call cx f i ''https://cli-chat-proxy.grok.com/v1/billing?format=credits''))"
  "is_read (Call (billing_call cx f i ''https://cli-chat-proxy.grok.com/v1/billing''))"
  by (simp_all add: read_url probe_url urls me_call_def chat_call_def billing_call_def)

lemma sends_reset [simp]: "consumes_reset (Call (consume_call cx f i body))"
  by (simp add: consumes_reset_def consume_call_def)

lemma positive_credit: "credit_grant cx c = Some g \<Longrightarrow> 0 < g_remaining g"
  by (auto simp: credit_grant_def split: if_splits)

lemma positive_codex_grants: "codex_grants cx j = Some gs \<Longrightarrow> g \<in> set gs \<Longrightarrow> 0 < g_remaining g"
  by (auto simp: codex_grants_def set_map_filter positive_credit split: if_splits)

lemma positive_reset_grants: "reset_grants cx j = Some gs \<Longrightarrow> g \<in> set gs \<Longrightarrow> 0 < g_remaining g"
  by (auto simp: reset_grants_def Let_def split: Option.bind_splits)

lemma reported_grants:
  "(\<And>gs g. x = Some gs \<Longrightarrow> g \<in> set gs \<Longrightarrow> 0 < g_remaining g) \<Longrightarrow>
   real_resets (reported x)"
  by (auto simp: reported_def real_resets_def split: option.splits)

lemma bind_ok_grants:
  "(\<And>j gs g. r j = Some gs \<Longrightarrow> g \<in> set gs \<Longrightarrow> 0 < g_remaining g) \<Longrightarrow>
   real_resets (reported (Option.bind x r))"
  by (rule reported_grants) (auto simp: bind_eq_Some_conv)

lemma claude_quiet: "sends is_read (claude_fetch cx w i)"
  unfolding claude_fetch_def by (intro io_intros) simp_all

lemma claude_grants: "yields real_grants (claude_fetch cx w i)"
  unfolding claude_fetch_def
  by (intro yields_intros yields_done) (auto intro!: bind_ok_grants positive_reset_grants)

lemma codex_quiet: "sends is_read (codex_fetch cx w f i)"
  unfolding codex_fetch_def codex_resets_def by (intro io_intros) simp_all

lemma try_hosts_quiet:
  "set urls \<subseteq> set QUOTA_URLS \<Longrightarrow> sends is_read (try_hosts cx w i body urls answered failure)"
proof (induction urls arbitrary: answered failure)
  case Nil
  then show ?case by (simp add: sends_done)
next
  case (Cons url urls)
  then show ?case
    by (auto simp: Let_def intro!: io_intros split: sum.splits)
qed

lemma google_quiet: "sends is_read (google_fetch cx w f i)"
  unfolding google_fetch_def by (intro io_intros try_hosts_quiet) simp_all

lemma google_grants: "yields real_grants (google_fetch cx w f i)"
  unfolding google_fetch_def by (intro yields_intros yields_done) (auto simp: real_resets_def)

lemma kimi_quiet: "sends is_read (kimi_fetch cx w i)"
  unfolding kimi_fetch_def by (intro io_intros) simp_all

lemma kimi_grants: "yields real_grants (kimi_fetch cx w i)"
  unfolding kimi_fetch_def by (intro yields_intros yields_done) (auto simp: real_resets_def)

lemma devin_quiet: "sends is_read (devin_fetch cx w i)"
  unfolding devin_fetch_def Let_def by (intro io_intros) simp_all

lemma devin_grants: "yields real_grants (devin_fetch cx w i)"
  unfolding devin_fetch_def Let_def
  by (intro yields_intros yields_done) (auto simp: real_resets_def split: if_splits)

lemma meta_probes: "sends is_probe (meta_fetch cx w f i)"
  unfolding meta_fetch_def by (intro io_intros) (simp_all add: is_probe_def [of "Download _"])

lemma meta_grants: "yields real_grants (meta_fetch cx w f i)"
  unfolding meta_fetch_def
  by (intro yields_intros yields_done) (auto simp: real_resets_def meta_observation_def Let_def split: if_splits)

lemma billing_reads:
  "sends is_read (billing cx w f i ''https://cli-chat-proxy.grok.com/v1/billing?format=credits'')"
  "sends is_read (billing cx w f i ''https://cli-chat-proxy.grok.com/v1/billing'')"
  unfolding billing_def by (intro io_intros; simp)+

lemma paid_check_probes: "sends is_probe (paid_check cx w i)"
  unfolding paid_check_def by (intro io_intros) simp_all

lemma xai_probes: "sends is_probe (xai_fetch cx w f i)"
  unfolding xai_fetch_def
  by (intro io_intros paid_check_probes sends_mono [OF billing_reads(1) is_read_is_probe]
      sends_mono [OF billing_reads(2) is_read_is_probe])

lemma paid_check_grants: "yields real_grants (paid_check cx w i)"
  unfolding paid_check_def by (intro yields_intros yields_done) (auto simp: real_resets_def split: if_splits)

lemma xai_grants: "yields real_grants (xai_fetch cx w f i)"
proof -
  have checked: "yields real_grants (and_then (paid_check cx w i) (\<lambda>r. done_with
      (case r of Inl _ \<Rightarrow> Inl e | Inr ob \<Rightarrow> Inr ob)))" for e :: refresh_error
  proof (rule yields_and_then_with)
    show "\<forall>ob. fst (paid_check cx w i sent) = Inr ob \<longrightarrow> real_grants ob" for sent
      using paid_check_grants [of cx w i] by (simp add: yields_def)
    show "yields real_grants (done_with (case r of Inl _ \<Rightarrow> Inl e | Inr ob \<Rightarrow> Inr ob))"
      if "\<forall>ob. r = Inr ob \<longrightarrow> real_grants ob" for r :: "refresh_error + observation"
      using that by (intro yields_done) (simp split: sum.splits)
  qed
  show ?thesis
    unfolding xai_fetch_def
    by (rule yields_if, rule paid_check_grants, rule yields_and_then, rule yields_and_then,
        rule yields_if, rule yields_done, auto, rule checked)
qed

lemma codex_resets_real:
  "real_resets (fst (codex_resets cx w h i sent))"
proof -
  obtain r sent' where r: "ask cx w (credits_call h i) sent = (r, sent')" by fastforce
  have "real_resets (reported (Option.bind (ok r) (codex_grants cx)))"
    by (rule bind_ok_grants) (rule positive_codex_grants)
  then show ?thesis by (simp add: codex_resets_def and_then_def done_with_def r)
qed

lemma codex_grants_real: "yields real_grants (codex_fetch cx w f i)"
  unfolding codex_fetch_def
  by (intro yields_try_then yields_and_then [where m = "read_clock w"]
      yields_and_then_with [where R = real_resets] codex_resets_real yields_done)
    (auto simp: real_resets_def)

text \<open>Each provider of the code is an adapter; those read without a human are quiet.\<close>

interpretation claude: quiet_adapter "\<lambda>cx w f. claude_fetch cx w"
  by unfold_locales (rule claude_quiet claude_grants)+

interpretation codex: quiet_adapter codex_fetch
  by unfold_locales (rule codex_quiet codex_grants_real)+

interpretation google: quiet_adapter google_fetch
  by unfold_locales (rule google_quiet google_grants)+

interpretation kimi: quiet_adapter "\<lambda>cx w f. kimi_fetch cx w"
  by unfold_locales (rule kimi_quiet kimi_grants)+

interpretation devin: quiet_adapter "\<lambda>cx w f. devin_fetch cx w"
  by unfold_locales (rule devin_quiet devin_grants)+

interpretation meta: adapter meta_fetch
  by unfold_locales (rule meta_probes meta_grants)+

interpretation xai: adapter xai_fetch
  by unfold_locales (rule xai_probes xai_grants)+

lemmas provider_laws =
  claude.fetch_probes codex.fetch_probes google.fetch_probes kimi.fetch_probes devin.fetch_probes
  meta.fetch_probes xai.fetch_probes
  claude.fetch_grants codex.fetch_grants google.fetch_grants kimi.fetch_grants devin.fetch_grants
  meta.fetch_grants xai.fetch_grants

interpretation any_provider: adapter "\<lambda>cx w. fetch cx w p"
  by unfold_locales (cases p; simp add: fetch_def provider_laws)+

lemma automatic_provider_quiet:
  "allows_automatic_recovery p \<Longrightarrow> sends is_read (fetch cx w p f i)"
  by (cases p) (simp_all add: fetch_def claude.fetch_reads codex.fetch_reads google.fetch_reads
      kimi.fetch_reads devin.fetch_reads)

section \<open>Properties\<close>

lemma is_read_spends: "is_read r \<Longrightarrow> \<not> spends r"
  by (auto simp: is_read_def spends_def split: request.splits)

lemma reads_unspent: "list_all is_read rs \<Longrightarrow> filter spends rs = []"
  by (auto simp: filter_empty_conv list_all_iff is_read_spends)

lemma spends_paid [simp]: "\<not> spends (Call (me_call i))" "spends (Call (chat_call i))"
  by (simp_all add: spends_def urls me_call_def chat_call_def)

lemma paid_check_trace: "snd (paid_check cx w i sent) = sent @ [Call (me_call i), Call (chat_call i)]"
  by (simp add: paid_check_def and_then_def try_then_def call_def send_def done_with_def split: sum.splits)

lemma paid_check_windows: "fst (paid_check cx w i sent) = Inr ob \<Longrightarrow> ob_windows ob = []"
proof -
  have "yields (\<lambda>ob. ob_windows ob = []) (paid_check cx w i)"
    unfolding paid_check_def by (intro yields_intros yields_done) (auto split: if_splits)
  then show "fst (paid_check cx w i sent) = Inr ob \<Longrightarrow> ob_windows ob = []" by (simp add: yields_def)
qed

definition times_spent :: "refresh_error + observation \<Rightarrow> nat" where
  "times_spent r = (case r of Inl _ \<Rightarrow> 1 | Inr ob \<Rightarrow> if ob_windows ob = [] then 1 else 0)"

text \<open>
  The one-token completion with which xAI is checked costs real quota. A refresh of an xAI
  credential sends it exactly when it has no window to show, so never once a billing answer
  stated one, and never twice.\<close>

theorem xai_spends_only_without_windows:
  "\<exists>rs. snd (xai_fetch cx w f i sent) = sent @ rs \<and>
        length (filter spends rs) = times_spent (fst (xai_fetch cx w f i sent))"
proof (cases "is_paid cx (af_raw f)")
  case True
  have "times_spent (fst (paid_check cx w i sent)) = 1"
    using paid_check_windows [of cx w i sent] by (simp add: times_spent_def split: sum.splits)
  then show ?thesis
    by (intro exI [of _ "[Call (me_call i), Call (chat_call i)]"]) (simp add: xai_fetch_def True paid_check_trace)
next
  case False
  let ?b = "billing cx w f i"
  let ?u = "''https://cli-chat-proxy.grok.com/v1/billing?format=credits''"
  let ?v = "''https://cli-chat-proxy.grok.com/v1/billing''"
  obtain x s1 where x: "?b ?u sent = (x, s1)" by fastforce
  obtain y s2 where y: "?b ?v s1 = (y, s2)" by fastforce
  obtain rs where rs: "s1 = sent @ rs" "list_all is_read rs"
    using billing_reads(1) [of cx w f i] x by (metis sendsE snd_conv)
  obtain qs where qs: "s2 = s1 @ qs" "list_all is_read qs"
    using billing_reads(2) [of cx w f i] y by (metis sendsE snd_conv)
  obtain z s3 where z: "paid_check cx w i s2 = (z, s3)" by fastforce
  then have s3: "s3 = s2 @ [Call (me_call i), Call (chat_call i)]"
    using paid_check_trace [of cx w i s2] by simp
  have zw: "\<And>ob. z = Inr ob \<Longrightarrow> ob_windows ob = []" using paid_check_windows [of cx w i s2] z by simp
  show ?thesis
  proof (cases "billed_windows x y = []")
    case empty: True
    have r: "xai_fetch cx w f i sent = (case z of Inl _ \<Rightarrow> Inl (billing_failure x y) | Inr ob \<Rightarrow> Inr ob, s3)"
      by (simp add: xai_fetch_def False and_then_def x y z empty done_with_def)
    show ?thesis
      by (intro exI [of _ "rs @ qs @ [Call (me_call i), Call (chat_call i)]"])
        (use zw in \<open>cases z; simp add: r s3 qs rs reads_unspent times_spent_def\<close>)
  next
    case ne: False
    have "xai_fetch cx w f i sent =
        (Inr \<lparr>ob_windows = billed_windows x y, ob_plan = None, ob_manual_resets = Unchanged\<rparr>, s2)"
      by (simp add: xai_fetch_def False and_then_def x y ne done_with_def)
    then show ?thesis
      by (intro exI [of _ "rs @ qs"]) (simp add: qs rs reads_unspent times_spent_def ne)
  qed
qed

text \<open>What all hosts answer when each is asked in turn.\<close>

fun host_outcomes ::
  "codecs \<Rightarrow> world \<Rightarrow> string \<Rightarrow> string \<Rightarrow> string list \<Rightarrow> trace \<Rightarrow> (refresh_error + json) list" where
  "host_outcomes cx w i body [] sent = []"
| "host_outcomes cx w i body (url # urls) sent =
     (let (r, sent') = ask cx w (summary_call i body url) sent
      in r # host_outcomes cx w i body urls sent')"

definition stated_windows :: "codecs \<Rightarrow> refresh_error + json \<Rightarrow> new_window list option" where
  "stated_windows cx r =
     filter_option (\<lambda>ws. ws \<noteq> []) (map_option (\<lambda>j. google_windows cx (unwrap_body cx j)) (ok r))"

text \<open>The failure that says most: the first refusal of the credential, else the last one.\<close>

definition telling_failure :: "refresh_error list \<Rightarrow> refresh_error" where
  "telling_failure es =
     (case find (\<lambda>e. decisive (Some e)) es of Some e \<Rightarrow> e | None \<Rightarrow> if es = [] then Empty else last es)"

definition failures :: "(refresh_error + 'a) list \<Rightarrow> refresh_error list" where
  "failures rs = List.map_filter (\<lambda>r. case r of Inl e \<Rightarrow> Some e | Inr _ \<Rightarrow> None) rs"

definition hosts_answer :: "codecs \<Rightarrow> (refresh_error + json) list \<Rightarrow> refresh_error + new_window list" where
  "hosts_answer cx rs =
     (case find_map (stated_windows cx) rs of
        Some ws \<Rightarrow> Inr ws
      | None \<Rightarrow> if list_ex (\<lambda>r. ok r \<noteq> None) rs then Inr [] else Inl (telling_failure (failures rs)))"

lemma ok_simps [simp]: "ok (Inl e) = None" "ok (Inr x) = Some x"
  by (simp_all add: ok_def)

lemma decisive_None [simp]: "\<not> decisive None"
  by (simp add: decisive_def)

text \<open>The failure a host leaves behind, after those of \<open>es\<close>.\<close>

definition so_far :: "refresh_error list \<Rightarrow> refresh_error option" where
  "so_far es = (if es = [] then None else Some (telling_failure es))"

lemma so_far_snoc: "so_far (es @ [e]) = (if decisive (so_far es) then so_far es else Some e)"
proof (cases "find (\<lambda>e. decisive (Some e)) es")
  case None
  then have "es \<noteq> [] \<Longrightarrow> \<not> decisive (Some (last es))" by (simp add: find_None_iff)
  then show ?thesis using None by (simp add: so_far_def telling_failure_def find_append)
next
  case (Some x)
  then have "es \<noteq> []" "decisive (Some x)" using find_Some_set [OF Some] by auto
  then show ?thesis using Some by (simp add: so_far_def telling_failure_def find_append)
qed

lemma failures_simps [simp]:
  "failures [] = []" "failures (Inl e # rs) = e # failures rs" "failures (Inr x # rs) = failures rs"
  by (simp_all add: failures_def List.map_filter_simps)

lemma stated_Inl [simp]: "stated_windows cx (Inl e) = None"
  by (simp add: stated_windows_def)

lemma try_hosts_outcomes:
  "fst (try_hosts cx w i body urls answered (so_far es) sent) =
     (case find_map (stated_windows cx) (host_outcomes cx w i body urls sent) of
        Some ws \<Rightarrow> Inr ws
      | None \<Rightarrow>
          if answered \<or> list_ex (\<lambda>r. ok r \<noteq> None) (host_outcomes cx w i body urls sent) then Inr []
          else Inl (telling_failure (es @ failures (host_outcomes cx w i body urls sent))))"
proof (induction urls arbitrary: answered es sent)
  case Nil
  then show ?case by (simp add: done_with_def so_far_def telling_failure_def)
next
  case (Cons url urls)
  obtain r s1 where r: "ask cx w (summary_call i body url) sent = (r, s1)" by fastforce
  then have os: "host_outcomes cx w i body (url # urls) sent = r # host_outcomes cx w i body urls s1"
    by simp
  show ?case
  proof (cases r)
    case (Inl e)
    have "fst (try_hosts cx w i body (url # urls) answered (so_far es) sent) =
        fst (try_hosts cx w i body urls answered (so_far (es @ [e])) s1)"
      by (simp add: and_then_def r Inl so_far_snoc)
    then show ?thesis unfolding os using Cons.IH [of answered "es @ [e]" s1] by (simp add: Inl cong: option.case_cong)
  next
    case (Inr j)
    show ?thesis
    proof (cases "google_windows cx (unwrap_body cx j) = []")
      case True
      then have "fst (try_hosts cx w i body (url # urls) answered (so_far es) sent) =
          fst (try_hosts cx w i body urls True (so_far es) s1)"
        by (simp add: and_then_def r Inr)
      then show ?thesis
        unfolding os using Cons.IH [of True es s1] True by (simp add: Inr stated_windows_def cong: option.case_cong)
    next
      case False
      then show ?thesis unfolding os by (simp add: and_then_def r Inr done_with_def stated_windows_def)
    qed
  qed
qed

text \<open>
  Antigravity is asked on three hosts. Its windows are those of the first host that states
  any; an answer without windows is no failure; and where no host answered the error is the
  first refusal of the credential itself (403 or 404), or the last error when there is none.\<close>

theorem google_reports_telling_failure:
  "fst (try_hosts cx w i body QUOTA_URLS False None sent) =
     hosts_answer cx (host_outcomes cx w i body QUOTA_URLS sent)"
  using try_hosts_outcomes [of cx w i body QUOTA_URLS False "[]" sent]
  by (simp add: so_far_def hosts_answer_def cong: option.case_cong)

section \<open>Fractions\<close>

lemma unit_plain [simp]: "unit_window (plain_window k l)"
  by (simp add: unit_window_def plain_window_def)

lemma unit_codex_window: "unit_window (codex_window cx window key label reached now)"
  by (auto simp: unit_window_def codex_window_def Let_def or_else_def used_from_percent_unit
      split: option.splits if_splits)

lemma unit_limit_pair: "n \<in> set (limit_pair cx limit k l now) \<Longrightarrow> unit_window n"
  by (auto simp: limit_pair_def Let_def unit_codex_window split: prod.splits option.splits if_splits)

lemma unit_additional: "n \<in> set (additional_windows cx now item) \<Longrightarrow> unit_window n"
  by (auto simp: additional_windows_def Let_def unit_codex_window split: prod.splits option.splits if_splits)

lemma unit_codex_windows: "n \<in> set (codex_windows cx usage now) \<Longrightarrow> unit_window n"
  by (auto simp: codex_windows_def unit_limit_pair unit_additional split: option.splits)

lemma unit_bucket: "bucket_window cx gi g bi b = Some n \<Longrightarrow> unit_window n"
proof -
  have "0 \<le> 1 - clamp_unit x \<and> 1 - clamp_unit x \<le> 1" for x using clamp_unit_unit [of x] by simp
  then show "bucket_window cx gi g bi b = Some n \<Longrightarrow> unit_window n"
    by (auto simp: bucket_window_def Let_def unit_window_def bind_eq_Some_conv)
qed

lemma unit_google_windows: "n \<in> set (google_windows cx payload) \<Longrightarrow> unit_window n"
  by (auto simp: google_windows_def group_windows_def set_map_filter unit_bucket split: prod.splits)

lemma unit_devin_window: "devin_window cx status spec = Some n \<Longrightarrow> unit_window n"
  by (auto simp: devin_window_def Let_def unit_window_def devin_percent_def bind_eq_Some_conv
      split: prod.splits if_splits)

lemma unit_devin_windows: "n \<in> set (devin_windows cx status) \<Longrightarrow> unit_window n"
  unfolding devin_windows_def set_map_filter by (auto dest: unit_devin_window)

lemma unit_meta_window: "n \<in> set (meta_window cx window k l s) \<Longrightarrow> unit_window n"
  by (auto simp: meta_window_def Let_def split: if_splits)

lemma unit_meta: "n \<in> set (ob_windows (meta_observation cx key)) \<Longrightarrow> unit_window n"
  by (auto simp: meta_observation_def Let_def unit_meta_window split: option.splits)

lemma unit_named: "named_window cx usage spec = Some n \<Longrightarrow> unit_window n"
  by (auto simp: named_window_def unit_window_def used_from_percent_unit bind_eq_Some_conv split: prod.splits)

lemma unit_fable: "unit_window (fable_window cx limit)"
  by (auto simp: fable_window_def unit_window_def used_from_percent_unit)

lemma unit_claude:
  "n \<in> set (claude_windows cx usage) \<Longrightarrow> unit_window n \<or> nw_key n = ''extra-usage''"
  by (auto simp: claude_windows_def Let_def set_map_filter unit_named unit_fable extra_window_def plain_window_def
      split: option.splits)

lemma try_hosts_unit: "yields (\<lambda>ws. \<forall>n\<in>set ws. unit_window n) (try_hosts cx w i body urls answered failure)"
proof (induction urls arbitrary: answered failure)
  case Nil
  then show ?case by (auto intro!: yields_done split: if_splits)
next
  case (Cons url urls)
  then show ?case
    by (auto simp: Let_def unit_google_windows intro!: yields_and_then yields_done split: sum.splits)
qed

text \<open>A window that is counted in an amount names its unit; any other is a percentage.\<close>

definition percentages_are_fractions :: "observation \<Rightarrow> bool" where
  "percentages_are_fractions ob \<longleftrightarrow> (\<forall>n\<in>set (ob_windows ob). nw_unit n = None \<longrightarrow> unit_window n)"

lemma claude_fractions: "n \<in> set (claude_windows cx usage) \<Longrightarrow> nw_unit n = None \<Longrightarrow> unit_window n"
  by (auto simp: claude_windows_def Let_def set_map_filter unit_named unit_fable extra_window_def
      split: option.splits)

lemma kimi_row_unit: "kimi_row cx data k l d u now = Some n \<Longrightarrow> nw_unit n = Some REQUESTS"
  unfolding kimi_row_def Let_def by (auto simp del: find_map.simps split: if_split_asm)

lemma kimi_fractions: "n \<in> set (kimi_windows cx usage now) \<Longrightarrow> nw_unit n \<noteq> None"
  unfolding kimi_windows_def set_append set_map_filter
  by (auto simp: kimi_limit_def Let_def dest: kimi_row_unit)

lemma credit_fractions: "n \<in> set (credit_windows cx pt c ps s e) \<Longrightarrow> unit_window n"
  by (auto simp: credit_windows_def product_window_def Let_def unit_window_def plain_window_def
      used_from_percent_unit split: prod.splits)

lemma included_unit [simp]: "nw_unit (included_window u l s e) = Some CENTS"
  by (simp add: included_window_def Let_def)

lemma on_demand_unit [simp]: "nw_unit (on_demand_window u l cap d s e) = Some CENTS"
  by (simp add: on_demand_window_def Let_def)

lemma on_demand_units:
  "n \<in> set (case c of None \<Rightarrow> [] | Some cap \<Rightarrow> [on_demand_window u l cap d s e]) \<Longrightarrow> nw_unit n = Some CENTS"
  by (cases c) auto

lemma billing_fractions:
  assumes "billing_windows cx config = Some ws" and "n \<in> set ws" and "nw_unit n = None"
  shows "unit_window n"
proof -
  have parts: "n \<in> set as \<or> n = b \<or> n \<in> set cs"
    if "(if \<not> weekly \<and> \<not> monthly then None
         else Some ((if weekly then as else []) @ (if monthly then [b] else []) @ cs)) = Some ws"
    for weekly monthly :: bool and as b cs
    using that assms(2) by (auto split: if_split_asm)
  from parts [OF assms(1) [unfolded billing_windows_def Let_def]] show ?thesis
    using assms(3) by (elim disjE) (auto dest: credit_fractions on_demand_units)
qed

definition stated_fractions :: "new_window list option \<Rightarrow> bool" where
  "stated_fractions ws \<longleftrightarrow> (\<forall>n\<in>set (unwrap_or [] ws). nw_unit n = None \<longrightarrow> unit_window n)"

lemma billing_yields: "yields stated_fractions (billing cx w f i url)"
proof -
  have "stated_fractions (Option.bind c (billing_windows cx))" for c
    by (cases "Option.bind c (billing_windows cx)")
      (auto simp: stated_fractions_def bind_eq_Some_conv dest: billing_fractions)
  then show ?thesis unfolding billing_def by (intro yields_try_then yields_done) auto
qed

lemma billed_fractions:
  assumes "\<forall>ws. x = Inr ws \<longrightarrow> stated_fractions ws" and "\<forall>ws. y = Inr ws \<longrightarrow> stated_fractions ws"
  shows "\<forall>n\<in>set (billed_windows x y). nw_unit n = None \<longrightarrow> unit_window n"
  using assms
  by (cases x; cases y) (auto simp: billed_windows_def List.map_filter_simps stated_fractions_def split: option.splits)

lemma xai_fractions: "yields percentages_are_fractions (xai_fetch cx w f i)"
proof -
  let ?Q = "\<lambda>r :: refresh_error + new_window list option. \<forall>ws. r = Inr ws \<longrightarrow> stated_fractions ws"
  have q: "?Q (fst (billing cx w f i url sent))" for url sent
    using billing_yields [of cx w f i url] by (simp add: yields_def)
  have paid: "yields percentages_are_fractions (paid_check cx w i)"
    unfolding paid_check_def
    by (intro yields_intros yields_done) (auto simp: percentages_are_fractions_def split: if_splits)
  have checked: "yields percentages_are_fractions (and_then (paid_check cx w i) (\<lambda>r. done_with
      (case r of Inl _ \<Rightarrow> Inl e | Inr ob \<Rightarrow> Inr ob)))" for e :: refresh_error
  proof (rule yields_and_then_with)
    show "\<forall>ob. fst (paid_check cx w i sent) = Inr ob \<longrightarrow> percentages_are_fractions ob" for sent
      using paid by (simp add: yields_def)
    show "yields percentages_are_fractions (done_with (case r of Inl _ \<Rightarrow> Inl e | Inr ob \<Rightarrow> Inr ob))"
      if "\<forall>ob. r = Inr ob \<longrightarrow> percentages_are_fractions ob" for r :: "refresh_error + observation"
      using that by (intro yields_done) (simp split: sum.splits)
  qed
  have billed: "percentages_are_fractions \<lparr>ob_windows = billed_windows x y, ob_plan = None, ob_manual_resets = Unchanged\<rparr>"
    if "?Q x" "?Q y" for x y
    using billed_fractions [OF that] by (simp add: percentages_are_fractions_def)
  show ?thesis
    unfolding xai_fetch_def
    by (rule yields_if, rule paid, rule yields_and_then_with [where R = ?Q, OF q],
        rule yields_and_then_with [where R = ?Q, OF q], rule yields_if, rule yields_done)
      (use billed checked in auto)
qed

text \<open>
  Whatever a provider answers, the windows read from it are fractions between zero and one
  wherever the provider counts in percent, used or remaining. Only a window counted in an
  amount (requests, credits, cents) may report more than its limit.\<close>

theorem percentages_read_as_fractions: "yields percentages_are_fractions (fetch cx w p f i)"
proof (cases p)
  case Claude
  then show ?thesis unfolding fetch_def claude_fetch_def provider.case
    by (auto simp: percentages_are_fractions_def claude_fractions intro!: yields_intros yields_done)
next
  case Codex
  then show ?thesis unfolding fetch_def codex_fetch_def provider.case
    by (auto simp: percentages_are_fractions_def unit_codex_windows intro!: yields_intros yields_done)
next
  case Antigravity
  have "yields (\<lambda>ob. percentages_are_fractions ob) (try_then (try_hosts cx w i body urls False None) (\<lambda>ws.
      done_with (Inr \<lparr>ob_windows = ws, ob_plan = plan, ob_manual_resets = Unchanged\<rparr>)))" for body urls plan
    unfolding try_then_def
    using try_hosts_unit [of cx w i body urls False None]
    by (intro yields_and_then_with [where R = "\<lambda>r. \<forall>ws. r = Inr ws \<longrightarrow> (\<forall>n\<in>set ws. unit_window n)"])
      (auto simp: yields_def done_with_def percentages_are_fractions_def split: sum.splits)
  then show ?thesis unfolding Antigravity fetch_def google_fetch_def provider.case
    by (intro yields_try_then [where m = "done_with _"] yields_and_then [where m = "ask _ _ _"])
next
  case Kimi
  then show ?thesis unfolding fetch_def kimi_fetch_def provider.case
    by (auto simp: percentages_are_fractions_def intro!: yields_intros yields_done dest: kimi_fractions)
next
  case Devin
  then show ?thesis unfolding fetch_def devin_fetch_def provider.case Let_def
    by (auto simp: percentages_are_fractions_def unit_devin_windows intro!: yields_intros yields_done split: if_splits)
next
  case Xai
  then show ?thesis by (simp add: fetch_def xai_fractions)
next
  case Meta
  then show ?thesis unfolding fetch_def meta_fetch_def provider.case
    by (auto simp: percentages_are_fractions_def unit_meta intro!: yields_intros yields_done split: if_splits)
qed

end
