(* ===== verification/Sources.thy ===== *)
theory Sources
  imports Merging
begin

text \<open>
  The configured gateways: what the file on disk is read into (\<^verbatim>\<open>src/config.rs\<close>), and the
  rows that are kept in step with it (\<^verbatim>\<open>src/source/mod.rs\<close>). The TOML reader is not modelled:
  \<open>config_file\<close> is what it leaves. The environment is a parameter.
\<close>

section \<open>The configuration\<close>

record source_file =
  sf_key :: string
  sf_name :: "string option"
  sf_kind :: source_kind
  sf_base_url :: string
  sf_key_env :: string

record pricing_file =
  pf_litellm_source :: "string option"
  pf_public_map_url :: "string option"
  pf_refresh_hours :: "int option"
  pf_priced_as :: "(string \<times> string) list"

record config_file =
  cf_source :: "source_file list"
  cf_pricing :: "pricing_file option"

record source_config =
  sc_key :: string
  sc_name :: string
  sc_kind :: source_kind
  sc_base_url :: string
  sc_secret :: string

record pricing_config =
  pc_litellm_source :: "string option"
  pc_public_map_url :: string
  pc_refresh_hours :: int
  pc_priced_as :: "(string \<times> string) list"

record config =
  cg_sources :: "source_config list"
  cg_pricing :: pricing_config

definition PUBLIC_PRICE_MAP_URL :: string where
  "PUBLIC_PRICE_MAP_URL =
     ''https://raw.githubusercontent.com/BerriAI/litellm/main/model_prices_and_context_window.json''"

definition DEFAULT_PRICE_REFRESH_HOURS :: int where "DEFAULT_PRICE_REFRESH_HOURS = 24"

datatype config_error =
    MissingSecret string string
  | EmptySecret string string
  | DuplicateKey string
  | UnknownPriceSource string

definition read_source ::
  "(string \<Rightarrow> string option) \<Rightarrow> source_config list \<Rightarrow> source_file \<Rightarrow> config_error + source_config" where
  "read_source environment known f =
     (if list_ex (\<lambda>s. sc_key s = sf_key f) known then Inl (DuplicateKey (sf_key f))
      else case environment (sf_key_env f) of
        None \<Rightarrow> Inl (MissingSecret (sf_key f) (sf_key_env f))
      | Some secret \<Rightarrow>
          if trim secret = [] then Inl (EmptySecret (sf_key f) (sf_key_env f))
          else Inr \<lparr>sc_key = sf_key f, sc_name = unwrap_or (sf_key f) (sf_name f), sc_kind = sf_kind f,
                    sc_base_url = rev (dropWhile (\<lambda>c. c = CHR ''/'') (rev (sf_base_url f))),
                    sc_secret = secret\<rparr>)"

fun read_sources ::
  "(string \<Rightarrow> string option) \<Rightarrow> source_config list \<Rightarrow> source_file list \<Rightarrow> config_error + source_config list" where
  "read_sources environment known [] = Inr known"
| "read_sources environment known (f # fs) =
     (case read_source environment known f of
        Inl e \<Rightarrow> Inl e | Inr s \<Rightarrow> read_sources environment (known @ [s]) fs)"

definition read_pricing :: "pricing_file option \<Rightarrow> pricing_config" where
  "read_pricing f =
     (case f of
        None \<Rightarrow> \<lparr>pc_litellm_source = None, pc_public_map_url = PUBLIC_PRICE_MAP_URL,
                 pc_refresh_hours = DEFAULT_PRICE_REFRESH_HOURS, pc_priced_as = []\<rparr>
      | Some p \<Rightarrow>
          \<lparr>pc_litellm_source = pf_litellm_source p,
           pc_public_map_url = unwrap_or PUBLIC_PRICE_MAP_URL (pf_public_map_url p),
           pc_refresh_hours = unwrap_or DEFAULT_PRICE_REFRESH_HOURS (pf_refresh_hours p),
           pc_priced_as = pf_priced_as p\<rparr>)"

definition parse_config :: "(string \<Rightarrow> string option) \<Rightarrow> config_file \<Rightarrow> config_error + config" where
  "parse_config environment f =
     (case read_sources environment [] (cf_source f) of
        Inl e \<Rightarrow> Inl e
      | Inr srcs \<Rightarrow>
          (let pricing = read_pricing (cf_pricing f)
           in case filter_option
                (\<lambda>key. \<not> list_ex (\<lambda>s. sc_key s = key \<and> sc_kind s = LiteLlm) srcs)
                (pc_litellm_source pricing) of
                Some key \<Rightarrow> Inl (UnknownPriceSource key)
              | None \<Rightarrow> Inr \<lparr>cg_sources = srcs, cg_pricing = pricing\<rparr>))"

definition config_source :: "config \<Rightarrow> string \<Rightarrow> source_config option" where
  "config_source cfg key = find (\<lambda>s. sc_key s = key) (cg_sources cfg)"

section \<open>The rows\<close>

record source_output =
  so_row :: source_row
  so_last_event_at :: "instant option"
  so_event_count :: nat
  so_collector :: "collector_row option"

definition select_source :: "db \<Rightarrow> source_row \<Rightarrow> source_output" where
  "select_source d s =
     (let es = filter (\<lambda>e. e_source e = s_id s) (events d)
      in \<lparr>so_row = s, so_last_event_at = latest (map (\<lambda>e. u_occurred_at (e_usage e)) es),
          so_event_count = length es,
          so_collector = find (\<lambda>k. k_source k = s_id s) (collectors d)\<rparr>)"

definition load_source :: "db \<Rightarrow> id \<Rightarrow> source_output option" where
  "load_source d i = map_option (select_source d) (source_by_id d i)"

definition source_by_key :: "db \<Rightarrow> string \<Rightarrow> source_output option" where
  "source_by_key d key = map_option (select_source d) (find (\<lambda>s. s_key s = key) (sources d))"

definition list_sources :: "db \<Rightarrow> source_output list" where
  "list_sources d = map (select_source d) (sort_key s_id (sources d))"

definition source_merge :: "source_row \<Rightarrow> source_row \<Rightarrow> source_row" where
  "source_merge new old =
     old\<lparr>s_name := s_name new, s_kind := s_kind new, s_base_url := s_base_url new, s_enabled := True\<rparr>"

interpretation configuring: keyed_upsert s_key source_merge
  by unfold_locales (simp add: source_merge_def)

definition configured_row :: "id \<Rightarrow> instant \<Rightarrow> source_config \<Rightarrow> source_row" where
  "configured_row i now c =
     \<lparr>s_id = i, s_key = sc_key c, s_name = sc_name c, s_kind = sc_kind c, s_base_url = sc_base_url c,
      s_enabled = True, s_created_at = now\<rparr>"

fun upsert_sources :: "(nat \<Rightarrow> id) \<Rightarrow> instant \<Rightarrow> nat \<Rightarrow> source_config list \<Rightarrow> source_row list \<Rightarrow> source_row list" where
  "upsert_sources ids now n [] rows = rows"
| "upsert_sources ids now n (c # cs) rows =
     upsert_sources ids now (n + 1) cs (upsert s_key source_merge (configured_row (ids n) now c) rows)"

definition disable_others :: "source_config list \<Rightarrow> source_row list \<Rightarrow> source_row list" where
  "disable_others cs rows =
     update_where (\<lambda>s. s_enabled s \<and> (cs = [] \<or> s_key s \<notin> sc_key ` set cs)) (\<lambda>s. s\<lparr>s_enabled := False\<rparr>) rows"

definition sync_sources :: "(nat \<Rightarrow> id) \<Rightarrow> instant \<Rightarrow> config \<Rightarrow> db \<Rightarrow> db" where
  "sync_sources ids now cfg d =
     (let sn = read_snapshot All Accounts now d
      in record_differences now sn
           (d\<lparr>sources := disable_others (cg_sources cfg)
                (upsert_sources ids now 0 (cg_sources cfg) (sources d))\<rparr>))"

section \<open>Properties\<close>

definition config_ok :: "config \<Rightarrow> bool" where
  "config_ok cfg \<longleftrightarrow>
     distinct (map sc_key (cg_sources cfg)) \<and>
     (\<forall>s\<in>set (cg_sources cfg). trim (sc_secret s) \<noteq> [] \<and> \<not> ends_with ''/'' (sc_base_url s)) \<and>
     (\<forall>key\<in>set_option (pc_litellm_source (cg_pricing cfg)).
        \<exists>s\<in>set (cg_sources cfg). sc_key s = key \<and> sc_kind s = LiteLlm)"

definition faulty :: "(string \<Rightarrow> string option) \<Rightarrow> config_file \<Rightarrow> bool" where
  "faulty environment f \<longleftrightarrow>
     \<not> distinct (map sf_key (cf_source f)) \<or>
     (\<exists>s\<in>set (cf_source f). case environment (sf_key_env s) of None \<Rightarrow> True | Some secret \<Rightarrow> trim secret = []) \<or>
     (\<exists>key\<in>set_option (pc_litellm_source (read_pricing (cf_pricing f))).
        \<not> (\<exists>s\<in>set (cf_source f). sf_key s = key \<and> sf_kind s = LiteLlm))"

lemma not_ends_with_slash: "\<not> ends_with ''/'' (rev (dropWhile (\<lambda>c. c = CHR ''/'') (rev u)))"
proof
  assume "ends_with ''/'' (rev (dropWhile (\<lambda>c. c = CHR ''/'') (rev u)))"
  then obtain t where "rev (dropWhile (\<lambda>c. c = CHR ''/'') (rev u)) = t @ ''/''" by (auto simp: ends_with_iff)
  then have "dropWhile (\<lambda>c. c = CHR ''/'') (rev u) = rev (t @ ''/'')" by (metis rev_rev_ident)
  then show False using hd_dropWhile [of "\<lambda>c. c = CHR ''/''" "rev u"] by auto
qed

definition source_ok :: "source_config \<Rightarrow> bool" where
  "source_ok s \<longleftrightarrow> trim (sc_secret s) \<noteq> [] \<and> \<not> ends_with ''/'' (sc_base_url s)"

lemma read_source_ok:
  assumes "read_source environment known f = Inr s"
  shows "sc_key s = sf_key f" and "sc_kind s = sf_kind f" and "source_ok s" and "sf_key f \<notin> sc_key ` set known"
    and "\<exists>secret. environment (sf_key_env f) = Some secret \<and> trim secret \<noteq> []"
  using assms
  by (auto simp: read_source_def source_ok_def not_ends_with_slash list_ex_iff split: if_splits option.splits)

lemma read_sources_ok:
  assumes "read_sources environment known fs = Inr srcs"
    and "distinct (map sc_key known)" and "\<forall>s\<in>set known. source_ok s"
  shows "map (\<lambda>s. (sc_key s, sc_kind s)) srcs =
           map (\<lambda>s. (sc_key s, sc_kind s)) known @ map (\<lambda>f. (sf_key f, sf_kind f)) fs \<and>
         distinct (map sc_key srcs) \<and> (\<forall>s\<in>set srcs. source_ok s) \<and>
         (\<forall>f\<in>set fs. \<exists>secret. environment (sf_key_env f) = Some secret \<and> trim secret \<noteq> [])"
  using assms
proof (induction fs arbitrary: known)
  case Nil
  then show ?case by simp
next
  case (Cons f fs)
  obtain s where s: "read_source environment known f = Inr s"
    using Cons.prems(1) by (auto split: sum.splits)
  note r = read_source_ok [OF s]
  have 1: "read_sources environment (known @ [s]) fs = Inr srcs" using Cons.prems(1) s by simp
  have 2: "distinct (map sc_key (known @ [s]))" using Cons.prems(2) r(1,4) by simp
  have 3: "\<forall>s\<in>set (known @ [s]). source_ok s" using Cons.prems(3) r(3) by simp
  show ?case using Cons.IH [OF 1 2 3] r(1,2,5) by simp
qed

lemma read_sources_total:
  assumes "distinct (map sc_key known @ map sf_key fs)"
    and "\<forall>f\<in>set fs. \<exists>secret. environment (sf_key_env f) = Some secret \<and> trim secret \<noteq> []"
  shows "\<exists>srcs. read_sources environment known fs = Inr srcs"
  using assms
proof (induction fs arbitrary: known)
  case Nil
  then show ?case by simp
next
  case (Cons f fs)
  obtain secret where "environment (sf_key_env f) = Some secret" "trim secret \<noteq> []"
    using Cons.prems(2) by auto
  moreover have "\<not> (\<exists>s\<in>set known. sc_key s = sf_key f)" using Cons.prems(1) by force
  ultimately obtain s where s: "read_source environment known f = Inr s"
    by (auto simp: read_source_def list_ex_iff)
  have "\<exists>srcs. read_sources environment (known @ [s]) fs = Inr srcs"
    using Cons.prems read_source_ok(1) [OF s] by (intro Cons.IH) auto
  then show ?case using s by simp
qed

lemma parse_config_sound:
  "(case parse_config environment f of
      Inl e \<Rightarrow> faulty environment f
    | Inr cfg \<Rightarrow> \<not> faulty environment f \<and> config_ok cfg \<and>
        map sc_key (cg_sources cfg) = map sf_key (cf_source f))"
proof (cases "read_sources environment [] (cf_source f)")
  case (Inl e)
  then have "\<not> distinct (map sf_key (cf_source f)) \<or>
      \<not> (\<forall>s\<in>set (cf_source f). \<exists>secret. environment (sf_key_env s) = Some secret \<and> trim secret \<noteq> [])"
    using read_sources_total [of "[]" "cf_source f" environment] by auto
  then have "faulty environment f" by (fastforce simp: faulty_def split: option.splits)
  then show ?thesis by (simp add: parse_config_def Inl)
next
  case (Inr srcs)
  note r = read_sources_ok [OF Inr, simplified]
  have keys: "map sc_key srcs = map sf_key (cf_source f)"
    using r by (metis (no_types, lifting) fst_conv map_eq_conv map_map comp_apply)
  have kinds: "(\<exists>s\<in>set srcs. sc_key s = key \<and> sc_kind s = LiteLlm) \<longleftrightarrow>
      (\<exists>s\<in>set (cf_source f). sf_key s = key \<and> sf_kind s = LiteLlm)" for key
  proof -
    have "(key, LiteLlm) \<in> set (map (\<lambda>s. (sc_key s, sc_kind s)) srcs) \<longleftrightarrow>
        (key, LiteLlm) \<in> set (map (\<lambda>s. (sf_key s, sf_kind s)) (cf_source f))"
      using r by simp
    then show ?thesis by force
  qed
  let ?bad = "filter_option (\<lambda>key. \<not> list_ex (\<lambda>s. sc_key s = key \<and> sc_kind s = LiteLlm) srcs)
      (pc_litellm_source (read_pricing (cf_pricing f)))"
  show ?thesis
  proof (cases ?bad)
    case None
    have "\<not> faulty environment f"
      using r keys kinds None by (fastforce simp: faulty_def list_ex_iff filter_option_def split: option.splits if_splits)
    moreover have "config_ok \<lparr>cg_sources = srcs, cg_pricing = read_pricing (cf_pricing f)\<rparr>"
      using r None by (auto simp: config_ok_def source_ok_def list_ex_iff filter_option_def split: option.splits if_splits)
    ultimately show ?thesis using keys by (simp add: parse_config_def Inr None)
  next
    case (Some key)
    then have "faulty environment f"
      using kinds by (fastforce simp: faulty_def list_ex_iff)
    then show ?thesis using Some by (simp add: parse_config_def Inr Let_def)
  qed
qed

text \<open>
  The service starts on a configuration exactly when no key appears twice, every source's
  secret is set and not blank, and the price source is a LiteLLM source of the file; every
  other file is refused with an error. What it starts on has a secret for every source, one
  source per key, and no URL that ends in a slash.\<close>

theorem config_accepted_iff_sound:
  "(case parse_config environment f of
      Inl e \<Rightarrow> faulty environment f
    | Inr cfg \<Rightarrow> \<not> faulty environment f \<and> config_ok cfg \<and>
        map sc_key (cg_sources cfg) = map sf_key (cf_source f))"
  by (rule parse_config_sound)

definition configures :: "source_config \<Rightarrow> source_row \<Rightarrow> bool" where
  "configures c s \<longleftrightarrow>
     s_key s = sc_key c \<and> s_name s = sc_name c \<and> s_kind s = sc_kind c \<and> s_base_url s = sc_base_url c \<and> s_enabled s"

text \<open>The row of a key that the configuration does not name only loses its flag.\<close>

definition synced_row :: "source_config list \<Rightarrow> source_row \<Rightarrow> source_row" where
  "synced_row cs s =
     (case find (\<lambda>c. sc_key c = s_key s) cs of
        Some c \<Rightarrow> s\<lparr>s_name := sc_name c, s_kind := sc_kind c, s_base_url := sc_base_url c, s_enabled := True\<rparr>
      | None \<Rightarrow> s\<lparr>s_enabled := False\<rparr>)"

lemma find_update_where_key:
  assumes "\<And>r. key (f r) = key r"
  shows "find (\<lambda>r. key r = k) (update_where p f rows) =
    map_option (\<lambda>r. if p r then f r else r) (find (\<lambda>r. key r = k) rows)"
  using assms by (induction rows) auto

lemma upsert_sources_find:
  assumes "distinct (map sc_key cs)"
  shows "find (\<lambda>s. s_key s = k) (upsert_sources ids now n cs rows) =
     (case find (\<lambda>c. sc_key c = k) cs of
        None \<Rightarrow> find (\<lambda>s. s_key s = k) rows
      | Some c \<Rightarrow> Some (case find (\<lambda>s. s_key s = k) rows of
            Some old \<Rightarrow> source_merge (configured_row 0 now c) old
          | None \<Rightarrow> configured_row (ids (n + the (position (\<lambda>c. sc_key c = k) cs))) now c))"
  using assms
proof (induction cs arbitrary: n rows)
  case Nil
  then show ?case by simp
next
  case (Cons c cs)
  let ?rows = "upsert s_key source_merge (configured_row (ids n) now c) rows"
  have "distinct (map sc_key cs)" using Cons.prems by simp
  note IH = Cons.IH [OF this, of "n + 1" ?rows]
  show ?case
  proof (cases "sc_key c = k")
    case True
    then have none: "find (\<lambda>c. sc_key c = k) cs = None" using Cons.prems by (auto simp: find_None_iff) (metis image_eqI)
    have key: "s_key (configured_row (ids n) now c) = k" by (simp add: configured_row_def True)
    show ?thesis
      using IH none True configuring.find_upsert_same [of "configured_row (ids n) now c" rows, unfolded key]
      by (simp add: source_merge_def configured_row_def split: option.splits)
  next
    case False
    then have key: "k \<noteq> s_key (configured_row (ids n) now c)" by (auto simp: configured_row_def)
    have pos: "find (\<lambda>c. sc_key c = k) cs = Some x \<Longrightarrow> \<exists>j. position (\<lambda>c. sc_key c = k) cs = Some j" for x
      by (induction cs) (auto split: if_splits)
    show ?thesis
      using IH False configuring.find_upsert_other [OF key, of rows] pos
      by (auto split: option.splits)
  qed
qed

lemma upsert_sources_keys:
  "distinct (map s_key rows) \<Longrightarrow> distinct (map s_key (upsert_sources ids now n cs rows))"
  by (induction cs arbitrary: n rows) (simp_all add: configuring.distinct_upsert)

text \<open>
  C34: After the sources are synced with the configuration, every configured key has one row,
  enabled and with the configuration's name, kind and URL, and it is the row that was there if
  there was one, with its id and its age; every row that the configuration does not name is
  disabled and otherwise as it was. No row is lost.\<close>

theorem sync_matches_config:
  assumes "distinct (map s_key (sources d))" and "distinct (map sc_key (cg_sources cfg))"
  shows "distinct (map s_key (sources (sync_sources ids now cfg d))) \<and>
    find (\<lambda>s. s_key s = k) (sources (sync_sources ids now cfg d)) =
      (case find (\<lambda>s. s_key s = k) (sources d) of
         Some old \<Rightarrow> Some (synced_row (cg_sources cfg) old)
       | None \<Rightarrow> map_option (configured_row (ids (the (position (\<lambda>c. sc_key c = k) (cg_sources cfg)))) now)
           (find (\<lambda>c. sc_key c = k) (cg_sources cfg)))"
proof -
  let ?cs = "cg_sources cfg"
  let ?up = "upsert_sources ids now 0 ?cs (sources d)"
  have rows: "sources (sync_sources ids now cfg d) = disable_others ?cs ?up"
    by (simp add: sync_sources_def record_differences_eq Let_def)
  have keep: "map s_key (disable_others ?cs ?up) = map s_key ?up"
    by (simp add: disable_others_def map_update_where)
  have named: "?cs = [] \<or> s_key s \<notin> sc_key ` set ?cs \<longleftrightarrow> find (\<lambda>c. sc_key c = s_key s) ?cs = None" for s
    by (cases "?cs = []") (force simp: find_None_iff)+
  have found: "find (\<lambda>s. s_key s = k) (disable_others ?cs ?up) =
      map_option (\<lambda>s. if s_enabled s \<and> find (\<lambda>c. sc_key c = s_key s) ?cs = None
        then s\<lparr>s_enabled := False\<rparr> else s) (find (\<lambda>s. s_key s = k) ?up)"
    unfolding disable_others_def named by (rule find_update_where_key) simp
  have "find (\<lambda>s. s_key s = k) (disable_others ?cs ?up) =
      (case find (\<lambda>s. s_key s = k) (sources d) of
         Some old \<Rightarrow> Some (synced_row ?cs old)
       | None \<Rightarrow> map_option (configured_row (ids (the (position (\<lambda>c. sc_key c = k) ?cs))) now)
           (find (\<lambda>c. sc_key c = k) ?cs))"
  proof (cases "find (\<lambda>c. sc_key c = k) ?cs")
    case None
    then show ?thesis
      unfolding found upsert_sources_find [OF assms(2)]
      by (cases "find (\<lambda>s. s_key s = k) (sources d)")
        (auto simp: synced_row_def dest: find_Some_set)
  next
    case (Some c)
    then have "sc_key c = k" by (auto dest: find_Some_set)
    show ?thesis
    proof (cases "find (\<lambda>s. s_key s = k) (sources d)")
      case None
      then show ?thesis
        unfolding found upsert_sources_find [OF assms(2)] using \<open>sc_key c = k\<close> Some
        by (simp add: configured_row_def)
    next
      case old: (Some old)
      then have "s_key old = k" by (auto dest: find_Some_set)
      then show ?thesis
        unfolding found upsert_sources_find [OF assms(2)] using Some old
        by (simp add: synced_row_def source_merge_def configured_row_def)
    qed
  qed
  then show ?thesis using assms(1) by (simp add: rows keep upsert_sources_keys)
qed

definition two_sources :: db where
  "two_sources = empty_db\<lparr>sources :=
     [\<lparr>s_id = 1, s_key = ''old'', s_name = ''Old'', s_kind = LiteLlm, s_base_url = ''http://a'',
       s_enabled = True, s_created_at = 0\<rparr>,
      \<lparr>s_id = 2, s_key = ''home'', s_name = ''Home'', s_kind = CliProxy, s_base_url = ''http://b'',
       s_enabled = False, s_created_at = 5\<rparr>]\<rparr>"

definition home_config :: config where
  "home_config =
     \<lparr>cg_sources = [\<lparr>sc_key = ''home'', sc_name = ''House'', sc_kind = CliProxy,
        sc_base_url = ''http://c'', sc_secret = ''s''\<rparr>],
      cg_pricing = read_pricing None\<rparr>"

theorem sync_matches_config_witness:
  "find (\<lambda>s. s_key s = ''home'') (sources (sync_sources (\<lambda>n. 7) 9 home_config two_sources)) =
     Some \<lparr>s_id = 2, s_key = ''home'', s_name = ''House'', s_kind = CliProxy, s_base_url = ''http://c'',
           s_enabled = True, s_created_at = 5\<rparr>"
proof -
  have "distinct (map s_key (sources two_sources))" "distinct (map sc_key (cg_sources home_config))"
    by (simp_all add: two_sources_def home_config_def)
  from sync_matches_config [OF this, of "\<lambda>n. 7" 9 "''home''"] show ?thesis
    by (simp add: two_sources_def home_config_def synced_row_def)
qed

end
