(* ===== verification/Credentials.thy ===== *)
theory Credentials
  imports Gateway Responses
begin

text \<open>
  What the gateway last said about a credential and what its provider last said through it
  (\<^verbatim>\<open>src/quota/credential.rs\<close>), the manual reset grants (\<^verbatim>\<open>src/quota/manual_reset.rs\<close>), the
  retries of expired sign-ins (\<^verbatim>\<open>src/quota/recovery.rs\<close>), the sign-in reads
  (\<^verbatim>\<open>src/quota/sign_in.rs\<close>) and the list of a credential's windows
  (\<^verbatim>\<open>src/quota/window.rs\<close>). The URL library is the record \<open>url_library\<close>.
\<close>

section \<open>The credential row\<close>

definition claimed_plan :: "entry \<Rightarrow> string option" where
  "claimed_plan e =
     map_option to_lower (filter_option (\<lambda>p. p \<noteq> []) (map_option trim
       (Option.bind (Option.bind (en_id_token e) (get ''plan_type'')) as_str)))"

definition observed_row :: "id \<Rightarrow> entry \<Rightarrow> instant \<Rightarrow> bool \<Rightarrow> credential_row" where
  "observed_row i e observed_at hard_refreshable =
     \<lparr>c_account = i, c_status = present (en_status e), c_status_message = present (en_status_message e),
      c_disabled = en_disabled e, c_unavailable = en_unavailable e, c_next_retry = en_next_retry e,
      c_cooldowns = unwrap_or [] (en_cooldowns e), c_type = present (en_account_type e),
      c_plan = claimed_plan e, c_soft_at = Some observed_at, c_hard_at = None, c_hard_error = None,
      c_hard_refreshable = hard_refreshable, c_removed = None, c_sign_in = None\<rparr>"

text \<open>\<^verbatim>\<open>COALESCE(soft_observed_at, '')\<close>: a row that was never observed is older than any list.\<close>

definition soft_stale :: "credential_row \<Rightarrow> credential_row \<Rightarrow> bool" where
  "soft_stale new old =
     (case c_soft_at old of None \<Rightarrow> False
      | Some stored \<Rightarrow> (case c_soft_at new of None \<Rightarrow> True | Some t \<Rightarrow> t < stored))"

definition observe_merge :: "credential_row \<Rightarrow> credential_row \<Rightarrow> credential_row" where
  "observe_merge new old =
     (if soft_stale new old then old
      else old\<lparr>c_status := c_status new, c_status_message := c_status_message new,
               c_disabled := c_disabled new, c_unavailable := c_unavailable new,
               c_next_retry := c_next_retry new, c_cooldowns := c_cooldowns new,
               c_type := c_type new, c_plan := or_else (c_plan new) (c_plan old),
               c_soft_at := c_soft_at new, c_hard_refreshable := c_hard_refreshable new,
               c_removed := None\<rparr>)"

interpretation observing: keyed_upsert c_account observe_merge
  by unfold_locales (simp add: observe_merge_def)

definition observe_credential :: "id \<Rightarrow> auth_file \<Rightarrow> instant \<Rightarrow> bool \<Rightarrow> db \<Rightarrow> db" where
  "observe_credential i f observed_at hard_refreshable d =
     d\<lparr>credentials := upsert c_account observe_merge
         (observed_row i (af_entry f) observed_at hard_refreshable) (credentials d)\<rparr>"

definition unlisted :: "db \<Rightarrow> id \<Rightarrow> instant \<Rightarrow> credential_row \<Rightarrow> bool" where
  "unlisted d source observed_at c \<longleftrightarrow>
     c_removed c = None \<and> (case c_soft_at c of None \<Rightarrow> False | Some t \<Rightarrow> t < observed_at) \<and>
     (\<exists>a\<in>set (accounts d). a_id a = c_account c \<and> a_source a = source)"

definition mark_unlisted :: "id \<Rightarrow> instant \<Rightarrow> db \<Rightarrow> db" where
  "mark_unlisted source observed_at d =
     d\<lparr>credentials := update_where (unlisted d source observed_at)
         (\<lambda>c. c\<lparr>c_removed := Some observed_at\<rparr>) (credentials d)\<rparr>"

definition refreshed_row :: "instant \<Rightarrow> refresh_error + string option \<Rightarrow> credential_row \<Rightarrow> credential_row" where
  "refreshed_row at_time outcome c =
     (case outcome of
        Inr plan \<Rightarrow> c\<lparr>c_hard_at := Some at_time, c_hard_error := None, c_sign_in := None,
                      c_plan := or_else plan (c_plan c)\<rparr>
      | Inl e \<Rightarrow> c\<lparr>c_hard_at := Some at_time, c_hard_error := Some (refresh_error_text e),
                    c_sign_in := or_else (if e = SignInExpired then Some Expired else None) (c_sign_in c)\<rparr>)"

definition refreshed :: "id \<Rightarrow> instant \<Rightarrow> refresh_error + string option \<Rightarrow> db \<Rightarrow> db" where
  "refreshed i at_time outcome d =
     d\<lparr>credentials := update_where (\<lambda>c. c_account c = i) (refreshed_row at_time outcome) (credentials d)\<rparr>"

section \<open>Manual reset grants\<close>

definition unexpired :: "instant \<Rightarrow> grant \<Rightarrow> bool" where
  "unexpired now g = (case g_expires_at g of None \<Rightarrow> True | Some t \<Rightarrow> now < t)"

definition list_unexpired :: "db \<Rightarrow> id option \<Rightarrow> instant \<Rightarrow> (id \<times> grant) list" where
  "list_unexpired d source now =
     sort_key (\<lambda>(i, g). (i, g_expires_at g = None, g_expires_at g))
       (filter (\<lambda>(i, g). unexpired now g)
         [(i, g). (i, g) \<leftarrow> grants d, a \<leftarrow> accounts d, a_id a = i \<and> bound_eq source (a_source a)])"

definition replace_grants :: "id \<Rightarrow> grant list \<Rightarrow> db \<Rightarrow> db" where
  "replace_grants i gs d = d\<lparr>grants := delete_where (\<lambda>(j, _). j = i) (grants d) @ map (Pair i) gs\<rparr>"

definition unexpired_count :: "db \<Rightarrow> id \<Rightarrow> instant \<Rightarrow> int" where
  "unexpired_count d i now =
     (\<Sum>(j, g) \<leftarrow> filter (\<lambda>(j, g). j = i \<and> unexpired now g) (grants d). g_remaining g)"

definition clear_grants :: "id \<Rightarrow> db \<Rightarrow> db" where
  "clear_grants i d = d\<lparr>grants := delete_where (\<lambda>(j, _). j = i) (grants d)\<rparr>"

section \<open>Sign-ins\<close>

record 'u url_library =
  ur_parse :: "string \<Rightarrow> 'u option"
  ur_scheme :: "'u \<Rightarrow> string"
  ur_username :: "'u \<Rightarrow> string"
  ur_password :: "'u \<Rightarrow> string option"
  ur_path :: "'u \<Rightarrow> string"
  ur_page :: "'u \<Rightarrow> string \<Rightarrow> string \<Rightarrow> string"

record reauthentication =
  ra_url :: string
  ra_button :: string

fun sign_in_hint :: "provider \<Rightarrow> string" where
  "sign_in_hint Claude = ''the \"Claude\" tile, then \"Start Anthropic Login\"''"
| "sign_in_hint Codex = ''the \"Codex\" tile, then \"Start Codex Login\"''"
| "sign_in_hint Antigravity = ''the \"Antigravity\" tile, then \"Start Antigravity Login\"''"
| "sign_in_hint Kimi = ''the \"Kimi China\" or \"Kimi International\" tile, then its login button''"
| "sign_in_hint Devin = ''the \"Devin\" tile, then \"Start Devin Login\"''"
| "sign_in_hint Xai = ''the \"xAI\" tile, then \"Start xAI Login\"''"
| "sign_in_hint Meta = ''the \"Muse (Meta)\" tile, then \"Log in with Muse\"''"

text \<open>The page is the URL with the path and the fragment set and the query cleared.\<close>

definition reauthenticate :: "'u url_library \<Rightarrow> string \<Rightarrow> string \<Rightarrow> reauthentication option" where
  "reauthenticate ul base_url name = do {
     p \<leftarrow> provider_parse name;
     url \<leftarrow> ur_parse ul base_url;
     if (ur_scheme ul url \<noteq> ''http'' \<and> ur_scheme ul url \<noteq> ''https'') \<or> ur_username ul url \<noteq> [] \<or>
        ur_password ul url \<noteq> None
     then None
     else Some \<lparr>ra_url = ur_page ul url
                  (rev (dropWhile (\<lambda>c. c = CHR ''/'') (rev (ur_path ul url))) @ ''/management.html'') ''/oauth'',
                ra_button = sign_in_hint p\<rparr> }"

definition joined :: "db \<Rightarrow> (credential_row \<times> account_row \<times> source_row) list" where
  "joined d = [(c, a, s). c \<leftarrow> credentials d, a \<leftarrow> accounts d, a_id a = c_account c,
                s \<leftarrow> sources d, s_id s = a_source a]"

definition sign_ins ::
  "'u url_library \<Rightarrow> db \<Rightarrow> id option \<Rightarrow> (id \<times> sign_in_error option \<times> reauthentication option) list" where
  "sign_ins ul d only =
     collect_map (map (\<lambda>(c, a, s). (c_account c, c_sign_in c,
         if c_sign_in c \<noteq> None then reauthenticate ul (s_base_url s) (a_provider a) else None))
       (filter (\<lambda>(c, a, s). bound_eq only (c_account c)) (joined d)))"

definition sign_in_recoverable :: "credential_row \<times> account_row \<times> source_row \<Rightarrow> bool" where
  "sign_in_recoverable row =
     (case row of (c, a, s) \<Rightarrow>
       c_sign_in c \<noteq> None \<and> c_removed c = None \<and> \<not> c_disabled c \<and> c_hard_refreshable c \<and> s_enabled s)"

definition expired_sign_ins :: "db \<Rightarrow> id list" where
  "expired_sign_ins d = map (\<lambda>(c, a, s). c_account c) (filter sign_in_recoverable (joined d))"

section \<open>Retries of an expired sign-in\<close>

definition INITIAL_DELAY :: int where "INITIAL_DELAY = 180"

definition MAX_DELAY :: int where "MAX_DELAY = 6 * 60 * 60"

definition MAX_ATTEMPTS :: int where "MAX_ATTEMPTS = 8"

definition retry_delay :: "int \<Rightarrow> int" where
  "retry_delay attempts = min (INITIAL_DELAY * 2 ^ nat attempts) MAX_DELAY"

definition recovery_of :: "db \<Rightarrow> id \<Rightarrow> recovery_row option" where
  "recovery_of d i = find (\<lambda>r. r_account r = i) (recoveries d)"

definition may_recover :: "db \<Rightarrow> id \<Rightarrow> bool" where
  "may_recover d i =
     (case find (\<lambda>(c, a, s). c_account c = i \<and> sign_in_recoverable (c, a, s)) (joined d) of
        None \<Rightarrow> False
      | Some (c, a, s) \<Rightarrow>
          (case provider_parse (a_provider a) of None \<Rightarrow> False | Some p \<Rightarrow> allows_automatic_recovery p))"

definition claim_due :: "db \<Rightarrow> id \<Rightarrow> instant \<Rightarrow> bool \<times> db" where
  "claim_due d i now =
     (if \<not> may_recover d i then (False, d)
      else
        let d1 = (if recovery_of d i = None
                  then d\<lparr>recoveries := recoveries d @
                    [\<lparr>r_account = i, r_attempts = 0,
                      r_next_attempt_at = now + INITIAL_DELAY * ns_per_second\<rparr>]\<rparr>
                  else d)
        in case recovery_of d1 i of
             None \<Rightarrow> (False, d1)
           | Some r \<Rightarrow>
               if r_next_attempt_at r \<le> now
               then (let attempts = min (r_attempts r + 1) MAX_ATTEMPTS
                     in (True, d1\<lparr>recoveries := update_where (\<lambda>r. r_account r = i)
                          (\<lambda>r. r\<lparr>r_attempts := attempts,
                                 r_next_attempt_at := now + retry_delay attempts * ns_per_second\<rparr>)
                          (recoveries d1)\<rparr>))
               else (False, d1))"

definition forget_recovery :: "id \<Rightarrow> db \<Rightarrow> db" where
  "forget_recovery i d = d\<lparr>recoveries := delete_where (\<lambda>r. r_account r = i) (recoveries d)\<rparr>"

section \<open>Reading credentials\<close>

text \<open>The windows of the accounts of a source with what they predict, the marker first.\<close>

definition list_windows ::
  "db \<Rightarrow> id option \<Rightarrow> instant \<Rightarrow> (window_row \<times> calibration option \<times> prediction option option) list" where
  "list_windows d source now =
     map (\<lambda>w. (w, learn d w now, predict d w now))
       (sort_key (\<lambda>w. (w_account w, w_key w \<noteq> WINDOW_KEY))
         (filter (\<lambda>w. w_key w \<noteq> WINDOW_KEY \<or> (case w_resets_at w of None \<Rightarrow> False | Some t \<Rightarrow> now < t))
           [w. w \<leftarrow> windows d, a \<leftarrow> accounts d, a_id a = w_account w \<and> bound_eq source (a_source a)]))"

record quota_account =
  qt_account :: account_row
  qt_source :: source_row
  qt_credential :: credential_row
  qt_reauthentication :: "reauthentication option"
  qt_last_used_at :: "instant option"
  qt_windows :: "(window_row \<times> calibration option \<times> prediction option option) list"
  qt_manual_resets :: "grant list"

definition last_used_at :: "db \<Rightarrow> id \<Rightarrow> instant option" where
  "last_used_at d i =
     (case map (\<lambda>e. u_occurred_at (e_usage e)) (filter (\<lambda>e. e_account e = i) (events d)) of
        [] \<Rightarrow> None | t # ts \<Rightarrow> Some (fold max ts t))"

definition list_quota_accounts :: "'u url_library \<Rightarrow> db \<Rightarrow> id option \<Rightarrow> instant \<Rightarrow> quota_account list" where
  "list_quota_accounts ul d source now =
     (let ws = list_windows d source now; gs = list_unexpired d source now
      in map (\<lambda>(c, a, s).
           \<lparr>qt_account = a, qt_source = s, qt_credential = c,
            qt_reauthentication = (if c_sign_in c \<noteq> None
              then reauthenticate ul (s_base_url s) (a_provider a) else None),
            qt_last_used_at = last_used_at d (a_id a),
            qt_windows = filter (\<lambda>(w, _). w_account w = a_id a) ws,
            qt_manual_resets = map snd (filter (\<lambda>(i, _). i = a_id a) gs)\<rparr>)
         (sort_key (\<lambda>(c, a, s). (s_name s, a_provider a, a_label a, a_id a))
           (filter (\<lambda>(c, a, s). a_merged a = None \<and> bound_eq source (a_source a)) (joined d))))"

definition spends_resets :: "quota_account \<Rightarrow> bool" where
  "spends_resets q =
     (case provider_parse (a_provider (qt_account q)) of None \<Rightarrow> False | Some p \<Rightarrow> spends_manual_resets p)"

section \<open>Properties\<close>

text \<open>
  The ticks of the recovery task: before each, anything else may have happened to the
  database. The instants at which the account was claimed.
\<close>

fun run_claims :: "id \<Rightarrow> ((db \<Rightarrow> db) \<times> instant) list \<Rightarrow> db \<Rightarrow> instant list" where
  "run_claims i [] d = []"
| "run_claims i ((f, t) # ticks) d =
     (case claim_due (f d) i t of (due, d') \<Rightarrow> (if due then [t] else []) @ run_claims i ticks d')"

definition attempts_of :: "db \<Rightarrow> id \<Rightarrow> int" where
  "attempts_of d i = (case recovery_of d i of None \<Rightarrow> 0 | Some r \<Rightarrow> r_attempts r)"

definition deadline_met :: "db \<Rightarrow> id \<Rightarrow> instant list \<Rightarrow> bool" where
  "deadline_met d i claimed =
     (case (recovery_of d i, claimed) of (Some r, t # _) \<Rightarrow> r_next_attempt_at r \<le> t | _ \<Rightarrow> True)"

lemma deadline_met_Cons: "deadline_met d i (t # ts) = deadline_met d i [t]"
  by (simp add: deadline_met_def split: option.splits)

lemma recovery_of_update:
  "recovery_of (d\<lparr>recoveries := update_where (\<lambda>r. r_account r = i)
     (\<lambda>r. r\<lparr>r_attempts := n, r_next_attempt_at := t\<rparr>) rows\<rparr>) i =
   map_option (\<lambda>r. r\<lparr>r_attempts := n, r_next_attempt_at := t\<rparr>) (find (\<lambda>r. r_account r = i) rows)"
  unfolding recovery_of_def by (induction rows) auto

lemma claimed_row:
  assumes "claim_due d i t = (True, d')"
  obtains r where "recovery_of d' i = Some r" and "r_attempts r = min (attempts_of d i + 1) MAX_ATTEMPTS"
    and "r_next_attempt_at r = t + retry_delay (r_attempts r) * ns_per_second"
    and "deadline_met d i [t]"
proof -
  show ?thesis
  proof (cases "recovery_of d i")
    case None
    then have "\<not> t + INITIAL_DELAY * ns_per_second \<le> t" by (simp add: INITIAL_DELAY_def)
    then have False using assms None
      by (auto simp: claim_due_def Let_def recovery_of_def find_append split: if_splits)
    then show ?thesis ..
  next
    case (Some r)
    then have due: "r_next_attempt_at r \<le> t"
      and d': "d' = d\<lparr>recoveries := update_where (\<lambda>r. r_account r = i)
        (\<lambda>s. s\<lparr>r_attempts := min (r_attempts r + 1) MAX_ATTEMPTS,
          r_next_attempt_at := t + retry_delay (min (r_attempts r + 1) MAX_ATTEMPTS) * ns_per_second\<rparr>)
        (recoveries d)\<rparr>"
      using assms by (auto simp: claim_due_def Let_def split: if_splits)
    have "find (\<lambda>r. r_account r = i) (recoveries d) = Some r" using Some by (simp add: recovery_of_def)
    then show ?thesis
      by (intro that [of "r\<lparr>r_attempts := min (r_attempts r + 1) MAX_ATTEMPTS,
          r_next_attempt_at := t + retry_delay (min (r_attempts r + 1) MAX_ATTEMPTS) * ns_per_second\<rparr>"])
        (simp_all add: d' recovery_of_update attempts_of_def Some deadline_met_def due)
  qed
qed

lemma unclaimed_row:
  assumes "claim_due d i t = (False, d')"
  shows "attempts_of d' i = attempts_of d i" and "recovery_of d i \<noteq> None \<Longrightarrow> recovery_of d' i = recovery_of d i"
  using assms
  by (auto simp: claim_due_def Let_def attempts_of_def recovery_of_def find_append split: if_splits option.splits)

definition gaps :: "int \<Rightarrow> instant list \<Rightarrow> bool" where
  "gaps a claimed \<longleftrightarrow>
     (\<forall>k. Suc k < length claimed \<longrightarrow>
        claimed ! k + retry_delay (min (a + int k + 1) MAX_ATTEMPTS) * ns_per_second \<le> claimed ! Suc k)"

lemma gaps_Cons:
  "gaps a (t # ts) \<longleftrightarrow>
     (ts = [] \<or> t + retry_delay (min (a + 1) MAX_ATTEMPTS) * ns_per_second \<le> hd ts) \<and> gaps (a + 1) ts"
proof -
  have "gaps a (t # ts) \<longleftrightarrow> (\<forall>k. k < length ts \<longrightarrow>
      (t # ts) ! k + retry_delay (min (a + int k + 1) MAX_ATTEMPTS) * ns_per_second \<le> ts ! k)"
    by (simp add: gaps_def)
  also have "\<dots> \<longleftrightarrow> (ts = [] \<or> t + retry_delay (min (a + 1) MAX_ATTEMPTS) * ns_per_second \<le> hd ts) \<and>
      (\<forall>k. Suc k < length ts \<longrightarrow>
        ts ! k + retry_delay (min (a + int (Suc k) + 1) MAX_ATTEMPTS) * ns_per_second \<le> ts ! Suc k)"
    (is "?L \<longleftrightarrow> ?R")
  proof
    assume ?L
    then show ?R by (cases ts) (fastforce simp: hd_conv_nth)+
  next
    assume ?R
    then show ?L
      by (intro allI) (rename_tac k, case_tac k, auto simp: hd_conv_nth)
  qed
  finally show ?thesis by (simp add: gaps_def algebra_simps)
qed

lemma gaps_saturated: "MAX_ATTEMPTS \<le> a \<Longrightarrow> MAX_ATTEMPTS \<le> b \<Longrightarrow> gaps a ts \<longleftrightarrow> gaps b ts"
  by (simp add: gaps_def min_def)

lemma run_claims_gaps:
  assumes "\<forall>(f, t)\<in>set ticks. \<forall>d. recovery_of (f d) i = recovery_of d i"
  shows "gaps (attempts_of d i) (run_claims i ticks d) \<and> deadline_met d i (run_claims i ticks d)"
  using assms
proof (induction ticks arbitrary: d)
  case Nil
  then show ?case by (simp add: gaps_def deadline_met_def split: option.splits)
next
  case (Cons tick ticks)
  obtain f t where tick: "tick = (f, t)" by (cases tick)
  have keep: "recovery_of (f d) i = recovery_of d i" using Cons.prems tick by simp
  then have a: "attempts_of (f d) i = attempts_of d i" by (simp add: attempts_of_def)
  obtain due d' where c: "claim_due (f d) i t = (due, d')" by fastforce
  have IH: "gaps (attempts_of d' i) (run_claims i ticks d')" "deadline_met d' i (run_claims i ticks d')"
    using Cons by auto
  show ?case
  proof (cases due)
    case True
    with c have c': "claim_due (f d) i t = (True, d')" by simp
    obtain r where r: "recovery_of d' i = Some r" "r_attempts r = min (attempts_of d i + 1) MAX_ATTEMPTS"
      "r_next_attempt_at r = t + retry_delay (r_attempts r) * ns_per_second" "deadline_met (f d) i [t]"
      by (rule claimed_row [OF c']) (simp add: a)
    have "gaps (attempts_of d i + 1) (run_claims i ticks d')"
      using IH(1) r(1,2) gaps_saturated [of "min (attempts_of d i + 1) MAX_ATTEMPTS" "attempts_of d i + 1"]
      by (cases "attempts_of d i + 1 \<le> MAX_ATTEMPTS") (auto simp: attempts_of_def min_def)
    moreover have "run_claims i ticks d' = [] \<or>
        t + retry_delay (min (attempts_of d i + 1) MAX_ATTEMPTS) * ns_per_second \<le> hd (run_claims i ticks d')"
      using IH(2) r by (cases "run_claims i ticks d'") (auto simp: deadline_met_def)
    ultimately show ?thesis
      using r(4) keep deadline_met_Cons [of d i t "run_claims i ticks d'"]
      by (simp add: tick c True gaps_Cons) (simp add: deadline_met_def)
  next
    case False
    with c have c': "claim_due (f d) i t = (False, d')" by simp
    show ?thesis
      using IH unclaimed_row [OF c'] keep a
      by (auto simp: tick c False deadline_met_def split: option.splits)
  qed
qed

text \<open>
  C28: However often the recovery task runs, and whatever else is stored in between, two
  retries of one expired sign-in are at least the doubled delay apart: after k retries 180
  seconds times two to the k, and six hours once that is reached. Only a successful read,
  which deletes the row, starts over.\<close>

theorem recovery_backs_off:
  assumes "\<forall>(f, t)\<in>set ticks. \<forall>d. recovery_of (f d) i = recovery_of d i"
    and "Suc k < length (run_claims i ticks d)"
  shows "run_claims i ticks d ! k +
      min (180 * 2 ^ nat (min (attempts_of d i + int k + 1) 8)) 21600 * ns_per_second
    \<le> run_claims i ticks d ! Suc k"
  using run_claims_gaps [OF assms(1), of d] assms(2)
  by (simp add: gaps_def retry_delay_def INITIAL_DELAY_def MAX_DELAY_def MAX_ATTEMPTS_def)

definition expired_db :: db where
  "expired_db = empty_db
     \<lparr>sources := [\<lparr>s_id = 1, s_key = ''main'', s_name = ''Main'', s_kind = CliProxy,
        s_base_url = ''http://gateway'', s_enabled = True, s_created_at = 0\<rparr>],
      accounts := [\<lparr>a_id = 2, a_source = 1, a_provider = ''claude'', a_key = ''k'', a_auth = OAuth,
        a_label = None, a_display = None, a_merged = None, a_first = 0, a_last = 0\<rparr>],
      credentials := [\<lparr>c_account = 2, c_status = None, c_status_message = None, c_disabled = False,
        c_unavailable = False, c_next_retry = None, c_cooldowns = [], c_type = None, c_plan = None,
        c_soft_at = Some 0, c_hard_at = Some 0, c_hard_error = None, c_hard_refreshable = True,
        c_removed = None, c_sign_in = Some Expired\<rparr>]\<rparr>"

definition every_three_minutes :: "nat \<Rightarrow> ((db \<Rightarrow> db) \<times> instant) list" where
  "every_three_minutes n = map (\<lambda>k. (\<lambda>d. d, int k * 180 * ns_per_second)) [0..<n]"

lemma expired_runs: "run_claims 2 (every_three_minutes 9) expired_db = [180000000000, 540000000000, 1260000000000]"
  by code_simp

theorem recovery_backs_off_witness:
  "run_claims 2 (every_three_minutes 9) expired_db ! 1 + 720 * ns_per_second
    \<le> run_claims 2 (every_three_minutes 9) expired_db ! 2"
proof -
  have a: "attempts_of expired_db 2 = 0" by (simp add: attempts_of_def recovery_of_def expired_db_def empty_db_def)
  have "\<forall>(f, t)\<in>set (every_three_minutes 9). \<forall>d. recovery_of (f d) 2 = recovery_of d 2"
    by (auto simp: every_three_minutes_def)
  from recovery_backs_off [OF this, of 1 expired_db] show ?thesis
    by (simp add: expired_runs a min_def)
qed

end
