(* ===== verification/Quota.thy ===== *)
theory Quota
  imports Providers Credentials Sources Ids
begin

text \<open>
  The reads of credentials and quota (\<^verbatim>\<open>src/quota/mod.rs\<close>, \<^verbatim>\<open>src/quota/cooldown.rs\<close>,
  \<^verbatim>\<open>src/quota/reuse.rs\<close>, and \<^verbatim>\<open>spend\<close> of \<^verbatim>\<open>src/quota/manual_reset.rs\<close>): storing a
  credential list, recording what a provider answered, the soft sync, the hard refresh of one
  or all accounts, the cooldown reset and the manual reset. The state is the database, the
  requests sent so far and the number of ids minted. A credential's provider is asked and its
  answer recorded before the next one's; the code asks up to four at once, which no read of
  the database can tell apart. The clock reads the same until the next request is sent.
\<close>

section \<open>State and results\<close>

record quota_state =
  qs_db :: db
  qs_sent :: trace
  qs_minted :: nat

record quota_env =
  qe_codecs :: codecs
  qe_world :: world
  qe_ids :: "nat \<Rightarrow> id"
  qe_config :: config

definition run_io :: "'a io \<Rightarrow> quota_state \<Rightarrow> 'a \<times> quota_state" where
  "run_io m st = (case m (qs_sent st) of (x, sent) \<Rightarrow> (x, st\<lparr>qs_sent := sent\<rparr>))"

definition with_db :: "(db \<Rightarrow> db) \<Rightarrow> quota_state \<Rightarrow> quota_state" where
  "with_db f st = st\<lparr>qs_db := f (qs_db st)\<rparr>"

definition clock :: "quota_env \<Rightarrow> quota_state \<Rightarrow> instant" where
  "clock env st = wo_now (qe_world env) (qs_sent st)"

type_synonym source_failure = "string \<times> management_error"

record shared_action =
  sh_action_id :: int
  sh_requested_by :: string
  sh_requested_at :: string
  sh_finished_at :: string

record refresh =
  rf_refreshed :: int
  rf_failed :: int
  rf_shared :: "shared_action list"
  rf_unreachable :: "source_failure list"

definition no_refresh :: refresh where
  "no_refresh = \<lparr>rf_refreshed = 0, rf_failed = 0, rf_shared = [], rf_unreachable = []\<rparr>"

datatype refresh_request_error =
  DatabaseFailed | UnknownAccount | NotRefreshable | NotListed | SourceUnreachable source_failure

section \<open>Storing a credential list\<close>

definition OAUTH_PROVIDERS :: "string list" where
  "OAUTH_PROVIDERS =
     [''claude'', ''codex'', ''antigravity'', ''gemini'', ''gemini-cli'', ''qwen'', ''iflow'', ''kimi'',
      ''xai'', ''meta'', ''devin'']"

definition listed_index :: "auth_file \<Rightarrow> string option" where
  "listed_index f = filter_option (\<lambda>i. i \<noteq> []) (map_option trim (en_auth_index (af_entry f)))"

definition listed_provider :: "auth_file \<Rightarrow> string" where
  "listed_provider f = unwrap_or ''unknown'' (entry_provider (af_entry f))"

definition listed_kind :: "auth_file \<Rightarrow> auth_kind" where
  "listed_kind f =
     (let kind = map_option trim (en_account_type (af_entry f))
      in if kind = Some ''oauth'' then OAuth
         else if kind = Some ''api_key'' then ApiKey
         else if listed_provider f \<in> set OAUTH_PROVIDERS then OAuth
         else UnknownAuth)"

definition listed_label :: "auth_file \<Rightarrow> string option" where
  "listed_label f =
     find (\<lambda>l. l \<noteq> []) (map trim (List.map_filter id [en_email (af_entry f), en_label (af_entry f)]))"

definition refreshable_provider :: "codecs \<Rightarrow> auth_file \<Rightarrow> provider option" where
  "refreshable_provider cx f =
     filter_option (\<lambda>p. can_refresh cx p f) (provider_parse (listed_provider f))"

type_synonym stored = "id \<times> auth_file \<times> provider option"

definition store_file ::
  "codecs \<Rightarrow> id \<Rightarrow> id \<Rightarrow> instant \<Rightarrow> string \<Rightarrow> auth_file \<Rightarrow> db \<Rightarrow> stored \<times> db" where
  "store_file cx candidate source observed_at index f d =
     (let (i, d1) = register candidate source (listed_provider f)
                      (make_account index (listed_kind f) (listed_label f)) observed_at d;
          p = refreshable_provider cx f
      in ((i, f, p), observe_credential i f observed_at (p \<noteq> None) d1))"

fun store_files ::
  "codecs \<Rightarrow> (nat \<Rightarrow> id) \<Rightarrow> id \<Rightarrow> instant \<Rightarrow> auth_file list \<Rightarrow> nat \<Rightarrow> db \<Rightarrow> stored list \<times> nat \<times> db" where
  "store_files cx ids source observed_at [] n d = ([], n, d)"
| "store_files cx ids source observed_at (f # fs) n d =
     (case listed_index f of
        None \<Rightarrow> store_files cx ids source observed_at fs n d
      | Some index \<Rightarrow>
          (let (s, d1) = store_file cx (ids n) source observed_at index f d;
               (ss, n2, d2) = store_files cx ids source observed_at fs (n + 1) d1
           in (s # ss, n2, d2)))"

definition complete_listing :: "auth_files \<Rightarrow> bool" where
  "complete_listing l \<longleftrightarrow> al_is_complete l \<and> list_all (\<lambda>f. listed_index f \<noteq> None) (al_files l)"

definition store_listing :: "codecs \<Rightarrow> (nat \<Rightarrow> id) \<Rightarrow> id \<Rightarrow> auth_files \<Rightarrow> nat \<Rightarrow> db \<Rightarrow> stored list \<times> nat \<times> db" where
  "store_listing cx ids source l n d =
     (let (ss, n1, d1) = store_files cx ids source (al_observed_at l) (al_files l) n d
      in (ss, n1, if complete_listing l then mark_unlisted source (al_observed_at l) d1 else d1))"

definition store :: "quota_env \<Rightarrow> id \<Rightarrow> auth_files \<Rightarrow> quota_state \<Rightarrow> stored list \<times> quota_state" where
  "store env source l st =
     (let now = clock env st;
          sn = read_snapshot (Source source) Accounts now (qs_db st);
          (ss, n, d) = store_listing (qe_codecs env) (qe_ids env) source l (qs_minted st) (qs_db st)
      in (ss, st\<lparr>qs_db := record_differences now sn d, qs_minted := n\<rparr>))"

section \<open>Recording an answer\<close>

definition reconcile_resets :: "codecs \<Rightarrow> id \<Rightarrow> instant \<Rightarrow> db \<Rightarrow> db" where
  "reconcile_resets cx i at_time d =
     d\<lparr>actions := update_where
         (\<lambda>q. qa_kind q = ''quota_reset'' \<and> qa_account q = Some (encode_id i) \<and> qa_finished_at q = None)
         (\<lambda>q. q\<lparr>qa_finished_at := Some (cx_print_instant cx at_time),
                qa_outcome := Some ''reconciled_unknown'', qa_shared := False\<rparr>) (actions d)\<rparr>"

definition record_answer ::
  "codecs \<Rightarrow> id \<Rightarrow> refresh_error + observation \<Rightarrow> instant \<Rightarrow> bool \<Rightarrow> db \<Rightarrow> db option" where
  "record_answer cx i answered at_time reconcile d =
     (case answered of
        Inl e \<Rightarrow> Some (refreshed i at_time (Inl e) d)
      | Inr ob \<Rightarrow>
          map_option
            (\<lambda>d1. refreshed i at_time (Inr (ob_plan ob))
              (case ob_manual_resets ob of
                 Unchanged \<Rightarrow> d1
               | Reported gs \<Rightarrow>
                   (let d2 = replace_grants i gs d1
                    in if reconcile then reconcile_resets cx i at_time d2 else d2)))
            (replace_windows i (ob_windows ob) at_time (forget_recovery i d)))"

text \<open>A row that breaks the key of the windows rolls the whole write back.\<close>

definition record_result ::
  "quota_env \<Rightarrow> id \<Rightarrow> refresh_error + observation \<Rightarrow> instant \<Rightarrow> bool \<Rightarrow> quota_state \<Rightarrow> quota_state option" where
  "record_result env i answered at_time reconcile st =
     (let now = clock env st;
          sn = read_snapshot (Account i) Quota now (qs_db st)
      in map_option (\<lambda>d. st\<lparr>qs_db := record_differences now sn d\<rparr>)
           (record_answer (qe_codecs env) i answered at_time reconcile (qs_db st)))"

section \<open>Sources and the soft sync\<close>

definition quota_sources :: "quota_env \<Rightarrow> id option \<Rightarrow> db \<Rightarrow> (source_output \<times> source_config) list" where
  "quota_sources env only d =
     List.map_filter
       (\<lambda>c. if sc_kind c \<noteq> CliProxy then None
            else map_option (\<lambda>s. (s, c))
              (filter_option (\<lambda>s. s_enabled (so_row s) \<and> bound_eq only (s_id (so_row s)))
                (source_by_key d (sc_key c))))
       (cg_sources (qe_config env))"

fun sync_each :: "quota_env \<Rightarrow> (source_output \<times> source_config) list \<Rightarrow> quota_state \<Rightarrow> source_failure list \<times> quota_state" where
  "sync_each env [] st = ([], st)"
| "sync_each env ((s, c) # rest) st =
     (case run_io (list_auth_files (qe_codecs env) (qe_world env)) st of
        (Inr l, st1) \<Rightarrow> sync_each env rest (snd (store env (s_id (so_row s)) l st1))
      | (Inl e, st1) \<Rightarrow>
          (let (fs, st2) = sync_each env rest st1 in ((s_name (so_row s), e) # fs, st2)))"

definition sync :: "quota_env \<Rightarrow> id option \<Rightarrow> quota_state \<Rightarrow> source_failure list \<times> quota_state" where
  "sync env only st = sync_each env (quota_sources env only (qs_db st)) st"

section \<open>Reusing a recent action\<close>

definition REUSE_FOR :: int where "REUSE_FOR = 60"

record reuse =
  ru_action :: shared_action
  ru_failed :: bool

text \<open>SQLite's order of a JSON value against a number: a text is greater, NULL is unknown.\<close>

definition sql_positive :: "json option \<Rightarrow> bool" where
  "sql_positive v =
     (case v of
        None \<Rightarrow> True
      | Some JNull \<Rightarrow> True
      | Some (JInt n) \<Rightarrow> 0 < n
      | Some (JFloat x) \<Rightarrow> 0 < x
      | Some (JBool b) \<Rightarrow> b
      | Some _ \<Rightarrow> True)"

definition sql_zero :: "json option \<Rightarrow> bool" where
  "sql_zero v = (case v of Some (JInt n) \<Rightarrow> n = 0 | Some (JFloat x) \<Rightarrow> x = 0 | Some (JBool b) \<Rightarrow> \<not> b | _ \<Rightarrow> False)"

definition text_at_least :: "string \<Rightarrow> json option \<Rightarrow> bool" where
  "text_at_least bound v = (case v of Some (JString s) \<Rightarrow> bound \<le> s | _ \<Rightarrow> False)"

definition json_of :: "codecs \<Rightarrow> string option \<Rightarrow> json" where
  "json_of cx t = unwrap_or JNull (Option.bind t (cx_json cx))"

definition action_accounts :: "codecs \<Rightarrow> action_row \<Rightarrow> json list" where
  "action_accounts cx q = items (get ''accounts'' (json_of cx (or_else (qa_after q) (qa_body q))))"

definition of_account :: "string \<Rightarrow> json \<Rightarrow> bool" where
  "of_account account a \<longleftrightarrow> pointer [''account'', ''account_id''] a = Some (JString account)"

definition newer_reset :: "db \<Rightarrow> string option \<Rightarrow> action_row \<Rightarrow> bool" where
  "newer_reset d account q \<longleftrightarrow>
     (\<exists>r\<in>set (actions d). qa_kind r = ''quota_reset'' \<and> bound_eq (map_option Some account) (qa_account r) \<and>
        qa_id q < qa_id r)"

definition reuse_failed :: "codecs \<Rightarrow> string \<Rightarrow> action_row \<Rightarrow> json \<Rightarrow> bool" where
  "reuse_failed cx kind q a =
     (if kind = ''hard_refresh'' then field a [''hard_refresh_error''] \<noteq> None
      else let body = json_of cx (qa_body q)
           in sql_positive (get ''failed'' body) \<or> items (get ''source_failures'' body) \<noteq> [])"

definition reusable :: "codecs \<Rightarrow> db \<Rightarrow> string \<Rightarrow> string \<Rightarrow> instant \<Rightarrow> action_row \<times> json \<Rightarrow> bool" where
  "reusable cx d kind account requested_at row =
     (case row of (q, a) \<Rightarrow>
        qa_shared q \<and> qa_status q \<noteq> None \<and>
        (case qa_finished_at q of None \<Rightarrow> False
         | Some t \<Rightarrow> cx_print_instant cx (requested_at - REUSE_FOR * ns_per_second) \<le> t) \<and>
        (qa_kind q = kind \<or> kind = ''hard_refresh'' \<and> qa_kind q = ''quota_reset'') \<and>
        of_account account a \<and>
        (kind \<noteq> ''cooldown_reset'' \<or> sql_zero (get ''disabled'' a)) \<and>
        (kind \<noteq> ''hard_refresh'' \<or>
           text_at_least (qa_requested_at q) (get ''hard_refreshed_at'' a) \<and> \<not> newer_reset d (Some account) q))"

definition reuse_recent :: "codecs \<Rightarrow> db \<Rightarrow> string \<Rightarrow> id \<Rightarrow> instant \<Rightarrow> reuse option" where
  "reuse_recent cx d kind i requested_at =
     (case filter (reusable cx d kind (encode_id i) requested_at)
             [(q, a). q \<leftarrow> rev (sort_key qa_id (actions d)), a \<leftarrow> action_accounts cx q] of
        [] \<Rightarrow> None
      | (q, a) # _ \<Rightarrow> Some
          \<lparr>ru_action = \<lparr>sh_action_id = qa_id q, sh_requested_by = qa_requested_by q,
             sh_requested_at = qa_requested_at q, sh_finished_at = unwrap_or [] (qa_finished_at q)\<rparr>,
           ru_failed = reuse_failed cx kind q a\<rparr>)"

definition count_result :: "bool \<Rightarrow> refresh \<Rightarrow> refresh" where
  "count_result failed r =
     (if failed then r\<lparr>rf_failed := rf_failed r + 1\<rparr> else r\<lparr>rf_refreshed := rf_refreshed r + 1\<rparr>)"

definition count_reuse :: "reuse \<Rightarrow> refresh \<Rightarrow> refresh" where
  "count_reuse u r =
     (let r1 = count_result (ru_failed u) r in r1\<lparr>rf_shared := rf_shared r1 @ [ru_action u]\<rparr>)"

section \<open>The hard refresh\<close>

definition refresh_targets ::
  "id option \<Rightarrow> bool \<Rightarrow> stored list \<Rightarrow> (id \<times> auth_file \<times> provider) list" where
  "refresh_targets only automatic ss =
     filter (\<lambda>(i, f, p). \<not> automatic \<or> allows_automatic_recovery p)
       (List.map_filter (\<lambda>(i, f, p). map_option (\<lambda>p. (i, f, p)) p)
         (filter (\<lambda>(i, f, p). bound_eq only i) ss))"

fun split_reused ::
  "(id \<Rightarrow> reuse option) \<Rightarrow> (id \<times> auth_file \<times> provider) list \<Rightarrow> refresh \<Rightarrow>
    (id \<times> auth_file \<times> provider) list \<times> refresh" where
  "split_reused recent [] r = ([], r)"
| "split_reused recent ((i, f, p) # rest) r =
     (case recent i of
        Some u \<Rightarrow> split_reused recent rest (count_reuse u r)
      | None \<Rightarrow> (let (fresh, r1) = split_reused recent rest r in ((i, f, p) # fresh, r1)))"

definition sent_index :: "auth_file \<Rightarrow> string" where
  "sent_index f = unwrap_or [] (en_auth_index (af_entry f))"

fun refresh_each ::
  "quota_env \<Rightarrow> (id \<times> auth_file \<times> provider) list \<Rightarrow> refresh \<Rightarrow> quota_state \<Rightarrow>
    (refresh_request_error + refresh) \<times> quota_state" where
  "refresh_each env [] r st = (Inr r, st)"
| "refresh_each env ((i, f, p) # rest) r st =
     (case run_io (fetch (qe_codecs env) (qe_world env) p f (sent_index f)) st of
        (answered, st1) \<Rightarrow>
          (case record_result env i answered (clock env st1) True st1 of
             None \<Rightarrow> (Inl DatabaseFailed, st1)
           | Some st2 \<Rightarrow>
               refresh_each env rest (count_result (case answered of Inl _ \<Rightarrow> True | Inr _ \<Rightarrow> False) r) st2))"

fun refresh_sources ::
  "quota_env \<Rightarrow> id option \<Rightarrow> bool \<Rightarrow> instant \<Rightarrow> (source_output \<times> source_config) list \<Rightarrow> bool \<Rightarrow> refresh \<Rightarrow>
    quota_state \<Rightarrow> (refresh_request_error + bool \<times> refresh) \<times> quota_state" where
  "refresh_sources env only automatic requested_at [] found r st = (Inr (found, r), st)"
| "refresh_sources env only automatic requested_at ((s, c) # rest) found r st =
     (case run_io (list_auth_files (qe_codecs env) (qe_world env)) st of
        (Inl e, st1) \<Rightarrow>
          (let failure = (s_name (so_row s), e)
           in if only \<noteq> None then (Inl (SourceUnreachable failure), st1)
              else refresh_sources env only automatic requested_at rest found
                     (r\<lparr>rf_unreachable := rf_unreachable r @ [failure]\<rparr>) st1)
      | (Inr l, st1) \<Rightarrow>
          (let (ss, st2) = store env (s_id (so_row s)) l st1;
               targets = refresh_targets only automatic ss;
               (fresh, r1) = split_reused
                 (\<lambda>i. reuse_recent (qe_codecs env) (qs_db st2) ''hard_refresh'' i requested_at) targets r
           in case refresh_each env fresh r1 st2 of
                (Inl e, st3) \<Rightarrow> (Inl e, st3)
              | (Inr r2, st3) \<Rightarrow>
                  refresh_sources env only automatic requested_at rest (found \<or> targets \<noteq> []) r2 st3))"

definition account_source :: "db \<Rightarrow> id \<Rightarrow> id option" where
  "account_source d i = map_option (\<lambda>out. a_source (ao_row out)) (load_account d i)"

definition refresh_inner ::
  "quota_env \<Rightarrow> id option \<Rightarrow> bool \<Rightarrow> quota_state \<Rightarrow> (refresh_request_error + refresh) \<times> quota_state" where
  "refresh_inner env only automatic st =
     (let requested_at = clock env st
      in if only \<noteq> None \<and> Option.bind only (account_source (qs_db st)) = None then (Inl UnknownAccount, st)
         else case refresh_sources env only automatic requested_at
                (quota_sources env (Option.bind only (account_source (qs_db st))) (qs_db st)) False no_refresh st of
             (Inl e, st1) \<Rightarrow> (Inl e, st1)
           | (Inr (found, r), st1) \<Rightarrow>
               if only \<noteq> None \<and> \<not> found then (Inl NotRefreshable, st1) else (Inr r, st1))"

definition refresh :: "quota_env \<Rightarrow> id option \<Rightarrow> quota_state \<Rightarrow> (refresh_request_error + refresh) \<times> quota_state" where
  "refresh env only = refresh_inner env only False"

definition refresh_automatic :: "quota_env \<Rightarrow> id \<Rightarrow> quota_state \<Rightarrow> (refresh_request_error + refresh) \<times> quota_state" where
  "refresh_automatic env only = refresh_inner env (Some only) True"

section \<open>The cooldown reset\<close>

fun reset_cooldowns ::
  "quota_env \<Rightarrow> id \<Rightarrow> instant \<Rightarrow> stored list \<Rightarrow> bool \<Rightarrow> refresh \<Rightarrow> quota_state \<Rightarrow> bool \<times> refresh \<times> quota_state" where
  "reset_cooldowns env only requested_at [] found r st = (found, r, st)"
| "reset_cooldowns env only requested_at ((i, f, _) # rest) found r st =
     (if only \<noteq> i \<or> en_disabled (af_entry f) then reset_cooldowns env only requested_at rest found r st
      else case reuse_recent (qe_codecs env) (qs_db st) ''cooldown_reset'' i requested_at of
          Some u \<Rightarrow> reset_cooldowns env only requested_at rest True (count_reuse u r) st
        | None \<Rightarrow>
            (case run_io (reset_cooldown (qe_codecs env) (qe_world env) (sent_index f)) st of
               (answered, st1) \<Rightarrow>
                 reset_cooldowns env only requested_at rest True
                   (count_result (case answered of Inl _ \<Rightarrow> True | Inr _ \<Rightarrow> False) r) st1))"

fun cooldown_sources ::
  "quota_env \<Rightarrow> id \<Rightarrow> instant \<Rightarrow> (source_output \<times> source_config) list \<Rightarrow> bool \<Rightarrow> refresh \<Rightarrow> quota_state \<Rightarrow>
    bool \<times> refresh \<times> quota_state" where
  "cooldown_sources env only requested_at [] found r st = (found, r, st)"
| "cooldown_sources env only requested_at ((s, c) # rest) found r st =
     (let unreachable = (\<lambda>e r. r\<lparr>rf_unreachable := rf_unreachable r @ [(s_name (so_row s), e)]\<rparr>)
      in case run_io (list_auth_files (qe_codecs env) (qe_world env)) st of
        (Inl e, st1) \<Rightarrow> cooldown_sources env only requested_at rest found (unreachable e r) st1
      | (Inr l, st1) \<Rightarrow>
          (let (targets, st2) = store env (s_id (so_row s)) l st1;
               (found1, r1, st3) = reset_cooldowns env only requested_at targets found r st2
           in case run_io (list_auth_files (qe_codecs env) (qe_world env)) st3 of
                (Inl e, st4) \<Rightarrow> cooldown_sources env only requested_at rest found1 (unreachable e r1) st4
              | (Inr again, st4) \<Rightarrow>
                  cooldown_sources env only requested_at rest found1 r1
                    (snd (store env (s_id (so_row s)) again st4))))"

definition cooldown_reset ::
  "quota_env \<Rightarrow> id \<Rightarrow> quota_state \<Rightarrow> (refresh_request_error + refresh) \<times> quota_state" where
  "cooldown_reset env only st =
     (let requested_at = clock env st
      in case account_source (qs_db st) only of
           None \<Rightarrow> (Inl UnknownAccount, st)
         | Some source \<Rightarrow>
             (let (found, r, st1) = cooldown_sources env only requested_at
                    (quota_sources env (Some source) (qs_db st)) False no_refresh st
              in if \<not> found \<and> rf_unreachable r = [] then (Inl NotListed, st1) else (Inr r, st1)))"

section \<open>The manual reset\<close>

datatype reset_request_error =
    ResetDatabaseFailed
  | ResetUnknownAccount
  | ResetNotListed
  | ResetDisabled
  | NotResettable
  | NoneAvailable
  | ResetUnreachable source_failure
  | OutcomeUnknown refresh_error

definition clear_resets :: "quota_env \<Rightarrow> id \<Rightarrow> quota_state \<Rightarrow> quota_state" where
  "clear_resets env i st =
     (let now = clock env st; sn = read_snapshot (Account i) Quota now (qs_db st)
      in with_db (\<lambda>d. record_differences now sn (clear_grants i d)) st)"

text \<open>What follows a reset that the provider confirmed: the gateway's cooldown, and a read.\<close>

definition after_reset ::
  "quota_env \<Rightarrow> id \<Rightarrow> auth_file \<Rightarrow> provider \<Rightarrow> quota_state \<Rightarrow> (reset_request_error + refresh) \<times> quota_state" where
  "after_reset env i f p st =
     (let (answered, st1) = (case run_io (reset_cooldown (qe_codecs env) (qe_world env) (sent_index f)) st of
            (Inr _, st1) \<Rightarrow> run_io (fetch (qe_codecs env) (qe_world env) p f (sent_index f)) st1
          | (Inl e, st1) \<Rightarrow> (Inl (Management e), st1))
      in case record_result env i answered (clock env st1) False st1 of
           None \<Rightarrow> (Inl ResetDatabaseFailed, st1)
         | Some st2 \<Rightarrow>
             (Inr (count_result (case answered of Inl _ \<Rightarrow> True | Inr _ \<Rightarrow> False) no_refresh), st2))"

definition spend_listed ::
  "quota_env \<Rightarrow> id \<Rightarrow> stored list \<Rightarrow> quota_state \<Rightarrow> (reset_request_error + refresh) \<times> quota_state" where
  "spend_listed env i ss st =
     (case find (\<lambda>(j, f, p). j = i) ss of
        None \<Rightarrow> (Inl ResetNotListed, st)
      | Some (_, f, found) \<Rightarrow>
          if en_disabled (af_entry f) then (Inl ResetDisabled, st)
          else case filter_option (\<lambda>p. can_reset (qe_codecs env) p f) found of
              None \<Rightarrow> (Inl NotResettable, st)
            | Some p \<Rightarrow>
                if unexpired_count (qs_db st) i (clock env st) = 0 then (Inl NoneAvailable, st)
                else case run_io (spend_reset (qe_codecs env) (qe_world env) p f (sent_index f)) (clear_resets env i st) of
                    (Inl e, st2) \<Rightarrow> (Inl (OutcomeUnknown e), st2)
                  | (Inr _, st2) \<Rightarrow> after_reset env i f p st2)"

definition spend_manual_reset ::
  "quota_env \<Rightarrow> id \<Rightarrow> quota_state \<Rightarrow> (reset_request_error + refresh) \<times> quota_state" where
  "spend_manual_reset env i st =
     (case account_source (qs_db st) i of
        None \<Rightarrow> (Inl ResetUnknownAccount, st)
      | Some source \<Rightarrow>
          (case quota_sources env (Some source) (qs_db st) of
             [] \<Rightarrow> (Inl ResetNotListed, st)
           | (s, c) # _ \<Rightarrow>
               (case run_io (list_auth_files (qe_codecs env) (qe_world env)) st of
                  (Inl e, st1) \<Rightarrow> (Inl (ResetUnreachable (s_name (so_row s), e)), st1)
                | (Inr l, st1) \<Rightarrow>
                    (let (ss, st2) = store env (s_id (so_row s)) l st1 in spend_listed env i ss st2))))"

section \<open>Which requests a refresh sends\<close>

definition extends :: "(request \<Rightarrow> bool) \<Rightarrow> quota_state \<Rightarrow> quota_state \<Rightarrow> bool" where
  "extends P st st1 \<longleftrightarrow> (\<exists>rs. qs_sent st1 = qs_sent st @ rs \<and> list_all P rs)"

lemma extends_refl [simp]: "extends P st st"
  by (simp add: extends_def)

lemma extends_same: "qs_sent st1 = qs_sent st \<Longrightarrow> extends P st st1"
  by (simp add: extends_def)

lemma extends_trans: "extends P a b \<Longrightarrow> extends P b c \<Longrightarrow> extends P a c"
  by (auto simp: extends_def)

lemma extends_run: "sends P m \<Longrightarrow> run_io m st = (x, st1) \<Longrightarrow> extends P st st1"
  by (auto simp: extends_def run_io_def split: prod.splits elim!: sendsE [where sent = "qs_sent st"])

lemma store_sent [simp]: "store env s l st = (ss, st1) \<Longrightarrow> qs_sent st1 = qs_sent st"
  by (auto simp: store_def Let_def split: prod.splits)

lemma store_sent' [simp]: "qs_sent (snd (store env s l st)) = qs_sent st"
  by (cases "store env s l st") simp

lemma record_sent [simp]: "record_result env i a t r st = Some st1 \<Longrightarrow> qs_sent st1 = qs_sent st"
  by (auto simp: record_result_def Let_def)

lemma refresh_each_extends:
  assumes "\<And>i f p cx w x. (i, f, p) \<in> set targets \<Longrightarrow> sends P (fetch cx w p f x)"
  shows "extends P st (snd (refresh_each env targets r st))"
  using assms
proof (induction targets arbitrary: r st)
  case Nil
  then show ?case by simp
next
  case (Cons target targets)
  obtain i f p where t: "target = (i, f, p)" by (cases target)
  obtain a st1 where a: "run_io (fetch (qe_codecs env) (qe_world env) p f (sent_index f)) st = (a, st1)" by fastforce
  have 1: "extends P st st1" using Cons.prems [of i f p] t by (intro extends_run [OF _ a]) simp
  show ?case
  proof (cases "record_result env i a (clock env st1) True st1")
    case None
    then show ?thesis using 1 by (simp add: t a)
  next
    case (Some st2)
    have "extends P st2 (snd (refresh_each env targets
        (count_result (case a of Inl _ \<Rightarrow> True | Inr _ \<Rightarrow> False) r) st2))"
      by (rule Cons.IH) (erule Cons.prems [OF list.set_intros(2)])
    moreover have "extends P st1 st2" using Some by (intro extends_same) simp
    ultimately show ?thesis using 1 Some by (auto simp: t a intro: extends_trans)
  qed
qed

lemma split_reused_subset: "split_reused recent targets r = (fresh, r1) \<Longrightarrow> set fresh \<subseteq> set targets"
proof (induction targets arbitrary: r fresh)
  case (Cons t ts)
  obtain i f p where t: "t = (i, f, p)" by (cases t)
  show ?case
  proof (cases "recent i")
    case None
    then obtain rest where "split_reused recent ts r = (rest, r1)" and fresh: "fresh = t # rest"
      using Cons.prems by (auto simp: t split: prod.splits)
    then have "set rest \<subseteq> set ts" using Cons.IH by blast
    then show ?thesis using fresh by auto
  next
    case (Some u)
    then have "set fresh \<subseteq> set ts" using Cons by (simp add: t)
    then show ?thesis by auto
  qed
qed simp

lemma refresh_sources_extends:
  assumes "P ListAuthFiles"
    and "\<And>f p cx w x. \<not> automatic \<or> allows_automatic_recovery p \<Longrightarrow> sends P (fetch cx w p f x)"
  shows "extends P st (snd (refresh_sources env only automatic t srcs found r st))"
proof (induction srcs arbitrary: found r st)
  case Nil
  then show ?case by simp
next
  case (Cons src srcs)
  obtain s c where src: "src = (s, c)" by (cases src)
  obtain l st1 where l: "run_io (list_auth_files (qe_codecs env) (qe_world env)) st = (l, st1)" by fastforce
  have 1: "extends P st st1" using assms(1) by (intro extends_run [OF sends_list_auth_files l])
  show ?case
  proof (cases l)
    case (Inl e)
    then show ?thesis
      using 1 Cons.IH [where found = found and st = st1 and
          r = "r\<lparr>rf_unreachable := rf_unreachable r @ [(s_name (so_row s), e)]\<rparr>"]
      by (auto simp: src l Let_def intro: extends_trans)
  next
    case (Inr listing)
    obtain ss st2 where ss: "store env (s_id (so_row s)) listing st1 = (ss, st2)" by fastforce
    let ?targets = "refresh_targets only automatic ss"
    obtain fresh r1 where fresh: "split_reused
        (\<lambda>i. reuse_recent (qe_codecs env) (qs_db st2) ''hard_refresh'' i t) ?targets r = (fresh, r1)" by fastforce
    obtain res st3 where res: "refresh_each env fresh r1 st2 = (res, st3)" by fastforce
    have "extends P st2 (snd (refresh_each env fresh r1 st2))"
      using split_reused_subset [OF fresh]
      by (intro refresh_each_extends assms(2)) (auto simp: refresh_targets_def)
    then have 2: "extends P st1 st3" using ss res by (simp add: extends_def)
    show ?thesis
    proof (cases res)
      case (Inl e)
      then show ?thesis using 1 2 by (auto simp: src l Inr ss fresh res Let_def intro: extends_trans)
    next
      case (Inr r2)
      then show ?thesis
        using 1 2 Cons.IH [where found = "found \<or> ?targets \<noteq> []" and r = r2 and st = st3]
        by (auto simp: src l \<open>l = Inr listing\<close> ss fresh res Let_def intro: extends_trans)
    qed
  qed
qed

lemma refresh_inner_extends:
  assumes "P ListAuthFiles"
    and "\<And>f p cx w x. \<not> automatic \<or> allows_automatic_recovery p \<Longrightarrow> sends P (fetch cx w p f x)"
  shows "extends P st (snd (refresh_inner env only automatic st))"
  using refresh_sources_extends [where P = P, OF assms, of automatic st env only "clock env st"
    "quota_sources env (Option.bind only (account_source (qs_db st))) (qs_db st)" False no_refresh]
  by (auto simp: refresh_inner_def Let_def split: prod.splits sum.splits)

definition free_read :: "request \<Rightarrow> bool" where
  "free_read r \<longleftrightarrow> r = ListAuthFiles \<or> is_read r"

lemma automatic_refresh_sends_reads:
  "\<exists>rs. qs_sent (snd (refresh_automatic env i st)) = qs_sent st @ rs \<and> list_all free_read rs"
proof -
  have "extends free_read st (snd (refresh_inner env (Some i) True st))"
    by (intro refresh_inner_extends)
      (auto simp: free_read_def intro: sends_mono [OF automatic_provider_quiet])
  then show ?thesis by (simp add: refresh_automatic_def extends_def)
qed

text \<open>
  A refresh that runs without a human sends the gateway nothing but its credential list
  and calls that read: never the completion that xAI charges for, never the key that Meta
  mints, never the consumption of a manual reset, no file download and no cooldown reset,
  whatever the gateway lists and answers.\<close>

theorem automatic_refresh_spends_nothing:
  "\<exists>rs. qs_sent (snd (refresh_automatic env i st)) = qs_sent st @ rs \<and> list_all free_read rs"
  by (rule automatic_refresh_sends_reads)

section \<open>A manual reset is spent once\<close>

definition consumed :: "quota_state \<Rightarrow> quota_state \<Rightarrow> nat" where
  "consumed st st1 = length (filter consumes_reset (drop (length (qs_sent st)) (qs_sent st1)))"

lemma consumed_none:
  assumes "extends (\<lambda>r. \<not> consumes_reset r) st st1"
  shows "consumed st st1 = 0"
  using assms by (auto simp: extends_def consumed_def list_all_iff filter_empty_conv)

lemma consumed_chain:
  assumes "extends P a b" and "extends Q b c"
  shows "consumed a c = consumed a b + consumed b c"
  using assms by (auto simp: extends_def consumed_def)

lemma probes_free: "sends is_probe m \<Longrightarrow> sends (\<lambda>r. \<not> consumes_reset r) m"
  by (erule sends_mono) (auto simp: is_probe_def consumes_reset_def split: request.splits)

lemma codex_reset_sends:
  "\<exists>body. snd (codex_reset cx w f i sent) = sent @ [Call (consume_call cx f i body)]"
  by (auto simp: codex_reset_def and_then_def try_then_def ask_def call_def send_def done_with_def
      read_random_def Let_def split: sum.splits)

lemma spend_reset_consumes:
  assumes "can_reset cx p f" and "run_io (spend_reset cx w p f i) st = (x, st1)"
  shows "extends (\<lambda>_. True) st st1" and "consumed st st1 = 1"
proof -
  have p: "p = Codex" using assms(1) by (simp add: can_reset_def spends_manual_resets_def)
  obtain body where "qs_sent st1 = qs_sent st @ [Call (consume_call cx f i body)]"
    using assms(2) codex_reset_sends [of cx w f i "qs_sent st"]
    by (auto simp: p spend_reset_def run_io_def split: prod.splits)
  then show "extends (\<lambda>_. True) st st1" "consumed st st1 = 1" by (auto simp: extends_def consumed_def)
qed

lemma run_io_db [simp]: "run_io m st = (x, st1) \<Longrightarrow> qs_db st1 = qs_db st"
  by (auto simp: run_io_def split: prod.splits)

lemma clear_resets_sent [simp]: "qs_sent (clear_resets env i st) = qs_sent st"
  by (simp add: clear_resets_def with_db_def Let_def)

lemma record_differences_grants [simp]:
  "grants (record_differences now (read_snapshot sc pt t d0) d) = grants d"
  by (simp add: record_differences_eq)

lemma clear_resets_grants: "(i, g) \<notin> set (grants (qs_db (clear_resets env i st)))"
  by (simp add: clear_resets_def with_db_def Let_def clear_grants_def row_simps)

lemma after_reset_extends:
  "extends (\<lambda>r. \<not> consumes_reset r) st (snd (after_reset env i f p st))"
proof -
  obtain a st1 where a: "run_io (reset_cooldown (qe_codecs env) (qe_world env) (sent_index f)) st = (a, st1)"
    by fastforce
  have 1: "extends (\<lambda>r. \<not> consumes_reset r) st st1"
    by (rule extends_run [OF sends_reset_cooldown a]) (simp add: consumes_reset_def)
  show ?thesis
  proof (cases a)
    case (Inl e)
    then show ?thesis using 1
      by (auto simp: after_reset_def a Let_def extends_def split: option.splits)
  next
    case (Inr u)
    obtain b st2 where b: "run_io (fetch (qe_codecs env) (qe_world env) p f (sent_index f)) st1 = (b, st2)"
      by fastforce
    have "extends (\<lambda>r. \<not> consumes_reset r) st1 st2"
      by (rule extends_run [OF probes_free [OF any_provider.fetch_probes] b])
    then have 2: "extends (\<lambda>r. \<not> consumes_reset r) st st2" using 1 by (rule extends_trans [rotated])
    show ?thesis using 2
      by (auto simp: after_reset_def a b Inr Let_def extends_def split: option.splits)
  qed
qed

text \<open>How many resets an outcome stands for, and that an unknown outcome leaves no grant to spend.\<close>

definition outcome_spent :: "reset_request_error + refresh \<Rightarrow> nat" where
  "outcome_spent res =
     (case res of
        Inr _ \<Rightarrow> 1 | Inl (OutcomeUnknown _) \<Rightarrow> 1 | Inl ResetDatabaseFailed \<Rightarrow> 1 | Inl _ \<Rightarrow> 0)"

definition left_to_spend :: "reset_request_error + refresh \<Rightarrow> id \<Rightarrow> quota_state \<Rightarrow> grant list" where
  "left_to_spend res i st =
     (case res of
        Inl (OutcomeUnknown _) \<Rightarrow> map snd (filter (\<lambda>(j, _). j = i) (grants (qs_db st)))
      | Inl ResetDatabaseFailed \<Rightarrow> map snd (filter (\<lambda>(j, _). j = i) (grants (qs_db st)))
      | _ \<Rightarrow> [])"

lemma after_reset_result:
  assumes "after_reset env i f p st = (res, st1)" and "\<And>g. (i, g) \<notin> set (grants (qs_db st))"
  shows "outcome_spent res = 1" and "left_to_spend res i st1 = []"
proof -
  obtain a s1 where a: "run_io (reset_cooldown (qe_codecs env) (qe_world env) (sent_index f)) st = (a, s1)"
    by fastforce
  obtain b s2 where b: "run_io (fetch (qe_codecs env) (qe_world env) p f (sent_index f)) s1 = (b, s2)" by fastforce
  have g: "\<And>g. (i, g) \<notin> set (grants (qs_db s1))" "\<And>g. (i, g) \<notin> set (grants (qs_db s2))"
    using assms(2) run_io_db [OF a] run_io_db [OF b] by simp_all
  have "outcome_spent res = 1 \<and> left_to_spend res i st1 = []"
    using assms(1) g
    by (cases a) (auto simp: after_reset_def a b Let_def outcome_spent_def left_to_spend_def filter_empty_conv
        split: option.splits)
  then show "outcome_spent res = 1" "left_to_spend res i st1 = []" by auto
qed

lemma spend_listed_once:
  "extends (\<lambda>_. True) st (snd (spend_listed env i ss st)) \<and>
   consumed st (snd (spend_listed env i ss st)) = outcome_spent (fst (spend_listed env i ss st)) \<and>
   left_to_spend (fst (spend_listed env i ss st)) i (snd (spend_listed env i ss st)) = []"
proof -
  have nothing [simp]: "consumed st st = 0" by (simp add: consumed_def)
  show ?thesis
  proof (cases "find (\<lambda>(j, f, p). j = i) ss")
    case None
    then show ?thesis by (simp add: spend_listed_def outcome_spent_def left_to_spend_def)
  next
    case (Some t)
    obtain j f found where t: "t = (j, f, found)" by (cases t)
    let ?p = "filter_option (\<lambda>p. can_reset (qe_codecs env) p f) found"
    show ?thesis
    proof (cases "en_disabled (af_entry f) \<or> ?p = None \<or> unexpired_count (qs_db st) i (clock env st) = 0")
      case True
      then show ?thesis
        by (auto simp: spend_listed_def Some t outcome_spent_def left_to_spend_def split: option.splits)
    next
      case False
      then obtain p where p: "?p = Some p" and can: "can_reset (qe_codecs env) p f" by auto
      let ?st1 = "clear_resets env i st"
      obtain a st2 where a: "run_io (spend_reset (qe_codecs env) (qe_world env) p f (sent_index f)) ?st1 = (a, st2)"
        by fastforce
      note c = spend_reset_consumes [OF can a]
      have c1: "extends (\<lambda>_. True) st st2" "consumed st st2 = 1"
        using c by (simp_all add: extends_def consumed_def)
      have g: "\<And>g. (i, g) \<notin> set (grants (qs_db st2))" using clear_resets_grants run_io_db [OF a] by simp
      show ?thesis
      proof (cases a)
        case (Inl e)
        have "spend_listed env i ss st = (Inl (OutcomeUnknown e), st2)"
          using False by (auto simp: spend_listed_def Some t p a Inl)
        then show ?thesis using c1 g by (auto simp: outcome_spent_def left_to_spend_def filter_empty_conv)
      next
        case (Inr u)
        have e: "spend_listed env i ss st = after_reset env i f p st2"
          using False by (auto simp: spend_listed_def Some t p a Inr)
        obtain res st3 where r: "after_reset env i f p st2 = (res, st3)" by fastforce
        have x: "extends (\<lambda>r. \<not> consumes_reset r) st2 st3" using after_reset_extends [of st2 env i f p] r by simp
        have "consumed st st3 = 1" using consumed_chain [OF c1(1) x] consumed_none [OF x] c1(2) by simp
        moreover have "extends (\<lambda>_. True) st st3" using c1(1) x by (auto simp: extends_def list_all_iff)
        ultimately show ?thesis using after_reset_result [OF r g] by (simp add: e r)
      qed
    qed
  qed
qed

lemma spend_consumes:
  "consumed st (snd (spend_manual_reset env i st)) = outcome_spent (fst (spend_manual_reset env i st)) \<and>
   left_to_spend (fst (spend_manual_reset env i st)) i (snd (spend_manual_reset env i st)) = []"
proof -
  have nothing [simp]: "consumed st st = 0" by (simp add: consumed_def)
  show ?thesis
  proof (cases "account_source (qs_db st) i")
    case None
    then show ?thesis by (simp add: spend_manual_reset_def outcome_spent_def left_to_spend_def)
  next
    case (Some source)
    show ?thesis
    proof (cases "quota_sources env (Some source) (qs_db st)")
      case Nil
      then show ?thesis by (simp add: spend_manual_reset_def Some outcome_spent_def left_to_spend_def)
    next
      case (Cons sc rest)
      obtain s c where sc: "sc = (s, c)" by (cases sc)
      obtain l st1 where l: "run_io (list_auth_files (qe_codecs env) (qe_world env)) st = (l, st1)" by fastforce
      have x: "extends (\<lambda>r. \<not> consumes_reset r) st st1"
        by (rule extends_run [OF sends_list_auth_files l]) (simp add: consumes_reset_def)
      show ?thesis
      proof (cases l)
        case (Inl e)
        then show ?thesis using consumed_none [OF x]
          by (simp add: spend_manual_reset_def Some Cons sc l outcome_spent_def left_to_spend_def)
      next
        case (Inr listing)
        obtain ss st2 where ss: "store env (s_id (so_row s)) listing st1 = (ss, st2)" by fastforce
        have x2: "extends (\<lambda>r. \<not> consumes_reset r) st st2" using x ss by (simp add: extends_def)
        note o = spend_listed_once [where env = env and st = st2 and ss = ss and i = i]
        have "consumed st (snd (spend_listed env i ss st2)) = outcome_spent (fst (spend_listed env i ss st2))"
          using consumed_chain [OF x2, of "\<lambda>_. True" "snd (spend_listed env i ss st2)"] consumed_none [OF x2] o by simp
        then show ?thesis using o by (simp add: spend_manual_reset_def Some Cons sc l Inr ss)
      qed
    qed
  qed
qed

text \<open>
  Spending a manual reset sends the provider one consumption or none, and answers which:
  one exactly when the reset was confirmed, its outcome is unknown or its result could not be
  stored, none on every refusal. The stored grants are cleared before it is sent, so after an
  outcome that is not known there is no grant left and a repeated request is refused until a
  read lists one again.\<close>

theorem manual_reset_spent_once:
  "consumed st (snd (spend_manual_reset env i st)) = outcome_spent (fst (spend_manual_reset env i st)) \<and>
   left_to_spend (fst (spend_manual_reset env i st)) i (snd (spend_manual_reset env i st)) = []"
  by (rule spend_consumes)

end
