(* ===== verification/Listings.thy ===== *)
theory Listings
  imports Quota
begin

text \<open>
  What the reads of credentials and quota keep of the database: which credentials a listing
  marks as gone, and the invariant of the quota tables.
\<close>

section \<open>A listing\<close>

lemma register_keeps:
  assumes "register candidate source provider account t d = (i, d1)"
  shows "credentials d1 = credentials d" and "windows d1 = windows d" and "grants d1 = grants d"
    and "samples d1 = samples d" and "sources d1 = sources d"
    and "\<And>a. a \<in> set (accounts d) \<Longrightarrow> \<exists>b\<in>set (accounts d1). a_id b = a_id a \<and> a_source b = a_source a"
proof -
  let ?new = "fresh_account candidate source provider account t"
  have d1: "d1 = d\<lparr>accounts := upsert account_key register_merge ?new (accounts d)\<rparr>"
    using assms by (auto simp: register_def Let_def split: option.splits)
  then show "credentials d1 = credentials d" "windows d1 = windows d" "grants d1 = grants d"
    "samples d1 = samples d" "sources d1 = sources d" by simp_all
  fix a
  assume "a \<in> set (accounts d)"
  then have "(if account_key a = account_key ?new then register_merge ?new a else a) \<in> set (accounts d1) \<or>
      a \<in> set (accounts d1)"
    by (auto simp: d1 upsert_def update_where_def)
  moreover have "a_id (register_merge ?new a) = a_id a" "a_source (register_merge ?new a) = a_source a"
    by (simp_all add: register_merge_def)
  ultimately show "\<exists>b\<in>set (accounts d1). a_id b = a_id a \<and> a_source b = a_source a"
    by (metis (full_types))
qed

definition newer_than :: "instant \<Rightarrow> credential_row \<Rightarrow> bool" where
  "newer_than t c = (case c_soft_at c of None \<Rightarrow> False | Some s \<Rightarrow> t < s)"

definition older_than :: "instant \<Rightarrow> credential_row \<Rightarrow> bool" where
  "older_than t c = (case c_soft_at c of None \<Rightarrow> False | Some s \<Rightarrow> s < t)"

text \<open>What a listing of that instant leaves of the row of a credential that it names.\<close>

definition named_ok :: "instant \<Rightarrow> credential_row option \<Rightarrow> credential_row \<Rightarrow> bool" where
  "named_ok t old c \<longleftrightarrow>
     (case filter_option (newer_than t) old of
        Some kept \<Rightarrow> c = kept
      | None \<Rightarrow> c_soft_at c = Some t \<and> c_removed c = None)"

lemma credential_of_observe:
  "credential_of (observe_credential i f t h d) j =
     (if j = i
      then Some (case credential_of d i of None \<Rightarrow> observed_row i (af_entry f) t h
                 | Some old \<Rightarrow> observe_merge (observed_row i (af_entry f) t h) old)
      else credential_of d j)"
proof -
  have k: "c_account (observed_row i (af_entry f) t h) = i" by (simp add: observed_row_def)
  show ?thesis
    using observing.find_upsert_same [of "observed_row i (af_entry f) t h" "credentials d"]
      observing.find_upsert_other [of j "observed_row i (af_entry f) t h" "credentials d"]
    by (simp add: credential_of_def observe_credential_def k)
qed

lemma observe_named:
  "named_ok t (credential_of d i) (the (credential_of (observe_credential i f t h d) i))"
  by (auto simp: credential_of_observe named_ok_def filter_option_def newer_than_def observe_merge_def
      soft_stale_def observed_row_def split: option.splits)

lemma named_again:
  assumes "named_ok t old c" and "named_ok t (Some c) c'"
  shows "named_ok t old c'"
  using assms by (auto simp: named_ok_def filter_option_def newer_than_def split: option.splits if_splits)

lemma store_files_effect:
  assumes "store_files cx ids source t fs n d = (ss, n1, d1)"
  shows "(\<forall>i. i \<notin> fst ` set ss \<longrightarrow> credential_of d1 i = credential_of d i) \<and>
    (\<forall>i\<in>fst ` set ss. \<exists>c. credential_of d1 i = Some c \<and> named_ok t (credential_of d i) c) \<and>
    (\<forall>a\<in>set (accounts d). \<exists>b\<in>set (accounts d1). a_id b = a_id a \<and> a_source b = a_source a)"
  using assms
proof (induction fs arbitrary: n d ss)
  case Nil
  then show ?case by auto
next
  case (Cons f fs)
  show ?case
  proof (cases "listed_index f")
    case None
    then show ?thesis using Cons by simp
  next
    case (Some index)
    obtain s d2 where s: "store_file cx (ids n) source t index f d = (s, d2)" by fastforce
    obtain rest where rest: "store_files cx ids source t fs (n + 1) d2 = (rest, n1, d1)" and ss: "ss = s # rest"
      using Cons.prems Some s by (auto split: prod.splits)
    note IH = Cons.IH [OF rest]
    obtain i dr where r: "register (ids n) source (listed_provider f)
        (make_account index (listed_kind f) (listed_label f)) t d = (i, dr)" by fastforce
    let ?h = "refreshable_provider cx f \<noteq> None"
    have si: "fst s = i" and d2: "d2 = observe_credential i f t ?h dr"
      using s r by (auto simp: store_file_def Let_def)
    have cr: "credential_of dr j = credential_of d j" for j
      using register_keeps(1) [OF r] by (simp add: credential_of_def)
    have c2: "credential_of d2 i = Some (the (credential_of d2 i))"
      and n2: "named_ok t (credential_of d i) (the (credential_of d2 i))"
      and o2: "\<And>j. j \<noteq> i \<Longrightarrow> credential_of d2 j = credential_of d j"
      using observe_named [of t dr i f ?h] credential_of_observe [of i f t ?h dr] by (simp_all add: d2 cr)
    have acc: "\<exists>b\<in>set (accounts d2). a_id b = a_id a \<and> a_source b = a_source a" if "a \<in> set (accounts d)" for a
      using register_keeps(6) [OF r that] by (simp add: d2 observe_credential_def)
    show ?thesis
    proof (intro conjI allI ballI impI)
      fix j
      assume "j \<notin> fst ` set ss"
      then show "credential_of d1 j = credential_of d j" using IH o2 by (simp add: ss si)
    next
      fix j
      assume j: "j \<in> fst ` set ss"
      show "\<exists>c. credential_of d1 j = Some c \<and> named_ok t (credential_of d j) c"
      proof (cases "j \<in> fst ` set rest")
        case True
        then obtain c where c: "credential_of d1 j = Some c" "named_ok t (credential_of d2 j) c" using IH by blast
        show ?thesis
        proof (cases "j = i")
          case True
          then have "named_ok t (Some (the (credential_of d2 i))) c" using c(2) c2 by simp
          then show ?thesis using named_again [OF n2] c(1) True by blast
        next
          case False
          then show ?thesis using c o2 by simp
        qed
      next
        case False
        then have "j = i" using j by (simp add: ss si)
        then show ?thesis using False IH c2 n2 by metis
      qed
    next
      fix a
      assume "a \<in> set (accounts d)"
      then obtain b where "b \<in> set (accounts d2)" "a_id b = a_id a" "a_source b = a_source a" using acc by blast
      then show "\<exists>b\<in>set (accounts d1). a_id b = a_id a \<and> a_source b = a_source a" using IH by metis
    qed
  qed
qed

lemma credential_of_mark:
  "credential_of (mark_unlisted source t d) i =
     map_option (\<lambda>c. if unlisted d source t c then c\<lparr>c_removed := Some t\<rparr> else c) (credential_of d i)"
  unfolding credential_of_def mark_unlisted_def by (simp add: find_update_where_key)

text \<open>
  A complete listing marks exactly the credentials that it does not name. Of a credential
  of its source: a row that a newer listing has observed is left as it is; one that is named
  is not removed; one that is not named is marked with the instant of the listing, unless an
  earlier mark is there or the gateway has never listed it.\<close>

theorem listing_marks_exactly_unlisted:
  assumes "store_listing cx ids source l n d = (ss, n1, d1)" and "complete_listing l"
    and "credential_of d i = Some c" and "\<exists>a\<in>set (accounts d). a_id a = i \<and> a_source a = source"
  shows "\<exists>c1. credential_of d1 i = Some c1 \<and>
    (if newer_than (al_observed_at l) c then c1 = c
     else if i \<in> fst ` set ss then c_removed c1 = None
     else c1 = (if c_removed c = None \<and> older_than (al_observed_at l) c
                then c\<lparr>c_removed := Some (al_observed_at l)\<rparr> else c))"
proof -
  let ?t = "al_observed_at l"
  obtain d2 where d2: "store_files cx ids source ?t (al_files l) n d = (ss, n1, d2)"
    and d1: "d1 = mark_unlisted source ?t d2"
    using assms(1,2) by (auto simp: store_listing_def split: prod.splits)
  note e = store_files_effect [OF d2]
  have acc: "\<exists>a\<in>set (accounts d2). a_id a = i \<and> a_source a = source" using e assms(4) by metis
  have ci: "c_account c = i" using assms(3) by (auto simp: credential_of_def dest: find_Some_set)
  have u: "unlisted d2 source ?t x \<longleftrightarrow> c_removed x = None \<and> older_than ?t x" if "c_account x = i" for x
    using acc that by (auto simp: unlisted_def older_than_def)
  show ?thesis
  proof (cases "i \<in> fst ` set ss")
    case False
    then have "credential_of d2 i = Some c" using e assms(3) by simp
    then show ?thesis using u [OF ci] False
      by (auto simp: d1 credential_of_mark newer_than_def older_than_def split: option.splits)
  next
    case True
    then obtain x where x: "credential_of d2 i = Some x" "named_ok ?t (Some c) x" using e assms(3) by metis
    have xi: "c_account x = i" using x(1) by (auto simp: credential_of_def dest: find_Some_set)
    show ?thesis
    proof (cases "newer_than ?t c")
      case newer: True
      then have "x = c" using x(2) by (simp add: named_ok_def)
      moreover have "\<not> older_than ?t c" using newer by (auto simp: newer_than_def older_than_def split: option.splits)
      ultimately show ?thesis using u [OF ci] newer x(1) by (simp add: d1 credential_of_mark)
    next
      case older: False
      then have "c_soft_at x = Some ?t" "c_removed x = None" using x(2) by (simp_all add: named_ok_def)
      then show ?thesis using u [OF xi] older True x(1) by (simp add: d1 credential_of_mark older_than_def)
    qed
  qed
qed

section \<open>A concrete listing\<close>

definition no_entry :: entry where
  "no_entry =
     \<lparr>en_auth_index = None, en_name = None, en_provider = Some ''claude'', en_kind = None, en_label = None,
      en_email = None, en_status = None, en_status_message = None, en_disabled = False,
      en_unavailable = False, en_runtime_only = False, en_next_retry = None, en_cooldowns = None,
      en_account_type = None, en_project_id = None, en_id_token = None\<rparr>"

definition named_file :: "string \<Rightarrow> auth_file" where
  "named_file index = \<lparr>af_entry = no_entry\<lparr>en_auth_index := Some index\<rparr>, af_raw = JNull\<rparr>"

definition plain_codecs :: codecs where
  "plain_codecs =
     \<lparr>cx_json = (\<lambda>_. None), cx_print = (\<lambda>_. []), cx_instant = (\<lambda>_. None), cx_print_instant = (\<lambda>_. []),
      cx_float = (\<lambda>_. []), cx_undecodable = []\<rparr>"

definition one_listed :: auth_files where
  "one_listed = \<lparr>al_observed_at = 100, al_files = [named_file ''other''], al_is_complete = True\<rparr>"

theorem listing_marks_exactly_unlisted_witness:
  "\<exists>ss n d c1. store_listing plain_codecs (\<lambda>n. 50 + int n) 1 one_listed 0 expired_db = (ss, n, d) \<and>
     credential_of d 2 = Some c1 \<and> c_removed c1 = Some 100"
proof -
  obtain ss n d where s: "store_listing plain_codecs (\<lambda>n. 50 + int n) 1 one_listed 0 expired_db = (ss, n, d)"
    by (metis prod_cases3)
  have complete: "complete_listing one_listed" by code_simp
  obtain c where c: "credential_of expired_db 2 = Some c" "c_soft_at c = Some 0" "c_removed c = None"
    by (simp add: credential_of_def expired_db_def)
  have a: "\<exists>a\<in>set (accounts expired_db). a_id a = 2 \<and> a_source a = 1" by (simp add: expired_db_def)
  have "fst ` set (fst (store_listing plain_codecs (\<lambda>n. 50 + int n) 1 one_listed 0 expired_db)) = {50}"
    by code_simp
  then have "2 \<notin> fst ` set ss" using s by simp
  with listing_marks_exactly_unlisted [OF s complete c(1) a] c(2,3) s
  show ?thesis by (auto simp: one_listed_def newer_than_def older_than_def)
qed

section \<open>The invariant of the quota tables\<close>

definition unit_fraction :: "rat \<Rightarrow> bool" where
  "unit_fraction x \<longleftrightarrow> 0 \<le> x \<and> x \<le> 1"

definition quota_ok :: "db \<Rightarrow> bool" where
  "quota_ok d \<longleftrightarrow>
     distinct (map c_account (credentials d)) \<and> distinct (map window_key (windows d)) \<and>
     (\<forall>w\<in>set (windows d). \<forall>x\<in>set_option (w_used_fraction w). unit_fraction x) \<and>
     (\<forall>q\<in>set (samples d). unit_fraction (q_used_fraction q)) \<and>
     (\<forall>(i, g)\<in>set (grants d). 0 < g_remaining g)"

lemma quota_ok_cong:
  assumes "credentials d1 = credentials d" "windows d1 = windows d" "samples d1 = samples d" "grants d1 = grants d"
  shows "quota_ok d1 = quota_ok d"
  by (simp add: quota_ok_def assms)

lemma quota_ok_differences [simp]:
  "quota_ok (record_differences now (read_snapshot sc pt t d0) d) = quota_ok d"
  by (rule quota_ok_cong) (simp_all add: record_differences_eq)

lemma unit_clamp: "unit_fraction (clamp_fraction x)"
  by (simp add: unit_fraction_def clamp_fraction_def)

lemma quota_ok_sample: "quota_ok d \<Longrightarrow> quota_ok (record_sample i n t d)"
  by (auto simp: quota_ok_def record_sample_def upsert_def row_simps sample_merge_def unit_clamp split: option.splits)

lemma quota_ok_insert:
  assumes "quota_ok d" and "insert_window (window_of stored i t n) d = Some d1"
  shows "quota_ok d1"
proof -
  let ?w = "window_of stored i t n"
  have d1: "d1 = d\<lparr>windows := windows d @ [?w]\<rparr>" and "window_key ?w \<notin> window_key ` set (windows d)"
    using assms(2) by (auto simp: insert_window_def split: if_splits)
  moreover have "\<forall>x\<in>set_option (w_used_fraction ?w). unit_fraction x"
    by (auto simp: window_of_def unit_clamp)
  ultimately show ?thesis using assms(1) by (auto simp: quota_ok_def)
qed

lemma quota_ok_inserts: "quota_ok d \<Longrightarrow> insert_windows stored i t ns d = Some d1 \<Longrightarrow> quota_ok d1"
  by (induction ns arbitrary: d) (auto split: option.splits dest: quota_ok_insert intro: quota_ok_sample)

lemma quota_ok_windows_sub:
  assumes "quota_ok d" shows "quota_ok (d\<lparr>windows := delete_where p (windows d)\<rparr>)"
proof -
  have "distinct (map window_key (delete_where p (windows d)))"
    using assms by (auto simp: quota_ok_def delete_where_def intro: distinct_map_filter)
  then show ?thesis using assms by (auto simp: quota_ok_def row_simps)
qed

lemma quota_ok_replace: "quota_ok d \<Longrightarrow> replace_windows i ns t d = Some d1 \<Longrightarrow> quota_ok d1"
  by (auto simp: replace_windows_def Let_def intro: quota_ok_inserts [OF quota_ok_windows_sub])

lemma quota_ok_refreshed: "quota_ok d \<Longrightarrow> quota_ok (refreshed i t r d)"
proof -
  have "map c_account (update_where p (refreshed_row t r) rows) = map c_account rows" for p rows
    by (rule map_update_where) (simp add: refreshed_row_def split: sum.splits)
  then show "quota_ok d \<Longrightarrow> quota_ok (refreshed i t r d)" by (simp add: quota_ok_def refreshed_def)
qed

lemma quota_ok_grants:
  "quota_ok d \<Longrightarrow> \<forall>g\<in>set gs. 0 < g_remaining g \<Longrightarrow> quota_ok (replace_grants i gs d)"
  by (auto simp: quota_ok_def replace_grants_def row_simps)

lemma quota_ok_clear: "quota_ok d \<Longrightarrow> quota_ok (clear_grants i d)"
  by (auto simp: quota_ok_def clear_grants_def row_simps)

lemma quota_ok_forget [simp]: "quota_ok (forget_recovery i d) = quota_ok d"
  by (rule quota_ok_cong) (simp_all add: forget_recovery_def)

lemma quota_ok_reconcile [simp]: "quota_ok (reconcile_resets cx i t d) = quota_ok d"
  by (rule quota_ok_cong) (simp_all add: reconcile_resets_def)

lemma quota_ok_record:
  assumes "quota_ok d" and "record_answer cx i r t reconcile d = Some d1"
    and "\<And>ob. r = Inr ob \<Longrightarrow> real_grants ob"
  shows "quota_ok d1"
proof (cases r)
  case (Inl e)
  then show ?thesis using assms by (auto simp: record_answer_def intro: quota_ok_refreshed)
next
  case (Inr ob)
  then obtain d0 where d0: "replace_windows i (ob_windows ob) t (forget_recovery i d) = Some d0"
    using assms(2) by (auto simp: record_answer_def)
  have ok: "quota_ok d0" using assms(1) by (intro quota_ok_replace [OF _ d0]) simp
  have real: "real_resets (ob_manual_resets ob)" using assms(3) [OF Inr] .
  show ?thesis
  proof (cases "ob_manual_resets ob")
    case Unchanged
    then show ?thesis using assms(2) ok by (auto simp: record_answer_def Inr d0 intro: quota_ok_refreshed)
  next
    case (Reported gs)
    then have "quota_ok (replace_grants i gs d0)" using ok real by (simp add: quota_ok_grants real_resets_def)
    then show ?thesis
      using assms(2) by (auto simp: record_answer_def Inr d0 Reported Let_def intro: quota_ok_refreshed)
  qed
qed

lemma quota_ok_observe: "quota_ok d \<Longrightarrow> quota_ok (observe_credential i f t h d)"
  by (simp add: quota_ok_def observe_credential_def observing.distinct_upsert)

lemma quota_ok_mark: "quota_ok d \<Longrightarrow> quota_ok (mark_unlisted s t d)"
  by (simp add: quota_ok_def mark_unlisted_def map_update_where)

lemma quota_ok_store_files:
  "quota_ok d \<Longrightarrow> store_files cx ids s t fs n d = (ss, n1, d1) \<Longrightarrow> quota_ok d1"
proof (induction fs arbitrary: n d ss)
  case Nil
  then show ?case by simp
next
  case (Cons f fs)
  show ?case
  proof (cases "listed_index f")
    case None
    then show ?thesis using Cons by simp
  next
    case (Some index)
    obtain x d2 where x: "store_file cx (ids n) s t index f d = (x, d2)" by fastforce
    obtain rest where rest: "store_files cx ids s t fs (n + 1) d2 = (rest, n1, d1)"
      using Cons.prems(2) Some x by (auto split: prod.splits)
    obtain i dr where r: "register (ids n) s (listed_provider f)
        (make_account index (listed_kind f) (listed_label f)) t d = (i, dr)" by fastforce
    have "quota_ok dr" using Cons.prems(1) register_keeps(1-4) [OF r] quota_ok_cong by metis
    then have "quota_ok d2" using x r by (auto simp: store_file_def Let_def intro: quota_ok_observe)
    then show ?thesis using Cons.IH rest by blast
  qed
qed

lemma quota_ok_store:
  assumes "quota_ok (qs_db st)" and "store env s l st = (ss, st1)"
  shows "quota_ok (qs_db st1)"
proof -
  obtain ss' n d where l: "store_listing (qe_codecs env) (qe_ids env) s l (qs_minted st) (qs_db st) = (ss', n, d)"
    by (metis prod_cases3)
  obtain ss'' n' d' where f: "store_files (qe_codecs env) (qe_ids env) s (al_observed_at l) (al_files l)
      (qs_minted st) (qs_db st) = (ss'', n', d')" by (metis prod_cases3)
  have "quota_ok d'" using quota_ok_store_files [OF assms(1) f] .
  then have "quota_ok d" using l f by (auto simp: store_listing_def intro: quota_ok_mark split: if_splits)
  then show ?thesis using assms(2) l by (auto simp: store_def Let_def)
qed

lemma run_io_fst: "run_io m st = (x, st1) \<Longrightarrow> fst (m (qs_sent st)) = x"
  unfolding run_io_def by (cases "m (qs_sent st)") simp

lemma fetched_real:
  assumes "run_io (fetch cx w p f x) st = (Inr ob, st1)"
  shows "real_grants ob"
proof -
  have "yields real_grants (fetch cx w p f x)" by (rule any_provider.fetch_grants)
  moreover have "fst (fetch cx w p f x (qs_sent st)) = Inr ob"
    by (rule run_io_fst [OF assms])
  ultimately show ?thesis unfolding yields_def by blast
qed

lemma quota_ok_record_result:
  assumes "quota_ok (qs_db st)" and "record_result env i r t b st = Some st1" and "\<And>ob. r = Inr ob \<Longrightarrow> real_grants ob"
  shows "quota_ok (qs_db st1)"
proof (cases "record_answer (qe_codecs env) i r t b (qs_db st)")
  case None
  then show ?thesis using assms(2) by (simp add: record_result_def Let_def)
next
  case (Some d)
  then have d: "quota_ok d" by (rule quota_ok_record [OF assms(1) _ assms(3)])
  have "st1 = st\<lparr>qs_db := record_differences (clock env st)
      (read_snapshot (Account i) Quota (clock env st) (qs_db st)) d\<rparr>"
    using assms(2) by (simp add: record_result_def Let_def Some)
  with d show ?thesis by simp
qed

lemma quota_ok_clear_resets: "quota_ok (qs_db st) \<Longrightarrow> quota_ok (qs_db (clear_resets env i st))"
  by (simp add: clear_resets_def with_db_def Let_def quota_ok_clear)

text \<open>
  What the reads and the actions keep. They change the database in three ways only, so a
  property that storing a listing, recording an answer and clearing the grants keep is kept by
  every one of them.\<close>

locale quota_kept =
  fixes keeps :: "db \<Rightarrow> bool"
  assumes keeps_store: "\<lbrakk>keeps (qs_db st); store env s l st = (ss, st1)\<rbrakk> \<Longrightarrow> keeps (qs_db st1)"
    and keeps_record: "\<lbrakk>keeps (qs_db st); record_result env i r t b st = Some st1;
      \<And>ob. r = Inr ob \<Longrightarrow> real_grants ob\<rbrakk> \<Longrightarrow> keeps (qs_db st1)"
    and keeps_clear: "keeps (qs_db st) \<Longrightarrow> keeps (qs_db (clear_resets env i st))"
begin

lemma keeps_run: "run_io m st = (x, st1) \<Longrightarrow> keeps (qs_db st1) = keeps (qs_db st)"
  by (simp add: run_io_db)

lemma keeps_refresh_each: "keeps (qs_db st) \<Longrightarrow> keeps (qs_db (snd (refresh_each env ts r st)))"
proof (induction ts arbitrary: r st)
  case Nil
  then show ?case by simp
next
  case (Cons x ts)
  obtain i f p where x: "x = (i, f, p)" by (cases x)
  obtain a st1 where a: "run_io (fetch (qe_codecs env) (qe_world env) p f (sent_index f)) st = (a, st1)" by fastforce
  have ok: "keeps (qs_db st1)" using Cons.prems keeps_run [OF a] by simp
  show ?case
  proof (cases "record_result env i a (clock env st1) True st1")
    case None
    then show ?thesis using ok by (simp add: x a)
  next
    case (Some st2)
    have "keeps (qs_db st2)" using keeps_record [OF ok Some] fetched_real a by blast
    then show ?thesis using Cons.IH Some by (simp add: x a)
  qed
qed

lemma keeps_refresh_sources:
  "keeps (qs_db st) \<Longrightarrow> keeps (qs_db (snd (refresh_sources env only automatic t srcs found r st)))"
proof (induction srcs arbitrary: found r st)
  case Nil
  then show ?case by simp
next
  case (Cons src srcs)
  obtain s c where src: "src = (s, c)" by (cases src)
  obtain l st1 where l: "run_io (list_auth_files (qe_codecs env) (qe_world env)) st = (l, st1)" by fastforce
  have 1: "keeps (qs_db st1)" using Cons.prems keeps_run [OF l] by simp
  show ?case
  proof (cases l)
    case (Inl e)
    then show ?thesis using 1 Cons.IH by (cases only) (simp_all add: src l Let_def)
  next
    case (Inr listing)
    obtain ss st2 where ss: "store env (s_id (so_row s)) listing st1 = (ss, st2)" by fastforce
    have 2: "keeps (qs_db st2)" by (rule keeps_store [OF 1 ss])
    obtain fresh r1 where fresh: "split_reused (\<lambda>i. reuse_recent (qe_codecs env) (qs_db st2) ''hard_refresh'' i t)
        (refresh_targets only automatic ss) r = (fresh, r1)" by fastforce
    obtain res st3 where res: "refresh_each env fresh r1 st2 = (res, st3)" by fastforce
    have "keeps (qs_db st3)" using keeps_refresh_each [OF 2, of env fresh r1] res by simp
    then show ?thesis using Cons.IH by (cases res) (simp_all add: src l Inr ss fresh res Let_def)
  qed
qed

lemma keeps_refresh: "keeps (qs_db st) \<Longrightarrow> keeps (qs_db (snd (refresh_inner env only automatic st)))"
  using keeps_refresh_sources [of st env only automatic "clock env st"
    "quota_sources env (Option.bind only (account_source (qs_db st))) (qs_db st)" False no_refresh]
  by (auto simp: refresh_inner_def Let_def split: prod.splits sum.splits)

lemma keeps_sync_each: "keeps (qs_db st) \<Longrightarrow> keeps (qs_db (snd (sync_each env srcs st)))"
proof (induction srcs arbitrary: st)
  case Nil
  then show ?case by simp
next
  case (Cons src srcs)
  obtain s c where src: "src = (s, c)" by (cases src)
  obtain l st1 where l: "run_io (list_auth_files (qe_codecs env) (qe_world env)) st = (l, st1)" by fastforce
  have 1: "keeps (qs_db st1)" using Cons.prems keeps_run [OF l] by simp
  show ?case
  proof (cases l)
    case (Inl e)
    then show ?thesis using Cons.IH [OF 1] by (simp add: src l Let_def split: prod.split) (metis snd_conv)
  next
    case (Inr listing)
    obtain ss st2 where ss: "store env (s_id (so_row s)) listing st1 = (ss, st2)" by fastforce
    then show ?thesis using Cons.IH keeps_store [OF 1 ss] by (simp add: src l Inr)
  qed
qed

lemma keeps_reset_cooldowns:
  "keeps (qs_db st) \<Longrightarrow> keeps (qs_db (snd (snd (reset_cooldowns env only t ts found r st))))"
proof (induction ts arbitrary: found r st)
  case Nil
  then show ?case by simp
next
  case (Cons x ts)
  obtain i f p where x: "x = (i, f, p)" by (cases x)
  obtain a st1 where a: "run_io (reset_cooldown (qe_codecs env) (qe_world env) (sent_index f)) st = (a, st1)" by fastforce
  have "keeps (qs_db st1)" using Cons.prems keeps_run [OF a] by simp
  then have IH: "keeps (qs_db (snd (snd (reset_cooldowns env only t ts b r st1))))"
    "keeps (qs_db (snd (snd (reset_cooldowns env only t ts b r st))))" for b r
    using Cons by blast+
  show ?case
    using IH by (cases "reuse_recent (qe_codecs env) (qs_db st) ''cooldown_reset'' i t")
      (auto simp: x a)
qed

lemma keeps_cooldown_sources:
  "keeps (qs_db st) \<Longrightarrow> keeps (qs_db (snd (snd (cooldown_sources env only t srcs found r st))))"
proof (induction srcs arbitrary: found r st)
  case Nil
  then show ?case by simp
next
  case (Cons src srcs)
  obtain s c where src: "src = (s, c)" by (cases src)
  obtain l st1 where l: "run_io (list_auth_files (qe_codecs env) (qe_world env)) st = (l, st1)" by fastforce
  have 1: "keeps (qs_db st1)" using Cons.prems keeps_run [OF l] by simp
  show ?case
  proof (cases l)
    case (Inl e)
    then show ?thesis using 1 Cons.IH by (simp add: src l Let_def)
  next
    case (Inr listing)
    obtain ss st2 where ss: "store env (s_id (so_row s)) listing st1 = (ss, st2)" by fastforce
    obtain f1 r1 st3 where k: "reset_cooldowns env only t ss found r st2 = (f1, r1, st3)" by (metis prod_cases3)
    have 3: "keeps (qs_db st3)" using keeps_reset_cooldowns [OF keeps_store [OF 1 ss], of env only t ss found r] k by simp
    obtain m st4 where m: "run_io (list_auth_files (qe_codecs env) (qe_world env)) st3 = (m, st4)" by fastforce
    have 4: "keeps (qs_db st4)" using 3 keeps_run [OF m] by simp
    show ?thesis
    proof (cases m)
      case (Inl e)
      then show ?thesis using 4 Cons.IH by (simp add: src l \<open>l = Inr listing\<close> ss k m Let_def)
    next
      case (Inr again)
      obtain ss' st5 where ss': "store env (s_id (so_row s)) again st4 = (ss', st5)" by fastforce
      then show ?thesis using Cons.IH keeps_store [OF 4 ss']
        by (simp add: src l \<open>l = Inr listing\<close> ss k m Inr Let_def)
    qed
  qed
qed

lemma keeps_cooldown: "keeps (qs_db st) \<Longrightarrow> keeps (qs_db (snd (cooldown_reset env i st)))"
proof -
  assume ok: "keeps (qs_db st)"
  show ?thesis
  proof (cases "account_source (qs_db st) i")
    case None
    then show ?thesis using ok by (simp add: cooldown_reset_def)
  next
    case (Some s)
    obtain f r st1 where c: "cooldown_sources env i (clock env st)
        (quota_sources env (Some s) (qs_db st)) False no_refresh st = (f, r, st1)" by (metis prod_cases3)
    then have "keeps (qs_db st1)" using keeps_cooldown_sources [OF ok, of env i "clock env st"
      "quota_sources env (Some s) (qs_db st)" False no_refresh] by simp
    then show ?thesis by (simp add: cooldown_reset_def Some c Let_def)
  qed
qed

lemma keeps_after_reset: "keeps (qs_db st) \<Longrightarrow> keeps (qs_db (snd (after_reset env i f p st)))"
proof -
  assume ok: "keeps (qs_db st)"
  obtain a st1 where a: "run_io (reset_cooldown (qe_codecs env) (qe_world env) (sent_index f)) st = (a, st1)" by fastforce
  obtain b st2 where b: "run_io (fetch (qe_codecs env) (qe_world env) p f (sent_index f)) st1 = (b, st2)" by fastforce
  have oks: "keeps (qs_db st1)" "keeps (qs_db st2)" using ok keeps_run [OF a] keeps_run [OF b] by auto
  show ?thesis
  proof (cases a)
    case (Inl e)
    have "keeps (qs_db st3)" if "record_result env i (Inl (Management e)) (clock env st1) False st1 = Some st3" for st3
      by (rule keeps_record [OF oks(1) that]) simp
    then show ?thesis using oks by (auto simp: after_reset_def a Inl Let_def split: option.splits)
  next
    case (Inr u)
    have "keeps (qs_db st3)" if "record_result env i b (clock env st2) False st2 = Some st3" for st3
      using keeps_record [OF oks(2) that] fetched_real b by blast
    then show ?thesis using oks by (auto simp: after_reset_def a b Inr Let_def split: option.splits)
  qed
qed

lemma keeps_spend_listed: "keeps (qs_db st) \<Longrightarrow> keeps (qs_db (snd (spend_listed env i ss st)))"
proof -
  assume ok: "keeps (qs_db st)"
  have "keeps (qs_db st2)" if "run_io (spend_reset cx w p f x) (clear_resets env i st) = (a, st2)" for cx w p f x a st2
    using keeps_run [OF that] keeps_clear [OF ok, of env i] by simp
  then show ?thesis using ok keeps_after_reset
    by (fastforce simp: spend_listed_def split: option.splits prod.splits sum.splits)
qed

lemma keeps_spend: "keeps (qs_db st) \<Longrightarrow> keeps (qs_db (snd (spend_manual_reset env i st)))"
proof -
  assume ok: "keeps (qs_db st)"
  obtain l st1 where l: "run_io (list_auth_files (qe_codecs env) (qe_world env)) st = (l, st1)" by fastforce
  have 1: "keeps (qs_db st1)" using ok keeps_run [OF l] by simp
  have "keeps (qs_db (snd (spend_listed env i ss st2)))" if "store env s x st1 = (ss, st2)" for s x ss st2
    by (rule keeps_spend_listed [OF keeps_store [OF 1 that]])
  then show ?thesis using ok 1
    by (auto simp: spend_manual_reset_def l Let_def split: option.splits list.splits prod.splits sum.splits)
qed

lemma keeps_sync: "keeps (qs_db st) \<Longrightarrow> keeps (qs_db (snd (sync env only st)))"
  by (simp add: sync_def keeps_sync_each)

end

interpretation well_formed: quota_kept quota_ok
  by unfold_locales (rule quota_ok_store quota_ok_record_result quota_ok_clear_resets; assumption?)+

text \<open>
  C27: The quota tables stay well formed through every read and action: one row per credential
  and per window of an account, every used fraction and every sample between zero and one, and
  every stored grant with a reset left. The soft sync, the hard refresh of one or all
  accounts, by a human or not, the cooldown reset and the manual reset all keep it, whatever
  the gateway and the providers answer and wherever they fail.\<close>

theorem quota_tables_stay_typed:
  assumes "quota_ok (qs_db st)"
  shows "quota_ok (qs_db (snd (sync env only_source st))) \<and>
    quota_ok (qs_db (snd (refresh_inner env only automatic st))) \<and>
    quota_ok (qs_db (snd (cooldown_reset env i st))) \<and>
    quota_ok (qs_db (snd (spend_manual_reset env i st)))"
  using assms well_formed.keeps_sync well_formed.keeps_refresh
    well_formed.keeps_cooldown well_formed.keeps_spend by blast

section \<open>A concrete quota state\<close>

definition half_full :: db where
  "half_full = expired_db\<lparr>samples := [\<lparr>q_account = 2, q_window = ''week'', q_started_at = 1,
     q_observed_at = 5, q_used_fraction = 1 / 2\<rparr>]\<rparr>"

definition silent_world :: world where
  "silent_world = \<lparr>wo_answer = (\<lambda>_ _. Inl (Some ''connection refused'')), wo_now = (\<lambda>_. 100),
     wo_random = (\<lambda>_. 7)\<rparr>"

definition silent_env :: quota_env where
  "silent_env = \<lparr>qe_codecs = plain_codecs, qe_world = silent_world, qe_ids = (\<lambda>n. 50 + int n),
     qe_config = \<lparr>cg_sources = [], cg_pricing = \<lparr>pc_litellm_source = None,
       pc_public_map_url = PUBLIC_PRICE_MAP_URL, pc_refresh_hours = 24, pc_priced_as = []\<rparr>\<rparr>\<rparr>"

theorem quota_tables_stay_typed_witness:
  "quota_ok (qs_db (snd (spend_manual_reset silent_env 2 \<lparr>qs_db = half_full, qs_sent = [], qs_minted = 0\<rparr>)))"
proof -
  let ?st = "\<lparr>qs_db = half_full, qs_sent = [], qs_minted = 0\<rparr>"
  have "quota_ok (qs_db ?st)"
    by (simp add: quota_ok_def half_full_def expired_db_def empty_db_def unit_fraction_def)
  from quota_tables_stay_typed [OF this, of silent_env None None False 2] show ?thesis by blast
qed

end
