(* ===== verification/Outputs.thy ===== *)
theory Outputs
  imports Listings
begin

text \<open>
  The wire types of accounts and quotas (\<^verbatim>\<open>src/http/api/quota_output.rs\<close>,
  \<^verbatim>\<open>src/http/api/account.rs\<close>) and conditional reads (\<^verbatim>\<open>src/http/conditional.rs\<close>).

  A wire type is the JSON object poem-openapi makes of it: a field that is absent is left out,
  and the fields of an object are in the order of their names, as \<^verbatim>\<open>serde_json\<close> keeps them. An
  instant is printed by the codecs' \<^verbatim>\<open>cx_print_instant\<close>, \<^verbatim>\<open>Timestamp::to_string\<close>.
\<close>

section \<open>Objects\<close>

definition json_object :: "(string \<times> json option) list \<Rightarrow> json" where
  "json_object fs =
     JObject (sort_key fst (List.map_filter (\<lambda>(k, v). map_option (Pair k) v) fs))"

definition json_text :: "string option \<Rightarrow> json option" where
  "json_text t = map_option JString t"

definition json_count :: "int option \<Rightarrow> json option" where
  "json_count n = map_option JInt n"

definition json_number :: "rat option \<Rightarrow> json option" where
  "json_number x = map_option JFloat x"

definition json_flag :: "bool \<Rightarrow> json option" where
  "json_flag b = Some (JBool b)"

definition json_list :: "('a \<Rightarrow> json) \<Rightarrow> 'a list \<Rightarrow> json option" where
  "json_list f xs = Some (JArray (map f xs))"

definition json_instant :: "codecs \<Rightarrow> instant option \<Rightarrow> json option" where
  "json_instant cx t = map_option (\<lambda>t. JString (cx_print_instant cx t)) t"

definition json_id :: "id option \<Rightarrow> json option" where
  "json_id i = map_option (\<lambda>i. JString (encode_id i)) i"

definition api_error :: "string \<Rightarrow> json" where
  "api_error text = json_object [(''message'', Some (JString text))]"

section \<open>Windows\<close>

definition prediction_output :: "codecs \<Rightarrow> prediction \<Rightarrow> json" where
  "prediction_output cx p = json_object
     [(''used_fraction'', Some (JFloat (pr_used_fraction p))),
      (''resets_at'', json_instant cx (pr_resets_at p)),
      (''has_reset'', json_flag (pr_has_reset p))]"

definition outlier_output :: "codecs \<Rightarrow> outlier \<Rightarrow> json" where
  "outlier_output cx l = json_object
     [(''started_at'', json_instant cx (Some (ol_started_at l))),
      (''fraction_per_usd'', Some (JFloat (ol_rate l)))]"

definition calibration_output :: "codecs \<Rightarrow> calibration \<Rightarrow> json" where
  "calibration_output cx c = json_object
     [(''fraction_per_usd'', Some (JFloat (ca_fraction_per_usd c))),
      (''windows'', Some (JInt (min (int (ca_windows c)) (2 ^ 32 - 1)))),
      (''outliers'', json_list (outlier_output cx) (ca_outliers c))]"

definition window_output ::
  "codecs \<Rightarrow> window_row \<times> calibration option \<times> prediction option option \<Rightarrow> json" where
  "window_output cx listed =
     (case listed of (w, learned, predicted) \<Rightarrow> json_object
        [(''window_key'', Some (JString (w_key w))),
         (''label'', Some (JString (w_label w))),
         (''used_fraction'', json_number (w_used_fraction w)),
         (''used_value'', json_number (w_used_value w)),
         (''limit_value'', json_number (w_limit_value w)),
         (''unit'', json_text (w_unit w)),
         (''window_seconds'', json_count (w_seconds w)),
         (''resets_at'', json_instant cx (w_resets_at w)),
         (''observed_at'', json_instant cx (Some (w_observed_at w))),
         (''prediction'', map_option (prediction_output cx) (Option.bind predicted (\<lambda>p. p))),
         (''calibration'', map_option (calibration_output cx) learned)])"

section \<open>Accounts and their quota\<close>

definition cooldown_output :: "codecs \<Rightarrow> cooldown \<Rightarrow> json" where
  "cooldown_output cx c = json_object
     [(''scope'', Some (JString (cd_scope c))),
      (''model_key'', json_text (cd_model_key c)),
      (''reason'', Some (JString (cd_reason c))),
      (''retry_at'', json_instant cx (Some (cd_retry_at c))),
      (''remaining_seconds'', json_count (Some (cd_remaining_seconds c)))]"

definition manual_reset_output :: "codecs \<Rightarrow> bool \<Rightarrow> grant \<Rightarrow> json" where
  "manual_reset_output cx spendable g = json_object
     [(''label'', json_text (g_label g)),
      (''remaining'', json_count (Some (g_remaining g))),
      (''total'', json_count (g_total g)),
      (''expires_at'', json_instant cx (g_expires_at g)),
      (''spendable'', json_flag spendable)]"

definition auth_kind_output :: "auth_kind \<Rightarrow> json" where
  "auth_kind_output k = JString
     (case k of OAuth \<Rightarrow> ''oauth'' | ApiKey \<Rightarrow> ''api_key'' | UnknownAuth \<Rightarrow> ''unknown'')"

definition sign_in_error_output :: "sign_in_error \<Rightarrow> json" where
  "sign_in_error_output e = (case e of Expired \<Rightarrow> JString ''expired'')"

definition reauthentication_output :: "reauthentication \<Rightarrow> json" where
  "reauthentication_output r = json_object
     [(''url'', Some (JString (ra_url r))), (''button'', Some (JString (ra_button r)))]"

definition summary_fields :: "account_row \<Rightarrow> string \<Rightarrow> (string \<times> json option) list" where
  "summary_fields a source_name =
     [(''account_id'', json_id (Some (a_id a))),
      (''source_id'', json_id (Some (a_source a))),
      (''source_name'', Some (JString source_name)),
      (''provider'', Some (JString (a_provider a))),
      (''auth_kind'', Some (auth_kind_output (a_auth a))),
      (''label'', json_text (a_label a)),
      (''display_name'', json_text (a_display a))]"

definition summary_output :: "account_row \<Rightarrow> string \<Rightarrow> json" where
  "summary_output a source_name = json_object (summary_fields a source_name)"

definition quota_account_output :: "codecs \<Rightarrow> quota_account \<Rightarrow> json" where
  "quota_account_output cx q =
     (let c = qt_credential q in json_object
        [(''account'', Some (summary_output (qt_account q) (s_name (qt_source q)))),
         (''status'', json_text (c_status c)),
         (''status_message'', json_text (c_status_message c)),
         (''disabled'', json_flag (c_disabled c)),
         (''unavailable'', json_flag (c_unavailable c)),
         (''next_retry_after'', json_instant cx (c_next_retry c)),
         (''cooldowns'', json_list (cooldown_output cx) (c_cooldowns c)),
         (''account_type'', json_text (c_type c)),
         (''plan'', json_text (c_plan c)),
         (''soft_observed_at'', json_instant cx (c_soft_at c)),
         (''hard_refreshed_at'', json_instant cx (c_hard_at c)),
         (''hard_refresh_error'', json_text (c_hard_error c)),
         (''sign_in_error'', map_option sign_in_error_output (c_sign_in c)),
         (''reauthentication'', map_option reauthentication_output (qt_reauthentication q)),
         (''hard_refreshable'', json_flag (c_hard_refreshable c)),
         (''removed_at'', json_instant cx (c_removed c)),
         (''last_used_at'', json_instant cx (qt_last_used_at q)),
         (''windows'', json_list (window_output cx) (qt_windows q)),
         (''manual_resets'', json_list (manual_reset_output cx (spends_resets q)) (qt_manual_resets q))])"

definition quota_list :: "codecs \<Rightarrow> quota_account list \<Rightarrow> json" where
  "quota_list cx qs = json_object [(''accounts'', json_list (quota_account_output cx) qs)]"

text \<open>The answer of a read: the list, and which refreshes the token may ask for.\<close>

definition refresh_permissions :: "bool \<Rightarrow> bool \<Rightarrow> json" where
  "refresh_permissions soft hard = json_object [(''soft'', json_flag soft), (''hard'', json_flag hard)]"

definition quota_listing :: "codecs \<Rightarrow> quota_account list \<Rightarrow> bool \<Rightarrow> bool \<Rightarrow> json" where
  "quota_listing cx qs soft hard = json_object
     [(''accounts'', json_list (quota_account_output cx) qs),
      (''refresh_permissions'', Some (refresh_permissions soft hard))]"

definition source_failure_output :: "source_failure \<Rightarrow> json" where
  "source_failure_output failure = json_object
     [(''source'', Some (JString (fst failure))),
      (''message'', Some (JString (management_error_text (snd failure))))]"

definition shared_action_output :: "shared_action \<Rightarrow> json" where
  "shared_action_output a = json_object
     [(''action_id'', json_count (Some (sh_action_id a))),
      (''requested_by'', Some (JString (sh_requested_by a))),
      (''requested_at'', Some (JString (sh_requested_at a))),
      (''finished_at'', Some (JString (sh_finished_at a)))]"

definition quota_refresh :: "codecs \<Rightarrow> refresh \<Rightarrow> quota_account list \<Rightarrow> json" where
  "quota_refresh cx r qs = json_object
     [(''refreshed'', json_count (Some (rf_refreshed r))),
      (''failed'', json_count (Some (rf_failed r))),
      (''source_failures'', json_list source_failure_output (rf_unreachable r)),
      (''shared_actions'', json_list shared_action_output (rf_shared r)),
      (''accounts'', json_list (quota_account_output cx) qs)]"

definition credential_output :: "codecs \<Rightarrow> account_row \<times> string \<Rightarrow> json" where
  "credential_output cx previous = json_object
     [(''account'', Some (summary_output (fst previous) (snd previous))),
      (''first_seen_at'', json_instant cx (Some (a_first (fst previous)))),
      (''last_seen_at'', json_instant cx (Some (a_last (fst previous))))]"

definition account_json ::
  "codecs \<Rightarrow> account_output \<Rightarrow> sign_in_error option \<times> reauthentication option \<Rightarrow> json" where
  "account_json cx out sign_in =
     (let a = ao_row out in json_object
        (summary_fields a (ao_source_name out) @
         [(''merged_into_account_id'', json_id (a_merged a)),
          (''account_type'', json_text (ao_type out)),
          (''plan'', json_text (ao_plan out)),
          (''status'', json_text (ao_status out)),
          (''disabled'', json_flag (ao_disabled out)),
          (''sign_in_error'', map_option sign_in_error_output (fst sign_in)),
          (''reauthentication'', map_option reauthentication_output (snd sign_in)),
          (''removed_at'', json_instant cx (ao_removed out)),
          (''last_used_at'', json_instant cx (ao_last_used out)),
          (''first_seen_at'', json_instant cx (Some (a_first a))),
          (''last_seen_at'', json_instant cx (Some (a_last a))),
          (''event_count'', json_count (Some (int (ao_event_count out)))),
          (''credentials'', json_list (credential_output cx) (ao_credentials out)),
          (''plan_continuation_account_ids'', json_list (\<lambda>i. JString (encode_id i)) (ao_continuations out)),
          (''replaced_by_account_id'', json_id (ao_replaced_by out))]))"

section \<open>Responses and conditional reads\<close>

text \<open>A response has a status, its headers with names in lower case, and a body.\<close>

record response =
  rs_status :: int
  rs_headers :: "(string \<times> string) list"
  rs_body :: string

definition json_type :: string where
  "json_type = ''application/json; charset=utf-8''"

definition json_response :: "codecs \<Rightarrow> int \<Rightarrow> json \<Rightarrow> response" where
  "json_response cx status j =
     \<lparr>rs_status = status, rs_headers = [(''content-type'', json_type)], rs_body = cx_print cx j\<rparr>"

fun join_with :: "string \<Rightarrow> string list \<Rightarrow> string" where
  "join_with sep [] = []"
| "join_with sep [x] = x"
| "join_with sep (x # y # xs) = x @ sep @ join_with sep (y # xs)"

definition names :: "string \<Rightarrow> string \<Rightarrow> bool" where
  "names header tag \<longleftrightarrow>
     (\<exists>candidate\<in>set (map trim (split_on CHR '','' header)).
        candidate = ''*'' \<or> unwrap_or candidate (strip_prefix ''W/'' candidate) = tag)"

definition entity_tag :: "(string \<Rightarrow> string) \<Rightarrow> string \<Rightarrow> string" where
  "entity_tag hash body = CHR 34 # hash body @ [CHR 34]"

definition conditional :: "(string \<Rightarrow> string) \<Rightarrow> string list \<Rightarrow> response \<Rightarrow> response" where
  "conditional hash if_none_match r =
     (if rs_status r \<noteq> 200 then r
      else let tag = entity_tag hash (rs_body r)
           in if names (join_with '','' if_none_match) tag
              then \<lparr>rs_status = 304, rs_headers = [(''etag'', tag)], rs_body = []\<rparr>
              else r\<lparr>rs_headers := (''etag'', tag) # filter (\<lambda>(n, _). n \<noteq> ''etag'') (rs_headers r)\<rparr>)"

end
