(* ===== verification/Auth.thy ===== *)
theory Auth
  imports Outputs
begin

text \<open>
  Who may call what (\<^verbatim>\<open>src/http/auth.rs\<close>): the tokens the API admits, the operations each
  reaches, and the guard in front of every operation. A request is modelled by its method, the
  path under the mount, its header lines with names in lower case, and its body.
\<close>

section \<open>Requests\<close>

datatype http_method = GET | POST | PUT | PATCH | DELETE | OtherMethod string

record http_request =
  hr_method :: http_method
  hr_path :: string
  hr_headers :: "(string \<times> string) list"
  hr_body :: string

text \<open>\<^verbatim>\<open>HeaderValue::to_str\<close>: visible ASCII, spaces and tabs.\<close>

definition visible :: "char \<Rightarrow> bool" where
  "visible c \<longleftrightarrow> (let n = of_char c :: nat in 32 \<le> n \<and> n < 127 \<or> n = 9)"

definition to_str :: "string \<Rightarrow> string option" where
  "to_str v = (if list_all visible v then Some v else None)"

definition header_lines :: "http_request \<Rightarrow> string \<Rightarrow> string list" where
  "header_lines r name = map snd (filter (\<lambda>(n, _). n = name) (hr_headers r))"

definition header_text :: "http_request \<Rightarrow> string \<Rightarrow> string option" where
  "header_text r name = (case header_lines r name of [] \<Rightarrow> None | v # _ \<Rightarrow> to_str v)"

section \<open>Tokens\<close>

definition SESSION_COOKIE :: string where "SESSION_COOKIE = ''metered_usage_session''"

definition COOKIE_ATTRIBUTES :: string where
  "COOKIE_ATTRIBUTES = ''HttpOnly; SameSite=Strict; Path=/''"

type_synonym token = string

definition byte_of :: "char \<Rightarrow> u8" where
  "byte_of c = of_nat (of_char c)"

definition token_matches :: "token \<Rightarrow> string \<Rightarrow> bool" where
  "token_matches token candidate =
     (if length token \<noteq> length candidate then False
      else fold (\<lambda>(left, right) difference. or difference (xor (byte_of left) (byte_of right)))
             (zip token candidate) 0 = 0)"

definition split_pair :: "char \<Rightarrow> string \<Rightarrow> (string \<times> string) option" where
  "split_pair c s =
     (if c \<in> set s then Some (takeWhile (\<lambda>x. x \<noteq> c) s, tl (dropWhile (\<lambda>x. x \<noteq> c) s)) else None)"

definition cookies :: "http_request \<Rightarrow> (string \<times> string) list" where
  "cookies r =
     List.map_filter (\<lambda>pair. split_pair CHR ''='' (trim pair))
       (concat (map (split_on CHR '';'') (List.map_filter to_str (header_lines r ''cookie''))))"

definition presented :: "token \<Rightarrow> http_request \<Rightarrow> string option" where
  "presented token r =
     (let bearer = Option.bind (header_text r ''authorization'') (strip_prefix ''Bearer '')
      in if (case bearer of None \<Rightarrow> False | Some b \<Rightarrow> token_matches token b) then Some ''bearer''
         else if \<exists>(name, v)\<in>set (cookies r). name = SESSION_COOKIE \<and> token_matches token v
         then Some ''session'' else None)"

definition session_cookie :: "token \<Rightarrow> string" where
  "session_cookie token = SESSION_COOKIE @ ''='' @ token @ ''; '' @ COOKIE_ATTRIBUTES"

definition cleared_cookie :: string where
  "cleared_cookie = SESSION_COOKIE @ ''=; '' @ COOKIE_ATTRIBUTES @ ''; Max-Age=0''"

definition new_token :: "string \<Rightarrow> token option" where
  "new_token v = (if v = [] then None else Some v)"

section \<open>Roles\<close>

definition OPEN :: "(http_method \<times> string) list" where
  "OPEN = [(GET, ''/health''), (POST, ''/session''), (GET, ''/session'')]"

definition CONSUMER_READS :: "string list" where
  "CONSUMER_READS =
     [''/events'', ''/quota'', ''/quota/actions'', ''/prices'', ''/accounts'', ''/usage/summary'',
      ''/plans'', ''/leverage'', ''/analytics/health'']"

definition CONSUMER_ACTIONS :: "string list" where
  "CONSUMER_ACTIONS = [''/quota/sync'', ''/quota/refresh'']"

datatype role = Admin | Read | Consumer

record tokens =
  tk_token :: token
  tk_read :: "token option"
  tk_consumer :: "token option"

record identity =
  idn_credential :: string
  idn_transport :: string

fun reaches :: "role \<Rightarrow> http_method \<Rightarrow> string \<Rightarrow> bool" where
  "reaches Admin m path = True"
| "reaches Read m path = (m = GET)"
| "reaches Consumer m path =
     (m = GET \<and> path \<in> set CONSUMER_READS \<or> m = POST \<and> path \<in> set CONSUMER_ACTIONS)"

fun role_credential :: "role \<Rightarrow> string" where
  "role_credential Admin = ''admin''"
| "role_credential Read = ''read''"
| "role_credential Consumer = ''consumer''"

definition admit :: "tokens \<Rightarrow> http_request \<Rightarrow> http_method \<Rightarrow> string \<Rightarrow> identity option" where
  "admit ts r m path =
     (case List.map_filter
         (\<lambda>(role, token). map_option (\<lambda>t. \<lparr>idn_credential = role_credential role, idn_transport = t\<rparr>)
            (Option.bind token (\<lambda>t. presented t r)))
         (filter (\<lambda>(role, _). reaches role m path)
           [(Admin, Some (tk_token ts)), (Read, tk_read ts), (Consumer, tk_consumer ts)]) of
        [] \<Rightarrow> None | i # _ \<Rightarrow> Some i)"

section \<open>The guard\<close>

definition is_open :: "http_request \<Rightarrow> bool" where
  "is_open r \<longleftrightarrow> (hr_method r, hr_path r) \<in> set OPEN"

definition unauthorized :: "codecs \<Rightarrow> response" where
  "unauthorized cx =
     \<lparr>rs_status = 401, rs_headers = [(''content-type'', ''application/json'')],
      rs_body = cx_print cx (JObject [(''message'', JString ''a credential is required'')])\<rparr>"

text \<open>The operation behind the guard is given the identity, absent for an open operation.\<close>

definition require_credential ::
  "codecs \<Rightarrow> tokens \<Rightarrow> (identity option \<Rightarrow> http_request \<Rightarrow> 's \<Rightarrow> response \<times> 's) \<Rightarrow> http_request \<Rightarrow>
    's \<Rightarrow> response \<times> 's" where
  "require_credential cx ts inner r st =
     (if is_open r then inner None r st
      else case admit ts r (hr_method r) (hr_path r) of
             None \<Rightarrow> (unauthorized cx, st)
           | Some i \<Rightarrow> inner (Some i) r st)"

section \<open>Properties\<close>

lemma byte_of_eq [simp]: "byte_of a = byte_of b \<longleftrightarrow> a = b"
proof
  assume "byte_of a = byte_of b"
  then have "unat (byte_of a) = unat (byte_of b)" by simp
  moreover have "unat (byte_of c) = of_char c" for c
    by (simp add: byte_of_def unat_of_nat)
  ultimately show "a = b" by simp
qed simp

lemma differences_fold:
  "fold (\<lambda>(l, r) d. or d (xor (byte_of l) (byte_of r))) ps d = 0 \<longleftrightarrow> d = 0 \<and> (\<forall>(l, r)\<in>set ps. l = r)"
proof (induction ps arbitrary: d)
  case Nil
  then show ?case by simp
next
  case (Cons p ps)
  have "or d x = 0 \<longleftrightarrow> d = 0 \<and> x = 0" for x :: u8
    by (auto simp: bit_eq_iff bit_or_iff)
  moreover have "xor x y = 0 \<longleftrightarrow> x = y" for x y :: u8
    by (auto simp: bit_eq_iff bit_xor_iff)
  ultimately show ?case using Cons by (cases p) auto
qed

lemma token_matches_iff [simp]: "token_matches token candidate \<longleftrightarrow> candidate = token"
proof (cases "length token = length candidate")
  case True
  then have "(\<forall>(l, r)\<in>set (zip token candidate). l = r) \<longleftrightarrow> candidate = token"
    by (induction token candidate rule: list_induct2) auto
  then show ?thesis using True by (simp add: token_matches_def differences_fold)
qed (auto simp: token_matches_def)


definition bears :: "token \<Rightarrow> http_request \<Rightarrow> bool" where
  "bears token r \<longleftrightarrow> header_text r ''authorization'' = Some (''Bearer '' @ token) \<or>
     (SESSION_COOKIE, token) \<in> set (cookies r)"

lemma presented_iff: "presented token r \<noteq> None \<longleftrightarrow> bears token r"
proof -
  have prefix: "(case Option.bind h (strip_prefix p) of None \<Rightarrow> False | Some b \<Rightarrow> token_matches token b) \<longleftrightarrow>
      h = Some (p @ token)" for h p
    using strip_prefix_Some_iff [of p] by (cases h) (auto split: option.split)
  then show ?thesis unfolding presented_def bears_def Let_def by auto
qed

lemma admit_SomeD:
  assumes "admit ts r m path = Some i"
  shows "bears (tk_token ts) r \<or> (\<exists>t. tk_read ts = Some t \<and> bears t r \<and> m = GET) \<or>
    (\<exists>t. tk_consumer ts = Some t \<and> bears t r \<and> reaches Consumer m path)"
  using assms presented_iff
  by (auto simp: admit_def List.map_filter_simps bind_eq_Some_conv split: if_splits option.splits)

text \<open>
  C25: Only the full token changes anything. Whatever an operation does, a request that is not a
  GET changes the service only if it opens a session, bears the token itself, or is one of
  the two refreshes and bears the consumer's token. In particular no other token spends a
  reset, clears a cooldown or changes a price, a plan or an account.\<close>

theorem narrow_tokens_change_nothing:
  assumes "snd (require_credential cx ts inner r st) \<noteq> st" and "hr_method r \<noteq> GET"
  shows "hr_method r = POST \<and> hr_path r = ''/session'' \<or> bears (tk_token ts) r \<or>
    hr_method r = POST \<and> hr_path r \<in> {''/quota/sync'', ''/quota/refresh''} \<and>
      (\<exists>t. tk_consumer ts = Some t \<and> bears t r)"
proof (cases "is_open r")
  case True
  then show ?thesis using assms(2) by (auto simp: is_open_def OPEN_def)
next
  case False
  then obtain i where "admit ts r (hr_method r) (hr_path r) = Some i"
    using assms(1) by (auto simp: require_credential_def split: option.splits)
  from admit_SomeD [OF this] assms(2) show ?thesis by (auto simp: CONSUMER_ACTIONS_def)
qed

definition click :: http_request where
  "click = \<lparr>hr_method = POST, hr_path = ''/quota/sync'',
     hr_headers = [(''authorization'', ''Bearer kettle'')], hr_body = []\<rparr>"

theorem narrow_tokens_change_nothing_witness:
  "\<exists>t. tk_consumer \<lparr>tk_token = ''full'', tk_read = None, tk_consumer = Some ''kettle''\<rparr> = Some t \<and> bears t click"
proof -
  let ?ts = "\<lparr>tk_token = ''full'', tk_read = None, tk_consumer = Some ''kettle''\<rparr>"
  let ?inner = "\<lambda>_ _ n. (unauthorized plain_codecs, Suc n)"
  have no: "\<not> bears ''full'' click" by (simp add: bears_def click_def header_text_def header_lines_def
      to_str_def cookies_def List.map_filter_def)
  have b: "header_text click ''authorization'' = Some ''Bearer kettle''" by code_simp
  have "presented ''kettle'' click = Some ''bearer''"
    by (simp add: presented_def b strip_prefix_def Let_def)
  moreover have "presented ''full'' click = None" using no presented_iff by blast
  ultimately have "admit ?ts click POST ''/quota/sync'' \<noteq> None"
    by (simp add: admit_def List.map_filter_simps CONSUMER_ACTIONS_def)
  moreover have "\<not> is_open click" by (simp add: is_open_def OPEN_def click_def)
  ultimately have "snd (require_credential plain_codecs ?ts ?inner click (0 :: nat)) \<noteq> 0"
    by (auto simp: require_credential_def click_def)
  from narrow_tokens_change_nothing [OF this] no show ?thesis by (simp add: click_def)
qed

end
