(* ===== verification/Handlers.thy ===== *)
theory Handlers
  imports Auth
begin

text \<open>
  The operations of \<^verbatim>\<open>src/http/api/quota.rs\<close> and \<^verbatim>\<open>src/http/api/account.rs\<close>: each reads its
  input, calls the quota and account operations, and answers a status and a wire type. An id
  is parsed from its encoded text; text that is no id names nothing.
\<close>

record 'u api_env =
  ae_env :: quota_env
  ae_urls :: "'u url_library"

abbreviation codecs_of :: "'u api_env \<Rightarrow> codecs" where
  "codecs_of api \<equiv> qe_codecs (ae_env api)"

type_synonym answer = "int \<times> json"

definition database_failure :: answer where
  "database_failure = (500, api_error ''the database refused the request'')"

definition all_quota :: "'u api_env \<Rightarrow> id option \<Rightarrow> quota_state \<Rightarrow> quota_account list" where
  "all_quota api source st = list_quota_accounts (ae_urls api) (qs_db st) source (clock (ae_env api) st)"

section \<open>Errors\<close>

definition source_failure_text :: "source_failure \<Rightarrow> string" where
  "source_failure_text failure = ''source '' @ fst failure @ '': '' @ management_error_text (snd failure)"

fun refresh_request_error_text :: "refresh_request_error \<Rightarrow> string" where
  "refresh_request_error_text DatabaseFailed = []"
| "refresh_request_error_text UnknownAccount = ''account was not found''"
| "refresh_request_error_text NotRefreshable =
     ''the account cannot be hard refreshed: no adapter, or its credential lacks what the adapter needs''"
| "refresh_request_error_text NotListed =
     ''no enabled CLIProxy source lists an enabled credential for this account''"
| "refresh_request_error_text (SourceUnreachable failure) = source_failure_text failure"

fun reset_request_error_text :: "reset_request_error \<Rightarrow> string" where
  "reset_request_error_text ResetDatabaseFailed = []"
| "reset_request_error_text ResetUnknownAccount = ''account was not found''"
| "reset_request_error_text ResetNotListed = ''no enabled CLIProxy source lists the credential''"
| "reset_request_error_text ResetDisabled = ''the credential is disabled in CLIProxy''"
| "reset_request_error_text NotResettable =
     ''the account cannot be reset: its provider's manual resets cannot be spent here, '' @
     ''or its credential lacks what spending one needs''"
| "reset_request_error_text NoneAvailable = ''the account has no unexpired manual reset''"
| "reset_request_error_text (ResetUnreachable failure) = source_failure_text failure"
| "reset_request_error_text (OutcomeUnknown e) =
     ''the provider did not confirm the manual reset: '' @ refresh_error_text e"

definition unreachable :: "source_failure list \<Rightarrow> json" where
  "unreachable fs = api_error (join_with ''; '' (map source_failure_text fs))"

section \<open>Quota\<close>

definition list_quota ::
  "'u api_env \<Rightarrow> tokens \<Rightarrow> http_request \<Rightarrow> string option \<Rightarrow> quota_state \<Rightarrow> answer" where
  "list_quota api ts request source_id st =
     (let listing = (\<lambda>source. (200, quota_listing (codecs_of api) (all_quota api source st)
             (admit ts request POST ''/quota/sync'' \<noteq> None)
             (admit ts request POST ''/quota/refresh'' \<noteq> None)))
      in case source_id of
           None \<Rightarrow> listing None
         | Some text \<Rightarrow>
             (case parse_id text of
                None \<Rightarrow> (400, api_error ''source_id is not an id'')
              | Some i \<Rightarrow> listing (Some i)))"

definition sync_everything :: "'u api_env \<Rightarrow> id option \<Rightarrow> quota_state \<Rightarrow> answer \<times> quota_state" where
  "sync_everything api only st =
     (let (fs, st1) = sync (ae_env api) only st
      in if fs \<noteq> [] then ((502, unreachable fs), st1)
         else ((200, quota_list (codecs_of api) (all_quota api None st1)), st1))"

definition sync_quota :: "'u api_env \<Rightarrow> string option \<Rightarrow> quota_state \<Rightarrow> answer \<times> quota_state" where
  "sync_quota api source_id st =
     (let missing = (404, api_error ''source was not found'')
      in case source_id of
           None \<Rightarrow> sync_everything api None st
         | Some text \<Rightarrow>
             (case parse_id text of
                None \<Rightarrow> (missing, st)
              | Some i \<Rightarrow>
                  (case load_source (qs_db st) i of
                     None \<Rightarrow> (missing, st)
                   | Some s \<Rightarrow>
                       if s_kind (so_row s) = CliProxy then sync_everything api (Some i) st
                       else ((400, api_error ''the source is not a CLIProxy source''), st))))"

definition refresh_answer ::
  "'u api_env \<Rightarrow> (refresh_request_error + refresh) \<times> quota_state \<Rightarrow> answer \<times> quota_state" where
  "refresh_answer api outcome =
     (case outcome of
        (Inr r, st) \<Rightarrow> ((200, quota_refresh (codecs_of api) r (all_quota api None st)), st)
      | (Inl UnknownAccount, st) \<Rightarrow> ((404, api_error ''account was not found''), st)
      | (Inl DatabaseFailed, st) \<Rightarrow> (database_failure, st)
      | (Inl (SourceUnreachable failure), st) \<Rightarrow>
          ((502, api_error (refresh_request_error_text (SourceUnreachable failure))), st)
      | (Inl e, st) \<Rightarrow> ((400, api_error (refresh_request_error_text e)), st))"

definition refresh_quota_mode ::
  "'u api_env \<Rightarrow> string option \<Rightarrow> bool \<Rightarrow> quota_state \<Rightarrow> answer \<times> quota_state" where
  "refresh_quota_mode api account_id automatic st =
     (case account_id of
        None \<Rightarrow>
          refresh_answer api
            (if automatic then (Inl NotRefreshable, st) else refresh (ae_env api) None st)
      | Some text \<Rightarrow>
          (case parse_id text of
             None \<Rightarrow> ((404, api_error ''account was not found''), st)
           | Some i \<Rightarrow>
               refresh_answer api
                 (if automatic then refresh_automatic (ae_env api) i st
                  else refresh (ae_env api) (Some i) st)))"

definition reset_answer ::
  "'u api_env \<Rightarrow> (reset_request_error + refresh) \<times> quota_state \<Rightarrow> answer \<times> quota_state" where
  "reset_answer api outcome =
     (case outcome of
        (Inr r, st) \<Rightarrow> ((200, quota_refresh (codecs_of api) r (all_quota api None st)), st)
      | (Inl ResetUnknownAccount, st) \<Rightarrow> ((404, api_error ''account was not found''), st)
      | (Inl ResetDatabaseFailed, st) \<Rightarrow> (database_failure, st)
      | (Inl (ResetUnreachable failure), st) \<Rightarrow>
          ((502, api_error (reset_request_error_text (ResetUnreachable failure))), st)
      | (Inl (OutcomeUnknown e), st) \<Rightarrow>
          ((502, api_error (reset_request_error_text (OutcomeUnknown e))), st)
      | (Inl e, st) \<Rightarrow> ((400, api_error (reset_request_error_text e)), st))"

definition reset_quota :: "'u api_env \<Rightarrow> string \<Rightarrow> bool \<Rightarrow> quota_state \<Rightarrow> answer \<times> quota_state" where
  "reset_quota api account_id confirmed st =
     (if \<not> confirmed
      then ((400, api_error ''a manual reset is spent only when confirmed is true''), st)
      else case parse_id account_id of
          None \<Rightarrow> ((404, api_error ''account was not found''), st)
        | Some i \<Rightarrow> reset_answer api (spend_manual_reset (ae_env api) i st))"

definition reset_cooldowns_of :: "'u api_env \<Rightarrow> string \<Rightarrow> quota_state \<Rightarrow> answer \<times> quota_state" where
  "reset_cooldowns_of api account_id st =
     (case parse_id account_id of
        None \<Rightarrow> ((404, api_error ''account was not found''), st)
      | Some i \<Rightarrow> refresh_answer api (cooldown_reset (ae_env api) i st))"

section \<open>Accounts\<close>

definition account_missing :: answer where
  "account_missing = (404, api_error ''account was not found'')"

definition sign_in_of ::
  "'u api_env \<Rightarrow> id option \<Rightarrow> db \<Rightarrow> id \<Rightarrow> sign_in_error option \<times> reauthentication option" where
  "sign_in_of api only d i =
     (case map_of (map (\<lambda>(i, e, r). (i, (e, r))) (sign_ins (ae_urls api) d only)) i of
        None \<Rightarrow> (None, None) | Some s \<Rightarrow> s)"

definition output_account :: "'u api_env \<Rightarrow> db \<Rightarrow> account_output \<Rightarrow> json" where
  "output_account api d out =
     (let i = a_id (ao_row out) in account_json (codecs_of api) out (sign_in_of api (Some i) d i))"

definition list_accounts_answer :: "'u api_env \<Rightarrow> db \<Rightarrow> answer" where
  "list_accounts_answer api d =
     (200, json_object [(''accounts'',
        json_list (\<lambda>out. account_json (codecs_of api) out (sign_in_of api None d (a_id (ao_row out))))
          (list_accounts d))])"

definition update_account ::
  "'u api_env \<Rightarrow> instant \<Rightarrow> string \<Rightarrow> string option \<Rightarrow> db \<Rightarrow> answer \<times> db" where
  "update_account api now account_id display_name d =
     (case parse_id account_id of
        None \<Rightarrow> (account_missing, d)
      | Some i \<Rightarrow>
          (case rename now i (filter_option (\<lambda>n. n \<noteq> []) (map_option trim display_name)) d of
             (None, d1) \<Rightarrow> (account_missing, d1)
           | (Some out, d1) \<Rightarrow> ((200, output_account api d1 out), d1)))"

fun merge_error_text :: "merge_error \<Rightarrow> string" where
  "merge_error_text Same = ''an account cannot be merged into itself''"
| "merge_error_text DifferentSources = ''accounts of two sources cannot be merged''"
| "merge_error_text SourceMerged = ''This sign-in was already combined.''"
| "merge_error_text TargetMerged = ''the target account is itself merged into another''"
| "merge_error_text ContinuationChanged =
     ''The suggested sign-in changed. The plans have not been combined.''"
| "merge_error_text Missing = ''account was not found''"

definition merge_account ::
  "'u api_env \<Rightarrow> instant \<Rightarrow> string \<Rightarrow> string \<Rightarrow> bool option \<Rightarrow> db \<Rightarrow> answer \<times> db" where
  "merge_account api now account_id into requires_continuation d =
     (case (parse_id account_id, parse_id into) of
        (Some i, Some j) \<Rightarrow>
          (case merge now i j (unwrap_or False requires_continuation) d of
             (Inr out, d1) \<Rightarrow> ((200, output_account api d1 out), d1)
           | (Inl Missing, d1) \<Rightarrow> (account_missing, d1)
           | (Inl e, d1) \<Rightarrow> ((400, api_error (merge_error_text e)), d1))
      | _ \<Rightarrow> (account_missing, d))"

text \<open>The answer of a dismissal has no body.\<close>

definition dismiss_plan_continuation ::
  "instant \<Rightarrow> string \<Rightarrow> string \<Rightarrow> db \<Rightarrow> (int \<times> json option) \<times> db" where
  "dismiss_plan_continuation now account_id other d =
     (let missing = (fst account_missing, Some (snd account_missing))
      in case (parse_id account_id, parse_id other) of
           (Some i, Some j) \<Rightarrow>
             (case dismiss_continuation now i j d of
                (True, d1) \<Rightarrow> ((204, None), d1)
              | (False, d1) \<Rightarrow> (missing, d1))
         | _ \<Rightarrow> (missing, d))"

section \<open>Properties\<close>

lemma parse_encode_id: "0 \<le> i \<Longrightarrow> i < 2 ^ 63 \<Longrightarrow> parse_id (encode_id i) = Some i"
proof -
  assume i: "0 \<le> i" "i < 2 ^ 63"
  then have "uint (of_int i :: u64) = i" by (simp add: uint_word_of_int)
  moreover from this i have "int (unat (of_int i :: u64)) < int (2 ^ 63)" by simp
  then have "unat (of_int i :: u64) < 2 ^ 63" by (simp only: of_nat_less_iff)
  ultimately show ?thesis by (simp add: parse_id_def encode_id_def decode_encode_small)
qed

end
