(* ===== verification/Actions.thy ===== *)
theory Actions
  imports Handlers
begin

text \<open>
  The journal of human quota actions: who owns a running one
  (\<^verbatim>\<open>src/http/quota_action_owner.rs\<close>), how one is claimed, shared, replayed and completed
  (\<^verbatim>\<open>src/http/quota_action_store.rs\<close>), how a request becomes one
  (\<^verbatim>\<open>src/http/quota_action.rs\<close>), and its history (\<^verbatim>\<open>src/http/api/quota_action.rs\<close>).

  The state of the service is its database with the requests it sent, the id of its process
  and the leases of its workers. A lease is alive as long as its worker holds it. A write that
  returns early is rolled back, so it leaves the state as it was. Failures of the database
  itself are not modelled.
\<close>

section \<open>Owners\<close>

record service =
  se_quota :: quota_state
  se_boot :: string
  se_leases :: "(int \<times> bool) list"

definition abandoned :: "service \<Rightarrow> int list" where
  "abandoned s = map fst (filter (\<lambda>(_, alive). \<not> alive) (se_leases s))"

definition lease_claim :: "int \<Rightarrow> (int \<times> bool) list \<Rightarrow> (int \<times> bool) list" where
  "lease_claim i leases = (i, True) # filter (\<lambda>(j, _). j \<noteq> i) leases"

definition lease_forget :: "int list \<Rightarrow> (int \<times> bool) list \<Rightarrow> (int \<times> bool) list" where
  "lease_forget ids leases = filter (\<lambda>(j, _). j \<notin> set ids) leases"

text \<open>A worker ends, however it ends.\<close>

definition release :: "int \<Rightarrow> service \<Rightarrow> service" where
  "release i s = s\<lparr>se_leases := map (\<lambda>(j, alive). (j, if j = i then False else alive)) (se_leases s)\<rparr>"

text \<open>The process is replaced: a new boot id, and no leases.\<close>

definition restart :: "string \<Rightarrow> service \<Rightarrow> service" where
  "restart boot s = s\<lparr>se_boot := boot, se_leases := []\<rparr>"

abbreviation db_of :: "service \<Rightarrow> db" where
  "db_of s \<equiv> qs_db (se_quota s)"

definition set_db :: "db \<Rightarrow> service \<Rightarrow> service" where
  "set_db d s = s\<lparr>se_quota := with_db (\<lambda>_. d) (se_quota s)\<rparr>"

section \<open>Claiming\<close>

record saved_action =
  sv_id :: int
  sv_requested_by :: string
  sv_requested_at :: string
  sv_finished_at :: "string option"
  sv_status :: "int option"
  sv_body :: "string option"

definition saved_of :: "action_row \<Rightarrow> saved_action" where
  "saved_of q =
     \<lparr>sv_id = qa_id q, sv_requested_by = qa_requested_by q, sv_requested_at = qa_requested_at q,
      sv_finished_at = qa_finished_at q, sv_status = qa_status q, sv_body = qa_body q\<rparr>"

record invocation =
  iv_account :: "string option"
  iv_source :: "string option"
  iv_caller :: string
  iv_requested_at :: instant
  iv_identity :: identity
  iv_key :: "string option"

datatype claim = Fresh saved_action | Reused saved_action | Conflict

definition action_snapshot :: "'u api_env \<Rightarrow> string option \<Rightarrow> string option \<Rightarrow> quota_state \<Rightarrow> string" where
  "action_snapshot api account source st =
     cx_print (codecs_of api) (quota_list (codecs_of api)
       (filter (\<lambda>q. bound_eq account (encode_id (a_id (qt_account q))) \<and>
                    bound_eq source (encode_id (a_source (qt_account q)))) (all_quota api None st)))"

definition key_row :: "db \<Rightarrow> string \<Rightarrow> string \<Rightarrow> action_key_row option" where
  "key_row d credential key = find (\<lambda>k. qk_credential k = credential \<and> qk_key k = key) (action_keys d)"

definition record_key :: "invocation \<Rightarrow> string \<Rightarrow> int \<Rightarrow> db \<Rightarrow> bool \<times> db" where
  "record_key iv kind action d =
     (case iv_key iv of
        None \<Rightarrow> (True, d)
      | Some key \<Rightarrow>
          (case key_row d (idn_credential (iv_identity iv)) key of
             Some k \<Rightarrow> (qk_action k = action, d)
           | None \<Rightarrow> (True, d\<lparr>action_keys := action_keys d @
               [\<lparr>qk_credential = idn_credential (iv_identity iv), qk_key = key, qk_kind = kind,
                 qk_account = iv_account iv, qk_source = iv_source iv, qk_action = action\<rparr>]\<rparr>)))"

definition record_request :: "codecs \<Rightarrow> int \<Rightarrow> string \<Rightarrow> instant \<Rightarrow> identity \<Rightarrow> db \<Rightarrow> db" where
  "record_request cx action caller requested_at i d =
     d\<lparr>action_requests := action_requests d @
         [\<lparr>qr_action = action, qr_requested_by = caller, qr_requested_at = cx_print_instant cx requested_at,
           qr_credential = idn_credential i, qr_transport = idn_transport i\<rparr>]\<rparr>"

text \<open>The newest action of a query.\<close>

definition newest_action :: "(action_row \<Rightarrow> bool) \<Rightarrow> db \<Rightarrow> saved_action option" where
  "newest_action p d =
     (case rev (sort_key qa_id (filter p (actions d))) of [] \<Rightarrow> None | q # _ \<Rightarrow> Some (saved_of q))"

definition interrupted_row :: "string \<Rightarrow> string \<Rightarrow> action_row \<Rightarrow> action_row" where
  "interrupted_row finished body q =
     q\<lparr>qa_finished_at := Some finished, qa_outcome := Some ''interrupted'', qa_shared := False,
       qa_status := Some 503, qa_body := Some body\<rparr>"

definition previous_process :: "service \<Rightarrow> action_row \<Rightarrow> bool" where
  "previous_process s q \<longleftrightarrow> qa_finished_at q = None \<and> qa_boot q \<noteq> Some (se_boot s)"

definition worker_ended :: "service \<Rightarrow> action_row \<Rightarrow> bool" where
  "worker_ended s q \<longleftrightarrow> qa_finished_at q = None \<and> qa_id q \<in> set (abandoned s)"

definition previous_process_body :: string where
  "previous_process_body = ''{\"message\":\"Previous process interrupted action\"}''"

definition worker_ended_body :: string where
  "worker_ended_body = ''{\"message\":\"Worker ended before persisting completion\"}''"

text \<open>Before a claim looks, it closes what no worker is running any more.\<close>

definition close_abandoned :: "codecs \<Rightarrow> service \<Rightarrow> instant \<Rightarrow> db" where
  "close_abandoned cx s now =
     (let t = cx_print_instant cx now;
          as1 = update_where (previous_process s)
            (interrupted_row t previous_process_body) (actions (db_of s));
          as2 = update_where (worker_ended s)
            (interrupted_row t worker_ended_body) as1;
          closed = count_where (previous_process s) (actions (db_of s)) + count_where (worker_ended s) as1;
          d1 = (db_of s)\<lparr>actions := as2\<rparr>
      in if 0 < closed then record_change now SQuotaAction d1 else d1)"

definition keyed_action :: "invocation \<Rightarrow> string \<Rightarrow> db \<Rightarrow> saved_action option option" where
  "keyed_action iv kind d =
     (case Option.bind (iv_key iv) (key_row d (idn_credential (iv_identity iv))) of
        None \<Rightarrow> Some None
      | Some k \<Rightarrow>
          if qk_kind k \<noteq> kind \<or> qk_account k \<noteq> iv_account iv \<or> qk_source k \<noteq> iv_source iv then None
          else Some (map_option saved_of (find (\<lambda>q. qa_id q = qk_action k) (actions d))))"

definition same_scope :: "invocation \<Rightarrow> string \<Rightarrow> action_row \<Rightarrow> bool" where
  "same_scope iv kind q \<longleftrightarrow>
     qa_kind q = kind \<and> qa_account q = iv_account iv \<and> qa_source q = iv_source iv"

definition pending_action :: "invocation \<Rightarrow> string \<Rightarrow> db \<Rightarrow> saved_action option" where
  "pending_action iv kind d = newest_action (\<lambda>q. qa_finished_at q = None \<and> same_scope iv kind q) d"

text \<open>Whether an action over every account observed this one.\<close>

definition observed_account :: "codecs \<Rightarrow> string \<Rightarrow> string \<Rightarrow> action_row \<Rightarrow> bool" where
  "observed_account cx kind account q \<longleftrightarrow>
     (\<exists>a\<in>set (action_accounts cx q). of_account account a \<and>
        (kind \<noteq> ''cooldown_reset'' \<or> sql_zero (get ''disabled'' a)) \<and>
        (kind \<noteq> ''hard_refresh'' \<or> text_at_least (qa_requested_at q) (get ''hard_refreshed_at'' a)))"

definition shares :: "codecs \<Rightarrow> invocation \<Rightarrow> string \<Rightarrow> db \<Rightarrow> action_row \<Rightarrow> bool" where
  "shares cx iv kind d q \<longleftrightarrow>
     qa_kind q = kind \<and> qa_source q = iv_source iv \<and>
     (qa_account q = iv_account iv \<or>
      (case iv_account iv of None \<Rightarrow> False
       | Some account \<Rightarrow> qa_account q = None \<and>
           (qa_finished_at q = None \<or> observed_account cx kind account q))) \<and>
     (kind \<noteq> ''hard_refresh'' \<or> \<not> newer_reset d (iv_account iv) q) \<and>
     qa_shared q \<and>
     (case qa_status q of None \<Rightarrow> False | Some n \<Rightarrow> n < 400 \<or> 499 < n) \<and>
     (case qa_finished_at q of None \<Rightarrow> False
      | Some t \<Rightarrow> cx_print_instant cx (iv_requested_at iv - REUSE_FOR * ns_per_second) \<le> t)"

definition recent_action :: "codecs \<Rightarrow> invocation \<Rightarrow> string \<Rightarrow> db \<Rightarrow> saved_action option" where
  "recent_action cx iv kind d = newest_action (shares cx iv kind d) d"

definition new_action :: "'u api_env \<Rightarrow> invocation \<Rightarrow> string \<Rightarrow> service \<Rightarrow> action_row" where
  "new_action api iv kind s =
     \<lparr>qa_id = action_seq (db_of s) + 1, qa_kind = kind, qa_account = iv_account iv, qa_source = iv_source iv,
      qa_requested_at = cx_print_instant (codecs_of api) (iv_requested_at iv), qa_finished_at = None,
      qa_outcome = None, qa_before = action_snapshot api (iv_account iv) (iv_source iv) (se_quota s),
      qa_after = None, qa_requested_by = iv_caller iv, qa_shared = True, qa_status = None, qa_body = None,
      qa_credential = idn_credential (iv_identity iv), qa_transport = idn_transport (iv_identity iv),
      qa_boot = Some (se_boot s)\<rparr>"

definition insert_action :: "action_row \<Rightarrow> db \<Rightarrow> db" where
  "insert_action q d = d\<lparr>actions := actions d @ [q], action_seq := qa_id q\<rparr>"

definition commit_claim ::
  "'u api_env \<Rightarrow> invocation \<Rightarrow> int \<Rightarrow> service \<Rightarrow> ((int \<times> bool) list \<Rightarrow> (int \<times> bool) list) \<Rightarrow> db \<Rightarrow> service" where
  "commit_claim api iv action s lease d =
     (set_db (record_change (clock (ae_env api) (se_quota s)) SQuotaAction
        (record_request (codecs_of api) action (iv_caller iv) (iv_requested_at iv) (iv_identity iv) d)) s)
     \<lparr>se_leases := lease_forget (abandoned s) (lease (se_leases s))\<rparr>"

definition claim :: "'u api_env \<Rightarrow> invocation \<Rightarrow> string \<Rightarrow> service \<Rightarrow> claim \<times> service" where
  "claim api iv kind s =
     (let d = close_abandoned (codecs_of api) s (clock (ae_env api) (se_quota s))
      in case keyed_action iv kind d of
           None \<Rightarrow> (Conflict, s)
         | Some keyed \<Rightarrow>
             (case or_else keyed (or_else (pending_action iv kind d) (recent_action (codecs_of api) iv kind d)) of
                Some saved \<Rightarrow>
                  (case record_key iv kind (sv_id saved) d of
                     (False, _) \<Rightarrow> (Conflict, s)
                   | (True, d1) \<Rightarrow> (Reused saved, commit_claim api iv (sv_id saved) s (\<lambda>l. l) d1))
              | None \<Rightarrow>
                  (let q = new_action api iv kind s
                   in case record_key iv kind (qa_id q) (insert_action q d) of
                        (False, _) \<Rightarrow> (Conflict, s)
                      | (True, d1) \<Rightarrow>
                          (Fresh (saved_of q), commit_claim api iv (qa_id q) s (lease_claim (qa_id q)) d1))))"

section \<open>Answers\<close>

text \<open>\<^verbatim>\<open>HeaderValue::try_from\<close> a string: no control character but the tab.\<close>

definition header_value :: "string \<Rightarrow> string option" where
  "header_value v =
     (if list_all (\<lambda>c. let n = of_char c :: nat in n = 9 \<or> 32 \<le> n \<and> n \<noteq> 127) v then Some v else None)"

definition show_bool :: "bool \<Rightarrow> string" where
  "show_bool b = (if b then ''true'' else ''false'')"

definition respond :: "saved_action \<Rightarrow> int \<Rightarrow> string \<Rightarrow> bool \<Rightarrow> response" where
  "respond saved status body reused =
     \<lparr>rs_status = status,
      rs_headers = (''content-type'', json_type) #
        List.map_filter (\<lambda>(name, v). map_option (Pair name) (Option.bind v header_value))
          [(''x-quota-action-id'', Some (show_int (sv_id saved))),
           (''x-quota-requested-by'', Some (sv_requested_by saved)),
           (''x-quota-requested-at'', Some (sv_requested_at saved)),
           (''x-quota-finished-at'', sv_finished_at saved),
           (''x-quota-reused'', Some (show_bool reused))],
      rs_body = body\<rparr>"

definition accepted :: "codecs \<Rightarrow> saved_action \<Rightarrow> bool \<Rightarrow> response" where
  "accepted cx saved reused =
     respond saved 202 (cx_print cx (json_object
       [(''action_id'', Some (JInt (sv_id saved))),
        (''message'', Some (JString
           (''Action is queued or running. Follow quota.action on /events and read '' @
            ''/quota/actions for its result. Do not retry the operation.'')))])) reused"

definition set_field :: "string \<Rightarrow> json \<Rightarrow> json \<Rightarrow> json" where
  "set_field k v j =
     (case j of JObject fs \<Rightarrow> JObject (sort_key fst ((k, v) # remove_field k fs)) | _ \<Rightarrow> j)"

text \<open>A saved body with the accounts as they are now.\<close>

definition current_accounts :: "'u api_env \<Rightarrow> quota_state \<Rightarrow> string \<Rightarrow> string" where
  "current_accounts api st body =
     (case cx_json (codecs_of api) body of
        None \<Rightarrow> body
      | Some result \<Rightarrow>
          (let result1 = (if get ''refreshed'' result \<noteq> None \<and> get ''source_failures'' result = None
                          then set_field ''source_failures'' (JArray []) result else result);
               result2 = (if get ''accounts'' result1 = None then result1
                 else case cx_json (codecs_of api) (action_snapshot api None None st) of
                     None \<Rightarrow> result1
                   | Some current \<Rightarrow>
                       set_field ''accounts'' (unwrap_or JNull (get ''accounts'' current)) result1)
           in cx_print (codecs_of api) result2))"

definition status_code :: "int \<Rightarrow> int" where
  "status_code n = (if 100 \<le> n \<and> n \<le> 999 then n else 500)"

definition still_running_text :: string where
  "still_running_text =
     ''The earlier action is queued or running. Live work is never cancelled by caller timeouts. '' @
     ''After a process restart, abandoned records close on the next claim. Cleared reset grants '' @
     ''prevent a second spend until Refresh from providers obtains an authoritative grant list.''"

definition replay :: "'u api_env \<Rightarrow> quota_state \<Rightarrow> saved_action \<Rightarrow> response" where
  "replay api st saved =
     (if sv_finished_at saved = None then accepted (codecs_of api) saved True
      else let (status, body) =
             (case (sv_status saved, sv_body saved) of
                (Some n, Some body) \<Rightarrow> (status_code n, body)
              | _ \<Rightarrow> (409, cx_print (codecs_of api) (api_error still_running_text)))
           in respond saved status (current_accounts api st body) True)"

text \<open>What a waiting request reads of its action.\<close>

definition reread :: "db \<Rightarrow> saved_action \<Rightarrow> saved_action" where
  "reread d saved =
     (if sv_finished_at saved \<noteq> None then saved
      else case find (\<lambda>q. qa_id q = sv_id saved) (actions d) of None \<Rightarrow> saved | Some q \<Rightarrow> saved_of q)"

section \<open>Completion\<close>

definition outcome_of :: "codecs \<Rightarrow> int \<Rightarrow> string \<Rightarrow> string" where
  "outcome_of cx status body =
     (if 200 \<le> status \<and> status < 300
      then let j = json_of cx (Some body)
           in if (case Option.bind (get ''failed'' j) as_i64 of None \<Rightarrow> False | Some n \<Rightarrow> 0 < n) \<or>
                 items (get ''source_failures'' j) \<noteq> []
              then ''partial'' else ''succeeded''
      else if 400 \<le> status \<and> status < 500 then ''rejected'' else ''failed'')"

definition interrupted_body :: string where
  "interrupted_body = ''{\"message\":\"Action interrupted\"}''"

definition completed_outcome :: "codecs \<Rightarrow> int \<Rightarrow> string \<Rightarrow> string" where
  "completed_outcome cx status body =
     (if body = interrupted_body then ''interrupted'' else outcome_of cx status body)"

definition completed_row :: "int \<Rightarrow> string \<Rightarrow> string \<Rightarrow> string \<Rightarrow> action_row \<Rightarrow> action_row" where
  "completed_row status body outcome finished q =
     q\<lparr>qa_status := Some status, qa_body := Some body, qa_outcome := Some outcome,
       qa_finished_at := Some finished, qa_shared := (outcome \<noteq> ''interrupted'' \<and> qa_shared q)\<rparr>"

definition shared_ids :: "codecs \<Rightarrow> string \<Rightarrow> int list" where
  "shared_ids cx body =
     remdups (sort (List.map_filter (\<lambda>a. Option.bind (get ''action_id'' a) as_i64)
       (items (get ''shared_actions'' (json_of cx (Some body))))))"

text \<open>A request of an action that does not exist fails the write, which is then rolled back.\<close>

definition persist_result ::
  "'u api_env \<Rightarrow> invocation \<Rightarrow> int \<Rightarrow> int \<Rightarrow> string \<Rightarrow> instant \<Rightarrow> db \<Rightarrow> db" where
  "persist_result api iv action status body now d =
     (let cx = codecs_of api;
          d1 = d\<lparr>actions := update_where (\<lambda>q. qa_id q = action)
            (completed_row status body (completed_outcome cx status body) (cx_print_instant cx now)) (actions d)\<rparr>
      in if set (shared_ids cx body) \<subseteq> qa_id ` set (actions d)
         then record_change now SQuotaAction
           (fold (\<lambda>i. record_request cx i (iv_caller iv) (iv_requested_at iv) (iv_identity iv))
             (shared_ids cx body) d1)
         else d)"

definition complete :: "'u api_env \<Rightarrow> invocation \<Rightarrow> int \<Rightarrow> int \<Rightarrow> string \<Rightarrow> service \<Rightarrow> service" where
  "complete api iv action status body s =
     (let st = se_quota s;
          now = clock (ae_env api) st;
          after = action_snapshot api (iv_account iv) (iv_source iv) st;
          d1 = persist_result api iv action status body now (qs_db st)
      in set_db (d1\<lparr>actions := update_where (\<lambda>q. qa_id q = action) (\<lambda>q. q\<lparr>qa_after := Some after\<rparr>)
                    (actions d1)\<rparr>) s)"

definition reject ::
  "'u api_env \<Rightarrow> string \<Rightarrow> identity \<Rightarrow> string \<Rightarrow> int \<Rightarrow> string \<Rightarrow> service \<Rightarrow> response \<times> service" where
  "reject api kind i caller status message s =
     (let cx = codecs_of api;
          now = clock (ae_env api) (se_quota s);
          t = cx_print_instant cx now;
          d = db_of s;
          q = \<lparr>qa_id = action_seq d + 1, qa_kind = kind, qa_account = None, qa_source = None,
               qa_requested_at = t, qa_finished_at = Some t, qa_outcome = Some ''rejected'',
               qa_before = ''{}'', qa_after = None, qa_requested_by = caller, qa_shared = False,
               qa_status = Some status, qa_body = Some (cx_print cx (api_error message)),
               qa_credential = idn_credential i, qa_transport = idn_transport i, qa_boot = None\<rparr>
      in (json_response cx status (api_error message),
          set_db (record_change now SQuotaAction
            (record_request cx (qa_id q) caller now i (insert_action q d))) s))"

section \<open>Requests\<close>

definition CLIENT_LABEL_LIMIT :: nat where "CLIENT_LABEL_LIMIT = 80"

definition graphic :: "char \<Rightarrow> bool" where
  "graphic c \<longleftrightarrow> (let n = of_char c :: nat in 33 \<le> n \<and> n \<le> 126)"

definition valid_label :: "string option \<Rightarrow> bool" where
  "valid_label label =
     (case label of None \<Rightarrow> False
      | Some v \<Rightarrow> trim v \<noteq> [] \<and> length v \<le> CLIENT_LABEL_LIMIT \<and> list_all (\<lambda>c. graphic c \<or> c = CHR '' '') v)"

definition invalid_key :: "http_request \<Rightarrow> bool" where
  "invalid_key r \<longleftrightarrow> header_lines r ''idempotency-key'' \<noteq> [] \<and>
     \<not> (case header_text r ''idempotency-key'' of None \<Rightarrow> False
        | Some v \<Rightarrow> v \<noteq> [] \<and> length v \<le> 128 \<and> list_all graphic v)"

definition content_is_json :: "http_request \<Rightarrow> bool" where
  "content_is_json r \<longleftrightarrow>
     (let content_type = trim (hd (split_on CHR '';'' (unwrap_or [] (header_text r ''content-type''))))
      in content_type = ''application/json'' \<or>
         starts_with ''application/'' content_type \<and> ends_with ''+json'' content_type)"

definition scope_object :: "json \<Rightarrow> bool" where
  "scope_object v \<longleftrightarrow> is_object v \<and>
     (\<forall>key\<in>set [''account_id'', ''source_id''].
        case get key v of None \<Rightarrow> True | Some x \<Rightarrow> x = JNull \<or> as_str x \<noteq> None)"

definition rejection :: "http_request \<Rightarrow> string \<Rightarrow> json option \<Rightarrow> (int \<times> string) option" where
  "rejection r kind input =
     (if \<not> valid_label (header_text r ''x-quota-client'')
      then Some (400, ''X-Quota-Client is required and must be 1 to 80 printable ASCII characters'')
      else if invalid_key r
      then Some (400, ''Idempotency-Key must be 1 to 128 graphic ASCII characters'')
      else if \<not> content_is_json r
      then Some (415, ''Content-Type must be application/json'')
      else if \<not> (case input of None \<Rightarrow> False | Some v \<Rightarrow> scope_object v)
      then Some (400, ''a JSON object with string scope ids is required'')
      else if kind = ''cooldown_reset'' \<and>
        (case Option.bind (Option.bind input (get ''account_id'')) as_str of None \<Rightarrow> True | Some t \<Rightarrow> t = [])
      then Some (400, ''a cooldown reset requires account_id'')
      else if kind = ''quota_reset'' \<and>
        \<not> (Option.bind input (get ''confirmed'') = Some (JBool True) \<and>
           Option.bind (Option.bind input (get ''account_id'')) as_str \<noteq> None)
      then Some (400, ''a manual reset requires account_id and confirmed true'')
      else None)"

text \<open>
  An operation answers a status and a body, or panics. What other requests do while this one
  is queued for its lock, or waits for the action it shares, is a function of the state.
\<close>

type_synonym endpoint = "json \<Rightarrow> quota_state \<Rightarrow> (int \<times> string) option \<times> quota_state"

definition json_body :: "codecs \<Rightarrow> string \<Rightarrow> string" where
  "json_body cx body =
     (if cx_json cx body \<noteq> None then body else cx_print cx (api_error body))"

definition execution :: "codecs \<Rightarrow> (int \<times> string) option \<Rightarrow> int \<times> string" where
  "execution cx answered =
     (case answered of Some (status, body) \<Rightarrow> (status, json_body cx body) | None \<Rightarrow> (500, interrupted_body))"

definition run ::
  "'u api_env \<Rightarrow> endpoint \<Rightarrow> (service \<Rightarrow> service) \<Rightarrow> json \<Rightarrow> invocation \<Rightarrow> string \<Rightarrow> service \<Rightarrow>
    response \<times> service" where
  "run api endpoint others input iv kind s =
     (case claim api iv kind s of
        (Conflict, s1) \<Rightarrow>
          reject api kind (iv_identity iv) (iv_caller iv) 409
            ''Idempotency-Key was already used for another operation or scope'' s1
      | (Reused saved, s1) \<Rightarrow>
          (let s2 = others s1 in (replay api (se_quota s2) (reread (db_of s2) saved), s2))
      | (Fresh saved, s1) \<Rightarrow>
          (let s2 = others s1;
               (answered, st3) = endpoint input (se_quota s2);
               (status, body) = execution (codecs_of api) answered;
               s4 = complete api iv (sv_id saved) status body (s2\<lparr>se_quota := st3\<rparr>);
               finished = cx_print_instant (codecs_of api) (clock (ae_env api) st3)
           in (respond (saved\<lparr>sv_finished_at := Some finished\<rparr>) status body False,
               release (sv_id saved) s4)))"

definition no_content :: response where
  "no_content = \<lparr>rs_status = 204, rs_headers = [], rs_body = []\<rparr>"

definition scope_text :: "json \<Rightarrow> string \<Rightarrow> string option" where
  "scope_text input key = Option.bind (get key input) as_str"

definition invocation_of :: "string \<Rightarrow> json \<Rightarrow> string \<Rightarrow> instant \<Rightarrow> identity \<Rightarrow> string option \<Rightarrow> invocation" where
  "invocation_of kind input caller requested_at i key =
     \<lparr>iv_account = (if kind \<noteq> ''soft_refresh'' then scope_text input ''account_id'' else None),
      iv_source = (if kind = ''soft_refresh'' then scope_text input ''source_id'' else None),
      iv_caller = caller, iv_requested_at = requested_at, iv_identity = i, iv_key = key\<rparr>"

definition execute ::
  "'u api_env \<Rightarrow> endpoint \<Rightarrow> (service \<Rightarrow> service) \<Rightarrow> string \<Rightarrow> identity \<Rightarrow> http_request \<Rightarrow> service \<Rightarrow>
    response \<times> service" where
  "execute api endpoint others kind i r s =
     (let requested_at = clock (ae_env api) (se_quota s);
          label = header_text r ''x-quota-client'';
          caller = (if valid_label label then unwrap_or [] label else ''invalid-or-missing'');
          input = cx_json (codecs_of api) (hr_body r)
      in case rejection r kind input of
           Some (status, message) \<Rightarrow> reject api kind i caller status message s
         | None \<Rightarrow>
             (let input = unwrap_or JNull input;
                  iv = invocation_of kind input caller requested_at i (header_text r ''idempotency-key'')
              in if idn_transport i = ''internal'' \<and> kind = ''hard_refresh''
                 then case Option.bind (iv_account iv) parse_id of
                     None \<Rightarrow> (no_content, s)
                   | Some account \<Rightarrow>
                       (case claim_due (db_of s) account requested_at of
                          (False, d1) \<Rightarrow> (no_content, set_db d1 s)
                        | (True, d1) \<Rightarrow> run api endpoint others input iv kind (set_db d1 s))
                 else run api endpoint others input iv kind s))"

section \<open>The four operations\<close>

definition answered :: "codecs \<Rightarrow> answer \<times> quota_state \<Rightarrow> (int \<times> string) option \<times> quota_state" where
  "answered cx a = (Some (fst (fst a), cx_print cx (snd (fst a))), snd a)"

definition soft_refresh_endpoint :: "'u api_env \<Rightarrow> endpoint" where
  "soft_refresh_endpoint api input st =
     answered (codecs_of api) (sync_quota api (scope_text input ''source_id'') st)"

definition hard_refresh_endpoint :: "'u api_env \<Rightarrow> endpoint" where
  "hard_refresh_endpoint api input st =
     answered (codecs_of api) (refresh_quota_mode api (scope_text input ''account_id'') False st)"

definition quota_reset_endpoint :: "'u api_env \<Rightarrow> endpoint" where
  "quota_reset_endpoint api input st =
     answered (codecs_of api) (reset_quota api (unwrap_or [] (scope_text input ''account_id''))
       (get ''confirmed'' input = Some (JBool True)) st)"

definition cooldown_reset_endpoint :: "'u api_env \<Rightarrow> endpoint" where
  "cooldown_reset_endpoint api input st =
     answered (codecs_of api) (reset_cooldowns_of api (unwrap_or [] (scope_text input ''account_id'')) st)"

definition recovery_identity :: identity where
  "recovery_identity =
     \<lparr>idn_credential = ''internal:automatic-recovery'', idn_transport = ''internal''\<rparr>"

definition recovery_request :: "'u api_env \<Rightarrow> id \<Rightarrow> http_request" where
  "recovery_request api i =
     \<lparr>hr_method = POST, hr_path = ''/'',
      hr_headers = [(''content-type'', ''application/json''), (''x-quota-client'', ''automatic recovery'')],
      hr_body = cx_print (codecs_of api) (JObject [(''account_id'', JString (encode_id i))])\<rparr>"

definition automatic_recovery ::
  "'u api_env \<Rightarrow> (service \<Rightarrow> service) \<Rightarrow> id \<Rightarrow> service \<Rightarrow> response \<times> service" where
  "automatic_recovery api others i s =
     execute api
       (\<lambda>_ st. answered (codecs_of api) (refresh_quota_mode api (Some (encode_id i)) True st))
       others ''hard_refresh'' recovery_identity (recovery_request api i) s"

section \<open>The history\<close>

definition ACTION_PAGE :: nat where "ACTION_PAGE = 50"

definition list_actions ::
  "db \<Rightarrow> int option \<Rightarrow> (action_row \<times> action_request_row list) list" where
  "list_actions d start =
     map (\<lambda>q. (q, filter (\<lambda>r. qr_action r = qa_id q) (action_requests d)))
       (take ACTION_PAGE (sort_key qa_id (filter (\<lambda>q. unwrap_or 0 start < qa_id q) (actions d))))"

end
