(* ===== verification/Journal.thy ===== *)
theory Journal
  imports Actions
begin

text \<open>
  The journal of quota actions as a state machine: the steps its state takes, the invariant
  of every state it reaches, and what a caller may rely on when it sends a gesture again.
\<close>

section \<open>What happens to a journal besides new rows\<close>

text \<open>An action may be finished. It is never taken back, and its scope never changes.\<close>

definition row_follows :: "action_row \<Rightarrow> action_row \<Rightarrow> bool" where
  "row_follows a b \<longleftrightarrow>
     qa_id b = qa_id a \<and> qa_kind b = qa_kind a \<and> qa_account b = qa_account a \<and> qa_source b = qa_source a \<and>
     (qa_finished_at b = None \<longrightarrow> qa_finished_at a = None)"

definition journal_follows :: "db \<Rightarrow> db \<Rightarrow> bool" where
  "journal_follows d d1 \<longleftrightarrow>
     list_all2 row_follows (actions d) (actions d1) \<and> action_keys d1 = action_keys d \<and>
     action_seq d1 = action_seq d"

lemma row_follows_refl [simp]: "row_follows a a"
  by (simp add: row_follows_def)

lemma row_follows_trans: "row_follows a b \<Longrightarrow> row_follows b c \<Longrightarrow> row_follows a c"
  by (auto simp: row_follows_def)

lemma rows_follow_trans:
  "list_all2 row_follows as bs \<Longrightarrow> list_all2 row_follows bs cs \<Longrightarrow> list_all2 row_follows as cs"
  by (rule list_all2_trans [OF row_follows_trans])

lemma journal_follows_refl [simp]: "journal_follows d d"
  by (simp add: journal_follows_def list_all2_refl)

lemma journal_follows_trans: "journal_follows a b \<Longrightarrow> journal_follows b c \<Longrightarrow> journal_follows a c"
  unfolding journal_follows_def by (auto intro: rows_follow_trans)

lemma journal_follows_same:
  "actions d1 = actions d \<Longrightarrow> action_keys d1 = action_keys d \<Longrightarrow> action_seq d1 = action_seq d \<Longrightarrow>
   journal_follows d d1"
  by (simp add: journal_follows_def list_all2_refl)

lemma follows_update:
  assumes "\<And>q. p q \<Longrightarrow> row_follows q (f q)"
  shows "list_all2 row_follows rows (update_where p f rows)"
  using assms by (induction rows) (simp_all add: update_where_def)

lemma record_change_journal [simp]:
  "actions (record_change now s d) = actions d" "action_keys (record_change now s d) = action_keys d"
  "action_seq (record_change now s d) = action_seq d" "action_requests (record_change now s d) = action_requests d"
  by (simp_all add: record_change_def)

lemma record_request_journal [simp]:
  "actions (record_request cx a c t i d) = actions d" "action_keys (record_request cx a c t i d) = action_keys d"
  "action_seq (record_request cx a c t i d) = action_seq d"
  by (simp_all add: record_request_def)

lemma record_requests_journal [simp]:
  "actions (fold (\<lambda>a. record_request cx a c t i) as d) = actions d"
  "action_keys (fold (\<lambda>a. record_request cx a c t i) as d) = action_keys d"
  "action_seq (fold (\<lambda>a. record_request cx a c t i) as d) = action_seq d"
  by (induction as arbitrary: d) simp_all

lemma db_of_set_db [simp]: "db_of (set_db d s) = d" "se_leases (set_db d s) = se_leases s"
  "se_boot (set_db d s) = se_boot s" "qs_sent (se_quota (set_db d s)) = qs_sent (se_quota s)"
  by (simp_all add: set_db_def with_db_def)

section \<open>The quota operations only follow\<close>

definition journal :: "db \<Rightarrow> action_row list \<times> action_key_row list \<times> int" where
  "journal d = (actions d, action_keys d, action_seq d)"

lemma journal_follows_journal: "journal d1 = journal d \<Longrightarrow> journal_follows d d1"
  by (simp add: journal_def journal_follows_same)

lemma journal_record_differences [simp]: "journal (record_differences now (read_snapshot sc pt t d0) d) = journal d"
  unfolding record_differences_eq by (simp add: journal_def)

lemma journal_store_file: "store_file cx c s t index f d = (x, d1) \<Longrightarrow> journal d1 = journal d"
  by (auto simp: store_file_def observe_credential_def register_def journal_def Let_def
      split: option.splits prod.splits)

lemma journal_store_files: "store_files cx ids s t fs n d = (ss, n1, d1) \<Longrightarrow> journal d1 = journal d"
proof (induction fs arbitrary: n d ss n1 d1)
  case Nil
  then show ?case by simp
next
  case (Cons f fs)
  then show ?case
    by (auto split: option.splits prod.splits dest!: journal_store_file Cons.IH)
qed

lemma follows_store:
  assumes "store env s l st = (ss, st1)"
  shows "journal_follows (qs_db st) (qs_db st1)"
proof -
  obtain ss' n d where l: "store_listing (qe_codecs env) (qe_ids env) s l (qs_minted st) (qs_db st) = (ss', n, d)"
    by (metis prod_cases3)
  then have "journal d = journal (qs_db st)"
    by (auto simp: store_listing_def mark_unlisted_def split: prod.splits if_splits dest!: journal_store_files)
      (auto simp: journal_def)
  then show ?thesis using assms l
    by (intro journal_follows_journal) (auto simp: store_def Let_def)
qed

lemma journal_insert_windows: "insert_windows stored i t ns d = Some d1 \<Longrightarrow> journal d1 = journal d"
proof (induction ns arbitrary: d)
  case Nil
  then show ?case by simp
next
  case (Cons n ns)
  have "journal (record_sample i n t d2) = journal d2" for d2
    by (auto simp: record_sample_def journal_def split: option.splits)
  moreover have "insert_window w d = Some d2 \<Longrightarrow> journal d2 = journal d" for w d2
    by (auto simp: insert_window_def journal_def split: if_splits)
  ultimately show ?case using Cons by (fastforce split: option.splits)
qed

lemma follows_reconcile: "journal_follows d (reconcile_resets cx i t d)"
  by (auto simp: journal_follows_def reconcile_resets_def row_follows_def intro!: follows_update)

lemma follows_record:
  assumes "record_result env i r t b st = Some st1"
  shows "journal_follows (qs_db st) (qs_db st1)"
proof -
  obtain d where d: "record_answer (qe_codecs env) i r t b (qs_db st) = Some d"
    and st1: "journal (qs_db st1) = journal d"
    using assms by (auto simp: record_result_def Let_def)
  have "journal_follows (qs_db st) d"
  proof (cases r)
    case (Inl e)
    then show ?thesis using d
      by (auto simp: record_answer_def refreshed_def journal_def intro!: journal_follows_journal)
  next
    case (Inr ob)
    then obtain d1 where d1: "replace_windows i (ob_windows ob) t (forget_recovery i (qs_db st)) = Some d1"
      using d by (auto simp: record_answer_def)
    then have 1: "journal d1 = journal (qs_db st)"
      by (auto simp: replace_windows_def Let_def forget_recovery_def dest!: journal_insert_windows)
        (simp add: journal_def)
    have 2: "journal (refreshed i t x d2) = journal d2" "journal (replace_grants i gs d2) = journal d2" for x gs d2
      by (simp_all add: refreshed_def replace_grants_def journal_def)
    have 3: "journal_follows (qs_db st) (reconcile_resets cx i t (replace_grants i gs d1))" for cx gs
      by (rule journal_follows_trans [OF journal_follows_journal follows_reconcile]) (simp add: 1 2)
    show ?thesis
    proof (cases "ob_manual_resets ob")
      case Unchanged
      then show ?thesis using d Inr d1 1 2 by (intro journal_follows_journal) (auto simp: record_answer_def)
    next
      case (Reported gs)
      then have "journal d = journal (if b then reconcile_resets (qe_codecs env) i t (replace_grants i gs d1)
          else replace_grants i gs d1)"
        using d Inr d1 2 by (auto simp: record_answer_def Let_def)
      moreover have "journal_follows (qs_db st) (if b then reconcile_resets (qe_codecs env) i t (replace_grants i gs d1)
          else replace_grants i gs d1)"
        using 3 1 2 by (auto intro: journal_follows_journal)
      ultimately show ?thesis by (simp add: journal_follows_def journal_def)
    qed
  qed
  then show ?thesis using st1 by (simp add: journal_follows_def journal_def)
qed

lemma follows_clear: "journal_follows (qs_db st) (qs_db (clear_resets env i st))"
  by (rule journal_follows_journal)
    (simp add: clear_resets_def with_db_def Let_def, simp add: clear_grants_def journal_def)

interpretation follows: quota_kept "journal_follows d" for d
  by unfold_locales (blast intro: journal_follows_trans follows_store follows_record follows_clear)+

section \<open>The steps of a journal\<close>

text \<open>
  A request is claimed or rejected; an action is completed, and its worker ends; the
  process is replaced; a quota operation runs; or anything else changes the database and
  leaves the journal alone.\<close>

inductive journal_step :: "'u api_env \<Rightarrow> service \<Rightarrow> service \<Rightarrow> bool" for api where
  claimed: "claim api iv kind s = (c, s1) \<Longrightarrow> journal_step api s s1"
| rejected: "reject api kind i caller status message s = (r, s1) \<Longrightarrow> journal_step api s s1"
| completed: "journal_step api s (complete api iv a status body s)"
| ended: "journal_step api s (release a s)"
| restarted: "journal_step api s (restart boot s)"
| synced: "journal_step api s (s\<lparr>se_quota := snd (sync (ae_env api) only (se_quota s))\<rparr>)"
| refreshed: "journal_step api s (s\<lparr>se_quota := snd (refresh_inner (ae_env api) only automatic (se_quota s))\<rparr>)"
| cooled: "journal_step api s (s\<lparr>se_quota := snd (cooldown_reset (ae_env api) i (se_quota s))\<rparr>)"
| spent: "journal_step api s (s\<lparr>se_quota := snd (spend_manual_reset (ae_env api) i (se_quota s))\<rparr>)"
| elsewhere: "journal (qs_db st) = journal (db_of s) \<Longrightarrow> journal_step api s (s\<lparr>se_quota := st\<rparr>)"

abbreviation journal_steps :: "'u api_env \<Rightarrow> service \<Rightarrow> service \<Rightarrow> bool" where
  "journal_steps api \<equiv> (journal_step api)\<^sup>*\<^sup>*"

lemma follows_complete: "journal_follows (db_of s) (db_of (complete api iv a status body s))"
proof -
  have "journal_follows d (persist_result api iv a status body now d)" for now d
    by (auto simp: persist_result_def Let_def journal_follows_def row_follows_def completed_row_def
        list_all2_refl intro!: follows_update)
  moreover have "journal_follows d (d\<lparr>actions := update_where p (\<lambda>q. q\<lparr>qa_after := x\<rparr>) (actions d)\<rparr>)" for d p x
    by (auto simp: journal_follows_def row_follows_def intro!: follows_update)
  ultimately show ?thesis
    unfolding complete_def Let_def db_of_set_db using journal_follows_trans by blast
qed

lemma follows_close: "journal_follows (db_of s) (close_abandoned cx s now)"
proof -
  have "list_all2 row_follows rows (update_where p (interrupted_row t m) rows)" for rows p t m
    by (intro follows_update) (simp add: row_follows_def interrupted_row_def)
  then have "list_all2 row_follows rows (update_where p (interrupted_row t m) (update_where p' (interrupted_row t' m') rows))"
    for rows p t m p' t' m'
    using rows_follow_trans by blast
  then show ?thesis by (simp add: close_abandoned_def Let_def journal_follows_def)
qed

lemma journal_step_cases:
  assumes "journal_step api s s1"
  obtains (claim) iv kind c where "claim api iv kind s = (c, s1)"
    | (insert) q where "actions (db_of s1) = actions (db_of s) @ [q]" "qa_id q = action_seq (db_of s) + 1"
        "qa_finished_at q \<noteq> None" "action_keys (db_of s1) = action_keys (db_of s)"
        "action_seq (db_of s1) = action_seq (db_of s) + 1"
    | (follow) "journal_follows (db_of s) (db_of s1)"
  using assms
proof cases
  case (claimed iv kind c)
  then show ?thesis by (rule claim)
next
  case (rejected kind i caller status message r)
  then show ?thesis by (intro insert) (auto simp: reject_def Let_def insert_action_def)
next
  case (completed iv a status body)
  then show ?thesis using follows_complete follow by blast
next
  case (ended a)
  then show ?thesis by (intro follow) (simp add: release_def)
next
  case (restarted boot)
  then show ?thesis by (intro follow) (simp add: restart_def)
next
  case (synced only)
  then show ?thesis using follow follows.keeps_sync [OF journal_follows_refl] by simp
next
  case (refreshed only automatic)
  then show ?thesis using follow follows.keeps_refresh [OF journal_follows_refl] by simp
next
  case (cooled i)
  then show ?thesis using follow follows.keeps_cooldown [OF journal_follows_refl] by simp
next
  case (spent i)
  then show ?thesis using follow follows.keeps_spend [OF journal_follows_refl] by simp
next
  case (elsewhere st)
  then show ?thesis by (intro follow journal_follows_journal) simp
qed

section \<open>The invariant\<close>

abbreviation scope_of :: "action_row \<Rightarrow> string \<times> string option \<times> string option" where
  "scope_of q \<equiv> (qa_kind q, qa_account q, qa_source q)"

definition running :: "db \<Rightarrow> action_row list" where
  "running d = filter (\<lambda>q. qa_finished_at q = None) (actions d)"

definition journal_ok :: "db \<Rightarrow> bool" where
  "journal_ok d \<longleftrightarrow>
     distinct (map qa_id (actions d)) \<and> (\<forall>q\<in>set (actions d). qa_id q \<le> action_seq d) \<and>
     distinct (map scope_of (running d)) \<and>
     (\<forall>k\<in>set (action_keys d). qk_action k \<in> qa_id ` set (actions d))"

lemma follows_running:
  "list_all2 row_follows as bs \<Longrightarrow>
     scope_of ` {q \<in> set bs. qa_finished_at q = None} \<subseteq> scope_of ` {q \<in> set as. qa_finished_at q = None}"
  by (induction rule: list_all2_induct) (auto simp: row_follows_def image_iff)

lemma follows_maps:
  assumes "list_all2 row_follows as bs"
  shows "map qa_id bs = map qa_id as" and "map scope_of bs = map scope_of as"
  using assms by (induction rule: list_all2_induct) (simp_all add: row_follows_def)

lemma follows_distinct:
  assumes "list_all2 row_follows as bs"
    and "distinct (map scope_of (filter (\<lambda>q. qa_finished_at q = None) as))"
  shows "distinct (map scope_of (filter (\<lambda>q. qa_finished_at q = None) bs))"
  using assms
proof (induction rule: list_all2_induct)
  case (Cons a as b bs)
  have "scope_of b \<notin> scope_of ` {q \<in> set bs. qa_finished_at q = None}" if "qa_finished_at b = None"
    using Cons.prems Cons.hyps(1) that follows_running [OF Cons.hyps(2)]
    by (auto simp: row_follows_def)
  then show ?case using Cons by (auto simp: row_follows_def split: if_splits)
qed simp

lemma journal_ok_follows:
  assumes "journal_ok d" and "journal_follows d d1"
  shows "journal_ok d1"
proof -
  have r: "list_all2 row_follows (actions d) (actions d1)" "action_keys d1 = action_keys d"
    "action_seq d1 = action_seq d" using assms(2) by (simp_all add: journal_follows_def)
  have ids: "qa_id ` set (actions d1) = qa_id ` set (actions d)"
    using follows_maps(1) [OF r(1)] by (metis set_map)
  have bounds: "(\<forall>q\<in>set as. qa_id q \<le> n) \<longleftrightarrow> (\<forall>i\<in>qa_id ` set as. i \<le> n)" for as n by simp
  from assms(1) show ?thesis
    unfolding journal_ok_def running_def bounds ids r(2,3) follows_maps(1) [OF r(1)]
    using follows_distinct [OF r(1)] by simp
qed

lemma journal_ok_insert:
  assumes "journal_ok d" and "actions d1 = actions d @ [q]" and "qa_id q = action_seq d + 1"
    and "action_seq d1 = action_seq d + 1"
    and "\<And>k. k \<in> set (action_keys d1) \<Longrightarrow> k \<in> set (action_keys d) \<or> qk_action k \<in> qa_id ` set (actions d1)"
    and "qa_finished_at q = None \<Longrightarrow> scope_of q \<notin> scope_of ` set (running d)"
  shows "journal_ok d1"
proof -
  have new: "qa_id q \<notin> qa_id ` set (actions d)" using assms(1,3) by (force simp: journal_ok_def)
  have "distinct (map qa_id (actions d1))" using assms(1,2) new by (simp add: journal_ok_def)
  moreover have "\<forall>q\<in>set (actions d1). qa_id q \<le> action_seq d1"
    using assms(1-4) by (auto simp: journal_ok_def)
  moreover have "distinct (map scope_of (running d1))"
    using assms(1,2,6) by (auto simp: journal_ok_def running_def)
  moreover have "qk_action k \<in> qa_id ` set (actions d1)" if "k \<in> set (action_keys d1)" for k
    using assms(1,2) assms(5) [OF that] by (auto simp: journal_ok_def)
  ultimately show ?thesis by (simp add: journal_ok_def)
qed

section \<open>What a claim does\<close>

fun claimed_id :: "claim \<Rightarrow> int option" where
  "claimed_id (Fresh v) = Some (sv_id v)"
| "claimed_id (Reused v) = Some (sv_id v)"
| "claimed_id Conflict = None"

abbreviation claim_base :: "'u api_env \<Rightarrow> service \<Rightarrow> db" where
  "claim_base api s \<equiv> close_abandoned (codecs_of api) s (clock (ae_env api) (se_quota s))"

abbreviation gesture :: "invocation \<Rightarrow> db \<Rightarrow> action_key_row option" where
  "gesture iv d \<equiv> Option.bind (iv_key iv) (key_row d (idn_credential (iv_identity iv)))"

lemma record_key_True:
  assumes "record_key iv kind a d = (True, d1)"
  shows "actions d1 = actions d" and "action_seq d1 = action_seq d"
    and "gesture iv d = None \<Longrightarrow> iv_key iv = Some key \<Longrightarrow> action_keys d1 = action_keys d @
      [\<lparr>qk_credential = idn_credential (iv_identity iv), qk_key = key, qk_kind = kind,
        qk_account = iv_account iv, qk_source = iv_source iv, qk_action = a\<rparr>]"
    and "gesture iv d = Some k \<Longrightarrow> qk_action k = a \<and> action_keys d1 = action_keys d"
    and "iv_key iv = None \<Longrightarrow> action_keys d1 = action_keys d"
  using assms by (auto simp: record_key_def split: option.splits)

lemma record_key_unbound: "gesture iv d = None \<Longrightarrow> \<exists>d1. record_key iv kind a d = (True, d1)"
  by (auto simp: record_key_def split: option.splits)

lemma commit_claim_db [simp]:
  "actions (db_of (commit_claim api iv a s f d)) = actions d"
  "action_keys (db_of (commit_claim api iv a s f d)) = action_keys d"
  "action_seq (db_of (commit_claim api iv a s f d)) = action_seq d"
  "se_leases (commit_claim api iv a s f d) = lease_forget (abandoned s) (f (se_leases s))"
  "se_boot (commit_claim api iv a s f d) = se_boot s"
  "qs_sent (se_quota (commit_claim api iv a s f d)) = qs_sent (se_quota s)"
  by (simp_all add: commit_claim_def set_db_def with_db_def)

lemma newest_actionD: "newest_action p d = Some v \<Longrightarrow> \<exists>q\<in>set (actions d). p q \<and> v = saved_of q"
proof -
  assume "newest_action p d = Some v"
  then obtain q qs where "rev (sort_key qa_id (filter p (actions d))) = q # qs" "v = saved_of q"
    by (auto simp: newest_action_def split: list.splits)
  moreover from this have "q \<in> set (filter p (actions d))"
    by (metis list.set_intros(1) set_rev set_sort)
  ultimately show ?thesis by auto
qed

lemma newest_action_None: "newest_action p d = None \<longleftrightarrow> (\<forall>q\<in>set (actions d). \<not> p q)"
proof -
  have "newest_action p d = None \<longleftrightarrow> rev (sort_key qa_id (filter p (actions d))) = []"
    by (auto simp: newest_action_def split: list.splits)
  also have "\<dots> \<longleftrightarrow> filter p (actions d) = []"
    by (metis length_0_conv length_rev length_sort)
  finally show ?thesis by (simp add: filter_empty_conv)
qed

text \<open>The three outcomes of a claim, over the journal with the abandoned actions closed.\<close>

lemma claim_cases:
  assumes "claim api iv kind s = (c, s1)"
  obtains (conflict) "c = Conflict" "s1 = s"
    | (reused) v d1 where "c = Reused v" "record_key iv kind (sv_id v) (claim_base api s) = (True, d1)"
        "s1 = commit_claim api iv (sv_id v) s (\<lambda>l. l) d1"
        "\<exists>q\<in>set (actions (claim_base api s)). v = saved_of q"
        "\<And>k. gesture iv (claim_base api s) = Some k \<Longrightarrow>
           qk_kind k = kind \<and> qk_account k = iv_account iv \<and> qk_source k = iv_source iv"
    | (fresh) q d1 where "c = Fresh (saved_of q)" "q = new_action api iv kind s"
        "record_key iv kind (qa_id q) (insert_action q (claim_base api s)) = (True, d1)"
        "s1 = commit_claim api iv (qa_id q) s (lease_claim (qa_id q)) d1"
        "pending_action iv kind (claim_base api s) = None"
        "keyed_action iv kind (claim_base api s) = Some None"
proof -
  let ?d = "claim_base api s"
  show thesis
  proof (cases "keyed_action iv kind ?d")
    case None
    then show ?thesis using assms conflict by (simp add: claim_def Let_def)
  next
    case (Some keyed)
    let ?v = "or_else keyed (or_else (pending_action iv kind ?d) (recent_action (codecs_of api) iv kind ?d))"
    show ?thesis
    proof (cases ?v)
      case None
      obtain ok d1 where k: "record_key iv kind (qa_id (new_action api iv kind s))
          (insert_action (new_action api iv kind s) ?d) = (ok, d1)" by fastforce
      from None have n: "keyed = None" "pending_action iv kind ?d = None"
        by (auto simp: or_else_def split: option.splits)
      show ?thesis
        using assms conflict fresh [OF _ refl] Some n None k
        by (cases ok) (auto simp: claim_def Let_def)
    next
      case saved: (Some v)
      obtain ok d1 where k: "record_key iv kind (sv_id v) ?d = (ok, d1)" by fastforce
      have "\<exists>q\<in>set (actions ?d). v = saved_of q"
      proof (cases keyed)
        case None
        then have "pending_action iv kind ?d = Some v \<or> recent_action (codecs_of api) iv kind ?d = Some v"
          using saved by (auto simp: or_else_def split: option.splits)
        then show ?thesis unfolding pending_action_def recent_action_def using newest_actionD by blast
      next
        case (Some w)
        then have "w = v" using saved by (simp add: or_else_def)
        then show ?thesis using \<open>keyed_action iv kind ?d = Some keyed\<close> Some
          by (auto simp: keyed_action_def split: option.splits if_splits dest!: find_Some_set)
      qed
      moreover have "gesture iv ?d = Some k \<Longrightarrow>
          qk_kind k = kind \<and> qk_account k = iv_account iv \<and> qk_source k = iv_source iv" for k
        using Some by (auto simp: keyed_action_def split: if_splits)
      moreover have "if ok then c = Reused v \<and> s1 = commit_claim api iv (sv_id v) s (\<lambda>l. l) d1
          else c = Conflict \<and> s1 = s"
        using assms Some saved k by (auto simp: claim_def Let_def)
      ultimately show ?thesis using conflict reused k by (cases ok) auto
    qed
  qed
qed

lemma gesture_close: "gesture iv (close_abandoned cx s now) = gesture iv (db_of s)"
  using follows_close [of s cx now] by (cases "iv_key iv") (simp_all add: key_row_def journal_follows_def)

lemma record_key_keys:
  assumes "record_key iv kind a d = (True, d1)" and "k \<in> set (action_keys d1)"
  shows "k \<in> set (action_keys d) \<or> qk_action k = a"
  using assms by (auto simp: record_key_def split: option.splits)

lemma claim_ok:
  assumes "claim api iv kind s = (c, s1)" and "journal_ok (db_of s)"
  shows "journal_ok (db_of s1)"
proof -
  have base: "journal_ok (claim_base api s)"
    using journal_ok_follows [OF assms(2) follows_close] .
  from assms(1) show ?thesis
  proof (cases rule: claim_cases)
    case conflict
    then show ?thesis using assms(2) by simp
  next
    case (reused v d1)
    note r = record_key_True(1,2) [OF reused(2)]
    have "sv_id v \<in> qa_id ` set (actions (claim_base api s))"
      using reused(4) by (auto simp: saved_of_def)
    then have "qk_action k \<in> qa_id ` set (actions (claim_base api s))" if "k \<in> set (action_keys d1)" for k
      using base record_key_keys [OF reused(2) that] unfolding journal_ok_def by metis
    then show ?thesis using base reused(3) r by (simp add: journal_ok_def running_def)
  next
    case (fresh q d1)
    note r = record_key_True(1,2) [OF fresh(3)]
    have seq: "action_seq (claim_base api s) = action_seq (db_of s)"
      using follows_close by (auto simp: journal_follows_def)
    show ?thesis
    proof (rule journal_ok_insert [OF base])
      show "actions (db_of s1) = actions (claim_base api s) @ [q]"
        using fresh(4) r by (simp add: insert_action_def)
      then show "k \<in> set (action_keys (claim_base api s)) \<or> qk_action k \<in> qa_id ` set (actions (db_of s1))"
        if "k \<in> set (action_keys (db_of s1))" for k
        using that fresh(4) record_key_keys [OF fresh(3), of k] by (auto simp: insert_action_def)
      show "qa_id q = action_seq (claim_base api s) + 1" using fresh(2) seq by (simp add: new_action_def)
      then show "action_seq (db_of s1) = action_seq (claim_base api s) + 1"
        using fresh(4) r by (simp add: insert_action_def)
      show "scope_of q \<notin> scope_of ` set (running (claim_base api s))"
      proof
        assume "scope_of q \<in> scope_of ` set (running (claim_base api s))"
        then obtain r where "r \<in> set (actions (claim_base api s))" "qa_finished_at r = None" "scope_of r = scope_of q"
          by (auto simp: running_def)
        moreover have "scope_of q = (kind, iv_account iv, iv_source iv)" using fresh(2) by (simp add: new_action_def)
        ultimately show False using fresh(5)
          unfolding pending_action_def newest_action_None same_scope_def by (metis prod.inject)
      qed
    qed
  qed
qed

lemma journal_step_ok:
  assumes "journal_step api s s1" and "journal_ok (db_of s)"
  shows "journal_ok (db_of s1)"
  using assms(1)
proof (cases rule: journal_step_cases)
  case (claim iv kind c)
  then show ?thesis using claim_ok assms(2) by blast
next
  case (insert q)
  show ?thesis by (rule journal_ok_insert [OF assms(2) insert(1,2,5)]) (simp_all add: insert(3,4))
next
  case follow
  then show ?thesis using journal_ok_follows assms(2) by blast
qed

lemma journal_steps_ok: "journal_steps api s s1 \<Longrightarrow> journal_ok (db_of s) \<Longrightarrow> journal_ok (db_of s1)"
  by (induction rule: rtranclp_induct) (use journal_step_ok in blast)+

text \<open>
  C10: Whatever requests, completions, worker deaths, restarts and quota operations follow each
  other, no two actions of the journal with the same kind and scope are unfinished at once,
  action ids are never used twice, and every idempotency key names an action of the
  journal.\<close>

theorem one_running_action_per_scope:
  assumes "journal_steps api s s1" and "journal_ok (db_of s)"
  shows "journal_ok (db_of s1)"
  using journal_steps_ok assms .

section \<open>A gesture that is sent again\<close>

lemma key_row_append: "key_row d a b = Some k \<Longrightarrow> action_keys d1 = action_keys d @ ks \<Longrightarrow> key_row d1 a b = Some k"
  by (simp add: key_row_def find_append)

lemma claim_keys:
  assumes "claim api iv kind s = (c, s1)"
  shows "\<exists>ks. action_keys (db_of s1) = action_keys (db_of s) @ ks"
proof -
  have base: "action_keys (claim_base api s) = action_keys (db_of s)"
    using follows_close by (auto simp: journal_follows_def)
  have k: "\<exists>ks. action_keys d1 = action_keys d @ ks" if "record_key iv kind a d = (ok, d1)" for a d d1 ok
    using that by (auto simp: record_key_def split: option.splits)
  from assms show ?thesis
    by (cases rule: claim_cases) (use k base in \<open>auto simp: insert_action_def\<close>, fastforce+)
qed

lemma journal_steps_keys:
  assumes "journal_steps api s s1"
  shows "\<exists>ks. action_keys (db_of s1) = action_keys (db_of s) @ ks"
  using assms
proof (induction rule: rtranclp_induct)
  case base
  then show ?case by simp
next
  case (step s1 s2)
  from step(2) have "\<exists>ks. action_keys (db_of s2) = action_keys (db_of s1) @ ks"
    by (cases rule: journal_step_cases) (use claim_keys in \<open>auto simp: journal_follows_def\<close>)
  then show ?case using step.IH by auto
qed

lemma claim_binds:
  assumes "claim api iv kind s = (c, s1)" and "c \<noteq> Conflict" and "iv_key iv = Some key"
  shows "\<exists>k. gesture iv (db_of s1) = Some k \<and> qk_kind k = kind \<and> qk_account k = iv_account iv \<and>
    qk_source k = iv_source iv \<and> claimed_id c = Some (qk_action k)"
proof -
  have bound: "\<exists>k. gesture iv d1 = Some k \<and> qk_kind k = kind \<and> qk_account k = iv_account iv \<and>
      qk_source k = iv_source iv \<and> a = qk_action k"
    if "record_key iv kind a d = (True, d1)"
      and "\<And>k. gesture iv d = Some k \<Longrightarrow> qk_kind k = kind \<and> qk_account k = iv_account iv \<and> qk_source k = iv_source iv"
    for a d d1
  proof (cases "gesture iv d")
    case None
    then show ?thesis using record_key_True(3) [OF that(1) None assms(3)] assms(3)
      by (auto simp: key_row_def find_append)
  next
    case (Some k)
    then show ?thesis using record_key_True(4) [OF that(1) Some] that(2) [OF Some] assms(3)
      by (auto simp: key_row_def)
  qed
  have db: "gesture iv (db_of (commit_claim api iv a s f d)) = gesture iv d" for a f d
    using assms(3) by (simp add: key_row_def)
  from assms(1) show ?thesis
  proof (cases rule: claim_cases)
    case conflict
    then show ?thesis using assms(2) by simp
  next
    case (reused v d1)
    then show ?thesis using bound [OF reused(2)] by (simp add: db)
  next
    case (fresh q d1)
    have "gesture iv (insert_action q (claim_base api s)) = gesture iv (claim_base api s)"
      by (cases "iv_key iv") (simp_all add: key_row_def insert_action_def)
    moreover have "gesture iv (claim_base api s) = Some k \<Longrightarrow>
        qk_kind k = kind \<and> qk_account k = iv_account iv \<and> qk_source k = iv_source iv" for k
      using fresh(6) by (auto simp: keyed_action_def split: if_splits)
    ultimately show ?thesis using bound [OF fresh(3)] fresh(1,4) by (auto simp: db saved_of_def)
  qed
qed

lemma claim_of_bound_gesture:
  assumes "journal_ok (db_of s)" and "gesture iv (db_of s) = Some k"
    and "claim api iv kind s = (c, s1)"
  shows "if qk_kind k = kind \<and> qk_account k = iv_account iv \<and> qk_source k = iv_source iv
    then (\<exists>v. c = Reused v \<and> sv_id v = qk_action k) else c = Conflict"
proof -
  let ?d = "claim_base api s"
  have g: "gesture iv ?d = Some k" using assms(2) gesture_close by metis
  have "k \<in> set (action_keys ?d)"
    using g by (auto simp: key_row_def bind_eq_Some_conv dest: find_Some_set)
  moreover have "journal_ok ?d" by (rule journal_ok_follows [OF assms(1) follows_close])
  ultimately have "qk_action k \<in> qa_id ` set (actions ?d)" by (simp add: journal_ok_def)
  then obtain q where q: "find (\<lambda>q. qa_id q = qk_action k) (actions ?d) = Some q" "qa_id q = qk_action k"
    by (metis (mono_tags, lifting) find_None_iff find_Some_iff image_iff not_None_eq)
  show ?thesis
  proof (cases "qk_kind k = kind \<and> qk_account k = iv_account iv \<and> qk_source k = iv_source iv")
    case True
    have "record_key iv kind (qk_action k) ?d = (True, ?d)"
      using g by (auto simp: record_key_def bind_eq_Some_conv)
    then show ?thesis using assms(3) True g q
      by (auto simp: claim_def Let_def keyed_action_def or_else_def saved_of_def)
  next
    case False
    then show ?thesis using assms(3) g by (auto simp: claim_def Let_def keyed_action_def)
  qed
qed

lemma keyed_claim_again:
  assumes "claim api iv kind s = (c, s1)" and "c \<noteq> Conflict" and "iv_key iv = Some key"
    and "journal_ok (db_of s)" and "journal_steps api s1 s2"
    and "iv_key again = Some key" and "idn_credential (iv_identity again) = idn_credential (iv_identity iv)"
  shows "if kind2 = kind \<and> iv_account again = iv_account iv \<and> iv_source again = iv_source iv
    then \<exists>v. fst (claim api again kind2 s2) = Reused v \<and> claimed_id c = Some (sv_id v)
    else fst (claim api again kind2 s2) = Conflict"
proof -
  obtain k where k: "gesture iv (db_of s1) = Some k" "qk_kind k = kind" "qk_account k = iv_account iv"
    "qk_source k = iv_source iv" "claimed_id c = Some (qk_action k)"
    using claim_binds [OF assms(1-3)] by blast
  obtain ks where ks: "action_keys (db_of s2) = action_keys (db_of s1) @ ks"
    using journal_steps_keys [OF assms(5)] by blast
  have "key_row (db_of s1) (idn_credential (iv_identity iv)) key = Some k"
    using k(1) unfolding assms(3) by simp
  from key_row_append [OF this ks] have "gesture again (db_of s2) = Some k"
    unfolding assms(6,7) by simp
  moreover have "journal_ok (db_of s2)"
    by (rule journal_steps_ok [OF assms(5) claim_ok [OF assms(1,4)]])
  moreover obtain c2 s3 where c2: "claim api again kind2 s2 = (c2, s3)" by fastforce
  ultimately have "if qk_kind k = kind2 \<and> qk_account k = iv_account again \<and> qk_source k = iv_source again
      then \<exists>v. c2 = Reused v \<and> sv_id v = qk_action k else c2 = Conflict"
    by (intro claim_of_bound_gesture)
  then show ?thesis unfolding c2 fst_conv k(2-5) by (auto split: if_splits)
qed

text \<open>
  C9: A gesture that carries an idempotency key is one operation for ever. Once a claim with the
  key was answered with an action, every later claim by the same credential with that key is
  answered with the same action and starts nothing, or is refused where its kind or its scope
  differs; through restarts, lost workers, and however much later.\<close>

theorem keyed_gesture_runs_once:
  assumes "claim api iv kind s = (c, s1)" and "c \<noteq> Conflict" and "iv_key iv = Some key"
    and "journal_ok (db_of s)" and "journal_steps api s1 s2"
    and "iv_key again = Some key" and "idn_credential (iv_identity again) = idn_credential (iv_identity iv)"
  shows "if kind2 = kind \<and> iv_account again = iv_account iv \<and> iv_source again = iv_source iv
    then \<exists>v. fst (claim api again kind2 s2) = Reused v \<and> claimed_id c = Some (sv_id v)
    else fst (claim api again kind2 s2) = Conflict"
  using keyed_claim_again [OF assms] .

section \<open>A manual reset that is sent again\<close>

lemma consumed_same [simp]: "qs_sent st1 = qs_sent st \<Longrightarrow> consumed st st1 = 0"
  by (simp add: consumed_def)

lemma reject_sent [simp]: "qs_sent (se_quota (snd (reject api kind i caller status message s))) = qs_sent (se_quota s)"
  by (simp add: reject_def Let_def)

lemma claim_sent: "claim api iv kind s = (c, s1) \<Longrightarrow> qs_sent (se_quota s1) = qs_sent (se_quota s)"
  by (erule claim_cases) simp_all

lemma complete_sent [simp]: "qs_sent (se_quota (complete api iv a status body s)) = qs_sent (se_quota s)"
  by (simp add: complete_def Let_def)

lemma release_quota [simp]: "se_quota (release a s) = se_quota s"
  by (simp add: release_def)

lemma reset_answer_state: "snd (reset_answer api outcome) = snd outcome"
  by (auto simp: reset_answer_def split: prod.splits sum.splits reset_request_error.splits)

lemma reset_endpoint_cases:
  obtains "snd (quota_reset_endpoint api input st) = st"
    | i where "snd (quota_reset_endpoint api input st) = snd (spend_manual_reset (ae_env api) i st)"
proof (cases "get ''confirmed'' input = Some (JBool True)")
  case False
  then show thesis using that(1) by (simp add: quota_reset_endpoint_def answered_def reset_quota_def)
next
  case True
  then show thesis using that
    by (cases "parse_id (unwrap_or [] (scope_text input ''account_id''))")
      (simp_all add: quota_reset_endpoint_def answered_def reset_quota_def reset_answer_state)
qed

lemma outcome_spent_le: "outcome_spent r \<le> 1"
  by (auto simp: outcome_spent_def split: sum.splits reset_request_error.splits)

lemma reset_endpoint_consumes: "consumed st (snd (quota_reset_endpoint api input st)) \<le> 1"
  by (rule reset_endpoint_cases [of api input st]) (simp_all add: spend_consumes outcome_spent_le [simplified])

text \<open>
  The resets that one request to spend one sends itself: those after what other requests did
  while it was queued for its lock, or waited for the action it shares.
\<close>

definition own_resets ::
  "'u api_env \<Rightarrow> (service \<Rightarrow> service) \<Rightarrow> json \<Rightarrow> invocation \<Rightarrow> string \<Rightarrow> service \<Rightarrow> nat" where
  "own_resets api others input iv kind s =
     (case claim api iv kind s of (c, s1) \<Rightarrow>
        consumed (se_quota (if c = Conflict then s1 else others s1))
          (se_quota (snd (run api (quota_reset_endpoint api) others input iv kind s))))"

lemma own_resets_fresh:
  assumes "claim api iv kind s = (Fresh v, s1)"
  shows "own_resets api others input iv kind s =
    consumed (se_quota (others s1)) (snd (quota_reset_endpoint api input (se_quota (others s1))))"
  using assms by (simp add: own_resets_def run_def consumed_def Let_def split: prod.split)

lemma own_resets_shared:
  assumes "claim api iv kind s = (c, s1)" and "\<And>v. c \<noteq> Fresh v"
  shows "own_resets api others input iv kind s = 0"
proof (cases c)
  case (Fresh v)
  then show ?thesis using assms(2) by blast
qed (use assms(1) in \<open>simp_all add: own_resets_def run_def Let_def\<close>)

lemma own_resets_le: "own_resets api others input iv kind s \<le> 1"
proof -
  obtain c s1 where c: "claim api iv kind s = (c, s1)" by fastforce
  show ?thesis
  proof (cases "\<exists>v. c = Fresh v")
    case True
    then show ?thesis using own_resets_fresh c reset_endpoint_consumes by metis
  next
    case False
    then show ?thesis using own_resets_shared [OF c] by simp
  qed
qed

text \<open>
  C11: A manual reset sent again with its idempotency key spends one reset at most. Once a request
  with the key was claimed, it and any number of requests with the same key by the same credential,
  whatever their input and kind, send the provider one consumption or none of their own, and all
  but the first send none. A later request may arrive at any state that requests, completions,
  worker deaths, restarts and quota operations lead to from that claim: while the first one is
  queued behind others, while it runs, or after it ended. What other requests do while any of
  them is queued or waits is arbitrary, and their own resets are not counted here. The journal is
  in order when the first request arrives.\<close>

theorem keyed_reset_spends_once:
  assumes "journal_ok (db_of s)" and "iv_key iv = Some key"
    and "claim api iv kind s = (c, s1)" and "c \<noteq> Conflict"
    and "\<forall>(meanwhile, input, again, kind, s2)\<in>set retries.
      iv_key again = Some key \<and> idn_credential (iv_identity again) = idn_credential (iv_identity iv) \<and>
      journal_steps api s1 s2"
  shows "own_resets api others input iv kind s +
      (\<Sum>(meanwhile, input, again, kind, s2)\<leftarrow>retries. own_resets api meanwhile input again kind s2) \<le> 1 \<and>
    (\<forall>(meanwhile, input, again, kind, s2)\<in>set retries. own_resets api meanwhile input again kind s2 = 0)"
proof -
  have none: "own_resets api meanwhile input again kind2 s2 = 0"
    if "(meanwhile, input, again, kind2, s2) \<in> set retries" for meanwhile input again kind2 s2
  proof -
    obtain c2 s3 where c2: "claim api again kind2 s2 = (c2, s3)" by fastforce
    from that assms(5) have r: "journal_steps api s1 s2" "iv_key again = Some key"
      "idn_credential (iv_identity again) = idn_credential (iv_identity iv)" by auto
    from keyed_claim_again [OF assms(3,4,2,1) r, where ?kind2.0 = kind2]
    have "c2 \<noteq> Fresh v" for v unfolding c2 by (auto split: if_splits)
    then show ?thesis by (rule own_resets_shared [OF c2])
  qed
  then have "(\<Sum>(meanwhile, input, again, kind, s2)\<leftarrow>retries. own_resets api meanwhile input again kind s2) =
      (\<Sum>r\<leftarrow>retries. 0)"
    by (intro arg_cong [where f = sum_list] map_cong refl) auto
  also have "\<dots> = (0 :: nat)" by simp
  finally have rest: "(\<Sum>(meanwhile, input, again, kind, s2)\<leftarrow>retries.
      own_resets api meanwhile input again kind s2) = 0" .
  show ?thesis unfolding rest add_0_right using none own_resets_le by blast
qed

section \<open>Which actions a claim closes\<close>

lemma running_close:
  "running (close_abandoned cx s now) =
     filter (\<lambda>q. qa_boot q = Some (se_boot s) \<and> qa_id q \<notin> set (abandoned s)) (running (db_of s))"
proof -
  have closed: "filter (\<lambda>q. qa_finished_at q = None) (update_where p (interrupted_row t m) rows) =
      filter (\<lambda>q. \<not> p q) (filter (\<lambda>q. qa_finished_at q = None) rows)" for p t m rows
    by (induction rows) (auto simp: update_where_def interrupted_row_def)
  have "actions (close_abandoned cx s now) = update_where (worker_ended s)
      (interrupted_row (cx_print_instant cx now) worker_ended_body)
      (update_where (previous_process s) (interrupted_row (cx_print_instant cx now) previous_process_body)
        (actions (db_of s)))"
    by (simp add: close_abandoned_def Let_def)
  then have "running (close_abandoned cx s now) =
      filter (\<lambda>q. \<not> worker_ended s q) (filter (\<lambda>q. \<not> previous_process s q) (running (db_of s)))"
    unfolding running_def by (simp only: closed)
  also have "\<dots> = filter (\<lambda>q. qa_boot q = Some (se_boot s) \<and> qa_id q \<notin> set (abandoned s)) (running (db_of s))"
    unfolding running_def filter_filter previous_process_def worker_ended_def by (intro filter_cong) auto
  finally show ?thesis .
qed

text \<open>
  A claim closes exactly the actions that no worker runs. After it, the unfinished actions
  are those of this process whose worker still holds its lease, each as it was, and the claimed
  one if it is new. So a slow operation is never taken for a lost one, and a lost one never
  blocks its scope.\<close>

theorem claim_closes_lost_actions:
  assumes "claim api iv kind s = (c, s1)" and "c \<noteq> Conflict"
  shows "running (db_of s1) =
    filter (\<lambda>q. qa_boot q = Some (se_boot s) \<and> qa_id q \<notin> set (abandoned s)) (running (db_of s)) @
    (case c of Fresh _ \<Rightarrow> [new_action api iv kind s] | _ \<Rightarrow> [])"
  using assms(1)
proof (cases rule: claim_cases)
  case conflict
  then show ?thesis using assms(2) by simp
next
  case (reused v d1)
  then have "running (db_of s1) = running (claim_base api s)"
    using record_key_True(1) [OF reused(2)] by (simp add: running_def)
  then show ?thesis unfolding running_close reused(1) by simp
next
  case (fresh q d1)
  have "qa_finished_at q = None" using fresh(2) by (simp add: new_action_def)
  then have "running (db_of s1) = running (claim_base api s) @ [q]"
    using record_key_True(1) [OF fresh(3)] fresh(4) by (simp add: running_def insert_action_def)
  then show ?thesis unfolding running_close fresh(1,2) by simp
qed

section \<open>A queued reset that a refresh reconciles\<close>

lemma closed_nothing:
  "actions (db_of s) = [] \<Longrightarrow> close_abandoned cx s now = db_of s"
  by (simp add: close_abandoned_def Let_def update_where_def count_where_def)

lemma claim_on_empty:
  assumes "actions (db_of s) = []" and "action_keys (db_of s) = []"
  obtains d1 where "record_key iv kind (action_seq (db_of s) + 1)
      (insert_action (new_action api iv kind s) (db_of s)) = (True, d1)"
    and "claim api iv kind s = (Fresh (saved_of (new_action api iv kind s)),
      commit_claim api iv (action_seq (db_of s) + 1) s (lease_claim (action_seq (db_of s) + 1)) d1)"
proof -
  let ?q = "new_action api iv kind s"
  have id: "qa_id ?q = action_seq (db_of s) + 1" by (simp add: new_action_def)
  have g: "gesture iv d = None" if "action_keys d = []" for d
    using that by (cases "iv_key iv") (simp_all add: key_row_def)
  obtain d1 where d1: "record_key iv kind (qa_id ?q) (insert_action ?q (db_of s)) = (True, d1)"
    using record_key_unbound [OF g, of "insert_action ?q (db_of s)"] assms(2) unfolding insert_action_def by auto
  have "newest_action p (db_of s) = None" for p by (simp add: newest_action_None assms(1))
  then have "claim api iv kind s = (Fresh (saved_of ?q),
      commit_claim api iv (qa_id ?q) s (lease_claim (qa_id ?q)) d1)"
    using d1 g [OF assms(2)]
    by (simp add: claim_def Let_def closed_nothing [OF assms(1)] keyed_action_def pending_action_def
        recent_action_def or_else_def)
  then show thesis using d1 that unfolding id by blast
qed

text \<open>
  A hard refresh that reads the grants finishes every unfinished reset of the account, also one
  that is only queued behind it for the lock they share. Nothing then keeps the same reset from
  being claimed once more: both workers hold a lease, and both will run.\<close>

theorem queued_reset_claimed_twice:
  assumes "actions (db_of s) = []" and "action_keys (db_of s) = []" and "se_leases s = []"
    and "iv_key iv = None" and "iv_account iv = Some (encode_id i)"
    and "claim api iv ''quota_reset'' s = (c, s1)"
    and "s2 = set_db (reconcile_resets (codecs_of api) i t (db_of s1)) s1"
    and "claim api iv ''quota_reset'' s2 = (c2, s3)"
  shows "\<exists>v v2. c = Fresh v \<and> c2 = Fresh v2 \<and> sv_id v \<noteq> sv_id v2 \<and>
    {(sv_id v, True), (sv_id v2, True)} \<subseteq> set (se_leases s3)"
proof -
  let ?q = "new_action api iv ''quota_reset'' s"
  obtain d1 where d1: "record_key iv ''quota_reset'' (action_seq (db_of s) + 1) (insert_action ?q (db_of s)) = (True, d1)"
    and cl: "claim api iv ''quota_reset'' s = (Fresh (saved_of ?q),
      commit_claim api iv (action_seq (db_of s) + 1) s (lease_claim (action_seq (db_of s) + 1)) d1)"
    using claim_on_empty [OF assms(1,2)] by blast
  have id: "qa_id ?q = action_seq (db_of s) + 1" by (simp add: new_action_def)
  have c: "c = Fresh (saved_of ?q)" "actions (db_of s1) = [?q]" "action_seq (db_of s1) = qa_id ?q"
    "action_keys (db_of s1) = []" "se_boot s1 = se_boot s" "se_leases s1 = [(qa_id ?q, True)]"
    using assms(6) record_key_True(1,2,5) [OF d1] assms(1-4) unfolding cl
    by (auto simp: id insert_action_def lease_claim_def lease_forget_def abandoned_def)
  obtain q where q: "actions (db_of s2) = [q]" "qa_finished_at q \<noteq> None" "\<not> qa_shared q" "qa_status q = None"
    using c(2) assms(5,7)
    by (auto simp: reconcile_resets_def update_where_def new_action_def)
  have s2: "action_keys (db_of s2) = []" "se_leases s2 = [(qa_id ?q, True)]" "action_seq (db_of s2) = qa_id ?q"
    using c assms(7) by (simp_all add: reconcile_resets_def)
  have base2: "actions (claim_base api s2) = [q]" "action_keys (claim_base api s2) = []"
  proof -
    have "\<not> previous_process s2 q" "\<not> worker_ended s2 q"
      using q(2) unfolding previous_process_def worker_ended_def by blast+
    then show "actions (claim_base api s2) = [q]" "action_keys (claim_base api s2) = []"
      using q(1) s2(1) by (simp_all add: close_abandoned_def Let_def update_where_def)
  qed
  let ?q2 = "new_action api iv ''quota_reset'' s2"
  have id2: "qa_id ?q2 = qa_id ?q + 1" using s2(3) by (simp add: new_action_def)
  obtain d2 where d2: "record_key iv ''quota_reset'' (qa_id ?q2) (insert_action ?q2 (claim_base api s2)) = (True, d2)"
    using assms(4) by (simp add: record_key_def)
  have "newest_action p (claim_base api s2) = None" if "\<not> p q" for p
    using that by (simp add: newest_action_None base2)
  then have "pending_action iv ''quota_reset'' (claim_base api s2) = None"
    "recent_action (codecs_of api) iv ''quota_reset'' (claim_base api s2) = None"
    using q by (simp_all add: pending_action_def recent_action_def shares_def)
  then have "c2 = Fresh (saved_of ?q2) \<and> se_leases s3 = [(qa_id ?q2, True), (qa_id ?q, True)]"
    using assms(8) assms(4) d2 s2(2) id2
    by (auto simp: claim_def Let_def keyed_action_def or_else_def lease_claim_def lease_forget_def abandoned_def)
  then show ?thesis using c(1) id2 by (simp add: saved_of_def)
qed

section \<open>The window of reuse is compared as text\<close>

text \<open>
  \<^verbatim>\<open>Timestamp::to_string\<close> leaves out the fraction of a whole second. Where the window of
  reuse opens on a whole second, an action that finished half a second later is printed with a
  fraction, sorts before it, and is not shared: the operation runs once more although it ran
  within the window.\<close>

theorem fraction_sorts_before_whole_second:
  assumes "cx_print_instant cx (iv_requested_at iv - REUSE_FOR * ns_per_second) = second @ ''Z''"
    and "qa_finished_at q = Some (second @ ''.5Z'')"
  shows "\<not> shares cx iv kind d q"
proof -
  have "\<not> second @ ''Z'' \<le> second @ ''.5Z''"
    by (induction second) (simp_all add: less_eq_list_code less_char_def)
  then show ?thesis using assms by (simp add: shares_def)
qed

section \<open>A concrete service\<close>

definition no_urls :: "unit url_library" where
  "no_urls = \<lparr>ur_parse = (\<lambda>_. None), ur_scheme = (\<lambda>_. []), ur_username = (\<lambda>_. []),
     ur_password = (\<lambda>_. None), ur_path = (\<lambda>_. []), ur_page = (\<lambda>_ _ _. [])\<rparr>"

definition silent_api :: "unit api_env" where
  "silent_api = \<lparr>ae_env = silent_env, ae_urls = no_urls\<rparr>"

definition idle :: service where
  "idle = \<lparr>se_quota = \<lparr>qs_db = empty_db, qs_sent = [], qs_minted = 0\<rparr>, se_boot = ''one'', se_leases = []\<rparr>"

definition tap :: invocation where
  "tap = \<lparr>iv_account = Some ''00000000002'', iv_source = None, iv_caller = ''app'', iv_requested_at = 100,
     iv_identity = \<lparr>idn_credential = ''admin'', idn_transport = ''bearer''\<rparr>, iv_key = Some ''k''\<rparr>"

lemma idle_ok: "journal_ok (db_of idle)"
  by (simp add: journal_ok_def idle_def empty_db_def running_def)

lemma tap_claim: "\<exists>v s1. claim silent_api tap ''quota_reset'' idle = (Fresh v, s1)"
proof -
  have "actions (db_of idle) = []" "action_keys (db_of idle) = []" by (simp_all add: idle_def empty_db_def)
  from claim_on_empty [OF this] show ?thesis by metis
qed

theorem one_running_action_per_scope_witness:
  "journal_ok (db_of (snd (claim silent_api tap ''quota_reset'' idle)))"
proof -
  have "journal_steps silent_api idle (snd (claim silent_api tap ''quota_reset'' idle))"
    by (intro r_into_rtranclp claimed) (rule surjective_pairing)
  from one_running_action_per_scope [OF this idle_ok] show ?thesis .
qed

theorem keyed_gesture_runs_once_witness:
  "\<exists>v. fst (claim silent_api tap ''quota_reset'' (restart ''two'' (snd (claim silent_api tap ''quota_reset'' idle)))) = Reused v"
proof -
  obtain v s1 where c: "claim silent_api tap ''quota_reset'' idle = (Fresh v, s1)" using tap_claim by blast
  have "journal_steps silent_api s1 (restart ''two'' s1)" by (intro r_into_rtranclp restarted)
  from keyed_gesture_runs_once [OF c _ _ idle_ok this, of "''k''" tap "''quota_reset''"]
  show ?thesis unfolding c by (auto simp: tap_def)
qed

text \<open>
  A gateway that lists the account's credential, a Codex sign-in with a reset left, and that loses
  the connection on everything else, so that the outcome of the reset stays unknown.
\<close>

definition listing_codecs :: codecs where
  "listing_codecs = plain_codecs\<lparr>cx_json := \<lambda>body.
     if body = ''list'' then Some (JObject [(''files'', JArray
       [JObject [(''auth_index'', JString ''k''), (''provider'', JString ''codex'')]])])
     else None\<rparr>"

definition listing_env :: quota_env where
  "listing_env = silent_env\<lparr>qe_codecs := listing_codecs,
     qe_world := silent_world\<lparr>wo_answer := \<lambda>_ r. if r = ListAuthFiles then Inr (200, ''list'') else Inl (Some [])\<rparr>,
     qe_config := (qe_config silent_env)\<lparr>cg_sources := [\<lparr>sc_key = ''main'', sc_name = ''Main'', sc_kind = CliProxy,
       sc_base_url = [], sc_secret = []\<rparr>]\<rparr>\<rparr>"

definition listing_api :: "unit api_env" where
  "listing_api = \<lparr>ae_env = listing_env, ae_urls = no_urls\<rparr>"

definition stocked :: service where
  "stocked = idle\<lparr>se_quota := \<lparr>qs_db = expired_db\<lparr>grants := [(2, \<lparr>g_label = None, g_remaining = 1, g_total = None,
     g_expires_at = None\<rparr>)]\<rparr>, qs_sent = [], qs_minted = 0\<rparr>\<rparr>"

definition confirmed_input :: json where
  "confirmed_input = JObject [(''account_id'', JString ''00000000002''), (''confirmed'', JBool True)]"

definition codex_file :: auth_file where
  "codex_file = \<lparr>af_entry = no_entry\<lparr>en_auth_index := Some ''k'', en_provider := Some ''codex''\<rparr>,
     af_raw = JObject [(''auth_index'', JString ''k''), (''provider'', JString ''codex'')]\<rparr>"

definition codex_listing :: auth_files where
  "codex_listing = \<lparr>al_observed_at = 100, al_files = [codex_file], al_is_complete = True\<rparr>"

lemma run_io_minted: "qs_minted (snd (run_io m st)) = qs_minted st"
  by (simp add: run_io_def split: prod.split)

lemma codex_reset_spent:
  assumes "account_source (qs_db st) 2 = Some 1"
    and "map (\<lambda>(s, c). s_id (so_row s)) (quota_sources listing_env (Some 1) (qs_db st)) = [1]"
    and "run_io (list_auth_files (qe_codecs listing_env) (qe_world listing_env)) st = (Inr codex_listing, st1)"
    and "store_listing listing_codecs (qe_ids listing_env) 1 codex_listing (qs_minted st1) (qs_db st1) =
      ([(2, codex_file, Some Codex)], n, d)"
    and "grants d = [(2, \<lparr>g_label = None, g_remaining = 1, g_total = None, g_expires_at = None\<rparr>)]"
  shows "outcome_spent (fst (spend_manual_reset listing_env 2 st)) = 1"
proof -
  obtain s c where sources: "quota_sources listing_env (Some 1) (qs_db st) = [(s, c)]" "s_id (so_row s) = 1"
    using assms(2) by auto
  obtain ss st2 where st2: "Quota.store listing_env 1 codex_listing st1 = (ss, st2)" by fastforce
  have cx: "qe_codecs listing_env = listing_codecs" by (simp add: listing_env_def)
  have ss: "ss = [(2, codex_file, Some Codex)]" "grants (qs_db st2) = grants d"
    using st2 assms(4) by (auto simp: Quota.store_def cx Let_def)
  have can: "can_reset listing_codecs Codex codex_file" "\<not> en_disabled (af_entry codex_file)"
    by (simp_all add: can_reset_def can_refresh_def spends_manual_resets_def codex_file_def no_entry_def)
  have left: "unexpired_count (qs_db st2) 2 (clock listing_env st2) \<noteq> 0"
    using ss(2) assms(5) by (simp add: unexpired_count_def unexpired_def)
  have "fst (spend_manual_reset listing_env 2 st) = fst (spend_listed listing_env 2 ss st2)"
    using assms(1,3) sources st2 by (simp add: spend_manual_reset_def)
  moreover have "outcome_spent (fst (spend_listed listing_env 2 ss st2)) = 1"
  proof -
    obtain a st3 where a: "run_io (spend_reset (qe_codecs listing_env) (qe_world listing_env) Codex codex_file
        (sent_index codex_file)) (clear_resets listing_env 2 st2) = (a, st3)" by fastforce
    show ?thesis
    proof (cases a)
      case (Inl e)
      then show ?thesis using can left a by (simp add: spend_listed_def ss(1) cx filter_option_def outcome_spent_def)
    next
      case (Inr u)
      obtain res st4 where r: "after_reset listing_env 2 codex_file Codex st3 = (res, st4)" by fastforce
      have "(2, g) \<notin> set (grants (qs_db st3))" for g
        using clear_resets_grants [of 2 g listing_env st2] run_io_db [OF a] by simp
      from after_reset_result(1) [OF r this] show ?thesis
        using can left a Inr r by (simp add: spend_listed_def ss(1) cx filter_option_def)
    qed
  qed
  ultimately show ?thesis by simp
qed

text \<open>
  The first tap is claimed and queued. A second one arrives meanwhile and shares it; a third comes
  after the process was replaced. The first then spends the reset.
\<close>

definition tapped :: service where
  "tapped = snd (claim listing_api tap ''quota_reset'' stocked)"

abbreviation tap_again :: "service \<Rightarrow> service" where
  "tap_again s \<equiv>
     snd (run listing_api (quota_reset_endpoint listing_api) (\<lambda>s. s) confirmed_input tap ''quota_reset'' s)"

definition queued :: service where
  "queued = snd (claim listing_api tap ''quota_reset'' tapped)"

lemma queued_source: "account_source (qs_db (se_quota queued)) 2 = Some 1"
  by code_simp

lemma queued_gateway:
  "map (\<lambda>(s, c). s_id (so_row s)) (quota_sources listing_env (Some 1) (qs_db (se_quota queued))) = [1]"
  by code_simp

lemma queued_listing:
  "fst (run_io (list_auth_files (qe_codecs listing_env) (qe_world listing_env)) (se_quota queued)) = Inr codex_listing"
  by code_simp

lemma queued_stored:
  "map_prod id (grants \<circ> snd) (store_listing listing_codecs (qe_ids listing_env) 1 codex_listing
     (qs_minted (se_quota queued)) (qs_db (se_quota queued))) =
     ([(2, codex_file, Some Codex)], [(2, \<lparr>g_label = None, g_remaining = 1, g_total = None, g_expires_at = None\<rparr>)])"
  by code_simp

lemma second_tap_shares: "tap_again tapped = queued"
proof -
  obtain c s where c: "claim listing_api tap ''quota_reset'' tapped = (c, s)" by fastforce
  have "case fst (claim listing_api tap ''quota_reset'' tapped) of Reused _ \<Rightarrow> True | _ \<Rightarrow> False" by code_simp
  then obtain v where "c = Reused v" using c by (cases c) auto
  then show ?thesis using c by (simp add: run_def queued_def Let_def)
qed

lemma queued_spends: "consumed (se_quota queued)
    (snd (quota_reset_endpoint listing_api confirmed_input (se_quota queued))) = 1"
proof -
  let ?st = "se_quota queued"
  obtain st1 where l: "run_io (list_auth_files (qe_codecs listing_env) (qe_world listing_env)) ?st = (Inr codex_listing, st1)"
    using queued_listing by (metis prod.collapse)
  have same: "qs_db st1 = qs_db ?st" "qs_minted st1 = qs_minted ?st"
    using run_io_db [OF l] arg_cong [OF l, of "qs_minted \<circ> snd"] by (simp_all add: run_io_minted)
  obtain n d where "store_listing listing_codecs (qe_ids listing_env) 1 codex_listing (qs_minted st1) (qs_db st1) =
      ([(2, codex_file, Some Codex)], n, d)"
    "grants d = [(2, \<lparr>g_label = None, g_remaining = 1, g_total = None, g_expires_at = None\<rparr>)]"
    using queued_stored unfolding same
    by (cases "store_listing listing_codecs (qe_ids listing_env) 1 codex_listing (qs_minted ?st) (qs_db ?st)") auto
  from codex_reset_spent [OF queued_source queued_gateway l this]
  have "consumed ?st (snd (spend_manual_reset listing_env 2 ?st)) = 1" by (simp add: spend_consumes)
  moreover have "encode_id 2 = ''00000000002''" by code_simp
  then have "parse_id ''00000000002'' = Some 2" using parse_encode_id [of 2] by simp
  then have "snd (quota_reset_endpoint listing_api confirmed_input ?st) = snd (spend_manual_reset listing_env 2 ?st)"
    by (simp add: quota_reset_endpoint_def answered_def reset_quota_def reset_answer_state confirmed_input_def
        scope_text_def listing_api_def)
  ultimately show ?thesis by simp
qed

theorem keyed_reset_spends_once_witness:
  "let once = \<lambda>others s. own_resets listing_api others confirmed_input tap ''quota_reset'' s
   in once tap_again stocked = 1 \<and> once (\<lambda>s. s) tapped = 0 \<and> once (\<lambda>s. s) (restart ''two'' tapped) = 0"
proof -
  have "case fst (claim listing_api tap ''quota_reset'' stocked) of Fresh _ \<Rightarrow> True | _ \<Rightarrow> False" by code_simp
  then obtain v where c: "claim listing_api tap ''quota_reset'' stocked = (Fresh v, tapped)"
    by (cases "fst (claim listing_api tap ''quota_reset'' stocked)") (auto simp: tapped_def prod_eq_iff)
  have "journal_ok (db_of stocked)"
    by (simp add: journal_ok_def stocked_def expired_db_def empty_db_def running_def)
  moreover have "iv_key tap = Some ''k''" by (simp add: tap_def)
  moreover have "journal_steps listing_api tapped (restart ''two'' tapped)" by (intro r_into_rtranclp restarted)
  ultimately have "own_resets listing_api (\<lambda>s. s) confirmed_input tap ''quota_reset'' tapped = 0"
    "own_resets listing_api (\<lambda>s. s) confirmed_input tap ''quota_reset'' (restart ''two'' tapped) = 0"
    using keyed_reset_spends_once [OF _ _ c, of "''k''" "[(\<lambda>s. s, confirmed_input, tap, ''quota_reset'', tapped),
        (\<lambda>s. s, confirmed_input, tap, ''quota_reset'', restart ''two'' tapped)]" tap_again confirmed_input]
    by auto
  then show ?thesis using own_resets_fresh [OF c, of tap_again confirmed_input] queued_spends
    by (simp add: Let_def second_tap_shares)
qed

theorem claim_closes_lost_actions_witness:
  "running (db_of (snd (claim silent_api tap ''quota_reset'' idle))) = [new_action silent_api tap ''quota_reset'' idle]"
proof -
  obtain v s1 where c: "claim silent_api tap ''quota_reset'' idle = (Fresh v, s1)" using tap_claim by blast
  from claim_closes_lost_actions [OF this] show ?thesis
    unfolding c by (simp add: running_def idle_def empty_db_def)
qed

end
