(* ===== verification/Metrics.thy ===== *)
theory Metrics
  imports Prices Usage "HOL-Library.Multiset"
begin

text \<open>
  The measures of every analytics answer (\<^verbatim>\<open>src/analytics/metrics.rs\<close>). An event is joined
  to the price row that priced it, when that row exists; a column that is NULL adds nothing.
  Sums are exact: a total beyond an i64 is not modelled.
\<close>

section \<open>The columns\<close>

type_synonym priced = "event_row \<times> price_row option"

abbreviation used :: "priced \<Rightarrow> usage" where
  "used r \<equiv> e_usage (fst r)"

text \<open>The left join of \<^verbatim>\<open>FROM\<close>: a price has one row.\<close>

definition joined :: "db \<Rightarrow> event_row \<Rightarrow> priced" where
  "joined d e = (e, Option.bind (e_price e) (\<lambda>i. find (\<lambda>p. m_id p = i) (prices d)))"

text \<open>SQLite's \<^verbatim>\<open>TOTAL\<close>, which skips NULL and is zero over no rows.\<close>

definition total :: "('r \<Rightarrow> rat option) \<Rightarrow> 'r list \<Rightarrow> rat" where
  "total f rows = sum_list (map (\<lambda>r. unwrap_or 0 (f r)) rows)"

definition uncached_input :: "usage \<Rightarrow> int" where
  "uncached_input u = max (u_input_tokens u - u_cache_read_tokens u - u_cache_write_tokens u) 0"

definition rated :: "priced \<Rightarrow> (rates \<Rightarrow> rat) \<Rightarrow> rat option" where
  "rated r f = map_option (\<lambda>p. f (m_rates p)) (snd r)"

text \<open>The time spent generating, of a successful request that spent some.\<close>

definition generating :: "usage \<Rightarrow> int option" where
  "generating u =
     (if u_failed u then None
      else filter_option (\<lambda>ms. 0 < ms)
             (map_option (\<lambda>ms. ms - unwrap_or 0 (u_ttft_ms u)) (u_latency_ms u)))"

record usage_metrics =
  um_requests :: int
  um_failures :: int
  um_input_tokens :: int
  um_uncached_input_tokens :: int
  um_cache_read_tokens :: int
  um_cache_write_tokens :: int
  um_output_tokens :: int
  um_reasoning_tokens :: int
  um_unclassified_tokens :: int
  um_total_tokens :: int
  um_list_cost_usd :: rat
  um_billed_cost_usd :: rat
  um_uncached_input_cost_usd :: rat
  um_cache_read_cost_usd :: rat
  um_cache_write_cost_usd :: rat
  um_output_cost_usd :: rat
  um_cache_savings_usd :: rat
  um_unpriced_requests :: int
  um_unbilled_requests :: int
  um_latency_ms_total :: rat
  um_latency_samples :: rat
  um_ttft_ms_total :: rat
  um_ttft_samples :: rat
  um_generated_output_tokens :: rat
  um_generation_ms_total :: rat

definition measure_all :: "priced list \<Rightarrow> usage_metrics" where
  "measure_all rows =
    \<lparr>um_requests = int (length rows),
     um_failures = sum_list (map (\<lambda>r. if u_failed (used r) then 1 else 0) rows),
     um_input_tokens = sum_list (map (\<lambda>r. u_input_tokens (used r)) rows),
     um_uncached_input_tokens = sum_list (map (\<lambda>r. uncached_input (used r)) rows),
     um_cache_read_tokens = sum_list (map (\<lambda>r. u_cache_read_tokens (used r)) rows),
     um_cache_write_tokens = sum_list (map (\<lambda>r. u_cache_write_tokens (used r)) rows),
     um_output_tokens = sum_list (map (\<lambda>r. u_output_tokens (used r)) rows),
     um_reasoning_tokens = sum_list (map (\<lambda>r. u_reasoning_tokens (used r)) rows),
     um_unclassified_tokens = sum_list (map (\<lambda>r. u_unclassified_tokens (used r)) rows),
     um_total_tokens = sum_list (map (\<lambda>r. u_total_tokens (used r)) rows),
     um_list_cost_usd = total (\<lambda>r. e_list_cost (fst r)) rows,
     um_billed_cost_usd = total (\<lambda>r. e_billed_cost (fst r)) rows,
     um_uncached_input_cost_usd = total (\<lambda>r. rated r (\<lambda>m. of_int (uncached_input (used r)) * input_usd_per_mtok m / 1000000)) rows,
     um_cache_read_cost_usd = total (\<lambda>r. rated r (\<lambda>m. of_int (u_cache_read_tokens (used r)) * cached_input_usd_per_mtok m / 1000000)) rows,
     um_cache_write_cost_usd = total (\<lambda>r. rated r (\<lambda>m. of_int (u_cache_write_tokens (used r)) * cache_write_usd_per_mtok m / 1000000)) rows,
     um_output_cost_usd = total (\<lambda>r. rated r (\<lambda>m. of_int (u_output_tokens (used r)) * output_usd_per_mtok m / 1000000)) rows,
     um_cache_savings_usd = total (\<lambda>r. rated r (\<lambda>m. (of_int (u_cache_read_tokens (used r)) *
               (input_usd_per_mtok m - cached_input_usd_per_mtok m)
             - of_int (u_cache_write_tokens (used r)) *
               (cache_write_usd_per_mtok m - input_usd_per_mtok m)) / 1000000)) rows,
     um_unpriced_requests = int (length rows) - int (count_where (\<lambda>r. e_list_cost (fst r) \<noteq> None) rows),
     um_unbilled_requests = int (length rows) - int (count_where (\<lambda>r. e_billed_cost (fst r) \<noteq> None) rows),
     um_latency_ms_total = total (\<lambda>r. map_option of_int (u_latency_ms (used r))) rows,
     um_latency_samples = total (\<lambda>r. Some (if u_latency_ms (used r) \<noteq> None then 1 else 0)) rows,
     um_ttft_ms_total = total (\<lambda>r. map_option of_int (u_ttft_ms (used r))) rows,
     um_ttft_samples = total (\<lambda>r. Some (if u_ttft_ms (used r) \<noteq> None then 1 else 0)) rows,
     um_generated_output_tokens = total (\<lambda>r. map_option (\<lambda>_. of_int (u_output_tokens (used r))) (generating (used r))) rows,
     um_generation_ms_total = total (\<lambda>r. map_option of_int (generating (used r))) rows\<rparr>"

section \<open>Averages\<close>

definition avg_latency_ms :: "usage_metrics \<Rightarrow> rat option" where
  "avg_latency_ms m =
     (if 0 < um_latency_samples m then Some (um_latency_ms_total m / um_latency_samples m) else None)"

definition avg_ttft_ms :: "usage_metrics \<Rightarrow> rat option" where
  "avg_ttft_ms m =
     (if 0 < um_ttft_samples m then Some (um_ttft_ms_total m / um_ttft_samples m) else None)"

definition output_tokens_per_second :: "usage_metrics \<Rightarrow> rat option" where
  "output_tokens_per_second m =
     (if 0 < um_generation_ms_total m
      then Some (um_generated_output_tokens m * 1000 / um_generation_ms_total m) else None)"

section \<open>Adding measures\<close>

definition add_assign ::
  "'a::comm_monoid_add usage_metrics_scheme \<Rightarrow> 'a usage_metrics_scheme \<Rightarrow> 'a usage_metrics_scheme" where
  "add_assign a b =
    \<lparr>um_requests = um_requests a + um_requests b,
     um_failures = um_failures a + um_failures b,
     um_input_tokens = um_input_tokens a + um_input_tokens b,
     um_uncached_input_tokens = um_uncached_input_tokens a + um_uncached_input_tokens b,
     um_cache_read_tokens = um_cache_read_tokens a + um_cache_read_tokens b,
     um_cache_write_tokens = um_cache_write_tokens a + um_cache_write_tokens b,
     um_output_tokens = um_output_tokens a + um_output_tokens b,
     um_reasoning_tokens = um_reasoning_tokens a + um_reasoning_tokens b,
     um_unclassified_tokens = um_unclassified_tokens a + um_unclassified_tokens b,
     um_total_tokens = um_total_tokens a + um_total_tokens b,
     um_list_cost_usd = um_list_cost_usd a + um_list_cost_usd b,
     um_billed_cost_usd = um_billed_cost_usd a + um_billed_cost_usd b,
     um_uncached_input_cost_usd = um_uncached_input_cost_usd a + um_uncached_input_cost_usd b,
     um_cache_read_cost_usd = um_cache_read_cost_usd a + um_cache_read_cost_usd b,
     um_cache_write_cost_usd = um_cache_write_cost_usd a + um_cache_write_cost_usd b,
     um_output_cost_usd = um_output_cost_usd a + um_output_cost_usd b,
     um_cache_savings_usd = um_cache_savings_usd a + um_cache_savings_usd b,
     um_unpriced_requests = um_unpriced_requests a + um_unpriced_requests b,
     um_unbilled_requests = um_unbilled_requests a + um_unbilled_requests b,
     um_latency_ms_total = um_latency_ms_total a + um_latency_ms_total b,
     um_latency_samples = um_latency_samples a + um_latency_samples b,
     um_ttft_ms_total = um_ttft_ms_total a + um_ttft_ms_total b,
     um_ttft_samples = um_ttft_samples a + um_ttft_samples b,
     um_generated_output_tokens = um_generated_output_tokens a + um_generated_output_tokens b,
     um_generation_ms_total = um_generation_ms_total a + um_generation_ms_total b, \<dots> = usage_metrics.more a + usage_metrics.more b\<rparr>"

text \<open>
  \<^verbatim>\<open>Default\<close> and \<^verbatim>\<open>AddAssign\<close> are the zero and the sum of a commutative monoid, so the
  library's sums over lists apply to measures.
\<close>

instantiation unit :: comm_monoid_add
begin

definition zero_unit :: unit where
  "zero_unit = ()"

definition plus_unit :: "unit \<Rightarrow> unit \<Rightarrow> unit" where
  "plus_unit a b = ()"

instance
  by standard simp_all

end

instantiation usage_metrics_ext :: (comm_monoid_add) comm_monoid_add
begin

definition zero_usage_metrics_ext :: "'a usage_metrics_scheme" where
  "zero_usage_metrics_ext =
    \<lparr>um_requests = 0, um_failures = 0, um_input_tokens = 0, um_uncached_input_tokens = 0,
     um_cache_read_tokens = 0, um_cache_write_tokens = 0, um_output_tokens = 0, um_reasoning_tokens
     = 0, um_unclassified_tokens = 0, um_total_tokens = 0, um_list_cost_usd = 0, um_billed_cost_usd
     = 0, um_uncached_input_cost_usd = 0, um_cache_read_cost_usd = 0, um_cache_write_cost_usd = 0,
     um_output_cost_usd = 0, um_cache_savings_usd = 0, um_unpriced_requests = 0,
     um_unbilled_requests = 0, um_latency_ms_total = 0, um_latency_samples = 0, um_ttft_ms_total =
     0, um_ttft_samples = 0, um_generated_output_tokens = 0, um_generation_ms_total = 0, \<dots> = 0\<rparr>"

definition plus_usage_metrics_ext ::
  "'a usage_metrics_scheme \<Rightarrow> 'a usage_metrics_scheme \<Rightarrow> 'a usage_metrics_scheme" where
  "plus_usage_metrics_ext a b = add_assign a b"

instance
  by standard (simp_all add: zero_usage_metrics_ext_def plus_usage_metrics_ext_def add_assign_def ac_simps)

end

section \<open>Ranking\<close>

datatype rank_by = ByListCost | ByBilledCost | ByTotalTokens | ByRequests

fun rank_measure :: "rank_by \<Rightarrow> usage_metrics \<Rightarrow> rat" where
  "rank_measure ByListCost m = um_list_cost_usd m"
| "rank_measure ByBilledCost m = um_billed_cost_usd m"
| "rank_measure ByTotalTokens m = of_int (um_total_tokens m)"
| "rank_measure ByRequests m = of_int (um_requests m)"

text \<open>
  A sort by \<^verbatim>\<open>descending\<close> and then by key: the largest measure first, and the least key
  among equals. The total order of f64 is that of the exact values.
\<close>

definition rank_order :: "rank_by \<Rightarrow> usage_metrics \<Rightarrow> string \<Rightarrow> rat \<times> string" where
  "rank_order by m key = (- rank_measure by m, key)"

section \<open>Lemmas\<close>

lemma count_where_append [simp]: "count_where p (xs @ ys) = count_where p xs + count_where p ys"
  by (simp add: count_where_def)

lemma total_append [simp]: "total f (xs @ ys) = total f xs + total f ys"
  by (simp add: total_def)

lemma total_Nil [simp]: "total f [] = 0"
  by (simp add: total_def)

lemma measure_all_Nil: "measure_all [] = 0"
  by (simp add: measure_all_def zero_usage_metrics_ext_def zero_unit_def count_where_def)

lemma measure_all_append: "measure_all (xs @ ys) = measure_all xs + measure_all ys"
  by (simp add: measure_all_def plus_usage_metrics_ext_def add_assign_def)

lemma measure_all_Cons: "measure_all (r # rows) = measure_all [r] + measure_all rows"
  using measure_all_append [of "[r]" rows] by simp

text \<open>Two stretches of events measure as their sum, so measures are a sum over the events.\<close>

lemma measure_all_sum: "measure_all rows = sum_list (map (\<lambda>r. measure_all [r]) rows)"
proof (induction rows)
  case Nil
  then show ?case by (simp add: measure_all_Nil)
next
  case (Cons r rows)
  then show ?case by (subst measure_all_Cons) simp
qed

lemma measure_all_cong:
  "mset xs = mset ys \<Longrightarrow> measure_all xs = measure_all ys"
proof -
  have "sum_list (map f xs) = sum_mset (image_mset f (mset xs))" for f :: "priced \<Rightarrow> usage_metrics" and xs
    by (simp add: sum_mset_sum_list [symmetric])
  then show "mset xs = mset ys \<Longrightarrow> measure_all xs = measure_all ys"
    using measure_all_sum [of xs] measure_all_sum [of ys] by presburger
qed

lemma sum_list_groups:
  fixes f :: "'a \<Rightarrow> 'b::comm_monoid_add"
  assumes "distinct ks" and "\<And>x. x \<in> set xs \<Longrightarrow> key x \<in> set ks"
  shows "sum_list (map (\<lambda>k. sum_list (map f (filter (\<lambda>x. key x = k) xs))) ks) = sum_list (map f xs)"
  using assms(2)
proof (induction xs)
  case Nil
  then show ?case by (simp add: sum_list_0)
next
  case (Cons x xs)
  have "sum_list (map (\<lambda>k. sum_list (map f (filter (\<lambda>y. key y = k) (x # xs)))) ks) =
      sum_list (map (\<lambda>k. if key x = k then f x else 0) ks) +
      sum_list (map (\<lambda>k. sum_list (map f (filter (\<lambda>y. key y = k) xs))) ks)"
    unfolding sum_list_addf [symmetric] by (intro arg_cong [of _ _ sum_list] map_cong) auto
  moreover have "sum_list (map (\<lambda>k. if key x = k then f x else 0) ks) = f x"
    using assms(1) Cons.prems [of x] by (simp add: sum_list_distinct_conv_sum_set)
  ultimately show ?case using Cons by simp
qed

lemma measure_groups:
  assumes "distinct ks" and "\<And>r. r \<in> set rows \<Longrightarrow> key r \<in> set ks"
  shows "sum_list (map (\<lambda>k. measure_all (filter (\<lambda>r. key r = k) rows)) ks) = measure_all rows"
  unfolding measure_all_sum [of "filter _ _"] measure_all_sum [of rows]
  by (rule sum_list_groups [OF assms])

lemma sum_list_update_add:
  fixes xs :: "'a::comm_monoid_add list"
  shows "i < length xs \<Longrightarrow> sum_list (xs[i := xs ! i + x]) = sum_list xs + x"
  by (induction xs arbitrary: i) (auto simp: ac_simps split: nat.splits)

section \<open>Properties\<close>

text \<open>
  The costs of an event are frozen: an event is either unpriced or carries the list cost that
  the rates of its price row give.
\<close>

definition cost_frozen :: "db \<Rightarrow> event_row \<Rightarrow> bool" where
  "cost_frozen d e \<longleftrightarrow>
     (case snd (joined d e) of
        None \<Rightarrow> e_list_cost e = None
      | Some p \<Rightarrow> e_list_cost e = Some (list_cost (m_rates p) (e_usage e)))"

definition cost_parts :: "usage_metrics \<Rightarrow> rat" where
  "cost_parts m = um_uncached_input_cost_usd m + um_cache_read_cost_usd m
     + um_cache_write_cost_usd m + um_output_cost_usd m"

lemma um_plus:
  "um_list_cost_usd (a + b) = um_list_cost_usd a + um_list_cost_usd b"
  "cost_parts (a + b) = cost_parts a + cost_parts b"
  "um_requests (a + b) = um_requests a + um_requests b"
  "um_failures (a + b) = um_failures a + um_failures b"
  "um_total_tokens (a + b) = um_total_tokens a + um_total_tokens b"
  by (simp_all add: cost_parts_def plus_usage_metrics_ext_def add_assign_def)

lemma um_zero:
  "um_list_cost_usd 0 = 0" "cost_parts 0 = 0" "um_requests 0 = 0" "um_failures 0 = 0"
  "um_total_tokens 0 = 0"
  by (simp_all add: cost_parts_def zero_usage_metrics_ext_def)

lemma cost_parts_one:
  "cost_frozen d e \<Longrightarrow> cost_parts (measure_all [joined d e]) = um_list_cost_usd (measure_all [joined d e])"
  by (auto simp: cost_frozen_def cost_parts_def measure_all_def total_def rated_def list_cost_def
      uncached_input_def joined_def add_divide_distrib split: option.splits)

lemma cost_parts_sum:
  assumes "\<And>e. e \<in> set es \<Longrightarrow> cost_frozen d e"
  shows "cost_parts (measure_all (map (joined d) es)) = um_list_cost_usd (measure_all (map (joined d) es))"
  using assms
proof (induction es)
  case Nil
  then show ?case by (simp add: measure_all_Nil um_zero)
next
  case (Cons e es)
  then show ?case
    using measure_all_Cons [of "joined d e" "map (joined d) es"] by (simp add: um_plus cost_parts_one)
qed

lemma fill_event_frozen:
  assumes "distinct (map m_id (prices d))" and "fill_event priced_as d e = Some e'"
  shows "cost_frozen d e'"
proof -
  obtain p a where p: "chosen_price priced_as (prices d) e = Some p" and e': "e' = price_event p a e"
    using assms(2) by (auto simp: fill_event_def split: if_splits option.splits)
  have "find (\<lambda>q. m_id q = m_id p) (prices d) = Some p"
    using assms(1) chosen_price_Some(1) [OF p] by (rule distinct_find_key)
  then show ?thesis by (simp add: e' cost_frozen_def joined_def price_event_def Let_def)
qed

lemma fill_frozen:
  assumes "distinct (map m_id (prices d))" and "\<And>e. e \<in> set (events d) \<Longrightarrow> cost_frozen d e"
    and "e \<in> set (events (snd (fill_events priced_as d)))"
  shows "cost_frozen d e"
  using assms by (auto simp: fill_events_def unwrap_or_def fill_event_frozen split: option.splits)

text \<open>
  C19: When the background filler has priced what it can, the four cost parts of any selection of
  events add up to its list cost: every event it prices carries the cost its price row gives,
  and an unpriced event adds nothing to either side.
\<close>

theorem cost_parts_add_up:
  assumes "distinct (map m_id (prices d))" and "\<forall>e\<in>set (events d). cost_frozen d e"
    and "fill_events priced_as d = (priced, d')" and "set es \<subseteq> set (events d')"
  shows "cost_parts (measure_all (map (joined d') es)) = um_list_cost_usd (measure_all (map (joined d') es))"
proof -
  have d': "prices d' = prices d" using assms(3) by (auto simp: fill_events_def)
  have "joined d' = joined d" by (simp add: fun_eq_iff joined_def d')
  moreover have "cost_frozen d e" if "e \<in> set es" for e
    using fill_frozen [of d e priced_as] assms that by auto
  ultimately show ?thesis by (metis cost_parts_sum)
qed

theorem cost_parts_add_up_witness:
  "\<exists>priced d'. fill_events [] priced_db = (priced, d') \<and>
     cost_parts (measure_all (map (joined d') (events d'))) =
       um_list_cost_usd (measure_all (map (joined d') (events d')))"
proof -
  obtain priced d' where fill: "fill_events [] priced_db = (priced, d')" by fastforce
  have "distinct (map m_id (prices priced_db))" "\<forall>e\<in>set (events priced_db). cost_frozen priced_db e"
    by (simp_all add: priced_db_def cost_frozen_def joined_def)
  from cost_parts_add_up [OF this fill, of "events d'"] show ?thesis using fill by simp
qed

end
