(* ===== verification/Buckets.thy ===== *)
theory Buckets
  imports Metrics
begin

text \<open>
  The events an analytics question is about and the stretches of local time they are cut into
  (\<^verbatim>\<open>src/analytics/filter.rs\<close>, \<^verbatim>\<open>src/analytics/bucket.rs\<close>).

  A civil time is the number of nanoseconds of its clock since 1970-01-01T00:00:00, so that a
  local time is an instant moved by the offset of its zone. What jiff and SQLite supply is a
  parameter: a time zone by its offsets, its transitions and the instants of its civil times,
  and a calendar by its ranges and the text of its dates.
\<close>

section \<open>The time library\<close>

type_synonym civil = int

record time_zone =
  tz_offset :: "instant \<Rightarrow> int"
  tz_preceding :: "instant \<Rightarrow> (instant \<times> int) list"
  tz_timestamp :: "civil \<Rightarrow> instant option"

definition to_datetime :: "time_zone \<Rightarrow> instant \<Rightarrow> civil" where
  "to_datetime tz t = t + tz_offset tz t * ns_per_second"

datatype bucket = Hour | Day | Week

record calendar =
  cl_civil_max :: civil
  cl_min :: instant
  cl_max :: instant
  cl_key :: "bucket \<Rightarrow> civil \<Rightarrow> string"
  cl_date :: "string \<Rightarrow> int option"
  cl_utc :: time_zone

text \<open>
  What the code relies on of a zone: the transitions before an instant come latest first, the
  latest of them that an instant has reached gives its offset, and without one the offset is
  still that of an earlier instant.
\<close>

definition lawful_zone :: "time_zone \<Rightarrow> bool" where
  "lawful_zone tz \<longleftrightarrow>
     (\<forall>t. sorted_wrt (\<lambda>x y. fst y < fst x) (tz_preceding tz t) \<and>
        (\<forall>x\<in>set (tz_preceding tz t). fst x < t)) \<and>
     (\<forall>t s x. s \<le> x \<longrightarrow> x < t \<longrightarrow>
        tz_offset tz x =
          (case find (\<lambda>change. fst change \<le> x) (takeWhile (\<lambda>change. s < fst change) (tz_preceding tz t)) of
             Some (_, offset) \<Rightarrow> offset
           | None \<Rightarrow> tz_offset tz s))"

text \<open>The zone without an offset, as far as instants go.\<close>

definition is_utc :: "calendar \<Rightarrow> time_zone \<Rightarrow> bool" where
  "is_utc cl tz \<longleftrightarrow>
     (\<forall>t. tz_offset tz t = 0 \<and> tz_preceding tz t = []) \<and>
     (\<forall>c. cl_min cl \<le> c \<and> c \<le> cl_max cl \<longrightarrow> tz_timestamp tz c = Some c)"

section \<open>Errors\<close>

text \<open>A stored value that does not read back is \<^verbatim>\<open>DatabaseError::Unreadable\<close>.\<close>

datatype analytics_error =
    UnknownAccountId id
  | UnknownSourceId id
  | TooManyBuckets
  | Window
  | Unreadable string string

definition max_buckets :: nat where
  "max_buckets = 5000"

section \<open>Filters\<close>

record analytics_filter =
  af_from :: "instant option"
  af_to :: instant
  af_zone :: time_zone
  af_sources :: "id list"
  af_accounts :: "id list"
  af_models :: "string list"
  af_providers :: "string list"
  af_harnesses :: "string list"

definition window :: "instant \<Rightarrow> instant option \<Rightarrow> instant option \<Rightarrow> time_zone \<Rightarrow> analytics_filter" where
  "window now lo hi tz =
     \<lparr>af_from = lo, af_to = unwrap_or now hi, af_zone = tz, af_sources = [], af_accounts = [],
      af_models = [], af_providers = [], af_harnesses = []\<rparr>"

text \<open>The first id that the column does not hold.\<close>

definition missing :: "id list \<Rightarrow> id list \<Rightarrow> id option" where
  "missing stored ids = find (\<lambda>i. i \<notin> set stored) ids"

definition check_filter :: "db \<Rightarrow> analytics_filter \<Rightarrow> analytics_error + unit" where
  "check_filter d f =
     (case missing (map s_id (sources d)) (af_sources f) of
        Some i \<Rightarrow> Inl (UnknownSourceId i)
      | None \<Rightarrow>
          (case missing (map a_id (accounts d)) (af_accounts f) of
             Some i \<Rightarrow> Inl (UnknownAccountId i)
           | None \<Rightarrow> Inr ()))"

definition harness_key :: "event_row \<Rightarrow> string" where
  "harness_key e = unwrap_or ''unknown'' (u_harness (e_usage e))"

abbreviation occurred :: "event_row \<Rightarrow> instant" where
  "occurred e \<equiv> u_occurred_at (e_usage e)"

definition push_in :: "'a list \<Rightarrow> 'a \<Rightarrow> bool" where
  "push_in alternatives column \<longleftrightarrow> alternatives = [] \<or> column \<in> set alternatives"

definition push_where :: "analytics_filter \<Rightarrow> event_row \<Rightarrow> bool" where
  "push_where f e \<longleftrightarrow>
     occurred e < af_to f \<and>
     (case af_from f of None \<Rightarrow> True | Some lo \<Rightarrow> lo \<le> occurred e) \<and>
     push_in (af_sources f) (e_source e) \<and>
     push_in (af_accounts f) (e_account e) \<and>
     push_in (af_models f) (u_model (e_usage e)) \<and>
     push_in (af_providers f) (u_provider (e_usage e)) \<and>
     push_in (af_harnesses f) (harness_key e)"

definition selected :: "db \<Rightarrow> analytics_filter \<Rightarrow> event_row list" where
  "selected d f = filter (push_where f) (events d)"

section \<open>Shifts to local time\<close>

record recorded =
  rc_first :: instant
  rc_last :: instant

definition load_recorded :: "db \<Rightarrow> recorded option" where
  "load_recorded d =
     (let ts = map occurred (events d)
      in if ts = [] then None else Some \<lparr>rc_first = Min (set ts), rc_last = Max (set ts)\<rparr>)"

record shift =
  sf_changes :: "(instant \<times> int) list"
  sf_before :: int

definition shift_of :: "calendar \<Rightarrow> analytics_filter \<Rightarrow> recorded option \<Rightarrow> shift" where
  "shift_of cl f rec =
     (case rec of
        None \<Rightarrow> \<lparr>sf_changes = [], sf_before = tz_offset (af_zone f) (af_to f)\<rparr>
      | Some r \<Rightarrow>
          (let since = (case af_from f of None \<Rightarrow> rc_first r | Some lo \<Rightarrow> max lo (rc_first r));
               until = min (if rc_last r + 1 \<le> cl_max cl then rc_last r + 1 else rc_last r) (af_to f)
           in \<lparr>sf_changes = takeWhile (\<lambda>change. since < fst change) (tz_preceding (af_zone f) until),
               sf_before = tz_offset (af_zone f) since\<rparr>))"

text \<open>The offset, in seconds, that the modifier adds to an instant.\<close>

definition shift_seconds :: "shift \<Rightarrow> instant \<Rightarrow> int" where
  "shift_seconds sf t =
     (case find (\<lambda>change. fst change \<le> t) (sf_changes sf) of
        Some (_, offset) \<Rightarrow> offset
      | None \<Rightarrow> sf_before sf)"

section \<open>Buckets\<close>

abbreviation ns_per_hour :: int where
  "ns_per_hour \<equiv> 3600 * ns_per_second"

abbreviation ns_per_day :: int where
  "ns_per_day \<equiv> 86400 * ns_per_second"

text \<open>
  Days are counted from 1970-01-01, a Thursday, so a day that leaves 4 over whole weeks is a
  Monday. The least date that jiff holds is a Monday, so the subtraction never saturates.
\<close>

definition monday_of :: "int \<Rightarrow> int" where
  "monday_of day = day - (day + 3) mod 7"

fun floor_to :: "bucket \<Rightarrow> civil \<Rightarrow> civil" where
  "floor_to Hour c = c div ns_per_hour * ns_per_hour"
| "floor_to Day c = c div ns_per_day * ns_per_day"
| "floor_to Week c = monday_of (c div ns_per_day) * ns_per_day"

fun bucket_step :: "bucket \<Rightarrow> int" where
  "bucket_step Hour = ns_per_hour"
| "bucket_step Day = ns_per_day"
| "bucket_step Week = 7 * ns_per_day"

text \<open>
  SQLite's modifiers: \<^verbatim>\<open>weekday 0\<close> moves a date forward to a Sunday, or leaves one where it
  is, and \<^verbatim>\<open>-6 days\<close> then finds the Monday before it.
\<close>

definition weekday_zero :: "int \<Rightarrow> int" where
  "weekday_zero day = day + (- (day + 4)) mod 7"

text \<open>
  The key an event is grouped under: its instant cut to whole seconds, moved to local time,
  and printed down to its hour or day.
\<close>

definition bucket_key :: "calendar \<Rightarrow> bucket \<Rightarrow> shift \<Rightarrow> event_row \<Rightarrow> string" where
  "bucket_key cl b sf e =
     (let second = occurred e div ns_per_second + shift_seconds sf (occurred e)
      in case b of
           Hour \<Rightarrow> cl_key cl Hour (second div 3600 * ns_per_hour)
         | Day \<Rightarrow> cl_key cl Day (second div 86400 * ns_per_day)
         | Week \<Rightarrow> cl_key cl Week ((weekday_zero (second div 86400) - 6) * ns_per_day))"

definition first_instant :: "bucket \<Rightarrow> civil \<Rightarrow> time_zone \<Rightarrow> analytics_error + instant option" where
  "first_instant b local tz =
     (let inside = (\<lambda>t. floor_to b (to_datetime tz t) = local)
      in case tz_timestamp tz local of
           None \<Rightarrow> Inl Window
         | Some mapped \<Rightarrow>
             if inside mapped then Inr (Some mapped)
             else Inr (filter_option inside
                    (case tz_preceding tz mapped of [] \<Rightarrow> None | change # _ \<Rightarrow> Some (fst change))))"

lemma bucket_step_pos [simp]: "0 < bucket_step b"
  by (cases b) simp_all

function starts_from ::
  "calendar \<Rightarrow> bucket \<Rightarrow> time_zone \<Rightarrow> instant \<Rightarrow> civil \<Rightarrow> (string \<times> instant) list \<Rightarrow>
     analytics_error + (string \<times> instant) list" where
  "starts_from cl b tz hi local found =
     (case first_instant b local tz of
        Inl e \<Rightarrow> Inl e
      | Inr start \<Rightarrow>
          if (case start of None \<Rightarrow> False | Some t \<Rightarrow> hi \<le> t) then Inr found
          else if start \<noteq> None \<and> length found = max_buckets then Inl TooManyBuckets
          else if cl_civil_max cl < local + bucket_step b then Inl Window
          else starts_from cl b tz hi (local + bucket_step b)
                 (found @ (case start of None \<Rightarrow> [] | Some t \<Rightarrow> [(cl_key cl b local, t)])))"
  by pat_completeness auto

termination
proof (relation "measure (\<lambda>(cl, b, tz, hi, local, found). nat (cl_civil_max cl - local + 1))",
    goal_cases)
  case 1
  show ?case by simp
next
  case (2 cl b tz hi local found start)
  then show ?case using bucket_step_pos [of b] by (simp del: bucket_step_pos)
qed

declare starts_from.simps [simp del]

definition starts :: "calendar \<Rightarrow> bucket \<Rightarrow> instant \<Rightarrow> instant \<Rightarrow> time_zone \<Rightarrow> analytics_error + (string \<times> instant) list" where
  "starts cl b lo hi tz = starts_from cl b tz hi (floor_to b (to_datetime tz lo)) []"

section \<open>Local time\<close>

lemma weekday_zero_monday: "weekday_zero day - 6 = monday_of day"
  unfolding weekday_zero_def monday_of_def by presburger

lemma div_second: "(t + offset * ns_per_second) div (k * ns_per_second) = (t div ns_per_second + offset) div k"
  if "0 < k" for t :: int
proof -
  have "(t + offset * ns_per_second) div (k * ns_per_second) =
      (t + offset * ns_per_second) div (ns_per_second * k)" by (simp only: mult.commute)
  also have "\<dots> = (t + offset * ns_per_second) div ns_per_second div k"
    using that by (subst zdiv_zmult2_eq) auto
  also have "(t + offset * ns_per_second) div ns_per_second = t div ns_per_second + offset" by simp
  finally show ?thesis .
qed

lemma bucket_key_local:
  "bucket_key cl b sf e =
     cl_key cl b (floor_to b (occurred e + shift_seconds sf (occurred e) * ns_per_second))"
  using div_second [of 3600 "occurred e" "shift_seconds sf (occurred e)"]
    div_second [of 86400 "occurred e" "shift_seconds sf (occurred e)"]
  by (cases b) (simp_all add: bucket_key_def Let_def weekday_zero_monday)

lemma find_takeWhile_recorded:
  assumes "load_recorded d = Some r" and "e \<in> set (events d)"
  shows "rc_first r \<le> occurred e" and "occurred e \<le> rc_last r"
  using assms by (auto simp: load_recorded_def Let_def split: if_splits)

lemma recorded_exists: "e \<in> set (events d) \<Longrightarrow> \<exists>r. load_recorded d = Some r"
  by (auto simp: load_recorded_def Let_def)

lemma shift_places:
  assumes zone: "lawful_zone (af_zone f)" and "e \<in> set (selected d f)"
    and last: "\<forall>e\<in>set (events d). occurred e < cl_max cl"
  shows "shift_seconds (shift_of cl f (load_recorded d)) (occurred e) = tz_offset (af_zone f) (occurred e)"
proof -
  have e: "e \<in> set (events d)" "push_where f e" using assms(2) by (auto simp: selected_def)
  obtain r where r: "load_recorded d = Some r" using recorded_exists [OF e(1)] by blast
  let ?since = "case af_from f of None \<Rightarrow> rc_first r | Some lo \<Rightarrow> max lo (rc_first r)"
  have "rc_last r \<in> set (map occurred (events d))"
    using r e(1) Max_in [of "set (map occurred (events d))"]
    by (auto simp: load_recorded_def Let_def split: if_splits)
  then have until: "rc_last r + 1 \<le> cl_max cl" using last by auto
  have since: "?since \<le> occurred e"
    using e(2) find_takeWhile_recorded [OF r e(1)] by (auto simp: push_where_def split: option.splits)
  have before: "occurred e < min (rc_last r + 1) (af_to f)"
    using e(2) find_takeWhile_recorded [OF r e(1)] by (simp add: push_where_def)
  let ?changes = "takeWhile (\<lambda>change. ?since < fst change) (tz_preceding (af_zone f) (min (rc_last r + 1) (af_to f)))"
  have law: "tz_offset (af_zone f) (occurred e) =
      (case find (\<lambda>change. fst change \<le> occurred e) ?changes of
         Some (_, offset) \<Rightarrow> offset | None \<Rightarrow> tz_offset (af_zone f) ?since)"
    using zone since before unfolding lawful_zone_def by blast
  have "shift_of cl f (load_recorded d) = \<lparr>sf_changes = ?changes, sf_before = tz_offset (af_zone f) ?since\<rparr>"
    using until by (simp add: shift_of_def r Let_def)
  then show ?thesis unfolding law shift_seconds_def by (simp only: shift.simps)
qed

text \<open>
  An event is grouped under the bucket its local time falls in, although the statement moves
  it by offsets that are fixed before it runs.
\<close>

lemma bucket_key_selected:
  assumes "lawful_zone (af_zone f)" and "e \<in> set (selected d f)"
    and "\<forall>e\<in>set (events d). occurred e < cl_max cl"
  shows "bucket_key cl b (shift_of cl f (load_recorded d)) e =
     cl_key cl b (floor_to b (to_datetime (af_zone f) (occurred e)))"
  by (simp add: bucket_key_local shift_places [OF assms] to_datetime_def)

section \<open>Buckets of a window\<close>

lemma starts_from_bounded:
  "starts_from cl b tz hi local found = Inr ss \<Longrightarrow> length found \<le> max_buckets \<Longrightarrow> length ss \<le> max_buckets"
proof (induction cl b tz hi local found rule: starts_from.induct)
  case (1 cl b tz hi local found)
  note result = 1(2) [unfolded starts_from.simps [of cl b tz hi local found]]
  show ?case
  proof (cases "first_instant b local tz")
    case (Inl e)
    then show ?thesis using result by simp
  next
    case (Inr start)
    then show ?thesis using result 1(3) 1(1) [OF Inr]
      by (cases start) (auto split: if_splits)
  qed
qed

text \<open>A bucket starts at a whole number of its lengths, counted from a Monday.\<close>

fun bucket_offset :: "bucket \<Rightarrow> int" where
  "bucket_offset Week = 3 * ns_per_day"
| "bucket_offset _ = 0"

lemma monday_of_div: "monday_of n = (n + 3) div 7 * 7 - 3"
  unfolding monday_of_def by presburger

lemma floor_to_multiple:
  "floor_to b c = (c + bucket_offset b) div bucket_step b * bucket_step b - bucket_offset b"
proof (cases b)
  case Week
  have "(c + 3 * ns_per_day) div (ns_per_day * 7) = (c + 3 * ns_per_day) div ns_per_day div 7"
    by (rule zdiv_zmult2_eq) simp
  also have "(c + 3 * ns_per_day) div ns_per_day = c div ns_per_day + 3" by simp
  finally have "(c + 3 * ns_per_day) div (ns_per_day * 7) = (c div ns_per_day + 3) div 7" .
  then show ?thesis using Week by (simp add: monday_of_div left_diff_distrib)
qed simp_all

lemma floor_to_iff:
  "floor_to b x = c \<longleftrightarrow>
     bucket_step b dvd c + bucket_offset b \<and> c \<le> x \<and> x < c + bucket_step b"
proof -
  have "(x + u) div k * k = c + u \<longleftrightarrow> k dvd c + u \<and> c \<le> x \<and> x < c + k" if k: "0 < k" for k u :: int
  proof
    assume c: "(x + u) div k * k = c + u"
    have "(x + u) div k * k + (x + u) mod k = x + u" by simp
    then have "x = c + (x + u) mod k" using c by linarith
    moreover have "0 \<le> (x + u) mod k" "(x + u) mod k < k" using k by simp_all
    moreover have "k dvd c + u" by (metis c dvd_triv_right)
    ultimately show "k dvd c + u \<and> c \<le> x \<and> x < c + k" by linarith
  next
    assume a: "k dvd c + u \<and> c \<le> x \<and> x < c + k"
    then obtain q where q: "c + u = k * q" by blast
    have "x + u = (x - c) + q * k" using q by (simp add: algebra_simps)
    then have "(x + u) div k = q + (x - c) div k" using k by (simp only: div_mult_self1)
    then have "(x + u) div k = q" using a by (simp add: div_pos_pos_trivial)
    then show "(x + u) div k * k = c + u" using q by simp
  qed
  from this [of "bucket_step b" "bucket_offset b"] show ?thesis
    unfolding floor_to_multiple by (auto simp: algebra_simps)
qed

lemma floor_to_le: "floor_to b c \<le> c" and floor_to_gt: "c < floor_to b c + bucket_step b"
  using floor_to_iff [of b c "floor_to b c"] by simp_all

lemma floor_to_unique:
  "floor_to b c = c \<Longrightarrow> c \<le> x \<Longrightarrow> x < c + bucket_step b \<Longrightarrow> floor_to b x = c"
  by (simp add: floor_to_iff)

lemma floor_to_floor [simp]: "floor_to b (floor_to b c) = floor_to b c"
  using floor_to_iff [of b c "floor_to b c"] floor_to_iff [of b "floor_to b c" "floor_to b c"] by simp

lemma floor_to_steps:
  assumes "floor_to b c = c"
  shows "floor_to b (c + int i * bucket_step b) = c + int i * bucket_step b"
proof -
  have "bucket_step b dvd (c + bucket_offset b) + int i * bucket_step b"
    using assms by (simp add: floor_to_iff)
  then show ?thesis by (simp add: floor_to_iff algebra_simps)
qed

section \<open>Buckets in UTC\<close>

lemma utc_datetime: "is_utc cl tz \<Longrightarrow> to_datetime tz t = t"
  by (simp add: is_utc_def to_datetime_def)

lemma utc_first_instant:
  assumes "is_utc cl tz" and "floor_to b c = c" and "cl_min cl \<le> c" and "c \<le> cl_max cl"
  shows "first_instant b c tz = Inr (Some c)"
proof -
  have "tz_timestamp tz c = Some c" using assms(1,3,4) by (simp add: is_utc_def)
  then show ?thesis by (simp add: first_instant_def Let_def utc_datetime [OF assms(1)] assms(2))
qed

definition bucket_at :: "calendar \<Rightarrow> bucket \<Rightarrow> civil \<Rightarrow> nat \<Rightarrow> string \<times> instant" where
  "bucket_at cl b c i = (cl_key cl b (c + int i * bucket_step b), c + int i * bucket_step b)"

text \<open>How many buckets from \<open>c\<close> on start before an instant.\<close>

definition bucket_count :: "bucket \<Rightarrow> civil \<Rightarrow> instant \<Rightarrow> nat" where
  "bucket_count b c hi = nat ((hi - c + bucket_step b - 1) div bucket_step b)"

lemma le_div_iff: "0 < k \<Longrightarrow> m \<le> a div k \<longleftrightarrow> m * k \<le> a" for a k m :: int
proof
  assume k: "0 < k" and "m \<le> a div k"
  then have "m * k \<le> a div k * k" by simp
  moreover have "a div k * k + a mod k = a" "0 \<le> a mod k" using k by simp_all
  ultimately show "m * k \<le> a" by linarith
next
  assume k: "0 < k" and "m * k \<le> a"
  then have "m * k div k \<le> a div k" by (intro zdiv_mono1)
  then show "m \<le> a div k" using k by simp
qed

lemma bucket_count_iff:
  assumes "c < hi"
  shows "i < bucket_count b c hi \<longleftrightarrow> c + int i * bucket_step b < hi"
proof -
  have "int i < (hi - c + k - 1) div k \<longleftrightarrow> c + int i * k < hi" if k: "0 < k" for k
  proof -
    have "int i < (hi - c + k - 1) div k \<longleftrightarrow> int i + 1 \<le> (hi - c + k - 1) div k" by linarith
    also have "\<dots> \<longleftrightarrow> (int i + 1) * k \<le> hi - c + k - 1" using k by (rule le_div_iff)
    also have "\<dots> \<longleftrightarrow> c + int i * k < hi" by (simp add: algebra_simps) linarith
    finally show ?thesis .
  qed
  from this [OF bucket_step_pos] show ?thesis by (simp add: bucket_count_def zless_nat_eq_int_zless)
qed

lemma starts_from_utc:
  assumes utc: "is_utc cl tz" and start: "floor_to b c = c" "cl_min cl \<le> c" "c < hi"
    and range: "cl_max cl \<le> cl_civil_max cl" "hi + bucket_step b \<le> cl_max cl"
    and j: "j \<le> bucket_count b c hi" "j \<le> max_buckets"
  shows "starts_from cl b tz hi (c + int j * bucket_step b) (map (bucket_at cl b c) [0..<j]) =
     (if bucket_count b c hi \<le> max_buckets then Inr (map (bucket_at cl b c) [0..<bucket_count b c hi])
      else Inl TooManyBuckets)"
  using j
proof (induction "bucket_count b c hi - j" arbitrary: j rule: less_induct)
  case less
  let ?n = "bucket_count b c hi" and ?c = "c + int j * bucket_step b"
  have low: "cl_min cl \<le> ?c" using start(2) mult_nonneg_nonneg [of "int j" "bucket_step b"] bucket_step_pos [of b] by linarith
  have "?c < hi + bucket_step b"
  proof (cases j)
    case 0
    then have "?c = c" by simp
    then show ?thesis using start(3) bucket_step_pos [of b] by linarith
  next
    case (Suc i)
    then have "c + int i * bucket_step b < hi" using less(2) bucket_count_iff [OF start(3), of i b] by simp
    then show ?thesis by (simp add: Suc algebra_simps)
  qed
  then have first: "first_instant b ?c tz = Inr (Some ?c)"
    using range(2) low by (intro utc_first_instant [OF utc floor_to_steps [OF start(1)]]) simp_all
  show ?case
  proof (cases "j < ?n")
    case False
    then have "j = ?n" "hi \<le> ?c" using less(2) bucket_count_iff [OF start(3), of j b] by simp_all
    then show ?thesis using less(3) unfolding starts_from.simps [of cl b tz hi ?c] first by simp
  next
    case True
    then have before: "?c < hi" using bucket_count_iff [OF start(3), of j b] by simp
    show ?thesis
    proof (cases "j = max_buckets")
      case full: True
      then show ?thesis using True before unfolding starts_from.simps [of cl b tz hi ?c] first by simp
    next
      case room: False
      have step: "?c + bucket_step b = c + int (Suc j) * bucket_step b" by (simp add: algebra_simps)
      have "\<not> cl_civil_max cl < c + int (Suc j) * bucket_step b"
        using before range unfolding step [symmetric] by linarith
      moreover have "map (bucket_at cl b c) [0..<j] @ [(cl_key cl b ?c, ?c)] = map (bucket_at cl b c) [0..<Suc j]"
        by (simp add: bucket_at_def)
      ultimately show ?thesis
        using less(1) [of "Suc j"] True room less(3) before
        unfolding starts_from.simps [of cl b tz hi ?c] first step
        by (simp del: upt_Suc of_nat_Suc)
    qed
  qed
qed

lemma starts_utc:
  assumes "is_utc cl tz" and "cl_min cl \<le> floor_to b lo" and "lo < hi"
    and "cl_max cl \<le> cl_civil_max cl" and "hi + bucket_step b \<le> cl_max cl"
  shows "starts cl b lo hi tz =
     (let n = bucket_count b (floor_to b lo) hi
      in if n \<le> max_buckets then Inr (map (bucket_at cl b (floor_to b lo)) [0..<n]) else Inl TooManyBuckets)"
  using starts_from_utc [of cl tz b "floor_to b lo" hi 0] assms floor_to_le [of b lo]
  by (simp add: starts_def utc_datetime)

lemma bucket_of_event:
  assumes "lo \<le> x" and "x < hi"
  shows "\<exists>i < bucket_count b (floor_to b lo) hi. floor_to b x = floor_to b lo + int i * bucket_step b"
proof -
  let ?c = "floor_to b lo"
  have c: "?c \<le> x" "?c < hi" using floor_to_le [of b lo] assms by linarith+
  define q where "q = (x - ?c) div bucket_step b"
  have q: "0 \<le> q" "q * bucket_step b \<le> x - ?c" "x - ?c < (q + 1) * bucket_step b"
  proof -
    have "q * bucket_step b + (x - ?c) mod bucket_step b = x - ?c" by (simp add: q_def)
    moreover have "0 \<le> (x - ?c) mod bucket_step b" "(x - ?c) mod bucket_step b < bucket_step b" by simp_all
    ultimately show "q * bucket_step b \<le> x - ?c" "x - ?c < (q + 1) * bucket_step b"
      unfolding distrib_right mult_1 by linarith+
    show "0 \<le> q" using c unfolding q_def by (simp add: pos_imp_zdiv_nonneg_iff)
  qed
  have "floor_to b x = ?c + int (nat q) * bucket_step b"
  proof (rule floor_to_unique)
    show "floor_to b (?c + int (nat q) * bucket_step b) = ?c + int (nat q) * bucket_step b"
      by (rule floor_to_steps) simp
    show "?c + int (nat q) * bucket_step b \<le> x" using q by simp
    show "x < ?c + int (nat q) * bucket_step b + bucket_step b"
      using q unfolding distrib_right mult_1 by simp
  qed
  moreover have "nat q < bucket_count b ?c hi"
    using q assms unfolding bucket_count_iff [OF c(2)] by simp
  ultimately show ?thesis by blast
qed

end
