(* ===== verification/Aggregates.thy ===== *)
theory Aggregates
  imports Buckets Ids
begin

text \<open>
  The one aggregate statement of the analytics (\<^verbatim>\<open>src/analytics/query.rs\<close>), what usage is
  grouped by (\<^verbatim>\<open>src/analytics/dimension.rs\<close>) and the accounts an answer names
  (\<^verbatim>\<open>src/analytics/mod.rs\<close>). A statement without an \<^verbatim>\<open>ORDER BY\<close> answers its groups in an order
  nobody relies on; the model has one.
\<close>

section \<open>Results of many\<close>

text \<open>\<^verbatim>\<open>collect::<Result<Vec<_>, _>>()\<close>: every value, or the first error.\<close>

fun traverse :: "('a \<Rightarrow> 'e + 'b) \<Rightarrow> 'a list \<Rightarrow> 'e + 'b list" where
  "traverse f [] = Inr []"
| "traverse f (x # xs) =
     (case f x of
        Inl e \<Rightarrow> Inl e
      | Inr y \<Rightarrow> (case traverse f xs of Inl e \<Rightarrow> Inl e | Inr ys \<Rightarrow> Inr (y # ys)))"

lemma traverse_Inr: "traverse f xs = Inr ys \<Longrightarrow> map f xs = map Inr ys"
  by (induction xs arbitrary: ys) (auto split: sum.splits)

lemma traverse_length: "traverse f xs = Inr ys \<Longrightarrow> length ys = length xs"
  by (metis length_map traverse_Inr)

lemma traverse_total: "(\<And>x. x \<in> set xs \<Longrightarrow> f x = Inr (g x)) \<Longrightarrow> traverse f xs = Inr (map g xs)"
  by (induction xs) auto

section \<open>Dimensions\<close>

datatype dimension = ModelOf | ProviderOf | AccountOf | HarnessOf | SourceOf | SessionOf

fun expression :: "dimension \<Rightarrow> event_row \<Rightarrow> string" where
  "expression ModelOf e = u_model (e_usage e)"
| "expression ProviderOf e = u_provider (e_usage e)"
| "expression AccountOf e = show_int (e_account e)"
| "expression HarnessOf e = harness_key e"
| "expression SourceOf e = show_int (e_source e)"
| "expression SessionOf e = unwrap_or ''unknown'' (u_session_id (e_usage e))"

definition stored_id :: "string \<Rightarrow> string \<Rightarrow> analytics_error + id" where
  "stored_id stored column = ok_or (Unreadable column stored) (parse_i64 stored)"

fun dimension_key :: "dimension \<Rightarrow> string \<Rightarrow> analytics_error + string" where
  "dimension_key AccountOf stored = map_sum id encode_id (stored_id stored ''account_id'')"
| "dimension_key SourceOf stored = map_sum id encode_id (stored_id stored ''source_id'')"
| "dimension_key _ stored = Inr stored"

text \<open>An account as an event describes it, with the name of its source.\<close>

type_synonym account_summary = "account_row \<times> string"

definition account_summaries :: "db \<Rightarrow> id list \<Rightarrow> account_summary list" where
  "account_summaries d ids =
     (if ids = [] then []
      else sort_key (\<lambda>(a, name). (name, a_provider a, or_else (a_display a) (a_label a), a_id a))
             [(a, s_name s). a \<leftarrow> accounts d, s \<leftarrow> sources d, s_id s = a_source a \<and> a_id a \<in> set ids])"

record source_ref =
  sr_id :: id
  sr_name :: string
  sr_kind :: source_kind

definition load_source_refs :: "db \<Rightarrow> id list \<Rightarrow> source_ref list" where
  "load_source_refs d ids =
     (if ids = [] then []
      else sort_key (\<lambda>s. (sr_name s, sr_id s))
             (map (\<lambda>s. \<lparr>sr_id = s_id s, sr_name = s_name s, sr_kind = s_kind s\<rparr>)
               (filter (\<lambda>s. s_id s \<in> set ids) (sources d))))"

text \<open>The name of each stored key, as an association list.\<close>

fun labels :: "dimension \<Rightarrow> db \<Rightarrow> string list \<Rightarrow> analytics_error + (string \<times> string) list" where
  "labels AccountOf d stored =
     map_sum id (\<lambda>ids. List.map_filter
         (\<lambda>(a, _). map_option (Pair (show_int (a_id a))) (or_else (a_display a) (a_label a)))
         (account_summaries d (collect_set ids)))
       (traverse (\<lambda>key. stored_id key ''account_id'') stored)"
| "labels SourceOf d stored =
     map_sum id (\<lambda>ids. map (\<lambda>s. (show_int (sr_id s), sr_name s)) (load_source_refs d (collect_set ids)))
       (traverse (\<lambda>key. stored_id key ''source_id'') stored)"
| "labels _ d stored = Inr []"

record dimensions =
  dm_models :: "string list"
  dm_providers :: "string list"
  dm_harnesses :: "string list"
  dm_accounts :: "account_summary list"
  dm_sources :: "source_ref list"

definition load_dimensions :: "db \<Rightarrow> analytics_filter \<Rightarrow> analytics_error + dimensions" where
  "load_dimensions d f =
     (case check_filter d f of
        Inl e \<Rightarrow> Inl e
      | Inr _ \<Rightarrow>
          (let es = selected d f
           in Inr \<lparr>dm_models = collect_set (map (u_model \<circ> e_usage) es),
                   dm_providers = collect_set (map (u_provider \<circ> e_usage) es),
                   dm_harnesses = collect_set (map harness_key es),
                   dm_accounts = account_summaries d (collect_set (map e_account es)),
                   dm_sources = load_source_refs d (collect_set (map e_source es))\<rparr>))"

section \<open>Aggregates\<close>

record aggregate =
  ag_metrics :: usage_metrics
  ag_first :: instant
  ag_last :: instant

definition aggregate_add :: "aggregate \<Rightarrow> aggregate \<Rightarrow> aggregate" where
  "aggregate_add a b =
     \<lparr>ag_metrics = ag_metrics a + ag_metrics b, ag_first = min (ag_first a) (ag_first b),
      ag_last = max (ag_last a) (ag_last b)\<rparr>"

definition measured :: "db \<Rightarrow> event_row list \<Rightarrow> usage_metrics" where
  "measured d es = measure_all (map (joined d) es)"

definition summed :: "db \<Rightarrow> event_row list \<Rightarrow> aggregate" where
  "summed d es =
     \<lparr>ag_metrics = measured d es, ag_first = Min (set (map occurred es)),
      ag_last = Max (set (map occurred es))\<rparr>"

text \<open>
  \<open>columns\<close> are the values of the grouping columns, \<open>only\<close> the condition added to the filter's.
\<close>

definition aggregate_by ::
  "db \<Rightarrow> analytics_filter \<Rightarrow> (event_row \<Rightarrow> 'k) \<Rightarrow> (event_row \<Rightarrow> bool) \<Rightarrow> ('k \<times> aggregate) list" where
  "aggregate_by d f columns only =
     (let es = filter only (selected d f)
      in map (\<lambda>k. (k, summed d (filter (\<lambda>e. columns e = k) es))) (remdups (map columns es)))"

section \<open>Lemmas\<close>

lemma measured_append: "measured d (xs @ ys) = measured d xs + measured d ys"
  by (simp add: measured_def measure_all_append)

lemma measured_Nil [simp]: "measured d [] = 0"
  by (simp add: measured_def measure_all_Nil)

lemma measured_Cons: "measured d (e # es) = measured d [e] + measured d es"
  using measured_append [of d "[e]" es] by simp

lemma measured_sum: "measured d es = sum_list (map (\<lambda>e. measured d [e]) es)"
proof (induction es)
  case (Cons e es)
  then show ?case by (subst measured_Cons) simp
qed simp

lemma measured_groups:
  assumes "distinct ks" and "\<And>e. e \<in> set es \<Longrightarrow> key e \<in> set ks"
  shows "sum_list (map (\<lambda>k. measured d (filter (\<lambda>e. key e = k) es)) ks) = measured d es"
proof -
  have "(\<lambda>k. measured d (filter (\<lambda>e. key e = k) es)) =
      (\<lambda>k. sum_list (map (\<lambda>e. measured d [e]) (filter (\<lambda>e. key e = k) es)))"
    by (rule ext) (rule measured_sum)
  then show ?thesis using sum_list_groups [OF assms] measured_sum [of d es] by simp
qed

lemma measured_requests: "um_requests (measured d es) = int (length es)"
  by (simp add: measured_def measure_all_def)

lemma keys_aggregate: "map fst (aggregate_by d f columns only) = remdups (map columns (filter only (selected d f)))"
  by (simp add: aggregate_by_def Let_def comp_def)

lemma distinct_aggregate: "distinct (map fst (aggregate_by d f columns only))"
  by (simp add: keys_aggregate)

lemma in_aggregate:
  assumes "(k, a) \<in> set (aggregate_by d f columns only)"
  shows "a = summed d (filter (\<lambda>e. only e \<and> columns e = k) (selected d f))"
    and "\<exists>e\<in>set (selected d f). only e \<and> columns e = k"
  using assms by (auto simp: aggregate_by_def Let_def conj_commute intro: arg_cong [of _ _ "summed d"])

text \<open>The groups of a statement measure, together, every event it selects.\<close>

lemma aggregate_total:
  "sum_list (map (\<lambda>(k, a). ag_metrics a) (aggregate_by d f columns only)) =
     measured d (filter only (selected d f))"
proof -
  let ?es = "filter only (selected d f)"
  have "map (\<lambda>(k, a). ag_metrics a) (aggregate_by d f columns only) =
      map (\<lambda>k. measured d (filter (\<lambda>e. columns e = k) ?es)) (remdups (map columns ?es))"
    by (simp add: aggregate_by_def Let_def summed_def comp_def)
  then show ?thesis using measured_groups [of "remdups (map columns ?es)" ?es columns d] by simp
qed

lemma aggregate_part:
  "sum_list (map (\<lambda>(k, a). ag_metrics a) (filter (\<lambda>(k, a). p k) (aggregate_by d f columns only))) =
     measured d (filter (\<lambda>e. p (columns e)) (filter only (selected d f)))"
proof -
  let ?es = "filter only (selected d f)" and ?ks = "remdups (map columns (filter only (selected d f)))"
  let ?part = "filter (\<lambda>e. p (columns e)) ?es"
  have "map (\<lambda>(k, a). ag_metrics a) (filter (\<lambda>(k, a). p k) (aggregate_by d f columns only)) =
      map (\<lambda>k. measured d (filter (\<lambda>e. columns e = k) ?es)) (filter p ?ks)"
    by (simp add: aggregate_by_def Let_def summed_def filter_map comp_def)
  also have "\<dots> = map (\<lambda>k. measured d (filter (\<lambda>e. columns e = k) ?part)) (filter p ?ks)"
    by (intro map_cong refl arg_cong [of _ _ "measured d"]) (auto simp: filter_filter intro: filter_cong)
  finally show ?thesis using measured_groups [of "filter p ?ks" ?part columns d] by simp
qed

end
