(* ===== verification/Breakdowns.thy ===== *)
theory Breakdowns
  imports Aggregates
begin

text \<open>
  Usage split by one dimension (\<^verbatim>\<open>src/analytics/breakdown.rs\<close>), over time
  (\<^verbatim>\<open>src/analytics/series.rs\<close>) and over time with every group kept
  (\<^verbatim>\<open>src/analytics/rollup.rs\<close>).
\<close>

section \<open>Breakdown\<close>

record breakdown_row =
  br_key :: string
  br_label :: "string option"
  br_metrics :: usage_metrics

record breakdown =
  bd_rows :: "breakdown_row list"
  bd_total :: usage_metrics

definition breakdown_row_of ::
  "dimension \<Rightarrow> (string \<times> string) list \<Rightarrow> string \<times> aggregate \<Rightarrow> analytics_error + breakdown_row" where
  "breakdown_row_of dm names grouped =
     map_sum id (\<lambda>key. \<lparr>br_key = key, br_label = map_of (rev names) (fst grouped),
                       br_metrics = ag_metrics (snd grouped)\<rparr>)
       (dimension_key dm (fst grouped))"

definition load_breakdown ::
  "db \<Rightarrow> analytics_filter \<Rightarrow> dimension \<Rightarrow> rank_by \<Rightarrow> nat \<Rightarrow> analytics_error + breakdown" where
  "load_breakdown d f dm by limit =
     (case check_filter d f of
        Inl e \<Rightarrow> Inl e
      | Inr _ \<Rightarrow>
          (let groups = aggregate_by d f (expression dm) (\<lambda>_. True);
               whole = fold (\<lambda>(_, a) m. m + ag_metrics a) groups 0;
               top = take limit (sort_key (\<lambda>(k, a). rank_order by (ag_metrics a) k) groups)
           in case labels dm d (map fst top) of
                Inl e \<Rightarrow> Inl e
              | Inr names \<Rightarrow>
                  map_sum id (\<lambda>rows. \<lparr>bd_rows = rows, bd_total = whole\<rparr>)
                    (traverse (breakdown_row_of dm names) top)))"

section \<open>Series\<close>

definition ALL_KEY :: string where
  "ALL_KEY = ''all''"

definition OTHER_KEY :: string where
  "OTHER_KEY = ''other''"

record series_query =
  sq_bucket :: bucket
  sq_group_by :: "dimension option"
  sq_top :: nat
  sq_rank_by :: rank_by

record series_bucket =
  sb_start :: instant
  sb_key :: string
  sb_label :: "string option"
  sb_metrics :: usage_metrics

type_synonym cell_row = "(string \<times> string) \<times> aggregate"

text \<open>A \<^verbatim>\<open>HashMap\<close> from each of a list of keys to its place: a key listed twice has its last.\<close>

definition index_of :: "'k list \<Rightarrow> 'k \<Rightarrow> nat option" where
  "index_of keys = map_of (rev (zip keys [0..<length keys]))"

definition group_totals :: "cell_row list \<Rightarrow> (string \<times> usage_metrics) list" where
  "group_totals rows =
     map (\<lambda>k. (k, sum_list (map (\<lambda>(_, a). ag_metrics a) (filter (\<lambda>((_, g), _). g = k) rows))))
       (remdups (map (\<lambda>((_, g), _). g) rows))"

definition ranked_keys :: "rank_by \<Rightarrow> cell_row list \<Rightarrow> string list" where
  "ranked_keys by rows = map fst (sort_key (\<lambda>(k, m). rank_order by m k) (group_totals rows))"

definition series_keys :: "series_query \<Rightarrow> cell_row list \<Rightarrow> string list" where
  "series_keys q rows =
     (let keys = take (sq_top q) (ranked_keys (sq_rank_by q) rows)
      in if sq_group_by q = None \<and> keys = [] then [ALL_KEY] else keys)"

fun fill_cells ::
  "(string \<Rightarrow> nat option) \<Rightarrow> (string \<Rightarrow> nat) \<Rightarrow> nat \<Rightarrow> cell_row list \<Rightarrow> usage_metrics list \<Rightarrow>
     analytics_error + usage_metrics list" where
  "fill_cells place column width [] cells = Inr cells"
| "fill_cells place column width (((b, g), a) # rows) cells =
     (case place b of
        None \<Rightarrow> Inl (Unreadable ''occurred_at'' b)
      | Some i \<Rightarrow>
          (let at_cell = i * width + column g
           in fill_cells place column width rows
                (cells[at_cell := cells ! at_cell + ag_metrics a])))"

definition series_names ::
  "dimension option \<Rightarrow> db \<Rightarrow> string list \<Rightarrow> bool \<Rightarrow> analytics_error + (string \<times> string option) list" where
  "series_names group_by d keys merged =
     (case (case group_by of None \<Rightarrow> Inr [] | Some dm \<Rightarrow> labels dm d keys) of
        Inl e \<Rightarrow> Inl e
      | Inr names \<Rightarrow>
          map_sum id (\<lambda>ns. ns @ (if merged then [(OTHER_KEY, None)] else []))
            (traverse (\<lambda>key. case group_by of
                 Some dm \<Rightarrow> map_sum id (\<lambda>k. (k, map_of (rev names) key)) (dimension_key dm key)
               | None \<Rightarrow> Inr (ALL_KEY, None)) keys))"

definition series_buckets ::
  "(string \<times> instant) list \<Rightarrow> (string \<times> string option) list \<Rightarrow> usage_metrics list \<Rightarrow> series_bucket list" where
  "series_buckets ss names cells =
     [\<lparr>sb_start = snd (ss ! b), sb_key = fst (names ! k), sb_label = snd (names ! k),
       sb_metrics = cells ! (b * length names + k)\<rparr>.
        b \<leftarrow> [0..<length ss], k \<leftarrow> [0..<length names]]"

definition load_series ::
  "calendar \<Rightarrow> db \<Rightarrow> analytics_filter \<Rightarrow> series_query \<Rightarrow> analytics_error + series_bucket list" where
  "load_series cl d f q =
     (case check_filter d f of
        Inl e \<Rightarrow> Inl e
      | Inr _ \<Rightarrow>
          (let sf = shift_of cl f (load_recorded d);
               rows = aggregate_by d f (\<lambda>e. (bucket_key cl (sq_bucket q) sf e,
                          case sq_group_by q of None \<Rightarrow> ALL_KEY | Some dm \<Rightarrow> expression dm e)) (\<lambda>_. True)
           in case or_else (af_from f)
                     (if rows = [] then None else Some (Min (set (map (ag_first \<circ> snd) rows)))) of
                None \<Rightarrow> Inr []
              | Some lo \<Rightarrow>
                  (case starts cl (sq_bucket q) lo (af_to f) (af_zone f) of
                     Inl e \<Rightarrow> Inl e
                   | Inr ss \<Rightarrow>
                       (let merged = (sq_top q < length (ranked_keys (sq_rank_by q) rows));
                            keys = series_keys q rows;
                            width = length keys + (if merged then 1 else 0)
                        in case fill_cells (index_of (map fst ss))
                                  (\<lambda>g. unwrap_or (length keys) (index_of keys g)) width rows
                                  (replicate (length ss * width) 0) of
                             Inl e \<Rightarrow> Inl e
                           | Inr cells \<Rightarrow>
                               map_sum id (\<lambda>names. series_buckets ss names cells)
                                 (series_names (sq_group_by q) d keys merged)))))"

section \<open>Rollup\<close>

record rollup_group =
  rg_key :: string
  rg_metrics :: usage_metrics

record rollup_bucket =
  rb_start :: instant
  rb_total :: usage_metrics
  rb_groups :: "rollup_group list option"

record rollup =
  ro_total :: usage_metrics
  ro_groups :: "rollup_group list option"
  ro_buckets :: "rollup_bucket list"

record rolling =
  rl_total :: usage_metrics
  rl_groups :: "(string \<times> usage_metrics) list"
  rl_buckets :: "rollup_bucket list"

definition roll_total :: "nat \<Rightarrow> usage_metrics \<Rightarrow> rolling \<Rightarrow> rolling" where
  "roll_total i m st =
     st\<lparr>rl_total := rl_total st + m,
        rl_buckets := (rl_buckets st)[i := (rl_buckets st ! i)\<lparr>rb_total := rb_total (rl_buckets st ! i) + m\<rparr>]\<rparr>"

definition roll_group :: "nat \<Rightarrow> string \<Rightarrow> usage_metrics \<Rightarrow> rolling \<Rightarrow> rolling" where
  "roll_group i key m st =
     st\<lparr>rl_groups := AList.update key (unwrap_or 0 (map_of (rl_groups st) key) + m) (rl_groups st),
        rl_buckets := (rl_buckets st)[i := (rl_buckets st ! i)
          \<lparr>rb_groups := map_option (\<lambda>cells. cells @ [\<lparr>rg_key = key, rg_metrics = m\<rparr>])
              (rb_groups (rl_buckets st ! i))\<rparr>]\<rparr>"

fun roll ::
  "dimension option \<Rightarrow> (string \<Rightarrow> nat option) \<Rightarrow> cell_row list \<Rightarrow> rolling \<Rightarrow> analytics_error + rolling" where
  "roll group_by place [] st = Inr st"
| "roll group_by place (((b, g), a) # rows) st =
     (case place b of
        None \<Rightarrow> Inl (Unreadable ''occurred_at'' b)
      | Some i \<Rightarrow>
          (let st1 = roll_total i (ag_metrics a) st
           in case group_by of
                None \<Rightarrow> roll group_by place rows st1
              | Some dm \<Rightarrow>
                  (case dimension_key dm g of
                     Inl e \<Rightarrow> Inl e
                   | Inr key \<Rightarrow> roll group_by place rows (roll_group i key (ag_metrics a) st1))))"

definition rollup_filter :: "calendar \<Rightarrow> instant \<Rightarrow> instant \<Rightarrow> analytics_filter" where
  "rollup_filter cl lo hi = window hi (Some lo) (Some hi) (cl_utc cl)"

definition rollup_cells ::
  "calendar \<Rightarrow> db \<Rightarrow> instant \<Rightarrow> instant \<Rightarrow> bucket \<Rightarrow> dimension option \<Rightarrow> cell_row list" where
  "rollup_cells cl d lo hi b group_by =
     (let f = rollup_filter cl lo hi
      in aggregate_by d f (\<lambda>e. (bucket_key cl b (shift_of cl f None) e,
           case group_by of None \<Rightarrow> [] | Some dm \<Rightarrow> expression dm e)) (\<lambda>_. True))"

definition new_rolling :: "dimension option \<Rightarrow> (string \<times> instant) list \<Rightarrow> rolling" where
  "new_rolling group_by ss =
     \<lparr>rl_total = 0, rl_groups = [],
      rl_buckets = map (\<lambda>s. \<lparr>rb_start = snd s, rb_total = 0,
                              rb_groups = map_option (\<lambda>_. []) group_by\<rparr>) ss\<rparr>"

definition load_rollup ::
  "calendar \<Rightarrow> db \<Rightarrow> instant \<Rightarrow> instant \<Rightarrow> bucket \<Rightarrow> dimension option \<Rightarrow> analytics_error + rollup" where
  "load_rollup cl d lo hi b group_by =
     (case starts cl b lo hi (cl_utc cl) of
        Inl e \<Rightarrow> Inl e
      | Inr ss \<Rightarrow>
          map_sum id
            (\<lambda>st. \<lparr>ro_total = rl_total st,
                   ro_groups = map_option (\<lambda>_. map (\<lambda>(k, m). \<lparr>rg_key = k, rg_metrics = m\<rparr>)
                       (sort_key fst (rl_groups st))) group_by,
                   ro_buckets = map (\<lambda>r. r\<lparr>rb_groups := map_option (sort_key rg_key) (rb_groups r)\<rparr>)
                       (rl_buckets st)\<rparr>)
            (roll group_by (index_of (map fst ss)) (rollup_cells cl d lo hi b group_by)
               (new_rolling group_by ss)))"

section \<open>Lemmas on keys\<close>

text \<open>The ids of the stored events fit the column they are stored in.\<close>

definition ids_stored :: "db \<Rightarrow> bool" where
  "ids_stored d \<longleftrightarrow> (\<forall>e\<in>set (events d). in_i64 (e_account e) \<and> in_i64 (e_source e))"

lemma selected_events: "e \<in> set (selected d f) \<Longrightarrow> e \<in> set (events d)"
  by (simp add: selected_def)

lemma stored_id_show: "in_i64 i \<Longrightarrow> stored_id (show_int i) column = Inr i"
  by (simp add: stored_id_def parse_show_int)

lemma dimension_key_readable:
  assumes "ids_stored d" and "e \<in> set (events d)"
  shows "\<exists>key. dimension_key dm (expression dm e) = Inr key"
  using assms by (cases dm) (auto simp: ids_stored_def stored_id_show)

lemma traverse_stored:
  "(\<And>k. k \<in> set ks \<Longrightarrow> \<exists>i. stored_id k column = Inr i) \<Longrightarrow> \<exists>ids. traverse (\<lambda>k. stored_id k column) ks = Inr ids"
  by (induction ks) fastforce+

lemma labels_readable:
  assumes "ids_stored d" and "set ks \<subseteq> expression dm ` set (events d)"
  shows "\<exists>names. labels dm d ks = Inr names"
proof -
  have "\<exists>ids. traverse (\<lambda>k. stored_id k ''account_id'') ks = Inr ids" if "dm = AccountOf"
    using assms that by (intro traverse_stored) (force simp: ids_stored_def stored_id_show)
  moreover have "\<exists>ids. traverse (\<lambda>k. stored_id k ''source_id'') ks = Inr ids" if "dm = SourceOf"
    using assms that by (intro traverse_stored) (force simp: ids_stored_def stored_id_show)
  ultimately show ?thesis by (cases dm) auto
qed

lemma fold_metrics:
  "fold (\<lambda>(_, a) m. m + ag_metrics a) groups x = x + sum_list (map (\<lambda>(_, a). ag_metrics a) groups)"
  by (induction groups arbitrary: x) (auto simp: ac_simps)

lemma keys_of_groups: "fst ` set (aggregate_by d f columns (\<lambda>_. True)) = columns ` set (selected d f)"
proof -
  have "fst ` set (aggregate_by d f columns (\<lambda>_. True)) = set (map fst (aggregate_by d f columns (\<lambda>_. True)))" by simp
  then show ?thesis by (simp only: keys_aggregate set_remdups) simp
qed

section \<open>A breakdown\<close>

text \<open>The measures of one group.\<close>

definition group_measures :: "db \<Rightarrow> analytics_filter \<Rightarrow> dimension \<Rightarrow> string \<Rightarrow> usage_metrics" where
  "group_measures d f dm k = measured d (filter (\<lambda>e. expression dm e = k) (selected d f))"

definition breakdown_ranked ::
  "db \<Rightarrow> analytics_filter \<Rightarrow> dimension \<Rightarrow> rank_by \<Rightarrow> nat \<Rightarrow> breakdown \<Rightarrow> bool" where
  "breakdown_ranked d f dm by limit b \<longleftrightarrow>
     (\<exists>ks. distinct ks \<and> length ks = min limit (card (expression dm ` set (selected d f))) \<and>
        map (\<lambda>k. (dimension_key dm k, group_measures d f dm k)) ks =
          map (\<lambda>r. (Inr (br_key r), br_metrics r)) (bd_rows b) \<and>
        sorted (map (\<lambda>k. rank_order by (group_measures d f dm k) k) ks) \<and>
        (\<forall>e\<in>set (selected d f). expression dm e \<in> set ks \<or>
           (\<forall>k\<in>set ks. rank_measure by (group_measures d f dm (expression dm e)) \<le>
              rank_measure by (group_measures d f dm k))))"

lemma sorted_take_drop:
  assumes "sorted (map g xs)" and "x \<in> set (take n xs)" and "y \<in> set (drop n xs)"
  shows "g x \<le> g y"
proof -
  have "sorted (map g (take n xs) @ map g (drop n xs))"
    using assms(1) by (metis append_take_drop_id map_append)
  then show ?thesis using assms(2,3) by (auto simp: sorted_append)
qed

lemma rank_order_le: "rank_order by m k \<le> rank_order by m' k' \<Longrightarrow> rank_measure by m' \<le> rank_measure by m"
  by (auto simp: rank_order_def)

lemma load_breakdown_ranked:
  assumes "check_filter d f = Inr u" and "ids_stored d"
  shows "\<exists>b. load_breakdown d f dm by limit = Inr b \<and> bd_total b = measured d (selected d f) \<and>
    breakdown_ranked d f dm by limit b"
proof -
  let ?groups = "aggregate_by d f (expression dm) (\<lambda>_. True)"
  let ?sorted = "sort_key (\<lambda>(k, a). rank_order by (ag_metrics a) k) ?groups"
  let ?top = "take limit ?sorted"
  have group: "ag_metrics a = group_measures d f dm k" if "(k, a) \<in> set ?groups" for k a
    using in_aggregate(1) [OF that] by (simp add: summed_def group_measures_def)
  have keys: "fst ` set ?groups = expression dm ` set (selected d f)" by (rule keys_of_groups)
  have top: "set ?top \<subseteq> set ?groups" by (metis set_sort set_take_subset)
  have "set (selected d f) \<subseteq> set (events d)" by (auto simp: selected_def)
  then have readable: "set (map fst ?top) \<subseteq> expression dm ` set (events d)"
    using image_mono [OF top, of fst] image_mono [of "set (selected d f)" "set (events d)" "expression dm"]
    unfolding set_map keys by (blast intro: subset_trans)
  obtain names where names: "labels dm d (map fst ?top) = Inr names"
    using labels_readable [OF assms(2) readable] by blast
  define row where "row = (\<lambda>g :: string \<times> aggregate. \<lparr>br_key = projr (dimension_key dm (fst g)),
    br_label = map_of (rev names) (fst g), br_metrics = ag_metrics (snd g)\<rparr>)"
  have key: "\<exists>key. dimension_key dm (fst g) = Inr key" if g: "g \<in> set ?top" for g
  proof -
    have "fst g \<in> set (map fst ?top)" unfolding set_map using g by (rule imageI)
    then have "fst g \<in> expression dm ` set (events d)" using readable by blast
    then show ?thesis using dimension_key_readable [OF assms(2)] by auto
  qed
  have rows: "traverse (breakdown_row_of dm names) ?top = Inr (map row ?top)"
    using key by (intro traverse_total) (fastforce simp: breakdown_row_of_def row_def)
  define b where "b = \<lparr>bd_rows = map row ?top,
    bd_total = fold (\<lambda>(_, a) m. m + ag_metrics a) ?groups 0\<rparr>"
  have "load_breakdown d f dm by limit = Inr b"
    by (simp add: load_breakdown_def assms(1) Let_def names rows b_def)
  moreover have "bd_total b = measured d (selected d f)"
    using aggregate_total [of d f "expression dm" "\<lambda>_. True"] by (simp add: b_def fold_metrics)
  moreover have "breakdown_ranked d f dm by limit b"
    unfolding breakdown_ranked_def
  proof (intro exI conjI)
    let ?ks = "map fst ?top"
    have "distinct (map fst ?sorted)"
      using distinct_aggregate [of d f "expression dm"] by (simp add: distinct_map)
    then show "distinct ?ks" by (simp add: take_map [symmetric] distinct_take)
    have "length ?groups = card (expression dm ` set (selected d f))"
      using distinct_aggregate [of d f "expression dm" "\<lambda>_. True"] keys
      by (metis distinct_card length_map set_map)
    then show "length ?ks = min limit (card (expression dm ` set (selected d f)))" by simp
    show "map (\<lambda>k. (dimension_key dm k, group_measures d f dm k)) ?ks =
        map (\<lambda>r. (Inr (br_key r), br_metrics r)) (bd_rows b)"
      using key group top by (fastforce simp: b_def row_def)
    have order: "map (\<lambda>k. rank_order by (group_measures d f dm k) k) (map fst ?sorted) =
        map (\<lambda>(k, a). rank_order by (ag_metrics a) k) ?sorted"
      using group by auto
    then have sorted: "sorted (map (\<lambda>k. rank_order by (group_measures d f dm k) k) (map fst ?sorted))"
      by (simp only: sorted_sort_key)
    then show "sorted (map (\<lambda>k. rank_order by (group_measures d f dm k) k) ?ks)"
      unfolding take_map [symmetric] by (rule sorted_wrt_take)
    show "\<forall>e\<in>set (selected d f). expression dm e \<in> set ?ks \<or>
       (\<forall>k\<in>set ?ks. rank_measure by (group_measures d f dm (expression dm e)) \<le>
          rank_measure by (group_measures d f dm k))"
    proof (intro ballI disjCI)
      fix e k
      assume e: "e \<in> set (selected d f)" and out: "\<not> (\<forall>k\<in>set ?ks. rank_measure by (group_measures d f dm (expression dm e)) \<le>
          rank_measure by (group_measures d f dm k))"
      have "expression dm e \<in> fst ` set ?groups" using e keys by simp
      then have "expression dm e \<in> set (map fst ?sorted)" by simp
      then have "expression dm e \<in> set (take limit (map fst ?sorted)) \<or>
          expression dm e \<in> set (drop limit (map fst ?sorted))"
        by (metis append_take_drop_id Un_iff set_append)
      moreover have "expression dm e \<notin> set (drop limit (map fst ?sorted))"
      proof
        assume late: "expression dm e \<in> set (drop limit (map fst ?sorted))"
        have "rank_measure by (group_measures d f dm (expression dm e)) \<le>
            rank_measure by (group_measures d f dm k)" if "k \<in> set ?ks" for k
          using sorted_take_drop [OF sorted _ late] that
          by (intro rank_order_le) (simp add: take_map)
        then show False using out by blast
      qed
      ultimately show "expression dm e \<in> set ?ks" by (simp add: take_map)
    qed
  qed
  ultimately show ?thesis by blast
qed

section \<open>A series\<close>

lemma index_of_bound: "index_of keys k = Some i \<Longrightarrow> i < length keys \<and> keys ! i = k"
  by (auto simp: index_of_def in_set_zip dest!: map_of_SomeD)

lemma index_of_None: "index_of keys k = None \<longleftrightarrow> k \<notin> set keys"
proof -
  have "set (map fst (zip keys [0..<length keys])) = set keys" by simp
  then show ?thesis unfolding set_map by (simp add: index_of_def map_of_eq_None_iff)
qed

lemma index_of_distinct: "distinct keys \<Longrightarrow> i < length keys \<Longrightarrow> index_of keys (keys ! i) = Some i"
  by (metis index_of_None index_of_bound nth_eq_iff_index_eq nth_mem option.exhaust)

lemma sum_list_zeros: "sum_list (replicate n (0::'a::comm_monoid_add)) = 0"
  by (induction n) simp_all

lemma fill_cells_sum:
  assumes "fill_cells place column width rows cells = Inr cells'"
    and "\<And>b g a i. ((b, g), a) \<in> set rows \<Longrightarrow> place b = Some i \<Longrightarrow> i * width + column g < length cells"
  shows "length cells' = length cells \<and>
    sum_list cells' = sum_list cells + sum_list (map (\<lambda>(_, a). ag_metrics a) rows)"
  using assms
proof (induction place column width rows cells rule: fill_cells.induct)
  case (1 place column width cells)
  then show ?case by simp
next
  case (2 place column width b g a rows cells)
  obtain i where i: "place b = Some i" using 2(2) by (cases "place b") auto
  let ?j = "i * width + column g"
  have j: "?j < length cells" by (rule 2(3) [of b g a, OF _ i]) simp
  have "length cells' = length (cells[?j := cells ! ?j + ag_metrics a]) \<and>
      sum_list cells' = sum_list (cells[?j := cells ! ?j + ag_metrics a]) +
        sum_list (map (\<lambda>(_, a). ag_metrics a) rows)"
    using 2(2,3) i by (intro 2(1) [OF i refl]) (auto simp: Let_def)
  then show ?case unfolding sum_list_update_add [OF j] length_list_update by (simp add: add.assoc)
qed

lemma concat_cells:
  "length cells = n * w \<Longrightarrow> concat (map (\<lambda>b. map (\<lambda>k. cells ! (b * w + k)) [0..<w]) [0..<n]) = cells"
proof (induction n arbitrary: cells)
  case 0
  then show ?case by simp
next
  case (Suc n)
  have "map (\<lambda>b. map (\<lambda>k. cells ! (b * w + k)) [0..<w]) [0..<n] =
      map (\<lambda>b. map (\<lambda>k. take (n * w) cells ! (b * w + k)) [0..<w]) [0..<n]"
  proof (intro map_cong refl)
    fix b k assume "b \<in> set [0..<n]" "k \<in> set [0..<w]"
    then have "Suc b * w \<le> n * w" "k < w" by (simp_all del: mult_Suc)
    then have "b * w + k < n * w" by simp
    then show "cells ! (b * w + k) = take (n * w) cells ! (b * w + k)" by simp
  qed
  then have "concat (map (\<lambda>b. map (\<lambda>k. cells ! (b * w + k)) [0..<w]) [0..<n]) =
      concat (map (\<lambda>b. map (\<lambda>k. take (n * w) cells ! (b * w + k)) [0..<w]) [0..<n])"
    by (rule arg_cong)
  also have "\<dots> = take (n * w) cells" using Suc.prems by (intro Suc.IH) simp
  finally have "concat (map (\<lambda>b. map (\<lambda>k. cells ! (b * w + k)) [0..<w]) [0..<n]) = take (n * w) cells" .
  moreover have "map (\<lambda>k. cells ! (n * w + k)) [0..<w] = drop (n * w) cells"
    using Suc.prems by (intro nth_equalityI) simp_all
  ultimately show ?case by simp
qed

lemma series_buckets_metrics:
  "map sb_metrics (series_buckets ss names cells) = cells" if "length cells = length ss * length names"
proof -
  have "map sb_metrics (series_buckets ss names cells) =
      concat (map (\<lambda>b. map (\<lambda>k. cells ! (b * length names + k)) [0..<length names]) [0..<length ss])"
    by (simp add: series_buckets_def map_concat comp_def)
  then show ?thesis by (simp only: concat_cells [OF that])
qed

lemma concat_nth: "concat (map (\<lambda>i. f (xs ! i)) [0..<length xs]) = concat (map f xs)"
proof -
  have "map (\<lambda>i. f (xs ! i)) [0..<length xs] = map f xs" by (intro nth_equalityI) simp_all
  then show ?thesis by simp
qed

lemma series_buckets_shape:
  "map (\<lambda>b. (sb_start b, sb_key b)) (series_buckets ss names cells) = [(snd s, fst n). s \<leftarrow> ss, n \<leftarrow> names]"
proof -
  have names: "map (\<lambda>k. (t, fst (names ! k))) [0..<length names] = map (\<lambda>n. (t, fst n)) names" for t :: instant
    by (intro nth_equalityI) simp_all
  have "map (\<lambda>b. (sb_start b, sb_key b)) (series_buckets ss names cells) =
      concat (map (\<lambda>b. map (\<lambda>k. (snd (ss ! b), fst (names ! k))) [0..<length names]) [0..<length ss])"
    by (simp add: series_buckets_def map_concat comp_def)
  also have "\<dots> = concat (map (\<lambda>b. (\<lambda>s. map (\<lambda>n. (snd s, fst n)) names) (ss ! b)) [0..<length ss])"
    by (simp add: names)
  also have "\<dots> = [(snd s, fst n). s \<leftarrow> ss, n \<leftarrow> names]" by (rule concat_nth)
  finally show ?thesis .
qed

lemma series_names_length:
  "series_names g d keys merged = Inr names \<Longrightarrow> length names = length keys + (if merged then 1 else 0)"
proof -
  have map_sum_Inr: "map_sum id h x = Inr y \<Longrightarrow> \<exists>z. x = Inr z \<and> y = h z"
    for h :: "'c \<Rightarrow> 'd" and x :: "'e + 'c" and y by (cases x) auto
  show "series_names g d keys merged = Inr names \<Longrightarrow> length names = length keys + (if merged then 1 else 0)"
    by (auto simp: series_names_def split: sum.splits dest!: map_sum_Inr traverse_length)
qed

lemma set_ranked_keys: "set (ranked_keys by rows) = (\<lambda>((_, g), _). g) ` set rows"
  by (simp add: ranked_keys_def group_totals_def image_image)

lemma series_column_bound:
  assumes "((b, g), a) \<in> set rows" and "keys = series_keys q rows"
    and "merged = (sq_top q < length (ranked_keys (sq_rank_by q) rows))"
  shows "unwrap_or (length keys) (index_of keys g) < length keys + (if merged then 1 else 0)"
proof (cases "index_of keys g")
  case (Some i)
  then show ?thesis using index_of_bound [OF Some] by simp
next
  case None
  have g: "g \<in> set (ranked_keys (sq_rank_by q) rows)" using assms(1) by (force simp: set_ranked_keys)
  have merged
  proof (rule ccontr)
    assume "\<not> merged"
    then have "take (sq_top q) (ranked_keys (sq_rank_by q) rows) = ranked_keys (sq_rank_by q) rows"
      using assms(3) by simp
    then have "keys = ranked_keys (sq_rank_by q) rows" using g assms(2) by (auto simp: series_keys_def Let_def)
    then show False using g None by (simp add: index_of_None)
  qed
  then show ?thesis using None by simp
qed

definition series_column :: "calendar \<Rightarrow> db \<Rightarrow> analytics_filter \<Rightarrow> series_query \<Rightarrow> event_row \<Rightarrow> string \<times> string" where
  "series_column cl d f q e =
     (bucket_key cl (sq_bucket q) (shift_of cl f (load_recorded d)) e,
      case sq_group_by q of None \<Rightarrow> ALL_KEY | Some dm \<Rightarrow> expression dm e)"

lemma load_series_conserves:
  assumes "load_series cl d f q = Inr bs"
  shows "sum_list (map sb_metrics bs) = measured d (selected d f) \<and>
    (bs = [] \<and> selected d f = [] \<or>
     (\<exists>lo ss ns. starts cl (sq_bucket q) lo (af_to f) (af_zone f) = Inr ss \<and>
        length ns \<le> max 1 (sq_top q) + 1 \<and>
        map (\<lambda>b. (sb_start b, sb_key b)) bs = [(snd s, n). s \<leftarrow> ss, n \<leftarrow> ns]))"
proof -
  let ?rows = "aggregate_by d f (series_column cl d f q) (\<lambda>_. True)"
  have column: "(\<lambda>e. (bucket_key cl (sq_bucket q) (shift_of cl f (load_recorded d)) e,
      case sq_group_by q of None \<Rightarrow> ALL_KEY | Some dm \<Rightarrow> expression dm e)) = series_column cl d f q"
    by (simp add: fun_eq_iff series_column_def)
  have total: "sum_list (map (\<lambda>(_, a). ag_metrics a) ?rows) = measured d (selected d f)"
    using aggregate_total [of d f "series_column cl d f q" "\<lambda>_. True"] by simp
  note result = assms [unfolded load_series_def Let_def column]
  obtain u where "check_filter d f = Inr u" using result by (cases "check_filter d f") auto
  note result = result [unfolded this sum.case]
  show ?thesis
  proof (cases "or_else (af_from f) (if ?rows = [] then None else Some (Min (set (map (ag_first \<circ> snd) ?rows))))")
    case None
    then have rows: "?rows = []" by (auto simp: or_else_def split: option.splits if_splits)
    then have "map fst ?rows = []" by simp
    then have "selected d f = []" unfolding keys_aggregate by simp
    then show ?thesis using result None by simp
  next
    case (Some lo)
    let ?merged = "sq_top q < length (ranked_keys (sq_rank_by q) ?rows)" and ?keys = "series_keys q ?rows"
    let ?width = "length ?keys + (if ?merged then 1 else 0)"
    note result = result [unfolded Some option.case]
    obtain ss where ss: "starts cl (sq_bucket q) lo (af_to f) (af_zone f) = Inr ss"
      using result by (cases "starts cl (sq_bucket q) lo (af_to f) (af_zone f)") auto
    note result = result [unfolded ss sum.case]
    obtain cells where cells: "fill_cells (index_of (map fst ss))
        (\<lambda>g. unwrap_or (length ?keys) (index_of ?keys g)) ?width ?rows (replicate (length ss * ?width) 0) = Inr cells"
      using result by (auto split: sum.splits)
    note result = result [unfolded cells sum.case]
    obtain names where names: "series_names (sq_group_by q) d ?keys ?merged = Inr names"
      and bs: "bs = series_buckets ss names cells"
      using result by (cases "series_names (sq_group_by q) d ?keys ?merged") auto
    have width: "length names = ?width" by (rule series_names_length [OF names])
    have "length cells = length (replicate (length ss * ?width) (0::usage_metrics)) \<and>
        sum_list cells = sum_list (replicate (length ss * ?width) 0) + sum_list (map (\<lambda>(_, a). ag_metrics a) ?rows)"
    proof (rule fill_cells_sum [OF cells])
      fix b g a i
      assume row: "((b, g), a) \<in> set ?rows" and i: "index_of (map fst ss) b = Some i"
      have "i < length ss" using index_of_bound [OF i] by simp
      then have "Suc i * ?width \<le> length ss * ?width" by (intro mult_le_mono1) simp
      then show "i * ?width + unwrap_or (length ?keys) (index_of ?keys g) <
          length (replicate (length ss * ?width) (0::usage_metrics))"
        using series_column_bound [OF row refl refl, of q] by simp
    qed
    then have cells: "length cells = length ss * ?width" "sum_list cells = measured d (selected d f)"
      using total by (simp_all add: sum_list_zeros)
    have "length ?keys \<le> max 1 (sq_top q)" by (auto simp: series_keys_def Let_def)
    then have "length (map fst names) \<le> max 1 (sq_top q) + 1" unfolding length_map width by simp
    moreover have "map (\<lambda>b. (sb_start b, sb_key b)) bs = [(snd s, n). s \<leftarrow> ss, n \<leftarrow> map fst names]"
      using series_buckets_shape [of ss names cells] by (simp add: bs comp_def)
    moreover have "sum_list (map sb_metrics bs) = measured d (selected d f)"
      using cells by (simp add: bs series_buckets_metrics width)
    ultimately show ?thesis using ss by blast
  qed
qed

section \<open>A rollup\<close>

lemma sum_update:
  fixes x :: "'v::comm_monoid_add"
  assumes "distinct (map fst m)"
  shows "sum_list (map snd (AList.update k (unwrap_or 0 (map_of m k) + x) m)) = sum_list (map snd m) + x"
  using assms
proof (induction m)
  case Nil
  then show ?case by simp
next
  case (Cons p m)
  then show ?case by (cases p) (auto simp: ac_simps)
qed

definition placed :: "(string \<Rightarrow> nat option) \<Rightarrow> cell_row list \<Rightarrow> nat \<Rightarrow> usage_metrics" where
  "placed place rows i =
     sum_list (map (\<lambda>(_, a). ag_metrics a) (filter (\<lambda>((b, _), _). place b = Some i) rows))"

definition rolled :: "dimension option \<Rightarrow> (string \<Rightarrow> nat option) \<Rightarrow> cell_row list \<Rightarrow> rolling \<Rightarrow> rolling \<Rightarrow> bool" where
  "rolled group_by place rows st st' \<longleftrightarrow>
     (let m = sum_list (map (\<lambda>(_, a). ag_metrics a) rows)
      in rl_total st' = rl_total st + m \<and>
         map rb_start (rl_buckets st') = map rb_start (rl_buckets st) \<and>
         map rb_total (rl_buckets st') =
           map (\<lambda>i. rb_total (rl_buckets st ! i) + placed place rows i) [0..<length (rl_buckets st)] \<and>
         distinct (map fst (rl_groups st')) \<and>
         (group_by \<noteq> None \<longrightarrow>
            sum_list (map snd (rl_groups st')) = sum_list (map snd (rl_groups st)) + m))"

lemma roll_total_fields:
  assumes "i < length (rl_buckets st)"
  shows "rl_total (roll_total i m st) = rl_total st + m"
    and "rl_groups (roll_total i m st) = rl_groups st"
    and "map rb_start (rl_buckets (roll_total i m st)) = map rb_start (rl_buckets st)"
    and "map rb_total (rl_buckets (roll_total i m st)) =
      (map rb_total (rl_buckets st))[i := rb_total (rl_buckets st ! i) + m]"
    and "length (rl_buckets (roll_total i m st)) = length (rl_buckets st)"
  using assms by (simp_all add: roll_total_def map_update list_update_same_conv)

lemma roll_group_fields:
  assumes "i < length (rl_buckets st)" and "distinct (map fst (rl_groups st))"
  shows "rl_total (roll_group i key m st) = rl_total st"
    and "sum_list (map snd (rl_groups (roll_group i key m st))) = sum_list (map snd (rl_groups st)) + m"
    and "distinct (map fst (rl_groups (roll_group i key m st)))"
    and "map rb_start (rl_buckets (roll_group i key m st)) = map rb_start (rl_buckets st)"
    and "map rb_total (rl_buckets (roll_group i key m st)) = map rb_total (rl_buckets st)"
    and "length (rl_buckets (roll_group i key m st)) = length (rl_buckets st)"
  using assms by (simp_all add: roll_group_def map_update list_update_same_conv sum_update distinct_update)

lemma rolled_step:
  assumes "place b = Some i" and "i < length (rl_buckets st)"
    and "rl_total st1 = rl_total st + ag_metrics a"
    and "map rb_start (rl_buckets st1) = map rb_start (rl_buckets st)"
    and "map rb_total (rl_buckets st1) = (map rb_total (rl_buckets st))[i := rb_total (rl_buckets st ! i) + ag_metrics a]"
    and "group_by \<noteq> None \<Longrightarrow> sum_list (map snd (rl_groups st1)) = sum_list (map snd (rl_groups st)) + ag_metrics a"
    and "rolled group_by place rows st1 st'"
  shows "rolled group_by place (((b, g), a) # rows) st st'"
proof -
  have len: "length (rl_buckets st1) = length (rl_buckets st)" using assms(4) by (metis length_map)
  have bucket: "rb_total (rl_buckets st1 ! j) + placed place rows j =
      rb_total (rl_buckets st ! j) + placed place (((b, g), a) # rows) j" if "j < length (rl_buckets st)" for j
  proof -
    have "rb_total (rl_buckets st1 ! j) = (map rb_total (rl_buckets st))[i := rb_total (rl_buckets st ! i) + ag_metrics a] ! j"
      using that len assms(5) by (metis nth_map)
    also have "\<dots> = rb_total (rl_buckets st ! j) + (if j = i then ag_metrics a else 0)"
      using that by (simp add: nth_list_update)
    finally show ?thesis using assms(1) by (simp add: placed_def add.assoc)
  qed
  show ?thesis
    using assms(3,4,6,7) bucket
    by (auto simp: rolled_def Let_def len add.assoc intro!: map_cong)
qed

lemma roll_rolled:
  assumes "\<And>b g a. ((b, g), a) \<in> set rows \<Longrightarrow> \<exists>i < length (rl_buckets st). place b = Some i"
    and "\<And>dm b g a. group_by = Some dm \<Longrightarrow> ((b, g), a) \<in> set rows \<Longrightarrow> \<exists>key. dimension_key dm g = Inr key"
    and "distinct (map fst (rl_groups st))"
  shows "\<exists>st'. roll group_by place rows st = Inr st' \<and> rolled group_by place rows st st'"
  using assms
proof (induction rows arbitrary: st)
  case Nil
  have "map rb_total bs = map (\<lambda>i. rb_total (bs ! i)) [0..<length bs]" for bs
    by (intro nth_equalityI) simp_all
  then show ?case using Nil.prems(3) by (simp add: rolled_def placed_def)
next
  case (Cons row rows)
  obtain b g a where row: "row = ((b, g), a)" by (metis prod.exhaust)
  obtain i where i: "place b = Some i" "i < length (rl_buckets st)"
    using Cons.prems(1) [of b g a] row by auto
  let ?st1 = "roll_total i (ag_metrics a) st"
  note total = roll_total_fields [OF i(2), of "ag_metrics a"]
  show ?case
  proof (cases group_by)
    case None
    have "\<exists>st'. roll group_by place rows ?st1 = Inr st' \<and> rolled group_by place rows ?st1 st'"
      using Cons.prems None by (intro Cons.IH) (auto simp: total)
    then obtain st' where st': "roll group_by place rows ?st1 = Inr st'" "rolled group_by place rows ?st1 st'"
      by blast
    have "rolled group_by place (((b, g), a) # rows) st st'"
      by (rule rolled_step [OF i total(1,3,4) _ st'(2)]) (simp add: None)
    then show ?thesis using st'(1) by (simp add: row i(1) Let_def None)
  next
    case (Some dm)
    obtain key where key: "dimension_key dm g = Inr key"
      using Cons.prems(2) [OF Some, of b g a] row by auto
    let ?st2 = "roll_group i key (ag_metrics a) ?st1"
    have i1: "i < length (rl_buckets ?st1)" and dist: "distinct (map fst (rl_groups ?st1))"
      using i(2) Cons.prems(3) by (simp_all add: total)
    note more = roll_group_fields [OF i1 dist, of key "ag_metrics a"]
    have "\<exists>st'. roll group_by place rows ?st2 = Inr st' \<and> rolled group_by place rows ?st2 st'"
    proof (rule Cons.IH)
      show "\<exists>i < length (rl_buckets ?st2). place b = Some i" if "((b, g), a) \<in> set rows" for b g a
        using Cons.prems(1) [of b g a] that by (simp add: total more)
      show "\<exists>key. dimension_key dm g = Inr key" if "group_by = Some dm" "((b, g), a) \<in> set rows" for dm b g a
        using Cons.prems(2) [of dm b g a] that by simp
      show "distinct (map fst (rl_groups ?st2))" by (rule more(3))
    qed
    then obtain st' where st': "roll group_by place rows ?st2 = Inr st'" "rolled group_by place rows ?st2 st'"
      by blast
    have "rolled group_by place (((b, g), a) # rows) st st'"
      by (rule rolled_step [OF i _ _ _ _ st'(2)]) (simp_all only: total more)
    then show ?thesis using st'(1) by (simp add: row i(1) Let_def Some key)
  qed
qed

text \<open>The keys of two buckets differ.\<close>

definition keys_apart :: "calendar \<Rightarrow> bool" where
  "keys_apart cl \<longleftrightarrow>
     (\<forall>b c c'. floor_to b c = c \<longrightarrow> floor_to b c' = c' \<longrightarrow> cl_key cl b c = cl_key cl b c' \<longrightarrow> c = c')"

definition between :: "db \<Rightarrow> instant \<Rightarrow> instant \<Rightarrow> event_row list" where
  "between d lo hi = filter (\<lambda>e. lo \<le> occurred e \<and> occurred e < hi) (events d)"

lemma selected_rollup: "selected d (rollup_filter cl lo hi) = between d lo hi"
  by (auto simp: selected_def rollup_filter_def window_def push_where_def push_in_def between_def intro!: filter_cong)

lemma rollup_key:
  assumes "is_utc cl (cl_utc cl)"
  shows "bucket_key cl b (shift_of cl (rollup_filter cl lo hi) None) e = cl_key cl b (floor_to b (occurred e))"
  using assms by (simp add: bucket_key_local shift_seconds_def shift_of_def rollup_filter_def window_def is_utc_def)

lemma bucket_at_iff:
  "floor_to b c = c \<Longrightarrow> floor_to b x = c + int i * bucket_step b \<longleftrightarrow>
     c + int i * bucket_step b \<le> x \<and> x < c + int (Suc i) * bucket_step b"
  using floor_to_steps [of b c i] by (auto simp: floor_to_iff algebra_simps)

lemma rollup_parts:
  assumes utc: "is_utc cl (cl_utc cl)" and apart: "keys_apart cl" and c: "floor_to b c = c"
    and i: "i < n" and place: "place = index_of (map fst (map (bucket_at cl b c) [0..<n]))"
  shows "placed place (rollup_cells cl d lo hi b group_by) i =
     measured d (filter (\<lambda>e. c + int i * bucket_step b \<le> occurred e \<and>
         occurred e < c + int (Suc i) * bucket_step b) (between d lo hi))"
proof -
  let ?keys = "map fst (map (bucket_at cl b c) [0..<n])"
  have key: "?keys ! j = cl_key cl b (c + int j * bucket_step b)" if "j < n" for j
    using that by (simp add: bucket_at_def)
  have same: "cl_key cl b x = cl_key cl b y \<longleftrightarrow> x = y" if "floor_to b x = x" "floor_to b y = y" for x y
    using apart that unfolding keys_apart_def by metis
  have "inj_on (\<lambda>j. cl_key cl b (c + int j * bucket_step b)) {..<n}"
    using bucket_step_pos [of b] by (auto simp: inj_on_def same [OF floor_to_steps floor_to_steps] c simp del: bucket_step_pos)
  then have dist: "distinct ?keys"
    by (simp add: distinct_map bucket_at_def comp_def atLeast0LessThan)
  have here: "place (cl_key cl b (floor_to b x)) = Some i \<longleftrightarrow> floor_to b x = c + int i * bucket_step b" for x
  proof -
    have "place (?keys ! i) = Some i" using index_of_distinct [OF dist] i unfolding place by simp
    then have "place (cl_key cl b (c + int i * bucket_step b)) = Some i" using key [OF i] by simp
    moreover have "cl_key cl b (floor_to b x) = ?keys ! i" if "place (cl_key cl b (floor_to b x)) = Some i"
      using index_of_bound that unfolding place by metis
    ultimately show ?thesis using same [OF floor_to_floor floor_to_steps [OF c]] key [OF i] by metis
  qed
  have "placed place (rollup_cells cl d lo hi b group_by) i =
      measured d (filter (\<lambda>e. place (cl_key cl b (floor_to b (occurred e))) = Some i) (between d lo hi))"
    using aggregate_part [of "\<lambda>(k, _). place k = Some i" d "rollup_filter cl lo hi"
        "\<lambda>e. (bucket_key cl b (shift_of cl (rollup_filter cl lo hi) None) e,
           case group_by of None \<Rightarrow> [] | Some dm \<Rightarrow> expression dm e)" "\<lambda>_. True"]
    by (simp add: placed_def rollup_cells_def Let_def selected_rollup rollup_key [OF utc] case_prod_unfold)
  then show ?thesis by (simp only: here bucket_at_iff [OF c])
qed

definition group_total :: "rollup \<Rightarrow> usage_metrics option" where
  "group_total r = map_option (\<lambda>gs. sum_list (map rg_metrics gs)) (ro_groups r)"

lemma sum_sort_key: "sum_list (map f (sort_key k xs)) = sum_list (map f xs)"
  for f :: "'a \<Rightarrow> 'b::comm_monoid_add"
  by (metis mset_map mset_sort sum_mset_sum_list)

lemma map_option_Some: "map_option (\<lambda>_. c) x = map_option (\<lambda>_. c') x \<longleftrightarrow> x = None \<or> c = c'"
  by (cases x) auto

lemma load_rollup_parts:
  assumes utc: "is_utc cl (cl_utc cl)" and apart: "keys_apart cl"
    and range: "cl_min cl \<le> floor_to b lo" "cl_max cl \<le> cl_civil_max cl" "hi + bucket_step b \<le> cl_max cl"
    and "lo < hi" and "ids_stored d"
    and c: "c = floor_to b lo" and n: "n = bucket_count b c hi"
  shows "if max_buckets < n then load_rollup cl d lo hi b group_by = Inl TooManyBuckets
    else \<exists>r. load_rollup cl d lo hi b group_by = Inr r \<and>
      ro_total r = measured d (between d lo hi) \<and>
      group_total r = map_option (\<lambda>_. ro_total r) group_by \<and>
      map (\<lambda>p. (rb_start p, rb_total p)) (ro_buckets r) =
        map (\<lambda>i. (c + int i * bucket_step b,
          measured d (filter (\<lambda>e. c + int i * bucket_step b \<le> occurred e \<and>
            occurred e < c + int (Suc i) * bucket_step b) (between d lo hi)))) [0..<n]"
proof (cases "max_buckets < n")
  case True
  then have "starts cl b lo hi (cl_utc cl) = Inl TooManyBuckets"
    using starts_utc [OF utc range(1) \<open>lo < hi\<close> range(2,3)] by (simp add: Let_def n c)
  then show ?thesis using True by (simp add: load_rollup_def)
next
  case False
  let ?ss = "map (bucket_at cl b c) [0..<n]"
  let ?place = "index_of (map fst ?ss)" and ?rows = "rollup_cells cl d lo hi b group_by"
  let ?st = "new_rolling group_by ?ss"
  have ss: "starts cl b lo hi (cl_utc cl) = Inr ?ss"
    using False starts_utc [OF utc range(1) \<open>lo < hi\<close> range(2,3)] by (simp add: Let_def n c)
  have row: "\<exists>e\<in>set (between d lo hi). k = cl_key cl b (floor_to b (occurred e)) \<and>
      g = (case group_by of None \<Rightarrow> [] | Some dm \<Rightarrow> expression dm e)"
    if "((k, g), a) \<in> set ?rows" for k g a
    using in_aggregate(2) [OF that [unfolded rollup_cells_def Let_def]]
    by (auto simp: selected_rollup rollup_key [OF utc])
  have "\<exists>st'. roll group_by ?place ?rows ?st = Inr st' \<and> rolled group_by ?place ?rows ?st st'"
  proof (rule roll_rolled)
    fix k g a
    assume r: "((k, g), a) \<in> set ?rows"
    obtain e where e: "e \<in> set (between d lo hi)" "k = cl_key cl b (floor_to b (occurred e))"
      using row [OF r] by blast
    have "lo \<le> occurred e" "occurred e < hi" using e(1) by (simp_all add: between_def)
    from bucket_of_event [OF this, of b] obtain i where "i < n" "floor_to b (occurred e) = c + int i * bucket_step b"
      unfolding n c by blast
    then have "k \<in> set (map fst ?ss)" using e(2) by (auto simp: bucket_at_def)
    then obtain j where j: "?place k = Some j" using index_of_None by (metis not_None_eq)
    then have "j < length (rl_buckets ?st)" using index_of_bound [OF j] by (simp add: new_rolling_def)
    then show "\<exists>i < length (rl_buckets ?st). ?place k = Some i" using j by blast
  next
    fix dm k g a
    assume "group_by = Some dm" and r: "((k, g), a) \<in> set ?rows"
    then obtain e where "e \<in> set (between d lo hi)" "g = expression dm e" using row [OF r] by auto
    then show "\<exists>key. dimension_key dm g = Inr key"
      using dimension_key_readable [OF \<open>ids_stored d\<close>, of e dm] by (simp add: between_def)
  qed (simp add: new_rolling_def)
  then obtain st' where st': "roll group_by ?place ?rows ?st = Inr st'" "rolled group_by ?place ?rows ?st st'"
    by blast
  obtain r where r: "load_rollup cl d lo hi b group_by = Inr r" and fields:
      "ro_total r = rl_total st'"
      "group_total r = map_option (\<lambda>_. sum_list (map snd (rl_groups st'))) group_by"
      "map rb_start (ro_buckets r) = map rb_start (rl_buckets st')"
      "map rb_total (ro_buckets r) = map rb_total (rl_buckets st')"
    using st'(1) ss
    by (auto simp: load_rollup_def group_total_def comp_def case_prod_unfold sum_sort_key option.map_comp)
  have total: "sum_list (map (\<lambda>(_, a). ag_metrics a) ?rows) = measured d (between d lo hi)"
    unfolding rollup_cells_def Let_def by (subst aggregate_total) (simp add: selected_rollup)
  note rolled = st'(2) [unfolded rolled_def Let_def total]
  have len: "length (rl_buckets ?st) = n" by (simp add: new_rolling_def)
  have zero: "rl_total ?st = 0" "rl_groups ?st = []" "i < n \<Longrightarrow> rb_total (rl_buckets ?st ! i) = 0" for i
    by (simp_all add: new_rolling_def)
  have "map rb_start (ro_buckets r) = map (\<lambda>i. c + int i * bucket_step b) [0..<n]"
    using rolled by (simp add: fields new_rolling_def comp_def bucket_at_def)
  moreover have "map rb_total (ro_buckets r) = map (\<lambda>i. measured d (filter (\<lambda>e. c + int i * bucket_step b \<le> occurred e \<and>
            occurred e < c + int (Suc i) * bucket_step b) (between d lo hi))) [0..<n]"
  proof -
    have "map rb_total (ro_buckets r) =
        map (\<lambda>i. rb_total (rl_buckets ?st ! i) + placed ?place ?rows i) [0..<n]"
      using rolled unfolding fields len by blast
    also have "\<dots> = map (\<lambda>i. measured d (filter (\<lambda>e. c + int i * bucket_step b \<le> occurred e \<and>
            occurred e < c + int (Suc i) * bucket_step b) (between d lo hi))) [0..<n]"
    proof (intro map_cong refl)
      fix i
      assume "i \<in> set [0..<n]"
      then have i: "i < n" by simp
      have "floor_to b c = c" by (simp add: c)
      from rollup_parts [OF utc apart this i refl, of d lo hi group_by]
      show "rb_total (rl_buckets ?st ! i) + placed ?place ?rows i =
          measured d (filter (\<lambda>e. c + int i * bucket_step b \<le> occurred e \<and>
            occurred e < c + int (Suc i) * bucket_step b) (between d lo hi))"
        by (simp only: zero(3) [OF i] add_0)
    qed
    finally show ?thesis .
  qed
  ultimately have "map (\<lambda>p. (rb_start p, rb_total p)) (ro_buckets r) =
        map (\<lambda>i. (c + int i * bucket_step b,
          measured d (filter (\<lambda>e. c + int i * bucket_step b \<le> occurred e \<and>
            occurred e < c + int (Suc i) * bucket_step b) (between d lo hi)))) [0..<n]"
    by (simp add: list_eq_iff_nth_eq)
  moreover have "ro_total r = measured d (between d lo hi)" using rolled by (simp add: fields zero)
  moreover have "group_total r = map_option (\<lambda>_. ro_total r) group_by"
    using rolled by (cases group_by) (simp_all add: fields new_rolling_def)
  ultimately show ?thesis using False r by simp
qed

section \<open>Properties\<close>

text \<open>
  C14: A breakdown is answered whenever its filter names what exists, and it accounts for every
  event the filter selects: the total is that of all of them, each row holds the measures of
  exactly the events with its key, no key has two rows, the rows are the largest groups in
  order, and a group that the limit cut off measures no more than any row.
\<close>

theorem breakdown_accounts_for_all:
  assumes "check_filter d f = Inr u" and "ids_stored d"
  shows "\<exists>b. load_breakdown d f dm by limit = Inr b \<and> bd_total b = measured d (selected d f) \<and>
    breakdown_ranked d f dm by limit b"
  by (rule load_breakdown_ranked [OF assms])


text \<open>
  C12: A rollup of a window in UTC is refused when it has more buckets than the limit and answered
  otherwise: its buckets start one length apart from the floor of the window, each measures
  exactly the events between its start and the next, and the total, and the groups when it is
  grouped, measure the events of the window.
\<close>

theorem rollup_partitions_window:
  assumes "is_utc cl (cl_utc cl)" and "keys_apart cl"
    and "cl_min cl \<le> floor_to b lo" and "cl_max cl \<le> cl_civil_max cl" and "hi + bucket_step b \<le> cl_max cl"
    and "lo < hi" and "ids_stored d"
    and "c = floor_to b lo" and "n = bucket_count b c hi"
  shows "if max_buckets < n then load_rollup cl d lo hi b group_by = Inl TooManyBuckets
    else \<exists>r. load_rollup cl d lo hi b group_by = Inr r \<and>
      ro_total r = measured d (between d lo hi) \<and>
      group_total r = map_option (\<lambda>_. ro_total r) group_by \<and>
      map (\<lambda>p. (rb_start p, rb_total p)) (ro_buckets r) =
        map (\<lambda>i. (c + int i * bucket_step b,
          measured d (filter (\<lambda>e. c + int i * bucket_step b \<le> occurred e \<and>
            occurred e < c + int (Suc i) * bucket_step b) (between d lo hi)))) [0..<n]"
  by (rule load_rollup_parts [OF assms])

section \<open>Witnesses\<close>

text \<open>A calendar that prints a civil time as its number, with the zone without an offset.\<close>

definition utc_zone :: time_zone where
  "utc_zone = \<lparr>tz_offset = \<lambda>_. 0, tz_preceding = \<lambda>_. [], tz_timestamp = Some\<rparr>"

definition number_calendar :: calendar where
  "number_calendar = \<lparr>cl_civil_max = 10 ^ 20, cl_min = - (10 ^ 20), cl_max = 10 ^ 20,
     cl_key = \<lambda>_ c. show_int c, cl_date = map_option (\<lambda>c. c div ns_per_day) \<circ> parse_i64,
     cl_utc = utc_zone\<rparr>"

lemma show_int_inj: "show_int a = show_int b \<Longrightarrow> a = b"
proof -
  have digits: "show_nat m = show_nat n \<Longrightarrow> m = n" for m n by (metis option.inject parse_show_nat)
  have sign: "hd (show_nat n) \<noteq> CHR ''-''" for n
    using show_nat_digits [of "hd (show_nat n)" n] by (auto simp: digit_value_def)
  show "show_int a = show_int b \<Longrightarrow> a = b"
    using digits [of "nat a" "nat b"] digits [of "nat (- a)" "nat (- b)"] sign [of "nat a"] sign [of "nat b"]
    by (auto simp: show_int_def split: if_splits dest: arg_cong [of _ _ hd])
qed

lemma number_calendar_laws:
  "is_utc number_calendar utc_zone" "keys_apart number_calendar" "cl_utc number_calendar = utc_zone"
  "lawful_zone utc_zone"
  by (auto simp: is_utc_def keys_apart_def number_calendar_def utc_zone_def lawful_zone_def dest: show_int_inj)

definition everything :: analytics_filter where
  "everything = window 100 None None utc_zone"

lemma priced_db_stored: "ids_stored priced_db" "check_filter priced_db everything = Inr ()"
  by (simp_all add: ids_stored_def priced_db_def in_i64_def check_filter_def everything_def window_def missing_def)

theorem breakdown_accounts_for_all_witness:
  "\<exists>b. load_breakdown priced_db everything ModelOf ByRequests 1 = Inr b \<and>
     um_requests (bd_total b) = 1"
  using breakdown_accounts_for_all [OF priced_db_stored(2,1), of ModelOf ByRequests 1]
  by (auto simp: measured_requests selected_def push_where_def everything_def window_def push_in_def
      priced_db_def sample_usage_def)


theorem rollup_partitions_window_witness:
  "\<exists>r. load_rollup number_calendar priced_db 0 (2 * ns_per_hour) Hour (Some ModelOf) = Inr r \<and>
     map rb_start (ro_buckets r) = [0, ns_per_hour]"
proof -
  let ?load = "load_rollup number_calendar priced_db 0 (2 * ns_per_hour) Hour (Some ModelOf)"
  have count: "2 = bucket_count Hour 0 (2 * ns_per_hour)" by (simp add: bucket_count_def)
  have laws: "is_utc number_calendar (cl_utc number_calendar)" by (simp add: number_calendar_laws)
  have range: "cl_min number_calendar \<le> floor_to Hour 0" "cl_max number_calendar \<le> cl_civil_max number_calendar"
    "2 * ns_per_hour + bucket_step Hour \<le> cl_max number_calendar" "(0::int) < 2 * ns_per_hour" "0 = floor_to Hour 0"
    by (simp_all add: number_calendar_def)
  have two: "[0..<2] = [0, Suc 0]" by (simp add: upt_rec)
  obtain r where r: "?load = Inr r" and parts: "\<exists>x y. map (\<lambda>p. (rb_start p, rb_total p)) (ro_buckets r) = [(0, x), (ns_per_hour, y)]"
    using rollup_partitions_window [OF laws number_calendar_laws(2) range(1-4) priced_db_stored(1) range(5) count,
        of "Some ModelOf"]
    by (auto simp: max_buckets_def two)
  have "map rb_start (ro_buckets r) = map fst (map (\<lambda>p. (rb_start p, rb_total p)) (ro_buckets r))" by simp
  then show ?thesis using r parts by force
qed

end
