(* ===== verification/Figures.thy ===== *)
theory Figures
  imports Breakdowns "HOL-Library.Signed_Division"
begin

text \<open>
  One window in figures (\<^verbatim>\<open>src/analytics/summary.rs\<close>), single requests thinned evenly per
  model (\<^verbatim>\<open>src/analytics/sample.rs\<close>), the usage of each agent session
  (\<^verbatim>\<open>src/analytics/session.rs\<close>) and the requests and failures of each account over the last
  stretch of time (\<^verbatim>\<open>src/analytics/health.rs\<close>).
\<close>

section \<open>Summary\<close>

record daily_burn =
  db_list_cost :: rat
  db_billed_cost :: rat
  db_total_tokens :: int

text \<open>A date is the number of its day since 1970-01-01.\<close>

record peak_day =
  pk_day :: int
  pk_list_cost :: rat
  pk_total_tokens :: int

record distinct_counts =
  dc_models :: nat
  dc_providers :: nat
  dc_accounts :: nat
  dc_harnesses :: nat
  dc_sources :: nat
  dc_sessions :: nat

record overall =
  ov_distinct :: distinct_counts
  ov_active_days :: nat
  ov_cache_hit_rate :: "rat option"

record summary =
  sm_metrics :: usage_metrics
  sm_range_days :: int
  sm_active_days :: nat
  sm_burn :: daily_burn
  sm_peak_by_cost :: "peak_day option"
  sm_peak_by_tokens :: "peak_day option"
  sm_cache_hit_rate :: "rat option"
  sm_distinct :: distinct_counts

definition count_distinct :: "('a \<Rightarrow> 'b) \<Rightarrow> 'a list \<Rightarrow> nat" where
  "count_distinct f xs = length (remdups (map f xs))"

definition load_overall :: "calendar \<Rightarrow> db \<Rightarrow> analytics_filter \<Rightarrow> shift \<Rightarrow> overall" where
  "load_overall cl d f sf =
     (let es = selected d f;
          input = sum_list (map (u_input_tokens \<circ> e_usage) es)
      in \<lparr>ov_distinct =
            \<lparr>dc_models = count_distinct (u_model \<circ> e_usage) es,
             dc_providers = count_distinct (u_provider \<circ> e_usage) es,
             dc_accounts = count_distinct e_account es,
             dc_harnesses = count_distinct harness_key es,
             dc_sources = count_distinct e_source es,
             dc_sessions = count_distinct (u_session_id \<circ> e_usage)
               (filter (\<lambda>e. u_session_id (e_usage e) \<noteq> None) es)\<rparr>,
          ov_active_days = count_distinct (bucket_key cl Day sf) es,
          ov_cache_hit_rate =
            (if input = 0 then None
             else Some (of_int (sum_list (map (u_cache_read_tokens \<circ> e_usage) es)) / of_int input))\<rparr>)"

text \<open>
  The best day so far by a measure: a later day replaces it only when it measures more.
\<close>

definition better :: "(peak_day \<Rightarrow> 'a::linorder) \<Rightarrow> peak_day \<Rightarrow> peak_day option \<Rightarrow> peak_day option" where
  "better score peak best =
     (case best of
        None \<Rightarrow> Some peak
      | Some b \<Rightarrow> if score b < score peak then Some peak else best)"

record day_fold =
  df_metrics :: usage_metrics
  df_first :: "instant option"
  df_by_cost :: "peak_day option"
  df_by_tokens :: "peak_day option"

definition add_day :: "int \<times> aggregate \<Rightarrow> day_fold \<Rightarrow> day_fold" where
  "add_day row st =
     (case row of (day, a) \<Rightarrow>
        let m = ag_metrics a;
            peak = \<lparr>pk_day = day, pk_list_cost = um_list_cost_usd m, pk_total_tokens = um_total_tokens m\<rparr>
        in \<lparr>df_metrics = df_metrics st + m,
            df_first = Some (case df_first st of None \<Rightarrow> ag_first a | Some t \<Rightarrow> min t (ag_first a)),
            df_by_cost = better pk_list_cost peak (df_by_cost st),
            df_by_tokens = better pk_total_tokens peak (df_by_tokens st)\<rparr>)"

definition no_days :: day_fold where
  "no_days = \<lparr>df_metrics = 0, df_first = None, df_by_cost = None, df_by_tokens = None\<rparr>"

definition range_days :: "calendar \<Rightarrow> analytics_filter \<Rightarrow> instant \<Rightarrow> analytics_error + int" where
  "range_days cl f lo =
     (let first_day = to_datetime (af_zone f) lo div ns_per_day
      in if af_to f - 1 < cl_min cl then Inl Window
         else let last_day = to_datetime (af_zone f) (af_to f - 1) div ns_per_day
              in if last_day < first_day then Inr 0 else Inr (last_day - first_day + 1))"

definition daily_burn_of :: "usage_metrics \<Rightarrow> int \<Rightarrow> daily_burn" where
  "daily_burn_of m days =
     (if 0 < days
      then \<lparr>db_list_cost = um_list_cost_usd m / of_int days,
            db_billed_cost = um_billed_cost_usd m / of_int days,
            db_total_tokens = um_total_tokens m sdiv days\<rparr>
      else \<lparr>db_list_cost = 0, db_billed_cost = 0, db_total_tokens = 0\<rparr>)"

definition parse_day :: "calendar \<Rightarrow> string \<times> aggregate \<Rightarrow> analytics_error + int \<times> aggregate" where
  "parse_day cl row =
     map_sum id (\<lambda>day. (day, snd row)) (ok_or (Unreadable ''occurred_at'' (fst row)) (cl_date cl (fst row)))"

definition load_summary :: "calendar \<Rightarrow> db \<Rightarrow> analytics_filter \<Rightarrow> analytics_error + summary" where
  "load_summary cl d f =
     (case check_filter d f of
        Inl e \<Rightarrow> Inl e
      | Inr _ \<Rightarrow>
          (let recorded = load_recorded d;
               sf = shift_of cl f recorded;
               overall = load_overall cl d f sf
           in case traverse (parse_day cl) (aggregate_by d f (bucket_key cl Day sf) (\<lambda>_. True)) of
                Inl e \<Rightarrow> Inl e
              | Inr parsed \<Rightarrow>
                  (let st = fold add_day (sort_key fst parsed) no_days;
                       lo = or_else (af_from f) (df_first st);
                       burn = (case (lo, recorded) of
                          (Some t, Some r) \<Rightarrow> range_days cl f (max t (rc_first r))
                        | _ \<Rightarrow> Inr 0)
                   in case burn of
                        Inl e \<Rightarrow> Inl e
                      | Inr burn_days \<Rightarrow>
                          (case (case lo of Some t \<Rightarrow> range_days cl f t | None \<Rightarrow> Inr 0) of
                             Inl e \<Rightarrow> Inl e
                           | Inr days \<Rightarrow>
                               Inr \<lparr>sm_metrics = df_metrics st, sm_range_days = days,
                                    sm_active_days = ov_active_days overall,
                                    sm_burn = daily_burn_of (df_metrics st) burn_days,
                                    sm_peak_by_cost = df_by_cost st,
                                    sm_peak_by_tokens = df_by_tokens st,
                                    sm_cache_hit_rate = ov_cache_hit_rate overall,
                                    sm_distinct = ov_distinct overall\<rparr>))))"

section \<open>Samples\<close>

record request_sample =
  rq_occurred_at :: instant
  rq_model :: string
  rq_input_tokens :: int
  rq_output_tokens :: int
  rq_latency_ms :: int
  rq_ttft_ms :: "int option"

record request_samples =
  rs_requests :: nat
  rs_samples :: "request_sample list"

definition timed :: "event_row \<Rightarrow> bool" where
  "timed e \<longleftrightarrow> \<not> u_failed (e_usage e) \<and> u_latency_ms (e_usage e) \<noteq> None"

definition sample_of :: "event_row \<Rightarrow> request_sample" where
  "sample_of e =
     (let u = e_usage e
      in \<lparr>rq_occurred_at = u_occurred_at u, rq_model = u_model u, rq_input_tokens = u_input_tokens u,
          rq_output_tokens = u_output_tokens u, rq_latency_ms = the (u_latency_ms u),
          rq_ttft_ms = u_ttft_ms u\<rparr>)"

text \<open>
  The requests of one model in time order, numbered from zero, and every n-th of them.
\<close>

definition thinned :: "nat \<Rightarrow> event_row list \<Rightarrow> event_row list" where
  "thinned quota es =
     (let rows = sort_key (\<lambda>e. (occurred e, e_id e)) es
      in map snd (filter (\<lambda>(position, _). position mod ((length rows + quota - 1) div quota) = 0)
           (zip [0..<length rows] rows)))"

definition load_samples :: "db \<Rightarrow> analytics_filter \<Rightarrow> nat \<Rightarrow> analytics_error + request_samples" where
  "load_samples d f limit =
     (case check_filter d f of
        Inl e \<Rightarrow> Inl e
      | Inr _ \<Rightarrow>
          (let es = filter timed (selected d f);
               models = remdups (map (u_model \<circ> e_usage) es)
           in if models = [] then Inr \<lparr>rs_requests = 0, rs_samples = []\<rparr>
              else let quota = (limit + length models - 1) div length models;
                       kept = concat (map (\<lambda>m. thinned quota (filter (\<lambda>e. u_model (e_usage e) = m) es)) models)
                   in Inr \<lparr>rs_requests = length es,
                           rs_samples = map sample_of (sort_key occurred kept)\<rparr>))"

section \<open>Sessions\<close>

record session_usage =
  su_session :: string
  su_source :: id
  su_account :: account_summary
  su_harness :: "string option"
  su_models :: "string list"
  su_first :: instant
  su_last :: instant
  su_metrics :: usage_metrics

type_synonym session_key = "string \<times> id \<times> id \<times> string option \<times> string"

definition session_columns :: "event_row \<Rightarrow> session_key" where
  "session_columns e =
     (unwrap_or [] (u_session_id (e_usage e)), e_account e, e_source e, u_harness (e_usage e),
      u_model (e_usage e))"

definition has_session :: "event_row \<Rightarrow> bool" where
  "has_session e \<longleftrightarrow> u_session_id (e_usage e) \<noteq> None"

text \<open>How many requests each value of a column carried.\<close>

definition carried :: "('r \<Rightarrow> 'k option) \<Rightarrow> ('r \<Rightarrow> int) \<Rightarrow> 'r list \<Rightarrow> ('k \<times> int) list" where
  "carried column requests rows =
     map (\<lambda>k. (k, sum_list (map requests (filter (\<lambda>r. column r = Some k) rows))))
       (remdups (List.map_filter column rows))"

definition leader :: "('k::linorder \<times> int) list \<Rightarrow> 'k option" where
  "leader counts =
     (case sort_key (\<lambda>(k, n). (- n, k)) counts of [] \<Rightarrow> None | (k, _) # _ \<Rightarrow> Some k)"

record chosen =
  ch_session :: string
  ch_account :: "id option"
  ch_source :: "id option"
  ch_harness :: "string option"
  ch_models :: "string list"
  ch_aggregate :: aggregate

definition tally :: "(session_key \<times> aggregate) list \<Rightarrow> string \<Rightarrow> chosen" where
  "tally rows session =
     (let mine = filter (\<lambda>((s, _), _). s = session) rows;
          requests = (\<lambda>(_, a). um_requests (ag_metrics a))
      in \<lparr>ch_session = session,
          ch_account = leader (carried (\<lambda>((_, a, _), _). Some a) requests mine),
          ch_source = leader (carried (\<lambda>((_, _, s, _), _). Some s) requests mine),
          ch_harness = leader (carried (\<lambda>((_, _, _, h, _), _). h) requests mine),
          ch_models = collect_set (map (\<lambda>((_, _, _, _, m), _). m) mine),
          ch_aggregate = fold (\<lambda>(_, a) total. aggregate_add total a) (tl mine) (snd (hd mine))\<rparr>)"

definition session_of :: "account_summary list \<Rightarrow> chosen \<Rightarrow> analytics_error + session_usage" where
  "session_of summaries c =
     (case Option.bind (ch_account c) (\<lambda>i. find (\<lambda>(a, _). a_id a = i) (rev summaries)) of
        None \<Rightarrow> Inl (Unreadable ''session_id'' (ch_session c))
      | Some account \<Rightarrow>
          (case ch_source c of
             None \<Rightarrow> Inl (Unreadable ''session_id'' (ch_session c))
           | Some source \<Rightarrow>
               Inr \<lparr>su_session = ch_session c, su_source = source, su_account = account,
                    su_harness = ch_harness c, su_models = ch_models c,
                    su_first = ag_first (ch_aggregate c), su_last = ag_last (ch_aggregate c),
                    su_metrics = ag_metrics (ch_aggregate c)\<rparr>))"

definition list_sessions ::
  "db \<Rightarrow> analytics_filter \<Rightarrow> rank_by \<Rightarrow> nat \<Rightarrow> analytics_error + session_usage list" where
  "list_sessions d f by limit =
     (case check_filter d f of
        Inl e \<Rightarrow> Inl e
      | Inr _ \<Rightarrow>
          (let rows = aggregate_by d f session_columns has_session;
               tallies = map (tally rows) (remdups (map (\<lambda>((s, _), _). s) rows));
               top = take limit (sort_key (\<lambda>c. rank_order by (ag_metrics (ch_aggregate c)) (ch_session c)) tallies);
               summaries = account_summaries d (collect_set (List.map_filter ch_account top))
           in traverse (session_of summaries) top))"

section \<open>Health\<close>

datatype health_window_error = BadWindow | BadBucket | Indivisible | TooManyHealthBuckets

definition MIN_WINDOW_MINUTES :: int where
  "MIN_WINDOW_MINUTES = 5"

definition MAX_WINDOW_MINUTES :: int where
  "MAX_WINDOW_MINUTES = 1440"

definition MAX_HEALTH_BUCKETS :: int where
  "MAX_HEALTH_BUCKETS = 288"

record health_window =
  hw_bucket_minutes :: int
  hw_buckets :: int

definition new_health_window :: "int \<Rightarrow> int \<Rightarrow> health_window_error + health_window" where
  "new_health_window window_minutes bucket_minutes =
     (if \<not> (MIN_WINDOW_MINUTES \<le> window_minutes \<and> window_minutes \<le> MAX_WINDOW_MINUTES) then Inl BadWindow
      else if bucket_minutes = 0 then Inl BadBucket
      else if window_minutes mod bucket_minutes \<noteq> 0 then Inl Indivisible
      else if MAX_HEALTH_BUCKETS < window_minutes div bucket_minutes then Inl TooManyHealthBuckets
      else Inr \<lparr>hw_bucket_minutes = bucket_minutes, hw_buckets = window_minutes div bucket_minutes\<rparr>)"

record health_bucket =
  hb_start :: instant
  hb_requests :: nat
  hb_failures :: nat

record health =
  he_bucket_minutes :: int
  he_start :: instant
  he_accounts :: "(id \<times> health_bucket list) list"

definition health_bucket_seconds :: "health_window \<Rightarrow> int" where
  "health_bucket_seconds w = hw_bucket_minutes w * 60"

definition health_end :: "health_window \<Rightarrow> instant \<Rightarrow> int" where
  "health_end w now =
     (let seconds = health_bucket_seconds w in ((now sdiv ns_per_second) div seconds + 1) * seconds)"

definition health_start :: "health_window \<Rightarrow> instant \<Rightarrow> int" where
  "health_start w now = health_end w now - health_bucket_seconds w * hw_buckets w"

definition from_second :: "calendar \<Rightarrow> int \<Rightarrow> analytics_error + instant" where
  "from_second cl s =
     (let t = s * ns_per_second in if cl_min cl \<le> t \<and> t \<le> cl_max cl then Inr t else Inl Window)"

type_synonym health_row = "(id \<times> int) \<times> nat \<times> nat"

text \<open>The bucket of an event: whole seconds since the start over the bucket's length.\<close>

definition health_bucket_of :: "int \<Rightarrow> int \<Rightarrow> event_row \<Rightarrow> int" where
  "health_bucket_of start seconds e = (occurred e div ns_per_second - start) sdiv seconds"

definition health_rows :: "db \<Rightarrow> analytics_filter \<Rightarrow> int \<Rightarrow> int \<Rightarrow> health_row list" where
  "health_rows d f start seconds =
     (let column = (\<lambda>e. (e_account e, health_bucket_of start seconds e))
      in map (\<lambda>k. let es = filter (\<lambda>e. column e = k) (selected d f)
                  in (k, length es, count_where (\<lambda>e. u_failed (e_usage e)) es))
           (remdups (map column (selected d f))))"

fun fill_health ::
  "health_bucket list \<Rightarrow> health_row list \<Rightarrow> (id \<times> health_bucket list) list \<Rightarrow>
     analytics_error + (id \<times> health_bucket list) list" where
  "fill_health unused [] strips = Inr strips"
| "fill_health unused (((account, bucket), requests, failures) # rows) strips =
     (let buckets = unwrap_or unused (map_of strips account)
      in if bucket < 0 \<or> int (length buckets) \<le> bucket then Inl (Unreadable ''occurred_at'' (show_int bucket))
         else fill_health unused rows
                (AList.update account
                  (buckets[nat bucket := (buckets ! nat bucket)\<lparr>hb_requests := requests, hb_failures := failures\<rparr>])
                  strips))"

definition load_health ::
  "calendar \<Rightarrow> db \<Rightarrow> health_window \<Rightarrow> instant \<Rightarrow> id list \<Rightarrow> id list \<Rightarrow> analytics_error + health" where
  "load_health cl d w now source_ids account_ids =
     (let seconds = health_bucket_seconds w; start = health_start w now
      in case from_second cl start of
           Inl e \<Rightarrow> Inl e
         | Inr lo \<Rightarrow>
      (case from_second cl (health_end w now) of
           Inl e \<Rightarrow> Inl e
         | Inr hi \<Rightarrow>
             (let f = (window now (Some lo) (Some hi) (cl_utc cl))\<lparr>af_sources := source_ids, af_accounts := account_ids\<rparr>
              in case check_filter d f of
                   Inl e \<Rightarrow> Inl e
                 | Inr _ \<Rightarrow>
      (case traverse (\<lambda>i. map_sum id (\<lambda>t. \<lparr>hb_start = t, hb_requests = 0, hb_failures = 0\<rparr>)
                (from_second cl (start + int i * seconds))) [0..<nat (hw_buckets w)] of
           Inl e \<Rightarrow> Inl e
         | Inr unused \<Rightarrow>
             map_sum id (\<lambda>strips. \<lparr>he_bucket_minutes = hw_bucket_minutes w, he_start = lo,
                 he_accounts = sort_key fst strips\<rparr>)
               (fill_health unused (health_rows d f start seconds)
                 (collect_map (map (\<lambda>i. (i, unused)) account_ids)))))))"

section \<open>Lemmas on samples\<close>

lemma length_filter_sort_key: "length (filter p (sort_key k xs)) = length (filter p xs)"
  by (metis mset_filter mset_sort size_mset)

lemma map_fst_filter_zip:
  "length xs = length ys \<Longrightarrow> map fst (filter (\<lambda>(x, _). p x) (zip xs ys)) = filter p xs"
  by (induction xs ys rule: list_induct2) auto

definition every :: "nat \<Rightarrow> nat \<Rightarrow> nat" where
  "every quota n = length (filter (\<lambda>i. i mod ((n + quota - 1) div quota) = 0) [0..<n])"

lemma length_thinned: "length (thinned quota es) = every quota (length es)"
proof -
  let ?rows = "sort_key (\<lambda>e. (occurred e, e_id e)) es"
  let ?step = "(length ?rows + quota - 1) div quota"
  have "length (thinned quota es) =
      length (map fst (filter (\<lambda>(i, _). i mod ?step = 0) (zip [0..<length ?rows] ?rows)))"
    by (simp add: thinned_def Let_def)
  also have "\<dots> = length (filter (\<lambda>i. i mod ?step = 0) [0..<length ?rows])"
    by (subst map_fst_filter_zip) simp_all
  finally show ?thesis by (simp add: every_def)
qed

lemma every_bounds:
  assumes "0 < quota"
  shows "every quota n \<le> quota" and "0 < n \<Longrightarrow> 0 < every quota n" and "n \<le> quota \<Longrightarrow> every quota n = n"
proof -
  define step where "step = (n + quota - 1) div quota"
  have "n + quota - 1 < (step + 1) * quota"
    unfolding step_def using assms by (metis add.commute dividend_less_div_times mult.commute mult_Suc plus_1_eq_Suc)
  then have n: "n \<le> step * quota" by simp
  let ?is = "filter (\<lambda>i. i mod step = 0) [0..<n]"
  have "inj_on (\<lambda>i. i div step) (set ?is)"
    by (rule inj_onI) (metis (mono_tags, lifting) add.right_neutral mem_Collect_eq mod_mult_div_eq add_0 set_filter)
  moreover have "(\<lambda>i. i div step) ` set ?is \<subseteq> {..<quota}"
    using n by (auto intro!: less_mult_imp_div_less simp: mult.commute)
  ultimately have "card (set ?is) \<le> quota"
    by (metis card_image card_lessThan card_mono finite_lessThan)
  moreover have "card (set ?is) = every quota n"
    by (subst distinct_card) (simp_all add: every_def step_def)
  ultimately show "every quota n \<le> quota" by simp
  show "0 < every quota n" if "0 < n"
  proof -
    have "0 \<in> set ?is" using that by simp
    then show ?thesis unfolding every_def step_def [symmetric] by (metis length_pos_if_in_set)
  qed
  show "every quota n = n" if "n \<le> quota"
  proof (cases "n = 0")
    case False
    have "n + quota - 1 = quota * 1 + (n - 1)" using False by simp
    then have "step = 1" unfolding step_def using that False assms
      by (metis One_nat_def Suc_leI add.right_neutral div_less div_mult_self4 le_less_trans less_imp_diff_less
          linorder_not_less mult.right_neutral nat_neq_iff not_less_zero diff_less Suc_le_lessD zero_less_one less_le_trans)
    moreover have "every quota n = length (filter (\<lambda>i. i mod step = 0) [0..<n])"
      by (simp add: every_def step_def)
    ultimately show ?thesis by simp
  qed (simp add: every_def)
qed

lemma set_thinned: "set (thinned quota es) \<subseteq> set es"
  by (auto simp: thinned_def Let_def dest: set_zip_rightD)

lemma filter_concat_one:
  assumes "distinct ms" and "m \<in> set ms" and "\<And>k x. k \<in> set ms \<Longrightarrow> x \<in> set (g k) \<Longrightarrow> key x = k"
  shows "filter (\<lambda>x. key x = m) (concat (map g ms)) = g m"
  using assms
proof (induction ms)
  case (Cons k ms)
  have other: "filter (\<lambda>x. key x = m) (g k) = (if k = m then g m else [])"
    using Cons.prems(3) [of k] by (auto simp: filter_empty_conv filter_id_conv)
  show ?case
  proof (cases "m \<in> set ms")
    case True
    then have "k \<noteq> m" using Cons.prems(1) by auto
    then show ?thesis using Cons True other by simp
  next
    case False
    then have "filter (\<lambda>x. key x = m) (concat (map g ms)) = []"
      using Cons.prems(3) by (auto simp: filter_empty_conv)
    then show ?thesis using Cons.prems(2) False other by auto
  qed
qed simp

definition model_of :: "event_row \<Rightarrow> string" where
  "model_of e = u_model (e_usage e)"

lemma load_samples_shared:
  assumes "check_filter d f = Inr u" and "0 < limit"
    and es: "es = filter timed (selected d f)" and k: "k = count_distinct model_of es"
    and quota: "quota = (limit + k - 1) div k"
  shows "\<exists>r. load_samples d f limit = Inr r \<and> rs_requests r = length es \<and>
    sorted (map rq_occurred_at (rs_samples r)) \<and> length (rs_samples r) < limit + max 1 k \<and>
    (\<forall>m \<in> model_of ` set es.
       length (filter (\<lambda>x. rq_model x = m) (rs_samples r)) =
         every quota (length (filter (\<lambda>e. model_of e = m) es)))"
proof (cases "es = []")
  case True
  then show ?thesis using assms(1,2) es by (simp add: load_samples_def Let_def)
next
  case False
  let ?models = "remdups (map model_of es)"
  let ?thin = "\<lambda>m. thinned quota (filter (\<lambda>e. model_of e = m) es)"
  let ?kept = "concat (map ?thin ?models)"
  let ?samples = "map sample_of (sort_key occurred ?kept)"
  have k: "k = length ?models" "0 < k" using k False by (simp_all add: count_distinct_def)
  have load: "load_samples d f limit = Inr \<lparr>rs_requests = length es, rs_samples = ?samples\<rparr>"
    using False k quota by (simp add: load_samples_def assms(1) Let_def es model_of_def [abs_def] comp_def)
  have q: "0 < quota" using k(2) assms(2) unfolding quota by (simp add: div_greater_zero_iff)
  have "length ?samples = sum_list (map (\<lambda>m. every quota (length (filter (\<lambda>e. model_of e = m) es))) ?models)"
    by (simp add: length_concat comp_def length_thinned)
  also have "\<dots> \<le> sum_list (map (\<lambda>_. quota) ?models)"
    by (rule sum_list_mono) (rule every_bounds(1) [OF q])
  also have "\<dots> = k * quota" by (simp add: sum_list_triv k(1))
  also have "\<dots> \<le> limit + k - 1" unfolding quota by simp
  finally have size: "length ?samples < limit + max 1 k" using k(2) by linarith
  have "map rq_occurred_at ?samples = map occurred (sort_key occurred ?kept)"
    by (simp add: sample_of_def Let_def)
  then have sorted: "sorted (map rq_occurred_at ?samples)" by (simp only: sorted_sort_key)
  have part: "length (filter (\<lambda>x. rq_model x = m) ?samples) = every quota (length (filter (\<lambda>e. model_of e = m) es))"
    if "m \<in> model_of ` set es" for m
  proof -
    have "(\<lambda>x. rq_model x = m) \<circ> sample_of = (\<lambda>e. model_of e = m)"
      by (simp add: fun_eq_iff sample_of_def Let_def model_of_def)
    then have "length (filter (\<lambda>x. rq_model x = m) ?samples) = length (filter (\<lambda>e. model_of e = m) ?kept)"
      by (simp only: filter_map length_map length_filter_sort_key)
    also have "filter (\<lambda>e. model_of e = m) ?kept = ?thin m"
      using that set_thinned by (intro filter_concat_one) fastforce+
    finally show ?thesis by (simp add: length_thinned)
  qed
  show ?thesis using load size sorted part by simp
qed

section \<open>Lemmas on health\<close>

definition strip_of ::
  "health_bucket list \<Rightarrow> (id \<times> health_bucket list) list \<Rightarrow> health_row list \<Rightarrow> id \<Rightarrow> health_bucket list" where
  "strip_of unused strips rows a =
     (let base = unwrap_or unused (map_of strips a)
      in map (\<lambda>j. case map_of (rev rows) (a, int j) of
                None \<Rightarrow> base ! j
              | Some (r, f) \<Rightarrow> (base ! j)\<lparr>hb_requests := r, hb_failures := f\<rparr>) [0..<length unused])"

lemma strip_of_Nil:
  assumes "length (unwrap_or unused (map_of strips a)) = length unused"
  shows "strip_of unused strips [] a = unwrap_or unused (map_of strips a)"
  using assms by (auto simp: strip_of_def Let_def intro: nth_equalityI)

lemma strip_of_Cons:
  assumes "0 \<le> b" and "b < int (length unused)"
    and "length (unwrap_or unused (map_of strips a)) = length unused"
    and strips': "strips' = AList.update a ((unwrap_or unused (map_of strips a))
      [nat b := (unwrap_or unused (map_of strips a) ! nat b)\<lparr>hb_requests := r, hb_failures := f\<rparr>]) strips"
  shows "strip_of unused strips' rows a' = strip_of unused strips (((a, b), r, f) # rows) a'"
proof -
  have "map_of strips' a' = (if a' = a then Some ((unwrap_or unused (map_of strips a))
      [nat b := (unwrap_or unused (map_of strips a) ! nat b)\<lparr>hb_requests := r, hb_failures := f\<rparr>]) else map_of strips a')"
    by (simp add: strips' update_conv')
  then show ?thesis
    using assms(1-3)
    by (auto simp: strip_of_def Let_def map_add_def nth_list_update nat_eq_iff split: option.splits)
qed

lemma fill_health_strips:
  assumes "\<And>a b x. ((a, b), x) \<in> set rows \<Longrightarrow> 0 \<le> b \<and> b < int (length unused)"
    and "\<And>a. length (unwrap_or unused (map_of strips a)) = length unused"
    and "distinct (map fst strips)"
  shows "\<exists>strips'. fill_health unused rows strips = Inr strips' \<and> distinct (map fst strips') \<and>
    set (map fst strips') = set (map fst strips) \<union> (\<lambda>((a, _), _). a) ` set rows \<and>
    (\<forall>(a, bs) \<in> set strips'. bs = strip_of unused strips rows a)"
  using assms
proof (induction rows arbitrary: strips)
  case Nil
  have "bs = strip_of unused strips [] a" if "(a, bs) \<in> set strips" for a bs
    using that Nil.prems(2) [of a] map_of_is_SomeI [OF Nil.prems(3) that] by (simp add: strip_of_Nil)
  then show ?case using Nil.prems(3) by auto
next
  case (Cons row rows)
  obtain a b r f where row: "row = ((a, b), r, f)" by (metis prod.exhaust)
  have b: "0 \<le> b" "b < int (length unused)" using Cons.prems(1) [of a b "(r, f)"] row by simp_all
  let ?buckets = "unwrap_or unused (map_of strips a)"
  define strips1 where "strips1 = AList.update a (?buckets[nat b := (?buckets ! nat b)\<lparr>hb_requests := r, hb_failures := f\<rparr>]) strips"
  have "\<exists>strips'. fill_health unused rows strips1 = Inr strips' \<and> distinct (map fst strips') \<and>
    set (map fst strips') = set (map fst strips1) \<union> (\<lambda>((a, _), _). a) ` set rows \<and>
    (\<forall>(a, bs) \<in> set strips'. bs = strip_of unused strips1 rows a)"
  proof (rule Cons.IH)
    show "0 \<le> b \<and> b < int (length unused)" if "((a, b), x) \<in> set rows" for a b x
      using Cons.prems(1) [of a b x] that by simp
    show "length (unwrap_or unused (map_of strips1 a')) = length unused" for a'
      using Cons.prems(2) [of a] Cons.prems(2) [of a'] by (simp add: strips1_def update_conv')
    show "distinct (map fst strips1)" using Cons.prems(3) by (simp add: strips1_def distinct_update)
  qed
  moreover have "fill_health unused (row # rows) strips = fill_health unused rows strips1"
    using b Cons.prems(2) [of a] by (simp add: row Let_def strips1_def)
  moreover have "set (map fst strips1) = insert a (set (map fst strips))"
    by (auto simp: strips1_def update_keys)
  moreover have "strip_of unused strips1 rows a' = strip_of unused strips (row # rows) a'" for a'
    unfolding row by (rule strip_of_Cons [OF b Cons.prems(2)]) (simp add: strips1_def)
  ultimately show ?case by (simp add: row)
qed

lemma sdiv_nonneg: "0 \<le> x \<Longrightarrow> 0 < y \<Longrightarrow> x sdiv y = x div y" for x y :: int
  by (cases "x = 0") (simp_all add: signed_divide_int_def)

lemma div_range: "0 < k \<Longrightarrow> x div k = q \<longleftrightarrow> q * k \<le> x \<and> x < (q + 1) * k" for x k q :: int
  using le_div_iff [of k q x] le_div_iff [of k "q + 1" x] by linarith

text \<open>The bounds of a bucket, in nanoseconds.\<close>

definition health_lo :: "int \<Rightarrow> int \<Rightarrow> nat \<Rightarrow> instant" where
  "health_lo start seconds j = (start + int j * seconds) * ns_per_second"

lemma health_bucket_iff:
  assumes "0 < seconds" and "start * ns_per_second \<le> occurred e"
  shows "health_bucket_of start seconds e = int j \<longleftrightarrow>
     health_lo start seconds j \<le> occurred e \<and> occurred e < health_lo start seconds (Suc j)"
proof -
  have "start \<le> occurred e div ns_per_second" using assms(2) by (simp add: le_div_iff)
  then have "health_bucket_of start seconds e = (occurred e div ns_per_second - start) div seconds"
    using assms(1) by (simp add: health_bucket_of_def sdiv_nonneg)
  also have "\<dots> = int j \<longleftrightarrow> start + int j * seconds \<le> occurred e div ns_per_second \<and>
      \<not> start + int (Suc j) * seconds \<le> occurred e div ns_per_second"
    unfolding div_range [OF assms(1)] by (auto simp: algebra_simps)
  also have "\<dots> \<longleftrightarrow> health_lo start seconds j \<le> occurred e \<and> occurred e < health_lo start seconds (Suc j)"
    by (simp only: le_div_iff zero_less_numeral health_lo_def not_le)
  finally show ?thesis .
qed

lemma new_health_windowD:
  assumes "new_health_window wm bm = Inr w" and "0 \<le> bm"
  shows "hw_bucket_minutes w = bm" and "0 < bm" and "0 < hw_buckets w" and "hw_buckets w \<le> MAX_HEALTH_BUCKETS"
    and "wm = hw_buckets w * bm"
proof -
  have wm: "0 < wm" "wm mod bm = 0" "hw_buckets w = wm div bm" and "bm \<noteq> 0"
    and max: "hw_buckets w \<le> MAX_HEALTH_BUCKETS" and w: "hw_bucket_minutes w = bm"
    using assms(1) by (auto simp: new_health_window_def MIN_WINDOW_MINUTES_def split: if_splits)
  then have "0 < bm" using assms(2) by simp
  moreover have "wm = wm div bm * bm" using wm(2) by (metis add.right_neutral div_mult_mod_eq)
  moreover have "0 < wm div bm" using calculation wm(1) by (metis zero_less_mult_iff not_less_iff_gr_or_eq)
  ultimately show "hw_bucket_minutes w = bm" "0 < bm" "0 < hw_buckets w" "hw_buckets w \<le> MAX_HEALTH_BUCKETS"
    "wm = hw_buckets w * bm" using w wm(3) max by simp_all
qed

definition health_strip :: "event_row list \<Rightarrow> int \<Rightarrow> int \<Rightarrow> nat \<Rightarrow> health_bucket list" where
  "health_strip es start seconds n =
     map (\<lambda>j. let mine = filter (\<lambda>e. health_lo start seconds j \<le> occurred e \<and>
                   occurred e < health_lo start seconds (Suc j)) es
              in \<lparr>hb_start = health_lo start seconds j, hb_requests = length mine,
                  hb_failures = count_where (\<lambda>e. u_failed (e_usage e)) mine\<rparr>) [0..<n]"

definition health_filter ::
  "calendar \<Rightarrow> health_window \<Rightarrow> instant \<Rightarrow> id list \<Rightarrow> id list \<Rightarrow> analytics_filter" where
  "health_filter cl w now source_ids account_ids =
     (window now (Some (health_start w now * ns_per_second)) (Some (health_end w now * ns_per_second)) (cl_utc cl))
       \<lparr>af_sources := source_ids, af_accounts := account_ids\<rparr>"

lemma strip_of_rows:
  assumes unused: "unused = map (\<lambda>j. \<lparr>hb_start = health_lo start seconds j, hb_requests = 0, hb_failures = 0\<rparr>) [0..<n]"
    and base: "unwrap_or unused (map_of strips a) = unused" and "0 < seconds"
    and from_start: "\<And>e. e \<in> set (selected d f) \<Longrightarrow> start * ns_per_second \<le> occurred e"
  shows "strip_of unused strips (health_rows d f start seconds) a =
     health_strip (filter (\<lambda>e. e_account e = a) (selected d f)) start seconds n"
proof -
  let ?es = "selected d f" and ?column = "\<lambda>e. (e_account e, health_bucket_of start seconds e)"
  let ?mine = "\<lambda>k. filter (\<lambda>e. ?column e = k) ?es"
  let ?row = "\<lambda>k. (length (?mine k), count_where (\<lambda>e. u_failed (e_usage e)) (?mine k))"
  have rows: "rev (health_rows d f start seconds) = map (\<lambda>k. (k, ?row k)) (rev (remdups (map ?column ?es)))"
    by (simp add: health_rows_def Let_def rev_map)
  have found: "map_of (rev (health_rows d f start seconds)) k = (if k \<in> ?column ` set ?es then Some (?row k) else None)" for k
    unfolding rows map_of_map_restrict by (simp add: restrict_map_def)
  have row: "(case map_of (rev (health_rows d f start seconds)) k of None \<Rightarrow> (0, 0) | Some x \<Rightarrow> x) = ?row k" for k
  proof (cases "k \<in> ?column ` set ?es")
    case True
    then show ?thesis unfolding found by simp
  next
    case False
    then have "?mine k = []" by (auto simp: filter_empty_conv)
    then have "?row k = (0, 0)" by (simp only: list.size count_where_def filter.simps)
    then show ?thesis using False unfolding found by (simp only: if_False option.case)
  qed
  have mine: "?mine (a, int j) = filter (\<lambda>e. health_lo start seconds j \<le> occurred e \<and>
      occurred e < health_lo start seconds (Suc j)) (filter (\<lambda>e. e_account e = a) ?es)" for j
    unfolding filter_filter using health_bucket_iff [OF assms(3) from_start]
    by (intro filter_cong refl) auto
  show ?thesis
    unfolding strip_of_def health_strip_def Let_def base
  proof (intro nth_equalityI, goal_cases)
    case 1
    show ?case by (simp add: unused)
  next
    case (2 j)
    then have j: "j < n" by (simp add: unused)
    then show ?case using row [of "(a, int j)", unfolded mine]
      by (cases "map_of (rev (health_rows d f start seconds)) (a, int j)") (auto simp: unused)
  qed
qed

lemma health_window_holds_now:
  assumes "new_health_window wm bm = Inr w" and "0 \<le> bm" and "0 \<le> now"
    and s: "s = health_bucket_seconds w" and start: "start = health_start w now" and n: "n = nat (hw_buckets w)"
  shows "0 < s" and "s dvd start" and "0 < n" and "health_end w now = start + int n * s"
    and "health_lo start s (n - 1) \<le> now" and "now < health_lo start s n"
proof -
  note w = new_health_windowD [OF assms(1,2)]
  show pos: "0 < s" using w s by (simp add: health_bucket_seconds_def)
  show "0 < n" using w n by simp
  have n_int: "int n = hw_buckets w" using w n by simp
  show stop: "health_end w now = start + int n * s" using start s n_int by (simp add: health_start_def)
  define q where "q = (now div ns_per_second) div s"
  have "now sdiv ns_per_second = now div ns_per_second" using assms(3) by (simp add: sdiv_nonneg)
  then have e: "health_end w now = (q + 1) * s" by (simp add: health_end_def Let_def s q_def)
  then have "start = (q + 1 - int n) * s" using stop by (simp add: algebra_simps)
  then show "s dvd start" by simp
  have q: "q * s \<le> now div ns_per_second" "now div ns_per_second < (q + 1) * s"
    using div_range [OF pos, of "now div ns_per_second" q] by (simp_all add: q_def)
  have "int (n - 1) = int n - 1" using \<open>0 < n\<close> by simp
  then have "start + int (n - 1) * s = q * s" using e stop by (simp add: algebra_simps)
  then show "health_lo start s (n - 1) \<le> now" using q(1) le_div_iff [of ns_per_second "q * s" now]
    by (simp add: health_lo_def)
  have "\<not> (q + 1) * s \<le> now div ns_per_second" using q(2) by simp
  then show "now < health_lo start s n"
    using e stop le_div_iff [of ns_per_second "(q + 1) * s" now] by (simp add: health_lo_def)
qed

lemma load_health_strips:
  assumes "new_health_window wm bm = Inr w" and "0 \<le> bm" and "0 \<le> now"
    and range: "cl_min cl \<le> health_start w now * ns_per_second" "health_end w now * ns_per_second \<le> cl_max cl"
    and check: "check_filter d (health_filter cl w now source_ids account_ids) = Inr u"
    and es: "es = selected d (health_filter cl w now source_ids account_ids)"
    and s: "s = health_bucket_seconds w" and start: "start = health_start w now" and n: "n = nat (hw_buckets w)"
  shows "\<exists>h. load_health cl d w now source_ids account_ids = Inr h \<and>
    he_start h = health_lo start s 0 \<and>
    sorted_wrt (<) (map fst (he_accounts h)) \<and>
    set (map fst (he_accounts h)) = set account_ids \<union> e_account ` set es \<and>
    (\<forall>(a, bs) \<in> set (he_accounts h). bs = health_strip (filter (\<lambda>e. e_account e = a) es) start s n)"
proof -
  note w = health_window_holds_now [OF assms(1-3) s start n]
  let ?f = "health_filter cl w now source_ids account_ids"
  let ?unused = "map (\<lambda>j. \<lparr>hb_start = health_lo start s j, hb_requests = 0, hb_failures = 0\<rparr>) [0..<n]"
  let ?strips = "collect_map (map (\<lambda>i. (i, ?unused)) account_ids)"
  have inside: "from_second cl (start + int j * s) = Inr (health_lo start s j)" if "j \<le> n" for j
  proof -
    have "int j * s \<le> int n * s" using that w(1) by (intro mult_right_mono) simp_all
    then have "start \<le> start + int j * s" "start + int j * s \<le> health_end w now"
      using w(1,4) mult_nonneg_nonneg [of "int j" s] by simp_all
    then show ?thesis using range by (simp add: from_second_def Let_def health_lo_def start)
  qed
  have lo: "from_second cl start = Inr (start * ns_per_second)"
    and hi: "from_second cl (health_end w now) = Inr (health_end w now * ns_per_second)"
    using inside [of 0] inside [of n] by (simp_all add: health_lo_def w(4))
  have unused: "traverse (\<lambda>i. map_sum id (\<lambda>t. \<lparr>hb_start = t, hb_requests = 0, hb_failures = 0\<rparr>)
      (from_second cl (start + int i * s))) [0..<n] = Inr ?unused"
    using inside by (intro traverse_total) simp
  have f: "(window now (Some (start * ns_per_second)) (Some (health_end w now * ns_per_second)) (cl_utc cl))
       \<lparr>af_sources := source_ids, af_accounts := account_ids\<rparr> = ?f"
    by (simp add: health_filter_def start)
  have strip: "map_of ?strips a = (if a \<in> set account_ids then Some ?unused else None)" for a
  proof -
    have "map_of (rev (map (\<lambda>i. (i, ?unused)) account_ids)) a = (if a \<in> set account_ids then Some ?unused else None)"
      unfolding rev_map map_of_map_restrict by (simp add: restrict_map_def)
    then show ?thesis by (simp only: map_of_collect_map)
  qed
  then have base: "unwrap_or ?unused (map_of ?strips a) = ?unused" for a by simp
  have keys: "set (map fst ?strips) = set account_ids"
    using strip by (metis (no_types, lifting) ext dom_map_of_conv_image_fst set_map domIff option.distinct(1) set_eqI)
  have within: "start * ns_per_second \<le> occurred e" "occurred e < health_end w now * ns_per_second"
    if "e \<in> set (selected d ?f)" for e
    using that by (simp_all add: selected_def push_where_def health_filter_def window_def start)
  let ?rows = "health_rows d ?f start s"
  have accounts: "(\<lambda>((a, _), _). a) ` set ?rows = e_account ` set es"
    by (force simp: health_rows_def Let_def es)
  have "\<exists>strips'. fill_health ?unused ?rows ?strips = Inr strips' \<and> distinct (map fst strips') \<and>
    set (map fst strips') = set (map fst ?strips) \<union> (\<lambda>((a, _), _). a) ` set ?rows \<and>
    (\<forall>(a, bs) \<in> set strips'. bs = strip_of ?unused ?strips ?rows a)"
  proof (rule fill_health_strips)
    fix a b x
    assume "((a, b), x) \<in> set ?rows"
    then obtain e where e: "e \<in> set (selected d ?f)" "b = health_bucket_of start s e"
      by (auto simp: health_rows_def Let_def)
    have "start \<le> occurred e div ns_per_second" using within(1) [OF e(1)] by (simp add: le_div_iff)
    moreover have "occurred e div ns_per_second < start + int n * s"
      using within(2) [OF e(1)] le_div_iff [of ns_per_second "start + int n * s" "occurred e"] w(4) by simp
    ultimately have "0 \<le> b" "b < int n"
      using w(1) le_div_iff [OF w(1), of 0 "occurred e div ns_per_second - start"]
        le_div_iff [OF w(1), of "int n" "occurred e div ns_per_second - start"]
      by (simp_all add: e(2) health_bucket_of_def sdiv_nonneg)
    then show "0 \<le> b \<and> b < int (length ?unused)" by simp
  qed (simp_all only: base distinct_collect_map)
  then obtain strips' where st: "fill_health ?unused ?rows ?strips = Inr strips'" "distinct (map fst strips')"
    "set (map fst strips') = set account_ids \<union> e_account ` set es"
    "\<forall>(a, bs) \<in> set strips'. bs = strip_of ?unused ?strips ?rows a"
    unfolding keys accounts by blast
  let ?h = "\<lparr>he_bucket_minutes = hw_bucket_minutes w, he_start = start * ns_per_second,
     he_accounts = sort_key fst strips'\<rparr>"
  have "load_health cl d w now source_ids account_ids = Inr ?h"
    unfolding load_health_def Let_def s [symmetric] start [symmetric] n [symmetric] lo hi sum.case f check unused st(1)
    by simp
  moreover have "sorted_wrt (<) (map fst (sort_key fst strips'))"
    unfolding strict_sorted_iff using st(2) by (simp add: distinct_map)
  moreover have "bs = health_strip (filter (\<lambda>e. e_account e = a) es) start s n" if "(a, bs) \<in> set strips'" for a bs
    using st(4) that strip_of_rows [OF refl base w(1) within(1)] by (auto simp: es)
  ultimately show ?thesis using st(3) by (auto simp: health_lo_def)
qed

section \<open>Lemmas on sessions\<close>

lemma leader_Some:
  assumes "leader counts = Some k"
  shows "\<exists>n. (k, n) \<in> set counts \<and> (\<forall>(k', n') \<in> set counts. n' \<le> n)"
proof -
  obtain n rest where r: "sort_key (\<lambda>(k, n). (- n, k)) counts = (k, n) # rest"
    using assms by (auto simp: leader_def split: list.splits)
  have "set counts = set (sort_key (\<lambda>(k, n). (- n, k)) counts)" by simp
  also have "\<dots> = set ((k, n) # rest)" by (simp only: r)
  finally have set: "set counts = insert (k, n) (set rest)" by simp
  have "sorted (map (\<lambda>(k, n). (- n, k)) ((k, n) # rest))" using sorted_sort_key r by metis
  then have "n' \<le> n" if "(k', n') \<in> set rest" for k' n' using that by fastforce
  then show ?thesis using set by auto
qed

lemma fold_aggregate:
  "ag_metrics (fold (\<lambda>(_, a) t. aggregate_add t a) rows x) = ag_metrics x + sum_list (map (\<lambda>(_, a). ag_metrics a) rows)"
  by (induction rows arbitrary: x) (auto simp: aggregate_add_def add.assoc)

text \<open>The events of one session.\<close>

definition of_session :: "db \<Rightarrow> analytics_filter \<Rightarrow> string \<Rightarrow> event_row list" where
  "of_session d f s = filter (\<lambda>e. u_session_id (e_usage e) = Some s) (selected d f)"

abbreviation session_rows :: "db \<Rightarrow> analytics_filter \<Rightarrow> (session_key \<times> aggregate) list" where
  "session_rows d f \<equiv> aggregate_by d f session_columns has_session"

lemma session_part:
  "sum_list (map (\<lambda>(_, a). ag_metrics a) (filter (\<lambda>((s', k), _). s' = s \<and> p k) (session_rows d f))) =
     measured d (filter (\<lambda>e. p (snd (session_columns e))) (of_session d f s))"
proof -
  have "filter (\<lambda>((s', k), _). s' = s \<and> p k) (session_rows d f) =
      filter (\<lambda>(k, a). fst k = s \<and> p (snd k)) (session_rows d f)"
    by (intro filter_cong refl) auto
  moreover have "filter (\<lambda>e. fst (session_columns e) = s \<and> p (snd (session_columns e))) (filter has_session (selected d f)) =
      filter (\<lambda>e. p (snd (session_columns e))) (of_session d f s)"
    by (auto simp: of_session_def session_columns_def has_session_def intro!: filter_cong)
  ultimately show ?thesis
    using aggregate_part [of "\<lambda>k. fst k = s \<and> p (snd k)" d f session_columns has_session] by simp
qed

lemma session_requests:
  assumes "\<And>r. r \<in> set (session_rows d f) \<Longrightarrow> column r = q (snd (fst r))"
  shows "sum_list (map (\<lambda>(_, a). um_requests (ag_metrics a))
      (filter (\<lambda>r. column r = Some k) (filter (\<lambda>((s', _), _). s' = s) (session_rows d f)))) =
    int (length (filter (\<lambda>e. q (snd (session_columns e)) = Some k) (of_session d f s)))"
proof -
  have sum: "sum_list (map (\<lambda>(_, a). um_requests (ag_metrics a)) rows) =
      um_requests (sum_list (map (\<lambda>(_, a). ag_metrics a) rows))" for rows :: "(session_key \<times> aggregate) list"
    by (induction rows) (auto simp: um_plus um_zero)
  have "filter (\<lambda>r. column r = Some k) (filter (\<lambda>((s', _), _). s' = s) (session_rows d f)) =
      filter (\<lambda>((s', x), _). s' = s \<and> q x = Some k) (session_rows d f)"
    unfolding filter_filter using assms by (intro filter_cong refl) (fastforce split: prod.splits)
  then show ?thesis unfolding sum using session_part [of s "\<lambda>x. q x = Some k" d f] by (simp add: measured_requests)
qed

lemma carried_session:
  assumes column: "\<And>r. r \<in> set (session_rows d f) \<Longrightarrow> column r = q (snd (fst r))"
    and counts: "counts = carried column (\<lambda>(_, a). um_requests (ag_metrics a))
      (filter (\<lambda>((s', _), _). s' = s) (session_rows d f))"
  shows "(k, n) \<in> set counts \<Longrightarrow> n = int (length (filter (\<lambda>e. q (snd (session_columns e)) = Some k) (of_session d f s)))"
    and "e \<in> set (of_session d f s) \<Longrightarrow> q (snd (session_columns e)) = Some k \<Longrightarrow> \<exists>n. (k, n) \<in> set counts"
proof -
  show "n = int (length (filter (\<lambda>e. q (snd (session_columns e)) = Some k) (of_session d f s)))" if "(k, n) \<in> set counts"
    using that session_requests [of d f column q k s, OF column] unfolding counts carried_def by auto
  assume e: "e \<in> set (of_session d f s)" "q (snd (session_columns e)) = Some k"
  then have sel: "e \<in> set (filter has_session (selected d f))" "fst (session_columns e) = s"
    by (auto simp: of_session_def has_session_def session_columns_def)
  then have "session_columns e \<in> set (map fst (session_rows d f))" unfolding keys_aggregate by simp
  then obtain a where a: "(session_columns e, a) \<in> set (session_rows d f)" by auto
  then have "column (session_columns e, a) = Some k" using column [OF a] e(2) by simp
  then have "k \<in> set (List.map_filter column (filter (\<lambda>((s', _), _). s' = s) (session_rows d f)))"
  proof -
    obtain x where "session_columns e = (s, x)" using sel(2) by (metis prod.collapse)
    then have "((s, x), a) \<in> set (filter (\<lambda>((s', _), _). s' = s) (session_rows d f))" "column ((s, x), a) = Some k"
      using a \<open>column (session_columns e, a) = Some k\<close> by simp_all
    then show ?thesis unfolding set_map_filter by blast
  qed
  then show "\<exists>n. (k, n) \<in> set counts" unfolding counts carried_def by auto
qed

definition of_account :: "event_row list \<Rightarrow> id \<Rightarrow> nat" where
  "of_account es i = length (filter (\<lambda>e. e_account e = i) es)"

lemma tally_account:
  assumes "ch_account (tally (session_rows d f) s) = Some i"
  shows "of_account (of_session d f s) j \<le> of_account (of_session d f s) i"
proof (cases "\<exists>e\<in>set (of_session d f s). e_account e = j")
  case False
  then have "of_account (of_session d f s) j = 0" by (auto simp: of_account_def filter_empty_conv)
  then show ?thesis by simp
next
  case True
  define column :: "session_key \<times> aggregate \<Rightarrow> id option" where "column = (\<lambda>((_, a, _), _). Some a)"
  define counts where "counts = carried column (\<lambda>(_, a). um_requests (ag_metrics a))
      (filter (\<lambda>((s', _), _). s' = s) (session_rows d f))"
  have column: "column r = Some (fst (snd (fst r)))" for r by (auto simp: column_def split: prod.splits)
  have "leader counts = Some i" using assms by (simp add: tally_def Let_def counts_def column_def)
  from leader_Some [OF this] obtain n where n: "(i, n) \<in> set counts" "\<forall>(k, m) \<in> set counts. m \<le> n" by blast
  note c = carried_session [of d f column "\<lambda>x. Some (fst x)", OF column counts_def]
  have acc: "fst (snd (session_columns e)) = e_account e" for e by (simp add: session_columns_def)
  obtain e where "e \<in> set (of_session d f s)" "Some (fst (snd (session_columns e))) = Some j"
    using True by (auto simp: acc)
  from c(2) [OF this] obtain m where m: "(j, m) \<in> set counts" by blast
  then have "m \<le> n" using n(2) by auto
  then show ?thesis using c(1) [OF m] c(1) [OF n(1)] by (simp add: acc of_account_def)
qed

lemma tally_metrics:
  assumes "s \<in> set (map (\<lambda>((s, _), _). s) (session_rows d f))"
  shows "ag_metrics (ch_aggregate (tally (session_rows d f) s)) = measured d (of_session d f s)"
proof -
  let ?mine = "filter (\<lambda>((s', _), _). s' = s) (session_rows d f)"
  have "?mine \<noteq> []" using assms by (force simp: filter_empty_conv)
  then have "ag_metrics (ch_aggregate (tally (session_rows d f) s)) = sum_list (map (\<lambda>(_, a). ag_metrics a) ?mine)"
    by (cases ?mine) (auto simp: tally_def Let_def fold_aggregate)
  then show ?thesis using session_part [of s "\<lambda>_. True" d f] by simp
qed

lemma traverse_nth: "traverse f xs = Inr ys \<Longrightarrow> i < length ys \<Longrightarrow> f (xs ! i) = Inr (ys ! i)"
proof (induction xs arbitrary: ys i)
  case (Cons x xs)
  then show ?case by (cases i) (auto split: sum.splits)
qed simp

lemma map_eq_nth:
  assumes "length us = length ts" and same: "\<And>k. k < length us \<Longrightarrow> g (us ! k) = h (ts ! k)"
  shows "map g us = map h ts"
  using assms(1) by (intro nth_equalityI) (simp_all add: same)

lemma distinct_map_sort_key: "distinct (map f xs) \<Longrightarrow> distinct (map f (sort_key k xs))"
  by (metis mset_eq_imp_distinct_iff mset_map mset_sort)

lemma session_of_Inr:
  assumes "session_of summaries c = Inr x"
  shows "su_session x = ch_session c \<and> su_metrics x = ag_metrics (ch_aggregate c) \<and>
    ch_account c = Some (a_id (fst (su_account x)))"
proof (cases "ch_account c")
  case None
  then show ?thesis using assms by (simp add: session_of_def)
next
  case (Some i)
  then obtain account where "find (\<lambda>(a, _). a_id a = i) (rev summaries) = Some account"
    using assms by (auto simp: session_of_def split: option.splits)
  then show ?thesis
    using assms Some find_Some_set [of "\<lambda>(a, _). a_id a = i" "rev summaries" account]
    by (auto simp: session_of_def split: option.splits)
qed

lemma list_sessions_lead:
  assumes "list_sessions d f by limit = Inr ss"
  shows "length ss \<le> limit \<and> distinct (map su_session ss) \<and>
    sorted (map (\<lambda>x. rank_order by (su_metrics x) (su_session x)) ss) \<and>
    (\<forall>x\<in>set ss. of_session d f (su_session x) \<noteq> [] \<and>
       su_metrics x = measured d (of_session d f (su_session x)) \<and>
       (\<forall>i. of_account (of_session d f (su_session x)) i \<le>
          of_account (of_session d f (su_session x)) (a_id (fst (su_account x)))))"
proof -
  let ?rows = "session_rows d f"
  let ?ids = "remdups (map (\<lambda>((s, _), _). s) ?rows)"
  let ?all = "sort_key (\<lambda>c. rank_order by (ag_metrics (ch_aggregate c)) (ch_session c)) (map (tally ?rows) ?ids)"
  let ?top = "take limit ?all"
  let ?summaries = "account_summaries d (collect_set (List.map_filter ch_account ?top))"
  have "traverse (session_of ?summaries) ?top = Inr ss"
    using assms by (auto simp: list_sessions_def Let_def split: sum.splits)
  note traversed = this
  then have len: "length ss = length ?top" by (rule traverse_length)
  have ch: "ch_session (tally ?rows s) = s" for s by (simp add: tally_def Let_def)
  have one: "su_session x = ch_session c \<and> su_metrics x = ag_metrics (ch_aggregate c) \<and>
      ch_account c = Some (a_id (fst (su_account x)))" if "session_of ?summaries c = Inr x" for c x
    using session_of_Inr [OF that] .
  have nth: "session_of ?summaries (?top ! i) = Inr (ss ! i)" if "i < length ss" for i
    by (rule traverse_nth [OF traversed that])
  have sessions: "map su_session ss = map ch_session ?top"
    by (rule map_eq_nth [OF len]) (rule one [OF nth, THEN conjunct1])
  have order: "map (\<lambda>x. rank_order by (su_metrics x) (su_session x)) ss =
      map (\<lambda>c. rank_order by (ag_metrics (ch_aggregate c)) (ch_session c)) ?top"
    by (rule map_eq_nth [OF len]) (simp only: one [OF nth])
  have "distinct (map ch_session (map (tally ?rows) ?ids))" by (simp add: ch comp_def)
  then have "distinct (map ch_session ?all)" by (rule distinct_map_sort_key)
  then have "distinct (map su_session ss)" unfolding sessions take_map [symmetric] by (rule distinct_take)
  moreover have "sorted (map (\<lambda>x. rank_order by (su_metrics x) (su_session x)) ss)"
    unfolding order take_map [symmetric] by (rule sorted_wrt_take) simp
  moreover have "of_session d f (su_session x) \<noteq> [] \<and> su_metrics x = measured d (of_session d f (su_session x)) \<and>
       (\<forall>i. of_account (of_session d f (su_session x)) i \<le>
          of_account (of_session d f (su_session x)) (a_id (fst (su_account x))))" if x: "x \<in> set ss" for x
  proof -
    obtain i where i: "i < length ss" "x = ss ! i" using x by (metis in_set_conv_nth)
    have "?top ! i \<in> set ?top" by (rule nth_mem) (simp only: len [symmetric] i(1))
    then have "?top ! i \<in> set ?all" by (rule in_set_takeD)
    then have "?top ! i \<in> tally ?rows ` set ?ids" by (simp only: set_sort set_map)
    then obtain s where s: "s \<in> set (map (\<lambda>((s, _), _). s) ?rows)" "?top ! i = tally ?rows s"
      unfolding set_remdups by blast
    note x = one [OF nth [OF i(1)], unfolded s(2) ch i(2) [symmetric]]
    have "\<exists>e\<in>set (selected d f). has_session e \<and> fst (session_columns e) = s"
      using s(1) in_aggregate(2) [of _ _ d f session_columns has_session] by fastforce
    then have "of_session d f s \<noteq> []"
      by (auto simp: of_session_def has_session_def session_columns_def filter_empty_conv)
    then show ?thesis using x tally_metrics [OF s(1)] tally_account by metis
  qed
  ultimately show ?thesis using len by simp
qed

section \<open>Lemmas on summaries\<close>

definition peak_of :: "int \<times> aggregate \<Rightarrow> peak_day" where
  "peak_of row = \<lparr>pk_day = fst row, pk_list_cost = um_list_cost_usd (ag_metrics (snd row)),
     pk_total_tokens = um_total_tokens (ag_metrics (snd row))\<rparr>"

lemma fold_better:
  "(case fold (\<lambda>x. better score (mk x)) xs best of
      None \<Rightarrow> best = None \<and> xs = []
    | Some p \<Rightarrow> (best = Some p \<or> p \<in> mk ` set xs) \<and> (\<forall>x\<in>set xs. score (mk x) \<le> score p) \<and>
        (\<forall>b. best = Some b \<longrightarrow> score b \<le> score p))"
proof (induction xs arbitrary: best)
  case Nil
  then show ?case by (simp split: option.splits)
next
  case (Cons x xs)
  have "better score (mk x) best = Some (mk x) \<or> (\<exists>b. best = Some b \<and> better score (mk x) best = Some b)"
    "\<exists>b. better score (mk x) best = Some b \<and> score (mk x) \<le> score b \<and> (\<forall>b'. best = Some b' \<longrightarrow> score b' \<le> score b)"
    by (auto simp: better_def not_less intro: order.strict_implies_order split: option.splits)
  then show ?case using Cons.IH [of "better score (mk x) best"]
    by (auto split: option.splits intro: order_trans)
qed

lemma fold_add_day:
  "df_metrics (fold add_day rows st) = df_metrics st + sum_list (map (\<lambda>(_, a). ag_metrics a) rows)"
  "df_by_cost (fold add_day rows st) = fold (\<lambda>x. better pk_list_cost (peak_of x)) rows (df_by_cost st)"
  "df_by_tokens (fold add_day rows st) = fold (\<lambda>x. better pk_total_tokens (peak_of x)) rows (df_by_tokens st)"
  by (induction rows arbitrary: st)
    (auto simp: add_day_def Let_def peak_of_def add.assoc)

lemma parsed_days:
  "traverse (parse_day cl) groups = Inr parsed \<Longrightarrow>
     length parsed = length groups \<and>
     (\<forall>i < length groups. cl_date cl (fst (groups ! i)) = Some (fst (parsed ! i)) \<and> snd (parsed ! i) = snd (groups ! i))"
proof (induction groups arbitrary: parsed)
  case (Cons g groups)
  then show ?case by (auto simp: parse_day_def ok_or_def nth_Cons' split: sum.splits option.splits)
qed simp

text \<open>The measures of the local day an event falls on.\<close>

definition day_measures :: "calendar \<Rightarrow> db \<Rightarrow> analytics_filter \<Rightarrow> event_row \<Rightarrow> usage_metrics" where
  "day_measures cl d f e =
     (let key = bucket_key cl Day (shift_of cl f (load_recorded d))
      in measured d (filter (\<lambda>x. key x = key e) (selected d f)))"

definition is_peak ::
  "calendar \<Rightarrow> db \<Rightarrow> analytics_filter \<Rightarrow> (usage_metrics \<Rightarrow> 'a::linorder) \<Rightarrow> (peak_day \<Rightarrow> 'a) \<Rightarrow> peak_day option \<Rightarrow> bool" where
  "is_peak cl d f by score peak \<longleftrightarrow>
     (case peak of
        None \<Rightarrow> selected d f = []
      | Some p \<Rightarrow>
          (\<exists>e\<in>set (selected d f).
             cl_date cl (bucket_key cl Day (shift_of cl f (load_recorded d)) e) = Some (pk_day p) \<and>
             pk_list_cost p = um_list_cost_usd (day_measures cl d f e) \<and>
             pk_total_tokens p = um_total_tokens (day_measures cl d f e)) \<and>
          (\<forall>e\<in>set (selected d f). by (day_measures cl d f e) \<le> score p))"

lemma is_peak_fold:
  fixes score :: "peak_day \<Rightarrow> 'a::linorder"
  assumes parsed: "traverse (parse_day cl) (aggregate_by d f (bucket_key cl Day (shift_of cl f (load_recorded d))) (\<lambda>_. True)) = Inr parsed"
    and by_score: "\<And>row. score (peak_of row) = by (ag_metrics (snd row))"
    and rows: "set rows = set parsed"
  shows "is_peak cl d f by score (fold (\<lambda>x. better score (peak_of x)) rows None)"
proof -
  let ?key = "bucket_key cl Day (shift_of cl f (load_recorded d))"
  let ?groups = "aggregate_by d f ?key (\<lambda>_. True)"
  have measures: "ag_metrics a = day_measures cl d f e" if "(?key e, a) \<in> set ?groups" for e a
    using in_aggregate(1) [OF that] by (simp add: summed_def day_measures_def Let_def)
  have there: "\<exists>e\<in>set (selected d f). cl_date cl (?key e) = Some (fst row) \<and> ag_metrics (snd row) = day_measures cl d f e"
    if "row \<in> set parsed" for row
  proof -
    have "\<exists>i < length parsed. parsed ! i = row" using that by (simp only: in_set_conv_nth)
    then obtain i where "i < length parsed" "row = parsed ! i" by blast
    then have i: "i < length ?groups" "row = parsed ! i" using parsed_days [OF parsed] by simp_all
    obtain k a where g: "?groups ! i = (k, a)" by (rule prod.exhaust)
    have mem: "(k, a) \<in> set ?groups" unfolding g [symmetric] by (rule nth_mem [OF i(1)])
    from in_aggregate(2) [OF mem] obtain e where e: "e \<in> set (selected d f)" "?key e = k" by blast
    have "cl_date cl (fst (?groups ! i)) = Some (fst (parsed ! i)) \<and> snd (parsed ! i) = snd (?groups ! i)"
      using parsed_days [OF parsed] i(1) by blast
    then have "cl_date cl (?key e) = Some (fst row)" "snd row = a"
      unfolding g i(2) e(2) by simp_all
    then show ?thesis using e measures [of e a] mem by blast
  qed
  have covered: "\<exists>row\<in>set parsed. ag_metrics (snd row) = day_measures cl d f e" if "e \<in> set (selected d f)" for e
  proof -
    have "?key e \<in> fst ` set ?groups" using that by (simp only: keys_of_groups) blast
    then obtain a where a: "(?key e, a) \<in> set ?groups" by force
    then obtain i where i: "i < length ?groups" "?groups ! i = (?key e, a)" unfolding in_set_conv_nth by blast
    moreover have "snd (parsed ! i) = snd (?groups ! i)" "i < length parsed"
      using parsed_days [OF parsed] i(1) by simp_all
    ultimately have "snd (parsed ! i) = a" "parsed ! i \<in> set parsed" by simp_all
    then show ?thesis using measures [OF a] by blast
  qed
  show ?thesis
  proof (cases "fold (\<lambda>x. better score (peak_of x)) rows None")
    case None
    then have "rows = []" using fold_better [where score = score and mk = peak_of and xs = rows and best = None] by simp
    then have "selected d f = []" using rows covered by (cases "selected d f") auto
    then show ?thesis using None by (simp add: is_peak_def)
  next
    case (Some p)
    then obtain row where row: "row \<in> set parsed" "p = peak_of row" "\<forall>x\<in>set parsed. score (peak_of x) \<le> score p"
      using fold_better [where score = score and mk = peak_of and xs = rows and best = None] rows by auto
    obtain e where "e \<in> set (selected d f)" "cl_date cl (?key e) = Some (pk_day p)"
      "pk_list_cost p = um_list_cost_usd (day_measures cl d f e)"
      "pk_total_tokens p = um_total_tokens (day_measures cl d f e)"
      using there [OF row(1)] by (auto simp: row(2) peak_of_def)
    moreover have "by (day_measures cl d f e) \<le> score p" if "e \<in> set (selected d f)" for e
      using covered [OF that] row(3) by_score by metis
    ultimately show ?thesis using Some by (auto simp: is_peak_def)
  qed
qed

lemma load_summary_figures:
  assumes "load_summary cl d f = Inr s"
  shows "sm_metrics s = measured d (selected d f) \<and>
    sm_active_days s = card (bucket_key cl Day (shift_of cl f (load_recorded d)) ` set (selected d f)) \<and>
    is_peak cl d f um_list_cost_usd pk_list_cost (sm_peak_by_cost s) \<and>
    is_peak cl d f um_total_tokens pk_total_tokens (sm_peak_by_tokens s)"
proof -
  let ?groups = "aggregate_by d f (bucket_key cl Day (shift_of cl f (load_recorded d))) (\<lambda>_. True)"
  obtain parsed where parsed: "traverse (parse_day cl) ?groups = Inr parsed"
    using assms by (auto simp: load_summary_def Let_def split: sum.splits)
  let ?st = "fold add_day (sort_key fst parsed) no_days"
  have fields: "sm_metrics s = df_metrics ?st" "sm_peak_by_cost s = df_by_cost ?st"
    "sm_peak_by_tokens s = df_by_tokens ?st"
    "sm_active_days s = ov_active_days (load_overall cl d f (shift_of cl f (load_recorded d)))"
    using assms parsed by (auto simp: load_summary_def Let_def split: sum.splits)
  have "map (\<lambda>(_, a). ag_metrics a) parsed = map (\<lambda>(_, a). ag_metrics a) ?groups"
    using parsed_days [OF parsed] by (intro map_eq_nth) (auto simp: case_prod_unfold)
  then have "df_metrics ?st = measured d (selected d f)"
    using aggregate_total [of d f "bucket_key cl Day (shift_of cl f (load_recorded d))" "\<lambda>_. True"]
    by (simp add: fold_add_day sum_sort_key no_days_def)
  moreover have "is_peak cl d f um_list_cost_usd pk_list_cost (df_by_cost ?st)"
    using is_peak_fold [OF parsed, of pk_list_cost um_list_cost_usd "sort_key fst parsed"]
    by (simp add: fold_add_day no_days_def peak_of_def)
  moreover have "is_peak cl d f um_total_tokens pk_total_tokens (df_by_tokens ?st)"
    using is_peak_fold [OF parsed, of pk_total_tokens um_total_tokens "sort_key fst parsed"]
    by (simp add: fold_add_day no_days_def peak_of_def)
  moreover have "ov_active_days (load_overall cl d f (shift_of cl f (load_recorded d))) =
      card (bucket_key cl Day (shift_of cl f (load_recorded d)) ` set (selected d f))"
    by (simp add: load_overall_def Let_def count_distinct_def length_remdups_card_conv)
  ultimately show ?thesis unfolding fields by blast
qed

section \<open>Properties\<close>

text \<open>
  C16: A summary's totals measure every event of its window, its active days are the local days
  that have one, and its peaks are days with an event on which no other day of the window
  measured more, by list cost and by tokens; there is none only when nothing was selected.
\<close>

theorem summary_peaks_lead:
  assumes "load_summary cl d f = Inr s"
  shows "sm_metrics s = measured d (selected d f) \<and>
    sm_active_days s = card (bucket_key cl Day (shift_of cl f (load_recorded d)) ` set (selected d f)) \<and>
    is_peak cl d f um_list_cost_usd pk_list_cost (sm_peak_by_cost s) \<and>
    is_peak cl d f um_total_tokens pk_total_tokens (sm_peak_by_tokens s)"
  by (rule load_summary_figures [OF assms])

text \<open>
  C17: A sample keeps some request of every model that has one and no more than an even share of
  the limit, rounded up: all of a model's requests where they fit the share. So the sample is
  ordered by time and stays below the limit plus the number of models, but it may exceed the
  limit itself.
\<close>

theorem samples_shared_evenly:
  assumes "check_filter d f = Inr u" and "0 < limit"
    and "es = filter timed (selected d f)" and "k = count_distinct model_of es"
    and "quota = (limit + k - 1) div k"
  shows "\<exists>r. load_samples d f limit = Inr r \<and> rs_requests r = length es \<and>
    sorted (map rq_occurred_at (rs_samples r)) \<and> length (rs_samples r) < limit + max 1 k \<and>
    (\<forall>m \<in> model_of ` set es.
       let n = length (filter (\<lambda>e. model_of e = m) es);
           kept = length (filter (\<lambda>x. rq_model x = m) (rs_samples r))
       in 0 < kept \<and> kept \<le> quota \<and> (n \<le> quota \<longrightarrow> kept = n))"
proof -
  obtain r where r: "load_samples d f limit = Inr r" "rs_requests r = length es"
    "sorted (map rq_occurred_at (rs_samples r))" "length (rs_samples r) < limit + max 1 k"
    "\<forall>m \<in> model_of ` set es. length (filter (\<lambda>x. rq_model x = m) (rs_samples r)) =
       every quota (length (filter (\<lambda>e. model_of e = m) es))"
    using load_samples_shared [OF assms] by blast
  have q: "0 < quota" if "m \<in> model_of ` set es" for m
  proof -
    have "0 < k" using that assms(4) by (auto simp: count_distinct_def)
    then show ?thesis using assms(2) unfolding assms(5) by (simp add: div_greater_zero_iff)
  qed
  have "let n = length (filter (\<lambda>e. model_of e = m) es);
        kept = length (filter (\<lambda>x. rq_model x = m) (rs_samples r))
      in 0 < kept \<and> kept \<le> quota \<and> (n \<le> quota \<longrightarrow> kept = n)" if m: "m \<in> model_of ` set es" for m
  proof -
    let ?n = "length (filter (\<lambda>e. model_of e = m) es)"
    have "0 < ?n" using m by (auto simp: filter_empty_conv)
    then have "0 < every quota ?n \<and> every quota ?n \<le> quota \<and> (?n \<le> quota \<longrightarrow> every quota ?n = ?n)"
      using every_bounds [OF q [OF m], of ?n] by blast
    moreover have "length (filter (\<lambda>x. rq_model x = m) (rs_samples r)) = every quota ?n" using r(5) m by blast
    ultimately show ?thesis unfolding Let_def by presburger
  qed
  then show ?thesis using r(1-4) by blast
qed

text \<open>
  C18: Every listed session has an event, measures exactly the events of that session, and names
  an account that no other account carried more of its requests than; the sessions are
  distinct, ordered by rank, and no more than the limit.
\<close>

theorem sessions_name_their_leader:
  assumes "list_sessions d f by limit = Inr ss"
  shows "length ss \<le> limit \<and> distinct (map su_session ss) \<and>
    sorted (map (\<lambda>x. rank_order by (su_metrics x) (su_session x)) ss) \<and>
    (\<forall>x\<in>set ss. of_session d f (su_session x) \<noteq> [] \<and>
       su_metrics x = measured d (of_session d f (su_session x)) \<and>
       (\<forall>i. of_account (of_session d f (su_session x)) i \<le>
          of_account (of_session d f (su_session x)) (a_id (fst (su_account x)))))"
  by (rule list_sessions_lead [OF assms])

text \<open>
  C15: The health of the accounts: the buckets are aligned to whole multiples of their length since
  the epoch and the last of them holds now, there are at most 288, every account that is named
  or has a request in the window is reported once, in order of its id, and its buckets count
  each of its requests and failures in the bucket of its instant.
\<close>

theorem health_counts_each_request_once:
  assumes "new_health_window wm bm = Inr w" and "0 \<le> bm" and "0 \<le> now"
    and "cl_min cl \<le> health_start w now * ns_per_second" and "health_end w now * ns_per_second \<le> cl_max cl"
    and "check_filter d (health_filter cl w now source_ids account_ids) = Inr u"
    and "es = selected d (health_filter cl w now source_ids account_ids)"
    and "s = health_bucket_seconds w" and "start = health_start w now" and "n = nat (hw_buckets w)"
  shows "s dvd start \<and> health_lo start s (n - 1) \<le> now \<and> now < health_lo start s n \<and> n \<le> 288 \<and>
    (\<exists>h. load_health cl d w now source_ids account_ids = Inr h \<and>
      he_start h = health_lo start s 0 \<and>
      sorted_wrt (<) (map fst (he_accounts h)) \<and>
      set (map fst (he_accounts h)) = set account_ids \<union> e_account ` set es \<and>
      (\<forall>(a, bs) \<in> set (he_accounts h). bs = health_strip (filter (\<lambda>e. e_account e = a) es) start s n))"
  using health_window_holds_now [OF assms(1-3,8-10)] load_health_strips [OF assms]
    new_health_windowD(4) [OF assms(1,2)] assms(10)
  by (simp add: MAX_HEALTH_BUCKETS_def)

section \<open>Witnesses\<close>

definition timed_event :: "id \<Rightarrow> string \<Rightarrow> event_row" where
  "timed_event i model =
     \<lparr>e_id = i, e_source = 9, e_account = 1, e_hash = ''h'',
      e_usage = sample_usage\<lparr>u_model := model, u_latency_ms := Some 5, u_session_id := Some ''s''\<rparr>,
      e_price = None, e_list_cost = None, e_billed_cost = None\<rparr>"

definition two_models_db :: db where
  "two_models_db = priced_db\<lparr>events := [timed_event 4 ''m'', timed_event 5 ''n'']\<rparr>"

lemma two_models_check: "check_filter two_models_db everything = Inr ()"
  by (simp add: check_filter_def everything_def window_def missing_def)

lemma two_models_selected: "selected two_models_db everything = [timed_event 4 ''m'', timed_event 5 ''n'']"
  by (simp add: selected_def push_where_def everything_def window_def push_in_def two_models_db_def
      timed_event_def sample_usage_def)

theorem samples_shared_evenly_witness:
  "\<exists>r. load_samples two_models_db everything 1 = Inr r \<and> 1 < length (rs_samples r)"
proof -
  let ?es = "[timed_event 4 ''m'', timed_event 5 ''n'']"
  have es: "?es = filter timed (selected two_models_db everything)"
    by (simp add: two_models_selected timed_def timed_event_def sample_usage_def)
  have models: "map model_of ?es = [''m'', ''n'']" by (simp add: model_of_def timed_event_def)
  then have k: "2 = count_distinct model_of ?es" unfolding count_distinct_def by simp
  obtain r where r: "load_samples two_models_db everything 1 = Inr r"
    "\<forall>m \<in> model_of ` set ?es. 0 < length (filter (\<lambda>x. rq_model x = m) (rs_samples r))"
    using samples_shared_evenly [OF two_models_check zero_less_one es k refl] by (auto simp: Let_def)
  have both: "model_of ` set ?es = {''m'', ''n''}" using arg_cong [OF models, of set] by simp
  have "0 < length (filter (\<lambda>x. rq_model x = ''m'') (rs_samples r))"
    "0 < length (filter (\<lambda>x. rq_model x = ''n'') (rs_samples r))"
    using r(2) unfolding both by simp_all
  then obtain x y where xy: "x \<in> set (rs_samples r)" "rq_model x = ''m''" "y \<in> set (rs_samples r)" "rq_model y = ''n''"
    by (auto simp: filter_empty_conv)
  have "1 < length (rs_samples r)"
  proof (cases "rs_samples r")
    case (Cons z zs)
    then show ?thesis using xy by (cases zs) auto
  qed (use xy in simp)
  then show ?thesis using r(1) by blast
qed

theorem sessions_name_their_leader_witness:
  "\<exists>ss. list_sessions two_models_db everything ByRequests 3 = Inr ss \<and> length ss \<le> 3 \<and>
     distinct (map su_session ss)"
proof -
  have "\<not> isl (list_sessions two_models_db everything ByRequests 3)" by code_simp
  then obtain ss where ss: "list_sessions two_models_db everything ByRequests 3 = Inr ss"
    by (cases "list_sessions two_models_db everything ByRequests 3") auto
  then show ?thesis using sessions_name_their_leader [OF ss] by blast
qed

theorem summary_peaks_lead_witness:
  "\<exists>s. load_summary number_calendar two_models_db everything = Inr s \<and> um_requests (sm_metrics s) = 2"
proof -
  have "\<not> isl (load_summary number_calendar two_models_db everything)" by code_simp
  then obtain s where s: "load_summary number_calendar two_models_db everything = Inr s"
    by (cases "load_summary number_calendar two_models_db everything") auto
  then show ?thesis using summary_peaks_lead [OF s] by (simp add: measured_requests two_models_selected)
qed

theorem health_counts_each_request_once_witness:
  "\<exists>h. load_health number_calendar two_models_db \<lparr>hw_bucket_minutes = 5, hw_buckets = 12\<rparr> 20 [] [] = Inr h \<and>
     1 \<in> set (map fst (he_accounts h))"
proof -
  let ?w = "\<lparr>hw_bucket_minutes = 5, hw_buckets = 12\<rparr>"
  let ?f = "health_filter number_calendar ?w 20 [] []"
  have w: "new_health_window 60 5 = Inr ?w"
    by (simp add: new_health_window_def MIN_WINDOW_MINUTES_def MAX_WINDOW_MINUTES_def MAX_HEALTH_BUCKETS_def)
  have e: "health_end ?w 20 = 300" "health_start ?w 20 = - 3300"
    by (simp_all add: health_start_def health_end_def health_bucket_seconds_def Let_def sdiv_nonneg)
  have f: "check_filter two_models_db ?f = Inr ()" by (simp add: check_filter_def health_filter_def window_def missing_def)
  have es: "timed_event 4 ''m'' \<in> set (selected two_models_db ?f)"
    by (simp add: selected_def push_where_def health_filter_def window_def push_in_def two_models_db_def
        timed_event_def sample_usage_def e)
  have "\<exists>h. load_health number_calendar two_models_db ?w 20 [] [] = Inr h \<and>
      set (map fst (he_accounts h)) = e_account ` set (selected two_models_db ?f)"
    using health_counts_each_request_once [OF w _ _ _ _ f refl refl refl refl]
    by (auto simp: e number_calendar_def)
  moreover have "e_account (timed_event 4 ''m'') = 1" by (simp add: timed_event_def)
  ultimately show ?thesis using es by (metis image_eqI)
qed

end
