(* ===== verification/Resp.thy ===== *)
theory Resp
  imports Prelude
begin

text \<open>
  The part of RESP2 that CLIProxyAPI serves (\<^verbatim>\<open>src/collector/resp.rs\<close>): the bytes of a
  command, and the reader of a reply. A connection is the bytes its peer sends until it closes;
  the reader answers what it read and the bytes that are left.
\<close>

section \<open>Replies\<close>

definition MAX_BULK_LENGTH :: nat where
  "MAX_BULK_LENGTH = 16 * 1024 * 1024"

definition MAX_ARRAY_LENGTH :: nat where
  "MAX_ARRAY_LENGTH = 1024 * 1024"

datatype reply =
    Simple string
  | Error string
  | Integer int
  | Bulk "string option"
  | Array "reply list option"

fun kind :: "reply \<Rightarrow> string" where
  "kind (Simple _) = ''a simple string''"
| "kind (Error _) = ''an error''"
| "kind (Integer _) = ''an integer''"
| "kind (Bulk None) = ''a null bulk string''"
| "kind (Bulk (Some _)) = ''a bulk string''"
| "kind (Array None) = ''a null array''"
| "kind (Array (Some _)) = ''an array''"

text \<open>What a protocol error says, one constructor for each text.\<close>

datatype protocol_error =
    EmptyLine
  | NotUtf8
  | NotInteger string
  | OutOfRange int
  | BulkNotTerminated
  | LineNotTerminated
  | UnknownType char

datatype resp_error = Io | Closed | Protocol protocol_error

type_synonym 'a reader = "string \<Rightarrow> resp_error + 'a \<times> string"

section \<open>Bytes\<close>

definition CRLF :: string where
  "CRLF = [CHR 0x0D, CHR 0x0A]"

abbreviation newline :: char where
  "newline \<equiv> CHR 0x0A"

text \<open>\<^verbatim>\<open>str::from_utf8\<close>: the well-formed byte sequences of Unicode.\<close>

definition continues :: "nat \<Rightarrow> nat \<Rightarrow> char \<Rightarrow> bool" where
  "continues lo hi c \<longleftrightarrow> lo \<le> of_char c \<and> of_char c \<le> hi"

fun is_utf8 :: "string \<Rightarrow> bool" where
  "is_utf8 [] = True"
| "is_utf8 (a # s) =
     (let n = of_char a :: nat
      in if n < 128 then is_utf8 s
         else if 194 \<le> n \<and> n \<le> 223 then
           (case s of b # t \<Rightarrow> continues 128 191 b \<and> is_utf8 t | [] \<Rightarrow> False)
         else if 224 \<le> n \<and> n \<le> 239 then
           (case s of b # c # t \<Rightarrow>
              continues (if n = 224 then 160 else 128) (if n = 237 then 159 else 191) b \<and>
              continues 128 191 c \<and> is_utf8 t
            | _ \<Rightarrow> False)
         else if 240 \<le> n \<and> n \<le> 244 then
           (case s of b # c # e # t \<Rightarrow>
              continues (if n = 240 then 144 else 128) (if n = 244 then 143 else 191) b \<and>
              continues 128 191 c \<and> continues 128 191 e \<and> is_utf8 t
            | _ \<Rightarrow> False)
         else False)"

section \<open>Sending\<close>

definition bulk_bytes :: "string \<Rightarrow> string" where
  "bulk_bytes argument = CHR ''$'' # show_nat (length argument) @ CRLF @ argument @ CRLF"

definition send :: "string list \<Rightarrow> string" where
  "send arguments =
     CHR ''*'' # show_nat (length arguments) @ CRLF @ concat (map bulk_bytes arguments)"

section \<open>Reading\<close>

text \<open>\<^verbatim>\<open>read_until\<close> takes the bytes through the next line feed, or all of them.\<close>

definition read_until :: "string \<Rightarrow> string \<times> string" where
  "read_until bytes =
     (case dropWhile (\<lambda>c. c \<noteq> newline) bytes of
        [] \<Rightarrow> (bytes, [])
      | c # rest \<Rightarrow> (takeWhile (\<lambda>c. c \<noteq> newline) bytes @ [c], rest))"

definition read_line :: "string reader" where
  "read_line bytes =
     (case read_until bytes of (line, rest) \<Rightarrow>
        if line = [] then Inl Closed
        else case strip_suffix CRLF line of
            None \<Rightarrow> Inl (Protocol LineNotTerminated)
          | Some text \<Rightarrow> Inr (text, rest))"

definition parse_integer :: "string \<Rightarrow> resp_error + int" where
  "parse_integer text = ok_or (Protocol (NotInteger text)) (parse_i64 text)"

definition parse_length :: "string \<Rightarrow> nat \<Rightarrow> resp_error + nat option" where
  "parse_length text limit =
     (case parse_integer text of
        Inl e \<Rightarrow> Inl e
      | Inr n \<Rightarrow>
          if n = -1 then Inr None
          else if 0 \<le> n \<and> nat n \<le> limit then Inr (Some (nat n))
          else Inl (Protocol (OutOfRange n)))"

text \<open>\<^verbatim>\<open>read_exact\<close> of a bulk string's body and its terminator.\<close>

definition read_body :: "nat \<Rightarrow> string reader" where
  "read_body n bytes =
     (if length bytes < n + 2 then Inl Io
      else if take 2 (drop n bytes) = CRLF then Inr (take n bytes, drop (n + 2) bytes)
      else Inl (Protocol BulkNotTerminated))"

datatype frame = ReplyFrame reply | ArrayOf nat

definition read_frame :: "frame reader" where
  "read_frame bytes =
     (case read_line bytes of
        Inl e \<Rightarrow> Inl e
      | Inr ([], rest) \<Rightarrow> Inl (Protocol EmptyLine)
      | Inr (c # text, rest) \<Rightarrow>
          if \<not> is_utf8 text then Inl (Protocol NotUtf8)
          else if c = CHR ''+'' then Inr (ReplyFrame (Simple text), rest)
          else if c = CHR ''-'' then Inr (ReplyFrame (Error text), rest)
          else if c = CHR '':'' then map_sum id (\<lambda>n. (ReplyFrame (Integer n), rest)) (parse_integer text)
          else if c = CHR ''$'' then
            (case parse_length text MAX_BULK_LENGTH of
               Inl e \<Rightarrow> Inl e
             | Inr None \<Rightarrow> Inr (ReplyFrame (Bulk None), rest)
             | Inr (Some n) \<Rightarrow> map_sum id (\<lambda>(body, rest). (ReplyFrame (Bulk (Some body)), rest)) (read_body n rest))
          else if c = CHR ''*'' then
            (case parse_length text MAX_ARRAY_LENGTH of
               Inl e \<Rightarrow> Inl e
             | Inr None \<Rightarrow> Inr (ReplyFrame (Array None), rest)
             | Inr (Some n) \<Rightarrow>
                 if n = 0 then Inr (ReplyFrame (Array (Some [])), rest) else Inr (ArrayOf n, rest))
          else Inl (Protocol (UnknownType c)))"

text \<open>
  The arrays that are open, the innermost first: what each has so far and how many it takes.
  A reply closes every array it completes.
\<close>

type_synonym stack = "(reply list \<times> nat) list"

fun settle :: "reply \<Rightarrow> stack \<Rightarrow> reply + stack" where
  "settle r [] = Inl r"
| "settle r ((items, n) # rest) =
     (if length (items @ [r]) < n then Inr ((items @ [r], n) # rest)
      else settle (Array (Some (items @ [r]))) rest)"

lemma read_until_length: "read_until bytes = (line, rest) \<Longrightarrow> line @ rest = bytes"
  by (auto simp: read_until_def split: list.splits) (metis takeWhile_dropWhile_id)

lemma read_line_shorter: "read_line bytes = Inr (text, rest) \<Longrightarrow> length rest < length bytes"
proof -
  obtain line rest' where u: "read_until bytes = (line, rest')" by fastforce
  assume "read_line bytes = Inr (text, rest)"
  then have "line \<noteq> []" "rest' = rest" using u by (auto simp: read_line_def split: if_splits option.splits)
  then show ?thesis using arg_cong [OF read_until_length [OF u], of length] by (cases line) auto
qed

lemma read_body_shorter: "read_body n bytes = Inr (body, rest) \<Longrightarrow> length rest \<le> length bytes"
  by (auto simp: read_body_def split: if_splits)

text \<open>A frame takes at least one byte, so the reader ends.\<close>

lemma read_frame_shorter: "read_frame bytes = Inr (frame, rest) \<Longrightarrow> length rest < length bytes"
proof -
  have map_sum_Inr: "map_sum id h x = Inr y \<Longrightarrow> \<exists>z. x = Inr z \<and> y = h z"
    for h :: "'c \<Rightarrow> 'd" and x :: "'e + 'c" and y by (cases x) auto
  assume r: "read_frame bytes = Inr (frame, rest)"
  then obtain c t rest' where line: "read_line bytes = Inr (c # t, rest')"
    by (auto simp: read_frame_def split: sum.splits list.splits)
  have "length rest \<le> length rest'"
    using r by (auto simp: read_frame_def line split: if_splits sum.splits option.splits
        dest!: map_sum_Inr dest: read_body_shorter)
  then show ?thesis using read_line_shorter [OF line] by simp
qed

function read_loop :: "stack \<Rightarrow> reply reader" where
  "read_loop unfinished bytes =
     (case read_frame bytes of
        Inl e \<Rightarrow> Inl e
      | Inr (ArrayOf n, rest) \<Rightarrow> read_loop (([], n) # unfinished) rest
      | Inr (ReplyFrame r, rest) \<Rightarrow>
          (case settle r unfinished of
             Inl reply \<Rightarrow> Inr (reply, rest)
           | Inr unfinished' \<Rightarrow> read_loop unfinished' rest))"
  by pat_completeness auto

termination
  by (relation "measure (\<lambda>(_, bytes). length bytes)") (auto dest: read_frame_shorter)

declare read_loop.simps [simp del]

definition read :: "reply reader" where
  "read bytes = read_loop [] bytes"

section \<open>What the peer sends\<close>

text \<open>
  The wire form of a reply, as RESP2 spells it, and the replies it can spell: a line holds no
  line feed, a length is below its limit, a number fits an i64.
\<close>

fun reply_bytes :: "reply \<Rightarrow> string" where
  "reply_bytes (Simple text) = CHR ''+'' # text @ CRLF"
| "reply_bytes (Error text) = CHR ''-'' # text @ CRLF"
| "reply_bytes (Integer n) = CHR '':'' # show_int n @ CRLF"
| "reply_bytes (Bulk None) = CHR ''$'' # ''-1'' @ CRLF"
| "reply_bytes (Bulk (Some body)) = bulk_bytes body"
| "reply_bytes (Array None) = CHR ''*'' # ''-1'' @ CRLF"
| "reply_bytes (Array (Some rs)) = CHR ''*'' # show_nat (length rs) @ CRLF @ concat (map reply_bytes rs)"

fun spellable :: "reply \<Rightarrow> bool" where
  "spellable (Simple text) = (is_utf8 text \<and> newline \<notin> set text)"
| "spellable (Error text) = (is_utf8 text \<and> newline \<notin> set text)"
| "spellable (Integer n) = in_i64 n"
| "spellable (Bulk None) = True"
| "spellable (Bulk (Some body)) = (length body \<le> MAX_BULK_LENGTH)"
| "spellable (Array None) = True"
| "spellable (Array (Some rs)) = (length rs \<le> MAX_ARRAY_LENGTH \<and> (\<forall>r\<in>set rs. spellable r))"

section \<open>Lemmas\<close>

lemma newline_CRLF: "CRLF = [CHR 0x0D, newline]"
  by (simp add: CRLF_def)

lemma read_line_CRLF:
  assumes "newline \<notin> set t"
  shows "read_line (t @ CRLF @ rest) = Inr (t, rest)"
proof -
  have "takeWhile (\<lambda>c. c \<noteq> newline) (t @ CRLF @ rest) = t @ [CHR 0x0D]"
    "dropWhile (\<lambda>c. c \<noteq> newline) (t @ CRLF @ rest) = newline # rest"
    using assms by (auto simp: newline_CRLF takeWhile_append dropWhile_append)
  then have "read_until (t @ CRLF @ rest) = (t @ CRLF, rest)"
    by (simp add: read_until_def newline_CRLF)
  moreover have "strip_suffix CRLF (t @ CRLF) = Some t"
    by (auto simp: strip_suffix_def ends_with_iff)
  ultimately show ?thesis by (simp add: read_line_def newline_CRLF)
qed

lemma ascii_is_utf8: "(\<And>c. c \<in> set s \<Longrightarrow> (of_char c :: nat) < 128) \<Longrightarrow> is_utf8 s"
  by (induction s) (auto simp: Let_def)

lemma digit_ascii: "digit_value c \<noteq> None \<Longrightarrow> (of_char c :: nat) < 128 \<and> c \<noteq> newline"
  by (auto simp: digit_value_def Let_def split: if_splits)

lemma show_nat_ascii: "c \<in> set (show_nat n) \<Longrightarrow> (of_char c :: nat) < 128 \<and> c \<noteq> newline"
  by (rule digit_ascii) (rule show_nat_digits)

lemma show_int_ascii: "c \<in> set (show_int n) \<Longrightarrow> (of_char c :: nat) < 128 \<and> c \<noteq> newline"
  using show_nat_ascii by (auto simp: show_int_def split: if_splits)

lemma header_ok:
  "is_utf8 (show_nat n)" "newline \<notin> set (show_nat n)" "is_utf8 (show_int i)" "newline \<notin> set (show_int i)"
  using show_nat_ascii show_int_ascii by (auto intro!: ascii_is_utf8)

lemma parse_length_show:
  assumes "n \<le> limit" and "limit \<le> MAX_BULK_LENGTH"
  shows "parse_length (show_nat n) limit = Inr (Some n)"
proof -
  have "in_i64 (int n)" using assms by (simp add: in_i64_def MAX_BULK_LENGTH_def)
  then have "parse_i64 (show_int (int n)) = Some (int n)" by (rule parse_show_int)
  then have "parse_i64 (show_nat n) = Some (int n)" by (simp add: show_int_def)
  then show ?thesis using assms(1) by (simp add: parse_length_def parse_integer_def)
qed

lemma parse_minus_one: "parse_length ''-1'' limit = Inr None"
proof -
  have "parse_i64 ''-1'' = Some (-1)" by code_simp
  then show ?thesis by (simp add: parse_length_def parse_integer_def)
qed

lemma read_body_bytes: "read_body (length body) (body @ CRLF @ rest) = Inr (body, rest)"
  by (simp add: read_body_def CRLF_def)

lemma read_frame_header:
  assumes "newline \<notin> set t" and "is_utf8 t" and "c \<noteq> newline"
  shows "read_frame (c # t @ CRLF @ rest) =
     (if c = CHR ''+'' then Inr (ReplyFrame (Simple t), rest)
      else if c = CHR ''-'' then Inr (ReplyFrame (Error t), rest)
      else if c = CHR '':'' then map_sum id (\<lambda>n. (ReplyFrame (Integer n), rest)) (parse_integer t)
      else if c = CHR ''$'' then
        (case parse_length t MAX_BULK_LENGTH of
           Inl e \<Rightarrow> Inl e
         | Inr None \<Rightarrow> Inr (ReplyFrame (Bulk None), rest)
         | Inr (Some n) \<Rightarrow> map_sum id (\<lambda>(body, rest). (ReplyFrame (Bulk (Some body)), rest)) (read_body n rest))
      else if c = CHR ''*'' then
        (case parse_length t MAX_ARRAY_LENGTH of
           Inl e \<Rightarrow> Inl e
         | Inr None \<Rightarrow> Inr (ReplyFrame (Array None), rest)
         | Inr (Some n) \<Rightarrow>
             if n = 0 then Inr (ReplyFrame (Array (Some [])), rest) else Inr (ArrayOf n, rest))
      else Inl (Protocol (UnknownType c)))"
proof -
  have "read_line ((c # t) @ CRLF @ rest) = Inr (c # t, rest)"
    using assms by (intro read_line_CRLF) auto
  then show ?thesis using assms(2) by (simp add: read_frame_def)
qed

lemma minus_one_ok: "newline \<notin> set ''-1''" "is_utf8 ''-1''"
  by (auto simp: is_utf8.simps Let_def)

definition deliver :: "reply \<Rightarrow> stack \<Rightarrow> string \<Rightarrow> resp_error + reply \<times> string" where
  "deliver r unfinished rest =
     (case settle r unfinished of
        Inl reply \<Rightarrow> Inr (reply, rest)
      | Inr unfinished' \<Rightarrow> read_loop unfinished' rest)"

lemma read_loop_frame:
  "read_frame bytes = Inr (ReplyFrame r, rest) \<Longrightarrow> read_loop st bytes = deliver r st rest"
  "read_frame bytes = Inr (ArrayOf n, rest) \<Longrightarrow> read_loop st bytes = read_loop (([], n) # st) rest"
  by (simp_all add: read_loop.simps [of st bytes] deliver_def)

lemma read_loop_items:
  assumes "\<And>r st rest. r \<in> set ys \<Longrightarrow> read_loop st (reply_bytes r @ rest) = deliver r st rest"
    and "ys \<noteq> []" and "n = length (xs @ ys)"
  shows "read_loop ((xs, n) # st) (concat (map reply_bytes ys) @ rest) = deliver (Array (Some (xs @ ys))) st rest"
  using assms
proof (induction ys arbitrary: xs)
  case Nil
  then show ?case by simp
next
  case (Cons y ys)
  have first: "read_loop ((xs, n) # st) (concat (map reply_bytes (y # ys)) @ rest) =
      deliver y ((xs, n) # st) (concat (map reply_bytes ys) @ rest)"
    using Cons.prems(1) [of y "(xs, n) # st" "concat (map reply_bytes ys) @ rest"] by simp
  show ?case
  proof (cases ys)
    case Nil
    then show ?thesis using first Cons.prems(3) by (simp add: deliver_def)
  next
    case (Cons z zs)
    have "deliver y ((xs, n) # st) (concat (map reply_bytes ys) @ rest) =
        read_loop ((xs @ [y], n) # st) (concat (map reply_bytes ys) @ rest)"
      using Cons.prems(3) Cons by (simp add: deliver_def)
    also have "\<dots> = deliver (Array (Some ((xs @ [y]) @ ys))) st rest"
      using Cons.prems Cons by (intro Cons.IH) auto
    finally show ?thesis using first by simp
  qed
qed

lemma read_loop_reply:
  "spellable r \<Longrightarrow> read_loop st (reply_bytes r @ rest) = deliver r st rest"
proof (induction r arbitrary: st rest rule: reply_bytes.induct)
  case (1 t)
  then show ?case by (intro read_loop_frame) (simp add: read_frame_header)
next
  case (2 t)
  then show ?case by (intro read_loop_frame) (simp add: read_frame_header)
next
  case (3 n)
  then show ?case
    by (intro read_loop_frame) (simp add: read_frame_header header_ok parse_integer_def parse_show_int)
next
  case 4
  have "read_frame (reply_bytes (Bulk None) @ rest) = Inr (ReplyFrame (Bulk None), rest)"
    using read_frame_header [OF minus_one_ok, of "CHR ''$''" rest] by (simp add: parse_minus_one)
  then show ?case by (rule read_loop_frame)
next
  case (5 body)
  then have "read_frame (reply_bytes (Bulk (Some body)) @ rest) = Inr (ReplyFrame (Bulk (Some body)), rest)"
    using read_frame_header [OF header_ok(2,1), of "CHR ''$''" "length body" "body @ CRLF @ rest"]
    by (simp add: bulk_bytes_def parse_length_show read_body_bytes)
  then show ?case by (rule read_loop_frame)
next
  case 6
  have "read_frame (reply_bytes (Array None) @ rest) = Inr (ReplyFrame (Array None), rest)"
    using read_frame_header [OF minus_one_ok, of "CHR ''*''" rest] by (simp add: parse_minus_one)
  then show ?case by (rule read_loop_frame)
next
  case (7 rs)
  let ?items = "concat (map reply_bytes rs) @ rest"
  have "length rs \<le> MAX_ARRAY_LENGTH" using 7(2) by simp
  then have len: "parse_length (show_nat (length rs)) MAX_ARRAY_LENGTH = Inr (Some (length rs))"
    by (intro parse_length_show) (simp_all add: MAX_ARRAY_LENGTH_def MAX_BULK_LENGTH_def)
  have frame: "read_frame (reply_bytes (Array (Some rs)) @ rest) =
      (if length rs = 0 then Inr (ReplyFrame (Array (Some [])), ?items) else Inr (ArrayOf (length rs), ?items))"
    using read_frame_header [OF header_ok(2,1), of "CHR ''*''" "length rs" ?items] by (simp add: len)
  show ?case
  proof (cases rs)
    case Nil
    then show ?thesis using frame by (simp add: read_loop_frame)
  next
    case (Cons y ys)
    then have "read_loop st (reply_bytes (Array (Some rs)) @ rest) = read_loop (([], length rs) # st) ?items"
      using frame by (simp add: read_loop_frame)
    also have "\<dots> = deliver (Array (Some ([] @ rs))) st rest"
      using 7 Cons by (intro read_loop_items) auto
    finally show ?thesis by simp
  qed
qed

lemma read_reply: "spellable r \<Longrightarrow> read (reply_bytes r @ rest) = Inr (r, rest)"
  by (simp add: read_def read_loop_reply deliver_def)

section \<open>Properties\<close>

text \<open>
  C33: Every reply that RESP2 can spell, however its arrays are nested, reads back as itself and
  leaves the bytes after it unread. A command that is sent reads as the array of its
  arguments.
\<close>

theorem replies_read_back:
  assumes "spellable r" and "length arguments \<le> MAX_ARRAY_LENGTH"
    and "\<forall>a\<in>set arguments. length a \<le> MAX_BULK_LENGTH"
  shows "read (reply_bytes r @ rest) = Inr (r, rest) \<and>
    read (send arguments @ rest) = Inr (Array (Some (map (\<lambda>a. Bulk (Some a)) arguments)), rest)"
proof -
  have "spellable (Array (Some (map (\<lambda>a. Bulk (Some a)) arguments)))" using assms(2,3) by simp
  moreover have "reply_bytes (Array (Some (map (\<lambda>a. Bulk (Some a)) arguments))) = send arguments"
    by (simp add: send_def comp_def)
  ultimately show ?thesis using read_reply [OF assms(1)] read_reply by metis
qed

theorem replies_read_back_witness:
  "read (reply_bytes (Array (Some [Bulk None, Array (Some [Integer 7])])) @ ''x'') =
     Inr (Array (Some [Bulk None, Array (Some [Integer 7])]), ''x'') \<and>
   read (send [''LPOP'', ''usage''] @ []) = Inr (Array (Some [Bulk (Some ''LPOP''), Bulk (Some ''usage'')]), [])"
  using replies_read_back [of "Array (Some [Bulk None, Array (Some [Integer 7])])" "[''LPOP'', ''usage'']" "''x''"]
    replies_read_back [of "Array (Some [Bulk None, Array (Some [Integer 7])])" "[''LPOP'', ''usage'']" "[]"]
  by (simp add: MAX_ARRAY_LENGTH_def MAX_BULK_LENGTH_def in_i64_def)

end
