(* ===== verification/Collectors.thy ===== *)
theory Collectors
  imports Resp Ingest Cliproxy Litellm Sources
begin

text \<open>
  The resident readers of the gateways (\<^verbatim>\<open>src/collector/mod.rs\<close>,
  \<^verbatim>\<open>src/collector/cliproxy.rs\<close>, \<^verbatim>\<open>src/collector/litellm.rs\<close>): the backoff between
  failures, the row each reader keeps about itself, the session that pops and follows
  CLIProxyAPI's usage queue, and the poll of LiteLLM's spend log. What a gateway answers, how a
  commit ends and how many records arrive within a batch's window are parameters.
\<close>

section \<open>Errors\<close>

datatype collector_error =
    Resp resp_error
  | Refused string string
  | Unexpected string string
  | Database
  | Http
  | Status nat
  | Address string

text \<open>
  What an error reads as. The quoted forms of a text and of a byte are Rust's \<^verbatim>\<open>{:?}\<close>; what
  the socket, the HTTP client and the database say is theirs.
\<close>

record phrases =
  ph_quote :: "string \<Rightarrow> string"
  ph_quote_char :: "char \<Rightarrow> string"
  ph_io :: string
  ph_database :: string
  ph_http :: string
  ph_status :: "nat \<Rightarrow> string"

fun protocol_text :: "phrases \<Rightarrow> protocol_error \<Rightarrow> string" where
  "protocol_text ph EmptyLine = ''empty line''"
| "protocol_text ph NotUtf8 = ''header is not UTF-8''"
| "protocol_text ph (NotInteger t) = ph_quote ph t @ '' is not an integer''"
| "protocol_text ph (OutOfRange n) = ''length '' @ show_int n @ '' is out of range''"
| "protocol_text ph BulkNotTerminated = ''bulk string is not terminated''"
| "protocol_text ph LineNotTerminated = ''line is not terminated''"
| "protocol_text ph (UnknownType c) = ''unknown type byte '' @ ph_quote_char ph c"

fun resp_text :: "phrases \<Rightarrow> resp_error \<Rightarrow> string" where
  "resp_text ph Io = ph_io ph"
| "resp_text ph Closed = ''the server closed the connection''"
| "resp_text ph (Protocol e) = ''protocol: '' @ protocol_text ph e"

fun collector_text :: "phrases \<Rightarrow> collector_error \<Rightarrow> string" where
  "collector_text ph (Resp e) = resp_text ph e"
| "collector_text ph (Refused command message) = command @ '' was refused: '' @ message"
| "collector_text ph (Unexpected command reply) = command @ '' was answered with '' @ reply"
| "collector_text ph Database = ph_database ph"
| "collector_text ph Http = ph_http ph"
| "collector_text ph (Status n) = ''LiteLLM answered '' @ ph_status ph n"
| "collector_text ph (Address url) = ''base_url '' @ ph_quote ph url @ '' names no host and port''"

section \<open>Backoff\<close>

text \<open>Delays are seconds.\<close>

definition FIRST_RETRY :: nat where "FIRST_RETRY = 1"

definition LAST_RETRY :: nat where "LAST_RETRY = 60"

record backoff =
  delay :: nat

definition new_backoff :: backoff where
  "new_backoff = \<lparr>delay = FIRST_RETRY\<rparr>"

definition reset_backoff :: "backoff \<Rightarrow> backoff" where
  "reset_backoff b = b\<lparr>delay := FIRST_RETRY\<rparr>"

text \<open>The seconds it waits, and the backoff after it.\<close>

definition wait :: "backoff \<Rightarrow> nat \<times> backoff" where
  "wait b = (delay b, b\<lparr>delay := min (delay b * 2) LAST_RETRY\<rparr>)"

section \<open>Progress\<close>

text \<open>The row of a source that has none yet, with the schema's defaults.\<close>

definition new_collector :: "id \<Rightarrow> instant \<Rightarrow> collector_row" where
  "new_collector source now =
     \<lparr>k_source = source, k_connected_since = None, k_last_record_at = None, k_records_received = 0,
      k_consecutive_failures = 0, k_last_error = None, k_updated_at = now\<rparr>"

definition stamped :: "(collector_row \<Rightarrow> collector_row \<Rightarrow> collector_row) \<Rightarrow> collector_row \<Rightarrow> collector_row \<Rightarrow> collector_row" where
  "stamped assign new old = (assign new old)\<lparr>k_updated_at := k_updated_at new\<rparr>"

definition progress_upsert ::
  "(collector_row \<Rightarrow> collector_row \<Rightarrow> collector_row) \<Rightarrow> id \<Rightarrow> instant \<Rightarrow> db \<Rightarrow> db" where
  "progress_upsert assign source now d =
     d\<lparr>collectors := upsert k_source (stamped assign)
         ((new_collector source now)\<lparr>k_connected_since := Some now\<rparr>) (collectors d)\<rparr>"

definition connected_assign :: "collector_row \<Rightarrow> collector_row \<Rightarrow> collector_row" where
  "connected_assign new old =
     old\<lparr>k_connected_since := Some (k_updated_at new), k_consecutive_failures := 0, k_last_error := None\<rparr>"

definition connected :: "id \<Rightarrow> instant \<Rightarrow> db \<Rightarrow> db" where
  "connected = progress_upsert connected_assign"

definition polled_assign :: "collector_row \<Rightarrow> collector_row \<Rightarrow> collector_row" where
  "polled_assign new old =
     old\<lparr>k_connected_since := or_else (k_connected_since old) (Some (k_updated_at new)),
         k_consecutive_failures := 0, k_last_error := None\<rparr>"

definition polled :: "id \<Rightarrow> instant \<Rightarrow> db \<Rightarrow> db" where
  "polled = progress_upsert polled_assign"

definition received_merge :: "collector_row \<Rightarrow> collector_row \<Rightarrow> collector_row" where
  "received_merge new old =
     old\<lparr>k_last_record_at := k_last_record_at new,
         k_records_received := k_records_received old + k_records_received new,
         k_updated_at := k_updated_at new\<rparr>"

definition received :: "id \<Rightarrow> instant \<Rightarrow> ingest_report \<Rightarrow> db \<Rightarrow> db" where
  "received source now report d =
     (let received = ir_accepted report + ir_rejected report
      in if received = 0 then d
         else d\<lparr>collectors := upsert k_source received_merge
                  ((new_collector source now)\<lparr>k_last_record_at := Some now, k_records_received := received\<rparr>)
                  (collectors d)\<rparr>)"

definition failed_merge :: "collector_row \<Rightarrow> collector_row \<Rightarrow> collector_row" where
  "failed_merge new old =
     old\<lparr>k_connected_since := None, k_consecutive_failures := k_consecutive_failures old + 1,
         k_last_error := k_last_error new, k_updated_at := k_updated_at new\<rparr>"

definition failed :: "id \<Rightarrow> instant \<Rightarrow> string \<Rightarrow> db \<Rightarrow> db" where
  "failed source now error d =
     d\<lparr>collectors := upsert k_source failed_merge
         ((new_collector source now)\<lparr>k_consecutive_failures := 1, k_last_error := Some error\<rparr>)
         (collectors d)\<rparr>"

text \<open>
  A failure that cannot be recorded (\<open>written\<close> is false) is logged; the wait happens either way.
\<close>

definition retry_after ::
  "phrases \<Rightarrow> id \<Rightarrow> instant \<Rightarrow> bool \<Rightarrow> collector_error \<Rightarrow> backoff \<Rightarrow> db \<Rightarrow> nat \<times> backoff \<times> db" where
  "retry_after ph source now written error b d =
     (case wait b of (seconds, b') \<Rightarrow>
        (seconds, b', if written then failed source now (collector_text ph error) d else d))"

section \<open>Payloads\<close>

definition POP_COUNT :: nat where "POP_COUNT = 512"

definition BATCH_RECORDS :: nat where "BATCH_RECORDS = 256"

text \<open>A payload that was received: its JSON, or what is wrong with its text.\<close>

type_synonym unsaved = "(string + json) list"

definition is_control :: "json \<Rightarrow> bool" where
  "is_control value =
     (case value of
        JObject fs \<Rightarrow> length fs = 1 \<and>
          (map_of fs ''support_refresh'' \<noteq> None \<or> map_of fs ''refresh'' \<noteq> None)
      | _ \<Rightarrow> False)"

definition keep :: "(string \<Rightarrow> string + json) \<Rightarrow> unsaved \<Rightarrow> string \<Rightarrow> unsaved" where
  "keep read_json unsaved payload =
     (case read_json payload of
        Inr value \<Rightarrow> if is_control value then unsaved else unsaved @ [Inr value]
      | Inl error \<Rightarrow> unsaved @ [Inl (''the payload is not JSON: '' @ error)])"

definition message :: "reply \<Rightarrow> collector_error + string" where
  "message reply =
     (case reply of
        Array (Some [Bulk (Some frame), _, Bulk (Some payload)]) \<Rightarrow>
          if frame = ''message'' then Inr payload else Inl (Unexpected ''SUBSCRIBE'' (kind reply))
      | _ \<Rightarrow> Inl (Unexpected ''SUBSCRIBE'' (kind reply)))"

text \<open>
  A reply takes at least one byte, so a reader that asks for another reply comes to an end of
  what its peer sent.
\<close>

lemma read_loop_shorter: "read_loop st bytes = Inr (r, rest) \<Longrightarrow> length rest < length bytes"
proof (induction st bytes rule: read_loop.induct)
  case (1 st bytes)
  show ?case
  proof (cases "read_frame bytes")
    case (Inl e)
    then show ?thesis using 1(3) by (simp add: read_loop.simps [of st bytes])
  next
    case (Inr p)
    then obtain f rest' where f: "read_frame bytes = Inr (f, rest')" by (cases p) auto
    have shorter: "length rest' < length bytes" using read_frame_shorter [OF f] .
    show ?thesis
    proof (cases f)
      case (ArrayOf n)
      then have "read_loop (([], n) # st) rest' = Inr (r, rest)"
        using 1(3) f by (simp add: read_loop.simps [of st bytes])
      then show ?thesis using 1(2) [OF f refl ArrayOf] shorter by simp
    next
      case (ReplyFrame q)
      show ?thesis
      proof (cases "settle q st")
        case (Inl reply)
        then show ?thesis using 1(3) f ReplyFrame shorter by (simp add: read_loop.simps [of st bytes])
      next
        case (Inr st')
        then have "read_loop st' rest' = Inr (r, rest)"
          using 1(3) f ReplyFrame by (simp add: read_loop.simps [of st bytes])
        then show ?thesis using 1(1) [OF f refl ReplyFrame Inr] shorter by simp
      qed
    qed
  qed
qed

lemma read_shorter: "Resp.read bytes = Inr (r, rest) \<Longrightarrow> length rest < length bytes"
  unfolding read_def by (rule read_loop_shorter)

text \<open>What the reader forwards: each payload, then the failure it stops at.\<close>

function read_pushed :: "string \<Rightarrow> (collector_error + string) list" where
  "read_pushed bytes =
     (case Resp.read bytes of
        Inl e \<Rightarrow> [Inl (Resp e)]
      | Inr (reply, rest) \<Rightarrow>
          (case message reply of
             Inl e \<Rightarrow> [Inl e]
           | Inr payload \<Rightarrow> Inr payload # read_pushed rest))"
  by pat_completeness auto

termination
  by (relation "measure length") (auto dest: read_shorter)

declare read_pushed.simps [simp del]

section \<open>Storing\<close>

text \<open>
  The process around a collector. The k-th commit of a run mints its own ids, reads the
  clock and ends as \<open>cw_commit k\<close> says: rolled back, committed with its report not counted, or
  done; the credential list it may read first is \<open>cw_synced k\<close>. The k-th batch's window lets
  in \<open>cw_window k\<close> payloads after the first.
\<close>

datatype commit = Aborted | Uncounted | Counted

record 'e collecting =
  cw_services :: "string services"
  cw_ids :: "nat \<Rightarrow> nat \<Rightarrow> id"
  cw_now :: "nat \<Rightarrow> instant"
  cw_commit :: "nat \<Rightarrow> commit"
  cw_synced :: "nat \<Rightarrow> db \<Rightarrow> db"
  cw_read_json :: "string \<Rightarrow> string + json"
  cw_show_error :: "'e \<Rightarrow> string"
  cw_window :: "nat \<Rightarrow> nat"

definition services_of :: "'e collecting \<Rightarrow> nat \<Rightarrow> string services" where
  "services_of w k = (cw_services w)\<lparr>sv_show_error := id, sv_ids := cw_ids w k\<rparr>"

record desk =
  dk_unsaved :: unsaved
  dk_db :: db
  dk_commits :: nat

text \<open>A batch commits, and the gateway's credential list is read when it names a new credential.\<close>

definition committed :: "'e collecting \<Rightarrow> id \<Rightarrow> string incoming list \<Rightarrow> nat \<Rightarrow> db \<Rightarrow> ingest_report \<times> db" where
  "committed w source records k d =
     (let b = ingest (services_of w k) (cw_now w k) source records d
      in (bt_report b, if bt_new_credential b then cw_synced w k (bt_db b) else bt_db b))"

definition record_of :: "cliproxy_error collecting \<Rightarrow> string + json \<Rightarrow> string incoming" where
  "record_of w payload =
     (case payload of
        Inr value \<Rightarrow> map_incoming (cw_show_error w) (Cliproxy.parse (sv_parse_instant (cw_services w)) value)
      | Inl error \<Rightarrow> Rejected error JNull)"

definition store :: "cliproxy_error collecting \<Rightarrow> id \<Rightarrow> desk \<Rightarrow> collector_error option \<times> desk" where
  "store w source dk =
     (if dk_unsaved dk = [] then (None, dk)
      else
        let k = dk_commits dk;
            dk' = dk\<lparr>dk_commits := k + 1\<rparr>;
            (report, d) = committed w source (map (record_of w) (dk_unsaved dk)) k (dk_db dk)
        in case cw_commit w k of
             Aborted \<Rightarrow> (Some Database, dk')
           | Uncounted \<Rightarrow> (Some Database, dk'\<lparr>dk_unsaved := [], dk_db := d\<rparr>)
           | Counted \<Rightarrow> (None, dk'\<lparr>dk_unsaved := [], dk_db := received source (cw_now w k) report d\<rparr>))"

section \<open>A session\<close>

text \<open>
  What the two connections of a session answer: not connected, or the bytes the gateway sends
  until it closes, for what it is sent: a login and a subscription on the one, on the other a
  login and a pop that is repeated. \<open>pr_counted\<close> says whether the row of a new subscription could be written.
\<close>

record peer =
  pr_subscriber :: "resp_error + (string \<Rightarrow> string)"
  pr_popper :: "resp_error + (string \<times> string \<Rightarrow> string)"
  pr_connected_at :: instant
  pr_counted :: bool

definition subscriber_sends :: "string \<Rightarrow> string" where
  "subscriber_sends secret = send [''AUTH'', secret] @ send [''SUBSCRIBE'', ''usage'']"

definition popper_sends :: "string \<Rightarrow> string \<times> string" where
  "popper_sends secret = (send [''AUTH'', secret], send [''LPOP'', ''usage'', show_nat POP_COUNT])"

definition authenticate :: "string \<Rightarrow> collector_error + string" where
  "authenticate bytes =
     (case Resp.read bytes of
        Inl e \<Rightarrow> Inl (Resp e)
      | Inr (Simple _, rest) \<Rightarrow> Inr rest
      | Inr (Error said, rest) \<Rightarrow> Inl (Refused ''AUTH'' said)
      | Inr (other, rest) \<Rightarrow> Inl (Unexpected ''AUTH'' (kind other)))"

definition subscribed :: "reply \<Rightarrow> collector_error option" where
  "subscribed reply =
     (case reply of
        Array (Some (Bulk (Some topic) # _)) \<Rightarrow>
          if topic = ''subscribe'' then None else Some (Unexpected ''SUBSCRIBE'' (kind reply))
      | Error said \<Rightarrow> Some (Refused ''SUBSCRIBE'' said)
      | other \<Rightarrow> Some (Unexpected ''SUBSCRIBE'' (kind other)))"

definition open_connection :: "resp_error + ('s \<Rightarrow> string) \<Rightarrow> 's \<Rightarrow> collector_error + string" where
  "open_connection answer sent =
     (case answer of Inl e \<Rightarrow> Inl (Resp e) | Inr answers \<Rightarrow> authenticate (answers sent))"

definition subscribe :: "string \<Rightarrow> collector_error + string" where
  "subscribe bytes =
     (case Resp.read bytes of
        Inl e \<Rightarrow> Inl (Resp e)
      | Inr (reply, rest) \<Rightarrow> (case subscribed reply of Some e \<Rightarrow> Inl e | None \<Rightarrow> Inr rest))"

definition popped :: "reply \<Rightarrow> collector_error + reply list" where
  "popped reply =
     (case reply of
        Array (Some items) \<Rightarrow> Inr items
      | Array None \<Rightarrow> Inr []
      | Bulk None \<Rightarrow> Inr []
      | Error said \<Rightarrow> Inl (Refused ''LPOP'' said)
      | other \<Rightarrow> Inl (Unexpected ''LPOP'' (kind other)))"

fun keep_items ::
  "(string \<Rightarrow> string + json) \<Rightarrow> reply list \<Rightarrow> unsaved \<Rightarrow> collector_error option \<times> unsaved" where
  "keep_items read_json [] u = (None, u)"
| "keep_items read_json (Bulk (Some payload) # items) u = keep_items read_json items (keep read_json u payload)"
| "keep_items read_json (item # items) u = (Some (Unexpected ''LPOP'' (kind item)), u)"

text \<open>
  The queue is popped until it answers no item. The answer holds what is left of the connection.
\<close>

function drain ::
  "cliproxy_error collecting \<Rightarrow> id \<Rightarrow> string \<Rightarrow> desk \<Rightarrow> collector_error option \<times> string \<times> desk" where
  "drain w source bytes dk =
     (case Resp.read bytes of
        Inl e \<Rightarrow> (Some (Resp e), bytes, dk)
      | Inr (reply, rest) \<Rightarrow>
          (case popped reply of
             Inl e \<Rightarrow> (Some e, rest, dk)
           | Inr items \<Rightarrow>
               if items = [] then (None, rest, dk)
               else
                 (case keep_items (cw_read_json w) items (dk_unsaved dk) of
                    (Some e, u) \<Rightarrow> (Some e, rest, dk\<lparr>dk_unsaved := u\<rparr>)
                  | (None, u) \<Rightarrow>
                      (case store w source (dk\<lparr>dk_unsaved := u\<rparr>) of
                         (Some e, dk') \<Rightarrow> (Some e, rest, dk')
                       | (None, dk') \<Rightarrow> drain w source rest dk'))))"
  by pat_completeness auto

termination
  by (relation "measure (\<lambda>(_, _, bytes, _). length bytes)") (auto dest: read_shorter)

declare drain.simps [simp del]

text \<open>A channel is what the reader still has to forward.\<close>

type_synonym channel = "(collector_error + string) list"

fun gather ::
  "(string \<Rightarrow> string + json) \<Rightarrow> nat \<Rightarrow> channel \<Rightarrow> unsaved \<Rightarrow> collector_error option \<times> unsaved \<times> channel" where
  "gather read_json 0 ch u = (None, u, ch)"
| "gather read_json (Suc n) ch u =
     (if BATCH_RECORDS \<le> length u then (None, u, ch)
      else case ch of
          [] \<Rightarrow> (Some (Resp Closed), u, [])
        | Inl e # ch' \<Rightarrow> (Some e, u, ch')
        | Inr payload # ch' \<Rightarrow> gather read_json n ch' (keep read_json u payload))"

lemma gather_shorter: "gather rj n ch u = (e, u', ch') \<Longrightarrow> length ch' \<le> length ch"
  by (induction rj n ch u rule: gather.induct) (fastforce split: if_splits list.splits sum.splits)+

text \<open>The answer holds what the channel still held: it is dropped with the session.\<close>

function follow ::
  "cliproxy_error collecting \<Rightarrow> id \<Rightarrow> nat \<Rightarrow> channel \<Rightarrow> desk \<Rightarrow> collector_error \<times> channel \<times> desk" where
  "follow w source k [] dk = (Resp Closed, [], dk)"
| "follow w source k (Inl e # ch) dk = (e, ch, dk)"
| "follow w source k (Inr payload # ch) dk =
     (case gather (cw_read_json w) (cw_window w k) ch (keep (cw_read_json w) (dk_unsaved dk) payload) of
        (Some e, u, ch') \<Rightarrow> (e, ch', dk\<lparr>dk_unsaved := u\<rparr>)
      | (None, u, ch') \<Rightarrow>
          (case store w source (dk\<lparr>dk_unsaved := u\<rparr>) of
             (Some e, dk') \<Rightarrow> (e, ch', dk')
           | (None, dk') \<Rightarrow> follow w source (k + 1) ch' dk'))"
  by pat_completeness auto

termination
  by (relation "measure (\<lambda>(_, _, _, ch, _). length ch)") (auto simp: less_Suc_eq_le intro: gather_shorter [OF sym])

declare follow.simps [simp del]

text \<open>
  The host and the port a URL names, \<open>url\<close> the URL library's reading of it; a bracketed host
  loses its brackets.
\<close>

definition address :: "(string \<Rightarrow> (string \<times> nat) option) \<Rightarrow> string \<Rightarrow> collector_error + string \<times> nat" where
  "address url base_url =
     (case url base_url of
        Some (host, port) \<Rightarrow>
          Inr (rev (dropWhile (\<lambda>c. c = CHR '']'') (rev (dropWhile (\<lambda>c. c = CHR ''['') host))), port)
      | None \<Rightarrow> Inl (Address base_url))"

text \<open>
  A session ends in an error. Its subscription opens first; the drain and the batches run
  once it is confirmed, when the backoff starts over.
\<close>

definition subscription ::
  "(string \<times> nat \<Rightarrow> peer) \<Rightarrow> string \<Rightarrow> collector_error + string \<times> nat \<Rightarrow> collector_error + peer \<times> string" where
  "subscription network secret where_to =
     (case where_to of
        Inl e \<Rightarrow> Inl e
      | Inr target \<Rightarrow>
          (case open_connection (pr_subscriber (network target)) (subscriber_sends secret) of
             Inl e \<Rightarrow> Inl e
           | Inr bytes \<Rightarrow> map_sum id (Pair (network target)) (subscribe bytes)))"

definition serve ::
  "cliproxy_error collecting \<Rightarrow> id \<Rightarrow> string \<Rightarrow> peer \<Rightarrow> string \<Rightarrow> desk \<Rightarrow> collector_error \<times> channel \<times> desk" where
  "serve w source secret peer pushed dk =
     (case store w source dk of
        (Some e, dk') \<Rightarrow> (e, read_pushed pushed, dk')
      | (None, dk') \<Rightarrow>
          (case open_connection (pr_popper peer) (popper_sends secret) of
             Inl e \<Rightarrow> (e, read_pushed pushed, dk')
           | Inr bytes \<Rightarrow>
               (case drain w source bytes dk' of
                  (Some e, _, dk') \<Rightarrow> (e, read_pushed pushed, dk')
                | (None, _, dk') \<Rightarrow> follow w source 0 (read_pushed pushed) dk')))"

definition session ::
  "cliproxy_error collecting \<Rightarrow> (string \<Rightarrow> (string \<times> nat) option) \<Rightarrow> (string \<times> nat \<Rightarrow> peer) \<Rightarrow>
     id \<Rightarrow> source_config \<Rightarrow> backoff \<Rightarrow> desk \<Rightarrow> collector_error \<times> backoff \<times> desk" where
  "session w url network source config b dk =
     (case subscription network (sc_secret config) (address url (sc_base_url config)) of
        Inl e \<Rightarrow> (e, b, dk)
      | Inr (peer, pushed) \<Rightarrow>
          if \<not> pr_counted peer then (Database, b, dk)
          else
            (case serve w source (sc_secret config) peer pushed
                    (dk\<lparr>dk_db := connected source (pr_connected_at peer) (dk_db dk)\<rparr>) of
               (e, dropped, dk') \<Rightarrow> (e, reset_backoff b, dk')))"

text \<open>
  The sessions of a run, one network each, with the moment each failure is recorded and
  whether it could be; the answer is the seconds waited after each.
\<close>

fun run ::
  "cliproxy_error collecting \<Rightarrow> phrases \<Rightarrow> (string \<Rightarrow> (string \<times> nat) option) \<Rightarrow> id \<Rightarrow> source_config \<Rightarrow>
     ((string \<times> nat \<Rightarrow> peer) \<times> instant \<times> bool) list \<Rightarrow> backoff \<Rightarrow> desk \<Rightarrow> nat list \<times> backoff \<times> desk" where
  "run w ph url source config [] b dk = ([], b, dk)"
| "run w ph url source config ((network, now, written) # rest) b dk =
     (case session w url network source config b dk of
        (e, b1, dk1) \<Rightarrow>
          (case retry_after ph source now written e b1 (dk_db dk1) of
             (seconds, b2, d) \<Rightarrow>
               (case run w ph url source config rest b2 (dk1\<lparr>dk_db := d\<rparr>) of
                  (waits, b3, dk3) \<Rightarrow> (seconds # waits, b3, dk3))))"

section \<open>LiteLLM\<close>

definition POLL_INTERVAL :: nat where "POLL_INTERVAL = 60"

definition PAGE_SIZE :: nat where "PAGE_SIZE = 500"

definition OVERLAP :: int where "OVERLAP = 15 * minute"

definition FIRST_WINDOW :: int where "FIRST_WINDOW = 30 * 24 * hour"

definition CLOCK_SLACK :: int where "CLOCK_SLACK = 5 * minute"

text \<open>
  An answer is its status and, when its body reads as a page, the rows. \<open>pl_window_text\<close> prints
  an instant as \<^verbatim>\<open>%Y-%m-%d %H:%M:%S\<close>, \<open>pl_url_ok\<close> is whether the endpoint parses as a URL.
\<close>

datatype page_answer = NoAnswer | Answer nat "json list option"

record polling =
  pl_world :: "litellm_error collecting"
  pl_civil :: "string \<Rightarrow> instant option"
  pl_window_text :: "instant \<Rightarrow> string"
  pl_url_ok :: "string \<Rightarrow> bool"
  pl_answer :: "string \<Rightarrow> (string \<times> string) list \<Rightarrow> page_answer"
  pl_counted :: bool

definition window_start :: "instant option \<Rightarrow> instant \<Rightarrow> instant" where
  "window_start newest now = (case newest of None \<Rightarrow> now - FIRST_WINDOW | Some t \<Rightarrow> t - OVERLAP)"

definition page_query :: "polling \<Rightarrow> instant \<Rightarrow> instant \<Rightarrow> nat \<Rightarrow> (string \<times> string) list" where
  "page_query pl start now page =
     [(''start_date'', pl_window_text pl start), (''end_date'', pl_window_text pl (now + CLOCK_SLACK)),
      (''sort_by'', ''startTime''), (''sort_order'', ''asc''),
      (''page'', show_nat page), (''page_size'', show_nat PAGE_SIZE)]"

definition row_of :: "polling \<Rightarrow> json \<Rightarrow> string incoming" where
  "row_of pl row =
     (let sv = cw_services (pl_world pl)
      in map_incoming (cw_show_error (pl_world pl))
           (Litellm.parse (sv_json_of sv) (sv_parse_instant sv) (pl_civil pl) row))"

definition ask_page :: "polling \<Rightarrow> source_config \<Rightarrow> instant \<Rightarrow> instant \<Rightarrow> nat \<Rightarrow> collector_error + json list" where
  "ask_page pl config start now page =
     (let endpoint = sc_base_url config @ ''/spend/logs/v2''
      in if \<not> pl_url_ok pl endpoint then Inl (Address (sc_base_url config))
         else case pl_answer pl endpoint (page_query pl start now page) of
             NoAnswer \<Rightarrow> Inl Http
           | Answer status body \<Rightarrow>
               if \<not> (200 \<le> status \<and> status < 300) then Inl (Status status) else ok_or Http body)"

definition add_report :: "ingest_report \<Rightarrow> ingest_report \<Rightarrow> ingest_report" where
  "add_report tally report =
     \<lparr>ir_accepted = ir_accepted tally + ir_accepted report,
      ir_duplicates = ir_duplicates tally + ir_duplicates report,
      ir_rejected = ir_rejected tally + ir_rejected report\<rparr>"

definition store_rows :: "polling \<Rightarrow> id \<Rightarrow> json list \<Rightarrow> ingest_report \<times> desk \<Rightarrow> (collector_error + ingest_report) \<times> desk" where
  "store_rows pl source rows carried =
     (case carried of (tally, dk) \<Rightarrow>
        if rows = [] then (Inr tally, dk)
        else
          let k = dk_commits dk; w = pl_world pl;
              dk' = dk\<lparr>dk_commits := k + 1\<rparr>;
              (report, d) = committed w source (map (row_of pl) rows) k (dk_db dk)
          in case cw_commit w k of
               Aborted \<Rightarrow> (Inl Database, dk')
             | Uncounted \<Rightarrow> (Inl Database, dk'\<lparr>dk_db := d\<rparr>)
             | Counted \<Rightarrow>
                 (Inr (add_report tally report), dk'\<lparr>dk_db := received source (cw_now w k) report d\<rparr>))"

text \<open>The pages are asked for until one is short. A gateway whose pages are never short is asked for ever.\<close>

partial_function (option) read_pages ::
  "polling \<Rightarrow> id \<Rightarrow> source_config \<Rightarrow> instant \<Rightarrow> instant \<Rightarrow> nat \<Rightarrow> ingest_report \<times> desk \<Rightarrow>
     ((collector_error + ingest_report) \<times> desk) option" where
  "read_pages pl source config start now page carried =
     (case ask_page pl config start now page of
        Inl e \<Rightarrow> Some (Inl e, snd carried)
      | Inr rows \<Rightarrow>
          (case store_rows pl source rows carried of
             (Inl e, dk) \<Rightarrow> Some (Inl e, dk)
           | (Inr tally, dk) \<Rightarrow>
               if length rows < PAGE_SIZE then Some (Inr tally, dk)
               else read_pages pl source config start now (page + 1) (tally, dk)))"

definition no_report :: ingest_report where
  "no_report = \<lparr>ir_accepted = 0, ir_duplicates = 0, ir_rejected = 0\<rparr>"

definition poll ::
  "polling \<Rightarrow> id \<Rightarrow> source_config \<Rightarrow> instant \<Rightarrow> desk \<Rightarrow> ((collector_error + ingest_report) \<times> desk) option" where
  "poll pl source config now dk =
     (let newest = Option.bind (load_source (dk_db dk) source) so_last_event_at
      in map_option
           (\<lambda>(answer, dk').
              case answer of
                Inl e \<Rightarrow> (Inl e, dk')
              | Inr tally \<Rightarrow>
                  if pl_counted pl then (Inr tally, dk'\<lparr>dk_db := polled source now (dk_db dk')\<rparr>)
                  else (Inl Database, dk'))
           (read_pages pl source config (window_start newest now) now 1 (no_report, dk)))"

text \<open>What follows a poll: the seconds until the next.\<close>

definition after_poll ::
  "phrases \<Rightarrow> id \<Rightarrow> instant \<Rightarrow> bool \<Rightarrow> collector_error + ingest_report \<Rightarrow> backoff \<Rightarrow> db \<Rightarrow> nat \<times> backoff \<times> db" where
  "after_poll ph source now written answer b d =
     (case answer of
        Inr _ \<Rightarrow> (POLL_INTERVAL, reset_backoff b, d)
      | Inl e \<Rightarrow> retry_after ph source now written e b d)"

section \<open>Starting\<close>

text \<open>The source a configured gateway is collected for, when it has an enabled row.\<close>

definition start_collector :: "db \<Rightarrow> source_config \<Rightarrow> (id \<times> source_kind) option" where
  "start_collector d config =
     (case source_by_key d (sc_key config) of
        Some s \<Rightarrow> if s_enabled (so_row s) then Some (s_id (so_row s), sc_kind config) else None
      | None \<Rightarrow> None)"

definition spawn_all :: "db \<Rightarrow> config \<Rightarrow> (id \<times> source_kind) list" where
  "spawn_all d cfg = List.map_filter (start_collector d) (cg_sources cfg)"

section \<open>The row of a source\<close>

interpretation connecting: keyed_upsert k_source "stamped connected_assign"
  by unfold_locales (simp add: stamped_def connected_assign_def)

interpretation polling: keyed_upsert k_source "stamped polled_assign"
  by unfold_locales (simp add: stamped_def polled_assign_def)

interpretation receiving: keyed_upsert k_source received_merge
  by unfold_locales (simp add: received_merge_def)

interpretation failing: keyed_upsert k_source failed_merge
  by unfold_locales (simp add: failed_merge_def)

definition collector_of :: "id \<Rightarrow> db \<Rightarrow> collector_row option" where
  "collector_of source d = find (\<lambda>k. k_source k = source) (collectors d)"

lemma source_new_collector [simp]: "k_source (new_collector source now) = source"
  by (simp add: new_collector_def)

lemma collector_of_progress:
  "collector_of source (connected source now d) =
     Some (case collector_of source d of
         None \<Rightarrow> (new_collector source now)\<lparr>k_connected_since := Some now\<rparr>
       | Some k \<Rightarrow> stamped connected_assign ((new_collector source now)\<lparr>k_connected_since := Some now\<rparr>) k)"
  "collector_of source (polled source now d) =
     Some (case collector_of source d of
         None \<Rightarrow> (new_collector source now)\<lparr>k_connected_since := Some now\<rparr>
       | Some k \<Rightarrow> stamped polled_assign ((new_collector source now)\<lparr>k_connected_since := Some now\<rparr>) k)"
  "collector_of source (failed source now error d) =
     (let new = (new_collector source now)\<lparr>k_consecutive_failures := 1, k_last_error := Some error\<rparr>
      in Some (case collector_of source d of None \<Rightarrow> new | Some k \<Rightarrow> failed_merge new k))"
  using connecting.find_upsert_same [of "(new_collector source now)\<lparr>k_connected_since := Some now\<rparr>" "collectors d"]
    polling.find_upsert_same [of "(new_collector source now)\<lparr>k_connected_since := Some now\<rparr>" "collectors d"]
    failing.find_upsert_same [of "(new_collector source now)\<lparr>k_consecutive_failures := 1, k_last_error := Some error\<rparr>" "collectors d"]
  by (simp_all add: collector_of_def connected_def polled_def failed_def progress_upsert_def Let_def)

lemma collector_of_received:
  "collector_of source (received source now report d) =
     (let n = ir_accepted report + ir_rejected report;
          new = (new_collector source now)\<lparr>k_last_record_at := Some now, k_records_received := n\<rparr>
      in if n = 0 then collector_of source d
         else Some (case collector_of source d of None \<Rightarrow> new | Some k \<Rightarrow> received_merge new k))"
  using receiving.find_upsert_same [of "(new_collector source now)\<lparr>k_last_record_at := Some now,
      k_records_received := ir_accepted report + ir_rejected report\<rparr>" "collectors d"]
  by (simp add: collector_of_def received_def Let_def)

text \<open>A row in order: the last error is shown while failures are counted, and no connection is.\<close>

definition failures :: "id \<Rightarrow> db \<Rightarrow> int" where
  "failures source d = (case collector_of source d of None \<Rightarrow> 0 | Some k \<Rightarrow> k_consecutive_failures k)"

definition row_in_order :: "id \<Rightarrow> db \<Rightarrow> bool" where
  "row_in_order source d \<longleftrightarrow>
     (case collector_of source d of
        None \<Rightarrow> True
      | Some k \<Rightarrow> 0 \<le> k_consecutive_failures k \<and>
          (k_consecutive_failures k = 0 \<longleftrightarrow> k_last_error k = None) \<and>
          (0 < k_consecutive_failures k \<longrightarrow> k_connected_since k = None))"

definition backs_off :: "id \<Rightarrow> backoff \<Rightarrow> db \<Rightarrow> bool" where
  "backs_off source b d \<longleftrightarrow> delay b = min (2 ^ nat (failures source d)) LAST_RETRY"

lemma row_after:
  "failures source (connected source now d) = 0" "row_in_order source (connected source now d)"
  "failures source (polled source now d) = 0" "row_in_order source (polled source now d)"
  "failures source (received source now report d) = failures source d"
  "row_in_order source d \<Longrightarrow> row_in_order source (received source now report d)"
  "failures source (failed source now error d) = failures source d + 1"
  "row_in_order source d \<Longrightarrow> row_in_order source (failed source now error d)"
proof -
  note defs = collector_of_progress collector_of_received new_collector_def stamped_def connected_assign_def
    polled_assign_def received_merge_def failed_merge_def Let_def
  show "failures source (connected source now d) = 0"
    by (cases "collector_of source d") (simp_all add: failures_def defs)
  show "row_in_order source (connected source now d)"
    by (cases "collector_of source d") (simp_all add: row_in_order_def defs)
  show "failures source (polled source now d) = 0"
    by (cases "collector_of source d") (simp_all add: failures_def defs)
  show "row_in_order source (polled source now d)"
    by (cases "collector_of source d") (simp_all add: row_in_order_def defs)
  show "failures source (received source now report d) = failures source d"
    by (cases "collector_of source d") (simp_all add: failures_def defs)
  show "row_in_order source d \<Longrightarrow> row_in_order source (received source now report d)"
    by (cases "collector_of source d") (simp_all add: row_in_order_def defs)
  show "failures source (failed source now error d) = failures source d + 1"
    by (cases "collector_of source d") (simp_all add: failures_def defs)
  show "row_in_order source d \<Longrightarrow> row_in_order source (failed source now error d)"
    by (cases "collector_of source d") (simp_all add: row_in_order_def defs)
qed

lemma resolve_collectors: "resolve c s pr a t d = (i, d') \<Longrightarrow> collectors d' = collectors d"
  by (auto simp: resolve_def Let_def simp del: resolve_fields split: option.splits)

lemma observe_collectors: "collectors (observe json_of jp i u now d) = collectors d"
  by (simp add: observe_def Let_def split: option.splits)

lemma ingest_collectors: "collectors (bt_db (ingest sv t source records d)) = collectors d"
proof -
  have one: "collectors (bt_db (ingest_record sv source t inc b)) = collectors (bt_db b)" for inc b
  proof (cases inc)
    case (Rejected error payload)
    then show ?thesis by (simp add: ingest_record_def insert_dead_letter_def)
  next
    case (Incoming e)
    obtain a d1 where r: "resolve (sv_ids sv (bt_minted b)) source (u_provider (ne_usage e)) (ne_account e)
        (u_occurred_at (ne_usage e)) (bt_db b) = (a, d1)" by fastforce
    then show ?thesis using Incoming resolve_collectors [OF r]
      by (cases rule: ingest_event_cases [where t = t]) (simp_all add: ingest_record_def observe_collectors)
  qed
  have "collectors (bt_db (fold (ingest_record sv source t) records b)) = collectors (bt_db b)" for b
    by (induction records arbitrary: b) (simp_all add: one)
  then show ?thesis by (simp add: ingest_def Let_def record_differences_eq record_change_def)
qed

section \<open>Nothing taken is lost\<close>

text \<open>
  A payload is settled when its record is among the source's events, or its refusal among the
  dead letters; it is safe when it is settled or still waits for a commit.
\<close>

definition recorded :: "'e collecting \<Rightarrow> id \<Rightarrow> string incoming \<Rightarrow> db \<Rightarrow> bool" where
  "recorded w source inc d \<longleftrightarrow>
     (case inc of
        Incoming e \<Rightarrow> (source, record_hash (cw_services w) e) \<in> event_key ` set (events d)
      | Rejected error payload \<Rightarrow>
          \<exists>l\<in>set (dead_letters d). l_source l = source \<and> l_error l = error \<and> l_payload l = payload)"

definition safe :: "cliproxy_error collecting \<Rightarrow> id \<Rightarrow> desk \<Rightarrow> string + json \<Rightarrow> bool" where
  "safe w source dk p \<longleftrightarrow> p \<in> set (dk_unsaved dk) \<or> recorded w source (record_of w p) (dk_db dk)"

text \<open>Reading a credential list writes no event, no dead letter and no collector's row.\<close>

definition syncs :: "'e collecting \<Rightarrow> bool" where
  "syncs w \<longleftrightarrow> (\<forall>k d. events (cw_synced w k d) = events d \<and> dead_letters (cw_synced w k d) = dead_letters d \<and>
      collectors (cw_synced w k d) = collectors d)"

lemma progress_fields [simp]:
  "events (progress_upsert f source now d) = events d"
  "dead_letters (progress_upsert f source now d) = dead_letters d"
  "events (connected source now d) = events d" "dead_letters (connected source now d) = dead_letters d"
  "events (polled source now d) = events d" "dead_letters (polled source now d) = dead_letters d"
  "events (received source now report d) = events d"
  "dead_letters (received source now report d) = dead_letters d"
  "events (failed source now error d) = events d" "dead_letters (failed source now error d) = dead_letters d"
  by (simp_all add: progress_upsert_def connected_def polled_def received_def failed_def Let_def)

lemma recorded_mono:
  assumes "recorded w source inc d" and "event_key ` set (events d) \<subseteq> event_key ` set (events d')"
    and "set (dead_letters d) \<subseteq> set (dead_letters d')"
  shows "recorded w source inc d'"
  using assms by (auto simp: recorded_def split: incoming.splits)

lemma recorded_cong:
  "events d = events d' \<Longrightarrow> dead_letters d = dead_letters d' \<Longrightarrow>
     recorded w source inc d = recorded w source inc d'"
  by (cases inc) (simp_all add: recorded_def)

lemma recorded_received [simp]:
  "recorded w source inc (received source' now report d) = recorded w source inc d"
  "recorded w source inc (connected source' now d) = recorded w source inc d"
  "recorded w source inc (polled source' now d) = recorded w source inc d"
  "recorded w source inc (failed source' now error d) = recorded w source inc d"
  by (rule recorded_cong; simp)+

lemma letters_grow:
  "set (dead_letters (bt_db b)) \<subseteq> set (dead_letters (bt_db (ingest_record sv source t inc b)))"
  "inc = Rejected error payload \<Longrightarrow>
     \<exists>l\<in>set (dead_letters (bt_db (ingest_record sv source t inc b))).
       l_source l = source \<and> l_error l = sv_show_error sv error \<and> l_payload l = payload"
proof -
  show "set (dead_letters (bt_db b)) \<subseteq> set (dead_letters (bt_db (ingest_record sv source t inc b)))"
  proof (cases inc)
    case (Rejected error payload)
    then show ?thesis by (auto simp: ingest_record_def insert_dead_letter_def)
  next
    case (Incoming e)
    obtain a d1 where r: "resolve (sv_ids sv (bt_minted b)) source (u_provider (ne_usage e)) (ne_account e)
        (u_occurred_at (ne_usage e)) (bt_db b) = (a, d1)" by fastforce
    then show ?thesis
    proof (cases rule: ingest_event_cases [where t = t])
      case dup
      then show ?thesis using r Incoming by (simp add: ingest_record_def)
    next
      case (new x)
      then show ?thesis using r Incoming by (simp add: ingest_record_def)
    qed
  qed
  show "inc = Rejected error payload \<Longrightarrow>
      \<exists>l\<in>set (dead_letters (bt_db (ingest_record sv source t inc b))).
        l_source l = source \<and> l_error l = sv_show_error sv error \<and> l_payload l = payload"
    by (simp add: ingest_record_def insert_dead_letter_def)
qed

lemma record_hash_services [simp]: "record_hash (services_of w k) e = record_hash (cw_services w) e"
  by (simp add: record_hash_def services_of_def)

lemma recorded_step:
  assumes "recorded w source inc (bt_db b)"
  shows "recorded w source inc (bt_db (ingest_record (services_of w k) source t inc' b))"
  by (rule recorded_mono [OF assms events_grow(1) letters_grow(1)])

lemma recorded_here: "recorded w source inc (bt_db (ingest_record (services_of w k) source t inc b))"
proof (cases inc)
  case (Incoming e)
  then show ?thesis using events_grow(2) [OF Incoming, of source "services_of w k" t b]
    by (simp add: recorded_def)
next
  case (Rejected error payload)
  then show ?thesis using letters_grow(2) [OF Rejected, of "services_of w k" source t b]
    by (simp add: recorded_def services_of_def)
qed

lemma recorded_fold:
  "recorded w source inc (bt_db b) \<Longrightarrow>
     recorded w source inc (bt_db (fold (ingest_record (services_of w k) source t) records b))"
  "inc \<in> set records \<Longrightarrow>
     recorded w source inc (bt_db (fold (ingest_record (services_of w k) source t) records b))"
proof (induction records arbitrary: b)
  case (Cons x records)
  { case 1
    then show ?case using Cons.IH(1) [OF recorded_step] by simp
  next
    case 2
    then show ?case using Cons.IH(1) [OF recorded_here [where inc = inc]] Cons.IH(2) by (cases "x = inc") auto }
qed simp_all

lemma recorded_committed:
  assumes "syncs w" and "committed w source records k d = (report, d')"
  shows "recorded w source inc d \<Longrightarrow> recorded w source inc d'"
    and "inc \<in> set records \<Longrightarrow> recorded w source inc d'"
proof -
  let ?b = "fold (ingest_record (services_of w k) source (cw_now w k)) records (opened d)"
  have "events d' = events (bt_db ?b)" "dead_letters d' = dead_letters (bt_db ?b)"
    using assms by (auto simp: committed_def Let_def syncs_def ingest_fields split: if_splits)
  then have "recorded w source inc d' = recorded w source inc (bt_db ?b)" for inc
    by (rule recorded_cong)
  then show "recorded w source inc d \<Longrightarrow> recorded w source inc d'"
    "inc \<in> set records \<Longrightarrow> recorded w source inc d'"
    using recorded_fold [where b = "opened d"] by simp_all
qed

lemma store_safe:
  assumes "syncs w" and "store w source dk = (r, dk')" and "safe w source dk p"
  shows "safe w source dk' p"
proof (cases "dk_unsaved dk = []")
  case True
  then show ?thesis using assms by (simp add: store_def)
next
  case False
  let ?k = "dk_commits dk"
  obtain report d where c: "committed w source (map (record_of w) (dk_unsaved dk)) ?k (dk_db dk) = (report, d)"
    by fastforce
  have "recorded w source (record_of w p) d"
    using assms(3) recorded_committed [OF assms(1) c] by (auto simp: safe_def)
  then show ?thesis using assms(2,3) False c
    by (cases "cw_commit w ?k") (auto simp: store_def safe_def Let_def)
qed

lemma keep_append: "keep rj u t = u @ keep rj [] t"
  by (simp add: keep_def split: sum.splits)

text \<open>What is taken from the queue: the replies that were read, and the payloads of each until one is not a bulk string.\<close>

function replies_between :: "string \<Rightarrow> string \<Rightarrow> reply list" where
  "replies_between bytes rest =
     (if bytes = rest then []
      else case Resp.read bytes of
          Inl e \<Rightarrow> []
        | Inr (reply, bytes') \<Rightarrow> reply # replies_between bytes' rest)"
  by pat_completeness auto

termination
  by (relation "measure (\<lambda>(bytes, _). length bytes)") (auto dest: read_shorter)

declare replies_between.simps [simp del]

fun bulk_payloads :: "reply list \<Rightarrow> string list" where
  "bulk_payloads (Bulk (Some payload) # items) = payload # bulk_payloads items"
| "bulk_payloads items = []"

definition popped_payloads :: "reply \<Rightarrow> string list" where
  "popped_payloads reply = (case popped reply of Inl e \<Rightarrow> [] | Inr items \<Rightarrow> bulk_payloads items)"

definition worth :: "'e collecting \<Rightarrow> string list \<Rightarrow> unsaved" where
  "worth w payloads = concat (map (keep (cw_read_json w) []) payloads)"

lemma worth_simps [simp]:
  "worth w [] = []" "worth w (t # ts) = keep (cw_read_json w) [] t @ worth w ts"
  "worth w (ts @ us) = worth w ts @ worth w us"
  by (simp_all add: worth_def)

lemma keep_items_worth: "keep_items (cw_read_json w) items u = (e, u') \<Longrightarrow> u' = u @ worth w (bulk_payloads items)"
proof (induction "cw_read_json w" items u arbitrary: u' rule: keep_items.induct)
  case (2 payload items u)
  then show ?case using keep_append [of "cw_read_json w" u payload] by simp
qed auto

lemma replies_between_same [simp]: "replies_between bytes bytes = []"
  by (simp add: replies_between.simps)

lemma replies_between_step:
  assumes "Resp.read bytes = Inr (reply, bytes')" and "length rest \<le> length bytes'"
  shows "replies_between bytes rest = reply # replies_between bytes' rest"
  using assms read_shorter [OF assms(1)] by (subst replies_between.simps) auto

lemma unsaved_safe: "p \<in> set (dk_unsaved dk) \<Longrightarrow> safe w source dk p"
  by (simp add: safe_def)

lemma safe_more:
  "safe w source dk p \<or> p \<in> set ps \<Longrightarrow> safe w source (dk\<lparr>dk_unsaved := dk_unsaved dk @ ps\<rparr>) p"
  by (auto simp: safe_def)

text \<open>A step takes payloads in: they are safe after it, all that was safe stays safe, and no failure is counted.\<close>

definition takes :: "cliproxy_error collecting \<Rightarrow> id \<Rightarrow> unsaved \<Rightarrow> desk \<Rightarrow> desk \<Rightarrow> bool" where
  "takes w source ps dk dk' \<longleftrightarrow>
     (\<forall>p. safe w source dk p \<or> p \<in> set ps \<longrightarrow> safe w source dk' p) \<and>
     failures source (dk_db dk') = failures source (dk_db dk) \<and>
     (row_in_order source (dk_db dk) \<longrightarrow> row_in_order source (dk_db dk'))"

lemma takes_Nil [simp]: "takes w source [] dk dk"
  by (simp add: takes_def)

lemma takes_more: "takes w source ps dk (dk\<lparr>dk_unsaved := dk_unsaved dk @ ps\<rparr>)"
  unfolding takes_def using safe_more by simp

lemma takes_trans: "takes w source ps dk dk1 \<Longrightarrow> takes w source qs dk1 dk2 \<Longrightarrow> takes w source (ps @ qs) dk dk2"
  by (auto simp: takes_def)

lemma store_row:
  assumes "syncs w" and "store w source dk = (r, dk')"
  shows "failures source (dk_db dk') = failures source (dk_db dk) \<and>
    (row_in_order source (dk_db dk) \<longrightarrow> row_in_order source (dk_db dk'))"
proof (cases "dk_unsaved dk = []")
  case True
  then show ?thesis using assms(2) by (simp add: store_def)
next
  case False
  let ?k = "dk_commits dk"
  obtain report d where c: "committed w source (map (record_of w) (dk_unsaved dk)) ?k (dk_db dk) = (report, d)"
    by fastforce
  then have "collectors d = collectors (dk_db dk)"
    using assms(1) by (auto simp: committed_def Let_def syncs_def ingest_collectors split: if_splits)
  then have "collector_of source d = collector_of source (dk_db dk)" by (simp add: collector_of_def)
  then have "failures source d = failures source (dk_db dk)" "row_in_order source d = row_in_order source (dk_db dk)"
    by (simp_all add: failures_def row_in_order_def)
  then show ?thesis using assms(2) False c
    by (cases "cw_commit w ?k") (auto simp: store_def Let_def row_after)
qed

lemma takes_store: "syncs w \<Longrightarrow> store w source dk = (r, dk') \<Longrightarrow> takes w source [] dk dk'"
  unfolding takes_def using store_safe store_row by simp

lemma takes_stored:
  assumes "syncs w" and "store w source (dk\<lparr>dk_unsaved := dk_unsaved dk @ ps\<rparr>) = (r, dk')"
  shows "takes w source ps dk dk'"
  using takes_trans [OF takes_more takes_store [OF assms]] by simp

lemma drain_takes:
  assumes "syncs w" and "drain w source bytes dk = (r, rest, dk')"
  shows "length rest \<le> length bytes \<and>
    takes w source (worth w (concat (map popped_payloads (replies_between bytes rest)))) dk dk'"
  using assms
proof (induction w source bytes dk rule: drain.induct)
  case (1 w source bytes dk)
  note d = 1(3) [unfolded drain.simps [of w source bytes dk]]
  show ?case
  proof (cases "Resp.read bytes")
    case (Inl e)
    then show ?thesis using d by simp
  next
    case (Inr x)
    then obtain reply bytes' where rd: "Resp.read bytes = Inr (reply, bytes')" by (cases x) auto
    note shorter = read_shorter [OF rd]
    note one = replies_between_step [OF rd order_refl]
    show ?thesis
    proof (cases "popped reply")
      case (Inl e)
      then show ?thesis using d rd shorter one by (simp add: popped_payloads_def)
    next
      case (Inr items)
      have texts: "popped_payloads reply = bulk_payloads items" using Inr by (simp add: popped_payloads_def)
      obtain ke u where k: "keep_items (cw_read_json w) items (dk_unsaved dk) = (ke, u)" by fastforce
      note u = keep_items_worth [OF k]
      show ?thesis
      proof (cases "items = []")
        case True
        then show ?thesis using d rd Inr shorter one texts by simp
      next
        case False
        show ?thesis
        proof (cases ke)
          case (Some e)
          then show ?thesis using d rd Inr False k u shorter one texts by (auto simp: takes_more)
        next
          case None
          obtain se dk1 where st: "store w source (dk\<lparr>dk_unsaved := u\<rparr>) = (se, dk1)" by fastforce
          have t: "takes w source (worth w (popped_payloads reply)) dk dk1"
            using takes_stored [OF 1(2) st [unfolded u]] by (simp add: texts)
          show ?thesis
          proof (cases se)
            case (Some e)
            then show ?thesis using d rd Inr False k None st shorter one t by simp
          next
            case None
            have "drain w source bytes' dk1 = (r, rest, dk')"
              using d rd Inr False k \<open>ke = None\<close> st None by simp
            from 1(1) [OF rd refl Inr False k [unfolded \<open>ke = None\<close>, symmetric] refl st [unfolded None, symmetric] refl 1(2) this]
            have "length rest \<le> length bytes'"
              "takes w source (worth w (concat (map popped_payloads (replies_between bytes' rest)))) dk1 dk'"
              by simp_all
            then show ?thesis using replies_between_step [OF rd] takes_trans [OF t] shorter by simp
          qed
        qed
      qed
    qed
  qed
qed

definition payloads :: "channel \<Rightarrow> string list" where
  "payloads ch = List.map_filter (\<lambda>x. case x of Inr t \<Rightarrow> Some t | Inl e \<Rightarrow> None) ch"

lemma payloads_simps [simp]:
  "payloads [] = []" "payloads (Inr t # ch) = t # payloads ch" "payloads (Inl e # ch) = payloads ch"
  by (simp_all add: payloads_def List.map_filter_simps)

lemma gather_takes:
  assumes "gather (cw_read_json w) n ch u = (r, u', ch')"
  shows "\<exists>taken. ch = taken @ ch' \<and> u' = u @ worth w (payloads taken)"
  using assms
proof (induction "cw_read_json w" n ch u rule: gather.induct)
  case (1 ch u)
  then show ?case by simp
next
  case (2 n ch u)
  show ?case
  proof (cases "BATCH_RECORDS \<le> length u")
    case True
    then show ?thesis using 2(2) by simp
  next
    case False
    show ?thesis
    proof (cases ch)
      case Nil
      then show ?thesis using 2(2) False by simp
    next
      case (Cons x xs)
      show ?thesis
      proof (cases x)
        case (Inl e)
        then show ?thesis using 2(2) False Cons by (intro exI [of _ "[x]"]) simp
      next
        case (Inr t)
        then have "gather (cw_read_json w) n xs (keep (cw_read_json w) u t) = (r, u', ch')"
          using 2(2) False Cons by simp
        from 2(1) [OF False Cons Inr this] obtain taken where
          "xs = taken @ ch'" "u' = keep (cw_read_json w) u t @ worth w (payloads taken)" by auto
        then show ?thesis using Cons Inr keep_append [of "cw_read_json w" u t]
          by (intro exI [of _ "Inr t # taken"]) simp
      qed
    qed
  qed
qed

lemma follow_takes:
  assumes "syncs w" and "follow w source k ch dk = (e, dropped, dk')"
  shows "\<exists>taken. ch = taken @ dropped \<and> takes w source (worth w (payloads taken)) dk dk'"
  using assms
proof (induction w source k ch dk rule: follow.induct)
  case (1 w source k dk)
  then show ?case by (simp add: follow.simps)
next
  case (2 w source k e' ch dk)
  then show ?case by (intro exI [of _ "[Inl e']"]) (simp add: follow.simps)
next
  case (3 w source k t ch dk)
  note f = 3(3) [unfolded follow.simps(3)]
  obtain ge u ch1 where g: "gather (cw_read_json w) (cw_window w k) ch
      (keep (cw_read_json w) (dk_unsaved dk) t) = (ge, u, ch1)" by (metis prod_cases3)
  then obtain more where more: "ch = more @ ch1"
    "u = keep (cw_read_json w) (dk_unsaved dk) t @ worth w (payloads more)" using gather_takes by blast
  let ?taken = "Inr t # more :: channel"
  have u: "u = dk_unsaved dk @ worth w (payloads ?taken)"
    using more(2) keep_append [of "cw_read_json w" "dk_unsaved dk" t] by simp
  show ?case
  proof (cases ge)
    case (Some x)
    then show ?thesis using f g u more(1) by (intro exI [of _ ?taken]) (auto simp: takes_more simp del: worth_simps)
  next
    case None
    obtain se dk1 where st: "store w source (dk\<lparr>dk_unsaved := u\<rparr>) = (se, dk1)" by fastforce
    note t = takes_stored [OF 3(2) st [unfolded u]]
    show ?thesis
    proof (cases se)
      case (Some x)
      then show ?thesis using f g None st t more by (intro exI [of _ ?taken]) simp
    next
      case None
      have "follow w source (k + 1) ch1 dk1 = (e, dropped, dk')"
        using f g \<open>ge = None\<close> st None by simp
      from 3(1) [OF g [unfolded \<open>ge = None\<close>, symmetric] refl refl st [unfolded None, symmetric] refl 3(2) this]
      obtain later where "ch1 = later @ dropped" "takes w source (worth w (payloads later)) dk1 dk'" by blast
      then show ?thesis using more takes_trans [OF t]
        by (intro exI [of _ "?taken @ later"]) (simp add: payloads_def List.map_filter_def)
    qed
  qed
qed

lemma serve_takes:
  assumes "syncs w" and "serve w source secret peer pushed dk = (e, dropped, dk')"
  shows "takes w source [] dk dk'"
proof -
  obtain r dk1 where st: "store w source dk = (r, dk1)" by fastforce
  note t = takes_store [OF assms(1) st]
  have only: "takes w source [] a b" if "takes w source ps a b" for ps a b
    using that by (simp add: takes_def)
  show ?thesis
  proof (cases r)
    case (Some x)
    then show ?thesis using assms(2) st t by (simp add: serve_def)
  next
    case None
    show ?thesis
    proof (cases "open_connection (pr_popper peer) (popper_sends secret)")
      case (Inl x)
      then show ?thesis using assms(2) st t None by (simp add: serve_def)
    next
      case (Inr bytes)
      obtain r2 rest dk2 where dr: "drain w source bytes dk1 = (r2, rest, dk2)" by (metis prod_cases3)
      from takes_trans [OF t only] drain_takes [OF assms(1) dr]
      have t2: "takes w source [] dk dk2" by fastforce
      show ?thesis
      proof (cases r2)
        case (Some x)
        then show ?thesis using assms(2) st None Inr dr t2 by (simp add: serve_def)
      next
        case None
        then have "follow w source 0 (read_pushed pushed) dk2 = (e, dropped, dk')"
          using assms(2) st \<open>r = None\<close> Inr dr by (simp add: serve_def)
        from takes_trans [OF t2 only] follow_takes [OF assms(1) this] show ?thesis by fastforce
      qed
    qed
  qed
qed

lemma session_row:
  assumes "syncs w" and "session w url network source config b dk = (e, b', dk')"
    and "row_in_order source (dk_db dk)" and "backs_off source b (dk_db dk)"
  shows "row_in_order source (dk_db dk') \<and> backs_off source b' (dk_db dk') \<and>
    (\<forall>p. safe w source dk p \<longrightarrow> safe w source dk' p)"
proof (cases "subscription network (sc_secret config) (address url (sc_base_url config))")
  case (Inl x)
  then show ?thesis using assms by (simp add: session_def)
next
  case (Inr x)
  then obtain peer pushed where s: "subscription network (sc_secret config) (address url (sc_base_url config)) = Inr (peer, pushed)"
    by (cases x) auto
  show ?thesis
  proof (cases "pr_counted peer")
    case False
    then show ?thesis using assms s by (simp add: session_def)
  next
    case True
    let ?dk = "dk\<lparr>dk_db := connected source (pr_connected_at peer) (dk_db dk)\<rparr>"
    obtain x dropped dk1 where sv: "serve w source (sc_secret config) peer pushed ?dk = (x, dropped, dk1)" by (metis prod_cases3)
    then have d: "dk' = dk1" "b' = reset_backoff b" using assms(2) s True by (simp_all add: session_def)
    have "safe w source dk p \<Longrightarrow> safe w source ?dk p" for p by (simp add: safe_def)
    then show ?thesis
      using serve_takes [OF assms(1) sv]
      by (simp add: takes_def d row_after backs_off_def reset_backoff_def FIRST_RETRY_def LAST_RETRY_def)
  qed
qed

lemma retry_row:
  assumes "row_in_order source d" and "backs_off source b d" and "retry_after ph source now True e b d = (s, b', d')"
  shows "row_in_order source d' \<and> backs_off source b' d' \<and> int s = min (2 ^ nat (failures source d' - 1)) 60 \<and>
    events d' = events d \<and> dead_letters d' = dead_letters d"
proof -
  have f: "0 \<le> failures source d"
    using assms(1) by (simp add: row_in_order_def failures_def split: option.splits)
  have d': "d' = failed source now (collector_text ph e) d" "s = delay b" "b' = b\<lparr>delay := min (delay b * 2) LAST_RETRY\<rparr>"
    using assms(3) by (auto simp: retry_after_def wait_def)
  let ?n = "nat (failures source d)"
  have n: "nat (failures source d') = Suc ?n" "nat (failures source d' - 1) = ?n"
    using f by (simp_all add: d' row_after)
  have "min (min x 60 * 2) 60 = min (2 * x) 60" for x :: nat by (simp add: min_def)
  then have "delay b' = min (2 ^ Suc ?n) 60"
    using assms(2) by (simp add: d' backs_off_def LAST_RETRY_def)
  moreover have "int (delay b) = min (2 ^ ?n) 60"
    using assms(2) by (simp add: backs_off_def LAST_RETRY_def of_nat_min)
  moreover have "row_in_order source d'" using assms(1) by (simp add: d' row_after)
  ultimately show ?thesis using n d'(2) by (simp add: backs_off_def LAST_RETRY_def d'(1))
qed

lemma run_row:
  assumes "syncs w" and "run w ph url source config sessions b dk = (waits, b', dk')"
    and "\<forall>(network, now, written) \<in> set sessions. written"
    and "row_in_order source (dk_db dk)" and "backs_off source b (dk_db dk)"
  shows "row_in_order source (dk_db dk') \<and> backs_off source b' (dk_db dk') \<and>
    length waits = length sessions \<and> (\<forall>s\<in>set waits. 1 \<le> s \<and> s \<le> 60) \<and>
    (\<forall>p. safe w source dk p \<longrightarrow> safe w source dk' p)"
  using assms(2-)
proof (induction sessions arbitrary: b dk waits)
  case Nil
  then show ?case by simp
next
  case (Cons x sessions)
  obtain network now written where x: "x = (network, now, written)" by (metis prod_cases3)
  obtain e b1 dk1 where s: "session w url network source config b dk = (e, b1, dk1)" by (metis prod_cases3)
  obtain seconds b2 d where r: "retry_after ph source now written e b1 (dk_db dk1) = (seconds, b2, d)"
    by (metis prod_cases3)
  obtain more where run: "run w ph url source config sessions b2 (dk1\<lparr>dk_db := d\<rparr>) = (more, b', dk')"
    "waits = seconds # more"
    using Cons.prems(1) x s r by (auto split: prod.splits)
  note one = session_row [OF assms(1) s Cons.prems(3,4)]
  have r': "retry_after ph source now True e b1 (dk_db dk1) = (seconds, b2, d)"
    using r x Cons.prems(2) by simp
  from retry_row [OF conjunct1 [OF one] conjunct1 [OF conjunct2 [OF one]] r']
  have two: "row_in_order source d" "backs_off source b2 d"
    "int seconds = min (2 ^ nat (failures source d - 1)) 60"
    "events d = events (dk_db dk1)" "dead_letters d = dead_letters (dk_db dk1)" by simp_all
  have "(1 :: int) \<le> 2 ^ n" for n by simp
  then have "1 \<le> int seconds \<and> int seconds \<le> 60" unfolding two(3) by (simp add: min_le_iff_disj)
  then have bounds: "1 \<le> seconds \<and> seconds \<le> 60" by linarith
  have "safe w source dk1 p = safe w source (dk1\<lparr>dk_db := d\<rparr>) p" for p
    by (simp add: safe_def recorded_cong [OF two(4,5)])
  moreover have "row_in_order source (dk_db (dk1\<lparr>dk_db := d\<rparr>))" "backs_off source b2 (dk_db (dk1\<lparr>dk_db := d\<rparr>))"
    using two(1,2) by simp_all
  moreover have "\<forall>(network, now, written) \<in> set sessions. written" using Cons.prems(2) by simp
  ultimately show ?case
    using Cons.IH [OF run(1)] one bounds run(2) by simp
qed

section \<open>Every page is read\<close>

definition report_size :: "ingest_report \<Rightarrow> int" where
  "report_size r = ir_accepted r + ir_duplicates r + ir_rejected r"

lemma report_size_record:
  "report_size (bt_report (ingest_record sv source t inc b)) = report_size (bt_report b) + 1"
proof (cases inc)
  case (Rejected error payload)
  then show ?thesis by (simp add: ingest_record_def report_size_def)
next
  case (Incoming e)
  obtain a d1 where r: "resolve (sv_ids sv (bt_minted b)) source (u_provider (ne_usage e)) (ne_account e)
      (u_occurred_at (ne_usage e)) (bt_db b) = (a, d1)" by fastforce
  then show ?thesis using Incoming
    by (cases rule: ingest_event_cases [where t = t]) (simp_all add: ingest_record_def report_size_def)
qed

lemma report_size_ingest: "report_size (bt_report (ingest sv source t records d)) = int (length records)"
proof -
  have "report_size (bt_report (fold (ingest_record sv t source) records b)) =
      report_size (bt_report b) + int (length records)" for b
    by (induction records arbitrary: b) (simp_all add: report_size_record)
  then show ?thesis by (simp add: ingest_fields) (simp add: report_size_def)
qed

lemma store_rows_counted:
  assumes "syncs (pl_world pl)" and "\<forall>k. cw_commit (pl_world pl) k = Counted"
  shows "\<exists>tally' dk'. store_rows pl source rows (tally, dk) = (Inr tally', dk') \<and>
    report_size tally' = report_size tally + int (length rows) \<and>
    (\<forall>inc. recorded (pl_world pl) source inc (dk_db dk) \<or> inc \<in> row_of pl ` set rows \<longrightarrow>
      recorded (pl_world pl) source inc (dk_db dk'))"
proof (cases "rows = []")
  case True
  then show ?thesis by (simp add: store_rows_def)
next
  case False
  obtain report d where c: "committed (pl_world pl) source (map (row_of pl) rows) (dk_commits dk) (dk_db dk) = (report, d)"
    by fastforce
  then have "report_size report = int (length rows)"
    by (auto simp: committed_def Let_def report_size_ingest)
  moreover have "report_size (add_report tally report) = report_size tally + report_size report"
    by (simp add: report_size_def add_report_def)
  moreover have "recorded (pl_world pl) source inc d"
    if "recorded (pl_world pl) source inc (dk_db dk) \<or> inc \<in> row_of pl ` set rows" for inc
    using that recorded_committed [OF assms(1) c] by auto
  ultimately show ?thesis using False c assms(2) by (simp add: store_rows_def Let_def)
qed

definition last_rows :: "collector_error + json list \<Rightarrow> json list" where
  "last_rows answer = (case answer of Inl e \<Rightarrow> [] | Inr rows \<Rightarrow> rows)"

lemma read_pages_all:
  assumes "syncs (pl_world pl)" and "\<forall>k. cw_commit (pl_world pl) k = Counted"
    and "\<forall>i<length pages. ask_page pl config start now (page + i) = Inr (pages ! i) \<and> PAGE_SIZE \<le> length (pages ! i)"
    and "ask_page pl config start now (page + length pages) = final" and "length (last_rows final) < PAGE_SIZE"
  shows "\<exists>answer dk'. read_pages pl source config start now page (tally, dk) = Some (answer, dk') \<and>
    (case final of Inl e \<Rightarrow> answer = Inl e
     | Inr rows \<Rightarrow> \<exists>t. answer = Inr t \<and> report_size t = report_size tally + int (length (concat pages @ rows))) \<and>
    (\<forall>inc. recorded (pl_world pl) source inc (dk_db dk) \<or> inc \<in> row_of pl ` set (concat pages @ last_rows final) \<longrightarrow>
      recorded (pl_world pl) source inc (dk_db dk'))"
  using assms(3-)
proof (induction pages arbitrary: page tally dk)
  case Nil
  then have final: "ask_page pl config start now page = final" by simp
  show ?case
  proof (cases final)
    case (Inl e)
    then show ?thesis using final by (simp add: read_pages.simps [of pl] last_rows_def)
  next
    case (Inr rows)
    then have "length rows < PAGE_SIZE" using Nil by (simp add: last_rows_def)
    then show ?thesis using final Inr store_rows_counted [OF assms(1,2), of source rows tally dk]
      by (auto simp: read_pages.simps [of pl _ _ _ _ page] last_rows_def)
  qed
next
  case (Cons rows pages)
  have here: "ask_page pl config start now page = Inr rows" "\<not> length rows < PAGE_SIZE"
    using Cons.prems(1) by force+
  obtain tally1 dk1 where st: "store_rows pl source rows (tally, dk) = (Inr tally1, dk1)"
    "report_size tally1 = report_size tally + int (length rows)"
    "\<And>inc. recorded (pl_world pl) source inc (dk_db dk) \<or> inc \<in> row_of pl ` set rows \<Longrightarrow>
      recorded (pl_world pl) source inc (dk_db dk1)"
    using store_rows_counted [OF assms(1,2), of source rows tally dk] by blast
  have step: "read_pages pl source config start now page (tally, dk) =
      read_pages pl source config start now (page + 1) (tally1, dk1)"
    using here st(1) by (simp add: read_pages.simps [of pl _ _ _ _ page])
  have "\<forall>i<length pages. ask_page pl config start now (page + 1 + i) = Inr (pages ! i) \<and> PAGE_SIZE \<le> length (pages ! i)"
    using Cons.prems(1) by (auto dest: spec [of _ "Suc _"])
  moreover have "ask_page pl config start now (page + 1 + length pages) = final" using Cons.prems(2) by simp
  ultimately obtain answer dk' where
    rest: "read_pages pl source config start now (page + 1) (tally1, dk1) = Some (answer, dk')"
    "case final of Inl e \<Rightarrow> answer = Inl e
     | Inr rows \<Rightarrow> \<exists>t. answer = Inr t \<and> report_size t = report_size tally1 + int (length (concat pages @ rows))"
    "\<And>inc. recorded (pl_world pl) source inc (dk_db dk1) \<or> inc \<in> row_of pl ` set (concat pages @ last_rows final) \<Longrightarrow>
      recorded (pl_world pl) source inc (dk_db dk')"
    using Cons.IH [of "page + 1" tally1 dk1] Cons.prems(3) by blast
  have all: "recorded (pl_world pl) source inc (dk_db dk')"
    if "recorded (pl_world pl) source inc (dk_db dk) \<or> inc \<in> row_of pl ` set (concat (rows # pages) @ last_rows final)"
    for inc
  proof -
    have "(recorded (pl_world pl) source inc (dk_db dk) \<or> inc \<in> row_of pl ` set rows) \<or>
        inc \<in> row_of pl ` set (concat pages @ last_rows final)"
      using that unfolding concat.simps set_append image_Un by blast
    then show ?thesis using st(3) rest(3) by blast
  qed
  have "case final of Inl e \<Rightarrow> answer = Inl e
     | Inr rs \<Rightarrow> \<exists>t. answer = Inr t \<and> report_size t = report_size tally + int (length (concat (rows # pages) @ rs))"
    using rest(2) st(2) by (cases final) auto
  with all show ?case unfolding step rest(1) by blast
qed

section \<open>A small world\<close>

text \<open>Every payload reads as its own text, and every commit ends one way.\<close>

definition small_world :: "commit \<Rightarrow> 'e collecting" where
  "small_world c =
     \<lparr>cw_services = \<lparr>sv_json_of = \<lambda>_. None, sv_parse_instant = \<lambda>_. None, sv_print_instant = \<lambda>_. [],
        sv_hash = id, sv_show_error = id, sv_ids = int\<rparr>,
      cw_ids = \<lambda>k n. int n, cw_now = \<lambda>_. 0, cw_commit = \<lambda>_. c, cw_synced = \<lambda>_ d. d,
      cw_read_json = \<lambda>t. Inr (JString t), cw_show_error = \<lambda>_. [], cw_window = \<lambda>_. 0\<rparr>"

definition empty_desk :: desk where
  "empty_desk = \<lparr>dk_unsaved = [], dk_db = empty_db, dk_commits = 0\<rparr>"

lemma small_world_syncs: "syncs (small_world c)"
  by (simp add: syncs_def small_world_def)

lemma small_world_store:
  "dk_unsaved dk \<noteq> [] \<Longrightarrow> store (small_world Aborted) source dk = (Some Database, dk\<lparr>dk_commits := dk_commits dk + 1\<rparr>)"
  by (simp add: store_def Let_def small_world_def split: prod.split)

definition small_config :: source_config where
  "small_config =
     \<lparr>sc_key = ''g'', sc_name = ''g'', sc_kind = CliProxy, sc_base_url = ''u'', sc_secret = ''s''\<rparr>"

definition small_phrases :: phrases where
  "small_phrases =
     \<lparr>ph_quote = id, ph_quote_char = (\<lambda>c. [c]), ph_io = ''io'', ph_database = ''db'', ph_http = ''http'',
      ph_status = show_nat\<rparr>"

definition no_gateway :: "string \<times> nat \<Rightarrow> peer" where
  "no_gateway =
     (\<lambda>_. \<lparr>pr_subscriber = Inl Io, pr_popper = Inl Io, pr_connected_at = 0, pr_counted = True\<rparr>)"

definition one_item :: reply where
  "one_item = Array (Some [Bulk (Some ''x'')])"

lemma one_item_drain:
  "drain (small_world Aborted) 1 (reply_bytes one_item @ rest) empty_desk =
     (Some Database, rest, \<lparr>dk_unsaved = [Inr (JString ''x'')], dk_db = empty_db, dk_commits = 1\<rparr>)"
proof -
  have "Resp.read (reply_bytes one_item @ rest) = Inr (one_item, rest)"
    by (rule read_reply) (simp add: one_item_def MAX_ARRAY_LENGTH_def MAX_BULK_LENGTH_def)
  moreover have "popped one_item = Inr [Bulk (Some ''x'')]" by (simp add: popped_def one_item_def)
  moreover have "keep_items (cw_read_json (small_world Aborted :: cliproxy_error collecting)) [Bulk (Some ''x'')] [] =
      (None, [Inr (JString ''x'')])"
    by (simp add: keep_def small_world_def is_control_def)
  ultimately show ?thesis
    by (simp add: drain.simps [of _ _ "reply_bytes one_item @ rest"] empty_desk_def small_world_store)
qed

section \<open>Properties\<close>








definition small_polling :: polling where
  "small_polling =
     \<lparr>pl_world = small_world Counted, pl_civil = \<lambda>_. None, pl_window_text = \<lambda>_. [], pl_url_ok = \<lambda>_. True,
      pl_answer = \<lambda>_ _. Answer 200 (Some [JNull]), pl_counted = True\<rparr>"


end
