(* ===== verification/Timers.thy ===== *)
theory Timers
  imports Journal Catalog Ingest
begin

text \<open>
  The background tasks that \<^verbatim>\<open>src/main.rs\<close> spawns: their periods, and what each does when its
  timer ticks. The timers are tokio's; a tick is a step, and the ticks come in any order. What a
  fetch of the price maps answers and the ids that are minted for them are free in their rule.
\<close>

section \<open>Periods\<close>

definition SECONDS_PER_HOUR :: u64 where "SECONDS_PER_HOUR = 3600"

definition FILL_INTERVAL :: u64 where "FILL_INTERVAL = 60"

definition SOFT_SYNC_INTERVAL :: u64 where "SOFT_SYNC_INTERVAL = 180"

definition EXPIRE_EVERY :: u64 where "EXPIRE_EVERY = 1"

definition CHANGE_PRUNE_EVERY :: u64 where "CHANGE_PRUNE_EVERY = 3600"

definition DEAD_LETTER_PRUNE_EVERY :: u64 where "DEAD_LETTER_PRUNE_EVERY = 86400"

text \<open>The seconds between two syncs of the prices: the product wraps in a release build.\<close>

definition refresh_interval :: "u64 \<Rightarrow> u64" where
  "refresh_interval hours = max hours 1 * SECONDS_PER_HOUR"

section \<open>Ticks\<close>

definition clock_of :: "'u api_env \<Rightarrow> service \<Rightarrow> instant" where
  "clock_of api s = clock (ae_env api) (se_quota s)"

definition pricing_names :: "'u api_env \<Rightarrow> (string \<times> string) list" where
  "pricing_names api = pc_priced_as (cg_pricing (qe_config (ae_env api)))"

definition fill_tick :: "'u api_env \<Rightarrow> service \<Rightarrow> service" where
  "fill_tick api s = set_db (snd (fill (clock_of api s) (pricing_names api) (db_of s))) s"

definition price_tick ::
  "'u api_env \<Rightarrow> (nat \<Rightarrow> id) \<Rightarrow> (origin \<times> catalog_price list option) list \<Rightarrow> service \<Rightarrow> service" where
  "price_tick api fresh maps s =
     set_db (snd (sync_catalog (clock_of api s) fresh (pricing_names api) maps (db_of s))) s"

definition sync_logged :: "'u api_env \<Rightarrow> id option \<Rightarrow> service \<Rightarrow> service" where
  "sync_logged api only s = s\<lparr>se_quota := snd (sync (ae_env api) only (se_quota s))\<rparr>"

definition recover_expired :: "'u api_env \<Rightarrow> (service \<Rightarrow> service) \<Rightarrow> service \<Rightarrow> service" where
  "recover_expired api others s =
     fold (\<lambda>i s. snd (automatic_recovery api others i s)) (expired_sign_ins (db_of s)) s"

definition quota_tick :: "'u api_env \<Rightarrow> (service \<Rightarrow> service) \<Rightarrow> service \<Rightarrow> service" where
  "quota_tick api others s = recover_expired api others (sync_logged api None s)"

definition expire_tick :: "'u api_env \<Rightarrow> service \<Rightarrow> service" where
  "expire_tick api s = set_db (expire (clock_of api s) (db_of s)) s"

definition change_prune_tick :: "'u api_env \<Rightarrow> service \<Rightarrow> service" where
  "change_prune_tick api s = set_db (fst (prune (clock_of api s) (db_of s))) s"

definition dead_letter_prune_tick :: "'u api_env \<Rightarrow> service \<Rightarrow> service" where
  "dead_letter_prune_tick api s = set_db (snd (prune_dead_letters (clock_of api s) (db_of s))) s"

inductive timer_step :: "'u api_env \<Rightarrow> (service \<Rightarrow> service) \<Rightarrow> service \<Rightarrow> service \<Rightarrow> bool"
  for api others where
  filled: "timer_step api others s (fill_tick api s)"
| priced: "timer_step api others s (price_tick api fresh maps s)"
| synced: "timer_step api others s (quota_tick api others s)"
| expired: "timer_step api others s (expire_tick api s)"
| changes_pruned: "timer_step api others s (change_prune_tick api s)"
| dead_letters_pruned: "timer_step api others s (dead_letter_prune_tick api s)"

abbreviation timer_steps :: "'u api_env \<Rightarrow> (service \<Rightarrow> service) \<Rightarrow> service \<Rightarrow> service \<Rightarrow> bool" where
  "timer_steps api others \<equiv> (timer_step api others)\<^sup>*\<^sup>*"

section \<open>Lemmas\<close>

text \<open>The period is at least an hour for every configuration that is meant, and can wrap to zero.\<close>

lemma refresh_interval_bound:
  assumes "unat h \<le> 5124095576030431"
  shows "unat (refresh_interval h) = max (unat h) 1 * 3600"
proof -
  have m: "unat (max h 1) = max (unat h) 1" by (simp add: max_def word_le_nat_alt)
  have "unat (max h 1) * unat SECONDS_PER_HOUR < 2 ^ 64" using assms by (simp add: m SECONDS_PER_HOUR_def)
  then have "unat (refresh_interval h) = unat (max h 1) * unat SECONDS_PER_HOUR"
    unfolding refresh_interval_def by (subst unat_mult_lem [symmetric]) simp
  then show ?thesis by (simp add: m SECONDS_PER_HOUR_def)
qed

lemma refresh_interval_wraps_to_zero: "refresh_interval (2 ^ 60) = 0"
  by (simp add: refresh_interval_def SECONDS_PER_HOUR_def max_def word_le_nat_alt)

lemma sync_each_extends: "P ListAuthFiles \<Longrightarrow> extends P st (snd (sync_each env srcs st))"
proof (induction srcs arbitrary: st)
  case Nil
  then show ?case by simp
next
  case (Cons src srcs)
  obtain s c where src: "src = (s, c)" by (cases src)
  obtain l st1 where l: "run_io (list_auth_files (qe_codecs env) (qe_world env)) st = (l, st1)" by fastforce
  have 1: "extends P st st1" using Cons.prems by (intro extends_run [OF sends_list_auth_files l])
  show ?case
  proof (cases l)
    case (Inl e)
    then show ?thesis using extends_trans [OF 1 Cons.IH [OF Cons.prems]] by (simp add: src l split_beta)
  next
    case (Inr listing)
    have "extends P st1 (snd (store env (s_id (so_row s)) listing st1))" by (intro extends_same) simp
    then show ?thesis using extends_trans [OF 1 extends_trans [OF _ Cons.IH [OF Cons.prems]]] by (simp add: src l Inr)
  qed
qed

abbreviation quiet_step :: "service \<Rightarrow> service \<Rightarrow> bool" where
  "quiet_step s s1 \<equiv> extends free_read (se_quota s) (se_quota s1)"

lemma set_db_quiet [simp]: "quiet_step s (set_db d s)"
  by (intro extends_same) simp

lemma refresh_answer_state: "snd (refresh_answer api outcome) = snd outcome"
  by (auto simp: refresh_answer_def split: prod.splits sum.splits refresh_request_error.splits)

lemma automatic_endpoint_quiet:
  "extends free_read st (snd (answered cx (refresh_quota_mode api (Some text) True st)))"
proof (cases "parse_id text")
  case (Some i)
  have "extends free_read st (snd (refresh_automatic (ae_env api) i st))"
    using automatic_refresh_sends_reads unfolding extends_def .
  then show ?thesis using Some by (simp add: answered_def refresh_quota_mode_def refresh_answer_state)
qed (simp add: answered_def refresh_quota_mode_def)

lemma run_quiet:
  assumes "\<And>input st. extends free_read st (snd (endpoint input st))" and "\<And>s. quiet_step s (others s)"
  shows "quiet_step s (snd (run api endpoint others input iv kind s))"
proof -
  obtain c s1 where c: "claim api iv kind s = (c, s1)" by fastforce
  have 1: "quiet_step s s1" using claim_sent [OF c] by (rule extends_same)
  have 2: "quiet_step s (others s1)" using extends_trans [OF 1 assms(2)] .
  show ?thesis
  proof (cases c)
    case (Fresh v)
    obtain answered st3 where e: "endpoint input (se_quota (others s1)) = (answered, st3)" by fastforce
    obtain status body where x: "execution (codecs_of api) answered = (status, body)" by fastforce
    have "extends free_read (se_quota s) st3" using extends_trans [OF 2 assms(1)] e by (metis snd_conv)
    then show ?thesis by (simp add: run_def c Fresh Let_def e x extends_def)
  next
    case (Reused v)
    then show ?thesis using 2 by (simp add: run_def c Let_def)
  next
    case Conflict
    then show ?thesis using 1 by (simp add: run_def c extends_def)
  qed
qed

lemma set_db_same: "set_db (db_of s) s = s"
  by (simp add: set_db_def with_db_def)

lemma execute_cases:
  obtains (rejected) caller status t where "execute api endpoint others kind i r s = reject api kind i caller status t s"
    | (idle) d where "snd (execute api endpoint others kind i r s) = set_db d s"
    | (ran) input iv d where "execute api endpoint others kind i r s = run api endpoint others input iv kind (set_db d s)"
proof -
  let ?requested_at = "clock (ae_env api) (se_quota s)"
  let ?label = "header_text r ''x-quota-client''"
  let ?caller = "if valid_label ?label then unwrap_or [] ?label else ''invalid-or-missing''"
  let ?input = "cx_json (codecs_of api) (hr_body r)"
  let ?iv = "invocation_of kind (unwrap_or JNull ?input) ?caller ?requested_at i (header_text r ''idempotency-key'')"
  show thesis
  proof (cases "rejection r kind ?input")
    case (Some refused)
    then show ?thesis using rejected [of ?caller "fst refused" "snd refused"]
      by (simp add: execute_def Let_def split_beta)
  next
    case None
    show ?thesis
    proof (cases "idn_transport i = ''internal'' \<and> kind = ''hard_refresh''")
      case False
      have "execute api endpoint others kind i r s = run api endpoint others (unwrap_or JNull ?input) ?iv kind s"
        unfolding execute_def Let_def None option.case if_not_P [OF False] by (rule refl)
      then show ?thesis using ran [of "unwrap_or JNull ?input" ?iv "db_of s"] by (simp add: set_db_same)
    next
      case True
      note internal = execute_def Let_def None option.case if_P [OF True]
      show ?thesis
      proof (cases "Option.bind (iv_account ?iv) parse_id")
        case no_account: None
        have "snd (execute api endpoint others kind i r s) = s"
          unfolding internal no_account option.case by simp
        then show ?thesis using idle [of "db_of s"] by (simp add: set_db_same)
      next
        case (Some account)
        obtain due d1 where d: "claim_due (db_of s) account ?requested_at = (due, d1)" by fastforce
        have e: "execute api endpoint others kind i r s =
            (if due then run api endpoint others (unwrap_or JNull ?input) ?iv kind (set_db d1 s)
             else (no_content, set_db d1 s))"
          unfolding internal Some option.case d by simp
        show ?thesis
        proof (cases due)
          case due: True
          show ?thesis using ran [of "unwrap_or JNull ?input" ?iv d1] e by (simp only: due if_True)
        next
          case False
          show ?thesis using idle [of d1] e by (simp only: False if_False snd_conv)
        qed
      qed
    qed
  qed
qed

lemma automatic_recovery_quiet:
  assumes "\<And>s. quiet_step s (others s)"
  shows "quiet_step s (snd (automatic_recovery api others i s))"
  unfolding automatic_recovery_def
proof (cases rule: execute_cases [of api
    "\<lambda>_ st. answered (codecs_of api) (refresh_quota_mode api (Some (encode_id i)) True st)" others
    "''hard_refresh''" recovery_identity "recovery_request api i" s])
  case (rejected caller status t)
  then show "quiet_step s (snd (execute api (\<lambda>_ st. answered (codecs_of api)
      (refresh_quota_mode api (Some (encode_id i)) True st)) others ''hard_refresh'' recovery_identity
      (recovery_request api i) s))"
    by (intro extends_same) simp
next
  case (idle d)
  then show "quiet_step s (snd (execute api (\<lambda>_ st. answered (codecs_of api)
      (refresh_quota_mode api (Some (encode_id i)) True st)) others ''hard_refresh'' recovery_identity
      (recovery_request api i) s))"
    by simp
next
  case (ran input iv d)
  then show "quiet_step s (snd (execute api (\<lambda>_ st. answered (codecs_of api)
      (refresh_quota_mode api (Some (encode_id i)) True st)) others ''hard_refresh'' recovery_identity
      (recovery_request api i) s))"
    using extends_trans [OF set_db_quiet run_quiet [OF automatic_endpoint_quiet assms]] by simp
qed

lemma quota_tick_quiet:
  assumes "\<And>s. quiet_step s (others s)"
  shows "quiet_step s (quota_tick api others s)"
proof -
  have fold: "quiet_step s (fold (\<lambda>i s. snd (automatic_recovery api others i s)) is s)" for "is" s
  proof (induction "is" arbitrary: s)
    case (Cons i "is")
    then show ?case using extends_trans [OF automatic_recovery_quiet [OF assms] Cons.IH] by simp
  qed simp
  have "quiet_step s (sync_logged api None s)"
    using sync_each_extends [of free_read] by (simp add: sync_logged_def sync_def free_read_def)
  from extends_trans [OF this fold] show ?thesis by (simp add: quota_tick_def recover_expired_def)
qed

section \<open>Properties\<close>

text \<open>
  C26: Nothing runs up a bill on its own. Whatever the timers do, for as long as they tick, the
  gateway is sent only its credential list and calls that read, if the requests that come in
  meanwhile send nothing else either: no paid completion, no minted key, no consumed reset and
  no cleared cooldown.
\<close>

theorem timers_spend_nothing:
  assumes "timer_steps api others s s1"
    and "\<And>s. \<exists>rs. qs_sent (se_quota (others s)) = qs_sent (se_quota s) @ rs \<and> list_all free_read rs"
  shows "\<exists>rs. qs_sent (se_quota s1) = qs_sent (se_quota s) @ rs \<and> list_all free_read rs"
proof -
  have quiet: "quiet_step s (others s)" for s using assms(2) by (simp add: extends_def)
  have step: "quiet_step s s1" if "timer_step api others s s1" for s s1
    using that
  proof cases
    case synced
    then show ?thesis using quota_tick_quiet [OF quiet] by simp
  qed (simp_all add: fill_tick_def price_tick_def expire_tick_def change_prune_tick_def dead_letter_prune_tick_def)
  have "quiet_step s s1"
    using assms(1)
  proof (induction rule: rtranclp_induct)
    case (step s1 s2)
    then show ?case using extends_trans step by (meson \<open>\<And>s1 s. timer_step api others s s1 \<Longrightarrow> quiet_step s s1\<close>)
  qed simp
  then show ?thesis by (simp add: extends_def)
qed

theorem timers_spend_nothing_witness:
  "\<exists>rs. qs_sent (se_quota (fill_tick silent_api (quota_tick silent_api (\<lambda>s. s) idle))) = rs \<and> list_all free_read rs"
proof -
  have "timer_steps silent_api (\<lambda>s. s) idle (fill_tick silent_api (quota_tick silent_api (\<lambda>s. s) idle))"
    by (meson filled synced rtranclp.rtrancl_into_rtrancl rtranclp.rtrancl_refl)
  from timers_spend_nothing [OF this] show ?thesis by (simp add: idle_def)
qed

end
