(* ===== verification/Change_Api.thy ===== *)
theory Change_Api
  imports Outputs
begin

text \<open>
  The long poll of \<^verbatim>\<open>src/http/api/change.rs\<close>: the kinds a query names, the cursor it reads
  from, how long it waits, and the wire type of a change. What the successive reads of a wait
  see, up to its last second, is an argument, as is the quoting of an unknown kind.
\<close>

definition DEFAULT_TIMEOUT_SECONDS :: nat where "DEFAULT_TIMEOUT_SECONDS = 30"

definition MAX_TIMEOUT_SECONDS :: nat where "MAX_TIMEOUT_SECONDS = 50"

definition wait_seconds :: "nat option \<Rightarrow> nat" where
  "wait_seconds timeout = min (unwrap_or DEFAULT_TIMEOUT_SECONDS timeout) MAX_TIMEOUT_SECONDS"

text \<open>Reading a list stops at the first text that is no kind.\<close>

fun parse_kinds :: "string list \<Rightarrow> unknown_text + change_kind list" where
  "parse_kinds [] = Inr []"
| "parse_kinds (t # ts) =
     (case kind_parse t of
        Inl e \<Rightarrow> Inl e
      | Inr k \<Rightarrow> map_sum id ((#) k) (parse_kinds ts))"

definition change_kinds :: "string option \<Rightarrow> unknown_text + change_kind list" where
  "change_kinds given =
     map_sum id (\<lambda>ks. if ks = [] then kinds_default else ks)
       (parse_kinds (filter (\<lambda>t. t \<noteq> []) (map trim (split_on (CHR '','') (unwrap_or [] given)))))"

text \<open>Only the fields that a kind names are present.\<close>

fun subject_fields :: "subject \<Rightarrow> id option \<times> string option \<times> string option \<times> id option \<times> bool option" where
  "subject_fields (SAccount i) = (Some i, None, None, None, None)"
| "subject_fields (SResets i) = (Some i, None, None, None, None)"
| "subject_fields (SWindow i key) = (Some i, Some key, None, None, None)"
| "subject_fields (SPrice model) = (None, None, Some model, None, None)"
| "subject_fields (SPlan i) = (None, None, None, Some i, None)"
| "subject_fields SUsage = (None, None, None, None, None)"
| "subject_fields SQuotaAction = (None, None, None, None, None)"
| "subject_fields (SArrival i failed) = (Some i, None, None, None, Some failed)"

definition kind_output :: "change_kind \<Rightarrow> json" where
  "kind_output k = JString
     (case k of QuotaUpdated \<Rightarrow> ''quota.updated'' | ResetUpdated \<Rightarrow> ''reset.updated''
      | PriceChanged \<Rightarrow> ''price.changed'' | AccountChanged \<Rightarrow> ''account.changed''
      | PlanChanged \<Rightarrow> ''plan.changed'' | UsageUpdated \<Rightarrow> ''usage.updated''
      | RequestArrived \<Rightarrow> ''request.arrived'' | QuotaActionChanged \<Rightarrow> ''quota.action'')"

definition change_output :: "codecs \<Rightarrow> change \<Rightarrow> json" where
  "change_output cx c =
     (case subject_fields (ch_subject c) of (account, window, model, plan, failed) \<Rightarrow> json_object
        [(''cursor'', json_count (Some (ch_cursor c))),
         (''kind'', Some (kind_output (subject_kind (ch_subject c)))),
         (''recorded_at'', json_instant cx (Some (ch_recorded_at c))),
         (''account_id'', json_id account),
         (''window_key'', json_text window),
         (''model'', json_text model),
         (''plan_id'', json_id plan),
         (''failed'', map_option JBool failed)])"

definition changes_output :: "codecs \<Rightarrow> change list \<Rightarrow> int \<Rightarrow> json" where
  "changes_output cx cs cursor = json_object
     [(''events'', json_list (change_output cx) cs), (''cursor'', json_count (Some cursor))]"

definition expired_output :: "int \<Rightarrow> int \<Rightarrow> json" where
  "expired_output oldest newest = json_object
     [(''message'', Some (JString (''the cursor is older than the oldest change kept, or ahead of the '' @
         ''latest; read the lists again and follow from latest_cursor''))),
      (''oldest_cursor'', json_count (Some oldest)),
      (''latest_cursor'', json_count (Some newest))]"

definition page_answer :: "codecs \<Rightarrow> read_error + page \<Rightarrow> int \<times> json" where
  "page_answer cx result =
     (case result of
        Inr (Page cs cursor) \<Rightarrow> (200, changes_output cx cs cursor)
      | Inr (PageExpired oldest newest) \<Rightarrow> (410, expired_output oldest newest)
      | Inl e \<Rightarrow> (500, api_error ''the database refused the request''))"

definition list_changes ::
  "codecs \<Rightarrow> (string \<Rightarrow> string) \<Rightarrow> int option \<Rightarrow> string option \<Rightarrow> nat option \<Rightarrow> db \<Rightarrow> (nat \<Rightarrow> db list) \<Rightarrow>
     (int \<times> json) option" where
  "list_changes cx quote cursor kinds timeout d reads =
     (case change_kinds kinds of
        Inl (UnknownText t) \<Rightarrow> Some (400, api_error (quote t @ '' is not a change kind''))
      | Inr ks \<Rightarrow>
          (case cursor of
             None \<Rightarrow> Some (200, changes_output cx [] (latest_cursor d))
           | Some c \<Rightarrow>
               if c < 0 then Some (400, api_error ''cursor must not be negative'')
               else map_option (page_answer cx) (wait_for (reads (wait_seconds timeout)) c ks)))"

section \<open>Lemmas\<close>

text \<open>
  Each kind can be asked for by the name its changes carry on the wire, and names are not mixed
  up: the wire form of a change says its kind and the columns it is stored with.
\<close>

lemma kind_output_stored: "kind_output k = JString (kind_stored k)"
  by (cases k) (simp_all add: kind_output_def)

lemma subject_fields_columns: "subject_fields s = subject_columns s"
  by (cases s) simp_all

lemma split_on_part:
  assumes "c \<notin> set t"
  shows "split_on c t = [t]" and "split_on c (t @ c # rest) = t # split_on c rest"
  using assms by (induction t) auto

lemma kind_stored_plain [simp]:
  "CHR '','' \<notin> set (kind_stored k)" "trim (kind_stored k) = kind_stored k" "kind_stored k \<noteq> []"
  by (cases k; simp add: trim_def trim_start_def is_ws_def)+

lemma split_kinds:
  "ks \<noteq> [] \<Longrightarrow> split_on (CHR '','') (join_with '','' (map kind_stored ks)) = map kind_stored ks"
proof (induction ks)
  case (Cons k ks)
  then show ?case by (cases ks) (simp_all add: split_on_part)
qed simp

lemma parse_kinds_stored: "parse_kinds (map kind_stored ks) = Inr ks"
  by (induction ks) (simp_all add: kind_codec.parse_stored)

theorem kinds_spelled_read_back:
  "change_kinds (Some (join_with '','' (map kind_stored ks))) = Inr (if ks = [] then kinds_default else ks)"
proof (cases "ks = []")
  case True
  then show ?thesis by (simp add: change_kinds_def trim_def trim_start_def)
next
  case False
  have trimmed: "filter (\<lambda>t. t \<noteq> []) (map trim (map kind_stored ks)) = map kind_stored ks"
    by (induction ks) simp_all
  have "change_kinds (Some (join_with '','' (map kind_stored ks))) =
      map_sum id (\<lambda>ks. if ks = [] then kinds_default else ks)
        (parse_kinds (filter (\<lambda>t. t \<noteq> []) (map trim (map kind_stored ks))))"
    unfolding change_kinds_def unwrap_or_def option.case split_kinds [OF False] by (rule refl)
  then show ?thesis using False unfolding trimmed parse_kinds_stored by simp
qed

end
