(* ===== verification/Billing_Api.thy ===== *)
theory Billing_Api
  imports Handlers Plans Catalog
begin

text \<open>
  The operations of \<^verbatim>\<open>src/http/api/plan.rs\<close>, \<^verbatim>\<open>src/http/api/price.rs\<close> and
  \<^verbatim>\<open>src/http/api/leverage.rs\<close>: each reads its input in the order of its fields, calls the
  plans, the prices or the leverage, and answers a status and a wire type. A number of a JSON
  body is finite. The id a write mints is an argument.
\<close>

section \<open>Plans\<close>

datatype plan_refusal = PlanRefused plan_error | BadInstant string

fun plan_refusal_text :: "plan_refusal \<Rightarrow> string" where
  "plan_refusal_text (PlanRefused BlankName) = ''name must not be blank''"
| "plan_refusal_text (PlanRefused Price) = ''monthly_usd must be a number no less than 0''"
| "plan_refusal_text (PlanRefused EmptyPeriod) = ''period_end must be after period_start''"
| "plan_refusal_text (PlanRefused plan_error.UnknownAccount) = ''account was not found''"
| "plan_refusal_text (BadInstant name) = name @ '' must be an RFC 3339 timestamp''"

definition plan_json :: "codecs \<Rightarrow> plan_output \<Rightarrow> json" where
  "plan_json cx out =
     (let p = po_row out in json_object
        [(''plan_id'', json_id (Some (p_id p))),
         (''account'', Some (summary_output (po_account out) (po_source_name out))),
         (''name'', Some (JString (p_name p))),
         (''monthly_usd'', Some (JFloat (f64_value (p_monthly_usd p)))),
         (''period_start'', json_instant cx (Some (p_start p))),
         (''period_end'', json_instant cx (p_end p)),
         (''replaced_by_account_id'', json_id (po_replaced_by out))])"

record plan_input =
  in_account :: string
  in_name :: string
  in_monthly_usd :: f64_bits
  in_start :: string
  in_end :: "string option"

definition plan_account :: "string \<Rightarrow> plan_refusal + id" where
  "plan_account text = ok_or (PlanRefused plan_error.UnknownAccount) (parse_id text)"

definition plan_instant :: "codecs \<Rightarrow> string \<Rightarrow> string \<Rightarrow> plan_refusal + instant" where
  "plan_instant cx text name = ok_or (BadInstant name) (cx_instant cx text)"

text \<open>An optional field: absent, or read.\<close>

definition transposed :: "('a \<Rightarrow> 'e + 'b) \<Rightarrow> 'a option \<Rightarrow> 'e + 'b option" where
  "transposed f given = (case given of None \<Rightarrow> Inr None | Some x \<Rightarrow> map_sum id Some (f x))"

definition read_new_plan :: "codecs \<Rightarrow> plan_input \<Rightarrow> plan_refusal + new_plan" where
  "read_new_plan cx input =
     (case plan_account (in_account input) of
        Inl e \<Rightarrow> Inl e
      | Inr account \<Rightarrow>
          (case plan_instant cx (in_start input) ''period_start'' of
             Inl e \<Rightarrow> Inl e
           | Inr begins \<Rightarrow>
               (case transposed (\<lambda>t. plan_instant cx t ''period_end'') (in_end input) of
                  Inl e \<Rightarrow> Inl e
                | Inr ends \<Rightarrow> Inr
                    \<lparr>nl_account = account, nl_name = in_name input, nl_monthly_usd = in_monthly_usd input,
                     nl_start = begins, nl_end = ends\<rparr>)))"

text \<open>A nullable field of a patch: absent, null or given.\<close>

datatype 'a maybe_undefined = Undefined | Null | Value 'a

record plan_patch =
  up_account :: "string option"
  up_name :: "string option"
  up_monthly_usd :: "f64_bits option"
  up_start :: "string option"
  up_end :: "string maybe_undefined"

definition read_end :: "codecs \<Rightarrow> string maybe_undefined \<Rightarrow> plan_refusal + instant option option" where
  "read_end cx given =
     (case given of
        Undefined \<Rightarrow> Inr None
      | Null \<Rightarrow> Inr (Some None)
      | Value text \<Rightarrow> map_sum id (\<lambda>t. Some (Some t)) (plan_instant cx text ''period_end''))"

definition read_plan_change :: "codecs \<Rightarrow> plan_patch \<Rightarrow> plan_refusal + plan_change" where
  "read_plan_change cx patch =
     (case transposed plan_account (up_account patch) of
        Inl e \<Rightarrow> Inl e
      | Inr account \<Rightarrow>
          (case transposed (\<lambda>t. plan_instant cx t ''period_start'') (up_start patch) of
             Inl e \<Rightarrow> Inl e
           | Inr begins \<Rightarrow>
               (case read_end cx (up_end patch) of
                  Inl e \<Rightarrow> Inl e
                | Inr ends \<Rightarrow> Inr
                    \<lparr>pc_account = account, pc_name = up_name patch, pc_monthly_usd = up_monthly_usd patch,
                     pc_start = begins, pc_end = ends\<rparr>)))"

definition plan_missing :: answer where
  "plan_missing = (404, api_error ''plan was not found'')"

definition plan_answer :: "codecs \<Rightarrow> plan_refusal + plan_output \<Rightarrow> answer" where
  "plan_answer cx result =
     (case result of
        Inr out \<Rightarrow> (200, plan_json cx out)
      | Inl e \<Rightarrow>
          (if e = PlanRefused plan_error.UnknownAccount then 404 else 400, api_error (plan_refusal_text e)))"

definition list_plans_answer :: "codecs \<Rightarrow> db \<Rightarrow> answer" where
  "list_plans_answer cx d = (200, json_object [(''plans'', json_list (plan_json cx) (list_plans d))])"

definition create_plan_answer :: "codecs \<Rightarrow> instant \<Rightarrow> id \<Rightarrow> plan_input \<Rightarrow> db \<Rightarrow> answer \<times> db" where
  "create_plan_answer cx now i input d =
     (case read_new_plan cx input of
        Inl e \<Rightarrow> (plan_answer cx (Inl e), d)
      | Inr p \<Rightarrow>
          (case create_plan now i p d of
             (result, d') \<Rightarrow> (plan_answer cx (map_sum PlanRefused id result), d')))"

definition update_plan_answer :: "codecs \<Rightarrow> instant \<Rightarrow> string \<Rightarrow> plan_patch \<Rightarrow> db \<Rightarrow> answer \<times> db" where
  "update_plan_answer cx now plan_id patch d =
     (case parse_id plan_id of
        None \<Rightarrow> (plan_missing, d)
      | Some i \<Rightarrow>
          (case read_plan_change cx patch of
             Inl e \<Rightarrow> (plan_answer cx (Inl e), d)
           | Inr c \<Rightarrow>
               (case update_plan now i c d of
                  (Inr (Some out), d') \<Rightarrow> (plan_answer cx (Inr out), d')
                | (Inr None, d') \<Rightarrow> (plan_missing, d')
                | (Inl e, d') \<Rightarrow> (plan_answer cx (Inl (PlanRefused e)), d'))))"

text \<open>The answer of a deletion has no body.\<close>

definition delete_plan_answer :: "instant \<Rightarrow> string \<Rightarrow> db \<Rightarrow> (int \<times> json option) \<times> db" where
  "delete_plan_answer now plan_id d =
     (let missing = (fst plan_missing, Some (snd plan_missing))
      in case parse_id plan_id of
           None \<Rightarrow> (missing, d)
         | Some i \<Rightarrow>
             (case delete_plan now i d of
                (True, d') \<Rightarrow> ((204, None), d')
              | (False, d') \<Rightarrow> (missing, d')))"

section \<open>Prices\<close>

definition origin_output :: "origin \<Rightarrow> json" where
  "origin_output origin = JString
     (case origin of Manual \<Rightarrow> ''manual'' | LiteLlmLive \<Rightarrow> ''litellm_live'' | LiteLlmPublic \<Rightarrow> ''litellm_public'')"

definition price_json :: "codecs \<Rightarrow> price_row \<Rightarrow> json" where
  "price_json cx p =
     (let r = m_rates p in json_object
        [(''price_id'', json_id (Some (m_id p))),
         (''provider'', json_text (m_provider p)),
         (''model'', Some (JString (m_model p))),
         (''service_tier'', json_text (m_tier p)),
         (''min_input_tokens'', json_count (Some (m_min_input_tokens p))),
         (''origin'', Some (origin_output (m_origin p))),
         (''effective_from'', json_instant cx (Some (m_effective_from p))),
         (''input_usd_per_mtok'', json_number (Some (input_usd_per_mtok r))),
         (''cached_input_usd_per_mtok'', json_number (Some (cached_input_usd_per_mtok r))),
         (''cache_write_usd_per_mtok'', json_number (Some (cache_write_usd_per_mtok r))),
         (''output_usd_per_mtok'', json_number (Some (output_usd_per_mtok r)))])"

definition list_prices_answer ::
  "codecs \<Rightarrow> string option \<Rightarrow> origin option \<Rightarrow> bool option \<Rightarrow> db \<Rightarrow> answer" where
  "list_prices_answer cx model origin history d =
     (200, json_object [(''prices'', json_list (price_json cx)
        (list_prices d \<lparr>pf_model = model, pf_origin = origin, pf_history = unwrap_or False history\<rparr>))])"

record price_input =
  ip_provider :: "string option"
  ip_model :: string
  ip_tier :: "string option"
  ip_min_input_tokens :: "int option"
  ip_effective_from :: "string option"
  ip_rates :: rates

definition blank_to_none :: "string option \<Rightarrow> string option" where
  "blank_to_none value = filter_option (\<lambda>v. v \<noteq> []) (map_option trim value)"

definition price_instant :: "codecs \<Rightarrow> string option \<Rightarrow> string \<Rightarrow> string + instant option" where
  "price_instant cx value name =
     transposed (\<lambda>t. ok_or (name @ '' must be an RFC 3339 timestamp'') (cx_instant cx t)) value"

definition negative_rate :: "rates \<Rightarrow> bool" where
  "negative_rate r \<longleftrightarrow>
     (\<exists>x\<in>{input_usd_per_mtok r, cached_input_usd_per_mtok r, cache_write_usd_per_mtok r,
        output_usd_per_mtok r}. x < 0)"

definition read_new_price :: "codecs \<Rightarrow> instant \<Rightarrow> price_input \<Rightarrow> string + new_price" where
  "read_new_price cx now input =
     (let model = trim (ip_model input);
          least = unwrap_or 0 (ip_min_input_tokens input)
      in if model = [] then Inl ''model must not be blank''
         else if least < 0 then Inl ''min_input_tokens must not be negative''
         else if negative_rate (ip_rates input) then Inl ''every price must be a number no less than 0''
         else
           (case price_instant cx (ip_effective_from input) ''effective_from'' of
              Inl e \<Rightarrow> Inl e
            | Inr since \<Rightarrow> Inr
                \<lparr>np_provider = blank_to_none (ip_provider input), np_model = model,
                 np_tier = blank_to_none (ip_tier input), np_min_input_tokens = least,
                 np_effective_from = unwrap_or now since, np_rates = ip_rates input\<rparr>))"

definition create_price_answer :: "codecs \<Rightarrow> instant \<Rightarrow> id \<Rightarrow> price_input \<Rightarrow> db \<Rightarrow> answer \<times> db" where
  "create_price_answer cx now i input d =
     (case read_new_price cx now input of
        Inl e \<Rightarrow> ((400, api_error e), d)
      | Inr p \<Rightarrow>
          (case insert_price now i p Manual d of (row, d') \<Rightarrow> ((200, price_json cx row), d')))"

definition sync_output :: "sync_report \<Rightarrow> json" where
  "sync_output report = json_object
     [(''inserted'', json_count (Some (sr_inserted report))),
      (''unchanged'', json_count (Some (sr_unchanged report))),
      (''failed_sources'', json_list JString (sr_failed report))]"

definition sync_prices_answer ::
  "instant \<Rightarrow> (nat \<Rightarrow> id) \<Rightarrow> (string \<times> string) list \<Rightarrow> (origin \<times> catalog_price list option) list \<Rightarrow>
     db \<Rightarrow> answer \<times> db" where
  "sync_prices_answer now fresh priced_as maps d =
     (case sync_catalog now fresh priced_as maps d of (report, d') \<Rightarrow> ((200, sync_output report), d'))"

text \<open>A count that no i64 holds would be cut to the greatest; a table has no such count of rows.\<close>

definition reprice_answer ::
  "codecs \<Rightarrow> instant \<Rightarrow> (string \<times> string) list \<Rightarrow> string option \<Rightarrow> string option \<Rightarrow> db \<Rightarrow> answer \<times> db" where
  "reprice_answer cx now priced_as lower upper d =
     (case (price_instant cx lower ''from'', price_instant cx upper ''to'') of
        (Inr lo, Inr hi) \<Rightarrow>
          (case reprice now priced_as lo hi d of
             (repriced, _, d') \<Rightarrow>
               ((200, json_object [(''repriced'', json_count (Some (min (int repriced) (2 ^ 63 - 1))))]), d'))
      | (Inl e, _) \<Rightarrow> ((400, api_error e), d)
      | (_, Inl e) \<Rightarrow> ((400, api_error e), d))"

section \<open>Leverage\<close>

definition DEFAULT_PERIODS :: nat where "DEFAULT_PERIODS = 6"

definition MAX_PERIODS :: nat where "MAX_PERIODS = 24"

definition period_output :: "codecs \<Rightarrow> billing_period \<Rightarrow> json" where
  "period_output cx b = json_object
     [(''period_start'', json_instant cx (Some (bp_start b))),
      (''period_end'', json_instant cx (Some (bp_end b))),
      (''complete'', json_flag (bp_complete b)),
      (''requests'', json_count (Some (int (bp_requests b)))),
      (''total_tokens'', json_count (Some (bp_total_tokens b))),
      (''list_cost_usd'', json_number (Some (bp_list_cost b))),
      (''leverage'', json_number (bp_leverage b)),
      (''effective_usd_per_mtok'', json_number (bp_effective_usd_per_mtok b))]"

definition leverage_output :: "codecs \<Rightarrow> plan_output \<times> billing_period list \<Rightarrow> json" where
  "leverage_output cx measured = json_object
     [(''plan'', Some (plan_json cx (fst measured))),
      (''periods'', json_list (period_output cx) (snd measured))]"

definition leverage_answer ::
  "codecs \<Rightarrow> (instant \<Rightarrow> int \<Rightarrow> instant option) \<Rightarrow> instant \<Rightarrow> nat option \<Rightarrow> db \<Rightarrow> answer option" where
  "leverage_answer cx month now periods d =
     (let n = min (max (unwrap_or DEFAULT_PERIODS periods) 1) MAX_PERIODS
      in map_option
           (\<lambda>plans. (200, json_object [(''plans'', json_list (leverage_output cx) plans)]))
           (those (map (\<lambda>out. map_option (Pair out) (plan_leverage month d n now out)) (list_plans d))))"

section \<open>Lemmas\<close>

lemma ok_or_Inr: "ok_or e x = Inr y \<longleftrightarrow> x = Some y"
  by (cases x) (simp_all add: ok_or_def)

lemma transposed_Inr:
  "transposed f given = Inr y \<longleftrightarrow>
     (case given of None \<Rightarrow> y = None | Some x \<Rightarrow> \<exists>z. f x = Inr z \<and> y = Some z)"
proof (cases given)
  case (Some x)
  then show ?thesis by (cases "f x") (auto simp: transposed_def)
qed (auto simp: transposed_def)

lemma read_new_plan_Inr:
  assumes "read_new_plan cx input = Inr p"
  shows "parse_id (in_account input) = Some (nl_account p)" and "nl_name p = in_name input"
    and "nl_monthly_usd p = in_monthly_usd input" and "cx_instant cx (in_start input) = Some (nl_start p)"
    and "map_option (cx_instant cx) (in_end input) = map_option Some (nl_end p)"
  using assms
  by (auto simp: read_new_plan_def plan_account_def plan_instant_def ok_or_Inr transposed_Inr
      split: sum.splits option.splits)

lemma create_plan_Inr:
  assumes "create_plan now i p d = (Inr out, d')" and "\<forall>q\<in>set (plans d). p_id q \<noteq> i"
  shows "read_plan d' i = Some out \<and> po_row out = stored_plan i p \<and> plans d' = plans d @ [stored_plan i p] \<and>
    a_id (po_account out) = nl_account p"
proof -
  let ?d1 = "d\<lparr>plans := plans d @ [stored_plan i p]\<rparr>"
  have r: "read_plan ?d1 i = Some out" "d' = record_link_changes now (replacements d) [SPlan i] ?d1"
    using assms(1) by (auto simp: create_plan_def Let_def split: sum.splits if_splits option.splits)
  have "read_plan d' i = read_plan ?d1 i" by (rule select_plans_cong) (simp_all add: r(2))
  moreover have out: "out \<in> set (select_plans ?d1)" "p_id (po_row out) = i"
    using find_Some_set [OF r(1) [unfolded read_plan_def]] by simp_all
  have row: "po_row out = stored_plan i p" using select_plans_row(1) [OF out(1)] out(2) assms(2) by auto
  moreover have "a_id (po_account out) = nl_account p" using select_plans_row(3) [OF out(1)] row by simp
  ultimately show ?thesis using r by simp
qed

lemma create_plan_Inl: "create_plan now i p d = (Inl e, d') \<Longrightarrow> d' = d"
  by (auto simp: create_plan_def Let_def split: sum.splits if_splits option.splits)

section \<open>Properties\<close>

text \<open>
  C22: The answer of a new plan tells what is stored. On 200 the plan is the last row, exactly as it
  was asked for with its name trimmed, and the body is that plan as a read shows it; any other
  answer is 400 or 404 and nothing is stored.
\<close>

theorem new_plan_answer_is_stored:
  assumes "create_plan_answer cx now i input d = (sent, d')" and "\<forall>q\<in>set (plans d). p_id q \<noteq> i"
  shows "if fst sent = 200
    then \<exists>out. read_plan d' i = Some out \<and> sent = (200, plan_json cx out) \<and>
      plans d' = plans d @ [po_row out] \<and> p_name (po_row out) = trim (in_name input) \<and>
      p_monthly_usd (po_row out) = in_monthly_usd input \<and>
      cx_instant cx (in_start input) = Some (p_start (po_row out)) \<and>
      map_option (cx_instant cx) (in_end input) = map_option Some (p_end (po_row out)) \<and>
      parse_id (in_account input) = Some (a_id (po_account out))
    else fst sent \<in> {400, 404} \<and> d' = d"
proof (cases "read_new_plan cx input")
  case (Inl e)
  then show ?thesis using assms(1) by (auto simp: create_plan_answer_def plan_answer_def split: if_splits)
next
  case (Inr p)
  obtain result d1 where c: "create_plan now i p d = (result, d1)" by fastforce
  show ?thesis
  proof (cases result)
    case (Inl e)
    then show ?thesis using assms(1) Inr c create_plan_Inl
      by (auto simp: create_plan_answer_def plan_answer_def split: if_splits)
  next
    case r: (Inr out)
    have "sent = (200, plan_json cx out)" "d' = d1"
      using assms(1) Inr c r by (simp_all add: create_plan_answer_def plan_answer_def)
    then show ?thesis
      using create_plan_Inr [OF c [unfolded r] assms(2)] read_new_plan_Inr [OF Inr]
      by (simp add: stored_plan_def)
  qed
qed

definition one_account :: db where
  "one_account = empty_db
     \<lparr>sources := [\<lparr>s_id = 1, s_key = ''g'', s_name = ''g'', s_kind = CliProxy, s_base_url = [], s_enabled = True,
        s_created_at = 0\<rparr>],
      accounts := [\<lparr>a_id = 2, a_source = 1, a_provider = ''claude'', a_key = ''k'', a_auth = OAuth,
        a_label = None, a_display = None, a_merged = None, a_first = 0, a_last = 0\<rparr>]\<rparr>"

definition length_codecs :: codecs where
  "length_codecs =
     \<lparr>cx_json = \<lambda>_. None, cx_print = \<lambda>_. [], cx_instant = \<lambda>t. Some (int (length t)),
      cx_print_instant = show_int, cx_float = \<lambda>_. [], cx_undecodable = []\<rparr>"

definition wanted :: plan_input where
  "wanted = \<lparr>in_account = encode_id 2, in_name = '' Max '', in_monthly_usd = 0, in_start = ''x'', in_end = Some ''xy''\<rparr>"

lemma wanted_read:
  "read_new_plan length_codecs wanted =
     Inr \<lparr>nl_account = 2, nl_name = '' Max '', nl_monthly_usd = 0, nl_start = 1, nl_end = Some 2\<rparr>"
proof -
  have "parse_id (encode_id 2) = Some 2" by (rule parse_encode_id) simp_all
  then show ?thesis
    by (simp add: read_new_plan_def plan_account_def plan_instant_def transposed_def wanted_def length_codecs_def
        ok_or_def)
qed

lemma wanted_created:
  "\<exists>out d'. create_plan 0 3 \<lparr>nl_account = 2, nl_name = '' Max '', nl_monthly_usd = 0, nl_start = 1, nl_end = Some 2\<rparr>
     one_account = (Inr out, d')"
  by (simp add: create_plan_def check_plan_def stored_plan_def read_plan_def select_plans_def one_account_def
      account_by_id_def empty_db_def f64_finite_def f64_exponent_def f64_value_def f64_mantissa_def trim_def
      trim_start_def is_ws_def Let_def)

theorem new_plan_answer_is_stored_witness:
  "\<exists>out d'. create_plan_answer length_codecs 0 3 wanted one_account = ((200, plan_json length_codecs out), d') \<and>
     read_plan d' 3 = Some out \<and> p_end (po_row out) = Some 2 \<and> a_id (po_account out) = 2"
proof -
  obtain out0 d' where c: "create_plan_answer length_codecs 0 3 wanted one_account = ((200, plan_json length_codecs out0), d')"
    using wanted_created by (auto simp: create_plan_answer_def wanted_read plan_answer_def)
  have "\<forall>q\<in>set (plans one_account). p_id q \<noteq> 3" by (simp add: one_account_def empty_db_def)
  from new_plan_answer_is_stored [OF c this]
  obtain out where out: "read_plan d' 3 = Some out" "plan_json length_codecs out0 = plan_json length_codecs out"
    "map_option (cx_instant length_codecs) (in_end wanted) = map_option Some (p_end (po_row out))"
    "parse_id (in_account wanted) = Some (a_id (po_account out))" by auto
  have "parse_id (encode_id 2) = Some 2" by (rule parse_encode_id) simp_all
  then have "p_end (po_row out) = Some 2" "a_id (po_account out) = 2"
    using out(3,4) by (cases "p_end (po_row out)"; simp add: wanted_def length_codecs_def)+
  then show ?thesis using c out(1,2) by auto
qed

end
