(* ===== verification/Usage_Api.thy ===== *)
theory Usage_Api
  imports Billing_Api Ingest Cliproxy Breakdowns
begin

text \<open>
  The operations of \<^verbatim>\<open>src/http/api/usage.rs\<close>, \<^verbatim>\<open>src/http/api/usage_summary.rs\<close>,
  \<^verbatim>\<open>src/http/api/source.rs\<close>, \<^verbatim>\<open>src/http/api/dead_letter.rs\<close>, \<^verbatim>\<open>src/http/api/session.rs\<close>
  and \<^verbatim>\<open>src/http/api/health.rs\<close>: pages of stored events, the live stream of usage, summaries,
  sources with the records posted to them, dead letters, and the session cookie. The stream is
  the list of its messages; what its receiver gets after it subscribed is an argument.
\<close>

section \<open>Events\<close>

record usage_event =
  ue_row :: event_row
  ue_account :: account_row
  ue_source_name :: string

definition loaded :: "db \<Rightarrow> event_row \<Rightarrow> usage_event option" where
  "loaded d e =
     (case (account_by_id d (e_account e), source_by_id d (e_source e)) of
        (Some a, Some s) \<Rightarrow> Some \<lparr>ue_row = e, ue_account = a\<lparr>a_source := e_source e\<rparr>, ue_source_name = s_name s\<rparr>
      | _ \<Rightarrow> None)"

definition quality_output :: "token_quality \<Rightarrow> json" where
  "quality_output q = JString
     (case q of Complete \<Rightarrow> ''complete'' | Unclassified \<Rightarrow> ''unclassified'' | Inconsistent \<Rightarrow> ''inconsistent'')"

definition event_output :: "codecs \<Rightarrow> usage_event \<Rightarrow> json" where
  "event_output cx event =
     (let e = ue_row event; u = e_usage e in json_object
        [(''event_id'', json_id (Some (e_id e))),
         (''source_id'', json_id (Some (e_source e))),
         (''upstream_id'', json_text (filter_option (\<lambda>i. i \<noteq> []) (Some (u_upstream_id u)))),
         (''occurred_at'', json_instant cx (Some (u_occurred_at u))),
         (''provider'', Some (JString (u_provider u))),
         (''model'', Some (JString (u_model u))),
         (''model_alias'', json_text (u_model_alias u)),
         (''endpoint'', Some (JString (u_endpoint u))),
         (''account'', Some (summary_output (ue_account event) (ue_source_name event))),
         (''caller'', json_text (u_caller u)),
         (''harness'', json_text (u_harness u)),
         (''user_agent'', json_text (u_user_agent u)),
         (''session_id'', json_text (u_session_id u)),
         (''input_tokens'', json_count (Some (u_input_tokens u))),
         (''output_tokens'', json_count (Some (u_output_tokens u))),
         (''reasoning_tokens'', json_count (Some (u_reasoning_tokens u))),
         (''cache_read_tokens'', json_count (Some (u_cache_read_tokens u))),
         (''cache_write_tokens'', json_count (Some (u_cache_write_tokens u))),
         (''unclassified_tokens'', json_count (Some (u_unclassified_tokens u))),
         (''total_tokens'', json_count (Some (u_total_tokens u))),
         (''token_quality'', map_option quality_output (u_token_quality u)),
         (''latency_ms'', json_count (u_latency_ms u)),
         (''ttft_ms'', json_count (u_ttft_ms u)),
         (''streamed'', json_flag (u_streamed u)),
         (''status_code'', json_count (Some (u_status_code u))),
         (''failed'', json_flag (u_failed u)),
         (''error_message'', json_text (u_error_message u)),
         (''service_tier'', json_text (u_service_tier u)),
         (''reasoning_effort'', json_text (u_reasoning_effort u)),
         (''list_cost_usd'', json_number (e_list_cost e)),
         (''billed_cost_usd'', json_number (e_billed_cost e))])"

section \<open>Pages\<close>

definition DEFAULT_LIMIT :: int where "DEFAULT_LIMIT = 100"

definition MAX_LIMIT :: int where "MAX_LIMIT = 500"

definition clamped :: "int option \<Rightarrow> nat" where
  "clamped limit = nat (min (max (unwrap_or DEFAULT_LIMIT limit) 1) MAX_LIMIT)"

text \<open>The query as it arrived.\<close>

record event_query =
  eq_from :: "string option"
  eq_to :: "string option"
  eq_source_id :: "string option"
  eq_model :: "string option"
  eq_account_id :: "string option"
  eq_failed :: "bool option"
  eq_limit :: "int option"
  eq_before :: "string option"
  eq_after :: "string option"

text \<open>An optional text that is read, or an error's text.\<close>

definition read_text :: "(string \<Rightarrow> 'a option) \<Rightarrow> string \<Rightarrow> string option \<Rightarrow> string + 'a option" where
  "read_text reader complaint given =
     (case given of
        None \<Rightarrow> Inr None
      | Some t \<Rightarrow> (case reader t of None \<Rightarrow> Inl complaint | Some x \<Rightarrow> Inr (Some x)))"

definition read_instant :: "codecs \<Rightarrow> string \<Rightarrow> string option \<Rightarrow> string + instant option" where
  "read_instant cx name = read_text (cx_instant cx) (name @ '' must be an RFC 3339 timestamp'')"

definition event_id :: "string option \<Rightarrow> string \<Rightarrow> string + id option" where
  "event_id given name = read_text parse_id (name @ '' must be an event id'') given"

definition read_filter :: "codecs \<Rightarrow> event_query \<Rightarrow> string + usage_filter" where
  "read_filter cx q =
     (case read_instant cx ''from'' (eq_from q) of
        Inl e \<Rightarrow> Inl e
      | Inr lo \<Rightarrow>
     (case read_instant cx ''to'' (eq_to q) of
        Inl e \<Rightarrow> Inl e
      | Inr hi \<Rightarrow>
     (case read_text parse_id ''source_id must be a source id'' (eq_source_id q) of
        Inl e \<Rightarrow> Inl e
      | Inr source \<Rightarrow>
     (case read_text parse_id ''account_id must be an account id'' (eq_account_id q) of
        Inl e \<Rightarrow> Inl e
      | Inr account \<Rightarrow> Inr
          \<lparr>uf_from = lo, uf_to = hi, uf_source = source, uf_model = eq_model q, uf_account = account,
           uf_failed = eq_failed q\<rparr>))))"

definition read_cursor :: "event_query \<Rightarrow> string + cursor option" where
  "read_cursor q =
     (case (event_id (eq_before q) ''before'', event_id (eq_after q) ''after'') of
        (Inl e, _) \<Rightarrow> Inl e
      | (Inr _, Inl e) \<Rightarrow> Inl e
      | (Inr (Some _), Inr (Some _)) \<Rightarrow> Inl ''before and after cannot be combined''
      | (Inr b, Inr a) \<Rightarrow> Inr (or_else (map_option Before b) (map_option After a)))"

definition is_after :: "cursor option \<Rightarrow> bool" where
  "is_after c = (case c of Some (After _) \<Rightarrow> True | _ \<Rightarrow> False)"

text \<open>The events of the page, and the id to ask before next.\<close>

definition event_page :: "codecs \<Rightarrow> event_query \<Rightarrow> db \<Rightarrow> string + event_row list \<times> string option" where
  "event_page cx q d =
     (case read_filter cx q of
        Inl e \<Rightarrow> Inl e
      | Inr f \<Rightarrow>
          (case read_cursor q of
             Inl e \<Rightarrow> Inl e
           | Inr c \<Rightarrow>
               (let limit = clamped (eq_limit q); es = usage_page d f limit c
                in Inr (es, if \<not> is_after c \<and> length es = limit \<and> es \<noteq> []
                            then Some (encode_id (e_id (last es))) else None))))"

definition list_usage_events :: "codecs \<Rightarrow> event_query \<Rightarrow> db \<Rightarrow> answer" where
  "list_usage_events cx q d =
     (case event_page cx q d of
        Inl e \<Rightarrow> (400, api_error e)
      | Inr (es, next_before) \<Rightarrow>
          (200, json_object
             [(''events'', json_list (event_output cx) (List.map_filter (loaded d) es)),
              (''next_before'', json_text next_before)]))"

section \<open>The stream\<close>

record priced_event =
  pe_event :: id
  pe_price :: id
  pe_list_cost :: rat
  pe_billed_cost :: rat

datatype usage_update = Recorded usage_event | Priced priced_event

definition priced_output :: "priced_event \<Rightarrow> json" where
  "priced_output p = json_object
     [(''event_id'', json_id (Some (pe_event p))),
      (''price_id'', json_id (Some (pe_price p))),
      (''list_cost_usd'', json_number (Some (pe_list_cost p))),
      (''billed_cost_usd'', json_number (Some (pe_billed_cost p)))]"

record sse =
  ss_id :: "string option"
  ss_type :: string
  ss_data :: json

fun sse_of :: "codecs \<Rightarrow> usage_update \<Rightarrow> sse" where
  "sse_of cx (Recorded event) =
     \<lparr>ss_id = Some (encode_id (e_id (ue_row event))), ss_type = ''usage'', ss_data = event_output cx event\<rparr>"
| "sse_of cx (Priced p) = \<lparr>ss_id = None, ss_type = ''priced'', ss_data = priced_output p\<rparr>"

text \<open>
  What the receiver gets: an update, or the end of the stream when it lagged or every sender is
  gone. A list that ends is a stream that waits.
\<close>

definition replayed_already :: "id option \<Rightarrow> usage_update \<Rightarrow> bool" where
  "replayed_already through update =
     (case (through, update) of
        (Some i, Recorded event) \<Rightarrow> e_id (ue_row event) \<le> i
      | _ \<Rightarrow> False)"

fun live :: "usage_update option list \<Rightarrow> id option \<Rightarrow> usage_update list" where
  "live [] through = []"
| "live (None # rest) through = []"
| "live (Some update # rest) through =
     (if replayed_already through update then live rest through else update # live rest through)"

definition no_filter :: usage_filter where
  "no_filter =
     \<lparr>uf_from = None, uf_to = None, uf_source = None, uf_model = None, uf_account = None, uf_failed = None\<rparr>"

definition replay :: "db \<Rightarrow> id option \<Rightarrow> usage_event list" where
  "replay d last_event_id =
     (case last_event_id of
        None \<Rightarrow> []
      | Some i \<Rightarrow> List.map_filter (loaded d) (usage_page d no_filter (nat MAX_LIMIT) (Some (After i))))"

definition stream_updates :: "db \<Rightarrow> id option \<Rightarrow> usage_update option list \<Rightarrow> usage_update list" where
  "stream_updates d last_event_id received =
     (let replayed = replay d last_event_id
      in map Recorded replayed @
         live received (if replayed = [] then None else Some (e_id (ue_row (last replayed)))))"

definition stream_usage_events ::
  "codecs \<Rightarrow> string option \<Rightarrow> usage_update option list \<Rightarrow> db \<Rightarrow> answer + sse list" where
  "stream_usage_events cx last_event_id received d =
     (case event_id last_event_id ''Last-Event-ID'' of
        Inl e \<Rightarrow> Inl (400, api_error e)
      | Inr i \<Rightarrow> Inr (map (sse_of cx) (stream_updates d i received)))"

section \<open>Summaries\<close>

text \<open>What a failed analytics query says; \<open>why\<close> is jiff's text for a window out of its range.\<close>

definition analytics_error_text :: "string \<Rightarrow> analytics_error \<Rightarrow> string" where
  "analytics_error_text why e =
     (case e of
        UnknownAccountId i \<Rightarrow> ''account_id '' @ encode_id i @ '' names no account''
      | UnknownSourceId i \<Rightarrow> ''source_id '' @ encode_id i @ '' names no source''
      | TooManyBuckets \<Rightarrow>
          ''the window holds more than '' @ show_nat max_buckets @
          '' buckets; choose a wider bucket or a shorter window''
      | Window \<Rightarrow> ''the window is outside the supported range of dates: '' @ why
      | Unreadable _ _ \<Rightarrow> [])"

definition refusal :: "string \<Rightarrow> analytics_error \<Rightarrow> answer" where
  "refusal why e =
     (case e of
        Unreadable _ _ \<Rightarrow> database_failure
      | _ \<Rightarrow> (400, api_error (analytics_error_text why e)))"

definition summary_metrics_output :: "usage_metrics \<Rightarrow> json" where
  "summary_metrics_output m = json_object
     [(''requests'', json_count (Some (um_requests m))),
      (''input_tokens'', json_count (Some (um_input_tokens m))),
      (''uncached_input_tokens'', json_count (Some (um_uncached_input_tokens m))),
      (''cache_read_tokens'', json_count (Some (um_cache_read_tokens m))),
      (''cache_write_tokens'', json_count (Some (um_cache_write_tokens m))),
      (''output_tokens'', json_count (Some (um_output_tokens m))),
      (''reasoning_tokens'', json_count (Some (um_reasoning_tokens m))),
      (''unclassified_tokens'', json_count (Some (um_unclassified_tokens m))),
      (''total_tokens'', json_count (Some (um_total_tokens m))),
      (''list_cost_usd'', json_number (Some (um_list_cost_usd m))),
      (''billed_cost_usd'', json_number (Some (um_billed_cost_usd m))),
      (''unpriced_requests'', json_count (Some (um_unpriced_requests m))),
      (''unbilled_requests'', json_count (Some (um_unbilled_requests m)))]"

definition summary_group_output :: "rollup_group \<Rightarrow> json" where
  "summary_group_output g = json_object
     [(''key'', Some (JString (rg_key g))), (''metrics'', Some (summary_metrics_output (rg_metrics g)))]"

definition groups_output :: "rollup_group list option \<Rightarrow> json option" where
  "groups_output groups = Option.bind groups (json_list summary_group_output)"

definition summary_bucket_output :: "codecs \<Rightarrow> rollup_bucket \<Rightarrow> json" where
  "summary_bucket_output cx b = json_object
     [(''start'', json_instant cx (Some (rb_start b))),
      (''total'', Some (summary_metrics_output (rb_total b))),
      (''groups'', groups_output (rb_groups b))]"

definition usage_summary_output :: "codecs \<Rightarrow> rollup \<Rightarrow> json" where
  "usage_summary_output cx r = json_object
     [(''total'', Some (summary_metrics_output (ro_total r))),
      (''groups'', groups_output (ro_groups r)),
      (''buckets'', json_list (summary_bucket_output cx) (ro_buckets r))]"

datatype step_input = HourStep | DayStep

definition step_bucket :: "step_input \<Rightarrow> bucket" where
  "step_bucket s = (case s of HourStep \<Rightarrow> bucket.Hour | DayStep \<Rightarrow> bucket.Day)"

datatype group_input = ByAccount | ByModel | ByProvider

definition group_dimension :: "group_input \<Rightarrow> dimension" where
  "group_dimension g =
     (case g of ByAccount \<Rightarrow> AccountOf | ByModel \<Rightarrow> ModelOf | ByProvider \<Rightarrow> ProviderOf)"

definition needed_instant :: "codecs \<Rightarrow> string \<Rightarrow> string \<Rightarrow> string + instant" where
  "needed_instant cx given name = ok_or (name @ '' must be an RFC 3339 timestamp'') (cx_instant cx given)"

definition usage_summary ::
  "codecs \<Rightarrow> calendar \<Rightarrow> string \<Rightarrow> string \<Rightarrow> string \<Rightarrow> step_input \<Rightarrow> group_input option \<Rightarrow> db \<Rightarrow> answer" where
  "usage_summary cx cl why from_text to_text step grouping d =
     (case (needed_instant cx from_text ''from'', needed_instant cx to_text ''to'') of
        (Inl e, _) \<Rightarrow> (400, api_error e)
      | (Inr _, Inl e) \<Rightarrow> (400, api_error e)
      | (Inr lo, Inr hi) \<Rightarrow>
          if hi \<le> lo then (400, api_error ''to must be after from'')
          else
            (case load_rollup cl d lo hi (step_bucket step) (map_option group_dimension grouping) of
               Inr r \<Rightarrow> (200, usage_summary_output cx r)
             | Inl e \<Rightarrow> refusal why e))"

section \<open>Sources\<close>

definition source_missing :: answer where
  "source_missing = (404, api_error ''source was not found'')"

definition collector_output :: "codecs \<Rightarrow> collector_row \<Rightarrow> json" where
  "collector_output cx k = json_object
     [(''connected_since'', json_instant cx (k_connected_since k)),
      (''last_record_at'', json_instant cx (k_last_record_at k)),
      (''records_received'', json_count (Some (k_records_received k))),
      (''consecutive_failures'', json_count (Some (k_consecutive_failures k))),
      (''last_error'', json_text (k_last_error k)),
      (''updated_at'', json_instant cx (Some (k_updated_at k)))]"

definition source_output_json :: "codecs \<Rightarrow> source_output \<Rightarrow> json" where
  "source_output_json cx out =
     (let s = so_row out in json_object
        [(''source_id'', json_id (Some (s_id s))),
         (''key'', Some (JString (s_key s))),
         (''name'', Some (JString (s_name s))),
         (''kind'', Some (JString (case s_kind s of CliProxy \<Rightarrow> ''cliproxy'' | LiteLlm \<Rightarrow> ''litellm''))),
         (''base_url'', Some (JString (s_base_url s))),
         (''enabled'', json_flag (s_enabled s)),
         (''created_at'', json_instant cx (Some (s_created_at s))),
         (''last_event_at'', json_instant cx (so_last_event_at out)),
         (''event_count'', json_count (Some (int (so_event_count out)))),
         (''collector'', map_option (collector_output cx) (so_collector out))])"

definition list_sources_answer :: "codecs \<Rightarrow> db \<Rightarrow> answer" where
  "list_sources_answer cx d =
     (200, json_object [(''sources'', json_list (source_output_json cx) (list_sources d))])"

definition get_source :: "codecs \<Rightarrow> string \<Rightarrow> db \<Rightarrow> answer" where
  "get_source cx source_id d =
     (case Option.bind (parse_id source_id) (load_source d) of
        None \<Rightarrow> source_missing
      | Some out \<Rightarrow> (200, source_output_json cx out))"

definition ingest_output :: "ingest_report \<Rightarrow> json" where
  "ingest_output r = json_object
     [(''accepted'', json_count (Some (ir_accepted r))),
      (''duplicates'', json_count (Some (ir_duplicates r))),
      (''rejected'', json_count (Some (ir_rejected r)))]"

definition ingest_events ::
  "cliproxy_error services \<Rightarrow> instant \<Rightarrow> string \<Rightarrow> json list \<Rightarrow> db \<Rightarrow> answer \<times> db" where
  "ingest_events sv now source_id records d =
     (case parse_id source_id of
        None \<Rightarrow> (source_missing, d)
      | Some i \<Rightarrow>
          if load_source d i = None then (source_missing, d)
          else let b = ingest sv now i (map (Cliproxy.parse (sv_parse_instant sv)) records) d
               in ((200, ingest_output (bt_report b)), bt_db b))"

section \<open>Dead letters\<close>

definition dead_letter_output :: "codecs \<Rightarrow> json dead_letter_row \<Rightarrow> json" where
  "dead_letter_output cx l = json_object
     [(''dead_letter_id'', json_id (Some (l_id l))),
      (''source_id'', json_id (Some (l_source l))),
      (''received_at'', json_instant cx (Some (l_received_at l))),
      (''error'', Some (JString (l_error l))),
      (''payload'', Some (JString (cx_print cx (l_payload l))))]"

definition list_dead_letters_answer :: "codecs \<Rightarrow> string option \<Rightarrow> int option \<Rightarrow> db \<Rightarrow> answer" where
  "list_dead_letters_answer cx source_id limit d =
     (case read_text parse_id ''source_id must be a source id'' source_id of
        Inl e \<Rightarrow> (400, api_error e)
      | Inr source \<Rightarrow>
          (200, json_object [(''dead_letters'',
             json_list (dead_letter_output cx) (list_dead_letters d source (clamped limit)))]))"

section \<open>The session and the health of the service\<close>

text \<open>A status, the cookie that is set, and a body.\<close>

type_synonym session_answer = "int \<times> string option \<times> json option"

definition session_refused :: session_answer where
  "session_refused = (401, None, Some (api_error ''the access token is not valid''))"

definition get_session :: "token \<Rightarrow> http_request \<Rightarrow> session_answer" where
  "get_session token request =
     (if presented token request \<noteq> None then (204, None, None) else session_refused)"

definition create_session :: "token \<Rightarrow> string \<Rightarrow> session_answer" where
  "create_session token given =
     (if token_matches token given then (204, Some (session_cookie token), None) else session_refused)"

definition delete_session :: session_answer where
  "delete_session = (204, Some cleared_cookie, None)"

definition health_answer :: "string \<Rightarrow> bool \<Rightarrow> json" where
  "health_answer version reachable = json_object
     [(''status'', Some (JString (if reachable then ''ok'' else ''degraded''))),
      (''version'', Some (JString version))]"

section \<open>Following the pages\<close>

text \<open>A client that asks for the next page with the id it was given, until it is given none.\<close>

fun follow_pages :: "nat \<Rightarrow> codecs \<Rightarrow> event_query \<Rightarrow> db \<Rightarrow> string option \<Rightarrow> event_row list option" where
  "follow_pages 0 cx q d before = None"
| "follow_pages (Suc n) cx q d before =
     (case event_page cx (q\<lparr>eq_before := before, eq_after := None\<rparr>) d of
        Inl e \<Rightarrow> None
      | Inr (es, None) \<Rightarrow> Some es
      | Inr (es, Some next) \<Rightarrow> map_option ((@) es) (follow_pages n cx q d (Some next)))"

lemma clamped_bounds: "1 \<le> clamped limit" "clamped limit \<le> 500"
  by (simp_all add: clamped_def MAX_LIMIT_def)

lemma read_filter_cursor [simp]: "read_filter cx (q\<lparr>eq_before := b, eq_after := a\<rparr>) = read_filter cx q"
  by (simp add: read_filter_def cong: sum.case_cong)

lemma read_cursor_before:
  "read_cursor (q\<lparr>eq_before := None, eq_after := None\<rparr>) = Inr None"
  "parse_id t = Some i \<Longrightarrow> read_cursor (q\<lparr>eq_before := Some t, eq_after := None\<rparr>) = Inr (Some (Before i))"
  by (simp_all add: read_cursor_def event_id_def read_text_def or_else_def)

definition newest_first :: "db \<Rightarrow> usage_filter \<Rightarrow> event_row list" where
  "newest_first d f = rev (sort_key e_id (filter (filter_matches f) (select_events d)))"

lemma newest_first_sorted:
  assumes "distinct (map e_id (select_events d))"
  shows "sorted_wrt (\<lambda>x y. e_id y < e_id x) (newest_first d f)"
    and "set (newest_first d f) = {e \<in> set (select_events d). filter_matches f e}"
    and "length (newest_first d f) = length (filter (filter_matches f) (select_events d))"
proof -
  have "distinct (map e_id (filter (filter_matches f) (select_events d)))"
    using assms by (simp add: distinct_map_filter)
  then have "distinct (map e_id (sort_key e_id (filter (filter_matches f) (select_events d))))"
    by (metis distinct_map distinct_sort set_sort)
  then have "sorted_wrt (<) (map e_id (sort_key e_id (filter (filter_matches f) (select_events d))))"
    by (simp add: strict_sorted_iff)
  then show "sorted_wrt (\<lambda>x y. e_id y < e_id x) (newest_first d f)"
    by (simp add: newest_first_def sorted_wrt_map sorted_wrt_rev)
qed (auto simp: newest_first_def)

lemma usage_page_before:
  "usage_page d f n None = take n (newest_first d f)"
  "usage_page d f n (Some (Before i)) = take n (filter (\<lambda>e. e_id e < i) (newest_first d f))"
  by (simp_all add: usage_page_def Let_def newest_first_def rev_filter)

lemma follow_pages_rows:
  assumes "read_filter cx q = Inr f" and "sorted_wrt (\<lambda>x y. e_id y < e_id x) (newest_first d f)"
    and "\<forall>e\<in>set (newest_first d f). 0 \<le> e_id e \<and> e_id e < 2 ^ 63"
    and "rows = (case before of None \<Rightarrow> newest_first d f
           | Some i \<Rightarrow> filter (\<lambda>e. e_id e < i) (newest_first d f))"
    and "\<forall>i. before = Some i \<longrightarrow> 0 \<le> i \<and> i < 2 ^ 63" and "length rows < n"
  shows "follow_pages n cx q d (map_option encode_id before) = Some rows"
  using assms(4-6)
proof (induction n arbitrary: before rows)
  case 0
  then show ?case by simp
next
  case (Suc n)
  let ?limit = "clamped (eq_limit q)"
  have cursor: "read_cursor (q\<lparr>eq_before := map_option encode_id before, eq_after := None\<rparr>) =
      Inr (map_option Before before)"
    using Suc.prems(2) read_cursor_before parse_encode_id by (cases before) auto
  have page: "usage_page d f ?limit (map_option Before before) = take ?limit rows"
    using Suc.prems(1) by (cases before) (simp_all add: usage_page_before)
  have not_after: "\<not> is_after (map_option Before before)" by (cases before) (simp_all add: is_after_def)
  show ?case
  proof (cases "?limit \<le> length rows")
    case False
    then have "event_page cx (q\<lparr>eq_before := map_option encode_id before, eq_after := None\<rparr>) d = Inr (rows, None)"
      by (simp add: event_page_def assms(1) cursor page Let_def not_after)
    then show ?thesis by simp
  next
    case True
    let ?c = "last (take ?limit rows)"
    have ne: "take ?limit rows \<noteq> []" using True clamped_bounds(1) [of "eq_limit q"] by auto
    have first: "event_page cx (q\<lparr>eq_before := map_option encode_id before, eq_after := None\<rparr>) d =
        Inr (take ?limit rows, Some (encode_id (e_id ?c)))"
      using True ne not_after by (simp add: event_page_def assms(1) cursor page Let_def)
    have sorted_rows: "sorted_wrt (\<lambda>x y. e_id y < e_id x) rows"
      using Suc.prems(1) assms(2) by (cases before) (auto simp: sorted_wrt_filter)
    have c: "?c \<in> set rows" using in_set_takeD [OF last_in_set [OF ne]] .
    have low: "e_id ?c \<le> i" if "before = Some i" for i
      using c Suc.prems(1) that by auto
    have "filter (\<lambda>e. e_id e < e_id ?c) (newest_first d f) = filter (\<lambda>e. e_id e < e_id ?c) rows"
      using Suc.prems(1) low by (cases before) (auto intro!: filter_cong)
    also have "\<dots> = drop ?limit rows"
      using filter_less_take [OF sorted_rows _ True] clamped_bounds(1) [of "eq_limit q"] by simp
    finally have rest: "filter (\<lambda>e. e_id e < e_id ?c) (newest_first d f) = drop ?limit rows" .
    have in_all: "?c \<in> set (newest_first d f)" using c Suc.prems(1) by (cases before) auto
    have "length (drop ?limit rows) < n" using Suc.prems(3) clamped_bounds(1) [of "eq_limit q"] True by simp
    then have "follow_pages n cx q d (map_option encode_id (Some (e_id ?c))) = Some (drop ?limit rows)"
      using assms(3) in_all rest by (intro Suc.IH) auto
    then show ?thesis using first by simp
  qed
qed

section \<open>The messages of the stream\<close>

fun recorded_id :: "usage_update \<Rightarrow> id option" where
  "recorded_id (Recorded event) = Some (e_id (ue_row event))"
| "recorded_id (Priced p) = None"

definition sent_ids :: "usage_update list \<Rightarrow> id list" where
  "sent_ids updates = List.map_filter recorded_id updates"

lemma sent_ids_simps [simp]:
  "sent_ids [] = []" "sent_ids (Recorded event # us) = e_id (ue_row event) # sent_ids us"
  "sent_ids (Priced p # us) = sent_ids us" "sent_ids (us @ vs) = sent_ids us @ sent_ids vs"
  by (simp_all add: sent_ids_def List.map_filter_def)

lemma sent_ids_recorded [simp]: "sent_ids (map Recorded es) = map (e_id \<circ> ue_row) es"
  by (induction es) simp_all

lemma live_ids:
  "sent_ids (live (map Some updates) None) = sent_ids updates"
  "sent_ids (live (map Some updates) (Some i)) = filter (\<lambda>j. i < j) (sent_ids updates)"
proof (induction updates)
  case (Cons u updates)
  { case 1
    then show ?case using Cons by (cases u) (simp_all add: replayed_already_def)
  next
    case 2
    then show ?case using Cons by (cases u) (auto simp: replayed_already_def) }
qed simp_all

lemma live_priced:
  "filter (\<lambda>u. recorded_id u = None) (live (map Some updates) i) = filter (\<lambda>u. recorded_id u = None) updates"
proof (induction updates)
  case (Cons u updates)
  then show ?case by (cases u; cases i) (auto simp: replayed_already_def)
qed simp

lemma select_events_loaded:
  assumes "e \<in> set (select_events d)"
  shows "\<exists>event. loaded d e = Some event \<and> ue_row event = e"
proof -
  from assms obtain a s where "a \<in> set (accounts d)" "a_id a = e_account e" "s \<in> set (sources d)" "s_id s = e_source e"
    by (auto simp: select_events_def split: if_splits)
  then have "account_by_id d (e_account e) \<noteq> None" "source_by_id d (e_source e) \<noteq> None"
    by (auto simp: account_by_id_def source_by_id_def find_None_iff)
  then show ?thesis by (auto simp: loaded_def)
qed

lemma loaded_rows:
  "set es \<subseteq> set (select_events d) \<Longrightarrow> map ue_row (List.map_filter (loaded d) es) = es"
proof (induction es)
  case (Cons e es)
  then obtain event where "loaded d e = Some event" "ue_row event = e" using select_events_loaded [of e d] by auto
  then show ?case using Cons by (simp add: List.map_filter_simps)
qed (simp add: List.map_filter_simps)

definition missed :: "db \<Rightarrow> id \<Rightarrow> event_row list" where
  "missed d i = filter (\<lambda>e. i < e_id e) (sort_key e_id (select_events d))"

lemma replay_rows: "map ue_row (replay d (Some i)) = take 500 (missed d i)"
proof -
  have "filter_matches no_filter e" for e by (simp add: filter_matches_def no_filter_def bound_eq_def)
  then have "usage_page d no_filter (nat MAX_LIMIT) (Some (After i)) = take 500 (missed d i)"
    by (simp add: usage_page_def missed_def MAX_LIMIT_def)
  moreover have "set (take 500 (missed d i)) \<subseteq> set (select_events d)"
    using set_take_subset [of 500 "missed d i"] by (auto simp: missed_def)
  ultimately show ?thesis by (simp add: replay_def loaded_rows)
qed

section \<open>Properties\<close>

text \<open>
  C21: Following \<^verbatim>\<open>next_before\<close> from the first page shows every event of the filter exactly once,
  newest first, whatever limit is asked for, and ends: the last page names no next one.
\<close>

theorem pages_show_every_event:
  assumes "read_filter cx q = Inr f" and "distinct (map e_id (select_events d))"
    and "\<forall>e\<in>set (select_events d). 0 \<le> e_id e \<and> e_id e < 2 ^ 63"
    and "length (filter (filter_matches f) (select_events d)) < n"
  shows "\<exists>rows. follow_pages n cx q d None = Some rows \<and>
    set rows = {e \<in> set (select_events d). filter_matches f e} \<and>
    sorted_wrt (\<lambda>x y. e_id y < e_id x) rows"
proof -
  note all = newest_first_sorted [OF assms(2), of f]
  have "follow_pages n cx q d (map_option encode_id None) = Some (newest_first d f)"
    using assms all by (intro follow_pages_rows) auto
  then show ?thesis using all by auto
qed

definition row_of_event :: "id \<Rightarrow> event_row" where
  "row_of_event i =
     \<lparr>e_id = i, e_source = 1, e_account = 2, e_hash = show_int i, e_usage = sample_usage, e_price = None,
      e_list_cost = None, e_billed_cost = None\<rparr>"

definition two_events :: db where
  "two_events = one_account\<lparr>events := [row_of_event 6, row_of_event 5]\<rparr>"

definition any_query :: event_query where
  "any_query =
     \<lparr>eq_from = None, eq_to = None, eq_source_id = None, eq_model = None, eq_account_id = None,
      eq_failed = None, eq_limit = Some 1, eq_before = None, eq_after = None\<rparr>"

lemma row_of_event_id [simp]: "e_id (row_of_event i) = i"
  by (simp add: row_of_event_def)

lemma two_events_selected: "select_events two_events = [row_of_event 6, row_of_event 5]"
  by (simp add: select_events_def two_events_def one_account_def row_of_event_def)

lemma two_events_ids: "map e_id (select_events two_events) = [6, 5]"
  by (simp add: two_events_selected row_of_event_def)

theorem pages_show_every_event_witness:
  "\<exists>rows. follow_pages 3 length_codecs any_query two_events None = Some rows \<and>
     set rows = {row_of_event 5, row_of_event 6}"
proof -
  have "read_filter length_codecs any_query = Inr no_filter"
    by (simp add: read_filter_def read_instant_def read_text_def any_query_def no_filter_def)
  moreover have "filter_matches no_filter e" for e by (simp add: filter_matches_def no_filter_def bound_eq_def)
  moreover have "distinct (map e_id (select_events two_events))" by (simp add: two_events_ids)
  moreover have "\<forall>e\<in>set (select_events two_events). 0 \<le> e_id e \<and> e_id e < 2 ^ 63"
    by (simp add: two_events_selected row_of_event_def)
  ultimately show ?thesis
    using pages_show_every_event [of length_codecs any_query no_filter two_events 3]
    by (auto simp: two_events_selected)
qed

text \<open>
  C20: A reader of the stream that comes back misses nothing and sees nothing twice. If at most 500
  events were stored since the one it names, and what is published to it is newer than that one
  and was committed in the order of the ids, it is sent every event stored since and every event
  published, each once; and every price that is published, in order.
\<close>

theorem stream_resumes_without_gap:
  assumes "distinct (map e_id (select_events d))" and "length (missed d i) \<le> 500"
    and "distinct (sent_ids updates)" and "\<forall>j\<in>set (sent_ids updates). i < j"
    and "\<forall>j\<in>set (sent_ids updates). j \<in> e_id ` set (select_events d) \<or> (\<forall>e\<in>set (select_events d). e_id e < j)"
    and "out = stream_updates d (Some i) (map Some updates)"
  shows "distinct (sent_ids out) \<and>
    set (sent_ids out) = {e_id e |e. e \<in> set (select_events d) \<and> i < e_id e} \<union> set (sent_ids updates) \<and>
    filter (\<lambda>u. recorded_id u = None) out = filter (\<lambda>u. recorded_id u = None) updates"
proof -
  let ?r = "replay d (Some i)" and ?m = "missed d i"
  have rows: "map ue_row ?r = ?m" using replay_rows [of d i] assms(2) by simp
  then have ids: "map (e_id \<circ> ue_row) ?r = map e_id ?m" by (metis map_map)
  have set_m: "set ?m = {e \<in> set (select_events d). i < e_id e}" by (auto simp: missed_def)
  have "distinct (map e_id (sort_key e_id (select_events d)))" using assms(1) by (metis distinct_map distinct_sort set_sort)
  then have dist: "distinct (map e_id ?m)" by (simp add: missed_def distinct_map_filter)
  have recorded_none: "filter (\<lambda>u. recorded_id u = None) (map Recorded es) = []" for es
    by (simp add: filter_empty_conv)
  have priced: "filter (\<lambda>u. recorded_id u = None) out = filter (\<lambda>u. recorded_id u = None) updates"
    by (simp add: assms(6) stream_updates_def Let_def live_priced recorded_none)
  show ?thesis
  proof (cases "?r = []")
    case True
    then have "?m = []" using rows by simp
    then have "sent_ids out = sent_ids updates" "{e \<in> set (select_events d). i < e_id e} = {}"
      using True set_m by (simp_all add: assms(6) stream_updates_def live_ids)
    then show ?thesis using assms(3) priced by auto
  next
    case False
    then have ne: "?m \<noteq> []" using rows by auto
    let ?top = "e_id (last ?m)"
    have "e_id (ue_row (last ?r)) = ?top" using rows False by (metis last_map)
    then have out: "sent_ids out = map e_id ?m @ filter (\<lambda>j. ?top < j) (sent_ids updates)"
      using False by (simp add: assms(6) stream_updates_def Let_def live_ids ids)
    have "sorted (map e_id ?m)" unfolding missed_def by (rule sorted_filter) simp
    then have top: "e_id e \<le> ?top" if "e \<in> set ?m" for e
      using that ne by (cases ?m rule: rev_cases) (auto simp: sorted_append)
    have last_in: "last ?m \<in> set (select_events d)" "i < ?top" using last_in_set [OF ne] set_m by auto
    have dropped: "j \<in> e_id ` set ?m" if "j \<in> set (sent_ids updates)" "\<not> ?top < j" for j
    proof -
      have "j \<in> e_id ` set (select_events d)" using assms(5) that last_in(1) by fastforce
      then show ?thesis using assms(4) that(1) set_m by auto
    qed
    have "distinct (sent_ids out)"
      using dist assms(3) top by (auto simp: out) (meson leD)
    moreover have "set (sent_ids out) = e_id ` set ?m \<union> set (sent_ids updates)"
      using dropped by (auto simp: out)
    moreover have "e_id ` set ?m = {e_id e |e. e \<in> set (select_events d) \<and> i < e_id e}" using set_m by auto
    ultimately show ?thesis using priced by simp
  qed
qed

definition published :: usage_update where
  "published = Recorded \<lparr>ue_row = row_of_event 7, ue_account = hd (accounts one_account), ue_source_name = ''g''\<rparr>"

theorem stream_resumes_without_gap_witness:
  "set (sent_ids (stream_updates two_events (Some 5) [Some published])) = {6, 7}"
proof -
  have ids: "sent_ids [published] = [7]" by (simp add: published_def row_of_event_def)
  have m: "missed two_events 5 = [row_of_event 6]"
    by (simp add: missed_def two_events_selected row_of_event_def sort_key_def)
  have "set (sent_ids (stream_updates two_events (Some 5) (map Some [published]))) =
      {e_id e |e. e \<in> set (select_events two_events) \<and> 5 < e_id e} \<union> {7}"
    using stream_resumes_without_gap [of two_events 5 "[published]", OF _ _ _ _ _ refl] ids
    by (simp add: m two_events_ids) (simp add: two_events_selected row_of_event_def)
  moreover have "{e_id e |e. e \<in> set (select_events two_events) \<and> 5 < e_id e} = {6}"
    by (auto simp: two_events_selected intro: exI [of _ "row_of_event 6"])
  ultimately show ?thesis by auto
qed

text \<open>
  What the replay leaves out is lost to the reader: an event with a lower id than the one it
  names, published while it was away, is not replayed.
\<close>

lemma replay_skips_lower_ids: "e \<in> set (replay d (Some i)) \<Longrightarrow> i < e_id (ue_row e)"
proof -
  assume "e \<in> set (replay d (Some i))"
  then have "ue_row e \<in> set (take 500 (missed d i))" using replay_rows [of d i] by (metis image_eqI set_map)
  then show ?thesis by (auto simp: missed_def dest: in_set_takeD)
qed

end
