(* ===== verification/Analytics_Api.thy ===== *)
theory Analytics_Api
  imports Usage_Api Figures
begin

text \<open>
  The operations of \<^verbatim>\<open>src/http/api/analytics.rs\<close>: how a query's window and filters are read,
  the limits it may ask for, the answers of the seven reads and the refusal of each, with the
  wire types. The time zone database, the printer of a local time and of a date, and jiff's text
  for a date out of range are the parameters of a record.
\<close>

section \<open>Limits\<close>

definition DEFAULT_TOP :: nat where "DEFAULT_TOP = 8"
definition MAX_TOP :: nat where "MAX_TOP = 50"
definition DEFAULT_BREAKDOWN_LIMIT :: nat where "DEFAULT_BREAKDOWN_LIMIT = 50"
definition MAX_BREAKDOWN_LIMIT :: nat where "MAX_BREAKDOWN_LIMIT = 500"
definition DEFAULT_SESSION_LIMIT :: nat where "DEFAULT_SESSION_LIMIT = 20"
definition MAX_SESSION_LIMIT :: nat where "MAX_SESSION_LIMIT = 200"
definition DEFAULT_SAMPLE_LIMIT :: int where "DEFAULT_SAMPLE_LIMIT = 4000"
definition MAX_SAMPLE_LIMIT :: int where "MAX_SAMPLE_LIMIT = 20000"
definition DEFAULT_HEALTH_WINDOW_MINUTES :: int where "DEFAULT_HEALTH_WINDOW_MINUTES = 60"
definition DEFAULT_HEALTH_BUCKET_MINUTES :: int where "DEFAULT_HEALTH_BUCKET_MINUTES = 5"

definition clamp :: "'a::linorder \<Rightarrow> 'a \<Rightarrow> 'a \<Rightarrow> 'a" where
  "clamp lo hi x = min (max x lo) hi"

section \<open>The scope of a query\<close>

record analytics_texts =
  ax_zone :: "string \<Rightarrow> time_zone option"
  ax_local :: "instant \<Rightarrow> int \<Rightarrow> string"
  ax_date :: "int \<Rightarrow> string"
  ax_why :: string

record scope =
  sp_from :: "string option"
  sp_to :: "string option"
  sp_time_zone :: "string option"
  sp_source_id :: "string list"
  sp_account_id :: "string list"
  sp_model :: "string list"
  sp_provider :: "string list"
  sp_harness :: "string list"

definition given_values :: "string list \<Rightarrow> string list" where
  "given_values ts = filter (\<lambda>t. t \<noteq> []) ts"

definition read_ids :: "string list \<Rightarrow> string \<Rightarrow> string + id list" where
  "read_ids ts complaint = ok_or complaint (those (map parse_id (given_values ts)))"

definition read_zone :: "analytics_texts \<Rightarrow> calendar \<Rightarrow> string option \<Rightarrow> string + time_zone" where
  "read_zone ax cl name =
     (case name of
        Some n \<Rightarrow> ok_or ''time_zone names no zone in the time zone database'' (ax_zone ax n)
      | None \<Rightarrow> Inr (cl_utc cl))"

definition read_scope ::
  "codecs \<Rightarrow> analytics_texts \<Rightarrow> calendar \<Rightarrow> instant \<Rightarrow> scope \<Rightarrow> string + analytics_filter" where
  "read_scope cx ax cl now sp =
     (case read_zone ax cl (sp_time_zone sp) of
        Inl e \<Rightarrow> Inl e
      | Inr tz \<Rightarrow>
     (case read_ids (sp_source_id sp) ''source_id must be source ids'' of
        Inl e \<Rightarrow> Inl e
      | Inr source_ids \<Rightarrow>
     (case read_ids (sp_account_id sp) ''account_id must be account ids'' of
        Inl e \<Rightarrow> Inl e
      | Inr account_ids \<Rightarrow>
     (case Usage_Api.read_instant cx ''from'' (sp_from sp) of
        Inl e \<Rightarrow> Inl e
      | Inr lo \<Rightarrow>
     (case Usage_Api.read_instant cx ''to'' (sp_to sp) of
        Inl e \<Rightarrow> Inl e
      | Inr hi \<Rightarrow> Inr
          ((window now lo hi tz)
             \<lparr>af_sources := source_ids, af_accounts := account_ids, af_models := given_values (sp_model sp),
              af_providers := given_values (sp_provider sp), af_harnesses := given_values (sp_harness sp)\<rparr>))))))"

text \<open>What every read of the analytics does with its scope, its answer and its error.\<close>

definition analytics_answer ::
  "analytics_texts \<Rightarrow> ('f \<Rightarrow> analytics_error + 'a) \<Rightarrow> ('f \<Rightarrow> 'a \<Rightarrow> json) \<Rightarrow> string + 'f \<Rightarrow> answer" where
  "analytics_answer ax load output scoped =
     (case scoped of
        Inl e \<Rightarrow> (400, api_error e)
      | Inr f \<Rightarrow>
          (case load f of
             Inr found \<Rightarrow> (200, output f found)
           | Inl e \<Rightarrow> refusal (ax_why ax) e))"

section \<open>Wire types\<close>

definition metrics_output :: "usage_metrics \<Rightarrow> json" where
  "metrics_output m = json_object
     [(''requests'', json_count (Some (um_requests m))),
      (''failures'', json_count (Some (um_failures m))),
      (''input_tokens'', json_count (Some (um_input_tokens m))),
      (''uncached_input_tokens'', json_count (Some (um_uncached_input_tokens m))),
      (''cache_read_tokens'', json_count (Some (um_cache_read_tokens m))),
      (''cache_write_tokens'', json_count (Some (um_cache_write_tokens m))),
      (''output_tokens'', json_count (Some (um_output_tokens m))),
      (''reasoning_tokens'', json_count (Some (um_reasoning_tokens m))),
      (''unclassified_tokens'', json_count (Some (um_unclassified_tokens m))),
      (''total_tokens'', json_count (Some (um_total_tokens m))),
      (''list_cost_usd'', json_number (Some (um_list_cost_usd m))),
      (''billed_cost_usd'', json_number (Some (um_billed_cost_usd m))),
      (''uncached_input_cost_usd'', json_number (Some (um_uncached_input_cost_usd m))),
      (''cache_read_cost_usd'', json_number (Some (um_cache_read_cost_usd m))),
      (''cache_write_cost_usd'', json_number (Some (um_cache_write_cost_usd m))),
      (''output_cost_usd'', json_number (Some (um_output_cost_usd m))),
      (''cache_savings_usd'', json_number (Some (um_cache_savings_usd m))),
      (''unpriced_requests'', json_count (Some (um_unpriced_requests m))),
      (''avg_latency_ms'', json_number (avg_latency_ms m)),
      (''avg_ttft_ms'', json_number (avg_ttft_ms m)),
      (''output_tokens_per_second'', json_number (output_tokens_per_second m))]"

definition burn_output :: "daily_burn \<Rightarrow> json" where
  "burn_output b = json_object
     [(''list_cost_usd'', json_number (Some (db_list_cost b))),
      (''billed_cost_usd'', json_number (Some (db_billed_cost b))),
      (''total_tokens'', json_count (Some (db_total_tokens b)))]"

definition peak_output :: "analytics_texts \<Rightarrow> peak_day \<Rightarrow> json" where
  "peak_output ax p = json_object
     [(''day'', Some (JString (ax_date ax (pk_day p)))),
      (''list_cost_usd'', json_number (Some (pk_list_cost p))),
      (''total_tokens'', json_count (Some (pk_total_tokens p)))]"

definition distinct_output :: "distinct_counts \<Rightarrow> json" where
  "distinct_output c = json_object
     [(''models'', json_count (Some (int (dc_models c)))),
      (''providers'', json_count (Some (int (dc_providers c)))),
      (''accounts'', json_count (Some (int (dc_accounts c)))),
      (''harnesses'', json_count (Some (int (dc_harnesses c)))),
      (''sources'', json_count (Some (int (dc_sources c)))),
      (''sessions'', json_count (Some (int (dc_sessions c))))]"

definition summary_json :: "analytics_texts \<Rightarrow> summary \<Rightarrow> json" where
  "summary_json ax s = json_object
     [(''metrics'', Some (metrics_output (sm_metrics s))),
      (''range_days'', json_count (Some (sm_range_days s))),
      (''active_days'', json_count (Some (int (sm_active_days s)))),
      (''daily_burn'', Some (burn_output (sm_burn s))),
      (''peak_day_by_cost'', map_option (peak_output ax) (sm_peak_by_cost s)),
      (''peak_day_by_tokens'', map_option (peak_output ax) (sm_peak_by_tokens s)),
      (''cache_hit_rate'', json_number (sm_cache_hit_rate s)),
      (''distinct'', Some (distinct_output (sm_distinct s)))]"

definition series_bucket_output :: "analytics_texts \<Rightarrow> time_zone \<Rightarrow> series_bucket \<Rightarrow> json" where
  "series_bucket_output ax tz b = json_object
     [(''start'', Some (JString (ax_local ax (sb_start b) (tz_offset tz (sb_start b))))),
      (''key'', Some (JString (sb_key b))),
      (''label'', json_text (sb_label b)),
      (''metrics'', Some (metrics_output (sb_metrics b)))]"

definition series_json :: "analytics_texts \<Rightarrow> time_zone \<Rightarrow> series_bucket list \<Rightarrow> json" where
  "series_json ax tz bs = json_object [(''buckets'', json_list (series_bucket_output ax tz) bs)]"

definition breakdown_row_output :: "breakdown_row \<Rightarrow> json" where
  "breakdown_row_output r = json_object
     [(''key'', Some (JString (br_key r))),
      (''label'', json_text (br_label r)),
      (''metrics'', Some (metrics_output (br_metrics r)))]"

definition breakdown_json :: "Breakdowns.breakdown \<Rightarrow> json" where
  "breakdown_json b = json_object
     [(''rows'', json_list breakdown_row_output (bd_rows b)),
      (''total'', Some (metrics_output (Breakdowns.bd_total b)))]"

definition session_row_output :: "codecs \<Rightarrow> session_usage \<Rightarrow> json" where
  "session_row_output cx s = json_object
     [(''session_id'', Some (JString (su_session s))),
      (''source_id'', json_id (Some (su_source s))),
      (''account'', Some (summary_output (fst (su_account s)) (snd (su_account s)))),
      (''harness'', json_text (su_harness s)),
      (''models'', json_list JString (su_models s)),
      (''first_at'', json_instant cx (Some (su_first s))),
      (''last_at'', json_instant cx (Some (su_last s))),
      (''metrics'', Some (metrics_output (su_metrics s)))]"

definition sessions_json :: "codecs \<Rightarrow> session_usage list \<Rightarrow> json" where
  "sessions_json cx ss = json_object [(''sessions'', json_list (session_row_output cx) ss)]"

definition source_kind_output :: "source_kind \<Rightarrow> json" where
  "source_kind_output k = JString (case k of CliProxy \<Rightarrow> ''cliproxy'' | LiteLlm \<Rightarrow> ''litellm'')"

definition source_ref_output :: "source_ref \<Rightarrow> json" where
  "source_ref_output s = json_object
     [(''source_id'', json_id (Some (sr_id s))),
      (''name'', Some (JString (sr_name s))),
      (''kind'', Some (source_kind_output (sr_kind s)))]"

definition dimensions_json :: "dimensions \<Rightarrow> json" where
  "dimensions_json m = json_object
     [(''models'', json_list JString (dm_models m)),
      (''providers'', json_list JString (dm_providers m)),
      (''harnesses'', json_list JString (dm_harnesses m)),
      (''accounts'', json_list (\<lambda>(a, name). summary_output a name) (dm_accounts m)),
      (''sources'', json_list source_ref_output (dm_sources m))]"

definition sample_output :: "codecs \<Rightarrow> request_sample \<Rightarrow> json" where
  "sample_output cx r = json_object
     [(''occurred_at'', json_instant cx (Some (rq_occurred_at r))),
      (''model'', Some (JString (rq_model r))),
      (''input_tokens'', json_count (Some (rq_input_tokens r))),
      (''output_tokens'', json_count (Some (rq_output_tokens r))),
      (''latency_ms'', json_count (Some (rq_latency_ms r))),
      (''ttft_ms'', json_count (rq_ttft_ms r))]"

definition samples_json :: "codecs \<Rightarrow> request_samples \<Rightarrow> json" where
  "samples_json cx r = json_object
     [(''requests'', json_count (Some (int (rs_requests r)))),
      (''samples'', json_list (sample_output cx) (rs_samples r))]"

definition health_bucket_output :: "codecs \<Rightarrow> health_bucket \<Rightarrow> json" where
  "health_bucket_output cx b = json_object
     [(''start'', json_instant cx (Some (hb_start b))),
      (''requests'', json_count (Some (int (hb_requests b)))),
      (''failures'', json_count (Some (int (hb_failures b))))]"

definition account_health_output :: "codecs \<Rightarrow> id \<times> health_bucket list \<Rightarrow> json" where
  "account_health_output cx strip = json_object
     [(''account_id'', json_id (Some (fst strip))),
      (''buckets'', json_list (health_bucket_output cx) (snd strip))]"

definition health_json :: "codecs \<Rightarrow> health \<Rightarrow> json" where
  "health_json cx h = json_object
     [(''bucket_minutes'', json_count (Some (he_bucket_minutes h))),
      (''buckets_start'', json_instant cx (Some (he_start h))),
      (''accounts'', json_list (account_health_output cx) (he_accounts h))]"

section \<open>The reads\<close>

text \<open>An absent rank is the list cost.\<close>

definition ranked :: "rank_by option \<Rightarrow> rank_by" where
  "ranked by = unwrap_or ByListCost by"

definition analytics_summary ::
  "codecs \<Rightarrow> analytics_texts \<Rightarrow> calendar \<Rightarrow> instant \<Rightarrow> scope \<Rightarrow> db \<Rightarrow> answer" where
  "analytics_summary cx ax cl now sp d =
     analytics_answer ax (load_summary cl d) (\<lambda>f. summary_json ax) (read_scope cx ax cl now sp)"

definition series_query_of ::
  "bucket \<Rightarrow> dimension option \<Rightarrow> nat option \<Rightarrow> rank_by option \<Rightarrow> series_query" where
  "series_query_of b group_by most by =
     \<lparr>sq_bucket = b, sq_group_by = group_by, sq_top = clamp 1 MAX_TOP (unwrap_or DEFAULT_TOP most),
      sq_rank_by = ranked by\<rparr>"

definition analytics_series ::
  "codecs \<Rightarrow> analytics_texts \<Rightarrow> calendar \<Rightarrow> instant \<Rightarrow> scope \<Rightarrow> bucket \<Rightarrow> dimension option \<Rightarrow>
     nat option \<Rightarrow> rank_by option \<Rightarrow> db \<Rightarrow> answer" where
  "analytics_series cx ax cl now sp b group_by most by d =
     analytics_answer ax (\<lambda>f. load_series cl d f (series_query_of b group_by most by))
       (\<lambda>f. series_json ax (af_zone f)) (read_scope cx ax cl now sp)"

definition analytics_breakdown ::
  "codecs \<Rightarrow> analytics_texts \<Rightarrow> calendar \<Rightarrow> instant \<Rightarrow> scope \<Rightarrow> dimension \<Rightarrow> rank_by option \<Rightarrow>
     nat option \<Rightarrow> db \<Rightarrow> answer" where
  "analytics_breakdown cx ax cl now sp dm by limit d =
     analytics_answer ax
       (\<lambda>f. load_breakdown d f dm (ranked by)
              (clamp 1 MAX_BREAKDOWN_LIMIT (unwrap_or DEFAULT_BREAKDOWN_LIMIT limit)))
       (\<lambda>f. breakdown_json) (read_scope cx ax cl now sp)"

definition analytics_sessions ::
  "codecs \<Rightarrow> analytics_texts \<Rightarrow> calendar \<Rightarrow> instant \<Rightarrow> scope \<Rightarrow> rank_by option \<Rightarrow> nat option \<Rightarrow> db \<Rightarrow> answer" where
  "analytics_sessions cx ax cl now sp by limit d =
     analytics_answer ax
       (\<lambda>f. list_sessions d f (ranked by)
              (clamp 1 MAX_SESSION_LIMIT (unwrap_or DEFAULT_SESSION_LIMIT limit)))
       (\<lambda>f. sessions_json cx) (read_scope cx ax cl now sp)"

definition analytics_requests ::
  "codecs \<Rightarrow> analytics_texts \<Rightarrow> calendar \<Rightarrow> instant \<Rightarrow> scope \<Rightarrow> int option \<Rightarrow> db \<Rightarrow> answer" where
  "analytics_requests cx ax cl now sp limit d =
     analytics_answer ax
       (\<lambda>f. load_samples d f (nat (clamp 1 MAX_SAMPLE_LIMIT (unwrap_or DEFAULT_SAMPLE_LIMIT limit))))
       (\<lambda>f. samples_json cx) (read_scope cx ax cl now sp)"

definition analytics_dimensions ::
  "codecs \<Rightarrow> analytics_texts \<Rightarrow> calendar \<Rightarrow> instant \<Rightarrow> scope \<Rightarrow> db \<Rightarrow> answer" where
  "analytics_dimensions cx ax cl now sp d =
     analytics_answer ax (load_dimensions d) (\<lambda>f. dimensions_json) (read_scope cx ax cl now sp)"

definition health_window_error_text :: "health_window_error \<Rightarrow> string" where
  "health_window_error_text e =
     (case e of
        BadWindow \<Rightarrow> ''window_minutes must be from '' @ show_int MIN_WINDOW_MINUTES @ '' to '' @
          show_int MAX_WINDOW_MINUTES
      | BadBucket \<Rightarrow> ''bucket_minutes must be at least 1''
      | Indivisible \<Rightarrow> ''window_minutes must be a multiple of bucket_minutes''
      | TooManyHealthBuckets \<Rightarrow> ''the window holds more than '' @ show_int MAX_HEALTH_BUCKETS @
          '' buckets; choose a wider bucket or a shorter window'')"

definition read_health_query ::
  "int option \<Rightarrow> int option \<Rightarrow> string list \<Rightarrow> string list \<Rightarrow> string + health_window \<times> id list \<times> id list" where
  "read_health_query window_minutes bucket_minutes source_id account_id =
     (case new_health_window (unwrap_or DEFAULT_HEALTH_WINDOW_MINUTES window_minutes)
             (unwrap_or DEFAULT_HEALTH_BUCKET_MINUTES bucket_minutes) of
        Inl e \<Rightarrow> Inl (health_window_error_text e)
      | Inr w \<Rightarrow>
          (case (read_ids source_id ''source_id must be source ids'',
                 read_ids account_id ''account_id must be account ids'') of
             (Inl e, _) \<Rightarrow> Inl e
           | (Inr _, Inl e) \<Rightarrow> Inl e
           | (Inr source_ids, Inr account_ids) \<Rightarrow> Inr (w, source_ids, account_ids)))"

definition analytics_health ::
  "codecs \<Rightarrow> analytics_texts \<Rightarrow> calendar \<Rightarrow> instant \<Rightarrow> int option \<Rightarrow> int option \<Rightarrow> string list \<Rightarrow>
     string list \<Rightarrow> db \<Rightarrow> answer" where
  "analytics_health cx ax cl now window_minutes bucket_minutes source_id account_id d =
     analytics_answer ax
       (\<lambda>(w, source_ids, account_ids). load_health cl d w now source_ids account_ids)
       (\<lambda>_. health_json cx) (read_health_query window_minutes bucket_minutes source_id account_id)"

section \<open>Lemmas\<close>

text \<open>Every id an answer names can be sent back as a filter, and empty values are passed over.\<close>

lemma encode_id_not_blank: "encode_id i \<noteq> []"
proof -
  have "length (encode_loop n v buffer) = length buffer" for n v buffer
    by (induction n arbitrary: v buffer) simp_all
  then have "length (encode_id i) = ENCODED_LEN" by (simp add: encode_id_def encode_def)
  then show ?thesis by (auto simp: ENCODED_LEN_def)
qed

lemma encoded_ids_read_back:
  assumes "\<forall>i\<in>set is. 0 \<le> i \<and> i < 2 ^ 63"
  shows "read_ids ([] # map encode_id is) complaint = Inr is"
proof -
  have "given_values ([] # map encode_id is) = map encode_id is"
    by (simp add: given_values_def filter_id_conv encode_id_not_blank)
  moreover have "those (map parse_id (map encode_id is)) = Some is"
    using assms by (induction "is") (simp_all add: parse_encode_id)
  ultimately show ?thesis unfolding read_ids_def by (simp add: ok_or_def)
qed

end
