(* ===== verification/Mcp.thy ===== *)
theory Mcp
  imports Analytics_Api
begin

text \<open>
  The tools of \<^verbatim>\<open>src/http/mcp.rs\<close>, which a language model calls over the Model Context
  Protocol: the sources, the accounts, the usage of a window, the newest events, the quota and
  the leverage of the plans, each read from the database alone. An answer is a JSON object whose
  absent values are null; an error is its text. The protocol itself is the library's.
\<close>

definition EVENT_STREAM :: string where "EVENT_STREAM = ''text/event-stream''"

definition DEFAULT_EVENTS :: int where "DEFAULT_EVENTS = 50"

definition MAX_EVENTS :: int where "MAX_EVENTS = 500"

text \<open>A field whose value may be absent is null then, where the HTTP API leaves it out.\<close>

definition nullable :: "json option \<Rightarrow> json option" where
  "nullable j = Some (unwrap_or JNull j)"

section \<open>Outputs\<close>

definition mcp_source :: "codecs \<Rightarrow> source_output \<Rightarrow> json" where
  "mcp_source cx out =
     (let s = so_row out in json_object
        [(''source_id'', json_id (Some (s_id s))),
         (''name'', Some (JString (s_name s))),
         (''kind'', Some (JString (source_kind_stored (s_kind s)))),
         (''base_url'', Some (JString (s_base_url s))),
         (''enabled'', json_flag (s_enabled s)),
         (''created_at'', json_instant cx (Some (s_created_at s))),
         (''last_event_at'', nullable (json_instant cx (so_last_event_at out))),
         (''event_count'', json_count (Some (int (so_event_count out))))])"

definition mcp_metrics :: "usage_metrics \<Rightarrow> json" where
  "mcp_metrics m = json_object
     [(''requests'', json_count (Some (um_requests m))),
      (''failures'', json_count (Some (um_failures m))),
      (''input_tokens'', json_count (Some (um_input_tokens m))),
      (''uncached_input_tokens'', json_count (Some (um_uncached_input_tokens m))),
      (''cache_read_tokens'', json_count (Some (um_cache_read_tokens m))),
      (''cache_write_tokens'', json_count (Some (um_cache_write_tokens m))),
      (''output_tokens'', json_count (Some (um_output_tokens m))),
      (''reasoning_tokens'', json_count (Some (um_reasoning_tokens m))),
      (''unclassified_tokens'', json_count (Some (um_unclassified_tokens m))),
      (''total_tokens'', json_count (Some (um_total_tokens m))),
      (''list_cost_usd'', json_number (Some (um_list_cost_usd m))),
      (''billed_cost_usd'', json_number (Some (um_billed_cost_usd m))),
      (''uncached_input_cost_usd'', json_number (Some (um_uncached_input_cost_usd m))),
      (''cache_read_cost_usd'', json_number (Some (um_cache_read_cost_usd m))),
      (''cache_write_cost_usd'', json_number (Some (um_cache_write_cost_usd m))),
      (''output_cost_usd'', json_number (Some (um_output_cost_usd m))),
      (''cache_savings_usd'', json_number (Some (um_cache_savings_usd m))),
      (''unpriced_requests'', json_count (Some (um_unpriced_requests m))),
      (''avg_latency_ms'', nullable (json_number (avg_latency_ms m))),
      (''avg_ttft_ms'', nullable (json_number (avg_ttft_ms m))),
      (''output_tokens_per_second'', nullable (json_number (output_tokens_per_second m)))]"

definition mcp_summary :: "analytics_texts \<Rightarrow> summary \<Rightarrow> json" where
  "mcp_summary ax s = json_object
     [(''metrics'', Some (mcp_metrics (sm_metrics s))),
      (''range_days'', json_count (Some (sm_range_days s))),
      (''active_days'', json_count (Some (int (sm_active_days s)))),
      (''daily_burn'', Some (burn_output (sm_burn s))),
      (''peak_day_by_cost'', nullable (map_option (peak_output ax) (sm_peak_by_cost s))),
      (''peak_day_by_tokens'', nullable (map_option (peak_output ax) (sm_peak_by_tokens s))),
      (''cache_hit_rate'', nullable (json_number (sm_cache_hit_rate s))),
      (''distinct'', Some (distinct_output (sm_distinct s)))]"

definition mcp_summary_fields :: "account_row \<Rightarrow> string \<Rightarrow> (string \<times> json option) list" where
  "mcp_summary_fields a source_name =
     [(''account_id'', json_id (Some (a_id a))),
      (''source_id'', json_id (Some (a_source a))),
      (''source_name'', Some (JString source_name)),
      (''provider'', Some (JString (a_provider a))),
      (''auth_kind'', Some (JString (auth_kind_stored (a_auth a)))),
      (''label'', nullable (json_text (a_label a))),
      (''display_name'', nullable (json_text (a_display a)))]"

definition mcp_account_summary :: "account_row \<Rightarrow> string \<Rightarrow> json" where
  "mcp_account_summary a source_name = json_object (mcp_summary_fields a source_name)"

text \<open>The fields of the summary are those of the account itself.\<close>

definition mcp_account :: "codecs \<Rightarrow> account_output \<Rightarrow> json" where
  "mcp_account cx out =
     (let a = ao_row out in json_object
        (mcp_summary_fields a (ao_source_name out) @
         [(''first_seen_at'', json_instant cx (Some (a_first a))),
          (''last_seen_at'', json_instant cx (Some (a_last a))),
          (''event_count'', json_count (Some (int (ao_event_count out))))]))"

definition mcp_event :: "codecs \<Rightarrow> usage_event \<Rightarrow> json" where
  "mcp_event cx event =
     (let e = ue_row event; u = e_usage e in json_object
        [(''event_id'', json_id (Some (e_id e))),
         (''source_id'', json_id (Some (e_source e))),
         (''occurred_at'', json_instant cx (Some (u_occurred_at u))),
         (''provider'', Some (JString (u_provider u))),
         (''model'', Some (JString (u_model u))),
         (''account'', Some (mcp_account_summary (ue_account event) (ue_source_name event))),
         (''harness'', nullable (json_text (u_harness u))),
         (''input_tokens'', json_count (Some (u_input_tokens u))),
         (''output_tokens'', json_count (Some (u_output_tokens u))),
         (''total_tokens'', json_count (Some (u_total_tokens u))),
         (''status_code'', json_count (Some (u_status_code u))),
         (''failed'', json_flag (u_failed u)),
         (''error_message'', nullable (json_text (u_error_message u)))])"

definition mcp_cooldown :: "codecs \<Rightarrow> cooldown \<Rightarrow> json" where
  "mcp_cooldown cx c = json_object
     [(''scope'', Some (JString (cd_scope c))),
      (''model_key'', nullable (json_text (cd_model_key c))),
      (''reason'', Some (JString (cd_reason c))),
      (''retry_at'', json_instant cx (Some (cd_retry_at c))),
      (''remaining_seconds'', json_count (Some (cd_remaining_seconds c)))]"

definition mcp_window :: "codecs \<Rightarrow> window_row \<Rightarrow> json" where
  "mcp_window cx w = json_object
     [(''window_key'', Some (JString (w_key w))),
      (''label'', Some (JString (w_label w))),
      (''used_fraction'', nullable (json_number (w_used_fraction w))),
      (''used_value'', nullable (json_number (w_used_value w))),
      (''limit_value'', nullable (json_number (w_limit_value w))),
      (''unit'', nullable (json_text (w_unit w))),
      (''window_seconds'', nullable (json_count (w_seconds w))),
      (''resets_at'', nullable (json_instant cx (w_resets_at w))),
      (''observed_at'', json_instant cx (Some (w_observed_at w)))]"

definition mcp_manual_reset :: "codecs \<Rightarrow> grant \<Rightarrow> json" where
  "mcp_manual_reset cx g = json_object
     [(''label'', nullable (json_text (g_label g))),
      (''remaining'', json_count (Some (g_remaining g))),
      (''total'', nullable (json_count (g_total g))),
      (''expires_at'', nullable (json_instant cx (g_expires_at g)))]"

text \<open>A sign-in that did not fail has no field for it, the one exception to the nulls.\<close>

definition mcp_quota_account :: "codecs \<Rightarrow> quota_account \<Rightarrow> json" where
  "mcp_quota_account cx q =
     (let c = qt_credential q in json_object
        [(''account'', Some (mcp_account_summary (qt_account q) (s_name (qt_source q)))),
         (''status'', nullable (json_text (c_status c))),
         (''status_message'', nullable (json_text (c_status_message c))),
         (''disabled'', json_flag (c_disabled c)),
         (''unavailable'', json_flag (c_unavailable c)),
         (''next_retry_after'', nullable (json_instant cx (c_next_retry c))),
         (''cooldowns'', json_list (mcp_cooldown cx) (c_cooldowns c)),
         (''account_type'', nullable (json_text (c_type c))),
         (''plan'', nullable (json_text (c_plan c))),
         (''soft_observed_at'', nullable (json_instant cx (c_soft_at c))),
         (''hard_refreshed_at'', nullable (json_instant cx (c_hard_at c))),
         (''hard_refresh_error'', nullable (json_text (c_hard_error c))),
         (''sign_in_error'', map_option sign_in_error_output (c_sign_in c)),
         (''reauthentication'', map_option reauthentication_output (qt_reauthentication q)),
         (''hard_refreshable'', json_flag (c_hard_refreshable c)),
         (''windows'', json_list (\<lambda>(w, _). mcp_window cx w) (qt_windows q)),
         (''manual_resets'', json_list (mcp_manual_reset cx) (qt_manual_resets q))])"

definition mcp_plan :: "codecs \<Rightarrow> plan_output \<Rightarrow> json" where
  "mcp_plan cx out =
     (let p = po_row out in json_object
        [(''plan_id'', json_id (Some (p_id p))),
         (''account'', Some (mcp_account_summary (po_account out) (po_source_name out))),
         (''name'', Some (JString (p_name p))),
         (''monthly_usd'', Some (JFloat (f64_value (p_monthly_usd p)))),
         (''period_start'', json_instant cx (Some (p_start p))),
         (''period_end'', nullable (json_instant cx (p_end p)))])"

definition mcp_period :: "codecs \<Rightarrow> billing_period \<Rightarrow> json" where
  "mcp_period cx b = json_object
     [(''period_start'', json_instant cx (Some (bp_start b))),
      (''period_end'', json_instant cx (Some (bp_end b))),
      (''complete'', json_flag (bp_complete b)),
      (''requests'', json_count (Some (int (bp_requests b)))),
      (''total_tokens'', json_count (Some (bp_total_tokens b))),
      (''list_cost_usd'', json_number (Some (bp_list_cost b))),
      (''leverage'', nullable (json_number (bp_leverage b))),
      (''effective_usd_per_mtok'', nullable (json_number (bp_effective_usd_per_mtok b)))]"

definition mcp_leverage :: "codecs \<Rightarrow> plan_output \<times> billing_period list \<Rightarrow> json" where
  "mcp_leverage cx lv = json_object
     [(''plan'', Some (mcp_plan cx (fst lv))),
      (''periods'', json_list (mcp_period cx) (snd lv))]"

section \<open>Tools\<close>

text \<open>What a tool answers: the text of its error, or its content.\<close>

type_synonym tool_answer = "string + json"

definition tool_sources :: "codecs \<Rightarrow> db \<Rightarrow> tool_answer" where
  "tool_sources cx d = Inr (json_object [(''sources'', json_list (mcp_source cx) (list_sources d))])"

definition tool_accounts :: "codecs \<Rightarrow> db \<Rightarrow> tool_answer" where
  "tool_accounts cx d = Inr (json_object [(''accounts'', json_list (mcp_account cx) (list_accounts d))])"

definition tool_usage_summary ::
  "codecs \<Rightarrow> analytics_texts \<Rightarrow> calendar \<Rightarrow> instant \<Rightarrow> string option \<Rightarrow> string option \<Rightarrow>
     string option \<Rightarrow> db \<Rightarrow> tool_answer" where
  "tool_usage_summary cx ax cl now from_text to_text zone d =
     (case read_zone ax cl zone of
        Inl e \<Rightarrow> Inl e
      | Inr tz \<Rightarrow>
     (case Usage_Api.read_instant cx ''from'' from_text of
        Inl e \<Rightarrow> Inl e
      | Inr lo \<Rightarrow>
     (case Usage_Api.read_instant cx ''to'' to_text of
        Inl e \<Rightarrow> Inl e
      | Inr hi \<Rightarrow>
     (case load_summary cl d (window now lo hi tz) of
        Inr s \<Rightarrow> Inr (mcp_summary ax s)
      | Inl (Unreadable i t) \<Rightarrow> Inl ''the database refused the request''
      | Inl e \<Rightarrow> Inl (analytics_error_text (ax_why ax) e)))))"

definition recent_rows :: "int option \<Rightarrow> bool option \<Rightarrow> db \<Rightarrow> event_row list" where
  "recent_rows limit failed_only d =
     usage_page d (no_filter\<lparr>uf_failed := filter_option (\<lambda>only. only) failed_only\<rparr>)
       (nat (clamp 1 MAX_EVENTS (unwrap_or DEFAULT_EVENTS limit))) None"

definition tool_recent_events :: "codecs \<Rightarrow> int option \<Rightarrow> bool option \<Rightarrow> db \<Rightarrow> tool_answer" where
  "tool_recent_events cx limit failed_only d =
     Inr (json_object [(''events'',
       json_list (mcp_event cx) (List.map_filter (loaded d) (recent_rows limit failed_only d)))])"

definition tool_quota_status ::
  "codecs \<Rightarrow> 'u url_library \<Rightarrow> instant \<Rightarrow> string option \<Rightarrow> db \<Rightarrow> tool_answer" where
  "tool_quota_status cx ul now source_id d =
     (case read_text parse_id ''source_id is not an id'' source_id of
        Inl e \<Rightarrow> Inl e
      | Inr source \<Rightarrow> Inr (json_object
          [(''accounts'', json_list (mcp_quota_account cx) (list_quota_accounts ul d source now))]))"

text \<open>The calendar answers None where it leaves its range, as for the operation of the HTTP API.\<close>

definition tool_leverage ::
  "codecs \<Rightarrow> (instant \<Rightarrow> int \<Rightarrow> instant option) \<Rightarrow> instant \<Rightarrow> db \<Rightarrow> tool_answer option" where
  "tool_leverage cx month now d =
     map_option (\<lambda>plans. Inr (json_object [(''plans'', json_list (mcp_leverage cx) plans)]))
       (those (map (\<lambda>out. map_option (Pair out) (plan_leverage month d DEFAULT_PERIODS now out)) (list_plans d)))"

section \<open>The framing of an answer\<close>

text \<open>Inserting a header replaces every line of its name.\<close>

definition prefer_event_stream :: "http_request \<Rightarrow> http_request" where
  "prefer_event_stream r =
     (case header_text r ''accept'' of
        Some accept \<Rightarrow>
          if contains EVENT_STREAM accept
          then r\<lparr>hr_headers := filter (\<lambda>(n, _). n \<noteq> ''accept'') (hr_headers r) @
                 [(''accept'', ''text/event-stream, application/json'')]\<rparr>
          else r
      | None \<Rightarrow> r)"

section \<open>Lemmas\<close>

text \<open>The tool shows the events of the first page that the HTTP API answers for the same filter.\<close>

lemma recent_events_are_a_page:
  assumes "read_filter cx q = Inr (no_filter\<lparr>uf_failed := filter_option (\<lambda>only. only) failed_only\<rparr>)"
    and "eq_before q = None" and "eq_after q = None" and "eq_limit q = Some n" and "limit = Some n"
  shows "map_sum id fst (event_page cx q d) = Inr (recent_rows limit failed_only d)"
proof -
  have "read_cursor q = Inr None" by (simp add: read_cursor_def event_id_def read_text_def assms or_else_def)
  then show ?thesis
    by (simp add: event_page_def assms recent_rows_def clamped_def clamp_def MAX_EVENTS_def MAX_LIMIT_def Let_def)
qed

text \<open>
  A client that offered the event stream gets it named first and in one line; any other request
  is passed on as it came, and a second pass changes nothing.
\<close>

lemma preferred_accept:
  assumes "header_text r ''accept'' = Some accept" and "contains EVENT_STREAM accept"
  shows "header_lines (prefer_event_stream r) ''accept'' = [''text/event-stream, application/json'']"
  using assms by (simp add: prefer_event_stream_def header_lines_def filter_empty_conv split_beta)

lemma prefer_keeps_other_headers:
  "n \<noteq> ''accept'' \<Longrightarrow> header_lines (prefer_event_stream r) n = header_lines r n"
  by (auto simp: prefer_event_stream_def header_lines_def split_beta split: option.split
      intro!: arg_cong [of _ _ "map snd"] filter_cong)

text \<open>Nothing of the caller, the session or the user agent of a request is shown.\<close>

lemma events_hide_callers:
  assumes "ue_account e = ue_account e'" and "ue_source_name e = ue_source_name e'"
    and "ue_row e' = ue_row e\<lparr>e_usage := e_usage (ue_row e)
      \<lparr>u_caller := c, u_session_id := s, u_user_agent := a\<rparr>\<rparr>"
  shows "mcp_event cx e' = mcp_event cx e"
  using assms by (simp add: mcp_event_def Let_def)

end
