(* ===== verification/Service.thy ===== *)
theory Service
  imports Mcp Sources
begin

text \<open>
  The process around the operations: what \<^verbatim>\<open>src/main.rs\<close> reads before it listens, the routes
  of \<^verbatim>\<open>src/http/mod.rs\<close> with the guard in front of each, and the files of the web client
  (\<^verbatim>\<open>src/http/assets.rs\<close>). The environment, the reader of the configuration file, the opening
  of the database, the matching of a path against the routes and the embedded files are
  parameters.
\<close>

section \<open>Start\<close>

datatype env_value = Present string | NotPresent | NotUnicode

definition DEFAULT_PORT :: nat where "DEFAULT_PORT = 3000"

definition DEFAULT_DATABASE_URL :: string where "DEFAULT_DATABASE_URL = ''sqlite:metered-usage.db''"

definition DUMP_OPENAPI :: string where "DUMP_OPENAPI = ''--dump-openapi''"

definition TOKEN_VARIABLE :: string where "TOKEN_VARIABLE = ''METERED_USAGE_TOKEN''"

definition READ_TOKEN_VARIABLE :: string where "READ_TOKEN_VARIABLE = ''METERED_USAGE_READ_TOKEN''"

definition CONSUMER_TOKEN_VARIABLE :: string where
  "CONSUMER_TOKEN_VARIABLE = ''METERED_USAGE_CONSUMER_TOKEN''"

definition CONFIG_VARIABLE :: string where "CONFIG_VARIABLE = ''METERED_USAGE_CONFIG''"

datatype startup_error =
    NoDumpPath
  | NoToken
  | EmptyToken string
  | BadAddress
  | UnreadableVariable string
  | UnreadableFile string
  | BadConfig config_error
  | NoDatabase string
  | NoClient

text \<open>A set variable as text: a value that is not Unicode counts as not set here.\<close>

definition env_text :: "env_value \<Rightarrow> string option" where
  "env_text v = (case v of Present t \<Rightarrow> Some t | _ \<Rightarrow> None)"

definition environment :: "(string \<Rightarrow> env_value) \<Rightarrow> string \<Rightarrow> string \<Rightarrow> string" where
  "environment env name otherwise = unwrap_or otherwise (env_text (env name))"

definition parse_token :: "string \<Rightarrow> string \<Rightarrow> startup_error + token" where
  "parse_token variable given = ok_or (EmptyToken variable) (new_token given)"

definition required_token :: "(string \<Rightarrow> env_value) \<Rightarrow> startup_error + token" where
  "required_token env =
     (case env TOKEN_VARIABLE of
        Present t \<Rightarrow> parse_token TOKEN_VARIABLE t
      | _ \<Rightarrow> Inl NoToken)"

definition optional_token :: "(string \<Rightarrow> env_value) \<Rightarrow> string \<Rightarrow> startup_error + token option" where
  "optional_token env variable = transposed (parse_token variable) (env_text (env variable))"

definition bind_address ::
  "(string \<Rightarrow> 'a option) \<Rightarrow> (nat \<Rightarrow> 'a) \<Rightarrow> (string \<Rightarrow> env_value) \<Rightarrow> startup_error + 'a" where
  "bind_address read_address localhost env =
     (case env ''BIND_ADDRESS'' of
        Present t \<Rightarrow> ok_or BadAddress (read_address t)
      | NotPresent \<Rightarrow> Inr (localhost DEFAULT_PORT)
      | NotUnicode \<Rightarrow> Inl (UnreadableVariable ''BIND_ADDRESS''))"

definition default_config :: config where
  "default_config = \<lparr>cg_sources = [], cg_pricing = read_pricing None\<rparr>"

text \<open>Reading the file at a path answers what the TOML reader leaves, or why it could not.\<close>

definition load_config ::
  "(string \<Rightarrow> string + config_file) \<Rightarrow> (string \<Rightarrow> env_value) \<Rightarrow> startup_error + config" where
  "load_config read_file env =
     (case env CONFIG_VARIABLE of
        Present path \<Rightarrow>
          (case read_file path of
             Inl e \<Rightarrow> Inl (UnreadableFile e)
           | Inr f \<Rightarrow> map_sum BadConfig id (parse_config (\<lambda>v. env_text (env v)) f))
      | NotPresent \<Rightarrow> Inr default_config
      | NotUnicode \<Rightarrow> Inl (UnreadableVariable CONFIG_VARIABLE))"

record 'a service =
  sv_address :: 'a
  sv_tokens :: tokens
  sv_config :: config
  sv_db :: db

definition start_service ::
  "(string \<Rightarrow> 'a option) \<Rightarrow> (nat \<Rightarrow> 'a) \<Rightarrow> (string \<Rightarrow> string + config_file) \<Rightarrow>
     (string \<Rightarrow> string + db) \<Rightarrow> bool \<Rightarrow> (nat \<Rightarrow> id) \<Rightarrow> instant \<Rightarrow> (string \<Rightarrow> env_value) \<Rightarrow>
     startup_error + 'a service" where
  "start_service read_address localhost read_file open_db client ids now env =
     (case required_token env of
        Inl e \<Rightarrow> Inl e
      | Inr full \<Rightarrow>
     (case optional_token env READ_TOKEN_VARIABLE of
        Inl e \<Rightarrow> Inl e
      | Inr read_only \<Rightarrow>
     (case optional_token env CONSUMER_TOKEN_VARIABLE of
        Inl e \<Rightarrow> Inl e
      | Inr consumer \<Rightarrow>
     (case bind_address read_address localhost env of
        Inl e \<Rightarrow> Inl e
      | Inr addr \<Rightarrow>
     (case load_config read_file env of
        Inl e \<Rightarrow> Inl e
      | Inr cfg \<Rightarrow>
     (case open_db (environment env ''DATABASE_URL'' DEFAULT_DATABASE_URL) of
        Inl e \<Rightarrow> Inl (NoDatabase e)
      | Inr d \<Rightarrow>
          let synced = sync_sources ids now cfg d
          in if client
             then Inr \<lparr>sv_address = addr,
               sv_tokens = \<lparr>tk_token = full, tk_read = read_only, tk_consumer = consumer\<rparr>,
               sv_config = cfg, sv_db = synced\<rparr>
             else Inl NoClient))))))"

text \<open>With its flag the process writes the API document to the path that follows and stops.\<close>

fun dump_path :: "string list \<Rightarrow> (startup_error + string) option" where
  "dump_path [] = None"
| "dump_path (a # args) =
     (if a = DUMP_OPENAPI then Some (case args of [] \<Rightarrow> Inl NoDumpPath | path # _ \<Rightarrow> Inr path)
      else dump_path args)"

section \<open>Routes\<close>

definition MOUNT :: string where "MOUNT = ''/api''"

text \<open>
  Where a path leads: an operation, by the path under the mount; the tools; the API document; or
  a file, by the path that its pattern matched.
\<close>

datatype target = Operation string | Tools | Document | File string

definition routes ::
  "codecs \<Rightarrow> (string \<Rightarrow> target) \<Rightarrow> tokens \<Rightarrow>
     (identity option \<Rightarrow> http_request \<Rightarrow> 's \<Rightarrow> response \<times> 's) \<Rightarrow>
     (http_request \<Rightarrow> 's \<Rightarrow> response \<times> 's) \<Rightarrow> (http_request \<Rightarrow> response) \<Rightarrow>
     (string \<Rightarrow> http_request \<Rightarrow> response) \<Rightarrow> http_request \<Rightarrow> 's \<Rightarrow> response \<times> 's" where
  "routes cx matched ts operations tools document file r st =
     (case matched (hr_path r) of
        Operation path \<Rightarrow> require_credential cx ts operations (r\<lparr>hr_path := path\<rparr>) st
      | Tools \<Rightarrow>
          require_credential cx \<lparr>tk_token = tk_token ts, tk_read = None, tk_consumer = None\<rparr>
            (\<lambda>_ r. tools (prefer_event_stream r)) r st
      | Document \<Rightarrow> (document r, st)
      | File path \<Rightarrow> (file path r, st))"

section \<open>Files\<close>

definition trim_slashes :: "string \<Rightarrow> string" where
  "trim_slashes path = dropWhile (\<lambda>c. c = CHR ''/'') path"

text \<open>
  The extension of the last part of a path that is a name: what follows its last dot, where
  something comes before that dot.
\<close>

definition extension :: "string \<Rightarrow> string option" where
  "extension path =
     (case rev (filter (\<lambda>part. part \<noteq> [] \<and> part \<noteq> ''.'') (split_on CHR ''/'' path)) of
        [] \<Rightarrow> None
      | name # _ \<Rightarrow>
          (case rev (split_on CHR ''.'' name) of
             ext # stem # stems \<Rightarrow>
               if name = ''..'' \<or> (stem = [] \<and> stems = []) then None else Some ext
           | _ \<Rightarrow> None))"

definition content_type :: "string \<Rightarrow> string" where
  "content_type path =
     (let ext = extension path
      in if ext = Some ''css'' then ''text/css; charset=utf-8''
         else if ext = Some ''html'' then ''text/html; charset=utf-8''
         else if ext = Some ''js'' then ''text/javascript; charset=utf-8''
         else if ext = Some ''svg'' then ''image/svg+xml''
         else if ext = Some ''png'' then ''image/png''
         else if ext = Some ''ico'' then ''image/x-icon''
         else if ext = Some ''woff2'' then ''font/woff2''
         else ''application/octet-stream'')"

definition not_found :: response where
  "not_found = \<lparr>rs_status = 404, rs_headers = [], rs_body = []\<rparr>"

definition file_response :: "string \<Rightarrow> string \<Rightarrow> response" where
  "file_response path bytes =
     \<lparr>rs_status = 200, rs_headers = [(''content-type'', content_type path)], rs_body = bytes\<rparr>"

definition serve_file :: "(string \<Rightarrow> string option) \<Rightarrow> string \<Rightarrow> response" where
  "serve_file assets given =
     (let trimmed = trim_slashes given; path = (if trimmed = [] then ''index.html'' else trimmed)
      in case assets path of
           Some bytes \<Rightarrow> file_response path bytes
         | None \<Rightarrow>
             if CHR ''.'' \<in> set (last (split_on CHR ''/'' path)) then not_found
             else (case assets ''index.html'' of
                     Some bytes \<Rightarrow> file_response ''index.html'' bytes
                   | None \<Rightarrow> not_found))"

section \<open>Lemmas\<close>

lemma parse_token_Inr: "parse_token variable given = Inr t \<longleftrightarrow> given = t \<and> t \<noteq> []"
  by (auto simp: parse_token_def new_token_def ok_or_def)

lemma optional_token_Inr:
  "optional_token env variable = Inr (Some t) \<Longrightarrow> env variable = Present t \<and> t \<noteq> []"
  by (auto simp: optional_token_def transposed_Inr parse_token_Inr env_text_def split: option.splits env_value.splits)

lemma load_config_ok: "load_config read_file env = Inr cfg \<Longrightarrow> config_ok cfg"
proof -
  assume a: "load_config read_file env = Inr cfg"
  show "config_ok cfg"
  proof (cases "env CONFIG_VARIABLE")
    case (Present path)
    then obtain f where "map_sum BadConfig id (parse_config (\<lambda>v. env_text (env v)) f) = Inr cfg"
      using a by (auto simp: load_config_def split: sum.splits)
    then show ?thesis using parse_config_sound [of "\<lambda>v. env_text (env v)" f]
      by (cases "parse_config (\<lambda>v. env_text (env v)) f") simp_all
  next
    case NotPresent
    then show ?thesis using a by (auto simp: load_config_def default_config_def config_ok_def read_pricing_def)
  next
    case NotUnicode
    then show ?thesis using a by (simp add: load_config_def)
  qed
qed

text \<open>A path that names no file of its own and has no dot in its last part is the client's.\<close>

lemma deep_link_serves_the_client:
  assumes "assets ''index.html'' = Some page" and "assets (trim_slashes p) = None" and "CHR ''.'' \<notin> set p"
  shows "serve_file assets p = file_response ''index.html'' page"
proof -
  have sub: "set (last (split_on c t)) \<subseteq> set t" for c t
  proof (induction t rule: rev_induct)
    case (snoc x t)
    have "split_on c (t @ [x]) = (if x = c then split_on c t @ [[]]
        else butlast (split_on c t) @ [last (split_on c t) @ [x]])"
      by (induction t) (auto split: list.splits if_splits)
    then show ?case using snoc by auto
  qed simp
  have "CHR ''.'' \<notin> set (trim_slashes p)" using assms(3) set_dropWhileD by (fastforce simp: trim_slashes_def)
  then show ?thesis using assms(1,2) sub [of "CHR ''/''" "trim_slashes p"]
    by (auto simp: serve_file_def Let_def)
qed

section \<open>Properties\<close>

text \<open>
  C24: The service never listens without its access token, on an empty token, or on a configuration
  that is not sound: every start that does not fail took the token from its variable, has only
  tokens that are not empty, one source per key with a secret for each, and a database whose
  sources were brought in step with that configuration.
\<close>

theorem service_starts_guarded:
  assumes "start_service read_address localhost read_file open_db client ids now env = Inr sv"
  shows "env TOKEN_VARIABLE = Present (tk_token (sv_tokens sv)) \<and> tk_token (sv_tokens sv) \<noteq> [] \<and>
    (\<forall>t. tk_read (sv_tokens sv) = Some t \<longrightarrow> env READ_TOKEN_VARIABLE = Present t \<and> t \<noteq> []) \<and>
    (\<forall>t. tk_consumer (sv_tokens sv) = Some t \<longrightarrow> env CONSUMER_TOKEN_VARIABLE = Present t \<and> t \<noteq> []) \<and>
    config_ok (sv_config sv) \<and>
    (\<exists>d. open_db (environment env ''DATABASE_URL'' DEFAULT_DATABASE_URL) = Inr d \<and>
       sv_db sv = sync_sources ids now (sv_config sv) d)"
proof -
  from assms obtain full read_only consumer addr cfg d where
    "required_token env = Inr full" "optional_token env READ_TOKEN_VARIABLE = Inr read_only"
    "optional_token env CONSUMER_TOKEN_VARIABLE = Inr consumer" "load_config read_file env = Inr cfg"
    "open_db (environment env ''DATABASE_URL'' DEFAULT_DATABASE_URL) = Inr d"
    "sv = \<lparr>sv_address = addr, sv_tokens = \<lparr>tk_token = full, tk_read = read_only, tk_consumer = consumer\<rparr>,
      sv_config = cfg, sv_db = sync_sources ids now cfg d\<rparr>"
    by (auto simp: start_service_def Let_def split: sum.splits if_splits)
  then show ?thesis
    by (auto simp: required_token_def parse_token_Inr split: env_value.splits
        dest: optional_token_Inr load_config_ok)
qed

definition bare_environment :: "string \<Rightarrow> env_value" where
  "bare_environment v = (if v = TOKEN_VARIABLE then Present ''secret'' else NotPresent)"

theorem service_starts_guarded_witness:
  "\<exists>sv. start_service (\<lambda>_. None) id (\<lambda>_. Inl []) (\<lambda>_. Inr empty_db) True int 0 bare_environment = Inr sv \<and>
     tk_token (sv_tokens sv) = ''secret'' \<and> config_ok (sv_config sv)"
proof -
  obtain sv where sv: "start_service (\<lambda>_. None) id (\<lambda>_. Inl []) (\<lambda>_. Inr empty_db) True int 0 bare_environment = Inr sv"
    by (simp add: start_service_def required_token_def optional_token_def bind_address_def load_config_def
        bare_environment_def parse_token_def new_token_def ok_or_def transposed_def env_text_def
        TOKEN_VARIABLE_def READ_TOKEN_VARIABLE_def CONSUMER_TOKEN_VARIABLE_def CONFIG_VARIABLE_def)
  from service_starts_guarded [OF this] show ?thesis
    using sv by (simp add: bare_environment_def)
qed

text \<open>
  C23: Nothing but the client's files, the API document and the open operations is reached without a
  credential, and the tools of a language model need the full token: a request that bears none
  of the tokens changes nothing and is answered 401 on every guarded path, and one that bears
  only a narrow token is answered 401 by the tools.
\<close>

theorem routes_are_guarded:
  assumes "\<not> bears (tk_token ts) r"
    and "case matched (hr_path r) of
        Operation path \<Rightarrow> (hr_method r, path) \<notin> set OPEN \<and>
          (\<forall>t. tk_read ts = Some t \<or> tk_consumer ts = Some t \<longrightarrow> \<not> bears t r)
      | Tools \<Rightarrow> (hr_method r, hr_path r) \<notin> set OPEN
      | _ \<Rightarrow> False"
  shows "routes cx matched ts operations tools document file r st = (unauthorized cx, st)"
proof -
  have bears_path: "bears t (r\<lparr>hr_path := p\<rparr>) = bears t r" for t p
    by (simp add: bears_def header_text_def header_lines_def cookies_def)
  have "admit ts' (r\<lparr>hr_path := p\<rparr>) m q = None"
    if "\<not> bears (tk_token ts') r" "\<And>t. tk_read ts' = Some t \<or> tk_consumer ts' = Some t \<Longrightarrow> \<not> bears t r" for ts' p m q
    using that admit_SomeD [of ts' "r\<lparr>hr_path := p\<rparr>" m q] bears_path by (cases "admit ts' (r\<lparr>hr_path := p\<rparr>) m q") auto
  moreover have "r = r\<lparr>hr_path := hr_path r\<rparr>" by simp
  ultimately have none: "admit ts' r m q = None"
    if "\<not> bears (tk_token ts') r" "\<And>t. tk_read ts' = Some t \<or> tk_consumer ts' = Some t \<Longrightarrow> \<not> bears t r" for ts' m q
    using that by metis
  show ?thesis
  proof (cases "matched (hr_path r)")
    case (Operation p)
    then show ?thesis using assms bears_path admit_SomeD [of ts "r\<lparr>hr_path := p\<rparr>" "hr_method r" p]
      by (cases "admit ts (r\<lparr>hr_path := p\<rparr>) (hr_method r) p")
        (auto simp: routes_def require_credential_def is_open_def)
  next
    case Tools
    moreover have "admit \<lparr>tk_token = tk_token ts, tk_read = None, tk_consumer = None\<rparr> r m q = None" for m q
      using assms(1) by (intro none) simp_all
    ultimately show ?thesis using assms(2) by (simp add: routes_def require_credential_def is_open_def)
  qed (use assms in simp_all)
qed

definition tool_call :: http_request where
  "tool_call = \<lparr>hr_method = POST, hr_path = ''/mcp'',
     hr_headers = [(''authorization'', ''Bearer kettle'')], hr_body = []\<rparr>"

theorem routes_are_guarded_witness:
  "routes length_codecs (\<lambda>_. Tools) \<lparr>tk_token = ''full'', tk_read = Some ''kettle'', tk_consumer = None\<rparr>
     (\<lambda>_ _ n. (not_found, Suc n)) (\<lambda>_ n. (not_found, Suc n)) (\<lambda>_. not_found) (\<lambda>_ _. not_found) tool_call (0::nat) =
     (unauthorized length_codecs, 0)"
proof (rule routes_are_guarded)
  show "\<not> bears (tk_token \<lparr>tk_token = ''full'', tk_read = Some ''kettle'', tk_consumer = None\<rparr>) tool_call"
    by (simp add: bears_def tool_call_def header_text_def header_lines_def to_str_def cookies_def List.map_filter_def)
qed (simp add: tool_call_def OPEN_def)

end
