(* ===== verification/Spec2Isabelle.thy ===== *)
theory Spec2Isabelle
  imports Ids Stored Wakes Continuations Snapshots Merging Prices Catalog Plans Cliproxy Litellm Windows Responses Ingest
    Providers Sources Credentials Quota Listings Journal Figures Collectors Timers Change_Api Service
begin

section \<open>The program\<close>

text \<open>
  Metered usage collects the usage records of LLM gateways (CLIProxyAPI and LiteLLM), prices
  them, and shows the quota of the credentials behind them. It is one process over one SQLite
  database, and its parts meet in that database:

  \<^item> collectors read the records a gateway buffers and hand them to the ingest, which gives each
    an account and an id, stores it once and publishes it;
  \<^item> a background fill freezes a cost onto each event, from prices an operator enters or the
    catalog of LiteLLM names; plans are measured against those costs;
  \<^item> the quota part asks each gateway for its credentials and, through it, each provider for the
    windows and manual resets of a credential; what a click spends is journalled;
  \<^item> every write that a reader would notice records a change, which a long poll waits for;
  \<^item> the HTTP API, behind three tokens, reads all of it, edits prices, plans and accounts, and
    answers analytics; a language model reads it through a few tools.

  The model is one record \<open>db\<close> of the tables (theory Schema), and an operation is a function
  from a database to an answer and a database, the way a write transaction is: it happens whole
  or not at all. What an operation sends to a gateway is a trace, which its state carries.
\<close>

section \<open>Theories and sources\<close>

text \<open>
  Data, with the names of the sources (paths are under \<^verbatim>\<open>src/\<close> of the repository):

  \<^item> Prelude: machine words, the string operations of Rust's library, SQL's row operations as list
    functions, and two interfaces, \<open>keyed_upsert\<close> (INSERT ON CONFLICT DO UPDATE) and \<open>codec\<close> (a
    value and its stored text).
  \<^item> Schema: enums with their codecs, one record per table (\<^verbatim>\<open>migrations/\<close>), JSON, the database.
  \<^item> Ids: \<^verbatim>\<open>id.rs\<close>, on 64 bit words. Stored: the text of an instant in a column
    (\<^verbatim>\<open>database/codec.rs\<close>), whose order is that of time.
  \<^item> Changes, Snapshots, Wakes: \<^verbatim>\<open>change/\<close> and the transactions of \<^verbatim>\<open>database/mod.rs\<close>.
  \<^item> Accounts, Merging, Continuations: \<^verbatim>\<open>account/\<close>.

  Usage and money:

  \<^item> Usage, Cliproxy, Litellm, Ingest: \<^verbatim>\<open>usage/\<close>; from a record's JSON to the stored event.
  \<^item> Resp, Collectors: \<^verbatim>\<open>collector/\<close>; from the bytes of a connection to batches, commits, retries.
  \<^item> Prices, Catalog, Plans: \<^verbatim>\<open>price/\<close> and \<^verbatim>\<open>plan/\<close>.
  \<^item> Metrics, Buckets, Aggregates, Breakdowns, Figures: \<^verbatim>\<open>analytics/\<close>; from measures and buckets to
    breakdown, series, rollup, summary, samples, sessions and health.

  Quota:

  \<^item> Windows (\<^verbatim>\<open>quota/window.rs\<close>, \<^verbatim>\<open>calibration.rs\<close>, \<^verbatim>\<open>prediction.rs\<close>), Responses
    (\<^verbatim>\<open>response.rs\<close>), Credentials (\<^verbatim>\<open>credential.rs\<close>, \<^verbatim>\<open>manual_reset.rs\<close>, \<^verbatim>\<open>sign_in.rs\<close>,
    \<^verbatim>\<open>recovery.rs\<close>).
  \<^item> Gateway (\<^verbatim>\<open>quota/management.rs\<close>), Readers, the five Adapter theories and Providers
    (\<^verbatim>\<open>quota/provider/\<close>). An adapter's requests are what the locales \<open>adapter\<close> and
    \<open>quiet_adapter\<close> bound; each of the seven is an interpretation.
  \<^item> Quota (\<^verbatim>\<open>quota/mod.rs\<close>, \<^verbatim>\<open>cooldown.rs\<close>, \<^verbatim>\<open>reuse.rs\<close>): sync, hard refresh, cooldown reset,
    spending a reset. Listings: the locale \<open>quota_kept\<close> of what all of them preserve.

  The service:

  \<^item> Sources: \<^verbatim>\<open>config.rs\<close> and \<^verbatim>\<open>source/\<close>.
  \<^item> Outputs, Auth, Handlers: \<^verbatim>\<open>http/conditional.rs\<close>, \<^verbatim>\<open>http/auth.rs\<close>, the quota and account
    operations of \<^verbatim>\<open>http/api/\<close> with their wire types.
  \<^item> Actions, Journal: \<^verbatim>\<open>http/quota_action.rs\<close>, its store and its owners; Journal is their state
    machine.
  \<^item> Billing_Api, Usage_Api, Change_Api, Analytics_Api: the other operations of \<^verbatim>\<open>http/api/\<close>;
    Mcp: \<^verbatim>\<open>http/mcp.rs\<close>.
  \<^item> Timers: the loops that the parts spawn. Service: \<^verbatim>\<open>main.rs\<close>, \<^verbatim>\<open>http/mod.rs\<close>,
    \<^verbatim>\<open>http/assets.rs\<close>.

  A function keeps the name it has in the sources, with a prefix or a suffix where two of them
  meet; a method of a type carries the type's name or its verb and object.
\<close>

section \<open>What the lemmas show\<close>

text \<open>
  \<^item> Identity and history. Minted ids increase through any interleaving of passes on the atomic
    word; a record is stored once however often it is delivered, and the bytes that are hashed
    tell two records apart; a merge of accounts loses nothing and leaves one step from any account to the
    one that holds its usage.
  \<^item> Collection. What a session takes off a gateway's queue is stored, refused with its reason, or
    carried to the next session; what was only pushed to it is lost when a commit fails; retries
    back off and start over after a success; a poll reads every page. RESP replies read back.
  \<^item> Money. An event is priced by the best row in force; the parts of a cost add up to it; plans
    stay valid, and a plan's leverage counts each request once.
  \<^item> Analytics. Series, rollup and breakdown each account for every request of the window exactly
    once; health counts each request of its window in one bucket; peaks, samples and sessions are
    what their names say.
  \<^item> Quota. The tables keep their types through every operation; exhaustion read out of responses
    follows the newest evidence; recovery backs off; no timer, whatever a gateway answers, sends
    it anything that costs.
  \<^item> Gestures. At every reachable state of the journal a scope has one running action; a gesture
    with a key runs once through restarts, and a keyed reset is spent once.
  \<^item> Readers. A page of changes is that of an append-only log; a reader that waits misses nothing
    and loses no wake, step by step between the writers; the event stream resumes without a gap;
    the pages of events show each once.
  \<^item> Access. No narrow token changes anything but by the two refreshes it may ask for; nothing
    guarded is reached without a token, and the tools need the full one; the service starts only
    on tokens and a configuration that are sound.

  Where a lemma showed the code to do something else than a comment says, its text says so.
\<close>

section \<open>Loops and bounds\<close>

text \<open>
  Loops are structural where the source walks a list. The reader of a connection, the drain of a
  queue and the session's batches end with the bytes they consume, which is their measure; the
  buckets of a window end because each starts after the last, and are refused above 5000. Three
  loops are partial functions: the pages of LiteLLM, which end when the gateway answers a short
  page; the periods of a plan, which end where the calendar or the count does; and the windows
  opened on use, which end for windows of an hour or more (\<open>opened_on_use_ends\<close>) and need not
  for shorter ones. \<open>follow_pages\<close> of Usage_Api, a client and not part of the service, takes fuel:
  one more than the events of the filter is enough.

  Ids, hashes of records, token comparison and the period of a timer are on words of their width,
  with their wrap-around. Token counts are checked or saturated where the source does so. The sums
  of the analytics are exact integers, where SQLite's would overflow an i64. A floating point number
  is the exact rational it stands for, and arithmetic on it is exact: rounding is not modelled.
\<close>

section \<open>Parameters\<close>

text \<open>
  Code outside the repository is an argument of the definitions that use it: the reader and the
  printer of JSON, of TOML and of instants, the URL library, the hash, time zones, the calendar and
  the text of dates, the environment, the embedded files, the ids that are minted for rows, and the
  gateways. A gateway is a world that answers each request after those sent before it, and a clock
  that stands still between two requests; a connection is the bytes its peer sends until it closes.
  What a theorem needs of one of these is a hypothesis of that theorem, and its witness gives an
  instance.
\<close>

section \<open>Not modelled\<close>

text \<open>
  \<^item> Failures of the database, but for the commit of a collector's batch; the errors of a read of
    an unreadable row are.
  \<^item> Concurrency inside an operation: calls that run at once are sent in the order they are written.
    Requests that come in while an action is queued are a function of the state (\<open>others\<close>); the
    fifty seconds a response waits only choose between a pending and a final answer.
  \<^item> Unicode: case and white space are those of ASCII; a string is its bytes.
  \<^item> Serde's second form of a record, an array of its fields; an object is read. The order of fields
    in printed JSON is that of their names.
  \<^item> A conflict of a minted id, which Ids shows not to arise; groups of a statement in an order other
    than the one written, on which no answer depends.
  \<^item> Columns as text: outside Stored an instant is its nanoseconds, compared as a number. Where the
    sources compare other texts of instants, the model does too.
  \<^item> Logging, tracing, the OpenAPI document, the keep-alive of streams, the capacity of channels, the
    opening of the database with its migrations, tests, and the TypeScript client.
\<close>

end
